(* ===== verification/Prelude.thy ===== *)
theory Prelude
  imports Main "HOL-Library.Word" "HOL-Library.Monad_Syntax"
begin

text \<open>
  Shared vocabulary of the development: machine integer types, the error codes of
  \<^verbatim>\<open>include/a0/err.h\<close>, and a little-endian byte codec with the byte memory built on it.
  Memory is a total function from offsets to bytes; a multi-byte load or store names its
  width in bytes. The load/store laws are collected in \<open>mem_simps\<close>.
\<close>

unbundle bit_operations_syntax

type_synonym u8 = "8 word"
type_synonym u32 = "32 word"
type_synonym u64 = "64 word"

named_theorems mem_simps \<open>loads after stores\<close>

section \<open>Error codes\<close>

text \<open>
  The \<^verbatim>\<open>errno\<close> values the library itself produces or tests for. Any other code that a system
  call reports is \<open>EOTHER n\<close>.
\<close>

datatype errno =
    EPERM | ENOENT | EAGAIN | EBUSY | EEXIST | ENOTDIR | EINVAL | ESPIPE | EDEADLK
  | ENAMETOOLONG | EBADF | ESHUTDOWN | ETIMEDOUT | EOWNERDEAD | EOTHER nat

text \<open>
  \<open>a0_err_t\<close>. The thread-local \<^verbatim>\<open>a0_err_syscode\<close>, which the source sets in the same step as
  it returns \<^verbatim>\<open>A0_ERR_SYS\<close>, is the argument of the constructor.
\<close>

datatype a0_err =
    A0_OK
  | A0_ERR_SYS errno
  | A0_ERR_CUSTOM_MSG string
  | A0_ERR_INVALID_ARG
  | A0_ERR_RANGE
  | A0_ERR_AGAIN
  | A0_ERR_ITER_DONE
  | A0_ERR_NOT_FOUND
  | A0_ERR_FRAME_LARGE
  | A0_ERR_BAD_PATH
  | A0_ERR_BAD_TOPIC
  | A0_ERR_CANCELLED

definition A0_MAKE_SYSERR :: "errno \<Rightarrow> a0_err" where
  "A0_MAKE_SYSERR e = A0_ERR_SYS e"

text \<open>\<open>None\<close> stands for the 0 that \<^verbatim>\<open>A0_SYSERR\<close> returns when the error is not a system error.\<close>

fun A0_SYSERR :: "a0_err \<Rightarrow> errno option" where
  "A0_SYSERR (A0_ERR_SYS e) = Some e"
| "A0_SYSERR _ = None"

lemma A0_SYSERR_make [simp]: "A0_SYSERR (A0_MAKE_SYSERR e) = Some e"
  by (simp add: A0_MAKE_SYSERR_def)

section \<open>Sizes\<close>

text \<open>\<^verbatim>\<open>size_t\<close> and \<^verbatim>\<open>uint64_t\<close> are 64 bits wide: natural numbers with the wrap-around written out.\<close>

definition add64 :: "nat \<Rightarrow> nat \<Rightarrow> nat" where
  "add64 a b = (a + b) mod 2 ^ 64"

lemma add64_no_wrap [simp]: "a + b < 2 ^ 64 \<Longrightarrow> add64 a b = a + b"
  by (simp add: add64_def)

lemma add64_bound: "add64 a b < 2 ^ 64"
  by (simp add: add64_def)

text \<open>
  \<open>a0_max_align\<close>: round up to a multiple of \<^verbatim>\<open>alignof(max_align_t)\<close>, which is 16 on the supported
  targets (the source's static assertion on the header size fixes this layout).
\<close>

definition a0_max_align :: "nat \<Rightarrow> nat" where
  "a0_max_align off = unat ((word_of_nat (off + 16 - 1) :: u64) AND NOT (16 - 1))"

lemma word_and_not_15: "unat (x AND NOT (15 :: u64)) = unat x div 16 * 16"
proof -
  have lt: "unat x < 2 ^ 64"
    using unsigned_less [of x, where ?'a = nat] by simp
  have 15: "(15 :: u64) = mask 4"
    by (simp add: mask_eq_exp_minus_1)
  have "x AND NOT 15 = push_bit 4 (drop_bit 4 x)"
    unfolding 15 by (rule bit_word_eqI) (auto simp: bit_simps)
  then have "unat (x AND NOT 15) = unat (push_bit 4 (drop_bit 4 x))"
    by (rule arg_cong)
  also have "\<dots> = take_bit 64 (unat x div 16 * 16)"
    using lt by (simp only: unsigned_push_bit_eq unsigned_drop_bit_eq)
      (simp add: push_bit_eq_mult drop_bit_eq_div take_bit_nat_eq_self)
  also have "\<dots> = unat x div 16 * 16"
  proof -
    have "unat x div 16 * 16 \<le> unat x" by simp
    also have "unat x < 2 ^ 64" by (rule lt)
    finally show ?thesis by (simp add: take_bit_nat_eq_self)
  qed
  finally show ?thesis .
qed

lemma a0_max_align_eq:
  assumes "off + 15 < 2 ^ 64"
  shows "a0_max_align off = (off + 15) div 16 * 16"
proof -
  have "a0_max_align off = unat (word_of_nat (off + 15) AND NOT (15 :: u64))"
    by (simp add: a0_max_align_def add.commute)
  also have "\<dots> = unat (word_of_nat (off + 15) :: u64) div 16 * 16"
    by (rule word_and_not_15)
  also have "unat (word_of_nat (off + 15) :: u64) = off + 15"
    using assms by (simp add: unat_of_nat del: of_nat_add)
  finally show ?thesis .
qed

lemma a0_max_align_ge: "off + 15 < 2 ^ 64 \<Longrightarrow> off \<le> a0_max_align off"
  by (simp add: a0_max_align_eq)

lemma a0_max_align_lt: "off + 15 < 2 ^ 64 \<Longrightarrow> a0_max_align off < off + 16"
  by (simp add: a0_max_align_eq)

lemma a0_max_align_dvd: "off + 15 < 2 ^ 64 \<Longrightarrow> 16 dvd a0_max_align off"
  by (simp add: a0_max_align_eq)

lemma a0_max_align_id: "off + 15 < 2 ^ 64 \<Longrightarrow> a0_max_align off = off \<longleftrightarrow> 16 dvd off"
  by (simp add: a0_max_align_eq) presburger

section \<open>Little-endian byte strings\<close>

fun le_bytes :: "nat \<Rightarrow> nat \<Rightarrow> u8 list" where
  "le_bytes 0 v = []"
| "le_bytes (Suc n) v = word_of_nat v # le_bytes n (v div 256)"

fun le_val :: "u8 list \<Rightarrow> nat" where
  "le_val [] = 0"
| "le_val (b # bs) = unat b + 256 * le_val bs"

lemma length_le_bytes [simp]: "length (le_bytes n v) = n"
  by (induction n arbitrary: v) auto

lemma unat_u8_bound [simp]: "unat (b :: u8) < 256"
  using unsigned_less [of b] by simp

lemma le_val_le_bytes [simp]: "le_val (le_bytes n v) = v mod 256 ^ n"
proof (induction n arbitrary: v)
  case (Suc n)
  then show ?case
    by (simp add: unat_of_nat mod_mult2_eq [of v 256 "256 ^ n"])
qed simp

lemma le_val_bound: "le_val bs < 256 ^ length bs"
proof (induction bs)
  case (Cons b bs)
  have "unat b + 256 * le_val bs < 256 + 256 * le_val bs"
    by simp
  also have "\<dots> \<le> 256 * 256 ^ length bs"
    using Cons by simp
  finally show ?case by simp
qed simp

lemma le_bytes_le_val [simp]: "le_bytes (length bs) (le_val bs) = bs"
proof (induction bs)
  case (Cons b bs)
  have "word_of_nat (unat b + 256 * le_val bs) = b"
    by (simp add: word_unat_eq_iff unat_of_nat del: of_nat_add)
  with Cons show ?case by simp
qed simp

section \<open>Byte memory\<close>

type_synonym mem = "nat \<Rightarrow> u8"

definition ld :: "nat \<Rightarrow> mem \<Rightarrow> nat \<Rightarrow> nat" where
  "ld n m a = le_val (map m [a..<a + n])"

definition stb :: "nat \<Rightarrow> mem \<Rightarrow> nat \<Rightarrow> nat \<Rightarrow> mem" where
  "stb n m a v = (\<lambda>x. if a \<le> x \<and> x < a + n then le_bytes n v ! (x - a) else m x)"

abbreviation ld64 :: "mem \<Rightarrow> nat \<Rightarrow> nat" where
  "ld64 \<equiv> ld 8"

lemma ld_bound: "ld n m a < 256 ^ n"
  using le_val_bound [of "map m [a..<a + n]"] by (simp add: ld_def)

lemma ld64_bound [simp]: "ld64 m a < 2 ^ 64"
  using ld_bound [of 8 m a] by simp

lemma ld64_mod [simp]: "ld64 m a mod 18446744073709551616 = ld64 m a"
  using ld64_bound [of m a] by (intro mod_less) simp

lemma ld_stb_same [mem_simps]: "ld n (stb n m a v) a = v mod 256 ^ n"
proof -
  have "map (stb n m a v) [a..<a + n] = le_bytes n v"
    by (rule nth_equalityI) (auto simp: stb_def)
  then show ?thesis by (simp add: ld_def)
qed

lemma ld64_stb_same [mem_simps]: "v < 2 ^ 64 \<Longrightarrow> ld64 (stb 8 m a v) a = v"
  by (simp add: ld_stb_same)

lemma stb_other: "x < a \<or> a + n \<le> x \<Longrightarrow> stb n m a v x = m x"
  by (auto simp: stb_def)

lemma ld_cong: "(\<And>x. a \<le> x \<Longrightarrow> x < a + n \<Longrightarrow> m x = m' x) \<Longrightarrow> ld n m a = ld n m' a"
  by (auto simp: ld_def intro!: arg_cong [where f = le_val])

lemma ld_stb_other [mem_simps]: "a + n \<le> b \<or> b + k \<le> a \<Longrightarrow> ld k (stb n m a v) b = ld k m b"
  by (rule ld_cong) (auto simp: stb_def)

end
