(* ===== verification/World.thy ===== *)
theory World
  imports Prelude
begin

text \<open>
  The state the C code acts on: the memory of the process, the thread's own bookkeeping, and the
  kernel and clocks it calls.

  Addresses are offsets from the start of the arena at hand, so that an offset stored in a
  transport is itself an address; memory outside the arena (the thread's robust-list head, other
  mutexes, caller buffers) lies beyond it. The null pointer is some address in these coordinates.

  The kernel is a parameter: its answer to the \<open>t\<close>-th call, and the memory that the call leaves
  behind. For a call that blocks, that memory includes what other threads and processes wrote in
  the meantime. \<open>past\<close> is a ghost field: the memories before each store and each call, latest
  first. A process that dies leaves one of these behind, so a statement about all of them is a
  statement about every crash.
\<close>

section \<open>Times and clocks\<close>

record timespec =
  tv_sec :: int
  tv_nsec :: int

datatype clockid = CLOCK_REALTIME | CLOCK_MONOTONIC | CLOCK_BOOTTIME

section \<open>System calls\<close>

text \<open>The futex operations that \<^verbatim>\<open>src/ftx.h\<close> issues, with the arguments that each uses.\<close>

datatype futex_op =
    FUTEX_WAIT nat nat
  | FUTEX_WAIT_BITSET nat nat timespec
  | FUTEX_WAKE nat nat
  | FUTEX_LOCK_PI nat "timespec option"
  | FUTEX_TRYLOCK_PI nat
  | FUTEX_UNLOCK_PI nat
  | FUTEX_CMP_REQUEUE_PI nat nat nat nat
  | FUTEX_WAIT_REQUEUE_PI nat nat "timespec option" nat

record world =
  mm :: mem
  past :: "mem list"
  now :: nat
  kernel :: "nat \<Rightarrow> futex_op \<Rightarrow> mem \<Rightarrow> errno option \<times> mem"
  clock_gettime :: "nat \<Rightarrow> clockid \<Rightarrow> errno + timespec"
  gettid :: u32
  rb_head :: nat
  rb_init :: bool
  null :: nat

definition wr :: "nat \<Rightarrow> nat \<Rightarrow> nat \<Rightarrow> world \<Rightarrow> world" where
  "wr n a v w = w\<lparr>mm := stb n (mm w) a v, past := mm w # past w\<rparr>"

text \<open>\<open>grew w w' new\<close>: from \<open>w\<close> to \<open>w'\<close> the memory went through \<open>new\<close>; kernel and thread stay.\<close>

definition grew :: "world \<Rightarrow> world \<Rightarrow> (mem \<Rightarrow> bool) \<Rightarrow> bool" where
  "grew w w' P \<longleftrightarrow> (\<exists>new. past w' = new @ past w \<and> (\<forall>m \<in> set new. P m)) \<and>
     kernel w' = kernel w \<and> gettid w' = gettid w \<and> rb_head w' = rb_head w"

lemma grew_refl [simp]: "grew w w P"
  by (simp add: grew_def)

lemma grew_trans [trans]:
  assumes "grew w w1 P" "grew w1 w2 P"
  shows "grew w w2 P"
proof -
  obtain new1 new2 where "past w1 = new1 @ past w" "past w2 = new2 @ past w1"
      "\<forall>m \<in> set new1. P m" "\<forall>m \<in> set new2. P m"
    using assms unfolding grew_def by blast
  then show ?thesis
    using assms unfolding grew_def by (auto intro!: exI [where x = "new2 @ new1"])
qed

lemma grew_mono: "grew w w' P \<Longrightarrow> (\<And>m. P m \<Longrightarrow> Q m) \<Longrightarrow> grew w w' Q"
  unfolding grew_def by blast

lemma grew_wr: "P (mm w) \<Longrightarrow> grew w (wr n a v w) P"
  by (simp add: grew_def wr_def)

lemma wr_simps [simp]:
  "mm (wr n a v w) = stb n (mm w) a v" "kernel (wr n a v w) = kernel w"
  "gettid (wr n a v w) = gettid w" "rb_head (wr n a v w) = rb_head w"
  "rb_init (wr n a v w) = rb_init w" "now (wr n a v w) = now w" "null (wr n a v w) = null w"
  "clock_gettime (wr n a v w) = clock_gettime w"
  by (simp_all add: wr_def)

text \<open>\<^verbatim>\<open>a0_futex\<close>, \<^verbatim>\<open>src/ftx.h\<close>: a system call.\<close>

definition a0_futex :: "futex_op \<Rightarrow> world \<Rightarrow> a0_err \<times> world" where
  "a0_futex op w =
     (let (r, m) = kernel w (now w) op (mm w)
      in (case r of None \<Rightarrow> A0_OK | Some e \<Rightarrow> A0_MAKE_SYSERR e,
          w\<lparr>mm := m, past := mm w # past w, now := Suc (now w)\<rparr>))"

section \<open>Where a step writes\<close>

definition only :: "nat set \<Rightarrow> mem \<Rightarrow> mem \<Rightarrow> bool" where
  "only S m m' \<longleftrightarrow> (\<forall>x. x \<notin> S \<longrightarrow> m' x = m x)"

definition touches :: "nat set \<Rightarrow> world \<Rightarrow> world \<Rightarrow> bool" where
  "touches S w w' \<longleftrightarrow> grew w w' (only S (mm w)) \<and> only S (mm w) (mm w')"

lemma only_refl [simp]: "only S m m"
  by (simp add: only_def)

lemma only_trans: "only S m m1 \<Longrightarrow> only S m1 m2 \<Longrightarrow> only S m m2"
  by (simp add: only_def)

lemma only_mono: "only S m m' \<Longrightarrow> S \<subseteq> S' \<Longrightarrow> only S' m m'"
  by (auto simp: only_def)

lemma only_stb: "{a..<a + n} \<subseteq> S \<Longrightarrow> only S m (stb n m a v)"
  by (auto simp: only_def stb_def subset_iff)

lemma only_ld: "only S m m' \<Longrightarrow> {a..<a + n} \<inter> S = {} \<Longrightarrow> ld n m' a = ld n m a"
  by (rule ld_cong) (auto simp: only_def)

lemma touches_refl [simp]: "touches S w w"
  by (simp add: touches_def)

lemma touches_trans [trans]:
  assumes "touches S w w1" "touches S w1 w2"
  shows "touches S w w2"
proof -
  have "grew w1 w2 (only S (mm w))"
    using assms by (auto simp: touches_def intro: grew_mono only_trans)
  then show ?thesis
    using assms by (auto simp: touches_def intro: grew_trans only_trans)
qed

lemma touches_mono: "touches S w w' \<Longrightarrow> S \<subseteq> S' \<Longrightarrow> touches S' w w'"
  unfolding touches_def using grew_mono only_mono by blast

lemma touches_wr: "{a..<a + n} \<subseteq> S \<Longrightarrow> touches S w (wr n a v w)"
  by (simp add: touches_def grew_wr only_stb)

lemma touches_wr': "touches S w w1 \<Longrightarrow> {a..<a + n} \<subseteq> S \<Longrightarrow> touches S w (wr n a v w1)"
  using touches_trans touches_wr by blast

lemma touches_if: "(b \<Longrightarrow> touches S w w1) \<Longrightarrow> (\<not> b \<Longrightarrow> touches S w w2) \<Longrightarrow>
    touches S w (if b then w1 else w2)"
  by simp

lemma touches_only: "touches S w w' \<Longrightarrow> only S (mm w) (mm w')"
  by (simp add: touches_def)

lemma touches_grew: "touches S w w' \<Longrightarrow> (\<And>m. only S (mm w) m \<Longrightarrow> P m) \<Longrightarrow> grew w w' P"
  unfolding touches_def using grew_mono by blast

lemma touches_kernel: "touches S w w' \<Longrightarrow> kernel w' = kernel w"
  by (simp add: touches_def grew_def)

end
