(* ===== verification/Clock.thy ===== *)
theory Clock
  imports World "HOL-Library.Signed_Division"
begin

text \<open>
  \<^verbatim>\<open>src/clock.h\<close>: reading a clock, adding nanoseconds to a time, and carrying a time from one clock
  to another. \<^verbatim>\<open>time_t\<close> and \<^verbatim>\<open>int64_t\<close> are 64-bit two's complement (\<open>s64\<close>); division truncates.
\<close>

definition NS_PER_SEC :: int where
  "NS_PER_SEC = 1000000000"

definition s64 :: "int \<Rightarrow> int" where
  "s64 x = signed_take_bit 63 x"

lemma s64_id: "- (2 ^ 63) \<le> x \<Longrightarrow> x < 2 ^ 63 \<Longrightarrow> s64 x = x"
  by (simp add: s64_def signed_take_bit_int_eq_self)

definition a0_clock_now :: "clockid \<Rightarrow> world \<Rightarrow> (a0_err + timespec) \<times> world" where
  "a0_clock_now clk w =
     (case clock_gettime w (now w) clk of Inl e \<Rightarrow> Inl (A0_MAKE_SYSERR e) | Inr ts \<Rightarrow> Inr ts,
      w\<lparr>now := Suc (now w)\<rparr>)"

definition a0_clock_add :: "timespec \<Rightarrow> int \<Rightarrow> timespec" where
  "a0_clock_add ts add_nsec =
     (let sec = s64 (tv_sec ts + add_nsec sdiv NS_PER_SEC);
          nsec = s64 (tv_nsec ts + add_nsec smod NS_PER_SEC)
      in if nsec \<ge> NS_PER_SEC then \<lparr>tv_sec = s64 (sec + 1), tv_nsec = nsec - NS_PER_SEC\<rparr>
         else if nsec < 0 then \<lparr>tv_sec = s64 (sec - 1), tv_nsec = nsec + NS_PER_SEC\<rparr>
         else \<lparr>tv_sec = sec, tv_nsec = nsec\<rparr>)"

definition a0_clock_convert ::
    "clockid \<Rightarrow> timespec \<Rightarrow> clockid \<Rightarrow> world \<Rightarrow> (a0_err + timespec) \<times> world" where
  "a0_clock_convert orig_clk orig_ts target_clk w =
     (case a0_clock_now orig_clk w of
        (Inl e, w) \<Rightarrow> (Inl e, w)
      | (Inr orig_now, w) \<Rightarrow>
          (case a0_clock_now target_clk w of
             (Inl e, w) \<Rightarrow> (Inl e, w)
           | (Inr target_now, w) \<Rightarrow>
               let add_nsec = s64 (s64 ((tv_sec orig_ts - tv_sec orig_now) * NS_PER_SEC)
                     + (tv_nsec orig_ts - tv_nsec orig_now))
               in (Inr (a0_clock_add target_now add_nsec), w)))"

section \<open>Nanosecond totals\<close>

text \<open>Nanoseconds as \<^verbatim>\<open>uint64_t\<close>.\<close>

definition ns_u64 :: "timespec \<Rightarrow> nat" where
  "ns_u64 ts = nat ((tv_sec ts * NS_PER_SEC + tv_nsec ts) mod 2 ^ 64)"

definition total_ns :: "timespec \<Rightarrow> int" where
  "total_ns ts = tv_sec ts * NS_PER_SEC + tv_nsec ts"

definition normal_ts :: "timespec \<Rightarrow> bool" where
  "normal_ts ts \<longleftrightarrow> 0 \<le> tv_nsec ts \<and> tv_nsec ts < NS_PER_SEC"

lemma sdiv_smod: "x sdiv NS_PER_SEC * NS_PER_SEC + x smod NS_PER_SEC = (x :: int)"
  by (simp add: sdiv_mult_smod_eq)

lemma smod_range: "- NS_PER_SEC < x smod NS_PER_SEC \<and> x smod NS_PER_SEC < NS_PER_SEC"
  using smod_int_range [of NS_PER_SEC x] by (auto simp: NS_PER_SEC_def)

lemma sdiv_range:
  assumes "- (2 ^ 63) \<le> x" "x < 2 ^ 63"
  shows "- 9223372040 < x sdiv NS_PER_SEC \<and> x sdiv NS_PER_SEC < (9223372040 :: int)"
proof -
  have "x sdiv NS_PER_SEC * NS_PER_SEC = x - x smod NS_PER_SEC"
    using sdiv_smod [of x] by simp
  then show ?thesis using assms smod_range [of x] by (simp add: NS_PER_SEC_def)
qed

lemma a0_clock_add_total:
  assumes "normal_ts ts" "- (2 ^ 62) \<le> tv_sec ts" "tv_sec ts < 2 ^ 62"
    and "- (2 ^ 63) \<le> d" "d < 2 ^ 63"
  shows "normal_ts (a0_clock_add ts d) \<and> total_ns (a0_clock_add ts d) = total_ns ts + d"
proof -
  have r: "- NS_PER_SEC < d smod NS_PER_SEC" "d smod NS_PER_SEC < NS_PER_SEC"
    using smod_range by simp_all
  have q: "- 9223372040 < d sdiv NS_PER_SEC" "d sdiv NS_PER_SEC < 9223372040"
    using sdiv_range assms(4,5) by simp_all
  have n: "0 \<le> tv_nsec ts" "tv_nsec ts < NS_PER_SEC" using assms(1) by (simp_all add: normal_ts_def)
  have sec: "s64 (tv_sec ts + d sdiv NS_PER_SEC) = tv_sec ts + d sdiv NS_PER_SEC"
    "s64 (tv_sec ts + d sdiv NS_PER_SEC + 1) = tv_sec ts + d sdiv NS_PER_SEC + 1"
    "s64 (tv_sec ts + d sdiv NS_PER_SEC - 1) = tv_sec ts + d sdiv NS_PER_SEC - 1"
    using q assms(2,3) by (auto intro!: s64_id)
  have nsec: "s64 (tv_nsec ts + d smod NS_PER_SEC) = tv_nsec ts + d smod NS_PER_SEC"
    using r n by (intro s64_id) (simp_all add: NS_PER_SEC_def)
  have total: "d = d sdiv NS_PER_SEC * NS_PER_SEC + d smod NS_PER_SEC"
    using sdiv_smod [of d] by simp
  show ?thesis
    unfolding a0_clock_add_def Let_def sec nsec normal_ts_def total_ns_def
    using r n total by (auto simp: algebra_simps)
qed

section \<open>Properties\<close>

text \<open>
  \<^verbatim>\<open>a0_clock_add\<close> adds nanoseconds: for a normalised time of a realistic range and any 64-bit
  number of nanoseconds, negative ones included, the result is normalised and its total is the
  sum. One carry step is always enough.
\<close>

theorem clock_add_spec:
  assumes "normal_ts ts" "- (2 ^ 62) \<le> tv_sec ts" "tv_sec ts < 2 ^ 62"
    and "- (2 ^ 63) \<le> d" "d < 2 ^ 63"
  shows "normal_ts (a0_clock_add ts d) \<and> total_ns (a0_clock_add ts d) = total_ns ts + d"
  using a0_clock_add_total [OF assms] .

theorem clock_add_spec_witness:
  "total_ns (a0_clock_add \<lparr>tv_sec = 10, tv_nsec = 5\<rparr> (- 6)) = 9999999999"
  using clock_add_spec [of "\<lparr>tv_sec = 10, tv_nsec = 5\<rparr>" "- 6"]
  by (simp add: normal_ts_def total_ns_def NS_PER_SEC_def)

text \<open>
  \<^verbatim>\<open>a0_clock_convert\<close> carries a deadline from one clock to another: the converted time is as
  far from the target clock's reading as the original was from the original clock's, provided
  the distance fits in 64 bits of nanoseconds.
\<close>

theorem clock_convert_spec:
  assumes "clock_gettime w (now w) from_clk = Inr t0" "clock_gettime w (Suc (now w)) to_clk = Inr t1"
    and "normal_ts t0" "normal_ts t1" "normal_ts ts"
    and "- (2 ^ 62) \<le> tv_sec t1" "tv_sec t1 < 2 ^ 62"
    and "- (2 ^ 33) < tv_sec ts - tv_sec t0" "tv_sec ts - tv_sec t0 < 2 ^ 33"
  shows "\<exists>r w'. a0_clock_convert from_clk ts to_clk w = (Inr r, w') \<and> normal_ts r \<and>
     total_ns r - total_ns t1 = total_ns ts - total_ns t0"
proof -
  let ?d = "(tv_sec ts - tv_sec t0) * NS_PER_SEC + (tv_nsec ts - tv_nsec t0)"
  have n: "- NS_PER_SEC < tv_nsec ts - tv_nsec t0" "tv_nsec ts - tv_nsec t0 < NS_PER_SEC"
    using assms(3,5) by (simp_all add: normal_ts_def)
  have "s64 ((tv_sec ts - tv_sec t0) * NS_PER_SEC) = (tv_sec ts - tv_sec t0) * NS_PER_SEC"
    using assms(8,9) by (intro s64_id) (simp_all add: NS_PER_SEC_def)
  moreover have d: "- (2 ^ 63) \<le> ?d" "?d < 2 ^ 63"
    using assms(8,9) n by (simp_all add: NS_PER_SEC_def)
  ultimately have "a0_clock_convert from_clk ts to_clk w
      = (Inr (a0_clock_add t1 ?d), w\<lparr>now := Suc (Suc (now w))\<rparr>)"
    using assms(1,2) by (simp add: a0_clock_convert_def a0_clock_now_def s64_id)
  then show ?thesis
    using a0_clock_add_total [OF assms(4,6,7) d] by (simp add: total_ns_def algebra_simps)
qed

text \<open>A clock that reads 100 s on the boot clock and 500 s on the wall clock.\<close>

definition two_clocks :: world where
  "two_clocks = \<lparr>mm = (\<lambda>_. 0), past = [], now = 0, kernel = (\<lambda>_ _ m. (None, m)),
     clock_gettime = (\<lambda>_ clk. Inr \<lparr>tv_sec = (if clk = CLOCK_REALTIME then 500 else 100), tv_nsec = 7\<rparr>),
     gettid = 1, rb_head = 0, rb_init = True, null = 0\<rparr>"

theorem clock_convert_spec_witness:
  "\<exists>r w'. a0_clock_convert CLOCK_BOOTTIME \<lparr>tv_sec = 103, tv_nsec = 5\<rparr> CLOCK_REALTIME two_clocks = (Inr r, w') \<and>
     total_ns r = 503000000005"
  using clock_convert_spec [of two_clocks CLOCK_BOOTTIME "\<lparr>tv_sec = 100, tv_nsec = 7\<rparr>" CLOCK_REALTIME
      "\<lparr>tv_sec = 500, tv_nsec = 7\<rparr>" "\<lparr>tv_sec = 103, tv_nsec = 5\<rparr>"]
  by (auto simp: two_clocks_def normal_ts_def total_ns_def NS_PER_SEC_def)

end
