(* ===== verification/Mtx.thy ===== *)
theory Mtx
  imports Clock
begin

text \<open>
  \<^verbatim>\<open>src/ftx.h\<close>, \<^verbatim>\<open>src/robust.c\<close> and \<^verbatim>\<open>src/mtx.c\<close>: futex calls, the thread's robust list, and the
  robust priority-inheriting mutex and condition variable built on them. A mutex at address
  \<open>mtx\<close> is three words of memory: the robust list's \<open>next\<close> and \<open>prev\<close> pointers and the futex.
  A condition variable is one 32-bit word. Stores are made one by one, so that \<open>past\<close> records the
  memory a dying thread could leave.
\<close>

section \<open>Futex calls (ftx.h)\<close>

type_synonym timeout = "timespec option"

definition a0_ftx_wait :: "nat \<Rightarrow> nat \<Rightarrow> timeout \<Rightarrow> world \<Rightarrow> a0_err \<times> world" where
  "a0_ftx_wait ftx confirm_val timeout w =
     (case timeout of
        None \<Rightarrow> a0_futex (FUTEX_WAIT ftx confirm_val) w
      | Some ts \<Rightarrow>
          (case a0_clock_convert CLOCK_BOOTTIME ts CLOCK_MONOTONIC w of
             (Inl e, w) \<Rightarrow> (e, w)
           | (Inr ts_mono, w) \<Rightarrow> a0_futex (FUTEX_WAIT_BITSET ftx confirm_val ts_mono) w))"

definition a0_ftx_wake :: "nat \<Rightarrow> nat \<Rightarrow> world \<Rightarrow> a0_err \<times> world" where
  "a0_ftx_wake ftx cnt w = a0_futex (FUTEX_WAKE ftx cnt) w"

definition INT_MAX :: nat where
  "INT_MAX = 2 ^ 31 - 1"

definition a0_ftx_signal :: "nat \<Rightarrow> world \<Rightarrow> a0_err \<times> world" where
  "a0_ftx_signal ftx w = a0_ftx_wake ftx 1 w"

definition a0_ftx_broadcast :: "nat \<Rightarrow> world \<Rightarrow> a0_err \<times> world" where
  "a0_ftx_broadcast ftx w = a0_ftx_wake ftx INT_MAX w"

definition a0_ftx_lock_pi :: "nat \<Rightarrow> timeout \<Rightarrow> world \<Rightarrow> a0_err \<times> world" where
  "a0_ftx_lock_pi ftx timeout w =
     (case timeout of
        None \<Rightarrow> a0_futex (FUTEX_LOCK_PI ftx None) w
      | Some ts \<Rightarrow>
          (case a0_clock_convert CLOCK_BOOTTIME ts CLOCK_REALTIME w of
             (Inl e, w) \<Rightarrow> (e, w)
           | (Inr ts_wall, w) \<Rightarrow> a0_futex (FUTEX_LOCK_PI ftx (Some ts_wall)) w))"

definition a0_ftx_trylock_pi :: "nat \<Rightarrow> world \<Rightarrow> a0_err \<times> world" where
  "a0_ftx_trylock_pi ftx w = a0_futex (FUTEX_TRYLOCK_PI ftx) w"

definition a0_ftx_unlock_pi :: "nat \<Rightarrow> world \<Rightarrow> a0_err \<times> world" where
  "a0_ftx_unlock_pi ftx w = a0_futex (FUTEX_UNLOCK_PI ftx) w"

definition a0_ftx_cmp_requeue_pi :: "nat \<Rightarrow> nat \<Rightarrow> nat \<Rightarrow> nat \<Rightarrow> world \<Rightarrow> a0_err \<times> world" where
  "a0_ftx_cmp_requeue_pi ftx confirm_val requeue_ftx max_requeue w =
     a0_futex (FUTEX_CMP_REQUEUE_PI ftx confirm_val requeue_ftx max_requeue) w"

definition a0_ftx_wait_requeue_pi :: "nat \<Rightarrow> nat \<Rightarrow> timeout \<Rightarrow> nat \<Rightarrow> world \<Rightarrow> a0_err \<times> world" where
  "a0_ftx_wait_requeue_pi ftx confirm_val timeout requeue_ftx w =
     (case timeout of
        None \<Rightarrow> a0_futex (FUTEX_WAIT_REQUEUE_PI ftx confirm_val None requeue_ftx) w
      | Some ts \<Rightarrow>
          (case a0_clock_convert CLOCK_BOOTTIME ts CLOCK_MONOTONIC w of
             (Inl e, w) \<Rightarrow> (e, w)
           | (Inr ts_mono, w) \<Rightarrow>
               a0_futex (FUTEX_WAIT_REQUEUE_PI ftx confirm_val (Some ts_mono) requeue_ftx) w))"

definition FUTEX_TID_MASK :: u32 where
  "FUTEX_TID_MASK = 0x3fffffff"

definition FUTEX_OWNER_DIED :: u32 where
  "FUTEX_OWNER_DIED = 0x40000000"

definition a0_ftx_tid :: "u32 \<Rightarrow> u32" where
  "a0_ftx_tid ftx = ftx AND FUTEX_TID_MASK"

definition a0_ftx_owner_died :: "u32 \<Rightarrow> bool" where
  "a0_ftx_owner_died ftx \<longleftrightarrow> ftx AND FUTEX_OWNER_DIED \<noteq> 0"

section \<open>Atomic words (atomic.h)\<close>

definition ld32 :: "mem \<Rightarrow> nat \<Rightarrow> u32" where
  "ld32 m a = word_of_nat (ld 4 m a)"

definition wr32 :: "nat \<Rightarrow> u32 \<Rightarrow> world \<Rightarrow> world" where
  "wr32 a v w = wr 4 a (unat v) w"

text \<open>\<^verbatim>\<open>a0_cas_val\<close>: the old value, and whether it was swapped out can be read off it.\<close>

definition a0_cas_val :: "nat \<Rightarrow> u32 \<Rightarrow> u32 \<Rightarrow> world \<Rightarrow> u32 \<times> world" where
  "a0_cas_val p old new w =
     (let v = ld32 (mm w) p in (v, if v = old then wr32 p new w else w))"

section \<open>The robust list (robust.c)\<close>

text \<open>
  The thread's list head has the layout of the kernel's \<^verbatim>\<open>struct robust_list_head\<close>: the first
  list entry, the distance from an entry to its futex, and the entry being worked on.
\<close>

definition a0_robust_init_head :: "world \<Rightarrow> world" where
  "a0_robust_init_head w =
     (let w = wr 8 (rb_head w) (rb_head w) w;
          w = wr 8 (rb_head w + 8) 16 w;
          w = wr 8 (rb_head w + 16) (null w) w
      in w\<lparr>now := Suc (now w)\<rparr>)"

definition a0_robust_init_thread :: "world \<Rightarrow> world" where
  "a0_robust_init_thread w =
     (if rb_init w then w else (a0_robust_init_head w)\<lparr>rb_init := True\<rparr>)"

definition a0_robust_op_start :: "nat \<Rightarrow> world \<Rightarrow> world" where
  "a0_robust_op_start mtx w =
     (let w = a0_robust_init_thread w in wr 8 (rb_head w + 16) mtx w)"

definition a0_robust_op_end :: "nat \<Rightarrow> world \<Rightarrow> world" where
  "a0_robust_op_end mtx w = wr 8 (rb_head w + 16) (null w) w"

definition robust_is_head :: "nat \<Rightarrow> world \<Rightarrow> bool" where
  "robust_is_head mtx w \<longleftrightarrow> mtx = rb_head w"

definition a0_robust_op_add :: "nat \<Rightarrow> world \<Rightarrow> world" where
  "a0_robust_op_add mtx w =
     (let old_first = ld64 (mm w) (rb_head w);
          w = wr 8 (mtx + 8) (rb_head w) w;
          w = wr 8 mtx old_first w;
          w = wr 8 (rb_head w) mtx w
      in if \<not> robust_is_head old_first w then wr 8 (old_first + 8) mtx w else w)"

definition a0_robust_op_del :: "nat \<Rightarrow> world \<Rightarrow> world" where
  "a0_robust_op_del mtx w =
     (let prev = ld64 (mm w) (mtx + 8);
          next' = ld64 (mm w) mtx;
          w = wr 8 prev next' w
      in if \<not> robust_is_head next' w then wr 8 (next' + 8) prev w else w)"

section \<open>The mutex (mtx.c)\<close>

abbreviation (input) ftx_of :: "nat \<Rightarrow> nat" where
  "ftx_of mtx \<equiv> mtx + 16"

definition a0_mtx_previous_owner_died :: "a0_err \<Rightarrow> bool" where
  "a0_mtx_previous_owner_died err \<longleftrightarrow> A0_SYSERR err = Some EOWNERDEAD"

definition a0_mtx_lock_successful :: "a0_err \<Rightarrow> bool" where
  "a0_mtx_lock_successful err \<longleftrightarrow> err = A0_OK \<or> a0_mtx_previous_owner_died err"

definition owner_check :: "nat \<Rightarrow> world \<Rightarrow> a0_err" where
  "owner_check mtx w =
     (if a0_ftx_owner_died (ld32 (mm w) (ftx_of mtx)) then A0_MAKE_SYSERR EOWNERDEAD else A0_OK)"

definition a0_mtx_timedlock_robust :: "nat \<Rightarrow> timeout \<Rightarrow> world \<Rightarrow> a0_err \<times> world" where
  "a0_mtx_timedlock_robust mtx timeout w =
     (case a0_cas_val (ftx_of mtx) 0 (gettid w) w of
        (old, w) \<Rightarrow>
          if old = 0 then (A0_OK, w)
          else case a0_ftx_lock_pi (ftx_of mtx) timeout w of
            (err, w) \<Rightarrow> if err = A0_OK then (owner_check mtx w, w) else (err, w))"

definition a0_mtx_timedlock :: "nat \<Rightarrow> timeout \<Rightarrow> world \<Rightarrow> a0_err \<times> world" where
  "a0_mtx_timedlock mtx timeout w =
     (let w = a0_robust_op_start mtx w;
          (err, w) = a0_mtx_timedlock_robust mtx timeout w;
          w = (if a0_mtx_lock_successful err then a0_robust_op_add mtx w else w)
      in (err, a0_robust_op_end mtx w))"

definition a0_mtx_lock :: "nat \<Rightarrow> world \<Rightarrow> a0_err \<times> world" where
  "a0_mtx_lock mtx w = a0_mtx_timedlock mtx None w"

definition a0_mtx_trylock_impl :: "nat \<Rightarrow> world \<Rightarrow> a0_err \<times> world" where
  "a0_mtx_trylock_impl mtx w =
     (case a0_cas_val (ftx_of mtx) 0 (gettid w) w of
        (old, w) \<Rightarrow>
          if old = 0 then (A0_OK, w)
          else if \<not> a0_ftx_owner_died old then (A0_MAKE_SYSERR EBUSY, w)
          else case a0_ftx_trylock_pi (ftx_of mtx) w of
            (err, w) \<Rightarrow>
              if err = A0_OK then (owner_check mtx w, w)
              else if A0_SYSERR err = Some EAGAIN then (A0_MAKE_SYSERR EBUSY, w)
              else (err, w))"

definition a0_mtx_trylock :: "nat \<Rightarrow> world \<Rightarrow> a0_err \<times> world" where
  "a0_mtx_trylock mtx w =
     (let w = a0_robust_op_start mtx w;
          (err, w) = a0_mtx_trylock_impl mtx w;
          w = (if a0_mtx_lock_successful err then a0_robust_op_add mtx w else w)
      in (err, a0_robust_op_end mtx w))"

definition a0_mtx_unlock :: "nat \<Rightarrow> world \<Rightarrow> a0_err \<times> world" where
  "a0_mtx_unlock mtx w =
     (let val = ld32 (mm w) (ftx_of mtx)
      in if a0_ftx_tid val \<noteq> gettid w then (A0_MAKE_SYSERR EPERM, w)
         else
           let w = a0_robust_op_start mtx w;
               w = a0_robust_op_del mtx w;
               w = wr32 (ftx_of mtx) (ld32 (mm w) (ftx_of mtx) AND NOT FUTEX_OWNER_DIED) w;
               (old, w) = a0_cas_val (ftx_of mtx) (gettid w) 0 w;
               w = (if old = gettid w then w else snd (a0_ftx_unlock_pi (ftx_of mtx) w))
           in (A0_OK, a0_robust_op_end mtx w))"

section \<open>The condition variable (mtx.c)\<close>

definition bad_timeout :: "timespec \<Rightarrow> bool" where
  "bad_timeout ts \<longleftrightarrow> tv_sec ts < 0 \<or> tv_nsec ts < 0 \<or> (tv_sec ts = 0 \<and> tv_nsec ts = 0) \<or>
     tv_nsec ts \<ge> NS_PER_SEC"

text \<open>
  \<open>resys err err'\<close>: the error \<open>err\<close> as it reads after a later call returned \<open>err'\<close>. The code of
  a system error lives in the thread-local \<^verbatim>\<open>a0_err_syscode\<close>, which the later call overwrites.
\<close>

definition resys :: "a0_err \<Rightarrow> a0_err \<Rightarrow> a0_err" where
  "resys err err' = (if A0_SYSERR err \<noteq> None \<and> A0_SYSERR err' \<noteq> None then err' else err)"

definition a0_cnd_timedwait :: "nat \<Rightarrow> nat \<Rightarrow> timeout \<Rightarrow> world \<Rightarrow> a0_err \<times> world" where
  "a0_cnd_timedwait cnd mtx timeout w =
     (if (case timeout of None \<Rightarrow> False | Some ts \<Rightarrow> bad_timeout ts) then (A0_MAKE_SYSERR EINVAL, w)
      else
        let init_cnd = ld 4 (mm w) cnd;
            (err, w) = a0_mtx_unlock mtx w
        in if err \<noteq> A0_OK then (err, w)
           else
             let w = a0_robust_op_start mtx w;
                 (err, w) = a0_ftx_wait_requeue_pi cnd init_cnd timeout (ftx_of mtx) w;
                 (err, w) = (if A0_SYSERR err = Some ETIMEDOUT
                   then (case a0_mtx_timedlock_robust mtx None w of (err', w) \<Rightarrow> (resys err err', w))
                   else (err, w));
                 (err, w) = (if A0_SYSERR err = Some EAGAIN
                   then a0_mtx_timedlock_robust mtx None w else (err, w));
                 w = a0_robust_op_add mtx w;
                 err = (if err = A0_OK then owner_check mtx w else err)
             in (err, a0_robust_op_end mtx w))"

definition a0_cnd_wait :: "nat \<Rightarrow> nat \<Rightarrow> world \<Rightarrow> a0_err \<times> world" where
  "a0_cnd_wait cnd mtx w = a0_cnd_timedwait cnd mtx None w"

partial_function (option) a0_cnd_wake_loop ::
    "nat \<Rightarrow> nat \<Rightarrow> nat \<Rightarrow> nat \<Rightarrow> world \<Rightarrow> (a0_err \<times> world) option" where
  "a0_cnd_wake_loop cnd mtx cnt val w =
     (let (err, w') = a0_ftx_cmp_requeue_pi cnd val (ftx_of mtx) cnt w
      in if A0_SYSERR err \<noteq> Some EAGAIN then Some (err, w')
         else a0_cnd_wake_loop cnd mtx cnt (ld 4 (mm w') cnd) w')"

definition a0_cnd_wake :: "nat \<Rightarrow> nat \<Rightarrow> nat \<Rightarrow> world \<Rightarrow> (a0_err \<times> world) option" where
  "a0_cnd_wake cnd mtx cnt w =
     (let val = (ld 4 (mm w) cnd + 1) mod 2 ^ 32
      in a0_cnd_wake_loop cnd mtx cnt val (wr 4 cnd val w))"

definition a0_cnd_signal :: "nat \<Rightarrow> nat \<Rightarrow> world \<Rightarrow> (a0_err \<times> world) option" where
  "a0_cnd_signal cnd mtx w = a0_cnd_wake cnd mtx 1 w"

definition a0_cnd_broadcast :: "nat \<Rightarrow> nat \<Rightarrow> world \<Rightarrow> (a0_err \<times> world) option" where
  "a0_cnd_broadcast cnd mtx w = a0_cnd_wake cnd mtx INT_MAX w"

section \<open>The kernel's side\<close>

text \<open>
  What \<^verbatim>\<open>futex(2)\<close> documents of \<^verbatim>\<open>FUTEX_CMP_REQUEUE_PI\<close>, a call that does not block: it fails with
  EAGAIN only if the futex word differs from the expected value, and it writes nothing but the
  futex the waiters are moved to.
\<close>

definition requeue_ok :: "world \<Rightarrow> bool" where
  "requeue_ok w \<longleftrightarrow> (\<forall>t cnd val ftx cnt m.
     (let (r, m') = kernel w t (FUTEX_CMP_REQUEUE_PI cnd val ftx cnt) m
      in (r = Some EAGAIN \<longrightarrow> ld 4 m cnd \<noteq> val) \<and> (\<forall>x. x < ftx \<or> ftx + 4 \<le> x \<longrightarrow> m' x = m x)))"

lemma requeue_ok_kernel: "kernel w' = kernel w \<Longrightarrow> requeue_ok w \<Longrightarrow> requeue_ok w'"
  by (simp add: requeue_ok_def)

text \<open>Waking returns, and changes nothing but the two words it is about.\<close>

lemma cnd_wake_effect:
  assumes "requeue_ok w" "P (mm w)" "P (stb 4 (mm w) cnd ((ld 4 (mm w) cnd + 1) mod 2 ^ 32))"
  shows "\<exists>err w'. a0_cnd_wake cnd mtx cnt w = Some (err, w') \<and> grew w w' P \<and>
     (\<forall>x. (x < cnd \<or> cnd + 4 \<le> x) \<and> (x < ftx_of mtx \<or> ftx_of mtx + 4 \<le> x) \<longrightarrow> mm w' x = mm w x)"
proof -
  define val where "val = (ld 4 (mm w) cnd + 1) mod 2 ^ 32"
  let ?m = "stb 4 (mm w) cnd val"
  obtain r m where k: "kernel w (now w) (FUTEX_CMP_REQUEUE_PI cnd val (ftx_of mtx) cnt) ?m = (r, m)"
    by (cases "kernel w (now w) (FUTEX_CMP_REQUEUE_PI cnd val (ftx_of mtx) cnt) ?m") auto
  have "ld 4 ?m cnd = val" by (simp add: ld_stb_same val_def)
  then have r: "r \<noteq> Some EAGAIN" and m: "x < ftx_of mtx \<or> ftx_of mtx + 4 \<le> x \<Longrightarrow> m x = ?m x" for x
    using assms(1) [unfolded requeue_ok_def, rule_format, of "now w" cnd val "ftx_of mtx" cnt ?m]
    unfolding k Let_def prod.case by blast+
  let ?err = "case r of None \<Rightarrow> A0_OK | Some e \<Rightarrow> A0_MAKE_SYSERR e"
  let ?w = "(wr 4 cnd val w)\<lparr>mm := m, past := ?m # mm w # past w, now := Suc (now w)\<rparr>"
  have "A0_SYSERR ?err \<noteq> Some EAGAIN" using r by (cases r) auto
  then have "a0_cnd_wake cnd mtx cnt w = Some (?err, ?w)"
    unfolding a0_cnd_wake_def Let_def val_def [symmetric]
    by (subst a0_cnd_wake_loop.simps)
      (simp add: a0_ftx_cmp_requeue_pi_def a0_futex_def k, simp add: wr_def)
  moreover have "grew w ?w P"
    using assms(2,3) by (simp add: grew_def val_def)
  moreover have "mm ?w x = mm w x" if "x < cnd \<or> cnd + 4 \<le> x" "x < ftx_of mtx \<or> ftx_of mtx + 4 \<le> x" for x
    using m [OF that(2)] that(1) by (simp add: stb_other)
  ultimately show ?thesis by blast
qed

end
