(* ===== verification/Bytes.thy ===== *)
theory Bytes
  imports World
begin

text \<open>
  Byte strings in memory: writing one (\<open>blit\<close>), finding one (\<open>holds\<close>), and C strings with
  \<^verbatim>\<open>strlen\<close> and \<^verbatim>\<open>strcpy\<close>. Code that lays out or reads structured bytes (packets, frames) is
  proved with these instead of single addresses.
\<close>

named_theorems byte_simps

section \<open>Writing\<close>

definition blit :: "nat \<Rightarrow> u8 list \<Rightarrow> mem \<Rightarrow> mem" where
  "blit a bs m = (\<lambda>x. if a \<le> x \<and> x < a + length bs then bs ! (x - a) else m x)"

text \<open>Stores of bytes in order (\<^verbatim>\<open>memset\<close>, \<^verbatim>\<open>memcpy\<close>).\<close>

fun wr_bytes :: "nat \<Rightarrow> u8 list \<Rightarrow> world \<Rightarrow> world" where
  "wr_bytes a [] w = w"
| "wr_bytes a (b # bs) w = wr_bytes (a + 1) bs (wr 1 a (unat b) w)"

lemma blit_Nil [simp]: "blit a [] m = m"
  by (rule ext) (auto simp: blit_def)

lemma blit_append: "blit a (xs @ ys) m = blit (a + length xs) ys (blit a xs m)"
  by (rule ext) (auto simp: blit_def nth_append)

lemma blit_join: "b = a + length xs \<Longrightarrow> blit b ys (blit a xs m) = blit a (xs @ ys) m"
  by (simp add: blit_append)

lemma blit_commute: "a + length xs \<le> b \<or> b + length ys \<le> a \<Longrightarrow> blit a xs (blit b ys m) = blit b ys (blit a xs m)"
  by (rule ext) (auto simp: blit_def)

lemma only_blit: "only {a..<a + length bs} m (blit a bs m)"
  by (auto simp: only_def blit_def)

lemma wr_bytes_blit: "mm (wr_bytes a bs w) = blit a bs (mm w)"
proof (induction bs arbitrary: a w)
  case (Cons b bs)
  have "stb (Suc 0) (mm w) a (unat b) = blit a [b] (mm w)"
    by (rule ext) (auto simp: stb_def blit_def)
  then show ?case using blit_append [of a "[b]" bs "mm w"] Cons.IH by simp
qed simp

lemma touches_wr_bytes: "{a..<a + length bs} \<subseteq> S \<Longrightarrow> touches S w (wr_bytes a bs w)"
proof (induction bs arbitrary: a w)
  case (Cons b bs)
  have "touches S w (wr 1 a (unat b) w)" using Cons.prems by (intro touches_wr) auto
  moreover have "touches S (wr 1 a (unat b) w) (wr_bytes (a + 1) bs (wr 1 a (unat b) w))"
    using Cons.prems by (intro Cons.IH) auto
  ultimately show ?case using touches_trans by simp
qed simp

lemma wr_bytes_append: "wr_bytes a (xs @ ys) w = wr_bytes (a + length xs) ys (wr_bytes a xs w)"
  by (induction xs arbitrary: a w) auto

lemma wr_bytes_simps [simp]: "kernel (wr_bytes a bs w) = kernel w" "rb_init (wr_bytes a bs w) = rb_init w"
  "null (wr_bytes a bs w) = null w" "rb_head (wr_bytes a bs w) = rb_head w" "gettid (wr_bytes a bs w) = gettid w"
  "now (wr_bytes a bs w) = now w" "clock_gettime (wr_bytes a bs w) = clock_gettime w"
  by (induction bs arbitrary: a w) auto

section \<open>Reading\<close>

definition bytes :: "mem \<Rightarrow> nat \<Rightarrow> nat \<Rightarrow> u8 list" where
  "bytes m a n = map m [a..<a + n]"

definition holds_at :: "mem \<Rightarrow> nat \<Rightarrow> u8 list \<Rightarrow> bool" where
  "holds_at m a bs \<longleftrightarrow> bytes m a (length bs) = bs"

lemma length_bytes [simp]: "length (bytes m a n) = n"
  by (simp add: bytes_def)

lemma bytes_cong: "(\<And>x. a \<le> x \<Longrightarrow> x < a + n \<Longrightarrow> m x = m' x) \<Longrightarrow> bytes m a n = bytes m' a n"
  by (simp add: bytes_def)

lemma bytes_add: "bytes m a (k + n) = bytes m a k @ bytes m (a + k) n"
proof -
  have "[a..<a + (k + n)] = [a..<a + k] @ [a + k..<(a + k) + n]"
    using upt_add_eq_append [of a "a + k" n] by (simp add: add.assoc)
  then show ?thesis by (simp add: bytes_def)
qed

lemma bytes_blit [simp]: "bytes (blit a bs m) a (length bs) = bs"
  by (rule nth_equalityI) (simp_all add: bytes_def blit_def)

lemma holds_blit [byte_simps]: "holds_at (blit a bs m) a bs"
  by (simp add: holds_at_def)

lemma holds_Nil [byte_simps]: "holds_at m a []"
  by (simp add: holds_at_def bytes_def)

lemma holds_append [byte_simps]: "holds_at m a (xs @ ys) \<longleftrightarrow> holds_at m a xs \<and> holds_at m (a + length xs) ys"
  by (simp add: holds_at_def bytes_add)

lemma holds_Cons: "holds_at m a (b # bs) \<longleftrightarrow> m a = b \<and> holds_at m (Suc a) bs"
  by (simp add: holds_at_def bytes_def upt_conv_Cons del: upt_Suc)

lemma holds_only: "only S m m' \<Longrightarrow> S \<inter> {a..<a + length bs} = {} \<Longrightarrow> holds_at m' a bs = holds_at m a bs"
proof -
  assume o: "only S m m'" and S: "S \<inter> {a..<a + length bs} = {}"
  have "bytes m' a (length bs) = bytes m a (length bs)"
    using S by (intro bytes_cong) (use o in \<open>auto simp: only_def disjoint_iff\<close>)
  then show ?thesis by (simp add: holds_at_def)
qed

lemma holds_ld: "holds_at m a (le_bytes n v) \<Longrightarrow> v < 256 ^ n \<Longrightarrow> ld n m a = v"
  by (simp add: holds_at_def ld_def bytes_def [symmetric])

lemma holds_le_bytes [byte_simps]: "v < 256 ^ n \<Longrightarrow> holds_at m a (le_bytes n v) \<longleftrightarrow> ld n m a = v"
proof
  assume "ld n m a = v"
  then have "le_bytes n (le_val (bytes m a n)) = le_bytes n v" by (simp add: ld_def bytes_def)
  then show "holds_at m a (le_bytes n v)"
    using le_bytes_le_val [of "bytes m a n"] by (simp add: holds_at_def)
qed (rule holds_ld)

section \<open>C strings\<close>

text \<open>\<open>None\<close>: there is no null byte, and \<^verbatim>\<open>strlen\<close> runs on.\<close>

partial_function (option) strlen :: "mem \<Rightarrow> nat \<Rightarrow> nat option" where
  [code]: "strlen m a = (if m a = 0 then Some 0
     else Option.bind (strlen m (a + 1)) (\<lambda>n. Some (Suc n)))"

definition cstr :: "mem \<Rightarrow> nat \<Rightarrow> u8 list option" where
  "cstr m a = map_option (bytes m a) (strlen m a)"

definition strcpy :: "nat \<Rightarrow> nat \<Rightarrow> world \<Rightarrow> world option" where
  "strcpy dst src w = map_option (\<lambda>s. wr_bytes dst (s @ [0]) w) (cstr (mm w) src)"

lemma strlen_holds: "holds_at m a (s @ [0]) \<Longrightarrow> 0 \<notin> set s \<Longrightarrow> strlen m a = Some (length s)"
proof (induction s arbitrary: a)
  case Nil
  then show ?case by (subst strlen.simps) (simp add: holds_Cons)
next
  case (Cons b s)
  then have "strlen m (Suc a) = Some (length s)" "m a \<noteq> 0" by (auto simp: holds_Cons)
  then show ?case by (subst strlen.simps) simp
qed

lemma cstr_holds [byte_simps]: "holds_at m a (s @ [0]) \<Longrightarrow> 0 \<notin> set s \<Longrightarrow> cstr m a = Some s"
  using strlen_holds [of m a s] by (auto simp: cstr_def byte_simps) (simp add: holds_at_def)

end
