(* ===== verification/Transport.thy ===== *)
theory Transport
  imports Mtx Bytes
begin

text \<open>
  \<^verbatim>\<open>src/transport.c\<close> and \<^verbatim>\<open>include/a0/transport.h\<close>: a log of frames kept in a ring inside an arena of
  shared memory. The operations below are those of the source, store by store, on the bytes of the
  arena (addresses are offsets from its start). A connection, \<open>a0_transport\<close>, is the part of the
  state private to a process: its mode and its iterator.

  An operation that can only return \<^verbatim>\<open>A0_OK\<close> is modelled by its output. \<open>None\<close> is a call that does not
  return. \<^verbatim>\<open>size_t\<close> sums wrap (\<open>add64\<close>).
\<close>

section \<open>Layout\<close>

datatype a0_arena_mode = A0_ARENA_MODE_SHARED | A0_ARENA_MODE_EXCLUSIVE | A0_ARENA_MODE_READONLY

record a0_transport =
  buf_size :: nat
  arena_mode :: a0_arena_mode
  t_seq :: nat
  t_off :: nat
  wait_cnt :: nat
  shutdown :: bool

text \<open>
  Offsets in \<^verbatim>\<open>a0_transport_hdr_t\<close>: the magic is at 0, the version at 9, then these; the size of the
  header is fixed by the source's static assertion.
\<close>

definition hdr_initialized :: nat where "hdr_initialized = 12"
definition hdr_mtx :: nat where "hdr_mtx = 16"
definition hdr_cnd :: nat where "hdr_cnd = 40"
definition hdr_page_idx :: nat where "hdr_page_idx = 128"
definition hdr_arena_size :: nat where "hdr_arena_size = 136"
definition sizeof_hdr :: nat where "sizeof_hdr = 144"
definition sizeof_frame_hdr :: nat where "sizeof_frame_hdr = 40"

definition state_page :: "nat \<Rightarrow> nat" where
  "state_page i = 48 + 40 * i"

lemmas layout = hdr_initialized_def hdr_mtx_def hdr_cnd_def hdr_page_idx_def hdr_arena_size_def
  sizeof_hdr_def sizeof_frame_hdr_def state_page_def

text \<open>Fields of \<^verbatim>\<open>a0_transport_state_t\<close> in the page at \<open>p\<close>.\<close>

abbreviation (input) seq_low_at :: "nat \<Rightarrow> nat" where "seq_low_at p \<equiv> p"
abbreviation (input) seq_high_at :: "nat \<Rightarrow> nat" where "seq_high_at p \<equiv> p + 8"
abbreviation (input) off_head_at :: "nat \<Rightarrow> nat" where "off_head_at p \<equiv> p + 16"
abbreviation (input) off_tail_at :: "nat \<Rightarrow> nat" where "off_tail_at p \<equiv> p + 24"
abbreviation (input) hwm_at :: "nat \<Rightarrow> nat" where "hwm_at p \<equiv> p + 32"

text \<open>Fields of \<^verbatim>\<open>a0_transport_frame_hdr_t\<close> in the frame at \<open>off\<close>.\<close>

abbreviation (input) fr_seq_at :: "nat \<Rightarrow> nat" where "fr_seq_at off \<equiv> off"
abbreviation (input) fr_off_at :: "nat \<Rightarrow> nat" where "fr_off_at off \<equiv> off + 8"
abbreviation (input) fr_next_at :: "nat \<Rightarrow> nat" where "fr_next_at off \<equiv> off + 16"
abbreviation (input) fr_prev_at :: "nat \<Rightarrow> nat" where "fr_prev_at off \<equiv> off + 24"
abbreviation (input) fr_size_at :: "nat \<Rightarrow> nat" where "fr_size_at off \<equiv> off + 32"

definition a0_transport_committed_page :: "mem \<Rightarrow> nat" where
  "a0_transport_committed_page m = state_page (unat (m hdr_page_idx))"

definition a0_transport_working_page :: "mem \<Rightarrow> nat" where
  "a0_transport_working_page m = state_page (if m hdr_page_idx = 0 then 1 else 0)"

definition a0_transport_workspace_off :: nat where
  "a0_transport_workspace_off = a0_max_align sizeof_hdr"

abbreviation wpage :: "world \<Rightarrow> nat" where "wpage w \<equiv> a0_transport_working_page (mm w)"
abbreviation cpage :: "world \<Rightarrow> nat" where "cpage w \<equiv> a0_transport_committed_page (mm w)"

text \<open>The copy of a state page, field by field.\<close>

definition copy_page :: "nat \<Rightarrow> nat \<Rightarrow> world \<Rightarrow> world" where
  "copy_page dst src w =
     (let w = wr 8 (seq_low_at dst) (ld64 (mm w) (seq_low_at src)) w;
          w = wr 8 (seq_high_at dst) (ld64 (mm w) (seq_high_at src)) w;
          w = wr 8 (off_head_at dst) (ld64 (mm w) (off_head_at src)) w;
          w = wr 8 (off_tail_at dst) (ld64 (mm w) (off_tail_at src)) w
      in wr 8 (hwm_at dst) (ld64 (mm w) (hwm_at src)) w)"

section \<open>Locking and initialisation\<close>

definition a0_transport_lock :: "a0_transport \<Rightarrow> world \<Rightarrow> world" where
  "a0_transport_lock t w =
     (if arena_mode t \<noteq> A0_ARENA_MODE_SHARED then w
      else let (prior_owner_died, w) = a0_mtx_lock hdr_mtx w
           in copy_page (wpage w) (cpage w) w)"

definition a0_transport_unlock :: "a0_transport \<Rightarrow> world \<Rightarrow> world" where
  "a0_transport_unlock t w =
     (if arena_mode t \<noteq> A0_ARENA_MODE_SHARED then w
      else let w = copy_page (wpage w) (cpage w) w
           in snd (a0_mtx_unlock hdr_mtx w))"

definition ALEPHZERO :: "u8 list" where
  "ALEPHZERO = [65, 76, 69, 80, 72, 90, 69, 82, 79]"

definition version_0_3_0 :: "u8 list" where
  "version_0_3_0 = [0, 3, 0]"

text \<open>Rewrites the header of a 0.2 transport; other arenas are left alone.\<close>

definition a0_backward_compatiblility_update_from_0_2 :: "nat \<Rightarrow> world \<Rightarrow> world" where
  "a0_backward_compatiblility_update_from_0_2 buf_sz w =
     (if ld 2 (mm w) 0 \<noteq> 0x0101 then w
      else
        let page_offset = (if ld 4 (mm w) 120 \<noteq> 0 then 88 else 56);
            seq_low = ld64 (mm w) page_offset;
            seq_high = ld64 (mm w) (page_offset + 8);
            off_head = ld64 (mm w) (page_offset + 16);
            off_tail = ld64 (mm w) (page_offset + 24);
            w = wr_bytes 0 (replicate sizeof_hdr 0) w;
            w = wr_bytes 0 ALEPHZERO w;
            w = wr_bytes 9 version_0_3_0 w;
            w = wr 8 hdr_arena_size buf_sz w;
            w = wr 8 (seq_low_at (state_page 0)) seq_low w;
            w = wr 8 (seq_high_at (state_page 0)) seq_high w;
            w = wr 8 (off_head_at (state_page 0)) off_head w;
            w = wr 8 (off_tail_at (state_page 0)) off_tail w;
            w = wr 8 (hwm_at (state_page 0)) (ld64 (mm w) hdr_arena_size) w;
            w = copy_page (state_page 1) (state_page 0) w
        in wr 1 hdr_initialized 1 w)"

definition a0_transport_init :: "nat \<Rightarrow> a0_arena_mode \<Rightarrow> world \<Rightarrow> a0_transport \<times> world" where
  "a0_transport_init buf_sz mode w =
     (let w = a0_backward_compatiblility_update_from_0_2 buf_sz w;
          t = \<lparr>buf_size = buf_sz, arena_mode = mode, t_seq = 0, t_off = 0, wait_cnt = 0, shutdown = False\<rparr>;
          w = (if mode = A0_ARENA_MODE_EXCLUSIVE then wr_bytes hdr_mtx (replicate 24 0) w else w);
          w = a0_transport_lock t w;
          w = (if ld 1 (mm w) hdr_initialized = 0 then
                 let w = wr_bytes 0 ALEPHZERO w;
                     w = wr_bytes 9 version_0_3_0 w;
                     w = wr 8 hdr_arena_size buf_sz w;
                     w = wr 8 (hwm_at (state_page 0)) a0_transport_workspace_off w;
                     w = wr 8 (hwm_at (state_page 1)) a0_transport_workspace_off w
                 in wr 1 hdr_initialized 1 w
               else w)
      in (t, a0_transport_unlock t w))"

section \<open>Iteration\<close>

definition a0_transport_empty :: "world \<Rightarrow> bool" where
  "a0_transport_empty w =
     (let p = wpage w
      in ld64 (mm w) (seq_high_at p) = 0 \<or>
         ld64 (mm w) (seq_low_at p) > ld64 (mm w) (seq_high_at p))"

definition a0_transport_nonempty :: "world \<Rightarrow> bool" where
  "a0_transport_nonempty w = (\<not> a0_transport_empty w)"

definition a0_transport_iter_valid :: "a0_transport \<Rightarrow> world \<Rightarrow> bool" where
  "a0_transport_iter_valid t w =
     (let p = wpage w
      in ld64 (mm w) (seq_low_at p) \<le> t_seq t \<and> t_seq t \<le> ld64 (mm w) (seq_high_at p))"

definition a0_transport_jump :: "a0_transport \<Rightarrow> nat \<Rightarrow> world \<Rightarrow> a0_err \<times> a0_transport" where
  "a0_transport_jump t off w =
     (if a0_max_align off \<noteq> off then (A0_ERR_RANGE, t)
      else if add64 off sizeof_frame_hdr \<ge> ld64 (mm w) hdr_arena_size then (A0_ERR_RANGE, t)
      else if add64 (add64 off sizeof_frame_hdr) (ld64 (mm w) (fr_size_at off))
            \<ge> ld64 (mm w) hdr_arena_size then (A0_ERR_RANGE, t)
      else (A0_OK, t\<lparr>t_off := off, t_seq := ld64 (mm w) (fr_seq_at off)\<rparr>))"

definition a0_transport_jump_head :: "a0_transport \<Rightarrow> world \<Rightarrow> a0_err \<times> a0_transport" where
  "a0_transport_jump_head t w =
     (if a0_transport_empty w then (A0_ERR_RANGE, t)
      else (A0_OK, t\<lparr>t_seq := ld64 (mm w) (seq_low_at (wpage w)), t_off := ld64 (mm w) (off_head_at (wpage w))\<rparr>))"

definition a0_transport_jump_tail :: "a0_transport \<Rightarrow> world \<Rightarrow> a0_err \<times> a0_transport" where
  "a0_transport_jump_tail t w =
     (if a0_transport_empty w then (A0_ERR_RANGE, t)
      else (A0_OK, t\<lparr>t_seq := ld64 (mm w) (seq_high_at (wpage w)), t_off := ld64 (mm w) (off_tail_at (wpage w))\<rparr>))"

definition a0_transport_has_next :: "a0_transport \<Rightarrow> world \<Rightarrow> bool" where
  "a0_transport_has_next t w =
     (\<not> a0_transport_empty w \<and> t_seq t < ld64 (mm w) (seq_high_at (wpage w)))"

definition a0_transport_step_next :: "a0_transport \<Rightarrow> world \<Rightarrow> a0_err \<times> a0_transport" where
  "a0_transport_step_next t w =
     (if \<not> a0_transport_has_next t w then (A0_ERR_RANGE, t)
      else if t_seq t < ld64 (mm w) (seq_low_at (wpage w)) then
        (A0_OK, t\<lparr>t_seq := ld64 (mm w) (seq_low_at (wpage w)), t_off := ld64 (mm w) (off_head_at (wpage w))\<rparr>)
      else
        let off = ld64 (mm w) (fr_next_at (t_off t))
        in (A0_OK, t\<lparr>t_off := off, t_seq := ld64 (mm w) (fr_seq_at off)\<rparr>))"

definition a0_transport_has_prev :: "a0_transport \<Rightarrow> world \<Rightarrow> bool" where
  "a0_transport_has_prev t w =
     (\<not> a0_transport_empty w \<and> t_seq t > ld64 (mm w) (seq_low_at (wpage w)))"

definition a0_transport_step_prev :: "a0_transport \<Rightarrow> world \<Rightarrow> a0_err \<times> a0_transport" where
  "a0_transport_step_prev t w =
     (if \<not> a0_transport_has_prev t w then (A0_ERR_RANGE, t)
      else
        let off = ld64 (mm w) (fr_prev_at (t_off t))
        in (A0_OK, t\<lparr>t_off := off, t_seq := ld64 (mm w) (fr_seq_at off)\<rparr>))"

definition a0_transport_seq_low :: "world \<Rightarrow> nat" where
  "a0_transport_seq_low w = ld64 (mm w) (seq_low_at (wpage w))"

definition a0_transport_seq_high :: "world \<Rightarrow> nat" where
  "a0_transport_seq_high w = ld64 (mm w) (seq_high_at (wpage w))"

definition a0_transport_frame :: "a0_transport \<Rightarrow> world \<Rightarrow> a0_err + nat" where
  "a0_transport_frame t w =
     (if t_seq t < ld64 (mm w) (seq_low_at (wpage w)) then Inl (A0_MAKE_SYSERR ESPIPE)
      else Inr (t_off t))"

section \<open>Commit and eviction\<close>

definition a0_transport_commit :: "world \<Rightarrow> world option" where
  "a0_transport_commit w =
     (let w = wr 1 hdr_page_idx (if mm w hdr_page_idx = 0 then 1 else 0) w;
          w = copy_page (wpage w) (cpage w) w
      in map_option snd (a0_cnd_broadcast hdr_cnd hdr_mtx w))"

definition a0_transport_frame_end :: "mem \<Rightarrow> nat \<Rightarrow> nat" where
  "a0_transport_frame_end m frame_off =
     add64 (add64 frame_off sizeof_frame_hdr) (ld64 m (fr_size_at frame_off))"

definition a0_transport_frame_intersects :: "nat \<Rightarrow> nat \<Rightarrow> nat \<Rightarrow> nat \<Rightarrow> bool" where
  "a0_transport_frame_intersects frame1_start frame1_size frame2_start frame2_size =
     (let frame1_end = add64 frame1_start frame1_size;
          frame2_end = add64 frame2_start frame2_size
      in frame1_start < frame2_end \<and> frame2_start < frame1_end)"

definition a0_transport_head_interval :: "world \<Rightarrow> (nat \<times> nat) option" where
  "a0_transport_head_interval w =
     (if a0_transport_empty w then None
      else let head_off = ld64 (mm w) (off_head_at (wpage w))
           in Some (head_off, add64 sizeof_frame_hdr (ld64 (mm w) (fr_size_at head_off))))"

text \<open>\<open>state\<close> is the working page when the source's callers call it.\<close>

definition a0_transport_remove_head :: "nat \<Rightarrow> world \<Rightarrow> world option" where
  "a0_transport_remove_head state w =
     (let w = (if ld64 (mm w) (off_head_at state) = ld64 (mm w) (off_tail_at state) then
            let w = wr 8 (off_head_at state) 0 w;
                w = wr 8 (off_tail_at state) 0 w
            in wr 8 (hwm_at state) a0_transport_workspace_off w
          else
            let head = ld64 (mm w) (off_head_at state);
                w = wr 8 (off_head_at state) (ld64 (mm w) (fr_next_at head)) w;
                head_end = a0_transport_frame_end (mm w) (ld64 (mm w) (fr_off_at head))
            in if ld64 (mm w) (hwm_at state) = head_end then
                 wr 8 (hwm_at state) (a0_transport_frame_end (mm w) (ld64 (mm w) (off_tail_at state))) w
               else w);
          w = wr 8 (seq_low_at state) (add64 (ld64 (mm w) (seq_low_at state)) 1) w
      in a0_transport_commit w)"

definition a0_transport_find_slot :: "nat \<Rightarrow> world \<Rightarrow> a0_err + nat" where
  "a0_transport_find_slot frame_size w =
     (let arena_size = ld64 (mm w) hdr_arena_size;
          off = (if a0_transport_empty w then a0_transport_workspace_off
            else
              let off = a0_max_align (a0_transport_frame_end (mm w) (ld64 (mm w) (off_tail_at (wpage w))))
              in if add64 off frame_size \<ge> arena_size then a0_transport_workspace_off else off)
      in if add64 off frame_size > arena_size then Inl A0_ERR_FRAME_LARGE else Inr off)"

definition a0_transport_slot_evicts :: "nat \<Rightarrow> nat \<Rightarrow> world \<Rightarrow> bool" where
  "a0_transport_slot_evicts off frame_size w =
     (case a0_transport_head_interval w of
        None \<Rightarrow> False
      | Some (head_off, head_size) \<Rightarrow>
          a0_transport_frame_intersects off frame_size head_off head_size \<or>
          (ld64 (mm w) (off_tail_at (wpage w)) < ld64 (mm w) (off_head_at (wpage w)) \<and>
           off = a0_transport_workspace_off))"

partial_function (option) a0_transport_evict :: "nat \<Rightarrow> nat \<Rightarrow> world \<Rightarrow> world option" where
  "a0_transport_evict off frame_size w =
     (if a0_transport_slot_evicts off frame_size w then
        Option.bind (a0_transport_remove_head (wpage w) w) (a0_transport_evict off frame_size)
      else Some w)"

section \<open>Allocation\<close>

definition a0_transport_slot_init :: "nat \<Rightarrow> nat \<Rightarrow> nat \<Rightarrow> world \<Rightarrow> world" where
  "a0_transport_slot_init state off data_size w =
     (let w = wr_bytes off (replicate sizeof_frame_hdr 0) w;
          w = wr 8 (seq_high_at state) (add64 (ld64 (mm w) (seq_high_at state)) 1) w;
          w = wr 8 (fr_seq_at off) (ld64 (mm w) (seq_high_at state)) w;
          w = (if ld64 (mm w) (seq_low_at state) = 0
            then wr 8 (seq_low_at state) (ld64 (mm w) (fr_seq_at off)) w else w);
          w = wr 8 (fr_off_at off) off w;
          w = wr 8 (fr_next_at off) 0 w
      in wr 8 (fr_size_at off) data_size w)"

definition a0_transport_maybe_set_head :: "nat \<Rightarrow> nat \<Rightarrow> world \<Rightarrow> world" where
  "a0_transport_maybe_set_head state frame_hdr w =
     (if ld64 (mm w) (off_head_at state) = 0
      then wr 8 (off_head_at state) (ld64 (mm w) (fr_off_at frame_hdr)) w else w)"

definition a0_transport_update_tail :: "nat \<Rightarrow> nat \<Rightarrow> world \<Rightarrow> world" where
  "a0_transport_update_tail state frame_hdr w =
     (let tail = ld64 (mm w) (off_tail_at state);
          w = (if tail \<noteq> 0 then
            let w = wr 8 (fr_next_at tail) (ld64 (mm w) (fr_off_at frame_hdr)) w
            in wr 8 (fr_prev_at frame_hdr) (ld64 (mm w) (off_tail_at state)) w
          else w)
      in wr 8 (off_tail_at state) (ld64 (mm w) (fr_off_at frame_hdr)) w)"

definition a0_transport_update_high_water_mark :: "nat \<Rightarrow> nat \<Rightarrow> world \<Rightarrow> world" where
  "a0_transport_update_high_water_mark state frame_hdr w =
     (let high_water_mark = a0_transport_frame_end (mm w) (ld64 (mm w) (fr_off_at frame_hdr))
      in if ld64 (mm w) (hwm_at state) < high_water_mark
         then wr 8 (hwm_at state) high_water_mark w else w)"

definition a0_transport_alloc_evicts :: "nat \<Rightarrow> world \<Rightarrow> a0_err + bool" where
  "a0_transport_alloc_evicts data_size w =
     (let frame_size = add64 sizeof_frame_hdr data_size
      in case a0_transport_find_slot frame_size w of
           Inl e \<Rightarrow> Inl e
         | Inr off \<Rightarrow> Inr (a0_transport_slot_evicts off frame_size w))"

text \<open>The result is the address of the new frame.\<close>

definition a0_transport_alloc :: "a0_transport \<Rightarrow> nat \<Rightarrow> world \<Rightarrow> ((a0_err + nat) \<times> world) option" where
  "a0_transport_alloc t data_size w =
     (if arena_mode t = A0_ARENA_MODE_READONLY then Some (Inl (A0_MAKE_SYSERR EPERM), w)
      else
        let frame_size = add64 sizeof_frame_hdr data_size
        in case a0_transport_find_slot frame_size w of
             Inl e \<Rightarrow> Some (Inl e, w)
           | Inr off \<Rightarrow>
               map_option (\<lambda>w.
                   let state = wpage w;
                       w = a0_transport_slot_init state off data_size w;
                       w = a0_transport_maybe_set_head state off w;
                       w = a0_transport_update_tail state off w;
                       w = a0_transport_update_high_water_mark state off w
                   in (Inr off, w))
                 (a0_transport_evict off frame_size w))"

text \<open>The allocator hands out the data part of a new frame: its address and size.\<close>

definition a0_transport_allocator_impl ::
    "a0_transport \<Rightarrow> nat \<Rightarrow> world \<Rightarrow> ((a0_err + nat \<times> nat) \<times> world) option" where
  "a0_transport_allocator_impl t data_size w =
     map_option (\<lambda>(r, w). (case r of
         Inl e \<Rightarrow> Inl e
       | Inr frame \<Rightarrow> Inr (frame + sizeof_frame_hdr, ld64 (mm w) (fr_size_at frame)), w))
       (a0_transport_alloc t data_size w)"

section \<open>Space\<close>

definition a0_transport_used_space :: "world \<Rightarrow> nat" where
  "a0_transport_used_space w = ld64 (mm w) (hwm_at (wpage w))"

definition a0_transport_resize :: "nat \<Rightarrow> world \<Rightarrow> a0_err \<times> world" where
  "a0_transport_resize arena_size w =
     (if arena_size < a0_transport_used_space w then (A0_ERR_INVALID_ARG, w)
      else (A0_OK, wr 8 hdr_arena_size arena_size w))"

definition a0_transport_clear :: "world \<Rightarrow> world option" where
  "a0_transport_clear w =
     (let state = wpage w;
          w = wr 8 (seq_low_at state) (add64 (ld64 (mm w) (seq_high_at state)) 1) w;
          w = wr 8 (off_head_at state) 0 w;
          w = wr 8 (off_tail_at state) 0 w;
          w = wr 8 (hwm_at state) a0_transport_workspace_off w
      in a0_transport_commit w)"

section \<open>Waiting\<close>

text \<open>A predicate evaluates to an error or a truth value; the source's are over the locked transport.\<close>

type_synonym a0_predicate = "a0_transport \<Rightarrow> world \<Rightarrow> a0_err + bool"

definition a0_transport_empty_pred :: a0_predicate where
  "a0_transport_empty_pred t w = Inr (a0_transport_empty w)"

definition a0_transport_nonempty_pred :: a0_predicate where
  "a0_transport_nonempty_pred t w = Inr (a0_transport_nonempty w)"

definition a0_transport_has_next_pred :: a0_predicate where
  "a0_transport_has_next_pred t w = Inr (a0_transport_has_next t w)"

text \<open>\<open>None\<close> where the clock cannot be read: the source would use an unset variable.\<close>

definition a0_transport_timedwait_istimeout :: "timeout \<Rightarrow> world \<Rightarrow> (bool \<times> world) option" where
  "a0_transport_timedwait_istimeout timeout w =
     (case timeout of
        None \<Rightarrow> Some (False, w)
      | Some ts \<Rightarrow>
          (case a0_clock_now CLOCK_BOOTTIME w of
             (Inl _, _) \<Rightarrow> None
           | (Inr now_ts, w) \<Rightarrow> Some (ns_u64 now_ts \<ge> ns_u64 ts, w)))"

text \<open>\<open>check_pred\<close>: the source's \<^verbatim>\<open>istimeout(timeout) ? ETIMEDOUT : a0_predicate_eval(pred, &sat)\<close>.\<close>

definition check_pred ::
    "a0_predicate \<Rightarrow> timeout \<Rightarrow> bool \<Rightarrow> a0_transport \<Rightarrow> world \<Rightarrow> ((a0_err \<times> bool) \<times> world) option" where
  "check_pred pred timeout sat t w =
     map_option (\<lambda>(late, w).
         (if late then (A0_MAKE_SYSERR ETIMEDOUT, sat)
          else case pred t w of Inl e \<Rightarrow> (e, sat) | Inr b \<Rightarrow> (A0_OK, b), w))
       (a0_transport_timedwait_istimeout timeout w)"

text \<open>
  The waiting loop. \<open>others k\<close> is what the other threads of the process do to the connection during
  the \<open>k\<close>-th wait: they may count themselves in or out as waiters, or request the shutdown.
\<close>

partial_function (option) a0_transport_wait_loop ::
    "(nat \<Rightarrow> a0_transport \<Rightarrow> a0_transport) \<Rightarrow> a0_predicate \<Rightarrow> timeout \<Rightarrow> a0_err \<Rightarrow> bool
      \<Rightarrow> a0_transport \<Rightarrow> world \<Rightarrow> (a0_err \<times> a0_transport \<times> world) option" where
  "a0_transport_wait_loop others pred timeout err sat t w =
     (if shutdown t then Some (err, t, w)
      else
        let (err, w) = a0_cnd_timedwait hdr_cnd hdr_mtx timeout w;
            t = others (now w) t
        in if A0_SYSERR err = Some ETIMEDOUT then Some (err, t, w)
           else Option.bind (check_pred pred timeout sat t w) (\<lambda>((err, sat), w).
             if err \<noteq> A0_OK \<or> sat then Some (err, t, w)
             else a0_transport_wait_loop others pred timeout err sat t w))"

definition a0_transport_timedwait ::
    "(nat \<Rightarrow> a0_transport \<Rightarrow> a0_transport) \<Rightarrow> a0_predicate \<Rightarrow> timeout \<Rightarrow> a0_transport \<Rightarrow> world
      \<Rightarrow> (a0_err \<times> a0_transport \<times> world) option" where
  "a0_transport_timedwait others pred timeout t w =
     (if shutdown t then Some (A0_MAKE_SYSERR ESHUTDOWN, t, w)
      else if arena_mode t \<noteq> A0_ARENA_MODE_SHARED then Some (A0_MAKE_SYSERR EPERM, t, w)
      else Option.bind (check_pred pred timeout False t w) (\<lambda>((err, sat), w).
        if err \<noteq> A0_OK \<or> sat then Some (err, t, w)
        else
          Option.bind (a0_transport_wait_loop others pred timeout err sat
              (t\<lparr>wait_cnt := (wait_cnt t + 1) mod 2 ^ 32\<rparr>) w) (\<lambda>(err, t, w).
            let err = (if err = A0_OK \<and> shutdown t then A0_MAKE_SYSERR ESHUTDOWN else err);
                t = t\<lparr>wait_cnt := (wait_cnt t + (2 ^ 32 - 1)) mod 2 ^ 32\<rparr>
            in map_option (\<lambda>(_, w). (err, t, w)) (a0_cnd_broadcast hdr_cnd hdr_mtx w))))"

definition a0_transport_wait ::
    "(nat \<Rightarrow> a0_transport \<Rightarrow> a0_transport) \<Rightarrow> a0_predicate \<Rightarrow> a0_transport \<Rightarrow> world
      \<Rightarrow> (a0_err \<times> a0_transport \<times> world) option" where
  "a0_transport_wait others pred t w = a0_transport_timedwait others pred None t w"

partial_function (option) a0_transport_shutdown_loop ::
    "(nat \<Rightarrow> a0_transport \<Rightarrow> a0_transport) \<Rightarrow> a0_transport \<Rightarrow> world \<Rightarrow> (a0_transport \<times> world) option" where
  "a0_transport_shutdown_loop others t w =
     (if wait_cnt t = 0 then Some (t, w)
      else let (_, w) = a0_cnd_wait hdr_cnd hdr_mtx w
           in a0_transport_shutdown_loop others (others (now w) t) w)"

definition a0_transport_shutdown ::
    "(nat \<Rightarrow> a0_transport \<Rightarrow> a0_transport) \<Rightarrow> a0_transport \<Rightarrow> world \<Rightarrow> (a0_transport \<times> world) option" where
  "a0_transport_shutdown others t w =
     (let t = t\<lparr>shutdown := True\<rparr>
      in Option.bind (a0_cnd_broadcast hdr_cnd hdr_mtx w) (\<lambda>(_, w).
           a0_transport_shutdown_loop others t w))"

definition a0_transport_shutdown_requested :: "a0_transport \<Rightarrow> bool" where
  "a0_transport_shutdown_requested t = shutdown t"

end
