(* ===== verification/Ring.thy ===== *)
theory Ring
  imports Prelude
begin

text \<open>
  The abstract transport: a log of frames placed in a ring. A frame is the offset of its header and
  the size of its data; its header takes 40 bytes. From head to tail the offsets rise, except that
  they may start over once at the beginning of the workspace (offset 144). \<open>Transport_Correct\<close> shows
  that the bytes of \<^verbatim>\<open>src/transport.c\<close> implement the operations defined here.
\<close>

section \<open>Placement\<close>

type_synonym frame = "nat \<times> nat"

definition f_end :: "frame \<Rightarrow> nat" where
  "f_end f = fst f + 40 + snd f"

abbreviation run :: "frame list \<Rightarrow> bool" where
  "run \<equiv> sorted_wrt (\<lambda>a b. f_end a \<le> fst b)"

definition placed :: "nat \<Rightarrow> frame \<Rightarrow> bool" where
  "placed A f \<longleftrightarrow> 144 \<le> fst f \<and> 16 dvd fst f \<and> f_end f \<le> A"

definition ring :: "nat \<Rightarrow> frame list \<Rightarrow> bool" where
  "ring A fs \<longleftrightarrow> (\<forall>f \<in> set fs. placed A f) \<and>
     (\<exists>up lo. fs = up @ lo \<and> run up \<and> run lo \<and>
       (up \<noteq> [] \<and> lo \<noteq> [] \<longrightarrow> fst (hd lo) = 144 \<and> f_end (last lo) \<le> fst (hd up)))"

lemma f_end_gt: "fst f < f_end f"
  by (simp add: f_end_def)

lemma run_last:
  assumes "run fs" "f \<in> set fs"
  shows "f_end f \<le> f_end (last fs)"
proof -
  obtain ys y where fs: "fs = ys @ [y]" using assms(2) by (cases fs rule: rev_cases) auto
  then have "f = y \<or> f_end f \<le> fst y" using assms by (auto simp: sorted_wrt_append)
  then show ?thesis using fs f_end_gt [of y] by auto
qed

lemma run_hd:
  assumes "run fs" "f \<in> set fs"
  shows "fst (hd fs) \<le> fst f"
proof -
  obtain y ys where fs: "fs = y # ys" using assms(2) by (cases fs) auto
  then have "f = y \<or> f_end y \<le> fst f" using assms by auto
  then show ?thesis using fs f_end_gt [of y] by auto
qed

lemma ring_Nil [simp]: "ring A []"
  by (simp add: ring_def)

lemma ring_run: "run fs \<Longrightarrow> \<forall>f \<in> set fs. placed A f \<Longrightarrow> ring A fs"
  unfolding ring_def by (intro conjI exI [where x = fs] exI [where x = "[]"]) auto

lemma ring_wrap: "run up \<Longrightarrow> run lo \<Longrightarrow> \<forall>f \<in> set (up @ lo). placed A f \<Longrightarrow> fst (hd lo) = 144 \<Longrightarrow>
    up \<noteq> [] \<Longrightarrow> lo \<noteq> [] \<Longrightarrow> f_end (last lo) \<le> fst (hd up) \<Longrightarrow> ring A (up @ lo)"
  unfolding ring_def by (intro conjI exI [where x = up] exI [where x = lo]) auto

lemma ring_cases:
  assumes "ring A fs"
  obtains (run) "run fs" "\<forall>f \<in> set fs. placed A f"
  | (wrap) up lo where "fs = up @ lo" "up \<noteq> []" "lo \<noteq> []" "run up" "run lo" "fst (hd lo) = 144"
      "f_end (last lo) \<le> fst (hd up)" "\<forall>f \<in> set fs. placed A f"
proof -
  obtain up lo where ul: "fs = up @ lo" "run up" "run lo"
      "up \<noteq> [] \<and> lo \<noteq> [] \<longrightarrow> fst (hd lo) = 144 \<and> f_end (last lo) \<le> fst (hd up)"
      "\<forall>f \<in> set fs. placed A f"
    using assms unfolding ring_def by blast
  show ?thesis
  proof (cases "up = [] \<or> lo = []")
    case True
    then show ?thesis using ul run by auto
  qed (use ul wrap in blast)
qed

lemma ring_tl:
  assumes "ring A (f # fs)"
  shows "ring A fs"
  using assms
proof (cases rule: ring_cases)
  case run
  then show ?thesis by (intro ring_run) auto
next
  case (wrap up lo)
  then obtain up' where up: "up = f # up'" by (cases up) auto
  show ?thesis
  proof (cases "up' = []")
    case True
    then show ?thesis using wrap up by (intro ring_run) auto
  next
    case False
    then have "fst f < fst (hd up')" using wrap(4) f_end_gt [of f] up by (cases up') auto
    then have "ring A (up' @ lo)"
      using wrap False up by (intro ring_wrap) auto
    then show ?thesis using wrap(1) up by simp
  qed
qed

lemma ring_drop: "ring A fs \<Longrightarrow> ring A (drop k fs)"
proof (induction k arbitrary: fs)
  case (Suc k)
  then show ?case by (cases fs) (auto dest: ring_tl)
qed simp

lemma ring_butlast:
  assumes "ring A (fs @ [f])"
  shows "ring A fs"
  using assms
proof (cases rule: ring_cases)
  case run
  then show ?thesis by (intro ring_run) (auto simp: sorted_wrt_append)
next
  case (wrap up lo)
  then obtain lo' where lo: "lo = lo' @ [f]" by (cases lo rule: rev_cases) auto
  then have fs: "fs = up @ lo'" using wrap(1) by simp
  show ?thesis
  proof (cases "lo' = []")
    case True
    then show ?thesis using wrap lo fs by (intro ring_run) auto
  next
    case False
    then have "f_end (last lo') \<le> fst f" using wrap(5) lo by (simp add: sorted_wrt_append)
    then have "f_end (last lo') \<le> fst (hd up)" using wrap(7) lo f_end_gt [of f] by simp
    then have "ring A (up @ lo')"
      using wrap False lo by (intro ring_wrap) (auto simp: sorted_wrt_append)
    then show ?thesis using fs by simp
  qed
qed

lemma ring_prefix: "ring A (fs @ gs) \<Longrightarrow> ring A fs"
proof (induction gs rule: rev_induct)
  case (snoc g gs)
  then show ?case using ring_butlast [of A "fs @ gs" g] by simp
qed simp

lemma ring_placed: "ring A fs \<Longrightarrow> f \<in> set fs \<Longrightarrow> placed A f"
  by (simp add: ring_def)

text \<open>Frames of a ring do not overlap.\<close>

definition apart :: "frame \<Rightarrow> frame \<Rightarrow> bool" where
  "apart f g \<longleftrightarrow> f_end f \<le> fst g \<or> f_end g \<le> fst f"

lemma ring_apart: "ring A fs \<Longrightarrow> sorted_wrt apart fs"
proof (elim ring_cases)
  assume "run fs"
  then show ?thesis by (rule sorted_wrt_mono_rel [rotated]) (auto simp: apart_def)
next
  fix up lo
  assume *: "fs = up @ lo" "run up" "run lo" "f_end (last lo) \<le> fst (hd up)" "up \<noteq> []" "lo \<noteq> []"
  have "sorted_wrt apart up" "sorted_wrt apart lo"
    using *(2,3) by (auto intro: sorted_wrt_mono_rel [rotated] simp: apart_def)
  moreover have "apart f g" if "f \<in> set up" "g \<in> set lo" for f g
    using run_hd [OF *(2) that(1)] run_last [OF *(3) that(2)] *(4) by (simp add: apart_def)
  ultimately show "sorted_wrt apart fs" by (simp add: *(1) sorted_wrt_append)
qed

lemma ring_apart_nth: "ring A fs \<Longrightarrow> i < j \<Longrightarrow> j < length fs \<Longrightarrow> apart (fs ! i) (fs ! j)"
  using ring_apart by (blast intro: sorted_wrt_nth_less)

section \<open>Choosing a slot and evicting\<close>

definition align16 :: "nat \<Rightarrow> nat" where
  "align16 x = (x + 15) div 16 * 16"

lemma align16: "x \<le> align16 x" "align16 x < x + 16" "16 dvd align16 x"
  by (auto simp: align16_def)

lemma align16_least:
  assumes "x \<le> y" "16 dvd y"
  shows "align16 x \<le> y"
proof -
  obtain q where q: "y = 16 * q" using assms(2) by (rule dvdE)
  have "(x + 15) div 16 \<le> (16 * q + 15) div 16"
    using assms(1) q by (intro div_le_mono) simp
  also have "\<dots> = q" by simp
  finally show ?thesis by (simp add: align16_def q)
qed

text \<open>\<open>n\<close> is the size of the new frame with its header.\<close>

definition slot_off :: "nat \<Rightarrow> nat \<Rightarrow> frame list \<Rightarrow> nat" where
  "slot_off A n fs =
     (if fs = [] then 144
      else if align16 (f_end (last fs)) + n \<ge> A then 144 else align16 (f_end (last fs)))"

definition find_slot :: "nat \<Rightarrow> nat \<Rightarrow> frame list \<Rightarrow> nat option" where
  "find_slot A n fs = (if slot_off A n fs + n > A then None else Some (slot_off A n fs))"

definition evicts :: "nat \<Rightarrow> nat \<Rightarrow> frame list \<Rightarrow> bool" where
  "evicts off n fs \<longleftrightarrow> fs \<noteq> [] \<and>
     (off < f_end (hd fs) \<and> fst (hd fs) < off + n \<or> fst (last fs) < fst (hd fs) \<and> off = 144)"

fun evicted :: "nat \<Rightarrow> nat \<Rightarrow> frame list \<Rightarrow> nat" where
  "evicted off n [] = 0"
| "evicted off n (f # fs) = (if evicts off n (f # fs) then Suc (evicted off n fs) else 0)"

lemma evicted_le: "evicted off n fs \<le> length fs"
  by (induction fs) auto

lemma evicted_0: "evicted off n fs = 0 \<longleftrightarrow> \<not> evicts off n fs"
  by (cases fs) (auto simp: evicts_def)

lemma evicted_stops: "\<not> evicts off n (drop (evicted off n fs) fs)"
  by (induction fs) (auto simp: evicts_def)

lemma evicted_needed: "j < evicted off n fs \<Longrightarrow> evicts off n (drop j fs)"
proof (induction fs arbitrary: j)
  case (Cons f fs)
  then show ?case by (cases j) (auto split: if_splits)
qed simp

lemma run_not_wrapped: "run fs \<Longrightarrow> fs \<noteq> [] \<Longrightarrow> \<not> fst (last fs) < fst (hd fs)"
  using run_hd [of fs "last fs"] by simp

lemma evict_start:
  assumes "run fs" "\<forall>f \<in> set fs. placed A f" "144 + n \<le> A" "n = 40 + s"
  shows "ring A (drop (evicted 144 n fs) fs @ [(144, s)])"
  using assms
proof (induction fs)
  case Nil
  then show ?case by (intro ring_run) (auto simp: placed_def f_end_def)
next
  case (Cons f fs)
  show ?case
  proof (cases "evicts 144 n (f # fs)")
    case True
    then show ?thesis using Cons by simp
  next
    case False
    moreover have "144 < f_end f" using Cons.prems(2) f_end_gt [of f] by (auto simp: placed_def)
    ultimately have "144 + n \<le> fst f" by (auto simp: evicts_def)
    moreover have "ring A ((f # fs) @ [(144, s)])"
      using Cons.prems calculation by (intro ring_wrap) (auto simp: placed_def f_end_def)
    ultimately show ?thesis using False by simp
  qed
qed

lemma evict_none:
  assumes "run fs" "\<forall>f \<in> set fs. f_end f \<le> off"
  shows "evicted off n fs = 0"
proof (cases "fs = []")
  case False
  then have "f_end (hd fs) \<le> off" using assms(2) by simp
  then show ?thesis
    using run_not_wrapped [OF assms(1) False] by (simp add: evicted_0 evicts_def)
qed simp

lemma evict_up:
  assumes "run up" "run lo" "lo \<noteq> []" "\<forall>f \<in> set (up @ lo). placed A f" "fst (hd lo) = 144"
    and "up \<noteq> [] \<longrightarrow> f_end (last lo) \<le> fst (hd up)"
    and "off = align16 (f_end (last lo))" "off + n \<le> A" "n = 40 + s"
  shows "ring A (drop (evicted off n (up @ lo)) (up @ lo) @ [(off, s)])"
  using assms
proof (induction up)
  case Nil
  have ends: "\<forall>f \<in> set lo. f_end f \<le> off"
    using run_last [OF Nil(2)] align16(1) Nil(7) by (auto intro: order.trans)
  moreover have "144 \<le> off"
    using ends Nil(3,4) f_end_gt by (metis append_Nil last_in_set less_imp_le order.trans placed_def)
  then have "ring A (lo @ [(off, s)])"
    using Nil ends align16(3) by (intro ring_run) (auto simp: sorted_wrt_append placed_def f_end_def)
  ultimately show ?case using evict_none [OF Nil(2)] by simp
next
  case (Cons f up)
  show ?case
  proof (cases "evicts off n ((f # up) @ lo)")
    case True
    have "up \<noteq> [] \<longrightarrow> f_end (last lo) \<le> fst (hd up)"
      using Cons.prems(1,6) f_end_gt [of f] by (cases up) auto
    then show ?thesis using Cons True by simp
  next
    case False
    have "off \<le> fst f"
      using Cons.prems(4,6,7) align16_least by (auto simp: placed_def)
    then have gap: "off + n \<le> fst f"
      using False f_end_gt [of f] by (auto simp: evicts_def)
    have ends: "\<forall>g \<in> set lo. f_end g \<le> off"
      using run_last [OF Cons.prems(2)] align16(1) Cons.prems(7) by (auto intro: order.trans)
    moreover have "144 \<le> off"
      using ends Cons.prems(3,4) f_end_gt
      by (metis Un_iff last_in_set less_imp_le order.trans placed_def set_append)
    ultimately have "ring A ((f # up) @ lo @ [(off, s)])"
      using Cons.prems align16(3) gap
      by (intro ring_wrap) (auto simp: sorted_wrt_append placed_def f_end_def)
    then show ?thesis using False evicted_0 [of off n "(f # up) @ lo"] by simp
  qed
qed

lemma evict_wrapped_start:
  assumes "run up" "run lo" "lo \<noteq> []" "\<forall>f \<in> set (up @ lo). placed A f" "fst (hd lo) = 144"
    and "up \<noteq> [] \<longrightarrow> f_end (last lo) \<le> fst (hd up)" "144 + n \<le> A" "n = 40 + s"
  shows "ring A (drop (evicted 144 n (up @ lo)) (up @ lo) @ [(144, s)])"
  using assms
proof (induction up)
  case Nil
  then show ?case using evict_start by simp
next
  case (Cons f up)
  have "fst (last lo) < fst f"
    using Cons.prems(6) f_end_gt [of "last lo"] by simp
  then have "evicts 144 n ((f # up) @ lo)" using Cons.prems(3) by (simp add: evicts_def)
  moreover have "up \<noteq> [] \<longrightarrow> f_end (last lo) \<le> fst (hd up)"
    using Cons.prems(1,6) f_end_gt [of f] by (cases up) auto
  ultimately show ?case using Cons by simp
qed

text \<open>After eviction the new frame fits into the ring behind the remaining frames.\<close>

lemma ring_evict:
  assumes "ring A fs" "find_slot A (40 + s) fs = Some off"
  shows "ring A (drop (evicted off (40 + s) fs) fs @ [(off, s)])"
proof -
  let ?n = "40 + s"
  have off: "off = slot_off A ?n fs" and fits: "off + ?n \<le> A"
    using assms(2) by (auto simp: find_slot_def split: if_splits)
  show ?thesis
  proof (cases "fs = []")
    case True
    then show ?thesis using evict_start [of "[]" A ?n s] off fits by (simp add: slot_off_def)
  next
    case False
    have off_cases: "off = 144 \<or> off = align16 (f_end (last fs))"
      using off by (auto simp: slot_off_def)
    from assms(1) show ?thesis
    proof (cases rule: ring_cases)
      case run
      show ?thesis
      proof (cases "off = 144")
        case True
        then show ?thesis using evict_start [OF run] fits by simp
      next
        case False
        then have o: "off = align16 (f_end (last fs))" using off_cases by simp
        then have ends: "\<forall>f \<in> set fs. f_end f \<le> off"
          using run_last [OF run(1)] align16(1) by (auto intro: order.trans)
        moreover have "144 \<le> off"
          using ends run(2) \<open>fs \<noteq> []\<close> f_end_gt by (metis last_in_set less_imp_le order.trans placed_def)
        then have "ring A (fs @ [(off, s)])"
          using run ends o align16(3) fits by (intro ring_run) (auto simp: sorted_wrt_append placed_def f_end_def)
        ultimately show ?thesis using evict_none [OF run(1)] by simp
      qed
    next
      case (wrap up lo)
      then show ?thesis
        using off_cases evict_wrapped_start [of up lo A ?n s] evict_up [of up lo A off ?n s] fits by auto
    qed
  qed
qed

section \<open>The log\<close>

text \<open>
  The abstract state of a transport: the sequence numbers of its first and last frame, its frames,
  and its high water mark.
\<close>

record tlog =
  s_low :: nat
  s_high :: nat
  frames :: "frame list"
  s_hwm :: nat

definition log_ok :: "nat \<Rightarrow> tlog \<Rightarrow> bool" where
  "log_ok A st \<longleftrightarrow> ring A (frames st) \<and> 144 \<le> s_hwm st \<and> s_hwm st \<le> A \<and>
     (\<forall>f \<in> set (frames st). f_end f \<le> s_hwm st) \<and>
     (s_high st + 1 = s_low st + length (frames st) \<and> s_low st \<noteq> 0 \<or>
      frames st = [] \<and> s_low st = 0 \<and> s_high st = 0)"

definition l_remove_head :: "tlog \<Rightarrow> tlog" where
  "l_remove_head st = st\<lparr>s_low := s_low st + 1, frames := tl (frames st),
     s_hwm := (if length (frames st) = 1 then 144
       else if s_hwm st = f_end (hd (frames st)) then f_end (last (frames st)) else s_hwm st)\<rparr>"

fun l_evict :: "nat \<Rightarrow> tlog \<Rightarrow> tlog" where
  "l_evict 0 st = st"
| "l_evict (Suc k) st = l_evict k (l_remove_head st)"

definition l_push :: "nat \<Rightarrow> nat \<Rightarrow> tlog \<Rightarrow> tlog" where
  "l_push off s st = st\<lparr>s_low := (if s_low st = 0 then s_high st + 1 else s_low st),
     s_high := s_high st + 1, frames := frames st @ [(off, s)],
     s_hwm := max (s_hwm st) (f_end (off, s))\<rparr>"

definition l_clear :: "tlog \<Rightarrow> tlog" where
  "l_clear st = \<lparr>s_low = s_high st + 1, s_high = s_high st, frames = [], s_hwm = 144\<rparr>"

text \<open>The mark is exact when it is the largest end of a frame.\<close>

definition tight :: "tlog \<Rightarrow> bool" where
  "tight st \<longleftrightarrow> (if frames st = [] then s_hwm st = 144
     else s_hwm st = Max (f_end ` set (frames st)))"

lemma ring_head_end:
  assumes "ring A (f # fs)" "fs \<noteq> []" "\<forall>h \<in> set fs. f_end h \<le> f_end f" "h \<in> set fs"
  shows "f_end h \<le> f_end (last fs)"
proof -
  have next_run: False if "run (f # gs)" "gs \<noteq> []" "set gs \<subseteq> set fs" for gs
  proof -
    have "f_end f \<le> fst (hd gs)" "hd gs \<in> set fs" using that by (cases gs; auto)+
    then show False using assms(3) f_end_gt [of "hd gs"] by fastforce
  qed
  from assms(1) show ?thesis
  proof (cases rule: ring_cases)
    case run
    then show ?thesis using next_run [of fs] assms(2) by simp
  next
    case (wrap up lo)
    then obtain up' where up: "up = f # up'" "fs = up' @ lo" by (cases up) auto
    then have "up' = []" using next_run [of up'] wrap(4) by auto
    then show ?thesis using run_last [OF wrap(5)] up assms(4) by simp
  qed
qed

lemma l_remove_head_ok:
  assumes "log_ok A st" "frames st \<noteq> []"
  shows "log_ok A (l_remove_head st)" and "tight st \<Longrightarrow> tight (l_remove_head st)"
proof -
  obtain f fs where fs: "frames st = f # fs" using assms(2) by (cases "frames st") auto
  have ring: "ring A (f # fs)" and ends: "\<forall>h \<in> set (f # fs). f_end h \<le> s_hwm st"
    and hwm: "144 \<le> s_hwm st" "s_hwm st \<le> A"
    using assms fs by (auto simp: log_ok_def)
  have "ring A fs" by (rule ring_tl [OF ring])
  moreover have last_ok: "144 \<le> f_end (last fs) \<and> f_end (last fs) \<le> A" if "fs \<noteq> []"
    using ring_placed [OF \<open>ring A fs\<close>, of "last fs"] f_end_gt [of "last fs"] that by (auto simp: placed_def)
  moreover have rest: "f_end h \<le> f_end (last fs)" if "s_hwm st = f_end f" "h \<in> set fs" for h
    using ring_head_end [OF ring _ _ that(2)] that ends by fastforce
  ultimately show "log_ok A (l_remove_head st)"
    using assms fs ends hwm by (cases "fs = []") (auto simp: log_ok_def l_remove_head_def)
  show "tight (l_remove_head st)" if t: "tight st"
  proof (cases "fs = []")
    case False
    have max: "s_hwm st = max (f_end f) (Max (f_end ` set fs))"
      using t fs False by (simp add: tight_def)
    have "s_hwm (l_remove_head st) = Max (f_end ` set fs)"
    proof (cases "s_hwm st = f_end f")
      case True
      have "Max (f_end ` set fs) = f_end (last fs)"
        using rest [OF True] False by (intro Max_eqI) auto
      then show ?thesis using True fs False by (simp add: l_remove_head_def)
    next
      case neq: False
      then show ?thesis using max fs False by (simp add: l_remove_head_def max_def split: if_splits)
    qed
    then show ?thesis using fs False by (simp add: tight_def l_remove_head_def)
  qed (use fs in \<open>simp add: tight_def l_remove_head_def\<close>)
qed

lemma frames_remove_head [simp]: "frames (l_remove_head st) = tl (frames st)"
  by (simp add: l_remove_head_def)

lemma frames_evict [simp]: "frames (l_evict k st) = drop k (frames st)"
  by (induction k arbitrary: st) (simp_all add: drop_Suc)

lemma seq_evict [simp]: "s_high (l_evict k st) = s_high st" "s_low (l_evict k st) = s_low st + k"
  by (induction k arbitrary: st) (simp_all add: l_remove_head_def)

lemma l_evict_ok:
  "log_ok A st \<Longrightarrow> k \<le> length (frames st) \<Longrightarrow>
     log_ok A (l_evict k st) \<and> (tight st \<longrightarrow> tight (l_evict k st))"
proof (induction k arbitrary: st)
  case (Suc k)
  then have "frames st \<noteq> []" by auto
  then show ?case
    using Suc.IH [of "l_remove_head st"] l_remove_head_ok [OF Suc.prems(1)] Suc.prems(2) by auto
qed simp

lemma l_evict_snoc: "l_evict (Suc k) st = l_remove_head (l_evict k st)"
  by (induction k arbitrary: st) simp_all

lemma l_push_ok:
  assumes "log_ok A st" "ring A (frames st @ [(off, s)])"
  shows "log_ok A (l_push off s st)" and "tight st \<Longrightarrow> tight (l_push off s st)"
proof -
  have "f_end (off, s) \<le> A" "144 < f_end (off, s)"
    using ring_placed [OF assms(2), of "(off, s)"] f_end_gt [of "(off, s)"] by (auto simp: placed_def)
  then show "log_ok A (l_push off s st)"
    using assms by (auto simp: log_ok_def l_push_def)
  show "tight (l_push off s st)" if "tight st"
    using that \<open>144 < f_end (off, s)\<close>
    by (cases "frames st = []") (simp_all add: tight_def l_push_def max.commute)
qed

lemma l_clear_ok:
  "log_ok A st \<Longrightarrow> log_ok A (l_clear st)" "tight (l_clear st)"
  by (auto simp: log_ok_def l_clear_def tight_def)

lemma log_ok_A: "log_ok A st \<Longrightarrow> 144 \<le> A"
  by (simp add: log_ok_def)

lemma log_seq: "log_ok A st \<Longrightarrow> frames st \<noteq> [] \<Longrightarrow>
    s_low st \<noteq> 0 \<and> s_high st + 1 = s_low st + length (frames st)"
  by (auto simp: log_ok_def)

lemma log_frame: "log_ok A st \<Longrightarrow> f \<in> set (frames st) \<Longrightarrow> placed A f"
  by (auto simp: log_ok_def ring_placed)

text \<open>Shrinking the arena to the high water mark or beyond, or growing it, keeps the log.\<close>

lemma log_ok_resize: "log_ok A st \<Longrightarrow> s_hwm st \<le> A' \<Longrightarrow> log_ok A' st"
  unfolding log_ok_def ring_def placed_def by (auto dest: order.trans)

end
