(* ===== verification/Transport_View.thy ===== *)
theory Transport_View
  imports Transport Ring
begin

text \<open>
  Reading the bytes of a transport as an abstract log. \<open>view m p st\<close> says that the state page at
  \<open>p\<close> and the frames it leads to hold the log \<open>st\<close>. It depends only on the page, on the headers of
  the frames, and on the links between them: not on the tail's \<^verbatim>\<open>next_off\<close>, nor on the head's
  \<^verbatim>\<open>prev_off\<close>, nor on the data. That is what lets a writer prepare an allocation without
  disturbing the committed view.
\<close>

section \<open>Stores of bytes and copies\<close>

lemma wr_bytes_mem: "mm (wr_bytes a bs w) =
    (\<lambda>x. if a \<le> x \<and> x < a + length bs then bs ! (x - a) else mm w x)"
  by (simp add: wr_bytes_blit blit_def)

lemma touches_copy_page: "touches {dst..<dst + 40} w (copy_page dst src w)"
  unfolding copy_page_def Let_def by (intro touches_wr' touches_wr touches_refl) auto

lemma copy_page_ld:
  assumes "dst + 40 \<le> src \<or> src + 40 \<le> dst" "i \<in> {0, 8, 16, 24, 32}"
  shows "ld64 (mm (copy_page dst src w)) (dst + i) = ld64 (mm w) (src + i)"
  using assms unfolding copy_page_def Let_def by (elim disjE insertE; simp add: mem_simps ld_stb_same)

section \<open>Pages\<close>

definition idx_ok :: "mem \<Rightarrow> bool" where
  "idx_ok m \<longleftrightarrow> m hdr_page_idx = 0 \<or> m hdr_page_idx = 1"

lemma pages:
  assumes "idx_ok m"
  shows "(a0_transport_committed_page m = 48 \<and> a0_transport_working_page m = 88) \<or>
     (a0_transport_committed_page m = 88 \<and> a0_transport_working_page m = 48)"
  using assms by (auto simp: idx_ok_def a0_transport_committed_page_def a0_transport_working_page_def state_page_def)

lemma workspace_off [simp]: "a0_transport_workspace_off = 144"
  by (simp add: a0_transport_workspace_off_def sizeof_hdr_def a0_max_align_eq)

lemma page_same: "m' hdr_page_idx = m hdr_page_idx \<Longrightarrow>
    a0_transport_committed_page m' = a0_transport_committed_page m \<and>
    a0_transport_working_page m' = a0_transport_working_page m \<and> idx_ok m' = idx_ok m"
  by (simp add: a0_transport_committed_page_def a0_transport_working_page_def idx_ok_def)

section \<open>Views\<close>

definition frame_at :: "mem \<Rightarrow> tlog \<Rightarrow> nat \<Rightarrow> bool" where
  "frame_at m st i \<longleftrightarrow>
     (let f = frames st ! i in
        ld64 m (fr_seq_at (fst f)) = s_low st + i \<and> ld64 m (fr_off_at (fst f)) = fst f \<and>
        ld64 m (fr_size_at (fst f)) = snd f \<and>
        (Suc i < length (frames st) \<longrightarrow>
           ld64 m (fr_next_at (fst f)) = fst (frames st ! Suc i) \<and>
           ld64 m (fr_prev_at (fst (frames st ! Suc i))) = fst f))"

definition page_at :: "mem \<Rightarrow> nat \<Rightarrow> tlog \<Rightarrow> bool" where
  "page_at m p st \<longleftrightarrow>
     ld64 m (seq_low_at p) = s_low st \<and> ld64 m (seq_high_at p) = s_high st \<and>
     ld64 m (off_head_at p) = (if frames st = [] then 0 else fst (hd (frames st))) \<and>
     ld64 m (off_tail_at p) = (if frames st = [] then 0 else fst (last (frames st))) \<and>
     ld64 m (hwm_at p) = s_hwm st"

definition view :: "mem \<Rightarrow> nat \<Rightarrow> tlog \<Rightarrow> bool" where
  "view m p st \<longleftrightarrow> page_at m p st \<and> (\<forall>i<length (frames st). frame_at m st i)"

text \<open>The addresses a view depends on, besides its page.\<close>

definition foot :: "frame list \<Rightarrow> nat set" where
  "foot fs = {x. \<exists>i<length fs. fst (fs ! i) \<le> x \<and> x < fst (fs ! i) + 40 \<and>
     (fst (fs ! i) + 16 \<le> x \<and> x < fst (fs ! i) + 24 \<longrightarrow> Suc i < length fs) \<and>
     (fst (fs ! i) + 24 \<le> x \<and> x < fst (fs ! i) + 32 \<longrightarrow> 0 < i)}"

lemma page_at_only: "only S m m' \<Longrightarrow> S \<inter> {p..<p + 40} = {} \<Longrightarrow> page_at m' p st = page_at m p st"
  unfolding page_at_def by (subst (1 2 3 4 5) only_ld, assumption, fastforce) auto

lemma ld64_only: "only S m m' \<Longrightarrow> (\<And>x. a \<le> x \<Longrightarrow> x < a + 8 \<Longrightarrow> x \<notin> S) \<Longrightarrow> ld64 m' a = ld64 m a"
  by (rule only_ld) auto

lemma frame_at_only:
  assumes "only S m m'" "S \<inter> foot (frames st) = {}" "i < length (frames st)"
  shows "frame_at m' st i = frame_at m st i"
proof -
  let ?f = "\<lambda>i. fst (frames st ! i)"
  have out: "x \<notin> S" if "j < length (frames st)" "?f j \<le> x" "x < ?f j + 40"
    "?f j + 16 \<le> x \<and> x < ?f j + 24 \<longrightarrow> Suc j < length (frames st)"
    "?f j + 24 \<le> x \<and> x < ?f j + 32 \<longrightarrow> 0 < j" for x j
    using assms(2) that unfolding foot_def by blast
  have hdr: "x \<notin> S" if "?f i \<le> x \<and> x < ?f i + 16 \<or> ?f i + 32 \<le> x \<and> x < ?f i + 40" for x
    using out [OF assms(3), of x] that by auto
  have nxt: "x \<notin> S" if "Suc i < length (frames st)" "?f i + 16 \<le> x" "x < ?f i + 24" for x
    using out [OF assms(3), of x] that by auto
  have prv: "x \<notin> S" if "Suc i < length (frames st)" "?f (Suc i) + 24 \<le> x" "x < ?f (Suc i) + 32" for x
    using out [OF that(1), of x] that by auto
  have "ld64 m' (?f i) = ld64 m (?f i)" "ld64 m' (?f i + 8) = ld64 m (?f i + 8)"
    "ld64 m' (?f i + 32) = ld64 m (?f i + 32)"
    by (rule ld64_only [OF assms(1) hdr]; simp)+
  moreover have "ld64 m' (?f i + 16) = ld64 m (?f i + 16)" "ld64 m' (?f (Suc i) + 24) = ld64 m (?f (Suc i) + 24)"
    if "Suc i < length (frames st)"
    by (rule ld64_only [OF assms(1) nxt]; use that in simp) (rule ld64_only [OF assms(1) prv]; use that in simp)
  ultimately show ?thesis unfolding frame_at_def Let_def by auto
qed

lemma view_only:
  assumes "only S m m'" "S \<inter> {p..<p + 40} = {}" "S \<inter> foot (frames st) = {}"
  shows "view m' p st = view m p st"
  using page_at_only [OF assms(1,2)] frame_at_only [OF assms(1,3)] by (auto simp: view_def)

lemma foot_workspace:
  assumes "log_ok A st" "x \<in> foot (frames st)"
  shows "\<exists>f \<in> set (frames st). fst f \<le> x \<and> x < fst f + 40"
proof -
  obtain i where "i < length (frames st)" "fst (frames st ! i) \<le> x" "x < fst (frames st ! i) + 40"
    using assms(2) unfolding foot_def by blast
  then show ?thesis by (intro bexI [of _ "frames st ! i"]) auto
qed

lemma foot_high: "log_ok A st \<Longrightarrow> x \<in> foot (frames st) \<Longrightarrow> 144 \<le> x \<and> x < A"
  using foot_workspace log_frame by (fastforce simp: placed_def f_end_def)

end
