(* ===== verification/Transport_Correct.thy ===== *)
theory Transport_Correct
  imports Transport_View
begin

text \<open>
  The operations of \<^verbatim>\<open>src/transport.c\<close> against the log of \<open>Ring\<close>: what each does to the working
  view, what it leaves of the committed one, and what a crash in the middle of it would leave.
\<close>

section \<open>The invariant\<close>

text \<open>
  \<open>committed A m st\<close>: the committed page of memory \<open>m\<close> shows the log \<open>st\<close> in an arena of \<open>A\<close> bytes.
  This is what the next process to lock the transport starts from, whatever else was being done.
\<close>

definition committed :: "nat \<Rightarrow> mem \<Rightarrow> tlog \<Rightarrow> bool" where
  "committed A m st \<longleftrightarrow> idx_ok m \<and> ld64 m hdr_arena_size = A \<and>
     view m (a0_transport_committed_page m) st \<and> log_ok A st"

definition tinv :: "nat \<Rightarrow> world \<Rightarrow> tlog \<Rightarrow> tlog \<Rightarrow> bool" where
  "tinv A w stC stW \<longleftrightarrow> committed A (mm w) stC \<and> view (mm w) (wpage w) stW \<and> log_ok A stW \<and>
     (\<exists>news. frames stW = frames stC @ news) \<and> s_hwm stC \<le> s_hwm stW \<and> requeue_ok w \<and> A < 2 ^ 63"

lemma committed_only:
  assumes c: "committed A m st" and o: "only S m m'"
    and S: "hdr_page_idx \<notin> S" "S \<inter> {hdr_arena_size..<hdr_arena_size + 8} = {}"
      "S \<inter> {a0_transport_committed_page m..<a0_transport_committed_page m + 40} = {}"
      "S \<inter> foot (frames st) = {}"
  shows "committed A m' st" and "a0_transport_committed_page m' = a0_transport_committed_page m"
    and "a0_transport_working_page m' = a0_transport_working_page m"
proof -
  have "m' hdr_page_idx = m hdr_page_idx" using o S(1) by (simp add: only_def)
  note same = page_same [of m' m, OF this]
  then show "a0_transport_committed_page m' = a0_transport_committed_page m"
    "a0_transport_working_page m' = a0_transport_working_page m" by simp_all
  have "ld64 m' hdr_arena_size = ld64 m hdr_arena_size"
    using S(2) by (intro only_ld [OF o]) blast
  then show "committed A m' st"
    using c same view_only [OF o S(3,4)] by (simp add: committed_def)
qed

lemma low_foot: "log_ok A st \<Longrightarrow> S \<subseteq> {..<144} \<Longrightarrow> S \<inter> foot (frames st) = {}"
  using foot_high [of A st] by fastforce

lemma low_foot': "log_ok A st \<Longrightarrow> b \<le> 144 \<Longrightarrow> {a..<b} \<inter> foot (frames st) = {}"
  by (rule low_foot) auto

lemma copy_page_view:
  assumes v: "view (mm w) src st" "log_ok A st" and apart: "dst + 40 \<le> src \<or> src + 40 \<le> dst"
    and low: "dst + 40 \<le> 144"
  shows "view (mm (copy_page dst src w)) dst st"
proof -
  have f: "{dst..<dst + 40} \<inter> foot (frames st) = {}" by (rule low_foot' [OF v(2) low])
  have "page_at (mm (copy_page dst src w)) dst st"
    using v(1) copy_page_ld [OF apart, of _ w] unfolding view_def page_at_def by (metis add_0_right insert_iff)
  moreover have "frame_at (mm (copy_page dst src w)) st i" if "i < length (frames st)" for i
    using v(1) that frame_at_only [OF touches_only [OF touches_copy_page] f that] by (simp add: view_def)
  ultimately show ?thesis by (simp add: view_def)
qed

text \<open>The words of the mutex and the condition variable are apart from everything a view reads.\<close>

abbreviation sync_words :: "nat set" where
  "sync_words \<equiv> {hdr_mtx..<hdr_cnd + 4}"

lemma committed_sync:
  assumes c: "committed A m st" and o: "only sync_words m m'"
  shows "committed A m' st" and "a0_transport_committed_page m' = a0_transport_committed_page m"
    and "a0_transport_working_page m' = a0_transport_working_page m"
proof -
  have ok: "log_ok A st" "idx_ok m" using c by (simp_all add: committed_def)
  have "sync_words \<inter> foot (frames st) = {}" by (rule low_foot' [OF ok(1)]) (simp add: layout)
  moreover have "sync_words \<inter> {a0_transport_committed_page m..<a0_transport_committed_page m + 40} = {}"
    using pages [OF ok(2)] by (auto simp: layout)
  moreover have "hdr_page_idx \<notin> sync_words" "sync_words \<inter> {hdr_arena_size..<hdr_arena_size + 8} = {}"
    by (auto simp: layout)
  ultimately show "committed A m' st" "a0_transport_committed_page m' = a0_transport_committed_page m"
    "a0_transport_working_page m' = a0_transport_working_page m"
    using committed_only [OF c o] by blast+
qed

lemma view_sync:
  assumes "view m p st" "log_ok A st" "48 \<le> p" "only sync_words m m'"
  shows "view m' p st"
proof -
  have "sync_words \<inter> foot (frames st) = {}" by (rule low_foot' [OF assms(2)]) (simp add: layout)
  moreover have "sync_words \<inter> {p..<p + 40} = {}" using assms(3) by (auto simp: layout)
  ultimately show ?thesis using view_only [OF assms(4)] assms(1) by blast
qed

lemma broadcast_correct:
  assumes k: "requeue_ok w"
  shows "\<exists>err w'. a0_cnd_broadcast hdr_cnd hdr_mtx w = Some (err, w') \<and> touches sync_words w w' \<and> requeue_ok w'"
proof -
  let ?P = "only sync_words (mm w)"
  have "?P (stb 4 (mm w) hdr_cnd ((ld 4 (mm w) hdr_cnd + 1) mod 2 ^ 32))"
    by (rule only_stb) (auto simp: layout)
  then obtain err w' where w': "a0_cnd_wake hdr_cnd hdr_mtx INT_MAX w = Some (err, w')" "grew w w' ?P"
      "\<And>x. (x < hdr_cnd \<or> hdr_cnd + 4 \<le> x) \<and> (x < hdr_mtx + 16 \<or> hdr_mtx + 16 + 4 \<le> x) \<Longrightarrow> mm w' x = mm w x"
    using cnd_wake_effect [OF k, of ?P hdr_cnd hdr_mtx INT_MAX] by auto
  have "?P (mm w')"
    unfolding only_def by (intro allI impI w'(3)) (auto simp: layout)
  moreover have "requeue_ok w'"
    by (rule requeue_ok_kernel [OF _ k]) (use w'(2) in \<open>simp add: grew_def\<close>)
  ultimately show ?thesis
    using w'(1,2) by (auto simp: a0_cnd_broadcast_def touches_def)
qed

lemma flip_page:
  assumes "idx_ok (mm w)"
  defines "w1 \<equiv> wr 1 hdr_page_idx (if mm w hdr_page_idx = 0 then 1 else 0) w"
  shows "cpage w1 = wpage w" "wpage w1 = cpage w" "idx_ok (mm w1)" "touches {hdr_page_idx} w w1"
  using assms unfolding w1_def by (auto simp: idx_ok_def a0_transport_committed_page_def
        a0_transport_working_page_def stb_def state_page_def intro: touches_wr)

lemma flip_view:
  assumes "touches {hdr_page_idx} w w1" "log_ok A st" "p = 48 \<or> p = 88"
  shows "view (mm w1) p st = view (mm w) p st" "ld64 (mm w1) hdr_arena_size = ld64 (mm w) hdr_arena_size"
proof -
  have "{hdr_page_idx} \<inter> foot (frames st) = {}" by (rule low_foot [OF assms(2)]) (auto simp: layout)
  moreover have "{hdr_page_idx} \<inter> {p..<p + 40} = {}" using assms(3) by (auto simp: layout)
  ultimately show "view (mm w1) p st = view (mm w) p st"
    by (intro view_only [OF touches_only [OF assms(1)]])
  show "ld64 (mm w1) hdr_arena_size = ld64 (mm w) hdr_arena_size"
    by (rule only_ld [OF touches_only [OF assms(1)]]) (auto simp: layout)
qed

text \<open>Copying the committed page over the other one: the views become the same.\<close>

lemma sync_pages:
  assumes c: "committed A (mm w) st"
  defines "w1 \<equiv> copy_page (wpage w) (cpage w) w"
  shows "grew w w1 (\<lambda>m. committed A m st)" "committed A (mm w1) st" "view (mm w1) (wpage w1) st"
    "cpage w1 = cpage w" "wpage w1 = wpage w" "touches {wpage w..<wpage w + 40} w w1"
proof -
  have ok: "log_ok A st" and idx: "idx_ok (mm w)" using c by (simp_all add: committed_def)
  have pg: "cpage w = 48 \<and> wpage w = 88 \<or> cpage w = 88 \<and> wpage w = 48" by (rule pages [OF idx])
  show t: "touches {wpage w..<wpage w + 40} w w1"
    unfolding w1_def by (rule touches_copy_page)
  have f: "{wpage w..<wpage w + 40} \<inter> foot (frames st) = {}"
    using pg by (intro low_foot' [OF ok]) auto
  have keep: "committed A m st" "a0_transport_committed_page m = cpage w" "a0_transport_working_page m = wpage w"
    if "only {wpage w..<wpage w + 40} (mm w) m" for m
    using committed_only [OF c that _ _ _ f] pg by (auto simp: layout)
  show "grew w w1 (\<lambda>m. committed A m st)" using keep(1) by (rule touches_grew [OF t])
  show "committed A (mm w1) st" "cpage w1 = cpage w" and wp: "wpage w1 = wpage w"
    using keep [OF touches_only [OF t]] by simp_all
  show "view (mm w1) (wpage w1) st"
    unfolding wp unfolding w1_def using c pg
    by (intro copy_page_view [OF _ ok]) (auto simp: committed_def)
qed

lemma commit_correct:
  assumes c: "committed A (mm w) stC" and v: "view (mm w) (wpage w) st" "log_ok A st"
    and k: "requeue_ok w"
  shows "\<exists>w'. a0_transport_commit w = Some w' \<and>
     grew w w' (\<lambda>m. committed A m stC \<or> committed A m st) \<and>
     committed A (mm w') st \<and> view (mm w') (wpage w') st \<and> requeue_ok w' \<and>
     touches {..<144} w w'"
proof -
  let ?P = "\<lambda>m. committed A m stC \<or> committed A m st"
  define w1 where "w1 = wr 1 hdr_page_idx (if mm w hdr_page_idx = 0 then 1 else 0) w"
  define w2 where "w2 = copy_page (wpage w1) (cpage w1) w1"
  have idx: "idx_ok (mm w)" and A: "ld64 (mm w) hdr_arena_size = A" using c by (simp_all add: committed_def)
  have pg: "cpage w = 48 \<and> wpage w = 88 \<or> cpage w = 88 \<and> wpage w = 48" by (rule pages [OF idx])
  note flip = flip_page [OF idx, folded w1_def]
  have "committed A (mm w1) st"
    using flip_view [OF flip(4) v(2)] v pg A flip(1-3) by (auto simp: committed_def)
  note sync = sync_pages [OF this, folded w2_def]
  have k2: "requeue_ok w2"
    by (rule requeue_ok_kernel [OF _ k]) (use touches_kernel [OF flip(4)] touches_kernel [OF sync(6)] in simp)
  obtain err w' where w': "a0_cnd_broadcast hdr_cnd hdr_mtx w2 = Some (err, w')" "touches sync_words w2 w'"
      "requeue_ok w'"
    using broadcast_correct [OF k2] by blast
  have "grew w w1 ?P" unfolding w1_def using c by (intro grew_wr) simp
  also have "grew w1 w2 ?P" using sync(1) by (rule grew_mono) simp
  also have "grew w2 w' ?P" using committed_sync [OF sync(2)] by (intro touches_grew [OF w'(2)]) simp
  finally have "grew w w' ?P" .
  moreover have "committed A (mm w') st" "wpage w' = wpage w2"
    using committed_sync [OF sync(2) touches_only [OF w'(2)]] by simp_all
  moreover have "view (mm w') (wpage w2) st"
    using pg flip sync(5) by (intro view_sync [OF sync(3) v(2) _ touches_only [OF w'(2)]]) auto
  moreover have "touches {..<144} w w'"
  proof -
    have "touches {..<144} w w1" by (rule touches_mono [OF flip(4)]) (simp add: layout)
    moreover have "touches {..<144} w1 w2" by (rule touches_mono [OF sync(6)]) (use pg flip in auto)
    moreover have "touches {..<144} w2 w'" by (rule touches_mono [OF w'(2)]) (auto simp: layout)
    ultimately show ?thesis using touches_trans by blast
  qed
  moreover have "a0_transport_commit w = Some w'"
    unfolding a0_transport_commit_def Let_def w1_def [symmetric] w2_def [symmetric] w'(1) by simp
  ultimately show ?thesis using w'(3) by auto
qed

section \<open>Eviction\<close>

lemma tinvD:
  assumes "tinv A w stC st"
  shows "committed A (mm w) stC" "view (mm w) (wpage w) st" "log_ok A st" "requeue_ok w" "A < 2 ^ 63"
    "page_at (mm w) (wpage w) st" "wpage w = 48 \<or> wpage w = 88"
    "cpage w = 48 \<and> wpage w = 88 \<or> cpage w = 88 \<and> wpage w = 48" "ld64 (mm w) hdr_arena_size = A"
  using assms pages [of "mm w"] by (auto simp: tinv_def view_def committed_def)

text \<open>Stores into the working page leave the committed view and the frames alone.\<close>

lemma working_writes:
  assumes c: "committed A (mm w) stC" and t: "touches {wpage w..<wpage w + 40} w w1"
  shows "grew w w1 (\<lambda>m. committed A m stC)" "committed A (mm w1) stC" "wpage w1 = wpage w"
    "requeue_ok w \<Longrightarrow> requeue_ok w1" "touches {..<144} w w1"
    "log_ok A st \<Longrightarrow> i < length (frames st) \<Longrightarrow> frame_at (mm w1) st i = frame_at (mm w) st i"
proof -
  have ok: "log_ok A stC" and idx: "idx_ok (mm w)" using c by (simp_all add: committed_def)
  have pg: "cpage w = 48 \<and> wpage w = 88 \<or> cpage w = 88 \<and> wpage w = 48" by (rule pages [OF idx])
  have f: "{wpage w..<wpage w + 40} \<inter> foot (frames st) = {}" if "log_ok A st" for st
    using pg by (intro low_foot' [OF that]) auto
  have keep: "committed A m stC" "a0_transport_working_page m = wpage w"
    if "only {wpage w..<wpage w + 40} (mm w) m" for m
    using committed_only [OF c that _ _ _ f [OF ok]] pg by (auto simp: layout)
  show "grew w w1 (\<lambda>m. committed A m stC)" using keep(1) by (rule touches_grew [OF t])
  show "committed A (mm w1) stC" "wpage w1 = wpage w" using keep [OF touches_only [OF t]] by simp_all
  show "requeue_ok w1" if "requeue_ok w"
    by (rule requeue_ok_kernel [OF touches_kernel [OF t] that])
  show "touches {..<144} w w1" by (rule touches_mono [OF t]) (use pg in auto)
  show "frame_at (mm w1) st i = frame_at (mm w) st i" if "log_ok A st" "i < length (frames st)"
    by (rule frame_at_only [OF touches_only [OF t] f [OF that(1)] that(2)])
qed

lemma head_frame:
  assumes "view m p st" "frames st = f # fs"
  shows "ld64 m (fr_seq_at (fst f)) = s_low st" "ld64 m (fr_off_at (fst f)) = fst f"
    "ld64 m (fr_size_at (fst f)) = snd f" "fs \<noteq> [] \<Longrightarrow> ld64 m (fr_next_at (fst f)) = fst (hd fs)"
proof -
  have "frame_at m st 0" using assms by (simp add: view_def)
  then show "ld64 m (fr_seq_at (fst f)) = s_low st" "ld64 m (fr_off_at (fst f)) = fst f"
    "ld64 m (fr_size_at (fst f)) = snd f" "fs \<noteq> [] \<Longrightarrow> ld64 m (fr_next_at (fst f)) = fst (hd fs)"
    using assms(2) by (simp_all add: frame_at_def Let_def hd_conv_nth)
qed

lemma nth_frame:
  assumes "view m p st" "i < length (frames st)"
  shows "ld64 m (fr_seq_at (fst (frames st ! i))) = s_low st + i"
    "ld64 m (fr_off_at (fst (frames st ! i))) = fst (frames st ! i)"
    "ld64 m (fr_size_at (fst (frames st ! i))) = snd (frames st ! i)"
  using assms by (simp_all add: view_def frame_at_def Let_def)

lemma last_frame:
  assumes "view m p st" "frames st \<noteq> []"
  shows "ld64 m (fr_size_at (fst (last (frames st)))) = snd (last (frames st))"
    "ld64 m (fr_off_at (fst (last (frames st)))) = fst (last (frames st))"
    "ld64 m (fr_seq_at (fst (last (frames st)))) = s_low st + length (frames st) - 1"
proof -
  have "length (frames st) - 1 < length (frames st)" using assms(2) by simp
  note nth_frame [OF assms(1) this]
  then show "ld64 m (fr_size_at (fst (last (frames st)))) = snd (last (frames st))"
    "ld64 m (fr_off_at (fst (last (frames st)))) = fst (last (frames st))"
    "ld64 m (fr_seq_at (fst (last (frames st)))) = s_low st + length (frames st) - 1"
    unfolding last_conv_nth [OF assms(2)] using assms(2) by (simp_all add: Suc_le_eq)
qed

lemma frame_end_eq:
  assumes "placed A f" "A < 2 ^ 63" "ld64 m (fr_size_at (fst f)) = snd f"
  shows "a0_transport_frame_end m (fst f) = f_end f"
  using assms by (simp add: a0_transport_frame_end_def sizeof_frame_hdr_def placed_def f_end_def)

lemma frame_at_remove_head:
  "frames st \<noteq> [] \<Longrightarrow> frame_at m (l_remove_head st) i = frame_at m st (Suc i)"
  by (cases "frames st") (auto simp: frame_at_def l_remove_head_def Let_def)

definition pop_page :: "nat \<Rightarrow> world \<Rightarrow> world" where
  "pop_page state w =
     (let w = (if ld64 (mm w) (off_head_at state) = ld64 (mm w) (off_tail_at state) then
            let w = wr 8 (off_head_at state) 0 w;
                w = wr 8 (off_tail_at state) 0 w
            in wr 8 (hwm_at state) a0_transport_workspace_off w
          else
            let head = ld64 (mm w) (off_head_at state);
                w = wr 8 (off_head_at state) (ld64 (mm w) (fr_next_at head)) w;
                head_end = a0_transport_frame_end (mm w) (ld64 (mm w) (fr_off_at head))
            in if ld64 (mm w) (hwm_at state) = head_end then
                 wr 8 (hwm_at state) (a0_transport_frame_end (mm w) (ld64 (mm w) (off_tail_at state))) w
               else w)
      in wr 8 (seq_low_at state) (add64 (ld64 (mm w) (seq_low_at state)) 1) w)"

lemma remove_head_pop: "a0_transport_remove_head state w = a0_transport_commit (pop_page state w)"
  by (simp add: a0_transport_remove_head_def pop_page_def Let_def)

lemma pop_page_touches: "touches {p..<p + 40} w (pop_page p w)"
  unfolding pop_page_def Let_def by (intro touches_wr' touches_if touches_refl) auto

lemma frame_end_stb:
  "a + n \<le> off + 32 \<or> off + 40 \<le> a \<Longrightarrow>
     a0_transport_frame_end (stb n m a v) off = a0_transport_frame_end m off"
  by (auto simp: a0_transport_frame_end_def ld_stb_other)

lemma pop_page_view:
  assumes v: "view (mm w) p st" "log_ok A st" and A: "A < 2 ^ 63" and p: "p = 48 \<or> p = 88"
    and ne: "frames st \<noteq> []" and seq: "s_high st + 1 < 2 ^ 64"
  shows "page_at (mm (pop_page p w)) p (l_remove_head st)"
proof -
  obtain f fs where fs: "frames st = f # fs" using ne by (cases "frames st") auto
  have pg: "ld64 (mm w) p = s_low st" "ld64 (mm w) (p + 8) = s_high st" "ld64 (mm w) (p + 16) = fst f"
      "ld64 (mm w) (p + 24) = fst (last (f # fs))" "ld64 (mm w) (p + 32) = s_hwm st"
    using v(1) fs by (simp_all add: view_def page_at_def)
  have low: "add64 (s_low st) 1 = s_low st + 1" "s_low st + 1 < 2 ^ 64"
    using log_seq [OF v(2) ne] seq fs by simp_all
  show ?thesis
  proof (cases "fs = []")
    case True
    then show ?thesis
      using p pg low fs unfolding pop_page_def Let_def
      by (simp add: page_at_def l_remove_head_def mem_simps)
  next
    case False
    then have last: "last (f # fs) = last fs" "last fs \<in> set (frames st)" using fs by simp_all
    have pl: "placed A f" "placed A (last fs)" "placed A (hd fs)"
      using log_frame [OF v(2)] False fs by (auto simp: last(2))
    have hi: "144 \<le> fst f" "144 \<le> fst (last fs)" using pl by (simp_all add: placed_def)
    have neq: "fst f \<noteq> fst (last fs)"
    proof -
      have "ring A (f # fs)" using v(2) fs by (simp add: log_ok_def)
      then have "apart f (last fs)" using ring_apart False by fastforce
      then show ?thesis using f_end_gt [of f] f_end_gt [of "last fs"] by (auto simp: apart_def)
    qed
    have bounds: "fst (hd fs) < 2 ^ 64" "f_end (last fs) < 2 ^ 64"
      using pl(2,3) A f_end_gt [of "hd fs"] by (simp_all add: placed_def)
    have hf: "ld64 (mm w) (fst f + 8) = fst f" "ld64 (mm w) (fst f + 16) = fst (hd fs)"
      using head_frame [OF v(1) fs] False by simp_all
    have ends: "a0_transport_frame_end (mm w) (fst f) = f_end f"
      "a0_transport_frame_end (mm w) (fst (last fs)) = f_end (last fs)"
      using frame_end_eq [OF pl(1) A] frame_end_eq [OF pl(2) A] head_frame(3) [OF v(1) fs]
        last_frame(1) [OF v(1) ne] fs False by simp_all
    have far: "p + 40 \<le> fst f" "p + 40 \<le> fst (last fs)" using p hi by auto
    show ?thesis
      unfolding pop_page_def Let_def
      using far pg low fs False neq hf ends last(1) bounds
      by (simp add: page_at_def l_remove_head_def mem_simps frame_end_stb)
  qed
qed

lemma remove_head_correct:
  assumes t: "tinv A w stC st" and ne: "frames st \<noteq> []" and seq: "s_high st + 1 < 2 ^ 64"
  shows "\<exists>w'. a0_transport_remove_head (wpage w) w = Some w' \<and>
     grew w w' (\<lambda>m. committed A m stC \<or> committed A m (l_remove_head st)) \<and>
     tinv A w' (l_remove_head st) (l_remove_head st) \<and> touches {..<144} w w'"
proof -
  note t = tinvD [OF t]
  note pop = working_writes [OF t(1) pop_page_touches]
  have ok: "log_ok A (l_remove_head st)" by (rule l_remove_head_ok [OF t(3) ne])
  have "view (mm (pop_page (wpage w) w)) (wpage w) (l_remove_head st)"
    unfolding view_def
  proof (intro conjI allI impI)
    show "page_at (mm (pop_page (wpage w) w)) (wpage w) (l_remove_head st)"
      by (rule pop_page_view [OF t(2,3,5,7) ne seq])
    fix i assume i: "i < length (frames (l_remove_head st))"
    then have "Suc i < length (frames st)" by (simp add: less_diff_conv)
    then show "frame_at (mm (pop_page (wpage w) w)) (l_remove_head st) i"
      using t(2) pop(6) [OF ok i] by (simp add: frame_at_remove_head [OF ne] view_def)
  qed
  then obtain w' where w': "a0_transport_commit (pop_page (wpage w) w) = Some w'"
      "grew (pop_page (wpage w) w) w' (\<lambda>m. committed A m stC \<or> committed A m (l_remove_head st))"
      "committed A (mm w') (l_remove_head st)" "view (mm w') (wpage w') (l_remove_head st)" "requeue_ok w'"
      "touches {..<144} (pop_page (wpage w) w) w'"
    using commit_correct [OF pop(2) _ ok pop(4) [OF t(4)]] unfolding pop(3) by blast
  have "grew w (pop_page (wpage w) w) (\<lambda>m. committed A m stC \<or> committed A m (l_remove_head st))"
    using pop(1) by (rule grew_mono) simp
  then show ?thesis
    using w' ok t(5) grew_trans touches_trans [OF pop(5)] by (auto simp: remove_head_pop tinv_def)
qed

lemma empty_view: "view (mm w) (wpage w) st \<Longrightarrow> log_ok A st \<Longrightarrow> a0_transport_empty w \<longleftrightarrow> frames st = []"
  by (cases "frames st") (auto simp: a0_transport_empty_def Let_def view_def page_at_def log_ok_def)

lemma slot_evicts_eq:
  assumes t: "tinv A w stC st" and fits: "off + n \<le> A"
  shows "a0_transport_slot_evicts off n w = evicts off n (frames st)"
proof (cases "frames st")
  case Nil
  then show ?thesis
    using empty_view [OF tinvD(2,3) [OF t]]
    by (simp add: a0_transport_slot_evicts_def a0_transport_head_interval_def evicts_def)
next
  case (Cons f fs)
  note t = tinvD [OF t]
  have pl: "placed A f" using log_frame [OF t(3)] Cons by simp
  have "\<not> a0_transport_empty w" using empty_view [OF t(2,3)] Cons by simp
  moreover have "ld64 (mm w) (wpage w + 16) = fst f" "ld64 (mm w) (wpage w + 24) = fst (last (f # fs))"
    using t(6) Cons by (simp_all add: page_at_def)
  moreover have "ld64 (mm w) (fst f + 32) = snd f" using head_frame(3) [OF t(2) Cons] by simp
  ultimately show ?thesis
    using pl t(5) fits Cons
    by (simp add: a0_transport_slot_evicts_def a0_transport_head_interval_def Let_def evicts_def
        a0_transport_frame_intersects_def sizeof_frame_hdr_def placed_def f_end_def add.assoc)
qed

lemma find_slot_eq:
  assumes t: "tinv A w stC st" and n: "n + A + 64 < 2 ^ 64"
  shows "a0_transport_find_slot n w =
    (case find_slot A n (frames st) of None \<Rightarrow> Inl A0_ERR_FRAME_LARGE | Some off \<Rightarrow> Inr off)"
proof (cases "frames st = []")
  case True
  have "144 \<le> A" using log_ok_A tinvD(3) [OF t] by simp
  then show ?thesis
    using True empty_view [OF tinvD(2,3) [OF t]] tinvD(9) [OF t] n
    by (simp add: a0_transport_find_slot_def find_slot_def slot_off_def)
next
  case False
  let ?l = "last (frames st)"
  have empty: "\<not> a0_transport_empty w" using empty_view [OF tinvD(2,3) [OF t]] False by simp
  have pl: "placed A ?l" using log_frame [OF tinvD(3) [OF t]] False by simp
  have "ld64 (mm w) (wpage w + 24) = fst ?l" using tinvD(6) [OF t] False by (simp add: page_at_def)
  moreover have "a0_transport_frame_end (mm w) (fst ?l) = f_end ?l"
    using last_frame(1) [OF tinvD(2) [OF t] False] by (rule frame_end_eq [OF pl tinvD(5) [OF t]])
  moreover have "a0_max_align (f_end ?l) = align16 (f_end ?l)" "align16 (f_end ?l) < A + 16" "144 \<le> A"
    using pl tinvD(5) [OF t] align16(2) [of "f_end ?l"] f_end_gt [of ?l]
    by (simp_all add: a0_max_align_eq align16_def placed_def)
  ultimately show ?thesis
    using empty False tinvD(9) [OF t] n
    by (simp add: a0_transport_find_slot_def find_slot_def slot_off_def Let_def)
qed

lemma evict_correct:
  assumes "tinv A w stC st" "off + n \<le> A" "s_high st + 1 < 2 ^ 64" "k = evicted off n (frames st)"
  shows "\<exists>w'. a0_transport_evict off n w = Some w' \<and>
     grew w w' (\<lambda>m. committed A m stC \<or> (\<exists>j\<in>{1..k}. committed A m (l_evict j st))) \<and>
     tinv A w' (if k = 0 then stC else l_evict k st) (l_evict k st) \<and> touches {..<144} w w'"
  using assms
proof (induction k arbitrary: w stC st)
  case 0
  then have "\<not> a0_transport_slot_evicts off n w"
    using slot_evicts_eq [OF 0(1,2)] evicted_0 by metis
  then show ?case using 0 by (subst a0_transport_evict.simps) simp
next
  case (Suc k)
  obtain f fs where fs: "frames st = f # fs" using Suc.prems(4) by (cases "frames st") auto
  then have ev: "evicts off n (frames st)" and k: "k = evicted off n (frames (l_remove_head st))"
    using Suc.prems(4) by (auto split: if_splits)
  obtain w1 where w1: "a0_transport_remove_head (wpage w) w = Some w1"
      "grew w w1 (\<lambda>m. committed A m stC \<or> committed A m (l_remove_head st))"
      "tinv A w1 (l_remove_head st) (l_remove_head st)" "touches {..<144} w w1"
    using remove_head_correct [OF Suc.prems(1) _ Suc.prems(3)] fs by auto
  have seq: "s_high (l_remove_head st) + 1 < 2 ^ 64"
    using Suc.prems(3) seq_evict(1) [of 1 st] by simp
  obtain w' where w': "a0_transport_evict off n w1 = Some w'"
      "grew w1 w' (\<lambda>m. committed A m (l_remove_head st) \<or> (\<exists>j\<in>{1..k}. committed A m (l_evict j (l_remove_head st))))"
      "tinv A w' (if k = 0 then l_remove_head st else l_evict k (l_remove_head st)) (l_evict k (l_remove_head st))"
      "touches {..<144} w1 w'"
    using Suc.IH [OF w1(3) Suc.prems(2) seq k] by blast
  let ?P = "\<lambda>m. committed A m stC \<or> (\<exists>j\<in>{1..Suc k}. committed A m (l_evict j st))"
  have one: "committed A m (l_remove_head st) \<Longrightarrow> ?P m" for m by (intro disjI2 bexI [of _ 1]) auto
  have "grew w w1 ?P" using w1(2) by (rule grew_mono) (use one in auto)
  moreover have "grew w1 w' ?P"
    using w'(2)
  proof (rule grew_mono)
    fix m assume "committed A m (l_remove_head st) \<or> (\<exists>j\<in>{1..k}. committed A m (l_evict j (l_remove_head st)))"
    then show "?P m"
    proof
      assume "\<exists>j\<in>{1..k}. committed A m (l_evict j (l_remove_head st))"
      then obtain j where "j \<in> {1..k}" "committed A m (l_evict (Suc j) st)" by auto
      then show ?thesis by (intro disjI2 bexI [of _ "Suc j"]) auto
    qed (rule one)
  qed
  ultimately have "grew w w' ?P" by (rule grew_trans)
  moreover have "a0_transport_evict off n w = Some w'"
    using ev w1(1) w'(1) slot_evicts_eq [OF Suc.prems(1,2)] by (subst a0_transport_evict.simps) simp
  moreover have "tinv A w' (l_evict (Suc k) st) (l_evict (Suc k) st)"
    using w'(3) by (cases "k = 0") simp_all
  ultimately show ?case using touches_trans [OF w1(4) w'(4)] by auto
qed

end
