(* ===== verification/Transport_Alloc.thy ===== *)
theory Transport_Alloc
  imports Transport_Correct
begin

text \<open>
  Allocation in \<^verbatim>\<open>src/transport.c\<close>: after eviction, the header of the new frame is written and linked
  in on the working page. The committed view is untouched by every store of it.
\<close>

section \<open>Placing the new frame\<close>

definition place :: "nat \<Rightarrow> nat \<Rightarrow> nat \<Rightarrow> world \<Rightarrow> world" where
  "place state off data_size w =
     a0_transport_update_high_water_mark state off
       (a0_transport_update_tail state off
         (a0_transport_maybe_set_head state off
           (a0_transport_slot_init state off data_size w)))"

text \<open>The header of a frame, links aside.\<close>

definition hdr_at :: "mem \<Rightarrow> nat \<Rightarrow> nat \<Rightarrow> nat \<Rightarrow> bool" where
  "hdr_at m off seq s \<longleftrightarrow> ld64 m (fr_seq_at off) = seq \<and> ld64 m (fr_off_at off) = off \<and>
     ld64 m (fr_size_at off) = s"

lemma slot_init_touches:
  "touches ({p..<p + 40} \<union> {off..<off + 40}) w (a0_transport_slot_init p off s w)"
proof -
  let ?S = "{p..<p + 40} \<union> {off..<off + 40}"
  have "touches ?S w (wr_bytes off (replicate sizeof_frame_hdr 0) w)"
    by (rule touches_wr_bytes) (auto simp: sizeof_frame_hdr_def)
  then show ?thesis
    unfolding a0_transport_slot_init_def Let_def
    by (intro touches_wr' touches_if) auto
qed

lemma maybe_set_head_touches:
  "touches {p..<p + 40} w (a0_transport_maybe_set_head p off w)"
  unfolding a0_transport_maybe_set_head_def by (intro touches_if touches_wr touches_refl) auto

lemma update_tail_touches:
  assumes "tail = ld64 (mm w) (off_tail_at p)"
  shows "touches ({p..<p + 40} \<union> {off..<off + 40} \<union> (if tail = 0 then {} else {tail + 16..<tail + 24}))
     w (a0_transport_update_tail p off w)"
  unfolding a0_transport_update_tail_def Let_def assms
  by (intro touches_wr' touches_if touches_wr touches_refl) auto

lemma update_hwm_touches:
  "touches {p..<p + 40} w (a0_transport_update_high_water_mark p off w)"
  unfolding a0_transport_update_high_water_mark_def Let_def by (intro touches_if touches_wr touches_refl) auto

lemma slot_init_fields:
  assumes v: "page_at (mm w) p st" and p: "p + 40 \<le> 144" and off: "144 \<le> off" "off < 2 ^ 64" "s < 2 ^ 64"
    and seq: "s_high st + 1 < 2 ^ 64"
  defines "w1 \<equiv> a0_transport_slot_init p off s w"
  shows "page_at (mm w1) p (st\<lparr>s_low := (if s_low st = 0 then s_high st + 1 else s_low st), s_high := s_high st + 1\<rparr>)"
    and "hdr_at (mm w1) off (s_high st + 1) s"
proof -
  let ?b = "wr_bytes off (replicate sizeof_frame_hdr 0) w"
  have "touches {off..<off + 40} w ?b"
    by (rule touches_wr_bytes) (simp add: sizeof_frame_hdr_def)
  then have b: "ld64 (mm ?b) a = ld64 (mm w) a" if "a + 8 \<le> 144" for a
    using that off(1) by (intro only_ld [OF touches_only]) auto
  have pg: "ld64 (mm ?b) p = s_low st" "ld64 (mm ?b) (p + 8) = s_high st"
    "ld64 (mm ?b) (p + 16) = ld64 (mm w) (p + 16)" "ld64 (mm ?b) (p + 24) = ld64 (mm w) (p + 24)"
    "ld64 (mm ?b) (p + 32) = ld64 (mm w) (p + 32)"
    using v p by (simp_all add: b page_at_def)
  have far: "p + 40 \<le> off" using p off(1) by simp
  have add: "add64 (s_high st) 1 = s_high st + 1" using seq by simp
  show "hdr_at (mm w1) off (s_high st + 1) s"
    unfolding w1_def a0_transport_slot_init_def Let_def hdr_at_def
    using pg far off seq add by (cases "s_low st = 0") (simp_all add: mem_simps)
  show "page_at (mm w1) p (st\<lparr>s_low := (if s_low st = 0 then s_high st + 1 else s_low st), s_high := s_high st + 1\<rparr>)"
    unfolding w1_def a0_transport_slot_init_def Let_def
    using v pg far off seq add by (cases "s_low st = 0") (simp_all add: mem_simps page_at_def)
qed

lemma link_fields:
  assumes v: "page_at (mm w) p st" and h: "hdr_at (mm w) off seq s" and p: "p + 40 \<le> 144"
    and off: "144 \<le> off" "off < 2 ^ 64" and frs: "\<forall>f \<in> set (frames st). 144 \<le> fst f \<and> fst f < 2 ^ 64 \<and> apart f (off, s)"
  defines "w1 \<equiv> a0_transport_update_tail p off (a0_transport_maybe_set_head p off w)"
  shows "page_at (mm w1) p (st\<lparr>frames := frames st @ [(off, s)]\<rparr>)" and "hdr_at (mm w1) off seq s"
    and "frames st \<noteq> [] \<Longrightarrow> ld64 (mm w1) (fr_next_at (fst (last (frames st)))) = off \<and>
      ld64 (mm w1) (fr_prev_at off) = fst (last (frames st))"
    and "touches ({p..<p + 40} \<union> {off..<off + 40} \<union>
      (if frames st = [] then {} else {fst (last (frames st)) + 16..<fst (last (frames st)) + 24})) w w1"
proof -
  have far: "p + 40 \<le> off" using p off(1) by simp
  have pg: "ld64 (mm w) p = s_low st" "ld64 (mm w) (p + 8) = s_high st" "ld64 (mm w) (p + 32) = s_hwm st"
    and hd: "ld64 (mm w) off = seq" "ld64 (mm w) (off + 8) = off" "ld64 (mm w) (off + 32) = s"
    using v h by (simp_all add: page_at_def hdr_at_def)
  have all: "page_at (mm w1) p (st\<lparr>frames := frames st @ [(off, s)]\<rparr>) \<and> hdr_at (mm w1) off seq s \<and>
      (frames st \<noteq> [] \<longrightarrow> ld64 (mm w1) (fr_next_at (fst (last (frames st)))) = off \<and>
        ld64 (mm w1) (fr_prev_at off) = fst (last (frames st))) \<and>
      touches ({p..<p + 40} \<union> {off..<off + 40} \<union>
      (if frames st = [] then {} else {fst (last (frames st)) + 16..<fst (last (frames st)) + 24})) w w1" (is ?goal)
  proof (cases "frames st = []")
    case True
    then have ht: "ld64 (mm w) (p + 16) = 0" "ld64 (mm w) (p + 24) = 0" using v by (simp_all add: page_at_def)
    have w1: "w1 = wr 8 (p + 24) off (wr 8 (p + 16) off w)"
      unfolding w1_def a0_transport_update_tail_def a0_transport_maybe_set_head_def Let_def
      using ht hd far off by (simp add: mem_simps)
    show ?goal
      using True pg hd far off unfolding w1
      by (auto simp: page_at_def hdr_at_def mem_simps intro!: touches_wr' touches_wr)
  next
    case False
    let ?t = "fst (last (frames st))"
    have t: "144 \<le> ?t" "?t < 2 ^ 64" "?t + 40 \<le> off \<or> off + 40 \<le> ?t"
      using frs [rule_format, of "last (frames st)"] False by (auto simp: apart_def f_end_def)
    have hd': "144 \<le> fst (hd (frames st))" using frs False by (cases "frames st") auto
    have ht: "ld64 (mm w) (p + 16) = fst (hd (frames st))" "ld64 (mm w) (p + 24) = ?t"
      using v False by (simp_all add: page_at_def)
    have far2: "p + 40 \<le> ?t" using p t(1) by simp
    have w1: "w1 = wr 8 (p + 24) off (wr 8 (off + 24) ?t (wr 8 (?t + 16) off w))"
      unfolding w1_def a0_transport_update_tail_def a0_transport_maybe_set_head_def Let_def
      using ht hd far far2 off t hd' by (auto simp: mem_simps)
    show ?goal
      using t(3)
      by (elim disjE) (use False pg hd ht far far2 off t(1,2) in
        \<open>auto simp: w1 page_at_def hdr_at_def mem_simps intro!: touches_wr' touches_wr\<close>)
  qed
  then show "page_at (mm w1) p (st\<lparr>frames := frames st @ [(off, s)]\<rparr>)" "hdr_at (mm w1) off seq s"
    "frames st \<noteq> [] \<Longrightarrow> ld64 (mm w1) (fr_next_at (fst (last (frames st)))) = off \<and>
      ld64 (mm w1) (fr_prev_at off) = fst (last (frames st))"
    "touches ({p..<p + 40} \<union> {off..<off + 40} \<union>
      (if frames st = [] then {} else {fst (last (frames st)) + 16..<fst (last (frames st)) + 24})) w w1"
    by simp_all
qed

text \<open>The stores of a placement stay clear of every view of the frames already there.\<close>

definition place_set :: "nat \<Rightarrow> nat \<Rightarrow> frame list \<Rightarrow> nat set" where
  "place_set p off fs = {p..<p + 40} \<union> {off..<off + 40} \<union>
     (if fs = [] then {} else {fst (last fs) + 16..<fst (last fs) + 24})"

lemma foot_prefix: "foot fs \<subseteq> foot (fs @ gs)"
proof
  fix x assume "x \<in> foot fs"
  then obtain i where i: "i < length fs" "fst (fs ! i) \<le> x" "x < fst (fs ! i) + 40"
     "fst (fs ! i) + 16 \<le> x \<and> x < fst (fs ! i) + 24 \<longrightarrow> Suc i < length fs"
     "fst (fs ! i) + 24 \<le> x \<and> x < fst (fs ! i) + 32 \<longrightarrow> 0 < i"
    unfolding foot_def by blast
  have "(fs @ gs) ! i = fs ! i" using i(1) by (simp add: nth_append)
  moreover have "i < length (fs @ gs)" using i(1) by simp
  moreover have "Suc i < length fs \<Longrightarrow> Suc i < length (fs @ gs)" by simp
  ultimately show "x \<in> foot (fs @ gs)"
    unfolding foot_def using i(2-5) by (intro CollectI exI [of _ i]) (simp, auto)
qed

lemma place_set_foot:
  assumes ring: "ring A (fs @ [(off, s)])" and p: "p + 40 \<le> 144"
  shows "place_set p off fs \<inter> foot fs = {}"
proof (rule equals0I)
  fix x assume "x \<in> place_set p off fs \<inter> foot fs"
  then obtain i where i: "i < length fs" "fst (fs ! i) \<le> x" "x < fst (fs ! i) + 40"
      "fst (fs ! i) + 16 \<le> x \<and> x < fst (fs ! i) + 24 \<longrightarrow> Suc i < length fs" and x: "x \<in> place_set p off fs"
    by (auto simp: foot_def)
  have "placed A (fs ! i)" using ring_placed [OF ring] i(1) by simp
  then have "144 \<le> x" using i(2) by (simp add: placed_def)
  moreover have "x < off \<or> off + 40 \<le> x"
    using ring_apart_nth [OF ring, of i "length fs"] i(1-3)
    by (auto simp: nth_append apart_def f_end_def)
  ultimately have "fs \<noteq> []" "fst (last fs) + 16 \<le> x" "x < fst (last fs) + 24"
    using x p by (auto simp: place_set_def split: if_splits)
  then have last: "fst (fs ! (length fs - 1)) + 16 \<le> x" "x < fst (fs ! (length fs - 1)) + 24"
    by (simp_all add: last_conv_nth)
  then have "i \<noteq> length fs - 1" using i(1,4) by auto
  then have "apart (fs ! i) (fs ! (length fs - 1))"
    using ring_apart_nth [OF ring_butlast [OF ring], of i "length fs - 1"] i(1) by simp
  then show False using i(2,3) last by (auto simp: apart_def f_end_def)
qed

lemma frame_at_push:
  assumes "log_ok A st" "i < length (frames st)"
  shows "frame_at m (l_push off s st) i \<longleftrightarrow> frame_at m st i \<and>
     (Suc i = length (frames st) \<longrightarrow> ld64 m (fr_next_at (fst (last (frames st)))) = off \<and>
        ld64 m (fr_prev_at off) = fst (last (frames st)))"
proof -
  have "frames st \<noteq> []" using assms(2) by auto
  then have "s_low (l_push off s st) = s_low st" using log_seq [OF assms(1)] by (simp add: l_push_def)
  moreover have "last (frames st) = frames st ! i" if "Suc i = length (frames st)"
  proof -
    have "length (frames st) - 1 = i" using that by simp
    then show ?thesis by (simp add: last_conv_nth [OF \<open>frames st \<noteq> []\<close>])
  qed
  ultimately show ?thesis
    using assms(2) by (auto simp: frame_at_def Let_def nth_append l_push_def)
qed

lemma place_correct:
  assumes t: "tinv A w stC st" and ring: "ring A (frames st @ [(off, s)])" and seq: "s_high st + 1 < 2 ^ 64"
  defines "w' \<equiv> place (wpage w) off s w"
  shows "grew w w' (\<lambda>m. committed A m stC)" and "tinv A w' stC (l_push off s st)"
    and "touches (place_set (wpage w) off (frames st)) w w'"
proof -
  let ?p = "wpage w" and ?S = "place_set (wpage w) off (frames st)"
  note t' = tinvD [OF t]
  define w1 where "w1 = a0_transport_slot_init ?p off s w"
  define w2 where "w2 = a0_transport_update_tail ?p off (a0_transport_maybe_set_head ?p off w1)"
  have w': "w' = a0_transport_update_high_water_mark ?p off w2"
    by (simp add: w'_def place_def w2_def w1_def)
  let ?st1 = "st\<lparr>s_low := (if s_low st = 0 then s_high st + 1 else s_low st), s_high := s_high st + 1\<rparr>"
  have p: "?p + 40 \<le> 144" using t'(7) by auto
  have new: "placed A (off, s)" using ring_placed [OF ring] by simp
  then have off: "144 \<le> off" "off < 2 ^ 64" "s < 2 ^ 64" "f_end (off, s) < 2 ^ 64" "f_end (off, s) = off + 40 + s"
    using t'(5) by (simp_all add: placed_def f_end_def)
  have frs: "\<forall>f \<in> set (frames st). 144 \<le> fst f \<and> fst f < 2 ^ 64 \<and> apart f (off, s)"
  proof
    fix f assume f: "f \<in> set (frames st)"
    have "placed A f" by (rule log_frame [OF t'(3) f])
    moreover have "apart f (off, s)" using ring_apart [OF ring] f by (simp add: sorted_wrt_append)
    ultimately show "144 \<le> fst f \<and> fst f < 2 ^ 64 \<and> apart f (off, s)"
      using t'(5) f_end_gt [of f] by (simp add: placed_def)
  qed
  note f1 = slot_init_fields [OF t'(6) p off(1-3) seq, folded w1_def]
  have frs1: "\<forall>f \<in> set (frames ?st1). 144 \<le> fst f \<and> fst f < 2 ^ 64 \<and> apart f (off, s)"
    using frs by simp
  note f2 = link_fields [OF f1 p off(1,2) frs1, folded w2_def]
  have st1: "frames ?st1 = frames st" by simp
  have links: "frames st \<noteq> [] \<Longrightarrow> ld64 (mm w2) (fr_next_at (fst (last (frames st)))) = off \<and>
      ld64 (mm w2) (fr_prev_at off) = fst (last (frames st))"
    using f2(3) by simp
  have link_touches: "touches (place_set ?p off (frames st)) w1 w2"
    using f2(4) unfolding place_set_def by (subst (asm) (1 2 3) st1)
  show touches: "touches ?S w w'"
  proof -
    have "touches ?S w w1"
      unfolding w1_def by (rule touches_mono [OF slot_init_touches]) (auto simp: place_set_def)
    moreover note link_touches
    moreover have "touches ?S w2 w'"
      unfolding w' by (rule touches_mono [OF update_hwm_touches]) (auto simp: place_set_def)
    ultimately show ?thesis using touches_trans by blast
  qed
  then have only: "only ?S (mm w) (mm w')" by (rule touches_only)
  have foot: "?S \<inter> foot (frames st) = {}" by (rule place_set_foot [OF ring p])
  obtain news where news: "frames st = frames stC @ news" using t by (auto simp: tinv_def)
  have "foot (frames stC) \<subseteq> foot (frames st)" unfolding news by (rule foot_prefix)
  with foot have footC: "?S \<inter> foot (frames stC) = {}" by blast
  have high: "?S \<subseteq> {?p..<?p + 40} \<union> {144..}"
  proof (cases "frames st = []")
    case False
    then have "144 \<le> fst (last (frames st))" using frs by simp
    then show ?thesis using off(1) by (auto simp: place_set_def)
  qed (use off(1) in \<open>auto simp: place_set_def\<close>)
  have S: "hdr_page_idx \<notin> ?S" "?S \<inter> {hdr_arena_size..<hdr_arena_size + 8} = {}"
    "?S \<inter> {cpage w..<cpage w + 40} = {}"
    using high t'(8) by (auto simp: layout subset_iff)
  note keep = committed_only [OF t'(1) _ S footC]
  show "grew w w' (\<lambda>m. committed A m stC)" using keep(1) by (rule touches_grew [OF touches])
  have c': "committed A (mm w') stC" "wpage w' = ?p" using keep(1,3) [OF only] by simp_all
  have end': "a0_transport_frame_end (mm w2) off = off + 40 + s"
    using frame_end_eq [OF new t'(5), of "mm w2"] f2(2) by (simp add: hdr_at_def f_end_def)
  have off2: "ld64 (mm w2) (off + 8) = off" using f2(2) by (simp add: hdr_at_def)
  have page: "page_at (mm w') ?p (l_push off s st)"
    using f2(1) p off unfolding w' a0_transport_update_high_water_mark_def Let_def off2 end'
    by (auto simp: page_at_def l_push_def mem_simps max_def)
  have only2: "only {?p..<?p + 40} (mm w2) (mm w')"
    unfolding w' by (rule touches_only [OF update_hwm_touches])
  have same2: "ld64 (mm w') a = ld64 (mm w2) a" if "144 \<le> a" for a
    using that p by (intro only_ld [OF only2]) auto
  have "frame_at (mm w') (l_push off s st) i" if i: "i < length (frames st) + 1" for i
  proof (cases "i < length (frames st)")
    case True
    then have ne: "frames st \<noteq> []" by auto
    have "frame_at (mm w') st i"
      using t'(2) True frame_at_only [OF only foot True] by (simp add: view_def)
    moreover have "144 \<le> fst (last (frames st))" using frs ne by simp
    ultimately show ?thesis
      using frame_at_push [OF t'(3) True] links ne off(1) same2 by simp
  next
    case False
    then have "i = length (frames st)" using i by simp
    moreover have "s_low (l_push off s st) + length (frames st) = s_high st + 1"
      using t'(3) by (auto simp: l_push_def log_ok_def)
    ultimately show ?thesis
      using f2(2) off(1) same2 by (simp add: frame_at_def hdr_at_def l_push_def Let_def)
  qed
  then have "view (mm w') ?p (l_push off s st)"
    using page by (simp add: view_def) (simp add: l_push_def)
  moreover have "requeue_ok w'" by (rule requeue_ok_kernel [OF touches_kernel [OF touches] t'(4)])
  moreover have "\<exists>news. frames (l_push off s st) = frames stC @ news" "s_hwm stC \<le> s_hwm (l_push off s st)"
    using news t by (auto simp: l_push_def tinv_def)
  ultimately show "tinv A w' stC (l_push off s st)"
    using c' l_push_ok(1) [OF t'(3) ring] t'(5) by (simp add: tinv_def)
qed

section \<open>Allocation\<close>

text \<open>The abstract allocation: how many frames go, and the log that results.\<close>

definition l_alloc :: "nat \<Rightarrow> nat \<Rightarrow> tlog \<Rightarrow> (nat \<times> nat \<times> tlog) option" where
  "l_alloc A s st =
     (case find_slot A (40 + s) (frames st) of
        None \<Rightarrow> None
      | Some off \<Rightarrow>
          let k = evicted off (40 + s) (frames st)
          in Some (off, k, l_push off s (l_evict k st)))"

lemma alloc_place: "a0_transport_alloc t data_size w =
     (if arena_mode t = A0_ARENA_MODE_READONLY then Some (Inl (A0_MAKE_SYSERR EPERM), w)
      else case a0_transport_find_slot (add64 40 data_size) w of
             Inl e \<Rightarrow> Some (Inl e, w)
           | Inr off \<Rightarrow> map_option (\<lambda>w. (Inr off, place (wpage w) off data_size w))
                 (a0_transport_evict off (add64 40 data_size) w))"
  unfolding a0_transport_alloc_def place_def Let_def sizeof_frame_hdr_def by (rule refl)

text \<open>The data of a frame, and of the frames of a log.\<close>

definition payload :: "mem \<Rightarrow> frame \<Rightarrow> u8 list" where
  "payload m f = map m [fst f + 40..<f_end f]"

definition contents :: "mem \<Rightarrow> tlog \<Rightarrow> u8 list list" where
  "contents m st = map (payload m) (frames st)"

lemma payload_only: "only S m m' \<Longrightarrow> S \<inter> {fst f + 40..<f_end f} = {} \<Longrightarrow> payload m' f = payload m f"
  by (auto simp: payload_def only_def)

lemma contents_low:
  assumes "only {..<144} m m'" "log_ok A st"
  shows "contents m' st = contents m st"
  unfolding contents_def
proof (rule map_cong [OF refl])
  fix f assume "f \<in> set (frames st)"
  then have "144 \<le> fst f" using log_frame [OF assms(2)] by (auto simp: placed_def)
  then show "payload m' f = payload m f" by (intro payload_only [OF assms(1)]) auto
qed

lemma contents_place:
  assumes o: "only (place_set p off (frames st)) m m'" and p: "p + 40 \<le> 144"
    and ring: "ring A (frames st @ [(off, s)])"
  shows "contents m' st = contents m st"
  unfolding contents_def
proof (rule map_cong [OF refl])
  fix f assume f: "f \<in> set (frames st)"
  then have "placed A f" using ring_placed [OF ring] by simp
  then have 1: "{p..<p + 40} \<inter> {fst f + 40..<f_end f} = {}" using p by (auto simp: placed_def)
  have "apart f (off, s)" using ring_apart [OF ring] f by (simp add: sorted_wrt_append)
  then have 2: "{off..<off + 40} \<inter> {fst f + 40..<f_end f} = {}" by (auto simp: apart_def f_end_def)
  have 3: "{fst (last (frames st)) + 16..<fst (last (frames st)) + 24} \<inter> {fst f + 40..<f_end f} = {}"
  proof -
    obtain fs l where fs: "frames st = fs @ [l]" using f by (cases "frames st" rule: rev_cases) auto
    then have "f = l \<or> apart f l"
      using f ring_apart [OF ring_butlast [OF ring]] by (auto simp: sorted_wrt_append)
    then show ?thesis using fs by (auto simp: apart_def f_end_def)
  qed
  show "payload m' f = payload m f"
    using 1 2 3 by (intro payload_only [OF o]) (auto simp: place_set_def)
qed

text \<open>\<open>leaves A w m L\<close>: the memory \<open>m\<close> shows the log \<open>L\<close>, with the data that \<open>w\<close> had.\<close>

definition leaves :: "nat \<Rightarrow> world \<Rightarrow> mem \<Rightarrow> tlog \<Rightarrow> bool" where
  "leaves A w m L \<longleftrightarrow> committed A m L \<and> contents m L = contents (mm w) L"

lemma grew_conj: "grew w w' P \<Longrightarrow> grew w w' Q \<Longrightarrow> grew w w' (\<lambda>m. P m \<and> Q m)"
  unfolding grew_def by auto

lemma prefix_contents: "frames st = frames stC @ news \<Longrightarrow> contents m' st = contents m st \<Longrightarrow>
    contents m' stC = contents m stC"
  by (simp add: contents_def)

lemma drop_contents: "contents m (l_evict k st) = drop k (contents m st)"
  by (simp add: contents_def drop_map)

lemma alloc_correct:
  assumes t: "tinv A w stC st" and mode: "arena_mode c \<noteq> A0_ARENA_MODE_READONLY"
    and size: "s + A + 128 < 2 ^ 64" and seq: "s_high st + 1 < 2 ^ 64"
  shows "case l_alloc A s st of
       None \<Rightarrow> a0_transport_alloc c s w = Some (Inl A0_ERR_FRAME_LARGE, w)
     | Some (off, k, st') \<Rightarrow> \<exists>w'. a0_transport_alloc c s w = Some (Inr off, w') \<and>
         tinv A w' (if k = 0 then stC else l_evict k st) st' \<and>
         grew w w' (\<lambda>m. leaves A w m stC \<or> (\<exists>j\<in>{1..k}. leaves A w m (l_evict j st))) \<and>
         touches ({..<144} \<union> place_set 48 off (drop k (frames st))) w w' \<and>
         contents (mm w') (l_evict k st) = contents (mm w) (l_evict k st)"
proof -
  have n: "add64 40 s = 40 + s" using size by simp
  have slot: "a0_transport_find_slot (40 + s) w =
    (case find_slot A (40 + s) (frames st) of None \<Rightarrow> Inl A0_ERR_FRAME_LARGE | Some off \<Rightarrow> Inr off)"
    using size by (intro find_slot_eq [OF t]) simp
  show ?thesis
  proof (cases "find_slot A (40 + s) (frames st)")
    case None
    then show ?thesis using mode slot n by (simp add: l_alloc_def alloc_place)
  next
    case (Some off)
    let ?k = "evicted off (40 + s) (frames st)" and ?S = "{..<144} :: nat set"
    let ?stC = "if ?k = 0 then stC else l_evict ?k st"
    let ?P = "\<lambda>m. leaves A w m stC \<or> (\<exists>j\<in>{1..?k}. leaves A w m (l_evict j st))"
    have fits: "off + (40 + s) \<le> A" using Some by (auto simp: find_slot_def split: if_splits)
    obtain w1 where w1: "a0_transport_evict off (40 + s) w = Some w1"
        "grew w w1 (\<lambda>m. committed A m stC \<or> (\<exists>j\<in>{1..?k}. committed A m (l_evict j st)))"
        "tinv A w1 ?stC (l_evict ?k st)" "touches ?S w w1"
      using evict_correct [OF t fits seq refl] by blast
    have ok: "log_ok A st" by (rule tinvD(3) [OF t])
    have okj: "log_ok A (l_evict j st)" if "j \<le> ?k" for j
      using l_evict_ok [OF ok] evicted_le le_trans that by blast
    obtain news where news: "frames st = frames stC @ news" using t by (auto simp: tinv_def)
    have low: "contents m st = contents (mm w) st" if "only ?S (mm w) m" for m
      by (rule contents_low [OF that ok])
    have "grew w w1 (only ?S (mm w))" using w1(4) by (simp add: touches_def)
    from grew_conj [OF w1(2) this] have g1: "grew w w1 ?P"
    proof (rule grew_mono)
      fix m assume m: "(committed A m stC \<or> (\<exists>j\<in>{1..?k}. committed A m (l_evict j st))) \<and> only ?S (mm w) m"
      then have c: "contents m st = contents (mm w) st" using low by blast
      show "?P m"
      proof (cases "committed A m stC")
        case True
        then show ?thesis using prefix_contents [OF news c] by (simp add: leaves_def)
      next
        case False
        then obtain j where "j \<in> {1..?k}" "committed A m (l_evict j st)" using m by blast
        then show ?thesis using c by (intro disjI2 bexI [of _ j]) (simp_all add: leaves_def drop_contents)
      qed
    qed
    have "ring A (frames st)" using ok by (simp add: log_ok_def)
    then have ring: "ring A (frames (l_evict ?k st) @ [(off, s)])"
      using ring_evict [OF _ Some] by simp
    have seq1: "s_high (l_evict ?k st) + 1 < 2 ^ 64" using seq by simp
    note pl = place_correct [OF w1(3) ring seq1]
    let ?w = "place (wpage w1) off s w1"
    let ?T = "place_set (wpage w1) off (frames (l_evict ?k st))"
    have p: "wpage w1 + 40 \<le> 144" using tinvD(7) [OF w1(3)] by auto
    have same: "contents m (l_evict ?k st) = contents (mm w) (l_evict ?k st)" if "only ?T (mm w1) m" for m
      using contents_place [OF that p ring] low [OF touches_only [OF w1(4)]] by (simp add: drop_contents)
    have "grew w1 ?w (only ?T (mm w1))" using pl(3) by (simp add: touches_def)
    from grew_conj [OF pl(1) this] have g2: "grew w1 ?w ?P"
    proof (rule grew_mono)
      fix m assume m: "committed A m ?stC \<and> only ?T (mm w1) m"
      have c: "contents m (l_evict ?k st) = contents (mm w) (l_evict ?k st)" by (rule same [OF conjunct2 [OF m]])
      show "?P m"
      proof (cases "?k = 0")
        case True
        have "contents m st = contents (mm w) st" using c unfolding True l_evict.simps .
        then have "contents m stC = contents (mm w) stC" by (rule prefix_contents [OF news])
        moreover have "committed A m stC" using m unfolding True by simp
        ultimately show ?thesis by (simp add: leaves_def)
      next
        case False
        then have "leaves A w m (l_evict ?k st)" using m c by (simp add: leaves_def)
        moreover have "?k \<in> {1..?k}" using False by simp
        ultimately show ?thesis by blast
      qed
    qed
    have "?T \<subseteq> {..<144} \<union> place_set 48 off (drop ?k (frames st))"
      using p by (auto simp: place_set_def)
    then have "touches ({..<144} \<union> place_set 48 off (drop ?k (frames st))) w1 ?w"
      by (rule touches_mono [OF pl(3)])
    moreover have "touches ({..<144} \<union> place_set 48 off (drop ?k (frames st))) w w1"
      by (rule touches_mono [OF w1(4)]) simp
    ultimately have "touches ({..<144} \<union> place_set 48 off (drop ?k (frames st))) w ?w"
      by (rule touches_trans [rotated])
    then show ?thesis
      using mode slot n w1(1) Some pl(2) grew_trans [OF g1 g2] same [OF touches_only [OF pl(3)]]
      by (simp add: l_alloc_def alloc_place Let_def)
  qed
qed

end
