(* ===== verification/Mtx_Correct.thy ===== *)
theory Mtx_Correct
  imports Mtx
begin

text \<open>
  Correctness of \<^verbatim>\<open>src/robust.c\<close> and \<^verbatim>\<open>src/mtx.c\<close>: the robust list stays a well-formed doubly linked
  list of the mutexes the thread holds, and at every store of locking and unlocking a mutex whose
  futex names the thread is in reach of the kernel's clean-up: on the list, or announced as
  pending.
\<close>

section \<open>The robust list\<close>

fun fchain :: "mem \<Rightarrow> nat \<Rightarrow> nat \<Rightarrow> nat list \<Rightarrow> bool" where
  "fchain m rb c [] \<longleftrightarrow> ld64 m c = rb"
| "fchain m rb c (x # xs) \<longleftrightarrow> ld64 m c = x \<and> fchain m rb x xs"

fun bchain :: "mem \<Rightarrow> nat \<Rightarrow> nat list \<Rightarrow> bool" where
  "bchain m c [] \<longleftrightarrow> True"
| "bchain m c (x # xs) \<longleftrightarrow> ld64 m (x + 8) = c \<and> bchain m x xs"

definition apart24 :: "nat \<Rightarrow> nat \<Rightarrow> bool" where
  "apart24 x y \<longleftrightarrow> x + 24 \<le> y \<or> y + 24 \<le> x"

definition robust_ok :: "mem \<Rightarrow> nat \<Rightarrow> nat list \<Rightarrow> bool" where
  "robust_ok m rb ms \<longleftrightarrow> fchain m rb rb ms \<and> bchain m rb ms \<and> sorted_wrt apart24 (rb # ms) \<and>
     (\<forall>x \<in> set (rb # ms). x + 24 < 2 ^ 64)"

lemma fchain_cong: "(\<And>x. x \<in> set (c # ms) \<Longrightarrow> ld64 m' x = ld64 m x) \<Longrightarrow> fchain m' rb c ms = fchain m rb c ms"
  by (induction ms arbitrary: c) auto

lemma bchain_cong: "(\<And>x. x \<in> set ms \<Longrightarrow> ld64 m' (x + 8) = ld64 m (x + 8)) \<Longrightarrow> bchain m' c ms = bchain m c ms"
  by (induction ms arbitrary: c) auto

lemma apart24_sym: "apart24 x y \<Longrightarrow> apart24 y x"
  by (auto simp: apart24_def)

lemma robust_op_add:
  assumes ok: "robust_ok (mm w) (rb_head w) ms" and x: "\<forall>y \<in> set (rb_head w # ms). apart24 x y" "x + 24 < 2 ^ 64"
  shows "robust_ok (mm (a0_robust_op_add x w)) (rb_head w) (x # ms)"
proof -
  let ?rb = "rb_head w" and ?m = "mm w"
  have xr: "x + 24 \<le> ?rb \<or> ?rb + 24 \<le> x" using x by (simp add: apart24_def)
  have f: "fchain ?m ?rb ?rb ms" and b: "bchain ?m ?rb ms" and s: "sorted_wrt apart24 (?rb # ms)"
    and lt: "\<forall>y \<in> set (?rb # ms). y + 24 < 2 ^ 64" using ok by (simp_all add: robust_ok_def)
  have rb64: "?rb < 2 ^ 64" "x < 2 ^ 64" using lt x(2) by simp_all
  have new: "sorted_wrt apart24 (?rb # x # ms)"
    using s x(1) apart24_sym by auto
  show ?thesis
  proof (cases ms)
    case Nil
    then have "ld64 ?m ?rb = ?rb" using f by simp
    then show ?thesis
      using Nil new xr rb64 lt x(2)
      by (elim disjE) (simp_all add: robust_ok_def a0_robust_op_add_def robust_is_head_def Let_def mem_simps)
  next
    case (Cons y ys)
    have first: "ld64 ?m ?rb = y" using f Cons by simp
    have y: "apart24 ?rb y" "apart24 x y" "y \<noteq> ?rb" "y < 2 ^ 64"
      using s x(1) lt Cons by (auto simp: apart24_def)
    let ?m' = "mm (a0_robust_op_add x w)"
    have m': "?m' = stb 8 (stb 8 (stb 8 (stb 8 ?m (x + 8) ?rb) x y) ?rb x) (y + 8) x"
      using y(3) first by (simp add: a0_robust_op_add_def robust_is_head_def Let_def)
    have head: "ld64 ?m' ?rb = x" "ld64 ?m' x = y" "ld64 ?m' (x + 8) = ?rb" "ld64 ?m' (y + 8) = x"
      unfolding m' using xr y rb64 unfolding apart24_def by (auto simp: mem_simps)
    have others: "ld64 ?m' z = ld64 ?m z" "z \<in> set ys \<Longrightarrow> ld64 ?m' (z + 8) = ld64 ?m (z + 8)"
      if z: "z \<in> set (y # ys)" for z
    proof -
      have a: "apart24 x z" "apart24 ?rb z" "z = y \<or> apart24 y z" using z x(1) s Cons by auto
      then show "ld64 ?m' z = ld64 ?m z"
        unfolding m' apart24_def by (auto simp: mem_simps)
      assume "z \<in> set ys"
      then have "apart24 y z" using s Cons by auto
      with a(1,2) show "ld64 ?m' (z + 8) = ld64 ?m (z + 8)"
        unfolding m' apart24_def by (auto simp: mem_simps)
    qed
    have "fchain ?m' ?rb y ys"
      using f Cons others(1) fchain_cong [of y ys ?m' ?m] by simp
    moreover have "bchain ?m' y ys"
      using b Cons others(2) bchain_cong [of ys ?m' ?m] by simp
    ultimately show ?thesis
      using Cons head new lt x(2) by (simp add: robust_ok_def)
  qed
qed

lemma chain_del:
  assumes "fchain (mm w) rb c (as @ x # bs)" "bchain (mm w) c (as @ x # bs)"
    and "sorted_wrt apart24 (c # as @ x # bs)" "\<forall>y \<in> set (c # as @ x # bs). y + 24 < 2 ^ 64"
    and "\<forall>y \<in> set (as @ x # bs). apart24 rb y" "c = rb \<or> apart24 rb c" "rb = rb_head w" "rb + 24 < 2 ^ 64"
  shows "fchain (mm (a0_robust_op_del x w)) rb c (as @ bs) \<and> bchain (mm (a0_robust_op_del x w)) c (as @ bs)"
  using assms
proof (induction as arbitrary: c)
  case Nil
  let ?m' = "mm (a0_robust_op_del x w)"
  have ld: "ld64 (mm w) (x + 8) = c" using Nil.prems(2) by simp
  show ?case
  proof (cases bs)
    case empty: Nil
    then have "ld64 (mm w) x = rb" using Nil.prems(1) by simp
    then have "?m' = stb 8 (mm w) c rb"
      using ld Nil.prems(7) by (simp add: a0_robust_op_del_def robust_is_head_def Let_def)
    then show ?thesis using empty Nil.prems(8) by (simp add: mem_simps)
  next
    case (Cons y ys)
    have y: "apart24 rb y" "y \<noteq> rb" "apart24 c y" "y < 2 ^ 64" "c < 2 ^ 64"
      using Nil.prems(3-5) Cons by (auto simp: apart24_def)
    have "ld64 (mm w) x = y" using Nil.prems(1) Cons by simp
    then have m': "?m' = stb 8 (stb 8 (mm w) c y) (y + 8) c"
      using ld y(2) Nil.prems(7) by (simp add: a0_robust_op_del_def robust_is_head_def Let_def)
    have head: "ld64 ?m' c = y" "ld64 ?m' (y + 8) = c"
      unfolding m' using y unfolding apart24_def by (auto simp: mem_simps)
    have others: "ld64 ?m' z = ld64 (mm w) z" "z \<in> set ys \<Longrightarrow> ld64 ?m' (z + 8) = ld64 (mm w) (z + 8)"
      if z: "z \<in> set (y # ys)" for z
    proof -
      have a: "apart24 c z" "z = y \<or> apart24 y z" using z Nil.prems(3) Cons by auto
      then show "ld64 ?m' z = ld64 (mm w) z"
        unfolding m' apart24_def by (auto simp: mem_simps)
      assume "z \<in> set ys"
      then have "apart24 y z" using Nil.prems(3) Cons by auto
      with a(1) show "ld64 ?m' (z + 8) = ld64 (mm w) (z + 8)"
        unfolding m' apart24_def by (auto simp: mem_simps)
    qed
    have "fchain ?m' rb y ys"
      using Nil.prems(1) Cons others(1) fchain_cong [of y ys ?m' "mm w"] by simp
    moreover have "bchain ?m' y ys"
      using Nil.prems(2) Cons others(2) bchain_cong [of ys ?m' "mm w"] by simp
    ultimately show ?thesis using Cons head by simp
  qed
next
  case (Cons a as)
  let ?m' = "mm (a0_robust_op_del x w)"
  have IH: "fchain ?m' rb a (as @ bs) \<and> bchain ?m' a (as @ bs)"
    using Cons.prems by (intro Cons.IH) auto
  let ?prev = "ld64 (mm w) (x + 8)" and ?next = "ld64 (mm w) x"
  have prev: "?prev \<in> set (a # as)"
  proof -
    have "bchain (mm w) a (as @ x # bs) \<Longrightarrow> ld64 (mm w) (x + 8) = last (a # as)"
      by (induction as arbitrary: a) auto
    then show ?thesis using Cons.prems(2) last_in_set [of "a # as"] by simp
  qed
  have nxt: "?next = rb \<or> ?next \<in> set bs"
  proof -
    have "fchain (mm w) rb a (as @ x # bs) \<Longrightarrow> fchain (mm w) rb x bs"
      by (induction as arbitrary: a) auto
    then show ?thesis using Cons.prems(1) by (cases bs) auto
  qed
  have apart: "apart24 c ?prev" "?next \<noteq> rb \<Longrightarrow> apart24 c ?next" "?next \<noteq> rb \<Longrightarrow> apart24 a ?next"
    "?prev = a \<or> apart24 a ?prev"
    using Cons.prems(3) prev nxt by auto
  have "ld64 ?m' c = ld64 (mm w) c" "ld64 ?m' (a + 8) = ld64 (mm w) (a + 8)"
    using apart unfolding apart24_def a0_robust_op_del_def robust_is_head_def Let_def
    by (auto simp: mem_simps Cons.prems(7) [symmetric])
  then show ?case using IH Cons.prems(1,2) by simp
qed

lemma robust_op_del:
  assumes "robust_ok (mm w) (rb_head w) (as @ x # bs)"
  shows "robust_ok (mm (a0_robust_op_del x w)) (rb_head w) (as @ bs)"
  using assms chain_del [of w "rb_head w" "rb_head w" as x bs]
  by (auto simp: robust_ok_def sorted_wrt_append)

section \<open>Locking and unlocking\<close>

text \<open>The clean-up condition on the memory a dying thread leaves: what its robust list covers.\<close>

definition covered :: "nat \<Rightarrow> nat \<Rightarrow> mem \<Rightarrow> bool" where
  "covered rb x m \<longleftrightarrow> ld64 m (rb + 16) = x \<or> (\<exists>ms. fchain m rb rb ms \<and> x \<in> set ms)"

text \<open>The thread's side of the world is set up: the list head is registered and holds \<open>ms\<close>.\<close>

definition thread_ok :: "world \<Rightarrow> nat list \<Rightarrow> bool" where
  "thread_ok w ms \<longleftrightarrow> robust_ok (mm w) (rb_head w) ms \<and> rb_init w \<and>
     gettid w \<noteq> 0 \<and> gettid w AND FUTEX_TID_MASK = gettid w \<and> null w < 2 ^ 64"

definition mtx_apart :: "nat \<Rightarrow> world \<Rightarrow> nat list \<Rightarrow> bool" where
  "mtx_apart x w ms \<longleftrightarrow> (\<forall>y \<in> set (rb_head w # ms). apart24 x y) \<and> x + 24 < 2 ^ 64"

lemma ld32_stb [simp]: "ld32 (stb 4 m a (unat v)) a = v"
proof -
  have "unat v < 256 ^ 4" using unsigned_less [of v, where ?'a = nat] by simp
  then show ?thesis by (simp add: ld32_def ld_stb_same)
qed

lemma ld32_stb_other: "a + n \<le> b \<or> b + 4 \<le> a \<Longrightarrow> ld32 (stb n m a v) b = ld32 m b"
  by (simp add: ld32_def ld_stb_other)

lemma robust_ok_cong:
  assumes "\<And>y. y \<in> set (rb # ms) \<Longrightarrow> ld64 m' y = ld64 m y" "\<And>y. y \<in> set ms \<Longrightarrow> ld64 m' (y + 8) = ld64 m (y + 8)"
  shows "robust_ok m' rb ms = robust_ok m rb ms"
  using fchain_cong [of rb ms m' m] bchain_cong [of ms m' m rb] assms by (simp add: robust_ok_def)

text \<open>The store of the pending entry leaves the list alone.\<close>

lemma pending_robust:
  assumes "robust_ok m rb ms"
  shows "robust_ok (stb 8 m (rb + 16) v) rb ms"
proof -
  have "\<forall>y \<in> set ms. apart24 rb y" using assms by (simp add: robust_ok_def)
  then show ?thesis
    using assms by (subst robust_ok_cong [of rb ms _ m]) (auto simp: mem_simps apart24_def)
qed

lemma futex_robust:
  assumes "robust_ok m rb ms" "\<forall>y \<in> set (rb # ms). apart24 x y \<or> x = y \<and> y \<noteq> rb"
  shows "robust_ok (stb 4 m (x + 16) v) rb ms"
  using assms by (subst robust_ok_cong [of rb ms _ m]) (auto simp: mem_simps apart24_def)

lemma covered_pending: "x < 2 ^ 64 \<Longrightarrow> covered rb x (stb 8 m (rb + 16) x)"
  by (simp add: covered_def mem_simps)

lemma op_add_touches:
  assumes "robust_ok (mm w) (rb_head w) ms"
  shows "touches ({x..<x + 16} \<union> {rb_head w..<rb_head w + 8} \<union> (\<Union>y \<in> set ms. {y + 8..<y + 16})) w (a0_robust_op_add x w)"
proof (cases ms)
  case Nil
  then have "ld64 (mm w) (rb_head w) = rb_head w" using assms by (simp add: robust_ok_def)
  then show ?thesis
    unfolding a0_robust_op_add_def Let_def robust_is_head_def
    by (simp del: wr_simps(1)) (intro touches_wr' touches_wr touches_refl; auto)
next
  case (Cons y ys)
  then have "ld64 (mm w) (rb_head w) = y" using assms by (simp add: robust_ok_def)
  then show ?thesis
    unfolding a0_robust_op_add_def Let_def robust_is_head_def
    by (intro touches_wr' touches_wr touches_refl touches_if) (auto simp: Cons)
qed

lemma add_set_apart:
  assumes "\<forall>y \<in> set ms. apart24 a y" "b = a \<or> apart24 a b" "c = a \<or> apart24 a c"
  shows "{a + 16..<a + 24} \<inter> ({b..<b + 16} \<union> {c..<c + 8} \<union> (\<Union>y \<in> set ms. {y + 8..<y + 16})) = {}"
proof -
  have "{a + 16..<a + 24} \<inter> {y + 8..<y + 16} = {}" if "y \<in> set ms" for y
    using assms(1) [rule_format, OF that] by (auto simp: apart24_def)
  then have "{a + 16..<a + 24} \<inter> (\<Union>y \<in> set ms. {y + 8..<y + 16}) = {}" by blast
  moreover have "{a + 16..<a + 24} \<inter> {b..<b + 16} = {}" using assms(2) by (auto simp: apart24_def)
  moreover have "{a + 16..<a + 24} \<inter> {c..<c + 8} = {}" using assms(3) by (auto simp: apart24_def)
  ultimately show ?thesis by blast
qed

text \<open>
  A mutex that is announced as pending goes onto the list, and then the announcement is taken back. At
  every store the list or the announcement covers it, and its futex stays as it is.
\<close>

lemma enlist:
  assumes ok: "robust_ok (mm w) (rb_head w) ms" and x: "mtx_apart x w ms" and pend: "ld64 (mm w) (rb_head w + 16) = x"
  shows "\<exists>w'. a0_robust_op_end x (a0_robust_op_add x w) = w' \<and> robust_ok (mm w') (rb_head w) (x # ms) \<and>
     ld32 (mm w') (x + 16) = ld32 (mm w) (x + 16) \<and>
     grew w w' (\<lambda>m. ld32 m (x + 16) = ld32 (mm w) (x + 16) \<and> covered (rb_head w) x m) \<and>
     touches ({x..<x + 16} \<union> {rb_head w..<rb_head w + 24} \<union> (\<Union>y \<in> set ms. {y + 8..<y + 16})) w w' \<and>
     gettid w' = gettid w \<and> rb_init w' = rb_init w \<and> null w' = null w"
proof -
  let ?rb = "rb_head w" and ?P = "\<lambda>m. ld32 m (x + 16) = ld32 (mm w) (x + 16) \<and> covered (rb_head w) x m"
  let ?T = "{x..<x + 16} \<union> {rb_head w..<rb_head w + 8} \<union> (\<Union>y \<in> set ms. {y + 8..<y + 16})"
  let ?S = "{x..<x + 16} \<union> {rb_head w..<rb_head w + 24} \<union> (\<Union>y \<in> set ms. {y + 8..<y + 16})"
  have ap: "\<forall>y \<in> set (?rb # ms). apart24 x y" "x + 24 < 2 ^ 64" using x by (simp_all add: mtx_apart_def)
  have rbms: "\<forall>y \<in> set ms. apart24 ?rb y" using ok by (simp add: robust_ok_def)
  define w3 where "w3 = a0_robust_op_add x w"
  define w4 where "w4 = wr 8 (?rb + 16) (null w) w3"
  have same: "null w3 = null w" "gettid w3 = gettid w" "rb_init w3 = rb_init w" "rb_head w3 = ?rb"
    by (simp_all add: w3_def a0_robust_op_add_def Let_def)
  have ok3: "robust_ok (mm w3) ?rb (x # ms)" using robust_op_add [OF ok ap] by (simp add: w3_def)
  have t3: "touches ?T w w3" using op_add_touches [OF ok] by (simp add: w3_def)
  have keep: "ld64 m (?rb + 16) = x" "ld32 m (x + 16) = ld32 (mm w) (x + 16)" if "only ?T (mm w) m" for m
  proof -
    have "{?rb + 16..<?rb + 24} \<inter> ?T = {}"
      using ap(1) apart24_sym by (intro add_set_apart rbms) auto
    then have "ld64 m (?rb + 16) = ld64 (mm w) (?rb + 16)"
      by (intro only_ld [OF that]) (simp add: add.commute)
    then show "ld64 m (?rb + 16) = x" using pend by simp
    have "{x + 16..<x + 24} \<inter> ?T = {}" using ap(1) by (intro add_set_apart) auto
    moreover have "{x + 16..<x + 16 + 4} \<subseteq> {x + 16..<x + 24}" by auto
    ultimately have "ld 4 m (x + 16) = ld 4 (mm w) (x + 16)"
      by (intro only_ld [OF that]) blast
    then show "ld32 m (x + 16) = ld32 (mm w) (x + 16)" by (simp add: ld32_def)
  qed
  note k3 = keep [OF touches_only [OF t3]]
  have "grew w w3 ?P" by (rule touches_grew [OF t3]) (unfold covered_def, blast intro: keep)
  also have "grew w3 w4 ?P" unfolding w4_def by (rule grew_wr) (unfold covered_def, blast intro: k3)
  finally have g: "grew w w4 ?P" .
  have "touches ?S w w3" by (rule touches_mono [OF t3]) auto
  moreover have "touches ?S w3 w4" unfolding w4_def by (rule touches_wr) auto
  ultimately have "touches ?S w w4" using touches_trans by blast
  moreover have "ld32 (mm w4) (x + 16) = ld32 (mm w) (x + 16)"
    using k3(2) ap unfolding w4_def by (auto simp: ld32_stb_other apart24_def)
  moreover have "robust_ok (mm w4) ?rb (x # ms)" using pending_robust [OF ok3] by (simp add: w4_def)
  moreover have "a0_robust_op_end x (a0_robust_op_add x w) = w4"
    using same by (simp add: a0_robust_op_end_def w4_def w3_def)
  ultimately show ?thesis using g same by (auto simp: w4_def)
qed

lemma mtx_lock_free:
  assumes t: "thread_ok w ms" and x: "mtx_apart x w ms" and free: "ld32 (mm w) (x + 16) = 0"
  shows "\<exists>w'. a0_mtx_lock x w = (A0_OK, w') \<and> thread_ok w' (x # ms) \<and>
     ld32 (mm w') (x + 16) = gettid w \<and>
     grew w w' (\<lambda>m. ld32 m (x + 16) = 0 \<or> ld32 m (x + 16) = gettid w \<and> covered (rb_head w) x m) \<and>
     touches ({x..<x + 24} \<union> {rb_head w..<rb_head w + 24} \<union> (\<Union>y \<in> set ms. {y + 8..<y + 16})) w w'"
proof -
  let ?rb = "rb_head w" and ?P = "\<lambda>m. ld32 m (x + 16) = 0 \<or> ld32 m (x + 16) = gettid w \<and> covered (rb_head w) x m"
  let ?S = "{x..<x + 24} \<union> {rb_head w..<rb_head w + 24} \<union> (\<Union>y \<in> set ms. {y + 8..<y + 16})"
  have ok: "robust_ok (mm w) ?rb ms" and init: "rb_init w"
    using t by (simp_all add: thread_ok_def)
  have ap: "\<forall>y \<in> set (?rb # ms). apart24 x y" "x + 24 < 2 ^ 64" using x by (simp_all add: mtx_apart_def)
  define w1 where "w1 = wr 8 (?rb + 16) x w"
  define w2 where "w2 = wr 4 (x + 16) (unat (gettid w)) w1"
  have fut1: "ld32 (mm w1) (x + 16) = 0"
    using free ap unfolding w1_def by (auto simp: ld32_stb_other apart24_def)
  have ok2: "robust_ok (mm w2) (rb_head w2) ms"
    using ap(1) futex_robust [OF pending_robust [OF ok], of x] by (simp add: w2_def w1_def)
  have same: "rb_head w2 = ?rb" "gettid w2 = gettid w" "null w2 = null w" "rb_init w2" "mtx_apart x w2 ms"
    using init x by (simp_all add: w2_def w1_def mtx_apart_def)
  have pend: "ld64 (mm w2) (rb_head w2 + 16) = x" "ld32 (mm w2) (x + 16) = gettid w"
    using ap unfolding w2_def w1_def by (auto simp: mem_simps apart24_def)
  obtain w4 where w4: "a0_robust_op_end x (a0_robust_op_add x w2) = w4" "robust_ok (mm w4) ?rb (x # ms)"
      "ld32 (mm w4) (x + 16) = gettid w" "grew w2 w4 (\<lambda>m. ld32 m (x + 16) = gettid w \<and> covered ?rb x m)"
      "touches ({x..<x + 16} \<union> {?rb..<?rb + 24} \<union> (\<Union>y \<in> set ms. {y + 8..<y + 16})) w2 w4"
      "gettid w4 = gettid w" "rb_init w4 = rb_init w2" "null w4 = null w"
    using enlist [OF ok2 same(5) pend(1)] unfolding pend(2) same(1-3) by blast
  have "a0_robust_op_start x w = w1"
    using init by (simp add: a0_robust_op_start_def a0_robust_init_thread_def w1_def Let_def)
  moreover have "a0_mtx_timedlock_robust x None w1 = (A0_OK, w2)"
    using fut1 by (simp add: a0_mtx_timedlock_robust_def a0_cas_val_def Let_def wr32_def w2_def)
      (simp add: w1_def)
  ultimately have run: "a0_mtx_lock x w = (A0_OK, w4)"
    using w4(1) by (simp add: a0_mtx_lock_def a0_mtx_timedlock_def Let_def a0_mtx_lock_successful_def)
  have "grew w w1 ?P" unfolding w1_def using free by (intro grew_wr) simp
  also have "grew w1 w2 ?P" unfolding w2_def using fut1 by (intro grew_wr) simp
  also have "grew w2 w4 ?P" using w4(4) by (rule grew_mono) simp
  finally have g: "grew w w4 ?P" .
  have "touches ?S w w1" unfolding w1_def by (rule touches_wr) auto
  moreover have "touches ?S w1 w2" unfolding w2_def by (rule touches_wr) auto
  moreover have "touches ?S w2 w4" by (rule touches_mono [OF w4(5)]) auto
  ultimately have "touches ?S w w4" using touches_trans by blast
  moreover have "thread_ok w4 (x # ms)"
    using t w4 same g by (simp add: thread_ok_def grew_def)
  ultimately show ?thesis using run w4(3) g by blast
qed

lemma op_del_touches:
  assumes "ld64 (mm w) x = nx" "ld64 (mm w) (x + 8) = pv"
  shows "touches ({pv..<pv + 8} \<union> (if nx = rb_head w then {} else {nx + 8..<nx + 16})) w (a0_robust_op_del x w)"
  unfolding a0_robust_op_del_def Let_def robust_is_head_def
  using assms by (intro touches_if touches_wr' touches_wr) auto

lemma chain_neighbours:
  assumes "fchain m rb c (as @ x # bs)" "bchain m c (as @ x # bs)"
  shows "ld64 m x = (if bs = [] then rb else hd bs) \<and> ld64 m (x + 8) = last (c # as)"
  using assms
proof (induction as arbitrary: c)
  case Nil
  then show ?case by (cases bs) auto
next
  case (Cons a as)
  then have "fchain m rb a (as @ x # bs)" "bchain m a (as @ x # bs)" by simp_all
  from Cons.IH [OF this] show ?case by simp
qed

lemma and_not_owner_died: "t AND FUTEX_TID_MASK = t \<Longrightarrow> t AND NOT FUTEX_OWNER_DIED = (t :: u32)"
proof -
  assume t: "t AND FUTEX_TID_MASK = t"
  have "FUTEX_TID_MASK AND NOT FUTEX_OWNER_DIED = FUTEX_TID_MASK"
    by (simp add: FUTEX_TID_MASK_def FUTEX_OWNER_DIED_def)
  then show ?thesis using t by (metis and.assoc)
qed

text \<open>Announced as pending, a mutex can come off the list.\<close>

lemma delist:
  assumes ok: "robust_ok (mm w) (rb_head w) (as @ x # bs)" and init: "rb_init w" and x: "mtx_apart x w (as @ bs)"
  shows "\<exists>w2. a0_robust_op_del x (a0_robust_op_start x w) = w2 \<and> robust_ok (mm w2) (rb_head w) (as @ bs) \<and>
     ld64 (mm w2) (rb_head w + 16) = x \<and> ld32 (mm w2) (x + 16) = ld32 (mm w) (x + 16) \<and>
     grew w w2 (\<lambda>m. ld32 m (x + 16) = ld32 (mm w) (x + 16) \<and> covered (rb_head w) x m) \<and>
     touches ({rb_head w..<rb_head w + 24} \<union> (\<Union>y \<in> set (as @ bs). {y..<y + 16})) w w2 \<and>
     gettid w2 = gettid w \<and> rb_init w2 = rb_init w \<and> null w2 = null w \<and> rb_head w2 = rb_head w"
proof -
  let ?rb = "rb_head w" and ?P = "\<lambda>m. ld32 m (x + 16) = ld32 (mm w) (x + 16) \<and> covered (rb_head w) x m"
  let ?S = "{rb_head w..<rb_head w + 24} \<union> (\<Union>y \<in> set (as @ bs). {y..<y + 16})"
  have ap: "\<forall>y \<in> set (?rb # as @ bs). apart24 x y" "x + 24 < 2 ^ 64" using x by (simp_all add: mtx_apart_def)
  have rbms: "\<forall>y \<in> set (as @ x # bs). apart24 ?rb y" using ok by (simp add: robust_ok_def)
  define w1 where "w1 = wr 8 (?rb + 16) x w"
  define w2 where "w2 = a0_robust_op_del x w1"
  have fut1: "ld32 (mm w1) (x + 16) = ld32 (mm w) (x + 16)"
    using ap unfolding w1_def by (auto simp: ld32_stb_other apart24_def)
  have pend1: "ld64 (mm w1) (?rb + 16) = x" using ap(2) by (simp add: w1_def mem_simps)
  have ok1: "robust_ok (mm w1) ?rb (as @ x # bs)" using pending_robust [OF ok] by (simp add: w1_def)
  have nb: "ld64 (mm w1) x = (if bs = [] then ?rb else hd bs)" "ld64 (mm w1) (x + 8) = last (?rb # as)"
    using chain_neighbours [of "mm w1" ?rb ?rb as x bs] ok1 by (simp_all add: robust_ok_def)
  let ?D = "{last (?rb # as)..<last (?rb # as) + 8} \<union> (if bs = [] then {} else {hd bs + 8..<hd bs + 16})"
  have "(if bs = [] then ?rb else hd bs) = ?rb \<longleftrightarrow> bs = []"
    using rbms by (cases bs) (auto simp: apart24_def)
  then have t2: "touches ?D w1 w2"
    using op_del_touches [OF nb] by (simp add: w2_def w1_def split: if_splits)
  have prev_in: "last (?rb # as) \<in> set (?rb # as)" by (rule last_in_set) simp
  have next_in: "bs \<noteq> [] \<Longrightarrow> hd bs \<in> set bs" by simp
  have keep2: "ld64 m (?rb + 16) = x" "ld32 m (x + 16) = ld32 (mm w) (x + 16)" if "only ?D (mm w1) m" for m
  proof -
    have "last (?rb # as) = ?rb \<or> apart24 ?rb (last (?rb # as))" using prev_in rbms by auto
    moreover have "bs \<noteq> [] \<Longrightarrow> apart24 ?rb (hd bs)" using next_in rbms by auto
    ultimately have "ld64 m (?rb + 16) = ld64 (mm w1) (?rb + 16)"
      by (intro only_ld [OF that]) (auto simp: apart24_def split: if_splits)
    then show "ld64 m (?rb + 16) = x" using pend1 by simp
    have "apart24 x (last (?rb # as))" using prev_in ap(1) by auto
    moreover have "bs \<noteq> [] \<Longrightarrow> apart24 x (hd bs)" using next_in ap(1) by auto
    ultimately have "ld 4 m (x + 16) = ld 4 (mm w1) (x + 16)"
      by (intro only_ld [OF that]) (auto simp: apart24_def split: if_splits)
    then show "ld32 m (x + 16) = ld32 (mm w) (x + 16)" using fut1 by (simp add: ld32_def)
  qed
  have same: "rb_head w2 = ?rb" "null w2 = null w" "gettid w2 = gettid w" "rb_init w2 = rb_init w"
    by (simp_all add: w2_def w1_def a0_robust_op_del_def Let_def)
  have ok2: "robust_ok (mm w2) ?rb (as @ bs)"
    using robust_op_del [of w1 as x bs] ok1 by (simp add: w2_def w1_def)
  have start: "a0_robust_op_start x w = w1"
    using init by (simp add: a0_robust_op_start_def a0_robust_init_thread_def w1_def Let_def)
  have "covered ?rb x (mm w)"
    using ok by (auto simp: covered_def robust_ok_def intro!: exI [of _ "as @ x # bs"])
  then have "grew w w1 ?P" unfolding w1_def by (intro grew_wr) simp
  also have "grew w1 w2 ?P" by (rule touches_grew [OF t2]) (unfold covered_def, blast intro: keep2)
  finally have g: "grew w w2 ?P" .
  have "touches ?S w w1" unfolding w1_def by (rule touches_wr) auto
  moreover have "?D \<subseteq> ?S" using prev_in next_in by (fastforce split: if_splits)
  then have "touches ?S w1 w2" by (rule touches_mono [OF t2])
  ultimately have "touches ?S w w2" using touches_trans by meson
  then show ?thesis
    using g ok2 same start keep2 [OF touches_only [OF t2]] by (simp add: w2_def)
qed

lemma mtx_unlock_free:
  assumes t: "thread_ok w (as @ x # bs)" and x: "mtx_apart x w (as @ bs)"
    and held: "ld32 (mm w) (x + 16) = gettid w"
  shows "\<exists>w'. a0_mtx_unlock x w = (A0_OK, w') \<and> thread_ok w' (as @ bs) \<and>
     ld32 (mm w') (x + 16) = 0 \<and>
     grew w w' (\<lambda>m. ld32 m (x + 16) = 0 \<or> ld32 m (x + 16) = gettid w \<and> covered (rb_head w) x m) \<and>
     touches ({x + 16..<x + 20} \<union> {rb_head w..<rb_head w + 24} \<union>
       (\<Union>y \<in> set (as @ bs). {y..<y + 16})) w w'"
proof -
  let ?rb = "rb_head w" and ?P = "\<lambda>m. ld32 m (x + 16) = 0 \<or> ld32 m (x + 16) = gettid w \<and> covered (rb_head w) x m"
  let ?S = "{x + 16..<x + 20} \<union> {rb_head w..<rb_head w + 24} \<union> (\<Union>y \<in> set (as @ bs). {y..<y + 16})"
  have ok: "robust_ok (mm w) ?rb (as @ x # bs)" and init: "rb_init w" and tid: "gettid w AND FUTEX_TID_MASK = gettid w"
    using t by (simp_all add: thread_ok_def)
  have ap: "\<forall>y \<in> set (?rb # as @ bs). apart24 x y" "x + 24 < 2 ^ 64" using x by (simp_all add: mtx_apart_def)
  obtain w2 where w2: "a0_robust_op_del x (a0_robust_op_start x w) = w2" "robust_ok (mm w2) ?rb (as @ bs)"
      "ld64 (mm w2) (?rb + 16) = x" "ld32 (mm w2) (x + 16) = gettid w"
      "grew w w2 (\<lambda>m. ld32 m (x + 16) = gettid w \<and> covered ?rb x m)"
      "touches ({?rb..<?rb + 24} \<union> (\<Union>y \<in> set (as @ bs). {y..<y + 16})) w w2"
    and same: "gettid w2 = gettid w" "rb_init w2 = rb_init w" "null w2 = null w" "rb_head w2 = ?rb"
    using delist [OF ok init x] unfolding held by blast
  define w3 where "w3 = wr 4 (x + 16) (unat (gettid w)) w2"
  define w4 where "w4 = wr 4 (x + 16) (unat (0 :: u32)) w3"
  define w5 where "w5 = wr 8 (?rb + 16) (null w) w4"
  have run: "a0_mtx_unlock x w = (A0_OK, w5)"
  proof -
    have "wr32 (x + 16) (ld32 (mm w2) (x + 16) AND NOT FUTEX_OWNER_DIED) w2 = w3"
      using w2(4) and_not_owner_died [OF tid] by (simp add: wr32_def w3_def)
    moreover have "a0_cas_val (x + 16) (gettid w3) 0 w3 = (gettid w, w4)"
      using same by (simp add: a0_cas_val_def Let_def wr32_def w4_def) (simp add: w3_def)
    moreover have "rb_head w4 = ?rb" "null w4 = null w" "gettid w3 = gettid w" "gettid w4 = gettid w"
      using same by (simp_all add: w4_def w3_def)
    ultimately show ?thesis
      using held tid by (simp add: a0_mtx_unlock_def Let_def a0_ftx_tid_def w2(1) a0_robust_op_end_def w5_def)
  qed
  have ok4: "robust_ok (mm w4) ?rb (as @ bs)"
    using ap(1) futex_robust [OF futex_robust [OF w2(2), of x], of x] by (simp add: w4_def w3_def)
  have ok5: "robust_ok (mm w5) ?rb (as @ bs)" using pending_robust [OF ok4] by (simp add: w5_def)
  have pend3: "ld64 (mm w3) (?rb + 16) = x" "ld32 (mm w3) (x + 16) = gettid w"
    using w2(3,4) ap unfolding w3_def by (auto simp: mem_simps apart24_def)
  have fut4: "ld32 (mm w4) (x + 16) = 0"
    using ld32_stb [of "mm w3" "x + 16" 0] by (simp add: w4_def)
  then have fut5: "ld32 (mm w5) (x + 16) = 0"
    using ap unfolding w5_def by (auto simp: ld32_stb_other apart24_def)
  have "grew w w2 ?P" using w2(5) by (rule grew_mono) simp
  also have "grew w2 w3 ?P" unfolding w3_def using w2(3,4) by (intro grew_wr) (simp add: covered_def)
  also have "grew w3 w4 ?P" unfolding w4_def using pend3 by (intro grew_wr) (simp add: covered_def)
  also have "grew w4 w5 ?P" unfolding w5_def using fut4 by (intro grew_wr) simp
  finally have g: "grew w w5 ?P" .
  have "touches ?S w w2" by (rule touches_mono [OF w2(6)]) auto
  moreover have "touches ?S w2 w3" unfolding w3_def by (rule touches_wr) auto
  moreover have "touches ?S w3 w4" unfolding w4_def by (rule touches_wr) auto
  moreover have "touches ?S w4 w5" unfolding w5_def by (rule touches_wr) auto
  ultimately have "touches ?S w w5" using touches_trans by meson
  moreover have "thread_ok w5 (as @ bs)"
    using t ok5 same by (simp add: thread_ok_def w5_def w4_def w3_def)
  ultimately show ?thesis using run fut5 g by blast
qed

lemma mtx_trylock_busy:
  assumes t: "thread_ok w ms" and x: "mtx_apart x w ms"
    and held: "ld32 (mm w) (x + 16) = v" "v \<noteq> 0" "\<not> a0_ftx_owner_died v"
  shows "\<exists>w'. a0_mtx_trylock x w = (A0_MAKE_SYSERR EBUSY, w') \<and> thread_ok w' ms \<and>
     only {rb_head w + 16..<rb_head w + 24} (mm w) (mm w')"
proof -
  let ?rb = "rb_head w"
  define w1 where "w1 = wr 8 (?rb + 16) x w"
  have init: "rb_init w" and ok: "robust_ok (mm w) ?rb ms" using t by (simp_all add: thread_ok_def)
  have "ld32 (mm w1) (x + 16) = v"
    using held x unfolding w1_def by (auto simp: ld32_stb_other apart24_def mtx_apart_def)
  then have "a0_mtx_trylock_impl x w1 = (A0_MAKE_SYSERR EBUSY, w1)"
    using held by (simp add: a0_mtx_trylock_impl_def a0_cas_val_def Let_def)
  moreover have "a0_robust_op_start x w = w1"
    using init by (simp add: a0_robust_op_start_def a0_robust_init_thread_def w1_def Let_def)
  ultimately have "a0_mtx_trylock x w = (A0_MAKE_SYSERR EBUSY, wr 8 (?rb + 16) (null w) w1)"
    by (simp add: a0_mtx_trylock_def Let_def a0_mtx_lock_successful_def a0_mtx_previous_owner_died_def
        a0_robust_op_end_def A0_MAKE_SYSERR_def) (simp add: w1_def)
  moreover have "thread_ok (wr 8 (?rb + 16) (null w) w1) ms"
    using t pending_robust [OF pending_robust [OF ok]] by (simp add: thread_ok_def w1_def)
  moreover have "only {?rb + 16..<?rb + 24} (mm w) (mm (wr 8 (?rb + 16) (null w) w1))"
  proof (rule only_trans)
    show "only {?rb + 16..<?rb + 24} (mm w) (mm w1)"
      unfolding w1_def wr_simps by (rule only_stb) auto
    show "only {?rb + 16..<?rb + 24} (mm w1) (mm (wr 8 (?rb + 16) (null w) w1))"
      unfolding wr_simps by (rule only_stb) auto
  qed
  ultimately show ?thesis by blast
qed

section \<open>Locking when the kernel is asked\<close>

lemma op_add_simps [simp]: "rb_head (a0_robust_op_add x w) = rb_head w"
  "rb_init (a0_robust_op_add x w) = rb_init w" "gettid (a0_robust_op_add x w) = gettid w"
  "null (a0_robust_op_add x w) = null w" "kernel (a0_robust_op_add x w) = kernel w"
  by (simp_all add: a0_robust_op_add_def Let_def)

text \<open>
  The mutex is held or its owner died: the call blocks in the kernel until it is granted. \<open>m1\<close> is
  the memory then, after whatever other processes did; the thread's own list is as it was.
\<close>

lemma mtx_lock_granted:
  assumes t: "thread_ok w ms" and x: "mtx_apart x w ms" and held: "ld32 (mm w) (x + 16) \<noteq> 0"
    and k: "kernel w (now w) (FUTEX_LOCK_PI (x + 16) None) (stb 8 (mm w) (rb_head w + 16) x) = (None, m1)"
    and m1: "robust_ok m1 (rb_head w) ms"
  shows "\<exists>e w'. a0_mtx_lock x w = (e, w') \<and> thread_ok w' (x # ms) \<and>
     e = (if a0_ftx_owner_died (ld32 m1 (x + 16)) then A0_MAKE_SYSERR EOWNERDEAD else A0_OK) \<and>
     kernel w' = kernel w \<and>
     only ({x..<x + 24} \<union> {rb_head w..<rb_head w + 24} \<union> (\<Union>y \<in> set ms. {y + 8..<y + 16})) m1 (mm w')"
proof -
  let ?rb = "rb_head w"
  let ?S = "{x..<x + 24} \<union> {?rb..<?rb + 24} \<union> (\<Union>y \<in> set ms. {y + 8..<y + 16})"
  have init: "rb_init w" using t by (simp add: thread_ok_def)
  define w1 where "w1 = wr 8 (?rb + 16) x w"
  define w2 where "w2 = w1\<lparr>mm := m1, past := mm w1 # past w1, now := Suc (now w1)\<rparr>"
  define w3 where "w3 = a0_robust_op_add x w2"
  define w4 where "w4 = wr 8 (?rb + 16) (null w) w3"
  let ?e = "if a0_ftx_owner_died (ld32 m1 (x + 16)) then A0_MAKE_SYSERR EOWNERDEAD else A0_OK"
  have start: "a0_robust_op_start x w = w1"
    using init by (simp add: a0_robust_op_start_def a0_robust_init_thread_def w1_def Let_def)
  have "ld32 (mm w1) (x + 16) \<noteq> 0"
    using held x unfolding w1_def by (auto simp: ld32_stb_other apart24_def mtx_apart_def)
  moreover have "a0_ftx_lock_pi (x + 16) None w1 = (A0_OK, w2)"
    using k by (simp add: a0_ftx_lock_pi_def a0_futex_def w1_def w2_def)
  ultimately have "a0_mtx_timedlock_robust x None w1 = (?e, w2)"
    by (simp add: a0_mtx_timedlock_robust_def a0_cas_val_def Let_def owner_check_def) (simp add: w2_def)
  moreover have "a0_mtx_lock_successful ?e"
    by (simp add: a0_mtx_lock_successful_def a0_mtx_previous_owner_died_def)
  moreover have "rb_head w2 = ?rb" "null w2 = null w"
    by (simp_all add: w2_def w1_def)
  ultimately have run: "a0_mtx_lock x w = (?e, w4)"
    using start by (simp add: a0_mtx_lock_def a0_mtx_timedlock_def Let_def w3_def [symmetric] a0_robust_op_end_def w4_def)
  have same: "rb_head w2 = ?rb" "mm w2 = m1" by (simp_all add: w2_def w1_def)
  have ok3: "robust_ok (mm w3) ?rb (x # ms)"
    using robust_op_add [of w2 ms x] m1 x same by (simp add: w3_def mtx_apart_def)
  have "thread_ok w4 (x # ms)"
    using t pending_robust [OF ok3] by (simp add: thread_ok_def w4_def) (simp add: w3_def w2_def w1_def)
  moreover have "only ?S m1 (mm w4)"
  proof (rule only_trans)
    have "touches ?S w2 w3"
      using op_add_touches [of w2 ms x] m1 same unfolding w3_def by (rule_tac touches_mono) auto
    then show "only ?S m1 (mm w3)" using touches_only same by metis
    show "only ?S (mm w3) (mm w4)" unfolding w4_def wr_simps by (rule only_stb) auto
  qed
  moreover have "kernel w4 = kernel w"
    by (simp add: w4_def w3_def w2_def w1_def)
  ultimately show ?thesis using run by blast
qed

section \<open>A concrete thread\<close>

text \<open>A thread with number 7 whose list head is at address 1000, on otherwise zero memory.\<close>

definition quiet_world :: world where
  "quiet_world = \<lparr>mm = stb 8 (\<lambda>_. 0) 1000 1000, past = [], now = 0, kernel = (\<lambda>_ _ m. (None, m)),
     clock_gettime = (\<lambda>_ _. Inr \<lparr>tv_sec = 0, tv_nsec = 0\<rparr>), gettid = 7, rb_head = 1000,
     rb_init = True, null = 0\<rparr>"

lemma ld_zero [simp]: "ld n (\<lambda>_. 0) a = 0"
proof -
  have "le_val (replicate n 0) = 0" by (induction n) auto
  then show ?thesis by (simp add: ld_def map_replicate_const)
qed

lemma quiet_world: "thread_ok quiet_world []" "requeue_ok quiet_world"
  by (simp_all add: thread_ok_def quiet_world_def robust_ok_def mem_simps FUTEX_TID_MASK_def requeue_ok_def)

lemma quiet_apart: "x + 24 \<le> 1000 \<Longrightarrow> mtx_apart x quiet_world []"
  by (simp add: mtx_apart_def apart24_def quiet_world_def)

lemma quiet_free: "x + 20 \<le> 1000 \<Longrightarrow> ld32 (mm quiet_world) (x + 16) = 0"
  by (simp add: quiet_world_def ld32_stb_other) (simp add: ld32_def)

lemma quiet_head [simp]: "rb_head quiet_world = 1000"
  by (simp add: quiet_world_def)

section \<open>Properties\<close>

text \<open>
  The robust list keeps its shape: adding a mutex puts it in front, deleting one from any place
  takes out exactly that one, and in both cases the forward and backward links of all others
  still agree.
\<close>

theorem robust_list_spec:
  assumes "robust_ok (mm w) (rb_head w) (as @ x # bs)" "mtx_apart y w (as @ x # bs)"
  shows "robust_ok (mm (a0_robust_op_del x w)) (rb_head w) (as @ bs) \<and>
     robust_ok (mm (a0_robust_op_add y w)) (rb_head w) (y # as @ x # bs)"
  using robust_op_del [OF assms(1)] robust_op_add [OF assms(1)] assms(2) by (simp add: mtx_apart_def)

theorem robust_list_spec_witness:
  "robust_ok (mm (a0_robust_op_del 40 (a0_robust_op_add 40 quiet_world))) 1000 []"
proof -
  have "robust_ok (mm quiet_world) (rb_head quiet_world) []"
    using quiet_world(1) by (simp add: thread_ok_def)
  then have "robust_ok (mm (a0_robust_op_add 40 quiet_world)) 1000 ([] @ 40 # [])"
    using robust_op_add [of quiet_world "[]" 40] by (simp add: apart24_def)
  then show ?thesis
    using robust_list_spec [of "a0_robust_op_add 40 quiet_world" "[]" 40 "[]" 100]
    by (simp add: mtx_apart_def apart24_def)
qed

text \<open>
  C40. Locking a free mutex and unlocking it: both calls succeed; in between the futex names the
  thread and the mutex is first on its robust list; afterwards the futex is free and the list is as
  before. At every store in between, a futex that names the thread is on the list or announced as
  pending, so the kernel frees it if the thread dies there.
\<close>

theorem mtx_lock_unlock_spec:
  assumes "thread_ok w ms" "mtx_apart x w ms" "ld32 (mm w) (x + 16) = 0"
  shows "\<exists>w1 w2. a0_mtx_lock x w = (A0_OK, w1) \<and> a0_mtx_unlock x w1 = (A0_OK, w2) \<and>
     ld32 (mm w1) (x + 16) = gettid w \<and> thread_ok w1 (x # ms) \<and>
     ld32 (mm w2) (x + 16) = 0 \<and> thread_ok w2 ms \<and>
     grew w w2 (\<lambda>m. ld32 m (x + 16) = 0 \<or> ld32 m (x + 16) = gettid w \<and> covered (rb_head w) x m)"
proof -
  obtain w1 where w1: "a0_mtx_lock x w = (A0_OK, w1)" "thread_ok w1 (x # ms)" "ld32 (mm w1) (x + 16) = gettid w"
      "grew w w1 (\<lambda>m. ld32 m (x + 16) = 0 \<or> ld32 m (x + 16) = gettid w \<and> covered (rb_head w) x m)"
    using mtx_lock_free [OF assms] by blast
  have same: "gettid w1 = gettid w" "rb_head w1 = rb_head w" using w1(4) by (simp_all add: grew_def)
  obtain w2 where "a0_mtx_unlock x w1 = (A0_OK, w2)" "thread_ok w2 ms" "ld32 (mm w2) (x + 16) = 0"
      "grew w1 w2 (\<lambda>m. ld32 m (x + 16) = 0 \<or> ld32 m (x + 16) = gettid w \<and> covered (rb_head w) x m)"
    using mtx_unlock_free [of w1 "[]" x ms] w1(2,3) same assms(2) by (auto simp: mtx_apart_def)
  then show ?thesis using w1 grew_trans by blast
qed

theorem mtx_lock_unlock_spec_witness:
  "\<exists>w1 w2. a0_mtx_lock 16 quiet_world = (A0_OK, w1) \<and> a0_mtx_unlock 16 w1 = (A0_OK, w2) \<and>
     ld32 (mm w1) 32 = 7 \<and> ld32 (mm w2) 32 = 0"
proof -
  have "gettid quiet_world = 7" by (simp add: quiet_world_def)
  then show ?thesis
    using mtx_lock_unlock_spec [OF quiet_world(1) quiet_apart [of 16] quiet_free [of 16]] by auto
qed

text \<open>
  A mutex held by another thread is left alone: \<^verbatim>\<open>a0_mtx_trylock\<close> on one with a live owner
  reports EBUSY, \<^verbatim>\<open>a0_mtx_unlock\<close> by a thread that does not hold it reports EPERM; neither changes
  the futex word or the robust list.
\<close>

theorem mtx_not_owner_spec:
  assumes "thread_ok w ms" "mtx_apart x w ms"
    and "ld32 (mm w) (x + 16) = v" "v \<noteq> 0" "\<not> a0_ftx_owner_died v" "a0_ftx_tid v \<noteq> gettid w"
  shows "a0_mtx_unlock x w = (A0_MAKE_SYSERR EPERM, w) \<and>
     (\<exists>w'. a0_mtx_trylock x w = (A0_MAKE_SYSERR EBUSY, w') \<and> thread_ok w' ms \<and> ld32 (mm w') (x + 16) = v)"
proof -
  obtain w' where w': "a0_mtx_trylock x w = (A0_MAKE_SYSERR EBUSY, w')" "thread_ok w' ms"
      "only {rb_head w + 16..<rb_head w + 24} (mm w) (mm w')"
    using mtx_trylock_busy [OF assms(1-5)] by blast
  have "ld 4 (mm w') (x + 16) = ld 4 (mm w) (x + 16)"
    using assms(2) by (intro only_ld [OF w'(3)]) (auto simp: mtx_apart_def apart24_def)
  then show ?thesis
    using w' assms(3,6) by (auto simp: a0_mtx_unlock_def Let_def ld32_def)
qed

theorem mtx_not_owner_spec_witness:
  "a0_mtx_unlock 16 (wr 4 32 5 quiet_world) = (A0_MAKE_SYSERR EPERM, wr 4 32 5 quiet_world)"
proof -
  have "thread_ok (wr 4 32 5 quiet_world) []"
    using quiet_world(1) by (simp add: thread_ok_def robust_ok_def quiet_world_def mem_simps)
  moreover have "mtx_apart 16 (wr 4 32 5 quiet_world) []" using quiet_apart [of 16] by (simp add: mtx_apart_def)
  moreover have "ld32 (mm (wr 4 32 5 quiet_world)) (16 + 16) = 5"
    using ld32_stb [of "mm quiet_world" 32 5] by simp
  ultimately show ?thesis
    using mtx_not_owner_spec [of "wr 4 32 5 quiet_world" "[]" 16 5]
    by (simp add: a0_ftx_owner_died_def FUTEX_OWNER_DIED_def a0_ftx_tid_def FUTEX_TID_MASK_def quiet_world_def)
qed

text \<open>
  A timed wait that times out and then takes over the mutex of a dead owner reports the dead
  owner, although the source means to keep the timeout error: the second error overwrites the
  thread-local code of the first.
\<close>

lemma cnd_timeout_masked:
  assumes "\<not> bad_timeout ts" "a0_mtx_unlock mtx w = (A0_OK, w1)"
    and "a0_ftx_wait_requeue_pi cnd (ld 4 (mm w) cnd) (Some ts) (mtx + 16) (a0_robust_op_start mtx w1)
      = (A0_MAKE_SYSERR ETIMEDOUT, w2)"
    and "a0_mtx_timedlock_robust mtx None w2 = (A0_MAKE_SYSERR EOWNERDEAD, w3)"
  shows "fst (a0_cnd_timedwait cnd mtx (Some ts) w) = A0_MAKE_SYSERR EOWNERDEAD"
  using assms by (simp add: a0_cnd_timedwait_def Let_def resys_def A0_MAKE_SYSERR_def)

end
