(* ===== verification/Transport_Lock.thy ===== *)
theory Transport_Lock
  imports Transport_Alloc Mtx_Correct
begin

text \<open>
  Locking, unlocking and initialising a transport, and its remaining operations. Locking resets
  the working page to the committed one: whatever a previous owner left unfinished is dropped.
\<close>

section \<open>Locking\<close>

text \<open>What lock and unlock may write: the mutex, and the thread's list beyond the arena.\<close>

definition outer :: "nat \<Rightarrow> nat set" where
  "outer A = {hdr_mtx..<hdr_cnd + 4} \<union> {A..}"

lemma outer_apart:
  assumes ok: "log_ok A st" and p: "p = 48 \<or> p = 88"
  shows "hdr_page_idx \<notin> outer A" "outer A \<inter> {hdr_arena_size..<hdr_arena_size + 8} = {}"
    "outer A \<inter> {p..<p + 40} = {}" "outer A \<inter> foot (frames st) = {}"
proof -
  have A: "144 \<le> A" by (rule log_ok_A [OF ok])
  show "hdr_page_idx \<notin> outer A" "outer A \<inter> {hdr_arena_size..<hdr_arena_size + 8} = {}"
    "outer A \<inter> {p..<p + 40} = {}"
    using A p by (auto simp: outer_def layout)
  show "outer A \<inter> foot (frames st) = {}"
    using foot_high [OF ok] by (fastforce simp: outer_def layout)
qed

lemma committed_outer:
  assumes c: "committed A m st" and o: "only (outer A) m m'"
  shows "committed A m' st" "a0_transport_committed_page m' = a0_transport_committed_page m"
    "a0_transport_working_page m' = a0_transport_working_page m"
proof -
  have ok: "log_ok A st" "idx_ok m" using c by (simp_all add: committed_def)
  have "a0_transport_committed_page m = 48 \<or> a0_transport_committed_page m = 88" using pages [OF ok(2)] by auto
  note ap = outer_apart [OF ok(1) this]
  show "committed A m' st" "a0_transport_committed_page m' = a0_transport_committed_page m"
    "a0_transport_working_page m' = a0_transport_working_page m"
    using committed_only [OF c o ap] by blast+
qed

text \<open>Everything but the workspace.\<close>

definition around :: "nat \<Rightarrow> nat set" where
  "around A = {..<144} \<union> {A..}"

lemma contents_around:
  assumes "only (around A) m m'" "log_ok A st"
  shows "contents m' st = contents m st"
  unfolding contents_def
proof (rule map_cong [OF refl])
  fix f assume "f \<in> set (frames st)"
  then have "placed A f" using log_frame [OF assms(2)] by blast
  then have "around A \<inter> {fst f + 40..<f_end f} = {}" by (auto simp: around_def placed_def)
  then show "payload m' f = payload m f" by (rule payload_only [OF assms(1)])
qed

lemma outer_around: "outer A \<subseteq> around A"
  by (auto simp: outer_def around_def layout)

lemma page_around:
  assumes "idx_ok (mm w)" "touches {wpage w..<wpage w + 40} w w'"
  shows "touches (around A) w w'"
  by (rule touches_mono [OF assms(2)]) (use pages [OF assms(1)] in \<open>auto simp: around_def\<close>)

lemma grew_leaves:
  assumes "grew w w' (\<lambda>m. committed A m st)" "touches (around A) w w'" "log_ok A st"
  shows "grew w w' (\<lambda>m. leaves A w m st)"
proof -
  have "grew w w' (only (around A) (mm w))" using assms(2) by (simp add: touches_def)
  from grew_conj [OF assms(1) this] show ?thesis
    by (rule grew_mono) (simp add: leaves_def contents_around [OF _ assms(3)])
qed

text \<open>The thread's list, apart from the arena.\<close>

definition list_outside :: "nat \<Rightarrow> world \<Rightarrow> nat list \<Rightarrow> bool" where
  "list_outside A w ms \<longleftrightarrow> thread_ok w ms \<and> (\<forall>y \<in> set (rb_head w # ms). A \<le> y)"

lemma list_outside_apart: "list_outside A w ms \<Longrightarrow> 144 \<le> A \<Longrightarrow> mtx_apart hdr_mtx w ms"
  unfolding mtx_apart_def apart24_def list_outside_def layout by fastforce

lemma lock_core:
  assumes c: "committed A (mm w) st" and k: "requeue_ok w" and A: "A < 2 ^ 63"
  shows "tinv A (copy_page (wpage w) (cpage w) w) st st"
    and "contents (mm (copy_page (wpage w) (cpage w) w)) st = contents (mm w) st"
proof -
  note s = sync_pages [OF c]
  have ok: "log_ok A st" and idx: "idx_ok (mm w)" using c by (simp_all add: committed_def)
  have "requeue_ok (copy_page (wpage w) (cpage w) w)"
    by (rule requeue_ok_kernel [OF touches_kernel [OF s(6)] k])
  then show "tinv A (copy_page (wpage w) (cpage w) w) st st"
    using s A ok by (simp add: tinv_def)
  have "touches {..<144} w (copy_page (wpage w) (cpage w) w)"
    by (rule touches_mono [OF s(6)]) (use pages [OF idx] in auto)
  then show "contents (mm (copy_page (wpage w) (cpage w) w)) st = contents (mm w) st"
    by (intro contents_low [OF touches_only ok])
qed


text \<open>
  The memory at the moment the mutex is acquired: the present one if it is free, and otherwise the
  one the kernel's call leaves, in which the thread's own list is untouched.
\<close>

definition acquires :: "world \<Rightarrow> nat list \<Rightarrow> mem \<Rightarrow> bool" where
  "acquires w ms m1 \<longleftrightarrow>
     (if ld32 (mm w) (hdr_mtx + 16) = 0 then m1 = mm w
      else kernel w (now w) (FUTEX_LOCK_PI (hdr_mtx + 16) None) (stb 8 (mm w) (rb_head w + 16) hdr_mtx)
           = (None, m1) \<and> robust_ok m1 (rb_head w) ms)"

lemma lock_correct:
  assumes mode: "arena_mode t = A0_ARENA_MODE_SHARED"
    and l: "list_outside A w ms" and acq: "acquires w ms m1" and c: "committed A m1 st"
    and k: "requeue_ok w" and A: "A < 2 ^ 63"
  shows "\<exists>w'. a0_transport_lock t w = w' \<and> tinv A w' st st \<and> contents (mm w') st = contents m1 st"
proof -
  let ?S = "{hdr_mtx..<hdr_mtx + 24} \<union> {rb_head w..<rb_head w + 24} \<union> (\<Union>y \<in> set ms. {y + 8..<y + 16})"
  have "144 \<le> A" using c log_ok_A by (auto simp: committed_def)
  note ap = list_outside_apart [OF l this]
  have t: "thread_ok w ms" and far: "\<forall>y \<in> set (rb_head w # ms). A \<le> y" using l by (simp_all add: list_outside_def)
  have S: "?S \<subseteq> outer A" using far by (auto simp: outer_def layout)
  have "\<exists>e w1. a0_mtx_lock hdr_mtx w = (e, w1) \<and> only ?S m1 (mm w1) \<and> kernel w1 = kernel w"
  proof (cases "ld32 (mm w) (hdr_mtx + 16) = 0")
    case True
    then show ?thesis
      using mtx_lock_free [OF t ap True] acq touches_only touches_kernel
      by (auto simp: acquires_def)
  next
    case False
    then show ?thesis
      using mtx_lock_granted [OF t ap False, of m1] acq by (auto simp: acquires_def)
  qed
  then obtain e w1 where w1: "a0_mtx_lock hdr_mtx w = (e, w1)" "only ?S m1 (mm w1)" "kernel w1 = kernel w"
    by blast
  have o: "only (outer A) m1 (mm w1)" by (rule only_mono [OF w1(2) S])
  have c1: "committed A (mm w1) st" by (rule committed_outer [OF c o])
  have k1: "requeue_ok w1" by (rule requeue_ok_kernel [OF w1(3) k])
  have "a0_transport_lock t w = copy_page (wpage w1) (cpage w1) w1"
    using mode w1(1) by (simp add: a0_transport_lock_def)
  moreover have "contents (mm w1) st = contents m1 st"
    using c by (intro contents_around [OF only_mono [OF o outer_around]]) (simp add: committed_def)
  ultimately show ?thesis using lock_core [OF c1 k1 A] by simp
qed

section \<open>Unlocking\<close>

text \<open>The lock is held: the mutex names the thread and is first on its list.\<close>

definition holds :: "nat \<Rightarrow> world \<Rightarrow> nat list \<Rightarrow> bool" where
  "holds A w ms \<longleftrightarrow> thread_ok w (hdr_mtx # ms) \<and> (\<forall>y \<in> set (rb_head w # ms). A \<le> y) \<and>
     ld32 (mm w) (hdr_mtx + 16) = gettid w"

text \<open>Stores between the lock words and the end of the arena do not disturb the held lock.\<close>

lemma holds_keep:
  assumes h: "holds A w ms" and o: "only ({..<16} \<union> {40..<A}) (mm w) (mm w')"
    and g: "rb_head w' = rb_head w" "gettid w' = gettid w"
    and same: "rb_init w' = rb_init w" "null w' = null w" and A: "144 \<le> A"
  shows "holds A w' ms"
proof -
  have far: "\<forall>y \<in> set (rb_head w # ms). A \<le> y" using h by (simp add: holds_def)
  have "ld64 (mm w') y = ld64 (mm w) y" if "y \<in> set (rb_head w # hdr_mtx # ms)" for y
    using that far A by (intro only_ld [OF o]) (auto simp: layout)
  moreover have "ld64 (mm w') (y + 8) = ld64 (mm w) (y + 8)" if "y \<in> set (hdr_mtx # ms)" for y
    using that far A by (intro only_ld [OF o]) (auto simp: layout)
  ultimately have "robust_ok (mm w') (rb_head w) (hdr_mtx # ms) = robust_ok (mm w) (rb_head w) (hdr_mtx # ms)"
    by (rule robust_ok_cong)
  moreover have "ld32 (mm w') (hdr_mtx + 16) = ld32 (mm w) (hdr_mtx + 16)"
    unfolding ld32_def by (subst only_ld [OF o]) (auto simp: layout)
  ultimately show ?thesis using h g same by (simp add: holds_def thread_ok_def)
qed

lemma holds_touches:
  assumes "holds A w ms" "touches ({..<16} \<union> {40..<A}) w w'"
    and "rb_init w' = rb_init w" "null w' = null w" "144 \<le> A"
  shows "holds A w' ms"
  by (rule holds_keep [OF assms(1) touches_only [OF assms(2)] _ _ assms(3-5)])
    (use assms(2) in \<open>simp_all add: touches_def grew_def\<close>)

lemma copy_page_simps [simp]: "rb_init (copy_page d s w) = rb_init w" "null (copy_page d s w) = null w"
  "rb_head (copy_page d s w) = rb_head w" "gettid (copy_page d s w) = gettid w"
  "kernel (copy_page d s w) = kernel w"
  by (simp_all add: copy_page_def Let_def)

lemma unlock_steps:
  assumes mode: "arena_mode t = A0_ARENA_MODE_SHARED" and i: "tinv A w stC st" and h: "holds A w ms"
  defines "w1 \<equiv> copy_page (wpage w) (cpage w) w"
  shows "thread_ok (a0_transport_unlock t w) ms" "ld32 (mm (a0_transport_unlock t w)) (hdr_mtx + 16) = 0"
    "touches ({hdr_mtx + 16..<hdr_mtx + 20} \<union> {rb_head w..<rb_head w + 24} \<union> (\<Union>y \<in> set ms. {y..<y + 16}))
       w1 (a0_transport_unlock t w)"
    "touches ({..<16} \<union> {40..<A}) w w1" "\<forall>x<16. mm (a0_transport_unlock t w) x = mm w x"
proof -
  note i' = tinvD [OF i]
  have A: "144 \<le> A" using i'(1) log_ok_A by (auto simp: committed_def)
  note s = sync_pages [OF i'(1), folded w1_def]
  show g: "touches ({..<16} \<union> {40..<A}) w w1" by (rule touches_mono [OF s(6)]) (use A i'(7) in auto)
  then have h1: "holds A w1 ms" by (rule holds_touches [OF h _ _ _ A]) (simp_all add: w1_def)
  then have t1: "thread_ok w1 ([] @ hdr_mtx # ms)" and far: "\<forall>y \<in> set (rb_head w1 # ms). A \<le> y"
    and held: "ld32 (mm w1) (hdr_mtx + 16) = gettid w1"
    by (simp_all add: holds_def)
  have "mtx_apart hdr_mtx w1 ([] @ ms)"
    using far A unfolding mtx_apart_def apart24_def layout by fastforce
  from mtx_unlock_free [OF t1 this held] obtain w' where w': "a0_mtx_unlock hdr_mtx w1 = (A0_OK, w')"
      "thread_ok w' ms" "ld32 (mm w') (hdr_mtx + 16) = 0"
      "touches ({hdr_mtx + 16..<hdr_mtx + 20} \<union> {rb_head w1..<rb_head w1 + 24} \<union> (\<Union>y \<in> set ms. {y..<y + 16})) w1 w'"
    by auto
  have "a0_transport_unlock t w = w'"
    using mode w'(1) by (simp add: a0_transport_unlock_def Let_def w1_def)
  then show "thread_ok (a0_transport_unlock t w) ms" "ld32 (mm (a0_transport_unlock t w)) (hdr_mtx + 16) = 0"
    "touches ({hdr_mtx + 16..<hdr_mtx + 20} \<union> {rb_head w..<rb_head w + 24} \<union> (\<Union>y \<in> set ms. {y..<y + 16}))
       w1 (a0_transport_unlock t w)"
    using w' by (simp_all add: w1_def)
  have "48 \<le> wpage w" using pages [of "mm w"] i'(1) by (auto simp: committed_def)
  then have "mm w1 x = mm w x" if "x < 16" for x
    using touches_only [OF s(6)] that by (auto simp: only_def)
  moreover have "only (outer A) (mm w1) (mm w')"
    by (rule only_mono [OF touches_only [OF w'(4)]]) (use far in \<open>auto simp: outer_def layout\<close>)
  then have "mm w' x = mm w1 x" if "x < 16" for x
    using A that by (simp add: only_def outer_def layout)
  ultimately show "\<forall>x<16. mm (a0_transport_unlock t w) x = mm w x" using \<open>a0_transport_unlock t w = w'\<close> by simp
qed

text \<open>The memory that sessions write: the arena, and the thread's robust list. Other memory they leave alone.\<close>

definition lock_area :: "nat \<Rightarrow> world \<Rightarrow> nat list \<Rightarrow> nat set" where
  "lock_area A w ms = {..<A} \<union> (\<Union>y \<in> set (rb_head w # ms). {y..<y + 24})"

lemma unlock_only:
  assumes "arena_mode t = A0_ARENA_MODE_SHARED" "tinv A w stC st" "holds A w ms"
  shows "only (lock_area A w ms) (mm w) (mm (a0_transport_unlock t w))"
proof -
  note u = unlock_steps [OF assms]
  have "144 \<le> A" using tinvD(1) [OF assms(2)] log_ok_A by (auto simp: committed_def)
  then show ?thesis
    by (intro only_trans [OF only_mono [OF touches_only [OF u(4)]] only_mono [OF touches_only [OF u(3)]]]) (auto simp: layout lock_area_def)
qed

lemma unlock_correct:
  assumes mode: "arena_mode t = A0_ARENA_MODE_SHARED" and i: "tinv A w stC st" and h: "holds A w ms"
  shows "\<exists>w'. a0_transport_unlock t w = w' \<and> committed A (mm w') stC \<and>
     contents (mm w') stC = contents (mm w) stC \<and> list_outside A w' ms \<and>
     ld32 (mm w') (hdr_mtx + 16) = 0 \<and> requeue_ok w' \<and> grew w w' (\<lambda>m. leaves A w m stC) \<and>
     (\<forall>x<16. mm w' x = mm w x)"
proof -
  note i' = tinvD [OF i]
  have ok: "log_ok A stC" using i'(1) by (simp add: committed_def)
  let ?w1 = "copy_page (wpage w) (cpage w) w"
  let ?w' = "a0_transport_unlock t w"
  note s = sync_pages [OF i'(1)] and w' = unlock_steps [OF mode i h]
  have far: "\<forall>y \<in> set (rb_head w # ms). A \<le> y" using h by (simp add: holds_def)
  have "touches (outer A) ?w1 ?w'"
    using far by (intro touches_mono [OF w'(3)]) (auto simp: outer_def layout)
  note t' = this touches_only [OF this]
  have "grew ?w1 ?w' (\<lambda>m. committed A m stC)"
    using committed_outer(1) [OF s(2)] by (intro touches_grew [OF t'(1)])
  then have "grew w ?w' (\<lambda>m. committed A m stC)" by (rule grew_trans [OF s(1)])
  moreover have all: "touches (around A) w ?w'"
    using page_around [OF _ s(6)] i'(1) touches_mono [OF t'(1) outer_around] touches_trans
    unfolding committed_def by blast
  ultimately have g: "grew w ?w' (\<lambda>m. leaves A w m stC)" by (rule grew_leaves [OF _ _ ok])
  have c: "contents (mm ?w') stC = contents (mm w) stC" by (rule contents_around [OF touches_only [OF all] ok])
  have "list_outside A ?w' ms"
    using w'(1) far g by (simp add: list_outside_def grew_def)
  moreover have "requeue_ok ?w'"
    by (rule requeue_ok_kernel [OF _ i'(4)]) (use g in \<open>simp add: grew_def\<close>)
  ultimately show ?thesis
    using g c w'(2,5) committed_outer(1) [OF s(2) t'(2)] by blast
qed

text \<open>Locking a free transport: the lock is held afterwards.\<close>

lemma lock_free_correct:
  assumes mode: "arena_mode t = A0_ARENA_MODE_SHARED"
    and l: "list_outside A w ms" and free: "ld32 (mm w) (hdr_mtx + 16) = 0" and c: "committed A (mm w) st"
    and k: "requeue_ok w" and A: "A < 2 ^ 63"
  shows "\<exists>w'. a0_transport_lock t w = w' \<and> tinv A w' st st \<and> contents (mm w') st = contents (mm w) st \<and>
     holds A w' ms \<and> grew w w' (\<lambda>m. leaves A w m st) \<and> (\<forall>x<16. mm w' x = mm w x)"
proof -
  have ok: "log_ok A st" using c by (simp add: committed_def)
  have A': "144 \<le> A" by (rule log_ok_A [OF ok])
  note ap = list_outside_apart [OF l A']
  have t: "thread_ok w ms" and far: "\<forall>y \<in> set (rb_head w # ms). A \<le> y" using l by (simp_all add: list_outside_def)
  obtain w1 where w1: "a0_mtx_lock hdr_mtx w = (A0_OK, w1)" "thread_ok w1 (hdr_mtx # ms)"
      "ld32 (mm w1) (hdr_mtx + 16) = gettid w"
      "touches ({hdr_mtx..<hdr_mtx + 24} \<union> {rb_head w..<rb_head w + 24} \<union> (\<Union>y \<in> set ms. {y + 8..<y + 16})) w w1"
    using mtx_lock_free [OF t ap free] by blast
  have "touches (outer A) w w1"
    using far by (intro touches_mono [OF w1(4)]) (auto simp: outer_def layout)
  note t1 = this touches_only [OF this]
  have c1: "committed A (mm w1) st" by (rule committed_outer(1) [OF c t1(2)])
  have k1: "requeue_ok w1" by (rule requeue_ok_kernel [OF touches_kernel [OF t1(1)] k])
  have g1: "grew w w1 (\<lambda>m. committed A m st)"
    using committed_outer(1) [OF c] by (intro touches_grew [OF t1(1)])
  note s = sync_pages [OF c1]
  have same: "rb_head w1 = rb_head w" "gettid w1 = gettid w" using g1 by (simp_all add: grew_def)
  have "holds A w1 ms" using w1(2,3) far same by (simp add: holds_def)
  moreover have "touches ({..<16} \<union> {40..<A}) w1 (copy_page (wpage w1) (cpage w1) w1)"
    by (rule touches_mono [OF s(6)]) (use A' pages [of "mm w1"] c1 in \<open>auto simp: committed_def\<close>)
  ultimately have "holds A (copy_page (wpage w1) (cpage w1) w1) ms" by (rule holds_touches) (simp_all add: A')
  moreover have "a0_transport_lock t w = copy_page (wpage w1) (cpage w1) w1"
    using mode w1(1) by (simp add: a0_transport_lock_def)
  moreover have "touches (around A) w (copy_page (wpage w1) (cpage w1) w1)"
    using page_around [OF _ s(6)] c1 touches_mono [OF t1(1) outer_around] touches_trans
    unfolding committed_def by blast
  moreover have "mm (copy_page (wpage w1) (cpage w1) w1) x = mm w x" if "x < 16" for x
    using touches_only [OF s(6)] t1(2) that A' pages [of "mm w1"] c1
    by (auto simp: only_def committed_def outer_def layout)
  ultimately show ?thesis
    using lock_core(1) [OF c1 k1 A] grew_leaves [OF grew_trans [OF g1 s(1)] _ ok] contents_around [OF touches_only ok]
    by simp
qed

lemma page_end: "a0_transport_working_page m + 40 \<le> 144"
  by (simp add: a0_transport_working_page_def layout)

text \<open>Locking a free transport writes where unlocking does.\<close>

lemma lock_only:
  assumes mode: "arena_mode t = A0_ARENA_MODE_SHARED"
    and l: "list_outside A w ms" and free: "ld32 (mm w) (hdr_mtx + 16) = 0" and c: "committed A (mm w) st"
  shows "only (lock_area A w ms) (mm w) (mm (a0_transport_lock t w))"
proof -
  have A: "144 \<le> A" using c log_ok_A by (auto simp: committed_def)
  have t: "thread_ok w ms" using l by (simp add: list_outside_def)
  obtain w1 where w1: "a0_mtx_lock hdr_mtx w = (A0_OK, w1)"
      "touches ({hdr_mtx..<hdr_mtx + 24} \<union> {rb_head w..<rb_head w + 24} \<union> (\<Union>y \<in> set ms. {y + 8..<y + 16})) w w1"
    using mtx_lock_free [OF t list_outside_apart [OF l A] free] by blast
  have "touches (lock_area A w ms) w w1"
    using A by (intro touches_mono [OF w1(2)]) (auto simp: lock_area_def layout)
  moreover have "touches {wpage w1..<wpage w1 + 40} w1 (copy_page (wpage w1) (cpage w1) w1)" by (rule touches_copy_page)
  then have "touches (lock_area A w ms) w1 (copy_page (wpage w1) (cpage w1) w1)"
    by (rule touches_mono) (use A page_end [of "mm w1"] in \<open>auto simp: lock_area_def\<close>)
  ultimately have "touches (lock_area A w ms) w (copy_page (wpage w1) (cpage w1) w1)" by (rule touches_trans)
  then show ?thesis using touches_only mode w1(1) by (simp add: a0_transport_lock_def)
qed

end
