(* ===== verification/Transport_Init.thy ===== *)
theory Transport_Init
  imports Transport_Lock
begin

text \<open>
  \<^verbatim>\<open>a0_transport_init\<close>: creating the header in a fresh arena, or connecting to one that is there. The
  \<^verbatim>\<open>initialized\<close> flag is stored last, so a process that dies while creating leaves an arena that
  the next one creates again.
\<close>

definition empty_log :: tlog where
  "empty_log = \<lparr>s_low = 0, s_high = 0, frames = [], s_hwm = 144\<rparr>"

text \<open>An arena that is not initialised yet: null bytes, but for what an earlier attempt wrote.\<close>

definition fresh :: "mem \<Rightarrow> bool" where
  "fresh m \<longleftrightarrow> m 12 = 0 \<and> m 128 = 0 \<and> m 0 \<noteq> 1 \<and>
     ld64 m 48 = 0 \<and> ld64 m 56 = 0 \<and> ld64 m 64 = 0 \<and> ld64 m 72 = 0 \<and>
     ld64 m 88 = 0 \<and> ld64 m 96 = 0 \<and> ld64 m 104 = 0 \<and> ld64 m 112 = 0"

lemma fresh_stb:
  assumes "fresh m" "a \<in> {48, 56, 64, 72, 88, 96, 104, 112}"
  shows "fresh (stb 8 m a 0)"
  using assms unfolding fresh_def by (elim insertE; simp add: mem_simps stb_other ld_stb_same)

lemma fresh_hwm: "fresh m \<Longrightarrow> a \<in> {80, 120, 136} \<Longrightarrow> fresh (stb 8 m a v)"
  unfolding fresh_def by (elim insertE; simp add: mem_simps stb_other)

lemma stb_byte: "stb 1 m a (unat b) = m(a := b)"
  by (auto simp: stb_def fun_eq_iff)

lemma fresh_byte:
  assumes "fresh m" "a < 12" "b \<noteq> 1"
  shows "fresh (m(a := b))"
proof -
  have "ld64 (m(a := b)) c = ld64 m c" if "12 \<le> c" for c
    using that assms(2) by (intro ld_cong) simp
  then show ?thesis using assms by (simp add: fresh_def)
qed

lemma fresh_only:
  assumes f: "fresh m" and o: "only S m m'" and S: "S \<subseteq> {16..<48} \<union> {144..}"
  shows "fresh m'"
proof -
  have "ld64 m' c = ld64 m c" if "48 \<le> c" "c + 8 \<le> 144" for c
    using that S by (intro only_ld [OF o]) fastforce
  moreover have "m' x = m x" if "x < 16 \<or> 48 \<le> x \<and> x < 144" for x
    using that o S by (fastforce simp: only_def)
  ultimately show ?thesis using f by (simp add: fresh_def)
qed

lemma fresh_pages: "fresh m \<Longrightarrow> a0_transport_committed_page m = 48 \<and> a0_transport_working_page m = 88"
  by (simp add: fresh_def a0_transport_committed_page_def a0_transport_working_page_def state_page_def hdr_page_idx_def)

lemma fresh_copy:
  assumes "fresh (mm w)"
  shows "grew w (copy_page 88 48 w) fresh" "fresh (mm (copy_page 88 48 w))"
proof -
  have ld: "ld64 (mm w) 48 = 0" "ld64 (mm w) 56 = 0" "ld64 (mm w) 64 = 0" "ld64 (mm w) 72 = 0"
    using assms by (simp_all add: fresh_def)
  define w1 where "w1 = wr 8 88 0 w"
  define w2 where "w2 = wr 8 96 0 w1"
  define w3 where "w3 = wr 8 104 0 w2"
  define w4 where "w4 = wr 8 112 0 w3"
  have f1: "fresh (mm w1)" unfolding w1_def wr_simps by (rule fresh_stb [OF assms]) simp
  have f2: "fresh (mm w2)" unfolding w2_def wr_simps by (rule fresh_stb [OF f1]) simp
  have f3: "fresh (mm w3)" unfolding w3_def wr_simps by (rule fresh_stb [OF f2]) simp
  have f4: "fresh (mm w4)" unfolding w4_def wr_simps by (rule fresh_stb [OF f3]) simp
  have eq: "copy_page 88 48 w = wr 8 120 (ld64 (mm w4) 80) w4"
    using ld unfolding copy_page_def Let_def w4_def w3_def w2_def w1_def by (simp add: mem_simps)
  show "fresh (mm (copy_page 88 48 w))" unfolding eq wr_simps by (rule fresh_hwm [OF f4]) simp
  have "grew w w1 fresh" unfolding w1_def by (rule grew_wr [of fresh, OF assms])
  also have "grew w1 w2 fresh" unfolding w2_def by (rule grew_wr [of fresh, OF f1])
  also have "grew w2 w3 fresh" unfolding w3_def by (rule grew_wr [of fresh, OF f2])
  also have "grew w3 w4 fresh" unfolding w4_def by (rule grew_wr [of fresh, OF f3])
  also have "grew w4 (copy_page 88 48 w) fresh" unfolding eq by (rule grew_wr [of fresh, OF f4])
  finally show "grew w (copy_page 88 48 w) fresh" .
qed

text \<open>The stores of the header, in the order of the source.\<close>

definition init_hdr :: "nat \<Rightarrow> world \<Rightarrow> world" where
  "init_hdr buf_sz w =
     (let w = wr_bytes 0 ALEPHZERO w;
          w = wr_bytes 9 version_0_3_0 w;
          w = wr 8 hdr_arena_size buf_sz w;
          w = wr 8 (hwm_at (state_page 0)) a0_transport_workspace_off w;
          w = wr 8 (hwm_at (state_page 1)) a0_transport_workspace_off w
      in wr 1 hdr_initialized 1 w)"

lemma fresh_wr_bytes:
  "fresh (mm w) \<Longrightarrow> a + length bs \<le> 12 \<Longrightarrow> \<forall>b \<in> set bs. b \<noteq> 1 \<Longrightarrow>
     fresh (mm (wr_bytes a bs w)) \<and> grew w (wr_bytes a bs w) fresh"
proof (induction bs arbitrary: a w)
  case (Cons b bs)
  have f: "fresh (mm (wr 1 a (unat b) w))"
    using Cons.prems unfolding wr_simps stb_byte by (intro fresh_byte) auto
  have "grew w (wr 1 a (unat b) w) fresh" by (rule grew_wr [of fresh, OF Cons.prems(1)])
  then show ?case using Cons.IH [OF f, of "a + 1"] Cons.prems grew_trans by auto
qed simp

lemma init_hdr_correct:
  assumes f: "fresh (mm w)" and k: "requeue_ok w" and A: "144 \<le> A" "A < 2 ^ 63"
  shows "tinv A (init_hdr A w) empty_log empty_log" "grew w (init_hdr A w) fresh"
    "touches ({..<16} \<union> {44..<144}) w (init_hdr A w)" "ld 1 (mm (init_hdr A w)) hdr_initialized = 1"
proof -
  define w1 where "w1 = wr_bytes 0 ALEPHZERO w"
  define w2 where "w2 = wr_bytes 9 version_0_3_0 w1"
  define w3 where "w3 = wr 8 136 A w2"
  define w4 where "w4 = wr 8 80 144 w3"
  define w5 where "w5 = wr 8 120 144 w4"
  define w6 where "w6 = wr 1 12 1 w5"
  have w6: "init_hdr A w = w6"
    unfolding init_hdr_def Let_def w6_def w5_def w4_def w3_def w2_def w1_def by (simp add: layout)
  have f1: "fresh (mm w1) \<and> grew w w1 fresh"
    unfolding w1_def by (rule fresh_wr_bytes [OF f]) (auto simp: ALEPHZERO_def)
  have f2: "fresh (mm w2) \<and> grew w1 w2 fresh"
    unfolding w2_def using f1 by (intro fresh_wr_bytes) (auto simp: version_0_3_0_def)
  have f3: "fresh (mm w3)" unfolding w3_def wr_simps using f2 by (intro fresh_hwm) auto
  have f4: "fresh (mm w4)" unfolding w4_def wr_simps using f3 by (intro fresh_hwm) auto
  have f5: "fresh (mm w5)" unfolding w5_def wr_simps using f4 by (intro fresh_hwm) auto
  note [trans] = grew_trans
  have "grew w w1 fresh" using f1 by simp
  also have "grew w1 w2 fresh" using f2 by simp
  also have "grew w2 w3 fresh" unfolding w3_def using f2 by (intro grew_wr) simp
  also have "grew w3 w4 fresh" unfolding w4_def by (rule grew_wr [of fresh, OF f3])
  also have "grew w4 w5 fresh" unfolding w5_def by (rule grew_wr [of fresh, OF f4])
  also have "grew w5 w6 fresh" unfolding w6_def by (rule grew_wr [of fresh, OF f5])
  finally show "grew w (init_hdr A w) fresh" unfolding w6 .
  show t: "touches ({..<16} \<union> {44..<144}) w (init_hdr A w)"
  proof -
    let ?S = "{..<16} \<union> {44..<144} :: nat set"
    have "touches ?S w w1" unfolding w1_def by (rule touches_wr_bytes) (auto simp: ALEPHZERO_def)
    moreover have "touches ?S w1 w2" unfolding w2_def by (rule touches_wr_bytes) (auto simp: version_0_3_0_def)
    ultimately have "touches ?S w w2" by (rule touches_trans)
    then show ?thesis
      unfolding w6 w6_def w5_def w4_def w3_def by (intro touches_wr') auto
  qed
  have hdr: "ld64 (mm w6) 80 = 144" "ld64 (mm w6) 120 = 144" "ld64 (mm w6) 136 = A"
    unfolding w6_def w5_def w4_def w3_def using A by (simp_all add: mem_simps)
  have zero: "ld64 (mm w6) a = 0" if "a \<in> {48, 56, 64, 72, 88, 96, 104, 112}" for a
    using f5 that unfolding w6_def fresh_def by (auto simp: mem_simps)
  have idx: "mm w6 128 = 0" using f5 unfolding w6_def fresh_def by (simp add: stb_other)
  show "ld 1 (mm (init_hdr A w)) hdr_initialized = 1"
    unfolding w6 w6_def by (simp add: ld_stb_same hdr_initialized_def)
  have "a0_transport_committed_page (mm w6) = 48" "a0_transport_working_page (mm w6) = 88" "idx_ok (mm w6)"
    using idx by (simp_all add: a0_transport_committed_page_def a0_transport_working_page_def
        state_page_def hdr_page_idx_def idx_ok_def)
  moreover have "requeue_ok w6"
    using requeue_ok_kernel [OF touches_kernel [OF t] k] unfolding w6 .
  moreover have "log_ok A empty_log" using A by (simp add: log_ok_def empty_log_def)
  ultimately show "tinv A (init_hdr A w) empty_log empty_log"
    unfolding w6 tinv_def committed_def view_def page_at_def
    using hdr zero A(2) by (simp add: empty_log_def hdr_arena_size_def)
qed

section \<open>Creating and connecting\<close>

lemma not_0_2: "m 0 \<noteq> 1 \<Longrightarrow> ld 2 m 0 \<noteq> 0x0101"
proof
  assume m: "m 0 \<noteq> 1" and "ld 2 m 0 = 0x0101"
  then have "unat (m 0) + 256 * unat (m 1) = 257" by (simp add: ld_def upt_rec)
  then have "(unat (m 0) + 256 * unat (m 1)) mod 256 = 257 mod 256" by (rule arg_cong)
  then have "unat (m 0) = 1" by simp
  then have "m 0 = 1" by (simp add: word_unat_eq_iff)
  with m show False by simp
qed

lemma no_upgrade: "mm w 0 \<noteq> 1 \<Longrightarrow> a0_backward_compatiblility_update_from_0_2 n w = w"
  using not_0_2 [of "mm w"] by (simp add: a0_backward_compatiblility_update_from_0_2_def)

lemma init_hdr_simps [simp]: "rb_init (init_hdr A w) = rb_init w" "null (init_hdr A w) = null w"
proof -
  have "rb_init (wr_bytes a bs w) = rb_init w \<and> null (wr_bytes a bs w) = null w" for a bs and w :: world
    by (induction bs arbitrary: a w) auto
  then show "rb_init (init_hdr A w) = rb_init w" "null (init_hdr A w) = null w"
    by (simp_all add: init_hdr_def Let_def)
qed

abbreviation new_conn :: "nat \<Rightarrow> a0_arena_mode \<Rightarrow> a0_transport" where
  "new_conn n mode \<equiv> \<lparr>buf_size = n, arena_mode = mode, t_seq = 0, t_off = 0, wait_cnt = 0, shutdown = False\<rparr>"

lemma ld_1: "ld 1 m a = unat (m a)"
  by (simp add: ld_def)

lemma outer_init: "144 \<le> A \<Longrightarrow> outer A \<subseteq> {16..<48} \<union> {144..}"
  by (auto simp: outer_def layout)

lemma init_fresh:
  assumes l: "list_outside A w ms" and free: "ld32 (mm w) (hdr_mtx + 16) = 0" and f: "fresh (mm w)"
    and k: "requeue_ok w" and A: "144 \<le> A" "A < 2 ^ 63"
  shows "\<exists>w'. a0_transport_init A A0_ARENA_MODE_SHARED w = (new_conn A A0_ARENA_MODE_SHARED, w') \<and>
     committed A (mm w') empty_log \<and> list_outside A w' ms \<and> ld32 (mm w') (hdr_mtx + 16) = 0 \<and> requeue_ok w' \<and>
     grew w w' (\<lambda>m. fresh m \<or> committed A m empty_log)"
proof -
  let ?t = "new_conn A A0_ARENA_MODE_SHARED" and ?P = "\<lambda>m. fresh m \<or> committed A m empty_log"
  have t: "thread_ok w ms" and far: "\<forall>y \<in> set (rb_head w # ms). A \<le> y" using l by (simp_all add: list_outside_def)
  obtain w1 where w1: "a0_mtx_lock hdr_mtx w = (A0_OK, w1)" "thread_ok w1 (hdr_mtx # ms)"
      "ld32 (mm w1) (hdr_mtx + 16) = gettid w"
      "touches ({hdr_mtx..<hdr_mtx + 24} \<union> {rb_head w..<rb_head w + 24} \<union> (\<Union>y \<in> set ms. {y + 8..<y + 16})) w w1"
    using mtx_lock_free [OF t list_outside_apart [OF l A(1)] free] by blast
  have "touches (outer A) w w1"
    using far by (intro touches_mono [OF w1(4)]) (auto simp: outer_def layout)
  note t1 = this touches_only [OF this]
  have f1: "fresh (mm w1)" by (rule fresh_only [OF f t1(2) outer_init [OF A(1)]])
  have g1: "grew w w1 ?P"
    using fresh_only [OF f _ outer_init [OF A(1)]] by (intro touches_grew [OF t1(1)]) blast
  have same: "rb_head w1 = rb_head w" "gettid w1 = gettid w" using g1 by (simp_all add: grew_def)
  have h1: "holds A w1 ms" using w1(2,3) far same by (simp add: holds_def)
  define w2 where "w2 = copy_page 88 48 w1"
  define w3 where "w3 = init_hdr A w2"
  have f2: "fresh (mm w2)" "grew w1 w2 fresh" using fresh_copy [OF f1] by (simp_all add: w2_def)
  have k2: "requeue_ok w2"
    by (rule requeue_ok_kernel [OF _ k]) (use touches_kernel [OF t1(1)] in \<open>simp add: w2_def\<close>)
  have "touches ({..<16} \<union> {40..<A}) w1 w2"
    unfolding w2_def by (rule touches_mono [OF touches_copy_page]) (use A in auto)
  then have h2: "holds A w2 ms" by (rule holds_touches [OF h1]) (simp_all add: w2_def A)
  note i = init_hdr_correct [OF f2(1) k2 A, folded w3_def]
  have "touches ({..<16} \<union> {40..<A}) w2 w3" by (rule touches_mono [OF i(3)]) (use A in auto)
  then have h3: "holds A w3 ms" by (rule holds_touches [OF h2]) (simp_all add: w3_def A)
  obtain w' where w': "a0_transport_unlock ?t w3 = w'" "committed A (mm w') empty_log" "list_outside A w' ms"
      "ld32 (mm w') (hdr_mtx + 16) = 0" "requeue_ok w'" "grew w3 w' (\<lambda>m. leaves A w3 m empty_log)"
    using unlock_correct [OF _ i(1) h3, of ?t] by auto
  have "a0_backward_compatiblility_update_from_0_2 A w = w" using f by (intro no_upgrade) (simp add: fresh_def)
  moreover have "a0_transport_lock ?t w = w2"
    using w1(1) fresh_pages [OF f1] by (simp add: a0_transport_lock_def w2_def)
  moreover have "ld 1 (mm w2) hdr_initialized = 0"
    using f2(1) by (simp add: fresh_def ld_1 [unfolded One_nat_def] hdr_initialized_def)
  ultimately have "a0_transport_init A A0_ARENA_MODE_SHARED w = (?t, w')"
    using w'(1) by (simp add: a0_transport_init_def Let_def w3_def init_hdr_def)
  moreover have "grew w w' ?P"
  proof -
    have "grew w1 w2 ?P" using f2(2) by (rule grew_mono) simp
    moreover have "grew w2 w3 ?P" using i(2) by (rule grew_mono) simp
    moreover have "grew w3 w' ?P" using w'(6) by (rule grew_mono) (simp add: leaves_def)
    ultimately show ?thesis using g1 grew_trans by meson
  qed
  ultimately show ?thesis using w' by blast
qed

lemma init_existing:
  assumes l: "list_outside A w ms" and free: "ld32 (mm w) (hdr_mtx + 16) = 0" and c: "committed A (mm w) st"
    and hdr: "mm w 12 \<noteq> 0" "mm w 0 \<noteq> 1" and k: "requeue_ok w" and A: "A < 2 ^ 63"
  shows "\<exists>w'. a0_transport_init n A0_ARENA_MODE_SHARED w = (new_conn n A0_ARENA_MODE_SHARED, w') \<and>
     committed A (mm w') st \<and> contents (mm w') st = contents (mm w) st \<and>
     list_outside A w' ms \<and> ld32 (mm w') (hdr_mtx + 16) = 0 \<and> requeue_ok w' \<and>
     grew w w' (\<lambda>m. leaves A w m st) \<and> (\<forall>x<16. mm w' x = mm w x)"
proof -
  let ?t = "new_conn n A0_ARENA_MODE_SHARED"
  obtain w1 where w1: "a0_transport_lock ?t w = w1" "tinv A w1 st st" "contents (mm w1) st = contents (mm w) st"
      "holds A w1 ms" "grew w w1 (\<lambda>m. leaves A w m st)" "mm w1 12 = mm w 12"
      "\<forall>x<16. mm w1 x = mm w x"
    using lock_free_correct [OF _ l free c k A, of ?t] by auto
  obtain w' where "a0_transport_unlock ?t w1 = w'" "committed A (mm w') st" "list_outside A w' ms"
      "ld32 (mm w') (hdr_mtx + 16) = 0" "requeue_ok w'" "grew w1 w' (\<lambda>m. leaves A w1 m st)"
      "contents (mm w') st = contents (mm w1) st" "\<forall>x<16. mm w' x = mm w1 x"
    using unlock_correct [OF _ w1(2,4), of ?t] by auto
  moreover from this(6) have "grew w1 w' (\<lambda>m. leaves A w m st)"
    by (rule grew_mono) (simp add: leaves_def w1(3))
  moreover have "ld 1 (mm w1) hdr_initialized \<noteq> 0"
    using hdr(1) w1(6) by (simp add: ld_1 [unfolded One_nat_def] hdr_initialized_def unsigned_eq_0_iff)
  ultimately show ?thesis
    using w1 no_upgrade [OF hdr(2)] grew_trans by (auto simp: a0_transport_init_def Let_def)
qed

end
