(* ===== verification/Transport_Spec.thy ===== *)
theory Transport_Spec
  imports Transport_Init
begin

text \<open>
  The contract of \<^verbatim>\<open>src/transport.c\<close>: each operation against the log of frames it stands for, with
  the crash states of those that write.
\<close>

section \<open>Iterators\<close>

text \<open>The iterator stands on the \<open>i\<close>-th frame of the log.\<close>

definition at_frame :: "a0_transport \<Rightarrow> tlog \<Rightarrow> nat \<Rightarrow> bool" where
  "at_frame t st i \<longleftrightarrow> i < length (frames st) \<and> t_seq t = s_low st + i \<and> t_off t = fst (frames st ! i)"

lemma working_fields:
  assumes "tinv A w stC st"
  shows "ld64 (mm w) (seq_low_at (wpage w)) = s_low st" "ld64 (mm w) (seq_high_at (wpage w)) = s_high st"
    "frames st \<noteq> [] \<Longrightarrow> ld64 (mm w) (off_head_at (wpage w)) = fst (hd (frames st))"
    "frames st \<noteq> [] \<Longrightarrow> ld64 (mm w) (off_tail_at (wpage w)) = fst (last (frames st))"
    "a0_transport_empty w \<longleftrightarrow> frames st = []"
    "frames st \<noteq> [] \<Longrightarrow> s_high st = s_low st + length (frames st) - 1"
  using tinvD(6) [OF assms] empty_view [OF tinvD(2,3) [OF assms]] log_seq [OF tinvD(3) [OF assms]]
  by (auto simp: page_at_def)

lemma jump_head_correct:
  assumes "tinv A w stC st" "frames st \<noteq> []"
  shows "\<exists>t'. a0_transport_jump_head t w = (A0_OK, t') \<and> at_frame t' st 0"
  using working_fields [OF assms(1)] assms(2)
  by (simp add: a0_transport_jump_head_def at_frame_def hd_conv_nth)

lemma jump_tail_correct:
  assumes "tinv A w stC st" "frames st \<noteq> []"
  shows "\<exists>t'. a0_transport_jump_tail t w = (A0_OK, t') \<and> at_frame t' st (length (frames st) - 1)"
  using working_fields [OF assms(1)] assms(2)
  by (simp add: a0_transport_jump_tail_def at_frame_def last_conv_nth Suc_le_eq)

lemma has_next_at:
  assumes "tinv A w stC st" "at_frame t st i"
  shows "a0_transport_has_next t w \<longleftrightarrow> Suc i < length (frames st)"
  using working_fields [OF assms(1)] assms(2) by (auto simp: a0_transport_has_next_def at_frame_def)

lemma has_prev_at:
  assumes "tinv A w stC st" "at_frame t st i"
  shows "a0_transport_has_prev t w \<longleftrightarrow> 0 < i"
  using working_fields [OF assms(1)] assms(2) by (auto simp: a0_transport_has_prev_def at_frame_def)

lemma step_next_at:
  assumes t: "tinv A w stC st" and at: "at_frame t st i" and "Suc i < length (frames st)"
  shows "\<exists>t'. a0_transport_step_next t w = (A0_OK, t') \<and> at_frame t' st (Suc i)"
proof -
  have f: "frame_at (mm w) st i" "frame_at (mm w) st (Suc i)"
    using tinvD(2) [OF t] assms(3) by (simp_all add: view_def)
  then show ?thesis
    using working_fields(1) [OF t] has_next_at [OF t at] assms(3) at
    by (simp add: a0_transport_step_next_def at_frame_def frame_at_def Let_def)
qed

lemma step_prev_at:
  assumes t: "tinv A w stC st" and at: "at_frame t st (Suc i)"
  shows "\<exists>t'. a0_transport_step_prev t w = (A0_OK, t') \<and> at_frame t' st i"
proof -
  have f: "frame_at (mm w) st i"
    using tinvD(2) [OF t] at by (simp add: view_def at_frame_def)
  then show ?thesis
    using has_prev_at [OF t at] at
    by (simp add: a0_transport_step_prev_def at_frame_def frame_at_def Let_def)
qed

text \<open>Stepping on from the oldest frame.\<close>

definition step_on :: "world \<Rightarrow> a0_transport \<Rightarrow> a0_transport" where
  "step_on w t = snd (a0_transport_step_next t w)"

lemma steps_at:
  assumes t: "tinv A w stC st" and at: "at_frame t st 0" and i: "i < length (frames st)"
  shows "at_frame ((step_on w ^^ i) t) st i"
  using i
proof (induction i)
  case (Suc i)
  then show ?case using step_next_at [OF t Suc.IH] by (auto simp: step_on_def)
qed (simp add: at)

section \<open>Other operations on the log\<close>

lemma commit_op:
  assumes t: "tinv A w stC st"
  shows "\<exists>w'. a0_transport_commit w = Some w' \<and> tinv A w' st st \<and> contents (mm w') st = contents (mm w) st \<and>
     grew w w' (\<lambda>m. leaves A w m stC \<or> leaves A w m st) \<and> touches {..<144} w w'"
proof -
  note t' = tinvD [OF t]
  obtain w' where w': "a0_transport_commit w = Some w'" "grew w w' (\<lambda>m. committed A m stC \<or> committed A m st)"
      "committed A (mm w') st" "view (mm w') (wpage w') st" "requeue_ok w'" "touches {..<144} w w'"
    using commit_correct [OF t'(1-4)] by blast
  have okC: "log_ok A stC" using t'(1) by (simp add: committed_def)
  have "grew w w' (only {..<144} (mm w))" using w'(6) by (simp add: touches_def)
  from grew_conj [OF w'(2) this] have "grew w w' (\<lambda>m. leaves A w m stC \<or> leaves A w m st)"
    by (rule grew_mono) (auto simp: leaves_def contents_low [OF _ okC] contents_low [OF _ t'(3)])
  moreover have "tinv A w' st st" using w' t'(3,5) by (simp add: tinv_def)
  ultimately show ?thesis using w'(1,6) contents_low [OF touches_only [OF w'(6)] t'(3)] by blast
qed

definition clear_page :: "world \<Rightarrow> world" where
  "clear_page w =
     (let state = wpage w;
          w = wr 8 (seq_low_at state) (add64 (ld64 (mm w) (seq_high_at state)) 1) w;
          w = wr 8 (off_head_at state) 0 w;
          w = wr 8 (off_tail_at state) 0 w
      in wr 8 (hwm_at state) a0_transport_workspace_off w)"

lemma clear_eq: "a0_transport_clear w = a0_transport_commit (clear_page w)"
  by (simp add: a0_transport_clear_def clear_page_def Let_def)

lemma clear_op:
  assumes t: "tinv A w stC st" and seq: "s_high st + 1 < 2 ^ 64"
  shows "\<exists>w'. a0_transport_clear w = Some w' \<and> tinv A w' (l_clear st) (l_clear st) \<and>
     grew w w' (\<lambda>m. committed A m stC \<or> committed A m (l_clear st)) \<and> touches {..<144} w w'"
proof -
  note t' = tinvD [OF t]
  have touch: "touches {wpage w..<wpage w + 40} w (clear_page w)"
    unfolding clear_page_def Let_def by (intro touches_wr' touches_wr) auto
  note ww = working_writes [OF t'(1) touch]
  have ok: "log_ok A (l_clear st)" by (rule l_clear_ok(1) [OF t'(3)])
  have "page_at (mm (clear_page w)) (wpage w) (l_clear st)"
    using t'(6) seq unfolding clear_page_def Let_def by (simp add: page_at_def l_clear_def mem_simps)
  then have "view (mm (clear_page w)) (wpage (clear_page w)) (l_clear st)"
    by (simp add: ww(3) view_def) (simp add: l_clear_def)
  from commit_correct [OF ww(2) this ok ww(4) [OF t'(4)]] obtain w' where
    w': "a0_transport_commit (clear_page w) = Some w'"
      "grew (clear_page w) w' (\<lambda>m. committed A m stC \<or> committed A m (l_clear st))"
      "committed A (mm w') (l_clear st)" "view (mm w') (wpage w') (l_clear st)" "requeue_ok w'"
      "touches {..<144} (clear_page w) w'"
    by blast
  have "grew w (clear_page w) (\<lambda>m. committed A m stC \<or> committed A m (l_clear st))"
    using ww(1) by (rule grew_mono) simp
  then show ?thesis
    using w' ok t'(5) grew_trans touches_trans [OF ww(5)] by (auto simp: clear_eq tinv_def)
qed

lemma resize_op:
  assumes t: "tinv A w stC st" and n: "s_hwm st \<le> n" "n < 2 ^ 63"
  shows "\<exists>w'. a0_transport_resize n w = (A0_OK, w') \<and> tinv n w' stC st \<and>
     (\<forall>x. x < hdr_arena_size \<or> hdr_arena_size + 8 \<le> x \<longrightarrow> mm w' x = mm w x)"
proof -
  note t' = tinvD [OF t]
  let ?w = "wr 8 hdr_arena_size n w"
  have o: "only {hdr_arena_size..<hdr_arena_size + 8} (mm w) (mm ?w)" unfolding wr_simps by (rule only_stb) simp
  have "mm ?w hdr_page_idx = mm w hdr_page_idx" using o by (simp add: only_def layout)
  note same = page_same [of "mm ?w" "mm w", OF this]
  have keep: "view (mm ?w) p L = view (mm w) p L" if "p = 48 \<or> p = 88" "log_ok A L" for p L
    using that by (intro view_only [OF o] low_foot' [OF that(2)]) (auto simp: layout)
  have okC: "log_ok A stC" and "idx_ok (mm w)" using t'(1) by (simp_all add: committed_def)
  have hwmC: "s_hwm stC \<le> n" using t n(1) by (simp add: tinv_def)
  have "ld64 (mm ?w) hdr_arena_size = n" using n(2) by (simp add: mem_simps)
  then have "tinv n ?w stC st"
    using t same keep [OF _ okC, of "cpage w"] keep [OF _ t'(3), of "wpage w"] t'(7,8) n(2)
      log_ok_resize [OF okC hwmC] log_ok_resize [OF t'(3) n(1)] requeue_ok_kernel [OF _ t'(4), of ?w]
    by (auto simp: tinv_def committed_def)
  moreover have "a0_transport_used_space w = s_hwm st"
    using t'(6) by (simp add: a0_transport_used_space_def page_at_def)
  ultimately show ?thesis
    using n(1) o by (auto simp: a0_transport_resize_def only_def)
qed

lemma find_slot_None:
  assumes "log_ok A st"
  shows "find_slot A n (frames st) = None \<longleftrightarrow> A < 144 + n"
proof -
  have "144 \<le> align16 (f_end (last (frames st)))" if "frames st \<noteq> []"
  proof -
    have "placed A (last (frames st))" using log_frame [OF assms] that by simp
    then have "144 \<le> f_end (last (frames st))" using f_end_gt [of "last (frames st)"] by (simp add: placed_def)
    then show ?thesis using align16(1) order.trans by blast
  qed
  then show ?thesis by (auto simp: find_slot_def slot_off_def)
qed

lemma alloc_touches:
  assumes ok: "log_ok A st" and off: "find_slot A n (frames st) = Some off" and n: "40 \<le> n"
  shows "{..<144} \<union> place_set 48 off (drop k (frames st)) \<subseteq> {..<A}"
proof -
  have fits: "off + n \<le> A" using off by (auto simp: find_slot_def split: if_splits)
  have "fst (last (drop k (frames st))) + 40 \<le> A" if "drop k (frames st) \<noteq> []"
  proof -
    have "last (drop k (frames st)) \<in> set (frames st)" using last_in_set [OF that] by (rule in_set_dropD)
    then show ?thesis using log_frame [OF ok] by (fastforce simp: placed_def f_end_def)
  qed
  then have "off + 40 \<le> A" "144 \<le> A" "drop k (frames st) \<noteq> [] \<Longrightarrow> fst (last (drop k (frames st))) + 24 \<le> A"
    using fits n log_ok_A [OF ok] by simp_all
  then show ?thesis unfolding place_set_def by (intro Un_least) (auto split: if_splits)
qed

section \<open>Writing the data of a frame\<close>

text \<open>Between allocation and commit the caller stores into the data of the new, last frame.\<close>

lemma frame_data_apart:
  assumes ok: "log_ok A st" and fs: "frames st = fs @ [f]" and x: "fst f + 40 \<le> x" "x < f_end f"
  shows "144 \<le> x" "x < A" "x \<notin> foot (frames st)" "g \<in> set fs \<Longrightarrow> x \<notin> {fst g..<f_end g}"
proof -
  have pl: "placed A f" using log_frame [OF ok] fs by simp
  then show "144 \<le> x" "x < A" using x by (auto simp: placed_def)
  have ring: "ring A (fs @ [f])" using ok fs by (simp add: log_ok_def)
  have ap: "apart g f" if "g \<in> set fs" for g
    using ring_apart [OF ring] that by (simp add: sorted_wrt_append)
  then show other: "x \<notin> {fst g..<f_end g}" if "g \<in> set fs" for g
    using that x by (fastforce simp: apart_def f_end_def)
  show "x \<notin> foot (frames st)"
  proof
    assume "x \<in> foot (frames st)"
    then obtain i where i: "i < length (frames st)" "fst (frames st ! i) \<le> x" "x < fst (frames st ! i) + 40"
      unfolding foot_def by blast
    then have "frames st ! i \<noteq> f" using x(1) by auto
    moreover have "frames st ! i \<in> set (frames st)" using i(1) by simp
    ultimately have "frames st ! i \<in> set fs" using fs by auto
    then show False using other [of "frames st ! i"] i by (simp add: f_end_def)
  qed
qed

lemma fill_data:
  assumes t: "tinv A w stC st" and fs: "frames st = fs @ [f]" and new: "length (frames stC) \<le> length fs"
    and touch: "touches {fst f + 40..<f_end f} w w'"
  shows "tinv A w' stC st" "map (payload (mm w')) fs = map (payload (mm w)) fs"
    "grew w w' (\<lambda>m. leaves A w m stC)"
proof -
  let ?S = "{fst f + 40..<f_end f}"
  note t' = tinvD [OF t]
  note d = frame_data_apart [OF t'(3) fs]
  have o: "only ?S (mm w) (mm w')" by (rule touches_only [OF touch])
  obtain news where news: "frames st = frames stC @ news" using t by (auto simp: tinv_def)
  have "foot (frames stC) \<subseteq> foot (frames st)" unfolding news by (rule foot_prefix)
  then have foot: "?S \<inter> foot (frames stC) = {}" using d(3) by auto
  have high: "?S \<subseteq> {144..}" using d(1) by auto
  have c: "{cpage w..<cpage w + 40} \<subseteq> {..<144}" and p: "{wpage w..<wpage w + 40} \<subseteq> {..<144}"
    using t'(8) by auto
  have disj: "?S \<inter> T = {}" if "T \<subseteq> {..<144}" for T using high that by fastforce
  have idx: "hdr_page_idx \<notin> ?S" and size: "?S \<inter> {hdr_arena_size..<hdr_arena_size + 8} = {}"
    using subsetD [OF high, of hdr_page_idx] disj [of "{hdr_arena_size..<hdr_arena_size + 8}"]
    unfolding layout by fastforce+
  note keep = committed_only [OF t'(1) _ idx size disj [OF c] foot]
  have pre: "\<exists>gs. fs = frames stC @ gs"
  proof -
    have "take (length (frames stC)) (fs @ [f]) = frames stC" using news fs by simp
    then have "take (length (frames stC)) fs = frames stC" using new by simp
    then show ?thesis by (metis append_take_drop_id)
  qed
  have old: "payload m g = payload (mm w) g" if "g \<in> set fs" "only ?S (mm w) m" for g m
  proof (rule payload_only [OF that(2)], rule equals0I)
    fix x assume "x \<in> ?S \<inter> {fst g + 40..<f_end g}"
    then show False using d(4) [OF _ _ that(1), of x] by simp
  qed
  show "grew w w' (\<lambda>m. leaves A w m stC)"
  proof (rule touches_grew [OF touch])
    fix m assume m: "only ?S (mm w) m"
    have "contents m stC = contents (mm w) stC"
      unfolding contents_def using pre old [OF _ m] by (intro map_cong) auto
    then show "leaves A w m stC" using keep(1) [OF m] by (simp add: leaves_def)
  qed
  have "view (mm w') (wpage w) st = view (mm w) (wpage w) st"
  proof (rule view_only [OF o disj [OF p]], rule equals0I)
    fix x assume "x \<in> ?S \<inter> foot (frames st)"
    then show False using d(3) [of x] by simp
  qed
  then show "tinv A w' stC st"
    using t keep(1,3) [OF o] requeue_ok_kernel [OF touches_kernel [OF touch] t'(4)] by (simp add: tinv_def)
  show "map (payload (mm w')) fs = map (payload (mm w)) fs" using old [OF _ o] by simp
qed

text \<open>
  Publishing: allocate, fill the frame's data by any stores that stay inside it, commit.
\<close>

lemma publish_op:
  assumes t: "tinv A w st st" and mode: "arena_mode c \<noteq> A0_ARENA_MODE_READONLY"
    and fits: "184 + length bs \<le> A" "length bs + A + 128 < 2 ^ 64" "s_high st + 1 < 2 ^ 64"
    and fill: "\<And>off v. touches {off + 40..<off + 40 + length bs} v (fill off v)"
      "\<And>off v. map (mm (fill off v)) [off + 40..<off + 40 + length bs] = bs"
  shows "\<exists>off k w1 w'. a0_transport_alloc c (length bs) w = Some (Inr off, w1) \<and>
     ld64 (mm w1) (fr_size_at off) = length bs \<and>
     a0_transport_commit (fill off w1) = Some w' \<and> k \<le> length (frames st) \<and>
     (let new = l_push off (length bs) (l_evict k st); data = drop k (contents (mm w) st) @ [bs] in
       tinv A w' new new \<and> contents (mm w') new = data \<and> touches {..<A} w w' \<and>
       grew w w' (\<lambda>m. (\<exists>j \<le> k. leaves A w m (l_evict j st)) \<or> committed A m new \<and> contents m new = data))"
proof -
  let ?s = "length bs"
  have ok: "log_ok A st" by (rule tinvD(3) [OF t])
  obtain off where off: "find_slot A (40 + ?s) (frames st) = Some off"
    using find_slot_None [OF ok, of "40 + ?s"] fits(1) by fastforce
  define k where "k = evicted off (40 + ?s) (frames st)"
  define new where "new = l_push off ?s (l_evict k st)"
  define data where "data = drop k (contents (mm w) st) @ [bs]"
  have k: "k \<le> length (frames st)" unfolding k_def by (rule evicted_le)
  let ?stC = "if k = 0 then st else l_evict k st"
  let ?P = "\<lambda>m. (\<exists>j \<le> k. leaves A w m (l_evict j st)) \<or> committed A m new \<and> contents m new = data"
  obtain w1 where w1: "a0_transport_alloc c ?s w = Some (Inr off, w1)" "tinv A w1 ?stC new"
      "grew w w1 (\<lambda>m. leaves A w m st \<or> (\<exists>j\<in>{1..k}. leaves A w m (l_evict j st)))"
      "contents (mm w1) (l_evict k st) = contents (mm w) (l_evict k st)" "touches {..<A} w w1"
  proof -
    have la: "l_alloc A ?s st = Some (off, k, new)" using off by (simp add: l_alloc_def k_def new_def Let_def)
    obtain w1 where a: "a0_transport_alloc c ?s w = Some (Inr off, w1)" "tinv A w1 ?stC new"
        "grew w w1 (\<lambda>m. leaves A w m st \<or> (\<exists>j\<in>{1..k}. leaves A w m (l_evict j st)))"
        "contents (mm w1) (l_evict k st) = contents (mm w) (l_evict k st)"
        "touches ({..<144} \<union> place_set 48 off (drop k (frames st))) w w1"
      using alloc_correct [OF t mode fits(2,3)] la by auto
    have "touches {..<A} w w1"
      by (rule touches_mono [OF a(5) alloc_touches [OF ok off]]) simp
    then show ?thesis by (rule that [OF a(1-4)])
  qed
  have frs: "frames new = drop k (frames st) @ [(off, ?s)]" by (simp add: new_def l_push_def)
  have stC: "?stC = l_evict k st" by simp
  define w2 where "w2 = fill off w1"
  have t2: "touches {fst (off, ?s) + 40..<f_end (off, ?s)} w1 w2"
    using fill(1) [of off w1] by (simp add: w2_def f_end_def)
  have "length (frames ?stC) \<le> length (drop k (frames st))" by simp
  note wd = fill_data [OF w1(2) frs this t2]
  have w2: "tinv A w2 ?stC new" "grew w1 w2 (\<lambda>m. leaves A w1 m ?stC)" using wd(1,3) by simp_all
  have "payload (mm w2) (off, ?s) = bs" using fill(2) [of off w1] by (simp add: w2_def payload_def f_end_def)
  then have d2: "contents (mm w2) new = data"
    using wd(2) w1(4) frs by (simp add: data_def contents_def drop_map)
  obtain w' where w': "a0_transport_commit w2 = Some w'" "tinv A w' new new" "contents (mm w') new = contents (mm w2) new"
      "grew w2 w' (\<lambda>m. leaves A w2 m ?stC \<or> leaves A w2 m new)" "touches {..<144} w2 w'"
    using commit_op [OF w2(1)] by blast
  have old1: "leaves A w m (l_evict k st)" if "leaves A w1 m ?stC" for m
    using that w1(4) unfolding stC leaves_def by simp
  have keep2: "contents (mm w2) (l_evict k st) = contents (mm w) (l_evict k st)"
    using wd(2) w1(4) frs by (simp add: contents_def)
  have old2: "leaves A w m (l_evict k st)" if "leaves A w2 m ?stC" for m
    using that keep2 unfolding stC leaves_def by simp
  have "grew w w1 ?P"
    using w1(3)
  proof (rule grew_mono)
    fix m assume "leaves A w m st \<or> (\<exists>j\<in>{1..k}. leaves A w m (l_evict j st))"
    then show "?P m" by (metis atLeastAtMost_iff l_evict.simps(1) le0)
  qed
  moreover have "grew w1 w2 ?P" using w2(2) by (rule grew_mono) (use old1 in blast)
  moreover have "grew w2 w' ?P" using w'(4) by (rule grew_mono) (use old2 d2 in \<open>auto simp: leaves_def\<close>)
  ultimately have g: "grew w w' ?P" using grew_trans by meson
  have pl: "placed A (off, ?s)" using log_frame [OF tinvD(3) [OF w1(2)], of "(off, ?s)"] frs by simp
  have t: "touches {..<A} w w'"
  proof -
    have "touches {..<A} w1 w2" using pl by (intro touches_mono [OF t2]) (auto simp: placed_def)
    moreover have "touches {..<A} w2 w'" using log_ok_A [OF ok] by (intro touches_mono [OF w'(5)]) auto
    ultimately show ?thesis using w1(5) touches_trans by blast
  qed
  have size: "ld64 (mm w1) (off + 32) = ?s"
    using last_frame(1) [OF tinvD(2) [OF w1(2)]] frs by simp
  show ?thesis
    using w1(1) w' d2 k g t size unfolding w2_def Let_def new_def [symmetric] data_def [symmetric]
    by (intro exI [of _ off] exI [of _ k] exI [of _ w1] exI [of _ w'])
      (simp add: new_def [symmetric] data_def [symmetric])
qed

end
