(* ===== verification/Transport_Props.thy ===== *)
theory Transport_Props
  imports Transport_Spec
begin

text \<open>
  The properties of \<^verbatim>\<open>src/transport.c\<close>, each with a witness on a concrete arena of 1000 bytes.
\<close>

section \<open>A concrete arena\<close>

definition arena :: world where
  "arena = init_hdr 1000 quiet_world"

definition conn :: a0_transport where
  "conn = \<lparr>buf_size = 1000, arena_mode = A0_ARENA_MODE_SHARED, t_seq = 0, t_off = 0, wait_cnt = 0,
     shutdown = False\<rparr>"

lemma conn_mode [simp]: "arena_mode conn = A0_ARENA_MODE_SHARED"
  by (simp add: conn_def)

lemma quiet_fresh: "fresh (mm quiet_world)"
  by (simp add: fresh_def quiet_world_def mem_simps stb_other)

lemma quiet_list: "list_outside 1000 quiet_world []"
  using quiet_world(1) by (simp add: list_outside_def)

lemma arena: "tinv 1000 arena empty_log empty_log"
  unfolding arena_def by (rule init_hdr_correct(1) [OF quiet_fresh quiet_world(2)]) simp_all

lemma empty_log_simps [simp]: "s_low empty_log = 0" "s_high empty_log = 0" "frames empty_log = []" "s_hwm empty_log = 144"
  by (simp_all add: empty_log_def)

lemma find_slot_empty: "144 + n \<le> A \<Longrightarrow> find_slot A n [] = Some 144"
  by (simp add: find_slot_def slot_off_def)

section \<open>Allocation\<close>

text \<open>
  C2. \<^verbatim>\<open>a0_transport_alloc\<close> on a writable arena fails, with the arena unchanged, exactly when frame and
  header exceed the workspace. Otherwise it takes the oldest frames away, as many as are in the way
  of the new one and no more, appends a frame of the requested size with the next sequence number,
  keeps the frames in a ring without overlap, changes nothing outside the arena, and preserves the
  data of every frame that stays; \<^verbatim>\<open>a0_transport_alloc_evicts\<close> announces whether a frame goes.
\<close>

theorem transport_alloc_spec:
  assumes "tinv A w stC st" "arena_mode c \<noteq> A0_ARENA_MODE_READONLY"
    and "s + A + 128 < 2 ^ 64" "s_high st + 1 < 2 ^ 64"
  shows "if A < 184 + s then
       a0_transport_alloc c s w = Some (Inl A0_ERR_FRAME_LARGE, w) \<and>
       a0_transport_alloc_evicts s w = Inl A0_ERR_FRAME_LARGE
     else \<exists>off k w'. a0_transport_alloc c s w = Some (Inr off, w') \<and>
       a0_transport_alloc_evicts s w = Inr (k \<noteq> 0) \<and> k \<le> length (frames st) \<and>
       (\<forall>j \<le> k. evicts off (40 + s) (drop j (frames st)) = (j < k)) \<and>
       tinv A w' (if k = 0 then stC else l_evict k st) (l_push off s (l_evict k st)) \<and>
       frames (l_push off s (l_evict k st)) = drop k (frames st) @ [(off, s)] \<and>
       contents (mm w') (l_evict k st) = drop k (contents (mm w) st) \<and> touches {..<A} w w'"
proof -
  note alloc = alloc_correct [OF assms]
  have n: "add64 sizeof_frame_hdr s = 40 + s" using assms(3) by (simp add: sizeof_frame_hdr_def)
  have slot: "a0_transport_find_slot (40 + s) w =
    (case find_slot A (40 + s) (frames st) of None \<Rightarrow> Inl A0_ERR_FRAME_LARGE | Some off \<Rightarrow> Inr off)"
    by (rule find_slot_eq [OF assms(1)]) (use assms(3) in simp)
  have ok: "log_ok A st" by (rule tinvD(3) [OF assms(1)])
  show ?thesis
  proof (cases "find_slot A (40 + s) (frames st)")
    case None
    then have "A < 184 + s" using find_slot_None [OF ok, of "40 + s"] by simp
    then show ?thesis
      using alloc None slot n by (simp add: l_alloc_def a0_transport_alloc_evicts_def Let_def)
  next
    case (Some off)
    let ?k = "evicted off (40 + s) (frames st)"
    have big: "\<not> A < 184 + s" using Some find_slot_None [OF ok, of "40 + s"] by simp
    have fits: "off + (40 + s) \<le> A" using Some by (auto simp: find_slot_def split: if_splits)
    have k: "?k \<le> length (frames st)" by (rule evicted_le)
    obtain w' where w': "a0_transport_alloc c s w = Some (Inr off, w')"
        "tinv A w' (if ?k = 0 then stC else l_evict ?k st) (l_push off s (l_evict ?k st))"
        "touches ({..<144} \<union> place_set 48 off (drop ?k (frames st))) w w'"
        "contents (mm w') (l_evict ?k st) = contents (mm w) (l_evict ?k st)"
      using alloc Some by (auto simp: l_alloc_def Let_def)
    have ev: "a0_transport_alloc_evicts s w = Inr (?k \<noteq> 0)"
      using slot Some n slot_evicts_eq [OF assms(1) fits] evicted_0 [of off "40 + s" "frames st"]
      by (simp add: a0_transport_alloc_evicts_def Let_def)
    have min: "\<forall>j \<le> ?k. evicts off (40 + s) (drop j (frames st)) = (j < ?k)"
      using evicted_needed evicted_stops by (metis nat_less_le)
    have "touches {..<A} w w'"
      by (rule touches_mono [OF w'(3) alloc_touches [OF ok Some]]) simp
    moreover have "contents (mm w) (l_evict ?k st) = drop ?k (contents (mm w) st)"
      by (simp add: drop_contents)
    ultimately show ?thesis
      unfolding if_not_P [OF big] using w' ev k min
      by (intro exI [where x = off] exI [where x = ?k] exI [where x = w']) (simp add: l_push_def)
  qed
qed

theorem transport_alloc_spec_witness:
  "a0_transport_alloc conn 817 arena = Some (Inl A0_ERR_FRAME_LARGE, arena) \<and>
   (\<exists>off w'. a0_transport_alloc conn 816 arena = Some (Inr off, w') \<and> a0_transport_alloc_evicts 816 arena = Inr False)"
  using transport_alloc_spec [OF arena, of conn 817] transport_alloc_spec [OF arena, of conn 816] by auto

text \<open>
  C3. A process that dies inside \<^verbatim>\<open>a0_transport_alloc\<close>, at any store, leaves a committed log: the one
  before the call, or the working log less some of its oldest frames; the data of all its frames
  is intact.
\<close>

theorem transport_alloc_crash_spec:
  assumes "tinv A w stC st" "arena_mode c \<noteq> A0_ARENA_MODE_READONLY"
    and "s + A + 128 < 2 ^ 64" "s_high st + 1 < 2 ^ 64" "184 + s \<le> A"
  shows "\<exists>r w'. a0_transport_alloc c s w = Some (r, w') \<and>
     grew w w' (\<lambda>m. leaves A w m stC \<or> (\<exists>j\<in>{1..length (frames st)}. leaves A w m (l_evict j st)))"
proof -
  obtain off where off: "find_slot A (40 + s) (frames st) = Some off"
    using find_slot_None [OF tinvD(3) [OF assms(1)], of "40 + s"] assms(5) by fastforce
  let ?k = "evicted off (40 + s) (frames st)"
  obtain w' where w': "a0_transport_alloc c s w = Some (Inr off, w')"
      "grew w w' (\<lambda>m. leaves A w m stC \<or> (\<exists>j\<in>{1..?k}. leaves A w m (l_evict j st)))"
    using alloc_correct [OF assms(1-4)] off by (auto simp: l_alloc_def Let_def)
  have "grew w w' (\<lambda>m. leaves A w m stC \<or> (\<exists>j\<in>{1..length (frames st)}. leaves A w m (l_evict j st)))"
    using w'(2) evicted_le [of off "40 + s" "frames st"] by (auto elim!: grew_mono)
  then show ?thesis using w'(1) by blast
qed

theorem transport_alloc_crash_spec_witness:
  "\<exists>r w'. a0_transport_alloc conn 100 arena = Some (r, w') \<and> grew arena w' (\<lambda>m. leaves 1000 arena m empty_log)"
  using transport_alloc_crash_spec [OF arena, of conn 100] by simp

section \<open>Commit, clear, resize\<close>

text \<open>The log of the concrete arena after one allocation of \<open>s\<close> bytes.\<close>

definition one_log :: "nat \<Rightarrow> tlog" where
  "one_log s = \<lparr>s_low = 1, s_high = 1, frames = [(144, s)], s_hwm = 184 + s\<rparr>"

lemma arena_alloc:
  assumes "s \<le> 816"
  shows "\<exists>w'. a0_transport_alloc conn s arena = Some (Inr 144, w') \<and> tinv 1000 w' empty_log (one_log s)"
proof -
  have "find_slot 1000 (40 + s) [] = Some 144" using assms by (intro find_slot_empty) simp
  moreover have "l_push 144 s empty_log = one_log s" by (simp add: l_push_def one_log_def empty_log_def f_end_def)
  ultimately show ?thesis
    using alloc_correct [OF arena, of conn s] assms by (auto simp: l_alloc_def)
qed

text \<open>
  \<^verbatim>\<open>a0_transport_commit\<close> returns, and makes the working log the committed one, data included. A
  process that dies inside it leaves the old or the new log, nothing in between.
\<close>

theorem transport_commit_spec:
  assumes "tinv A w stC st"
  shows "\<exists>w'. a0_transport_commit w = Some w' \<and> tinv A w' st st \<and> contents (mm w') st = contents (mm w) st \<and>
     grew w w' (\<lambda>m. leaves A w m stC \<or> leaves A w m st)"
  using commit_op [OF assms] by blast

theorem transport_commit_spec_witness:
  "\<exists>w1 w2. a0_transport_alloc conn 10 arena = Some (Inr 144, w1) \<and> a0_transport_commit w1 = Some w2 \<and>
     committed 1000 (mm w1) empty_log \<and> committed 1000 (mm w2) (one_log 10)"
proof -
  obtain w1 where w1: "a0_transport_alloc conn 10 arena = Some (Inr 144, w1)" "tinv 1000 w1 empty_log (one_log 10)"
    using arena_alloc [of 10] by auto
  then show ?thesis using transport_commit_spec [OF w1(2)] by (auto simp: tinv_def)
qed

text \<open>
  C1. Publishing a frame, as a writer does it: allocate, store the data, commit. It ends with the new
  frame in the committed log behind the frames that stay, each with its data. A process that dies
  on the way, at any store, leaves the log it started from, less some of its oldest frames and with
  the data of the others intact, or the complete new log: no reader ever sees a part of the frame.
\<close>

theorem transport_publish_spec:
  assumes "tinv A w st st" "arena_mode c \<noteq> A0_ARENA_MODE_READONLY" "184 + length bs \<le> A"
    and "length bs + A + 128 < 2 ^ 64" "s_high st + 1 < 2 ^ 64"
  shows "\<exists>off k w1 w'. a0_transport_alloc c (length bs) w = Some (Inr off, w1) \<and>
     a0_transport_commit (wr_bytes (off + 40) bs w1) = Some w' \<and> k \<le> length (frames st) \<and>
     (let new = l_push off (length bs) (l_evict k st); data = drop k (contents (mm w) st) @ [bs] in
       tinv A w' new new \<and> contents (mm w') new = data \<and>
       grew w w' (\<lambda>m. (\<exists>j \<le> k. leaves A w m (l_evict j st)) \<or> committed A m new \<and> contents m new = data))"
proof -
  have "touches {off + 40..<off + 40 + length bs} v (wr_bytes (off + 40) bs v)" for off v
    by (rule touches_wr_bytes) simp
  moreover have "map (mm (wr_bytes (off + 40) bs v)) [off + 40..<off + 40 + length bs] = bs" for off v
    by (rule nth_equalityI) (simp_all add: wr_bytes_mem)
  ultimately show ?thesis
    using publish_op [OF assms(1-5), of "\<lambda>off. wr_bytes (off + 40) bs"] unfolding Let_def by blast
qed

theorem transport_publish_spec_witness:
  "\<exists>off w1 w' new. a0_transport_alloc conn 3 arena = Some (Inr off, w1) \<and>
     a0_transport_commit (wr_bytes (off + 40) [1, 2, 3] w1) = Some w' \<and> contents (mm w') new = [[1, 2, 3]] \<and>
     committed 1000 (mm w') new"
proof -
  obtain off w1 w' new where "a0_transport_alloc conn 3 arena = Some (Inr off, w1)"
      "a0_transport_commit (wr_bytes (off + 40) [1, 2, 3] w1) = Some w'" "tinv 1000 w' new new"
      "contents (mm w') new = contents (mm arena) empty_log @ [[1, 2, 3]]"
    using transport_publish_spec [OF arena, of conn "[1, 2, 3]"] unfolding Let_def
    by (auto simp del: wr_bytes.simps simp: numeral_3_eq_3)
  moreover have "contents (mm arena) empty_log = []" by (simp add: contents_def)
  ultimately show ?thesis using tinvD(1) by auto
qed

text \<open>
  C10. \<^verbatim>\<open>a0_transport_clear\<close> empties the log and keeps counting: the sequence numbers of the frames that
  were there are not used again, and a crash leaves the old or the cleared log.
\<close>

theorem transport_clear_spec:
  assumes "tinv A w stC st" "s_high st + 1 < 2 ^ 64"
  shows "\<exists>w'. a0_transport_clear w = Some w' \<and> tinv A w' (l_clear st) (l_clear st) \<and>
     a0_transport_empty w' \<and> a0_transport_seq_high w' = s_high st \<and> a0_transport_seq_low w' = s_high st + 1 \<and>
     grew w w' (\<lambda>m. committed A m stC \<or> committed A m (l_clear st))"
proof -
  obtain w' where w': "a0_transport_clear w = Some w'" "tinv A w' (l_clear st) (l_clear st)"
      "grew w w' (\<lambda>m. committed A m stC \<or> committed A m (l_clear st))"
    using clear_op [OF assms] by blast
  then show ?thesis
    using working_fields [OF w'(2)]
    by (simp add: a0_transport_seq_high_def a0_transport_seq_low_def) (simp add: l_clear_def)
qed

theorem transport_clear_spec_witness:
  "\<exists>w1 w2. a0_transport_alloc conn 10 arena = Some (Inr 144, w1) \<and> a0_transport_clear w1 = Some w2 \<and>
     a0_transport_empty w2 \<and> a0_transport_seq_high w2 = 1"
proof -
  obtain w1 where w1: "a0_transport_alloc conn 10 arena = Some (Inr 144, w1)" "tinv 1000 w1 empty_log (one_log 10)"
    using arena_alloc [of 10] by auto
  then show ?thesis using transport_clear_spec [OF w1(2)] by (auto simp: one_log_def)
qed

section \<open>Iteration\<close>

lemma at_frame_reads:
  assumes t: "tinv A w stC st" and at: "at_frame t st i"
  shows "a0_transport_iter_valid t w" "a0_transport_frame t w = Inr (fst (frames st ! i))"
    "ld64 (mm w) (fr_seq_at (t_off t)) = s_low st + i" "ld64 (mm w) (fr_size_at (t_off t)) = snd (frames st ! i)"
  using working_fields [OF t] nth_frame [OF tinvD(2) [OF t], of i] at
  by (auto simp: a0_transport_iter_valid_def a0_transport_frame_def at_frame_def)

text \<open>
  C7. Walking the log. From \<^verbatim>\<open>a0_transport_jump_head\<close>, \<open>i\<close> calls of \<^verbatim>\<open>a0_transport_step_next\<close> stand on
  the \<open>i\<close>-th oldest frame: the iterator is valid, \<^verbatim>\<open>a0_transport_frame\<close> yields that frame, whose
  header holds its sequence number and size; \<^verbatim>\<open>a0_transport_has_next\<close> holds unless it is the newest
  frame and \<^verbatim>\<open>a0_transport_has_prev\<close> unless it is the oldest, and \<^verbatim>\<open>a0_transport_step_prev\<close> goes back to the
  one before. \<^verbatim>\<open>a0_transport_jump_tail\<close> stands on the newest frame.
\<close>

theorem transport_iterate_spec:
  assumes "tinv A w stC st" "i < length (frames st)"
  shows "let t0 = snd (a0_transport_jump_head t w); ti = (step_on w ^^ i) t0 in
     fst (a0_transport_jump_head t w) = A0_OK \<and> a0_transport_iter_valid ti w \<and>
     a0_transport_frame ti w = Inr (fst (frames st ! i)) \<and>
     ld64 (mm w) (fst (frames st ! i)) = s_low st + i \<and>
     ld64 (mm w) (fst (frames st ! i) + 32) = snd (frames st ! i) \<and>
     a0_transport_has_next ti w = (Suc i < length (frames st)) \<and> a0_transport_has_prev ti w = (0 < i) \<and>
     (0 < i \<longrightarrow> (\<exists>t'. a0_transport_step_prev ti w = (A0_OK, t') \<and> at_frame t' st (i - 1))) \<and>
     (\<exists>t'. a0_transport_jump_tail t w = (A0_OK, t') \<and> at_frame t' st (length (frames st) - 1))"
proof -
  have ne: "frames st \<noteq> []" using assms(2) by auto
  obtain t0 where t0: "a0_transport_jump_head t w = (A0_OK, t0)" "at_frame t0 st 0"
    using jump_head_correct [OF assms(1) ne] by blast
  note ti = steps_at [OF assms(1) t0(2) assms(2)]
  have "\<exists>t'. a0_transport_step_prev ((step_on w ^^ i) t0) w = (A0_OK, t') \<and> at_frame t' st (i - 1)" if "0 < i"
    using step_prev_at [OF assms(1), of _ "i - 1"] ti that by simp
  then show ?thesis
    using t0(1) ti at_frame_reads [OF assms(1) ti] has_next_at [OF assms(1) ti] has_prev_at [OF assms(1) ti]
      jump_tail_correct [OF assms(1) ne, of t]
    by (simp add: Let_def at_frame_def)
qed

theorem transport_iterate_spec_witness:
  "\<exists>w. a0_transport_alloc conn 10 arena = Some (Inr 144, w) \<and>
     a0_transport_frame (snd (a0_transport_jump_head conn w)) w = Inr 144 \<and>
     \<not> a0_transport_has_next (snd (a0_transport_jump_head conn w)) w"
proof -
  obtain w where w: "a0_transport_alloc conn 10 arena = Some (Inr 144, w)" "tinv 1000 w empty_log (one_log 10)"
    using arena_alloc [of 10] by auto
  have "frames (one_log 10) = [(144, 10)]" by (simp add: one_log_def)
  then show ?thesis using transport_iterate_spec [OF w(2), of 0 conn] w(1) by (simp add: Let_def)
qed

text \<open>
  C8. An iterator whose frame has been evicted is found out and recovers: it is not valid, reading
  its frame reports ESPIPE, nothing is before it, and while the log has frames
  \<^verbatim>\<open>a0_transport_step_next\<close> moves it to the oldest of them. In an empty log, a fresh one or one
  that was emptied, no iterator wherever it stands has a next or a previous frame: both steps and
  the jumps to the head and to the tail report RANGE and leave the iterator as it is.
  (\<^verbatim>\<open>a0_transport_jump\<close>, to an offset, does not look at the log.)
\<close>

theorem transport_resync_spec:
  assumes "tinv A w stC st"
  shows "(t_seq t < s_low st \<longrightarrow> \<not> a0_transport_iter_valid t w \<and>
       a0_transport_frame t w = Inl (A0_MAKE_SYSERR ESPIPE) \<and>
       \<not> a0_transport_has_prev t w \<and> a0_transport_step_prev t w = (A0_ERR_RANGE, t) \<and>
       (frames st \<noteq> [] \<longrightarrow> a0_transport_has_next t w \<and>
         (\<exists>t'. a0_transport_step_next t w = (A0_OK, t') \<and> at_frame t' st 0))) \<and>
     (frames st = [] \<longrightarrow> a0_transport_empty w \<and>
       \<not> a0_transport_has_next t w \<and> a0_transport_step_next t w = (A0_ERR_RANGE, t) \<and>
       \<not> a0_transport_has_prev t w \<and> a0_transport_step_prev t w = (A0_ERR_RANGE, t) \<and>
       a0_transport_jump_head t w = (A0_ERR_RANGE, t) \<and> a0_transport_jump_tail t w = (A0_ERR_RANGE, t))"
proof -
  note wf = working_fields [OF assms]
  have "a0_transport_has_next t w \<and> (\<exists>t'. a0_transport_step_next t w = (A0_OK, t') \<and> at_frame t' st 0)"
    if "t_seq t < s_low st" "frames st \<noteq> []"
  proof -
    have "s_low st \<le> s_high st" using log_seq [OF tinvD(3) [OF assms]] that(2) by (cases "frames st") auto
    then show ?thesis
      using wf that by (simp add: a0_transport_has_next_def a0_transport_step_next_def at_frame_def hd_conv_nth)
  qed
  moreover have "\<not> a0_transport_iter_valid t w" "a0_transport_frame t w = Inl (A0_MAKE_SYSERR ESPIPE)"
    "\<not> a0_transport_has_prev t w" if "t_seq t < s_low st"
    using wf that by (simp_all add: a0_transport_iter_valid_def a0_transport_frame_def a0_transport_has_prev_def)
  moreover have "a0_transport_empty w" if "frames st = []" using wf that by simp
  ultimately show ?thesis
    by (auto simp: a0_transport_step_prev_def a0_transport_step_next_def a0_transport_has_next_def
        a0_transport_has_prev_def a0_transport_jump_head_def a0_transport_jump_tail_def)
qed

theorem transport_resync_spec_witness:
  "(\<exists>w t'. a0_transport_alloc conn 10 arena = Some (Inr 144, w) \<and>
     a0_transport_frame conn w = Inl (A0_MAKE_SYSERR ESPIPE) \<and>
     a0_transport_step_next conn w = (A0_OK, t') \<and> t_seq t' = 1 \<and> t_off t' = 144) \<and>
   a0_transport_step_next conn arena = (A0_ERR_RANGE, conn) \<and> a0_transport_step_prev conn arena = (A0_ERR_RANGE, conn)"
proof -
  obtain w where w: "a0_transport_alloc conn 10 arena = Some (Inr 144, w)" "tinv 1000 w empty_log (one_log 10)"
    using arena_alloc [of 10] by auto
  have "t_seq conn < s_low (one_log 10)" "frames (one_log 10) = [(144, 10)]" "s_low (one_log 10) = 1"
    by (simp_all add: one_log_def conn_def)
  then show ?thesis
    using transport_resync_spec [OF w(2), of conn] transport_resync_spec [OF arena, of conn] w(1)
    by (auto simp: at_frame_def)
qed

section \<open>Locking and initialisation\<close>

text \<open>
  C6. \<^verbatim>\<open>a0_transport_lock\<close> drops what an owner before left unfinished: whatever the working page and the
  bytes behind the committed log hold at the moment the lock is acquired, and whether the lock was
  free or the kernel handed it over, the working log is then the committed one, data intact.
\<close>

theorem transport_lock_spec:
  assumes "arena_mode t = A0_ARENA_MODE_SHARED" "list_outside A w ms" "acquires w ms m1"
    and "committed A m1 st" "requeue_ok w" "A < 2 ^ 63"
  shows "tinv A (a0_transport_lock t w) st st \<and> contents (mm (a0_transport_lock t w)) st = contents m1 st"
  using lock_correct [OF assms] by blast

text \<open>A dead owner's leavings: the working page, page 1, claims 9 frames up to number 9.\<close>

definition garbage :: world where
  "garbage = wr 8 96 9 arena"

theorem transport_lock_spec_witness:
  "a0_transport_seq_high garbage = 9 \<and> a0_transport_seq_high (a0_transport_lock conn garbage) = 0"
proof -
  have idx: "mm arena 128 = 0"
    unfolding arena_def init_hdr_def Let_def
    by (simp add: layout wr_bytes_mem ALEPHZERO_def version_0_3_0_def stb_other quiet_world_def)
  have o: "only {96..<104} (mm arena) (mm garbage)" unfolding garbage_def wr_simps by (rule only_stb) simp
  have pages: "wpage arena = 88" "cpage arena = 48"
    using idx by (simp_all add: a0_transport_working_page_def a0_transport_committed_page_def layout)
  have c: "committed 1000 (mm garbage) empty_log"
    using pages by (intro committed_only [OF tinvD(1) [OF arena] o]) (auto simp: layout foot_def)
  have hdr: "rb_head arena = 1000" "gettid arena = 7" "rb_init arena = rb_init quiet_world" "null arena = 0"
    "kernel arena = kernel quiet_world"
    unfolding arena_def using init_hdr_correct(3) [OF quiet_fresh quiet_world(2), of 1000]
    by (auto simp: touches_def grew_def quiet_world_def)
  have arena_only: "only ({..<16} \<union> {44..<144}) (mm quiet_world) (mm arena)"
    unfolding arena_def using init_hdr_correct(3) [OF quiet_fresh quiet_world(2), of 1000] touches_only by simp
  have o': "only ({..<16} \<union> {44..<144}) (mm quiet_world) (mm garbage)"
    by (rule only_trans [OF arena_only]) (rule only_mono [OF o], auto)
  have "ld64 (mm garbage) 1000 = ld64 (mm quiet_world) 1000" by (rule only_ld [OF o']) auto
  then have t: "list_outside 1000 garbage []"
    using quiet_list hdr by (simp add: list_outside_def thread_ok_def robust_ok_def garbage_def quiet_world_def)
  have "ld 4 (mm garbage) 32 = ld 4 (mm quiet_world) 32" by (rule only_ld [OF o']) auto
  then have free: "acquires garbage [] (mm garbage)"
    using quiet_free [of 16] by (simp add: acquires_def layout ld32_def)
  have k: "requeue_ok garbage" using quiet_world(2) hdr by (simp add: requeue_ok_def garbage_def)
  have "wpage garbage = 88" using pages o by (simp add: a0_transport_working_page_def only_def layout)
  then have "a0_transport_seq_high garbage = 9"
    by (simp add: a0_transport_seq_high_def garbage_def mem_simps)
  moreover have "a0_transport_seq_high (a0_transport_lock conn garbage) = 0"
    using working_fields(2) [OF conjunct1 [OF transport_lock_spec [OF conn_mode t free c k]]]
    by (simp add: a0_transport_seq_high_def)
  ultimately show ?thesis by simp
qed

text \<open>
  C9. \<^verbatim>\<open>a0_transport_init\<close> on a fresh arena creates the header and an empty log; on one that is already
  there it connects, and leaves the log and its data alone. The lock is free afterwards. A process
  that dies while creating leaves an arena that still counts as fresh, so that the next one creates
  it, or the empty log; one that dies while connecting leaves the log.
\<close>

theorem transport_init_spec:
  assumes "list_outside A w ms" "ld32 (mm w) (hdr_mtx + 16) = 0" "requeue_ok w" "144 \<le> A" "A < 2 ^ 63"
    and "fresh (mm w) \<and> st = empty_log \<or> committed A (mm w) st \<and> mm w 12 \<noteq> 0 \<and> mm w 0 \<noteq> 1"
  shows "\<exists>t w'. a0_transport_init A A0_ARENA_MODE_SHARED w = (t, w') \<and>
     arena_mode t = A0_ARENA_MODE_SHARED \<and> committed A (mm w') st \<and>
     contents (mm w') st = contents (mm w) st \<and> list_outside A w' ms \<and>
     ld32 (mm w') (hdr_mtx + 16) = 0 \<and> requeue_ok w' \<and>
     grew w w' (\<lambda>m. fresh m \<and> st = empty_log \<or> leaves A w m st)"
  using assms(6)
proof (elim disjE conjE)
  assume f: "fresh (mm w)" "st = empty_log"
  obtain w' where "a0_transport_init A A0_ARENA_MODE_SHARED w = (new_conn A A0_ARENA_MODE_SHARED, w')"
      "committed A (mm w') empty_log" "list_outside A w' ms"
      "ld32 (mm w') (hdr_mtx + 16) = 0" "requeue_ok w'" "grew w w' (\<lambda>m. fresh m \<or> committed A m empty_log)"
    using init_fresh [OF assms(1,2) f(1) assms(3-5)] by blast
  then show ?thesis unfolding f(2) by (simp add: contents_def leaves_def)
next
  assume c: "committed A (mm w) st" "mm w 12 \<noteq> 0" "mm w 0 \<noteq> 1"
  obtain w' where w': "a0_transport_init A A0_ARENA_MODE_SHARED w = (new_conn A A0_ARENA_MODE_SHARED, w')"
      "committed A (mm w') st" "contents (mm w') st = contents (mm w) st" "list_outside A w' ms"
      "ld32 (mm w') (hdr_mtx + 16) = 0" "requeue_ok w'" "grew w w' (\<lambda>m. leaves A w m st)"
    using init_existing [OF assms(1,2) c assms(3,5)] by blast
  have "grew w w' (\<lambda>m. fresh m \<and> st = empty_log \<or> leaves A w m st)" using w'(7) by (rule grew_mono) simp
  then show ?thesis using w' by auto
qed

theorem transport_init_spec_witness:
  "\<exists>t w'. a0_transport_init 1000 A0_ARENA_MODE_SHARED quiet_world = (t, w') \<and> committed 1000 (mm w') empty_log"
  using transport_init_spec [OF quiet_list _ quiet_world(2), of empty_log] quiet_free [of 16] quiet_fresh
  by (auto simp: layout)

text \<open>
  \<^verbatim>\<open>a0_transport_unlock\<close> by the holder frees the mutex and takes it off the thread's robust list.
  What was allocated and not committed is gone: the log others see is the committed one, and it is
  what they see at every store of the call.
\<close>

theorem transport_unlock_spec:
  assumes "arena_mode t = A0_ARENA_MODE_SHARED" "tinv A w stC st" "holds A w ms"
  shows "let w' = a0_transport_unlock t w in
     committed A (mm w') stC \<and> contents (mm w') stC = contents (mm w) stC \<and> list_outside A w' ms \<and>
     ld32 (mm w') (hdr_mtx + 16) = 0 \<and> grew w w' (\<lambda>m. leaves A w m stC)"
  using unlock_correct [OF assms] by (auto simp: Let_def)

theorem transport_unlock_spec_witness:
  "\<exists>w. ld32 (mm (a0_transport_lock conn w)) 32 = 7 \<and> ld32 (mm (a0_transport_unlock conn (a0_transport_lock conn w))) 32 = 0"
proof -
  obtain t w where w: "list_outside 1000 w []" "ld32 (mm w) (hdr_mtx + 16) = 0" "requeue_ok w"
      "committed 1000 (mm w) empty_log" "gettid w = 7"
    using init_fresh [OF quiet_list _ quiet_fresh quiet_world(2)] quiet_free [of 16]
    by (auto simp: layout grew_def quiet_world_def)
  obtain w' where w': "a0_transport_lock conn w = w'" "tinv 1000 w' empty_log empty_log" "holds 1000 w' []"
      "gettid w' = gettid w"
    using lock_free_correct [OF conn_mode w(1,2,4,3)] by (auto simp: grew_def)
  have "ld32 (mm w') 32 = 7" using w'(3,4) w(5) by (simp add: holds_def layout)
  moreover have "ld32 (mm (a0_transport_unlock conn w')) 32 = 0"
    using transport_unlock_spec [OF conn_mode w'(2,3)] by (simp add: Let_def layout)
  ultimately show ?thesis using w'(1) by blast
qed

end
