(* ===== verification/Publish.thy ===== *)
theory Publish
  imports Transport_Spec
begin

text \<open>
  Publishing a frame under the lock leaves the lock alone: where no thread waits for frames, the
  operations write nothing in front of the condition variable, so that the holder still holds the
  mutex and its robust list when it comes to unlock.
\<close>

section \<open>Nobody waits\<close>

text \<open>With no waiter to move, \<^verbatim>\<open>FUTEX_CMP_REQUEUE_PI\<close> leaves the memory as it is.\<close>

definition no_waiters :: "world \<Rightarrow> bool" where
  "no_waiters w \<longleftrightarrow> (\<forall>t cnd val ftx cnt m. snd (kernel w t (FUTEX_CMP_REQUEUE_PI cnd val ftx cnt) m) = m)"

definition calm :: "world \<Rightarrow> world \<Rightarrow> bool" where
  "calm w w' \<longleftrightarrow> kernel w' = kernel w \<and> rb_init w' = rb_init w \<and> null w' = null w \<and>
     (\<forall>x<40. mm w' x = mm w x)"

lemma calm_refl [simp]: "calm w w"
  by (simp add: calm_def)

lemma calm_trans: "calm w w1 \<Longrightarrow> calm w1 w2 \<Longrightarrow> calm w w2"
  by (simp add: calm_def)

lemma calm_kernel: "calm w w' \<Longrightarrow> no_waiters w \<and> requeue_ok w \<Longrightarrow> no_waiters w' \<and> requeue_ok w'"
  by (simp add: calm_def no_waiters_def requeue_ok_def)

lemma calm_wr: "40 \<le> a \<Longrightarrow> calm w w1 \<Longrightarrow> calm w (wr n a v w1)"
  by (simp add: calm_def stb_other)

lemma calm_broadcast:
  assumes k: "no_waiters w \<and> requeue_ok w" and b: "a0_cnd_broadcast hdr_cnd hdr_mtx w = Some (e, w')"
  shows "calm w w'"
proof -
  define val where "val = (ld 4 (mm w) hdr_cnd + 1) mod 2 ^ 32"
  let ?m = "stb 4 (mm w) hdr_cnd val"
  obtain r where k': "kernel w (now w) (FUTEX_CMP_REQUEUE_PI hdr_cnd val (ftx_of hdr_mtx) INT_MAX) ?m = (r, ?m)"
    using k unfolding no_waiters_def by (metis surjective_pairing)
  have "ld 4 ?m hdr_cnd = val" by (simp add: ld_stb_same val_def)
  then have "r \<noteq> Some EAGAIN"
    using k [THEN conjunct2, unfolded requeue_ok_def, rule_format, of "now w" hdr_cnd val "ftx_of hdr_mtx" INT_MAX ?m]
    unfolding k' by simp
  then have "A0_SYSERR (case r of None \<Rightarrow> A0_OK | Some e \<Rightarrow> A0_MAKE_SYSERR e) \<noteq> Some EAGAIN" by (cases r) auto
  then have "w' = (wr 4 hdr_cnd val w)\<lparr>mm := ?m, past := ?m # mm w # past w, now := Suc (now w)\<rparr>"
    using b unfolding a0_cnd_broadcast_def a0_cnd_wake_def Let_def val_def [symmetric]
    by (subst (asm) a0_cnd_wake_loop.simps)
      (simp add: a0_ftx_cmp_requeue_pi_def a0_futex_def k', simp add: wr_def)
  then show ?thesis by (simp add: calm_def layout stb_other)
qed

lemma pages_48: "48 \<le> a0_transport_working_page m" "48 \<le> a0_transport_committed_page m"
  by (simp_all add: a0_transport_working_page_def a0_transport_committed_page_def layout)

lemma calm_copy_page: "48 \<le> d \<Longrightarrow> calm w (copy_page d s w)"
  unfolding copy_page_def Let_def by (intro calm_wr calm_refl) auto

lemma calm_commit:
  assumes k: "no_waiters w \<and> requeue_ok w" and c: "a0_transport_commit w = Some w'"
  shows "calm w w'"
proof -
  let ?w1 = "wr 1 hdr_page_idx (if mm w hdr_page_idx = 0 then 1 else 0) w"
  let ?w2 = "copy_page (wpage ?w1) (cpage ?w1) ?w1"
  have "calm w ?w1" by (intro calm_wr calm_refl) (simp add: layout)
  moreover have "calm ?w1 ?w2" by (rule calm_copy_page [OF pages_48(1)])
  ultimately have 12: "calm w ?w2" by (rule calm_trans)
  obtain e where "a0_cnd_broadcast hdr_cnd hdr_mtx ?w2 = Some (e, w')"
    using c by (auto simp: a0_transport_commit_def Let_def)
  from calm_broadcast [OF calm_kernel [OF 12 k] this] 12 show ?thesis using calm_trans by blast
qed

lemma calm_remove_head:
  assumes k: "no_waiters w \<and> requeue_ok w" and s: "48 \<le> state" and r: "a0_transport_remove_head state w = Some w'"
  shows "calm w w'"
proof -
  obtain v where v: "calm w v" "a0_transport_commit v = Some w'"
    using r s unfolding a0_transport_remove_head_def Let_def
    by (auto split: if_splits intro!: that calm_wr)
  then show ?thesis using calm_commit [OF calm_kernel [OF v(1) k] v(2)] calm_trans by blast
qed

lemma calm_evict:
  assumes "a0_transport_evict off n w = Some w'"
  shows "no_waiters w \<and> requeue_ok w \<longrightarrow> calm w w'"
proof (rule a0_transport_evict.raw_induct [OF _ assms])
  fix evict off n w w'
  assume IH: "\<And>off n w w'. evict off n w = Some w' \<Longrightarrow> no_waiters w \<and> requeue_ok w \<longrightarrow> calm w w'"
    and e: "(if a0_transport_slot_evicts off n w
      then Option.bind (a0_transport_remove_head (wpage w) w) (evict off n) else Some w) = Some w'"
  show "no_waiters w \<and> requeue_ok w \<longrightarrow> calm w w'"
  proof (cases "a0_transport_slot_evicts off n w")
    case True
    then obtain v where v: "a0_transport_remove_head (wpage w) w = Some v" "evict off n v = Some w'"
      using e by (auto simp: Option.bind_eq_Some_conv)
    then show ?thesis
      using IH [OF v(2)] calm_remove_head [OF _ pages_48(1) v(1)] calm_kernel calm_trans by blast
  qed (use e in simp)
qed

text \<open>Placing the new frame writes above the lock.\<close>

lemma place_simps:
  "rb_init (place p off s w) = rb_init w" "null (place p off s w) = null w" "kernel (place p off s w) = kernel w"
  by (simp_all add: place_def a0_transport_slot_init_def a0_transport_maybe_set_head_def
      a0_transport_update_tail_def a0_transport_update_high_water_mark_def Let_def wr_bytes_simps)

lemma calm_alloc:
  assumes t: "tinv A w stC st" and k: "no_waiters w"
    and fits: "184 + s \<le> A" "s + A + 128 < 2 ^ 64" "s_high st + 1 < 2 ^ 64"
    and a: "a0_transport_alloc c s w = Some (Inr off, w')"
  shows "calm w w'"
proof -
  have ok: "log_ok A st" by (rule tinvD(3) [OF t])
  have n: "add64 40 s = 40 + s" using fits by simp
  have slot: "find_slot A (40 + s) (frames st) = Some off"
    using a find_slot_eq [OF t, of "40 + s"] fits
    by (auto simp: alloc_place n split: if_splits option.splits)
  then have off: "off + (40 + s) \<le> A" by (auto simp: find_slot_def split: if_splits)
  let ?k = "evicted off (40 + s) (frames st)"
  obtain w1 where w1: "a0_transport_evict off (40 + s) w = Some w1" "tinv A w1 (if ?k = 0 then stC else l_evict ?k st) (l_evict ?k st)"
    using evict_correct [OF t off fits(3) refl] by blast
  have w': "w' = place (wpage w1) off s w1"
    using a w1(1) find_slot_eq [OF t, of "40 + s"] slot fits by (simp add: alloc_place n split: if_splits)
  have "calm w w1" using calm_evict [OF w1(1)] k tinvD(4) [OF t] by blast
  moreover have "calm w1 w'"
  proof -
    have ring: "ring A (frames (l_evict ?k st) @ [(off, s)])"
      using ring_evict [OF _ slot] ok by (simp add: log_ok_def)
    have high: "144 \<le> off" using ring_placed [OF ring, of "(off, s)"] by (simp add: placed_def)
    have "touches (place_set (wpage w1) off (frames (l_evict ?k st))) w1 w'"
      unfolding w' by (rule place_correct(3) [OF w1(2) ring]) (use fits in simp)
    moreover have "x \<notin> place_set (wpage w1) off (frames (l_evict ?k st))" if "x < 40" for x
    proof -
      have "144 \<le> fst (last (frames (l_evict ?k st)))" if "frames (l_evict ?k st) \<noteq> []"
        using log_frame [OF tinvD(3) [OF w1(2)] last_in_set [OF that]] by (simp add: placed_def)
      then show ?thesis using that high pages_48(1) [of "mm w1"] by (auto simp: place_set_def)
    qed
    ultimately show ?thesis
      using place_simps by (auto simp: calm_def w' touches_def only_def)
  qed
  ultimately show ?thesis by (rule calm_trans)
qed

text \<open>The header of an initialised transport, which a new connection looks for.\<close>

definition has_header :: "mem \<Rightarrow> bool" where
  "has_header m \<longleftrightarrow> m 12 \<noteq> 0 \<and> m 0 \<noteq> 1"

lemma has_header_low: "\<forall>x<16. m' x = m x \<Longrightarrow> has_header m' = has_header m"
  by (simp add: has_header_def)

text \<open>The state between two sessions: nobody holds the lock, and the log \<open>st\<close> is committed.\<close>

definition idle :: "nat \<Rightarrow> world \<Rightarrow> nat list \<Rightarrow> tlog \<Rightarrow> bool" where
  "idle A w ms st \<longleftrightarrow> list_outside A w ms \<and> ld32 (mm w) (hdr_mtx + 16) = 0 \<and> committed A (mm w) st \<and>
     requeue_ok w \<and> no_waiters w \<and> A < 2 ^ 63 \<and> has_header (mm w)"

text \<open>A process in its session: it holds the lock, and works on the committed log.\<close>

definition session :: "nat \<Rightarrow> world \<Rightarrow> nat list \<Rightarrow> tlog \<Rightarrow> bool" where
  "session A w ms st \<longleftrightarrow> tinv A w st st \<and> holds A w ms \<and> no_waiters w \<and> has_header (mm w)"

lemma lock_session:
  assumes i: "idle A w ms st" and mode: "arena_mode t = A0_ARENA_MODE_SHARED"
  shows "session A (a0_transport_lock t w) ms st"
    "contents (mm (a0_transport_lock t w)) st = contents (mm w) st"
    "grew w (a0_transport_lock t w) (\<lambda>m. leaves A w m st)"
proof -
  have i': "list_outside A w ms" "ld32 (mm w) (hdr_mtx + 16) = 0" "committed A (mm w) st" "requeue_ok w"
    "no_waiters w" "A < 2 ^ 63" "has_header (mm w)"
    using i by (simp_all add: idle_def)
  from lock_free_correct [OF mode i'(1-4,6)] have l: "tinv A (a0_transport_lock t w) st st"
      "contents (mm (a0_transport_lock t w)) st = contents (mm w) st" "holds A (a0_transport_lock t w) ms"
      "grew w (a0_transport_lock t w) (\<lambda>m. leaves A w m st)" "\<forall>x<16. mm (a0_transport_lock t w) x = mm w x"
    by auto
  have "kernel (a0_transport_lock t w) = kernel w" using l(4) by (simp add: grew_def)
  then show "session A (a0_transport_lock t w) ms st" using l(1,3) i'(5,7) has_header_low [OF l(5)] by (simp add: session_def no_waiters_def)
  show "contents (mm (a0_transport_lock t w)) st = contents (mm w) st"
    "grew w (a0_transport_lock t w) (\<lambda>m. leaves A w m st)" by (rule l(2,4))+
qed

lemma unlock_session:
  assumes t: "tinv A w stC st" and h: "holds A w ms" and n: "no_waiters w" and hd: "has_header (mm w)"
    and mode: "arena_mode t = A0_ARENA_MODE_SHARED"
  shows "idle A (a0_transport_unlock t w) ms stC"
    "contents (mm (a0_transport_unlock t w)) stC = contents (mm w) stC"
    "grew w (a0_transport_unlock t w) (\<lambda>m. leaves A w m stC)"
proof -
  from unlock_correct [OF mode t h] have u: "committed A (mm (a0_transport_unlock t w)) stC"
      "contents (mm (a0_transport_unlock t w)) stC = contents (mm w) stC" "list_outside A (a0_transport_unlock t w) ms"
      "ld32 (mm (a0_transport_unlock t w)) (hdr_mtx + 16) = 0" "requeue_ok (a0_transport_unlock t w)"
      "grew w (a0_transport_unlock t w) (\<lambda>m. leaves A w m stC)" "\<forall>x<16. mm (a0_transport_unlock t w) x = mm w x"
    by auto
  have "kernel (a0_transport_unlock t w) = kernel w" using u(6) by (simp add: grew_def)
  then show "idle A (a0_transport_unlock t w) ms stC"
    using u n tinvD(5) [OF t] hd has_header_low [OF u(7)] by (simp add: idle_def no_waiters_def)
  show "contents (mm (a0_transport_unlock t w)) stC = contents (mm w) stC"
    "grew w (a0_transport_unlock t w) (\<lambda>m. leaves A w m stC)" by (rule u(2,6))+
qed

text \<open>
  Publishing under the lock: allocate, fill the frame, commit, unlock. \<open>fill\<close> stores inside the
  frame's data. The ways a crash can leave the log are those of \<open>publish_op\<close>.
\<close>

lemma publish_session:
  assumes s: "session A w ms st" and mode: "arena_mode t = A0_ARENA_MODE_SHARED"
    and fits: "184 + length bs \<le> A" "length bs + A + 128 < 2 ^ 64" "s_high st + 1 < 2 ^ 64"
    and fill: "\<And>off v. touches {off + 40..<off + 40 + length bs} v (fill off v)"
      "\<And>off v. map (mm (fill off v)) [off + 40..<off + 40 + length bs] = bs"
      "\<And>off v. rb_init (fill off v) = rb_init v \<and> null (fill off v) = null v"
  shows "\<exists>off k w1 w2. a0_transport_alloc t (length bs) w = Some (Inr off, w1) \<and>
     ld64 (mm w1) (fr_size_at off) = length bs \<and> a0_transport_commit (fill off w1) = Some w2 \<and> k \<le> length (frames st) \<and>
     (let w' = a0_transport_unlock t w2; new = l_push off (length bs) (l_evict k st);
          data = drop k (contents (mm w) st) @ [bs] in
       idle A w' ms new \<and> contents (mm w') new = data \<and> only (lock_area A w ms) (mm w) (mm w') \<and>
       grew w w' (\<lambda>m. (\<exists>j \<le> k. leaves A w m (l_evict j st)) \<or> committed A m new \<and> contents m new = data))"
proof -
  have t: "tinv A w st st" and h: "holds A w ms" and n: "no_waiters w" and hd: "has_header (mm w)"
    using s by (simp_all add: session_def)
  have ro: "arena_mode t \<noteq> A0_ARENA_MODE_READONLY" using mode by simp
  obtain off k w1 w2 where p: "a0_transport_alloc t (length bs) w = Some (Inr off, w1)"
      "ld64 (mm w1) (fr_size_at off) = length bs" "a0_transport_commit (fill off w1) = Some w2" "k \<le> length (frames st)"
      and q: "let new = l_push off (length bs) (l_evict k st); data = drop k (contents (mm w) st) @ [bs] in
       tinv A w2 new new \<and> contents (mm w2) new = data \<and> touches {..<A} w w2 \<and>
       grew w w2 (\<lambda>m. (\<exists>j \<le> k. leaves A w m (l_evict j st)) \<or> committed A m new \<and> contents m new = data)"
    using publish_op [OF t ro fits fill(1,2)] by blast
  define new where "new = l_push off (length bs) (l_evict k st)"
  define data where "data = drop k (contents (mm w) st) @ [bs]"
  let ?P = "\<lambda>m. (\<exists>j \<le> k. leaves A w m (l_evict j st)) \<or> committed A m new \<and> contents m new = data"
  have q: "tinv A w2 new new" "contents (mm w2) new = data" "touches {..<A} w w2" "grew w w2 ?P"
    using q unfolding Let_def new_def data_def by blast+
  have c1: "calm w w1" by (rule calm_alloc [OF t n fits p(1)])
  have "144 \<le> off"
    using log_frame [OF tinvD(3) [OF q(1)], of "(off, length bs)"] by (simp add: new_def l_push_def placed_def)
  then have "calm w1 (fill off w1)"
    using fill(1) [of off w1] fill(3) by (auto simp: calm_def touches_def grew_def only_def)
  then have c2: "calm w (fill off w1)" using c1 calm_trans by blast
  have k2: "no_waiters (fill off w1) \<and> requeue_ok (fill off w1)" by (rule calm_kernel [OF c2]) (use n tinvD(4) [OF t] in simp)
  have c: "calm w w2" using calm_commit [OF k2 p(3)] c2 calm_trans by blast
  have "only ({..<16} \<union> {40..<A}) (mm w) (mm w2)"
    using touches_only [OF q(3)] c by (auto simp: only_def calm_def)
  then have h2: "holds A w2 ms" by (rule holds_keep [OF h]) (use q(3) c log_ok_A [OF tinvD(3) [OF t]] in \<open>auto simp: calm_def touches_def grew_def\<close>)
  have n2: "no_waiters w2" using calm_kernel [OF c] n tinvD(4) [OF t] by blast
  have "has_header (mm w2)" using hd c by (simp add: calm_def has_header_def)
  note u = unlock_session [OF q(1) h2 n2 this mode]
  have "grew w2 (a0_transport_unlock t w2) ?P"
    using u(3) by (rule grew_mono) (simp add: leaves_def q(2))
  note g = grew_trans [OF q(4) this]
  have d: "contents (mm (a0_transport_unlock t w2)) new = data" using u(2) q(2) by simp
  have "rb_head w2 = rb_head w" using q(3) by (simp add: touches_def grew_def)
  then have "only (lock_area A w ms) (mm w2) (mm (a0_transport_unlock t w2))"
    using unlock_only [OF mode q(1) h2] by (simp add: lock_area_def)
  moreover have "only (lock_area A w ms) (mm w) (mm w2)"
    by (rule only_mono [OF touches_only [OF q(3)]]) (auto simp: lock_area_def)
  ultimately have "only (lock_area A w ms) (mm w) (mm (a0_transport_unlock t w2))" using only_trans by blast
  then show ?thesis
    using p u(1) d g unfolding Let_def new_def data_def by blast
qed

end
