(* ===== verification/Transport_Runs.thy ===== *)
theory Transport_Runs
  imports Transport_Props Publish
begin

text \<open>
  Runs of \<^verbatim>\<open>src/transport.c\<close>: from the creation of the arena on, any sequence of operations on the
  log, under one holding of the lock or many. The mark of the furthest byte in use stays exact.
\<close>

section \<open>Operations in sequence\<close>

text \<open>\<open>Relock\<close>: the lock is given up and taken again, by this process or the next one.\<close>

datatype transport_op = Op_alloc nat | Op_commit | Op_clear | Op_resize nat | Op_relock

fun op_run :: "a0_transport \<Rightarrow> transport_op \<Rightarrow> world \<Rightarrow> world option" where
  "op_run c (Op_alloc s) w = map_option snd (a0_transport_alloc c s w)"
| "op_run c Op_commit w = a0_transport_commit w"
| "op_run c Op_clear w = a0_transport_clear w"
| "op_run c (Op_resize n) w = Some (snd (a0_transport_resize n w))"
| "op_run c Op_relock w = Some (a0_transport_lock c (a0_transport_unlock c w))"

primrec ops_run :: "a0_transport \<Rightarrow> transport_op list \<Rightarrow> world \<Rightarrow> world option" where
  "ops_run c [] w = Some w"
| "ops_run c (op # ops) w = Option.bind (op_run c op w) (ops_run c ops)"

text \<open>The arena stays below \<open>B\<close>, where the process keeps other things, and requests stay below \<open>2\<^sup>6\<^sup>2\<close>.\<close>

fun op_bounded :: "nat \<Rightarrow> transport_op \<Rightarrow> bool" where
  "op_bounded B (Op_alloc s) = (s < 2 ^ 62)"
| "op_bounded B (Op_resize n) = (n \<le> B)"
| "op_bounded B _ = True"

text \<open>A locked transport whose marks, of the working log and of the committed one, are exact.\<close>

definition exact :: "nat \<Rightarrow> nat \<Rightarrow> world \<Rightarrow> nat list \<Rightarrow> tlog \<Rightarrow> tlog \<Rightarrow> bool" where
  "exact A B w ms stC st \<longleftrightarrow> tinv A w stC st \<and> holds A w ms \<and> no_waiters w \<and> A \<le> B \<and> B < 2 ^ 63 \<and>
     (\<forall>y \<in> set (rb_head w # ms). B \<le> y) \<and> tight stC \<and> tight st \<and> s_high stC \<le> s_high st"

lemma calm_clear:
  assumes k: "no_waiters w \<and> requeue_ok w" and c: "a0_transport_clear w = Some w'"
  shows "calm w w'"
proof -
  have 1: "calm w (clear_page w)"
    unfolding clear_page_def Let_def by (intro calm_wr calm_refl) (use pages_48(1) [of "mm w"] in linarith)+
  show ?thesis using calm_commit [OF calm_kernel [OF 1 k]] c 1 calm_trans by (auto simp: clear_eq)
qed

lemma holds_calm:
  assumes h: "holds A w ms" and c: "calm w w'" and o: "touches {..<A} w w'" and A: "144 \<le> A"
  shows "holds A w' ms"
proof (rule holds_keep [OF h _ _ _ _ _ A])
  show "only ({..<16} \<union> {40..<A}) (mm w) (mm w')"
    unfolding only_def
  proof (intro allI impI)
    fix x assume "x \<notin> {..<16} \<union> {40..<A}"
    then have "x < 40 \<or> x \<notin> {..<A}" by auto
    then show "mm w' x = mm w x" using c touches_only [OF o] unfolding calm_def only_def by blast
  qed
  show "rb_head w' = rb_head w" "gettid w' = gettid w" using o by (simp_all add: touches_def grew_def)
  show "rb_init w' = rb_init w" "null w' = null w" using c by (simp_all add: calm_def)
qed

lemma exact_calm:
  assumes e: "exact A B w ms stC st" and c: "calm w w'" and o: "touches {..<A} w w'"
    and t: "tinv n w' stC' st'" "tight stC'" "tight st'" "s_high stC' \<le> s_high st'" and n: "n \<le> B"
  shows "exact n B w' ms stC' st'"
proof -
  have h: "holds A w ms" "tinv A w stC st" "no_waiters w" "B < 2 ^ 63" "\<forall>y \<in> set (rb_head w # ms). B \<le> y"
    using e unfolding exact_def by blast+
  have "144 \<le> A" by (rule log_ok_A [OF tinvD(3) [OF h(2)]])
  note h' = holds_calm [OF h(1) c o this]
  have "no_waiters w'" using h(3) c by (simp add: no_waiters_def calm_def)
  moreover have rb: "rb_head w' = rb_head w" using o by (simp add: touches_def grew_def)
  moreover have "holds n w' ms" using h' h(5) n unfolding holds_def rb by force
  ultimately show ?thesis using h(4,5) n t by (simp add: exact_def)
qed

lemma exact_alloc:
  assumes e: "exact A B w ms stC st" and m: "arena_mode c = A0_ARENA_MODE_SHARED"
    and s: "s < 2 ^ 62" "s_high st + 1 < 2 ^ 64"
  shows "\<exists>r w' stC' st'. a0_transport_alloc c s w = Some (r, w') \<and> exact A B w' ms stC' st' \<and> s_high st' \<le> s_high st + 1"
proof -
  have t: "tinv A w stC st" and n: "no_waiters w" and A: "A < 2 ^ 63" and ti: "tight stC" "tight st"
    and le: "s_high stC \<le> s_high st" and AB: "A \<le> B"
    using e by (simp_all add: exact_def)
  have ok: "log_ok A st" by (rule tinvD(3) [OF t])
  have size: "s + A + 128 < 2 ^ 64" using s(1) A by simp
  note alloc = alloc_correct [OF t _ size s(2), of c]
  show ?thesis
  proof (cases "find_slot A (40 + s) (frames st)")
    case None
    then have "a0_transport_alloc c s w = Some (Inl A0_ERR_FRAME_LARGE, w)" using alloc m by (simp add: l_alloc_def)
    then show ?thesis using e le_add1 by blast
  next
    case (Some off)
    let ?k = "evicted off (40 + s) (frames st)"
    let ?st' = "l_push off s (l_evict ?k st)" and ?stC' = "if ?k = 0 then stC else l_evict ?k st"
    obtain w' where w': "a0_transport_alloc c s w = Some (Inr off, w')" "tinv A w' ?stC' ?st'"
        "touches ({..<144} \<union> place_set 48 off (drop ?k (frames st))) w w'"
      using alloc Some m by (auto simp: l_alloc_def Let_def)
    have fits: "184 + s \<le> A" using Some find_slot_None [OF ok, of "40 + s"] by simp
    have c: "calm w w'" by (rule calm_alloc [OF t n fits size s(2) w'(1)])
    have o: "touches {..<A} w w'" by (rule touches_mono [OF w'(3) alloc_touches [OF ok Some]]) simp
    have ev: "log_ok A (l_evict ?k st)" "tight (l_evict ?k st)"
      using l_evict_ok [OF ok evicted_le] ti(2) by blast+
    have ring: "ring A (frames (l_evict ?k st) @ [(off, s)])"
      using ring_evict [OF _ Some] ok by (simp add: log_ok_def)
    have "tight ?stC'" "tight ?st'" using l_push_ok(2) [OF ev(1) ring ev(2)] ti(1) ev(2) by simp_all
    moreover have "s_high ?stC' \<le> s_high ?st'" "s_high ?st' \<le> s_high st + 1" using le by (simp_all add: l_push_def)
    ultimately show ?thesis using exact_calm [OF e c o w'(2) _ _ _ AB] w'(1) by blast
  qed
qed

lemma exact_relock:
  assumes e: "exact A B w ms stC st" and m: "arena_mode c = A0_ARENA_MODE_SHARED"
  shows "exact A B (a0_transport_lock c (a0_transport_unlock c w)) ms stC stC"
proof -
  have t: "tinv A w stC st" and h: "holds A w ms" and A: "A < 2 ^ 63" using e by (simp_all add: exact_def)
  let ?u = "a0_transport_unlock c w"
  have u: "committed A (mm ?u) stC" "list_outside A ?u ms" "ld32 (mm ?u) (hdr_mtx + 16) = 0" "requeue_ok ?u"
      "grew w ?u (\<lambda>m. leaves A w m stC)"
    using unlock_correct [OF m t h] by auto
  let ?l = "a0_transport_lock c ?u"
  have l: "tinv A ?l stC stC" "holds A ?l ms" "grew ?u ?l (\<lambda>m. leaves A ?u m stC)"
    using lock_free_correct [OF m u(2,3,1,4) A] by auto
  have "no_waiters ?l" "rb_head ?l = rb_head w"
    using u(5) l(3) e by (simp_all add: exact_def no_waiters_def grew_def)
  then show ?thesis using e l(1,2) by (simp add: exact_def)
qed

lemma exact_op:
  assumes e: "exact A B w ms stC st" and m: "arena_mode c = A0_ARENA_MODE_SHARED"
    and op: "op_bounded B op" and s: "s_high st + 1 < 2 ^ 64"
  shows "\<exists>A' w' stC' st'. op_run c op w = Some w' \<and> exact A' B w' ms stC' st' \<and> s_high st' \<le> s_high st + 1"
proof (cases op)
  case (Op_alloc n)
  then show ?thesis using exact_alloc [OF e m _ s, of n] op by fastforce
next
  case Op_commit
  have t: "tinv A w stC st" and k: "no_waiters w \<and> requeue_ok w" and ti: "tight st" and AB: "A \<le> B"
    using e tinvD(4) by (auto simp: exact_def)
  obtain w' where w': "a0_transport_commit w = Some w'" "tinv A w' st st" "touches {..<144} w w'"
    using commit_op [OF t] by blast
  have "touches {..<A} w w'" using log_ok_A [OF tinvD(3) [OF t]] by (intro touches_mono [OF w'(3)]) auto
  from exact_calm [OF e calm_commit [OF k w'(1)] this w'(2) ti ti order.refl AB] show ?thesis
    using Op_commit w'(1) le_add1 op_run.simps(2) by metis
next
  case Op_clear
  have t: "tinv A w stC st" and k: "no_waiters w \<and> requeue_ok w" and AB: "A \<le> B"
    using e tinvD(4) by (auto simp: exact_def)
  obtain w' where w': "a0_transport_clear w = Some w'" "tinv A w' (l_clear st) (l_clear st)" "touches {..<144} w w'"
    using clear_op [OF t s] by blast
  have ti: "tight (l_clear st)" by (rule l_clear_ok(2))
  have "touches {..<A} w w'" using log_ok_A [OF tinvD(3) [OF t]] by (intro touches_mono [OF w'(3)]) auto
  from exact_calm [OF e calm_clear [OF k w'(1)] this w'(2) ti ti order.refl AB]
  have "exact A B w' ms (l_clear st) (l_clear st)" .
  moreover have "s_high (l_clear st) \<le> s_high st + 1" by (simp add: l_clear_def)
  ultimately show ?thesis using Op_clear w'(1) by auto
next
  case (Op_resize n)
  have t: "tinv A w stC st" and B: "B < 2 ^ 63" using e by (simp_all add: exact_def)
  show ?thesis
  proof (cases "n < a0_transport_used_space w")
    case True
    then have "op_run c op w = Some w" using Op_resize by (simp add: a0_transport_resize_def)
    then show ?thesis using e le_add1 by blast
  next
    case False
    have n: "s_hwm st \<le> n" "n < 2 ^ 63" "n \<le> B"
      using False tinvD(6) [OF t] op B Op_resize by (simp_all add: a0_transport_used_space_def page_at_def)
    let ?w = "wr 8 hdr_arena_size n w"
    have w': "op_run c op w = Some ?w" "a0_transport_resize n w = (A0_OK, ?w)"
      using False Op_resize by (simp_all add: a0_transport_resize_def)
    have t': "tinv n ?w stC st" using resize_op [OF t n(1,2)] w'(2) by auto
    have A: "144 \<le> A" "144 \<le> n" using log_ok_A tinvD(3) [OF t] tinvD(3) [OF t'] by blast+
    have o: "touches {136..<144} w ?w" by (rule touches_wr) (simp add: layout)
    have "touches {..<A} w ?w" using A(1) by (intro touches_mono [OF o]) auto
    moreover have "calm w ?w" by (intro calm_wr calm_refl) (simp add: layout)
    moreover have "tight stC" "tight st" "s_high stC \<le> s_high st" using e by (simp_all add: exact_def)
    ultimately have "exact n B ?w ms stC st" using exact_calm [OF e _ _ t' _ _ _ n(3)] by blast
    then show ?thesis using w'(1) le_add1 by blast
  qed
next
  case Op_relock
  have "s_high stC \<le> s_high st + 1" using e by (simp add: exact_def)
  then show ?thesis using exact_relock [OF e m] Op_relock by auto
qed

lemma exact_ops:
  assumes "exact A B w ms stC st" "arena_mode c = A0_ARENA_MODE_SHARED" "list_all (op_bounded B) ops"
    and "s_high st + length ops < 2 ^ 64"
  shows "\<exists>A' w' stC' st'. ops_run c ops w = Some w' \<and> exact A' B w' ms stC' st'"
  using assms
proof (induction ops arbitrary: A w stC st)
  case (Cons op ops)
  obtain A1 w1 stC1 st1 where 1: "op_run c op w = Some w1" "exact A1 B w1 ms stC1 st1" "s_high st1 \<le> s_high st + 1"
    using exact_op [OF Cons.prems(1,2), of op] Cons.prems(3,4) by auto
  then show ?case using Cons.IH [OF 1(2) Cons.prems(2)] Cons.prems(3,4) by auto
qed auto

section \<open>Space\<close>

text \<open>
  C11. Create a transport in a fresh arena, lock it, and run any sequence of allocations, commits,
  clears, resizes and relocks: it returns. Then \<^verbatim>\<open>a0_transport_used_space\<close> is the end of the frame that
  reaches furthest, of those that are left, or the start of the workspace when none is; and
  \<^verbatim>\<open>a0_transport_resize\<close> accepts precisely the sizes from there on: a smaller one is refused and
  changes nothing, any other becomes the arena size with every frame and its data kept.
\<close>

theorem transport_resize_spec:
  assumes "fresh (mm w)" "list_outside B w ms" "ld32 (mm w) (hdr_mtx + 16) = 0" "requeue_ok w" "no_waiters w"
    and "144 \<le> A" "A \<le> B" "B < 2 ^ 63" "list_all (op_bounded B) ops" "length ops < 2 ^ 64"
    and "a0_transport_init A A0_ARENA_MODE_SHARED w = (c, w0)" "n < 2 ^ 63"
  shows "\<exists>w' A' stC st. ops_run c ops (a0_transport_lock c w0) = Some w' \<and> tinv A' w' stC st \<and>
     a0_transport_used_space w' = (if frames st = [] then 144 else Max (f_end ` set (frames st))) \<and>
     (if n < a0_transport_used_space w' then a0_transport_resize n w' = (A0_ERR_INVALID_ARG, w')
      else \<exists>w''. a0_transport_resize n w' = (A0_OK, w'') \<and> tinv n w'' stC st \<and>
        contents (mm w'') st = contents (mm w') st)"
proof -
  have l: "list_outside A w ms" using assms(2,7) by (force simp: list_outside_def)
  have A: "A < 2 ^ 63" using assms(7,8) by simp
  obtain w1 where 1: "a0_transport_init A A0_ARENA_MODE_SHARED w = (new_conn A A0_ARENA_MODE_SHARED, w1)"
      "committed A (mm w1) empty_log" "list_outside A w1 ms" "ld32 (mm w1) (hdr_mtx + 16) = 0" "requeue_ok w1"
      "grew w w1 (\<lambda>m. fresh m \<or> committed A m empty_log)"
    using init_fresh [OF l assms(3,1,4,6) A] by blast
  have c: "c = new_conn A A0_ARENA_MODE_SHARED" "w0 = w1" using 1(1) assms(11) by simp_all
  have mode: "arena_mode c = A0_ARENA_MODE_SHARED" unfolding c by simp
  let ?l = "a0_transport_lock c w1"
  have lk: "tinv A ?l empty_log empty_log" "holds A ?l ms" "grew w1 ?l (\<lambda>m. leaves A w1 m empty_log)"
    using lock_free_correct [OF mode 1(3,4,2,5) A] by auto
  have ti: "tight empty_log" by (simp add: tight_def)
  have "no_waiters ?l" "rb_head ?l = rb_head w"
    using 1(6) lk(3) assms(5) by (simp_all add: no_waiters_def grew_def)
  then have "exact A B ?l ms empty_log empty_log"
    using lk(1,2) ti assms(2,7,8) by (simp add: exact_def list_outside_def)
  from exact_ops [OF this mode assms(9)] assms(10) obtain A' w' stC st where
    r: "ops_run c ops ?l = Some w'" "exact A' B w' ms stC st"
    by auto
  have t: "tinv A' w' stC st" and tight: "tight st" using r(2) by (simp_all add: exact_def)
  have used: "a0_transport_used_space w' = s_hwm st"
    using tinvD(6) [OF t] by (simp add: a0_transport_used_space_def page_at_def)
  have "\<exists>w''. a0_transport_resize n w' = (A0_OK, w'') \<and> tinv n w'' stC st \<and> contents (mm w'') st = contents (mm w') st"
    if n: "s_hwm st \<le> n"
  proof -
    obtain w'' where w'': "a0_transport_resize n w' = (A0_OK, w'')" "tinv n w'' stC st"
        "\<forall>x. x < hdr_arena_size \<or> hdr_arena_size + 8 \<le> x \<longrightarrow> mm w'' x = mm w' x"
      using resize_op [OF t n assms(12)] by blast
    have "only {..<144} (mm w') (mm w'')" using w''(3) by (auto simp: only_def layout)
    then show ?thesis using w''(1,2) contents_low [OF _ tinvD(3) [OF t]] by blast
  qed
  moreover have "a0_transport_resize n w' = (A0_ERR_INVALID_ARG, w')" if "n < s_hwm st"
    using that by (simp add: a0_transport_resize_def used)
  moreover have "s_hwm st = (if frames st = [] then 144 else Max (f_end ` set (frames st)))"
    using tight by (simp add: tight_def split: if_splits)
  ultimately show ?thesis
    using r(1) t c(2) used by (intro exI [of _ w'] exI [of _ A'] exI [of _ stC] exI [of _ st]) (simp add: not_less)
qed

lemma quiet_nobody: "no_waiters quiet_world"
  by (simp add: no_waiters_def quiet_world_def)

theorem transport_resize_spec_witness:
  "\<exists>c w0 w'. a0_transport_init 1000 A0_ARENA_MODE_SHARED quiet_world = (c, w0) \<and>
     ops_run c [Op_alloc 100, Op_commit, Op_relock, Op_alloc 50, Op_resize 600, Op_clear] (a0_transport_lock c w0) = Some w'"
proof -
  obtain c w0 where i: "a0_transport_init 1000 A0_ARENA_MODE_SHARED quiet_world = (c, w0)" by fastforce
  have free: "ld32 (mm quiet_world) (hdr_mtx + 16) = 0" using quiet_free [of 16] by (simp add: layout)
  show ?thesis
    using transport_resize_spec [OF quiet_fresh quiet_list free quiet_world(2) quiet_nobody, of 1000
        "[Op_alloc 100, Op_commit, Op_relock, Op_alloc 50, Op_resize 600, Op_clear]" c w0 0] i
    by auto
qed

end
