(* ===== verification/Strconv.thy ===== *)
theory Strconv
  imports Prelude
begin

text \<open>
  \<^verbatim>\<open>src/strconv.c\<close>: decimal numbers in character buffers. A buffer is the list of its bytes; a pointer
  into it is an index. \<open>None\<close> is a write in front of the buffer, which the source does not check for.
\<close>

section \<open>Printing\<close>

definition DECIMAL_DIGITS :: "u8 list" where
  "DECIMAL_DIGITS = concat (map (\<lambda>i. [word_of_nat (48 + i div 10), word_of_nat (48 + i mod 10)]) [0..<100])"

text \<open>Stores of a byte string at index \<open>p\<close>.\<close>

definition put_at :: "nat \<Rightarrow> u8 list \<Rightarrow> u8 list \<Rightarrow> u8 list" where
  "put_at p bs buf = take p buf @ bs @ drop (p + length bs) buf"

function u64_to_str_loop :: "nat \<Rightarrow> nat \<Rightarrow> u8 list \<Rightarrow> (nat \<times> nat \<times> u8 list) option" where
  "u64_to_str_loop val ptr buf =
     (if val \<ge> 10 then
        if ptr < 2 then None
        else
          let ptr = ptr - 2;
              buf = put_at ptr (take 2 (drop (2 * (val mod 100)) DECIMAL_DIGITS)) buf
          in u64_to_str_loop (val div 100) ptr buf
      else Some (val, ptr, buf))"
  by pat_completeness auto
termination by (relation "measure fst") auto

declare u64_to_str_loop.simps [simp del]

text \<open>The result is the buffer and the index where the number starts.\<close>

definition a0_u64_to_str :: "nat \<Rightarrow> u8 list \<Rightarrow> (u8 list \<times> nat) option" where
  "a0_u64_to_str val buf =
     Option.bind (u64_to_str_loop val (length buf) buf) (\<lambda>(v, ptr, buf).
     Option.bind (if v = 0 then Some (ptr, buf)
       else if ptr = 0 then None else Some (ptr - 1, put_at (ptr - 1) [word_of_nat (48 + v)] buf)) (\<lambda>(ptr, buf).
     let buf = put_at 0 (replicate ptr 48) buf
     in if val = 0 then (if ptr = 0 then None else Some (buf, ptr - 1)) else Some (buf, ptr)))"

definition a0_u32_to_str :: "nat \<Rightarrow> u8 list \<Rightarrow> (u8 list \<times> nat) option" where
  "a0_u32_to_str val buf = a0_u64_to_str val buf"

section \<open>Parsing\<close>

fun str_to_uint_loop :: "nat \<Rightarrow> u8 list \<Rightarrow> nat \<Rightarrow> a0_err + nat" where
  "str_to_uint_loop m [] out = Inr out"
| "str_to_uint_loop m (c # cs) out =
     (if c < 48 \<or> c > 57 then Inl A0_ERR_INVALID_ARG
      else str_to_uint_loop m cs (((out * 10) mod m + unat (c - 48)) mod m))"

definition a0_str_to_u64 :: "u8 list \<Rightarrow> a0_err + nat" where
  "a0_str_to_u64 s = str_to_uint_loop (2 ^ 64) s 0"

definition a0_str_to_u32 :: "u8 list \<Rightarrow> a0_err + nat" where
  "a0_str_to_u32 s = str_to_uint_loop (2 ^ 32) s 0"

section \<open>Decimal numerals\<close>

text \<open>The last \<open>n\<close> decimal digits of \<open>v\<close>, and the shortest numeral of \<open>v\<close>.\<close>

fun dec :: "nat \<Rightarrow> nat \<Rightarrow> u8 list" where
  "dec 0 v = []"
| "dec (Suc n) v = dec n (v div 10) @ [word_of_nat (48 + v mod 10)]"

function ndigits :: "nat \<Rightarrow> nat" where
  "ndigits v = (if v < 10 then 1 else Suc (ndigits (v div 10)))"
  by pat_completeness auto
termination by (relation "measure id") auto

declare ndigits.simps [simp del]

lemma length_dec [simp]: "length (dec n v) = n"
  by (induction n arbitrary: v) auto

lemma dec_numeral [simp]: "dec (numeral k) v = dec (pred_numeral k) (v div 10) @ [word_of_nat (48 + v mod 10)]"
  by (subst numeral_eq_Suc) (simp only: dec.simps)

lemma dec_add: "dec (m + n) v = dec m (v div 10 ^ n) @ dec n v"
  by (induction n arbitrary: v) (simp_all add: div_mult2_eq)

lemma dec_0: "dec n 0 = replicate n 48"
  by (induction n) (auto simp: replicate_append_same [symmetric])

lemma ndigits_bounds: "v < 10 ^ ndigits v" "0 < v \<Longrightarrow> 10 ^ (ndigits v - 1) \<le> v" "0 < ndigits v"
proof -
  show "v < 10 ^ ndigits v"
  proof (induction v rule: ndigits.induct)
    case (1 v)
    show ?case
    proof (cases "v < 10")
      case False
      then have "v div 10 + 1 \<le> 10 ^ ndigits (v div 10)" using 1 by (simp add: Suc_le_eq)
      then have "10 * (v div 10 + 1) \<le> 10 ^ ndigits v" using False by (subst ndigits.simps) simp
      then show ?thesis by simp
    qed (simp add: ndigits.simps)
  qed
  show "0 < ndigits v" by (subst ndigits.simps) simp
  show "0 < v \<Longrightarrow> 10 ^ (ndigits v - 1) \<le> v"
  proof (induction v rule: ndigits.induct)
    case (1 v)
    show ?case
    proof (cases "v < 10")
      case False
      have "0 < ndigits (v div 10)" by (subst ndigits.simps) simp
      then have "(10::nat) ^ (ndigits v - 1) = 10 * 10 ^ (ndigits (v div 10) - 1)"
        using False by (subst ndigits.simps) (simp flip: power_Suc)
      also have "\<dots> \<le> 10 * (v div 10)" using 1 False by simp
      finally show ?thesis by simp
    qed (use 1 in \<open>simp add: ndigits.simps\<close>)
  qed
qed

lemma ndigits_le: "v < 10 ^ n \<Longrightarrow> 0 < n \<Longrightarrow> ndigits v \<le> n"
proof (cases "v = 0")
  case False
  assume v: "v < 10 ^ n" and n: "0 < n"
  have "10 ^ (ndigits v - 1) \<le> v" using ndigits_bounds(2) False by simp
  then have "(10::nat) ^ (ndigits v - 1) < 10 ^ n" using v by (rule le_less_trans)
  then have "ndigits v - 1 < n" by (rule power_less_imp_less_exp [rotated]) simp
  then show ?thesis by simp
qed (simp add: ndigits.simps)

section \<open>Printing is correct\<close>

lemma decimal_pair: "n < 100 \<Longrightarrow> take 2 (drop (2 * n) DECIMAL_DIGITS) = dec 2 n"
proof -
  have "take 2 (drop (2 * n) (concat (map (\<lambda>i. [f i, g i]) [a..<b]))) = [f (a + n), g (a + n)]"
    if "a + n < b" for f g :: "nat \<Rightarrow> u8" and a b
    using that
  proof (induction n arbitrary: a)
    case 0
    then show ?case by (simp add: upt_conv_Cons numeral_2_eq_2)
  next
    case (Suc n)
    then show ?case using Suc.IH [of "Suc a"] by (simp add: upt_conv_Cons)
  qed
  then show "n < 100 \<Longrightarrow> ?thesis" by (simp add: DECIMAL_DIGITS_def numeral_2_eq_2)
qed

lemma put_at_front: "k + length bs \<le> length buf \<Longrightarrow> drop k (put_at k bs buf) = bs @ drop (k + length bs) buf"
  by (simp add: put_at_def)

lemma length_put_at [simp]: "k + length bs \<le> length buf \<Longrightarrow> length (put_at k bs buf) = length buf"
  by (simp add: put_at_def)

text \<open>The loop writes the low digits and leaves at most one.\<close>

lemma u64_to_str_loop_eq:
  assumes "v < 10 ^ p" "p \<le> length buf"
  shows "\<exists>r q buf'. u64_to_str_loop v p buf = Some (r, q, buf') \<and> r < 10 \<and> r = v div 10 ^ (p - q) \<and> q \<le> p \<and>
     (r \<noteq> 0 \<longrightarrow> 0 < q) \<and> (v \<noteq> 0 \<longrightarrow> ndigits v = p - q + (if r = 0 then 0 else 1)) \<and>
     length buf' = length buf \<and> drop q buf' = dec (p - q) v @ drop p buf"
  using assms
proof (induction v p buf rule: u64_to_str_loop.induct)
  case (1 v p buf)
  show ?case
  proof (cases "10 \<le> v")
    case False
    then have "v \<noteq> 0 \<longrightarrow> 0 < p" using "1.prems"(1) by (cases p) auto
    moreover have "v \<noteq> 0 \<longrightarrow> ndigits v = 1" using False by (simp add: ndigits.simps)
    ultimately show ?thesis using False by (subst u64_to_str_loop.simps) (use "1.prems" in auto)
  next
    case True
    then have p: "2 \<le> p" using "1.prems"(1) by (cases p; cases "p - 1") auto
    let ?buf = "put_at (p - 2) (take 2 (drop (2 * (v mod 100)) DECIMAL_DIGITS)) buf"
    have pair: "take 2 (drop (2 * (v mod 100)) DECIMAL_DIGITS) = dec 2 (v mod 100)" by (rule decimal_pair) simp
    have "v mod 100 = 10 * (v div 10 mod 10) + v mod 10" using mod_mult2_eq [of v 10 10] by simp
    then have "v mod 100 mod 10 = v mod 10" "v mod 100 div 10 mod 10 = v div 10 mod 10" by simp_all
    then have dec2: "dec 2 (v mod 100) = dec 2 v" by (simp add: numeral_2_eq_2)
    have len: "length ?buf = length buf" using p "1.prems"(2) by (simp add: pair)
    have split: "p = p - 2 + 2" using p by simp
    have "v < 10 ^ (p - 2) * 100" using "1.prems"(1) by (subst (asm) split) (simp add: power_add)
    then have small: "v div 100 < 10 ^ (p - 2)" by (simp add: less_mult_imp_div_less)
    have "p - 2 \<le> length ?buf" "\<not> p < 2" using p len "1.prems"(2) by simp_all
    note ih = "1.IH" [OF True this(2) refl refl small this(1)]
    obtain r q buf' where ih: "u64_to_str_loop (v div 100) (p - 2) ?buf = Some (r, q, buf')" "r < 10"
        "r = v div 100 div 10 ^ (p - 2 - q)" "q \<le> p - 2" "r \<noteq> 0 \<longrightarrow> 0 < q"
        "v div 100 \<noteq> 0 \<longrightarrow> ndigits (v div 100) = p - 2 - q + (if r = 0 then 0 else 1)"
        "length buf' = length buf" "drop q buf' = dec (p - 2 - q) (v div 100) @ drop (p - 2) ?buf"
      using ih [unfolded len] by blast
    have pq: "p - q = p - 2 - q + 2" using ih(4) p by simp
    have "drop (p - 2) ?buf = dec 2 v @ drop p buf"
    proof -
      have "p - 2 + length (dec 2 v) = p" using p by simp
      then show ?thesis using put_at_front [of "p - 2" "dec 2 v" buf] "1.prems"(2) by (simp only: pair dec2)
    qed
    then have "drop q buf' = dec (p - q) v @ drop p buf"
      unfolding ih(8) pq dec_add by simp
    moreover have "r = v div 10 ^ (p - q)"
      unfolding ih(3) pq by (simp add: power_add div_mult2_eq [symmetric] mult.commute)
    moreover have "ndigits v = p - q + (if r = 0 then 0 else 1)"
    proof -
      have "ndigits v = Suc (ndigits (v div 10))" using True by (subst ndigits.simps) simp
      moreover have "ndigits (v div 10) = (if v div 10 < 10 then 1 else Suc (ndigits (v div 100)))"
        by (subst ndigits.simps) (simp add: div_mult2_eq [symmetric])
      moreover have "v div 10 < 10 \<longleftrightarrow> v div 100 = 0" by auto
      moreover have "v div 100 = 0 \<longrightarrow> r = 0 \<and> p - 2 - q = 0"
      proof
        assume z: "v div 100 = 0"
        then have "u64_to_str_loop (v div 100) (p - 2) ?buf = Some (0, p - 2, ?buf)"
          by (subst u64_to_str_loop.simps) simp
        then show "r = 0 \<and> p - 2 - q = 0" using ih(1) by simp
      qed
      ultimately show ?thesis using ih(6) pq by (cases "v div 100 = 0") auto
    qed
    moreover have "u64_to_str_loop v p buf = Some (r, q, buf')"
      using True p ih(1) by (subst u64_to_str_loop.simps) (simp add: Let_def)
    ultimately show ?thesis using ih(2,4,5,7) by auto
  qed
qed

lemma u64_to_str_eq:
  assumes "v < 10 ^ length buf" "buf \<noteq> []"
  shows "a0_u64_to_str v buf = Some (dec (length buf) v, length buf - ndigits v)"
proof -
  let ?n = "length buf"
  obtain r q b where l: "u64_to_str_loop v ?n buf = Some (r, q, b)" "r < 10" "r = v div 10 ^ (?n - q)" "q \<le> ?n"
      "r \<noteq> 0 \<longrightarrow> 0 < q" "v \<noteq> 0 \<longrightarrow> ndigits v = ?n - q + (if r = 0 then 0 else 1)"
      "length b = ?n" "drop q b = dec (?n - q) v"
    using u64_to_str_loop_eq [OF assms(1) order.refl] by auto
  define p where "p = (if r = 0 then q else q - 1)"
  define b' where "b' = (if r = 0 then b else put_at (q - 1) [word_of_nat (48 + r)] b)"
  have p: "p \<le> ?n" "v \<noteq> 0 \<longrightarrow> ndigits v = ?n - p" using l(4-6) by (auto simp: p_def)
  have len: "length b' = ?n" using l(4,5,7) by (auto simp: b'_def)
  have low: "drop p b' = dec (?n - p) v" and small: "v div 10 ^ (?n - p) = 0"
  proof -
    have "drop p b' = dec (?n - p) v \<and> v div 10 ^ (?n - p) = 0"
    proof (cases "r = 0")
      case False
      then have q: "?n - (q - 1) = 1 + (?n - q)" using l(4,5) by simp
      have "drop (q - 1) b' = [word_of_nat (48 + r)] @ dec (?n - q) v"
        using False l(4,5,7,8) put_at_front [of "q - 1" "[word_of_nat (48 + r)]" b] by (simp add: b'_def)
      moreover have "dec (1 + (?n - q)) v = [word_of_nat (48 + r)] @ dec (?n - q) v"
        unfolding dec_add using l(2,3) by simp
      moreover have "v div 10 ^ (1 + (?n - q)) = r div 10" unfolding l(3) by (simp add: div_mult2_eq [symmetric] mult.commute)
      ultimately show ?thesis using False l(2) q by (simp add: p_def)
    qed (use l(3,8) in \<open>simp add: p_def b'_def\<close>)
    then show "drop p b' = dec (?n - p) v" "v div 10 ^ (?n - p) = 0" by simp_all
  qed
  have "put_at 0 (replicate p 48) b' = replicate p 48 @ dec (?n - p) v"
    using low by (simp add: put_at_def)
  also have "\<dots> = dec (p + (?n - p)) v" unfolding dec_add small by (simp add: dec_0)
  finally have b: "put_at 0 (replicate p 48) b' = dec ?n v" using p(1) by simp
  have step: "a0_u64_to_str v buf = (let buf = put_at 0 (replicate p 48) b'
     in if v = 0 then (if p = 0 then None else Some (buf, p - 1)) else Some (buf, p))"
    using l(1,5) unfolding a0_u64_to_str_def p_def b'_def by (cases "r = 0"; cases "v = 0") simp_all
  show ?thesis
  proof (cases "v = 0")
    case True
    then have "u64_to_str_loop v ?n buf = Some (0, ?n, buf)" by (simp add: u64_to_str_loop.simps)
    then have "p = ?n" using l(1) by (simp add: p_def)
    then show ?thesis using step b True assms(2) by (simp add: ndigits.simps)
  next
    case False
    then have "ndigits v = ?n - p" using p(2) by simp
    then show ?thesis using step b False p(1) by simp
  qed
qed

section \<open>Parsing is correct\<close>

lemma digit_char: "d < 10 \<Longrightarrow> unat (word_of_nat (48 + d) - 48 :: u8) = d"
  by (simp add: unat_of_nat)

lemma digit_ok: "d < 10 \<Longrightarrow> \<not> word_of_nat (48 + d) < (48 :: u8) \<and> \<not> word_of_nat (48 + d) > (57 :: u8)"
  by (simp add: word_less_nat_alt unat_of_nat del: of_nat_add)

lemma str_to_uint_append: "str_to_uint_loop m (xs @ ys) out =
    (case str_to_uint_loop m xs out of Inl e \<Rightarrow> Inl e | Inr out \<Rightarrow> str_to_uint_loop m ys out)"
  by (induction m xs out rule: str_to_uint_loop.induct) auto

lemma str_to_uint_dec: "10 ^ n \<le> m \<Longrightarrow> str_to_uint_loop m (dec n v) 0 = Inr (v mod 10 ^ n)"
proof (induction n arbitrary: v)
  case (Suc n)
  let ?d = "v mod 10" and ?h = "v div 10 mod 10 ^ n"
  have h: "?h * 10 + ?d = v mod 10 ^ Suc n"
    using mod_mult2_eq [of v 10 "10 ^ n"] by simp
  have "10 ^ n \<le> m" using Suc.prems by simp
  then have ih: "str_to_uint_loop m (dec n (v div 10)) 0 = Inr ?h" by (rule Suc.IH)
  have d: "?d < 10" by simp
  have "v mod 10 ^ Suc n < m" using Suc.prems by (rule order.strict_trans2 [rotated]) simp
  then have small: "?h * 10 + ?d < m" unfolding h .
  then have "(?h * 10 mod m + ?d) mod m = ?h * 10 + ?d" by simp
  then show ?case
    using ih digit_char [OF d] digit_ok [OF d] h
    by (simp add: str_to_uint_append del: of_nat_add)
qed simp

text \<open>A number too large for the buffer is written past its front.\<close>

lemma u64_to_str_loop_over:
  "10 ^ p \<le> v \<Longrightarrow> case u64_to_str_loop v p buf of None \<Rightarrow> True | Some (r, q, b) \<Rightarrow> q = 0 \<and> r \<noteq> 0"
proof (induction v p buf rule: u64_to_str_loop.induct)
  case (1 v p buf)
  show ?case
  proof (cases "10 \<le> v \<and> 2 \<le> p")
    case True
    have split: "p = p - 2 + 2" using True by linarith
    have "10 ^ (p - 2) * 100 \<le> v" using "1.prems" by (subst (asm) split) (simp add: power_add)
    then have "10 ^ (p - 2) \<le> v div 100" by (simp add: less_eq_div_iff_mult_less_eq)
    then show ?thesis using "1.IH" True by (subst u64_to_str_loop.simps) (simp add: Let_def)
  next
    case False
    have "p \<noteq> 0 \<Longrightarrow> (10::nat) \<le> 10 ^ p" by (cases p) simp_all
    then have "10 \<le> v \<and> p < 2 \<or> v < 10 \<and> p = 0 \<and> v \<noteq> 0" using False "1.prems" by (cases "p = 0") auto
    then show ?thesis by (elim disjE; simp add: u64_to_str_loop.simps)
  qed
qed

lemma u64_to_str_none:
  assumes "\<not> (v < 10 ^ length buf \<and> buf \<noteq> [])"
  shows "a0_u64_to_str v buf = None"
proof (cases "buf = []")
  case True
  then show ?thesis by (cases "v = 0") (auto simp: a0_u64_to_str_def u64_to_str_loop.simps)
next
  case ne: False
  then have "10 ^ length buf \<le> v" using assms by simp
  from u64_to_str_loop_over [OF this, of buf] show ?thesis
    by (cases "u64_to_str_loop v (length buf) buf") (auto simp: a0_u64_to_str_def)
qed

section \<open>Properties\<close>

text \<open>
  \<^verbatim>\<open>a0_u64_to_str\<close> fills the whole buffer with the decimal digits of the value, zeros in front,
  and returns where the shortest numeral starts (one digit for 0); parsing the buffer, or the
  numeral, gives the value back. It stays inside the buffer exactly when the value has no more
  digits than the buffer has bytes.
\<close>

theorem u64_to_str_spec:
  "if v < 10 ^ length buf \<and> buf \<noteq> [] then
     a0_u64_to_str v buf = Some (dec (length buf) v, length buf - ndigits v) \<and>
     drop (length buf - ndigits v) (dec (length buf) v) = dec (ndigits v) v \<and>
     (v < 2 ^ 64 \<longrightarrow> length buf \<le> 19 \<longrightarrow> a0_str_to_u64 (dec (length buf) v) = Inr v \<and>
        a0_str_to_u64 (dec (ndigits v) v) = Inr v)
   else a0_u64_to_str v buf = None"
proof (cases "v < 10 ^ length buf \<and> buf \<noteq> []")
  case True
  let ?n = "length buf" and ?k = "ndigits v"
  have k: "?k \<le> ?n" using True ndigits_le [of v ?n] by simp
  then have "dec (?n - ?k + ?k) v = dec (?n - ?k) (v div 10 ^ ?k) @ dec ?k v" by (intro dec_add)
  then have "drop (?n - ?k) (dec ?n v) = dec ?k v" using k by simp
  moreover have "a0_str_to_u64 (dec m v) = Inr v" if "v < 10 ^ m" "m \<le> 19" for m
  proof -
    have "(10::nat) ^ m \<le> 10 ^ 19" using that(2) by (intro power_increasing) auto
    then have "(10::nat) ^ m \<le> 2 ^ 64" by simp
    then show ?thesis using str_to_uint_dec [of m "2 ^ 64" v] that(1) by (simp add: a0_str_to_u64_def)
  qed
  ultimately show ?thesis using True u64_to_str_eq [of v buf] k ndigits_bounds(1) [of v] by simp
next
  case False
  have "a0_u64_to_str v buf = None" by (rule u64_to_str_none [OF False])
  then show ?thesis using False by simp
qed

theorem u64_to_str_spec_witness:
  "a0_u64_to_str 1070 (replicate 6 0) = Some ([48, 48, 49, 48, 55, 48], 2) \<and> a0_u64_to_str 1070 (replicate 3 0) = None"
  using u64_to_str_spec [of 1070 "replicate 6 0"] u64_to_str_spec [of 1070 "replicate 3 0"]
  by (simp add: ndigits.simps)

end
