(* ===== verification/Time.thy ===== *)
theory Time
  imports Clock Strconv
begin

text \<open>
  \<^verbatim>\<open>src/time.c\<close>: monotonic and wall clock times and their text forms. The calendar functions of the C
  library that it uses, \<^verbatim>\<open>gmtime_r\<close> and \<^verbatim>\<open>timegm\<close>, are modelled on the proleptic Gregorian calendar.
\<close>

section \<open>Monotonic time\<close>

definition a0_time_mono_now :: "world \<Rightarrow> (a0_err + timespec) \<times> world" where
  "a0_time_mono_now w = a0_clock_now CLOCK_BOOTTIME w"

text \<open>\<open>mono_str\<close> is the 20-byte buffer before the call. \<open>None\<close>: digits are written in front of it.\<close>

definition a0_time_mono_str :: "timespec \<Rightarrow> u8 list \<Rightarrow> u8 list option" where
  "a0_time_mono_str time_mono mono_str =
     (let ns = ns_u64 time_mono;
          mono_str = mono_str[19 := 0]
      in map_option (\<lambda>(digits, _). digits @ drop 19 mono_str) (a0_u64_to_str ns (take 19 mono_str)))"

definition a0_time_mono_parse :: "u8 list \<Rightarrow> a0_err + timespec" where
  "a0_time_mono_parse mono_str =
     (case a0_str_to_u64 (take 19 mono_str) of
        Inl e \<Rightarrow> Inl e
      | Inr ns \<Rightarrow> Inr \<lparr>tv_sec = int ns div NS_PER_SEC, tv_nsec = int ns mod NS_PER_SEC\<rparr>)"

definition a0_time_mono_add :: "timespec \<Rightarrow> int \<Rightarrow> timespec" where
  "a0_time_mono_add time_mono add_nsec = a0_clock_add time_mono add_nsec"

section \<open>The calendar\<close>

record tm =
  tm_year :: int
  tm_mon :: int
  tm_mday :: int
  tm_hour :: int
  tm_min :: int
  tm_sec :: int

definition leap_year :: "int \<Rightarrow> bool" where
  "leap_year y \<longleftrightarrow> y mod 4 = 0 \<and> (y mod 100 \<noteq> 0 \<or> y mod 400 = 0)"

text \<open>Days from 1970-01-01 to the first day of a year.\<close>

definition year_days :: "int \<Rightarrow> int" where
  "year_days y = 365 * (y - 1970) + ((y - 1) div 4 - (y - 1) div 100 + (y - 1) div 400) - 477"

definition month_len :: "int \<Rightarrow> int \<Rightarrow> int" where
  "month_len y m = (if m = 1 then if leap_year y then 29 else 28
     else if m \<in> {3, 5, 8, 10} then 30 else 31)"

text \<open>Days from the first day of a year to the first day of a month (0 is January).\<close>

definition month_days :: "int \<Rightarrow> int \<Rightarrow> int" where
  "month_days y m = (\<Sum>i\<leftarrow>[0..m - 1]. month_len y i)"

definition timegm :: "tm \<Rightarrow> int" where
  "timegm t =
     (let y = tm_year t + 1900 + tm_mon t div 12; m = tm_mon t mod 12
      in (((year_days y + month_days y m + tm_mday t - 1) * 24 + tm_hour t) * 60 + tm_min t) * 60 + tm_sec t)"

function find_year :: "int \<Rightarrow> int \<Rightarrow> int" where
  "find_year days y = (if days < year_days (y + 1) then y else find_year days (y + 1))"
  by pat_completeness auto

lemma div_pred:
  fixes z k :: int
  assumes "0 < k"
  shows "z div k = (z - 1) div k + (if z mod k = 0 then 1 else 0)"
proof -
  define q r where "q = (z - 1) div k" and "r = (z - 1) mod k"
  have z: "z = k * q + (r + 1)" using mult_div_mod_eq [of k "z - 1"] by (simp add: q_def r_def)
  have r: "0 \<le> r" "r < k" using assms by (simp_all add: r_def)
  show ?thesis
  proof (cases "r + 1 = k")
    case True
    then have "z = k * (q + 1)" using z by (simp add: algebra_simps)
    then have "z div k = q + 1" "z mod k = 0" using assms by simp_all
    then show ?thesis by (simp only: q_def) simp
  next
    case False
    then have "z div k = q" "z mod k = r + 1"
      using int_div_pos_eq [OF z] int_mod_pos_eq [OF z] r by simp_all
    then show ?thesis using r by (simp add: q_def [symmetric])
  qed
qed

lemma year_step: "year_days (y + 1) = year_days y + (if leap_year y then 366 else 365)"
proof -
  have sum: "365 * (y + 1 - 1970) + (a - b + c) - 477 =
      365 * (y - 1970) + (a' - b' + c') - 477 + (if p \<and> (\<not> q \<or> r) then 366 else 365)"
    if "a = a' + (if p then 1 else 0)" "b = b' + (if q then 1 else 0)" "c = c' + (if r then 1 else 0)"
      "q \<longrightarrow> p" "r \<longrightarrow> q" for a a' b b' c c' :: int and p q r
    using that by (cases p; cases q; cases r; simp)
  have "y mod 100 = 0 \<longrightarrow> y mod 4 = 0" "y mod 400 = 0 \<longrightarrow> y mod 100 = 0"
    using dvd_trans [of 4 100 y] dvd_trans [of 100 400 y] by (simp_all add: mod_eq_0_iff_dvd)
  then show ?thesis
    unfolding year_days_def leap_year_def add_diff_cancel_right' by (intro sum div_pred) simp_all
qed

termination find_year
  by (relation "measure (\<lambda>(days, y). nat (days - year_days y))") (auto simp: year_step split: if_splits)

declare find_year.simps [simp del]

function find_month :: "int \<Rightarrow> int \<Rightarrow> int \<Rightarrow> int \<times> int" where
  "find_month y m d = (if m \<ge> 11 \<or> d < month_len y m then (m, d) else find_month y (m + 1) (d - month_len y m))"
  by pat_completeness auto
termination by (relation "measure (\<lambda>(y, m, d). nat (12 - m))") auto

declare find_month.simps [simp del]

definition gmtime_r :: "int \<Rightarrow> tm" where
  "gmtime_r s =
     (let days = s div 86400; r = s mod 86400;
          y = find_year days (if days \<ge> 0 then 1970 + days div 366 else 1970 + days div 365);
          (m, d) = find_month y 0 (days - year_days y)
      in \<lparr>tm_year = y - 1900, tm_mon = m, tm_mday = d + 1,
           tm_hour = r div 3600, tm_min = r mod 3600 div 60, tm_sec = r mod 60\<rparr>)"

section \<open>Wall time\<close>

definition a0_time_wall_now :: "world \<Rightarrow> (a0_err + timespec) \<times> world" where
  "a0_time_wall_now w = a0_clock_now CLOCK_REALTIME w"

text \<open>\<^verbatim>\<open>%d\<close>, \<^verbatim>\<open>%02d\<close> and \<^verbatim>\<open>%09ld\<close>: at least the given number of digits.\<close>

definition fmt_int :: "nat \<Rightarrow> int \<Rightarrow> u8 list" where
  "fmt_int n i = (if i < 0 then 45 # dec (max (n - 1) (ndigits (nat (- i)))) (nat (- i))
     else dec (max n (ndigits (nat i))) (nat i))"

text \<open>
  \<^verbatim>\<open>strftime\<close> with the format of the source. Where the result with its null byte exceeds the 20 bytes
  allowed the contents of the buffer are unspecified: \<open>None\<close>.
\<close>

definition strftime_wall :: "tm \<Rightarrow> u8 list option" where
  "strftime_wall t =
     (let s = fmt_int 1 (tm_year t + 1900) @ [45] @ fmt_int 2 (tm_mon t + 1) @ [45] @ fmt_int 2 (tm_mday t) @ [84] @
          fmt_int 2 (tm_hour t) @ [58] @ fmt_int 2 (tm_min t) @ [58] @ fmt_int 2 (tm_sec t)
      in if length s + 1 \<le> 20 then Some (s @ [0]) else None)"

text \<open>\<^verbatim>\<open>-00:00\<close>\<close>

definition UTC_OFFSET :: "u8 list" where
  "UTC_OFFSET = [45, 48, 48, 58, 48, 48]"

definition a0_time_wall_str :: "timespec \<Rightarrow> u8 list \<Rightarrow> u8 list option" where
  "a0_time_wall_str wall_time wall_str =
     Option.bind (strftime_wall (gmtime_r (tv_sec wall_time))) (\<lambda>s.
       let wall_str = put_at 0 s wall_str;
           wall_str = put_at 19 (take 16 ([46] @ fmt_int 9 (tv_nsec wall_time) @ UTC_OFFSET) @ [0]) wall_str
       in Some (wall_str[35 := 0]))"

text \<open>One field: the characters from \<open>a\<close> up to \<open>b\<close> as a number.\<close>

definition field :: "u8 list \<Rightarrow> nat \<Rightarrow> nat \<Rightarrow> a0_err + nat" where
  "field s a b = a0_str_to_u32 (take (b - a) (drop a s))"

definition a0_time_wall_parse :: "u8 list \<Rightarrow> a0_err + timespec" where
  "a0_time_wall_parse s =
    (case field s 0 4 of Inl e \<Rightarrow> Inl e | Inr year \<Rightarrow>
     if s ! 4 \<noteq> 45 then Inl A0_ERR_INVALID_ARG else
     case field s 5 7 of Inl e \<Rightarrow> Inl e | Inr mon \<Rightarrow>
     if mon < 1 \<or> mon > 12 then Inl A0_ERR_INVALID_ARG else
     if s ! 7 \<noteq> 45 then Inl A0_ERR_INVALID_ARG else
     case field s 8 10 of Inl e \<Rightarrow> Inl e | Inr mday \<Rightarrow>
     if mday < 1 \<or> mday > 31 then Inl A0_ERR_INVALID_ARG else
     if s ! 10 \<noteq> 84 then Inl A0_ERR_INVALID_ARG else
     case field s 11 13 of Inl e \<Rightarrow> Inl e | Inr hour \<Rightarrow>
     if hour > 24 then Inl A0_ERR_INVALID_ARG else
     if s ! 13 \<noteq> 58 then Inl A0_ERR_INVALID_ARG else
     case field s 14 16 of Inl e \<Rightarrow> Inl e | Inr minute \<Rightarrow>
     if minute > 60 then Inl A0_ERR_INVALID_ARG else
     if s ! 16 \<noteq> 58 then Inl A0_ERR_INVALID_ARG else
     case field s 17 19 of Inl e \<Rightarrow> Inl e | Inr sec \<Rightarrow>
     if sec > 61 then Inl A0_ERR_INVALID_ARG else
     if s ! 19 \<noteq> 46 then Inl A0_ERR_INVALID_ARG else
     if take 6 (drop 29 s) \<noteq> UTC_OFFSET then Inl A0_ERR_INVALID_ARG else
     let t = timegm \<lparr>tm_year = int year - 1900, tm_mon = int mon - 1, tm_mday = int mday,
           tm_hour = int hour, tm_min = int minute, tm_sec = int sec\<rparr>
     in case a0_str_to_u64 (take 9 (drop 20 s)) of
          Inl e \<Rightarrow> Inl e
        | Inr nsec \<Rightarrow> Inr \<lparr>tv_sec = t, tv_nsec = int nsec\<rparr>)"

section \<open>The calendar functions are inverse\<close>

lemma find_year_range:
  "year_days y \<le> days \<Longrightarrow> year_days (find_year days y) \<le> days \<and> days < year_days (find_year days y + 1)"
proof (induction days y rule: find_year.induct)
  case (1 days y)
  then show ?case by (subst (1 2) find_year.simps) auto
qed

lemma year_days_mono: "y \<le> z \<Longrightarrow> year_days y \<le> year_days z"
proof (induction "nat (z - y)" arbitrary: z)
  case (Suc n)
  then have "n = nat (z - 1 - y)" "y \<le> z - 1" by auto
  then have "year_days y \<le> year_days (z - 1)" by (rule Suc.hyps(1))
  then show ?case using year_step [of "z - 1"] by (simp split: if_splits)
qed simp

lemma year_guess: "year_days (if days \<ge> 0 then 1970 + days div 366 else 1970 + days div 365) \<le> days"
proof -
  have up: "year_days (1970 + int n) \<le> 366 * int n" for n
  proof (induction n)
    case (Suc n)
    then show ?case using year_step [of "1970 + int n"] by (simp add: algebra_simps split: if_splits)
  qed (simp add: year_days_def)
  have down: "year_days (1970 - int n) \<le> - 365 * int n" for n
  proof (induction n)
    case (Suc n)
    then show ?case using year_step [of "1970 - int (Suc n)"] by (simp add: algebra_simps split: if_splits)
  qed (simp add: year_days_def)
  show ?thesis
  proof (cases "days \<ge> 0")
    case True
    then have "0 \<le> days div 366" by (simp add: pos_imp_zdiv_nonneg_iff)
    then show ?thesis using True up [of "nat (days div 366)"] mult_div_mod_eq [of 366 days] pos_mod_sign [of 366 days]
      by simp
  next
    case False
    then have "0 \<le> - (days div 365)" by (simp add: div_nonpos_pos_le0)
    then show ?thesis
      using False down [of "nat (- (days div 365))"] mult_div_mod_eq [of 365 days] pos_mod_sign [of 365 days] by simp
  qed
qed

lemma month_days_step: "0 \<le> m \<Longrightarrow> month_days y (m + 1) = month_days y m + month_len y m"
  by (simp add: month_days_def upto_rec2)

lemma find_month_range:
  "0 \<le> m \<Longrightarrow> m \<le> 11 \<Longrightarrow> 0 \<le> d \<Longrightarrow> month_days y m + d < month_days y 12 \<Longrightarrow>
     case find_month y m d of (m', d') \<Rightarrow> 0 \<le> m' \<and> m' \<le> 11 \<and> 0 \<le> d' \<and> d' < month_len y m' \<and>
       month_days y m' + d' = month_days y m + d"
proof (induction y m d rule: find_month.induct)
  case (1 y m d)
  show ?case
  proof (cases "11 \<le> m \<or> d < month_len y m")
    case True
    moreover have "d < month_len y m" if "m = 11"
      using "1.prems"(4) month_days_step [of 11 y] that by simp
    ultimately show ?thesis using "1.prems" by (subst find_month.simps) auto
  next
    case False
    then show ?thesis
      using "1.IH" [OF False] "1.prems" month_days_step [of m y] by (subst find_month.simps) auto
  qed
qed

lemma year_len: "month_days y 12 = year_days (y + 1) - year_days y"
proof -
  have "[0..11] = [0, 1, 2, 3, 4, 5, 6, 7, 8, 9, 10, 11 :: int]" by (simp add: upto_rec1)
  then show ?thesis by (simp add: month_days_def month_len_def year_step)
qed

lemma month_len_31: "month_len y m \<le> 31"
  by (simp add: month_len_def)

lemma hms: "(r div 3600 * 60 + r mod 3600 div 60) * 60 + r mod 60 = (r :: int)"
proof -
  have sum: "(a * 60 + c) * 60 + e = r" if "3600 * a + b = r" "60 * c + e = b" for a b c e :: int
    using that by simp
  have "r mod 3600 mod 60 = r mod 60" by (rule mod_mod_cancel) simp
  then have "60 * (r mod 3600 div 60) + r mod 60 = r mod 3600" using mult_div_mod_eq [of 60 "r mod 3600"] by metis
  with mult_div_mod_eq [of 3600 r] show ?thesis by (rule sum)
qed

lemma gmtime_spec:
  fixes s :: int
  defines "t \<equiv> gmtime_r s"
  shows "timegm t = s" "0 \<le> tm_mon t" "tm_mon t \<le> 11" "1 \<le> tm_mday t" "tm_mday t \<le> month_len (tm_year t + 1900) (tm_mon t)"
    "0 \<le> tm_hour t" "tm_hour t < 24" "0 \<le> tm_min t" "tm_min t < 60" "0 \<le> tm_sec t" "tm_sec t < 60"
    "year_days (tm_year t + 1900) \<le> s div 86400" "s div 86400 < year_days (tm_year t + 1901)"
proof -
  let ?days = "s div 86400" and ?r = "s mod 86400"
  define y where "y = find_year ?days (if ?days \<ge> 0 then 1970 + ?days div 366 else 1970 + ?days div 365)"
  obtain m d where md: "find_month y 0 (?days - year_days y) = (m, d)" by fastforce
  have y: "year_days y \<le> ?days" "?days < year_days (y + 1)"
    unfolding y_def using find_year_range [OF year_guess] by blast+
  have m: "0 \<le> m" "m \<le> 11" "0 \<le> d" "d < month_len y m" "month_days y m + d = ?days - year_days y"
    using find_month_range [of 0 "?days - year_days y" y] y year_len [of y] md by (simp_all add: month_days_def)
  have t: "t = \<lparr>tm_year = y - 1900, tm_mon = m, tm_mday = d + 1,
           tm_hour = ?r div 3600, tm_min = ?r mod 3600 div 60, tm_sec = ?r mod 60\<rparr>"
    unfolding t_def gmtime_r_def Let_def y_def [symmetric] md by simp
  show "0 \<le> tm_mon t" "tm_mon t \<le> 11" "1 \<le> tm_mday t" "tm_mday t \<le> month_len (tm_year t + 1900) (tm_mon t)"
    "year_days (tm_year t + 1900) \<le> ?days" "?days < year_days (tm_year t + 1901)"
    using m y by (simp_all add: t add.commute)
  have r: "0 \<le> ?r" "?r < 86400" by simp_all
  moreover have "?r div 3600 \<le> 86399 div 3600" "?r mod 3600 div 60 \<le> 3599 div 60"
    using r by (auto intro!: zdiv_mono1 simp: zle_diff1_eq [symmetric] simp del: zle_diff1_eq)
  ultimately show "0 \<le> tm_hour t" "tm_hour t < 24" "0 \<le> tm_min t" "tm_min t < 60" "0 \<le> tm_sec t" "tm_sec t < 60"
    by (simp_all add: t pos_imp_zdiv_nonneg_iff)
  have clock: "(?r div 3600 * 60 + ?r mod 3600 div 60) * 60 + ?r mod 60 = ?r" by (rule hms)
  have "m div 12 = 0" "m mod 12 = m" using m(1,2) by simp_all
  then have "timegm t = ((year_days y + month_days y m + d) * 24 + ?r div 3600) * 60 * 60 + (?r mod 3600 div 60) * 60 + ?r mod 60"
    by (simp add: t timegm_def algebra_simps)
  also have "\<dots> = (year_days y + month_days y m + d) * 86400 + ((?r div 3600 * 60 + ?r mod 3600 div 60) * 60 + ?r mod 60)"
    by (simp add: algebra_simps)
  also have "\<dots> = ?days * 86400 + ?r" 
  proof -
    have "year_days y + month_days y m + d = ?days" using m(5) by simp
    then show ?thesis unfolding clock by (simp only:)
  qed
  also have "\<dots> = s" by (rule div_mult_mod_eq)
  finally show "timegm t = s" .
qed

section \<open>Round trips\<close>

lemma field_dec:
  assumes "b = a + k" "a + k \<le> length s" "take k (drop a s) = dec k v" "v < 10 ^ k" "k \<le> 9"
  shows "field s a b = Inr v"
proof -
  have "(10::nat) ^ k \<le> 10 ^ 9" using assms(5) by (intro power_increasing) auto
  then have "(10::nat) ^ k \<le> 2 ^ 32" by simp
  then show ?thesis using str_to_uint_dec [of k "2 ^ 32" v] assms by (simp add: field_def a0_str_to_u32_def)
qed

lemma fmt_int_dec: "0 \<le> i \<Longrightarrow> i < 10 ^ n \<Longrightarrow> 0 < n \<Longrightarrow> fmt_int n i = dec n (nat i)"
proof -
  assume i: "0 \<le> i" "i < 10 ^ n" "0 < n"
  then have "nat i < 10 ^ n" by (simp add: nat_less_iff)
  then have "ndigits (nat i) \<le> n" using i(3) by (rule ndigits_le)
  then show ?thesis using i by (simp add: fmt_int_def)
qed

text \<open>Years with four digits.\<close>

definition four_digit_year :: "int \<Rightarrow> bool" where
  "four_digit_year s \<longleftrightarrow> year_days 1000 \<le> s div 86400 \<and> s div 86400 < year_days 10000"

lemma gmtime_year:
  assumes "four_digit_year s"
  shows "1000 \<le> tm_year (gmtime_r s) + 1900" "tm_year (gmtime_r s) + 1900 \<le> 9999"
proof -
  let ?y = "tm_year (gmtime_r s)"
  have "\<not> ?y + 1901 \<le> 1000" using gmtime_spec(13) [of s] year_days_mono [of "?y + 1901" 1000] assms
    by (auto simp: four_digit_year_def)
  moreover have "\<not> 10000 \<le> ?y + 1900" using gmtime_spec(12) [of s] year_days_mono [of 10000 "?y + 1900"] assms
    by (auto simp: four_digit_year_def)
  ultimately show "1000 \<le> ?y + 1900" "?y + 1900 \<le> 9999" by auto
qed

text \<open>The text of a wall time, field by field.\<close>

definition wall_text :: "timespec \<Rightarrow> u8 list" where
  "wall_text ts = (let t = gmtime_r (tv_sec ts) in
     dec 4 (nat (tm_year t + 1900)) @ [45] @ dec 2 (nat (tm_mon t + 1)) @ [45] @ dec 2 (nat (tm_mday t)) @ [84] @
     dec 2 (nat (tm_hour t)) @ [58] @ dec 2 (nat (tm_min t)) @ [58] @ dec 2 (nat (tm_sec t)) @
     [46] @ dec 9 (nat (tv_nsec ts)) @ UTC_OFFSET @ [0])"

lemma length_wall_text: "length (wall_text ts) = 36"
  by (simp add: wall_text_def Let_def UTC_OFFSET_def del: dec_numeral)

lemma wall_str_eq:
  assumes "four_digit_year (tv_sec ts)" "normal_ts ts" "length buf = 36"
  shows "a0_time_wall_str ts buf = Some (wall_text ts)"
proof -
  define t where "t = gmtime_r (tv_sec ts)"
  note g = gmtime_spec [of "tv_sec ts", folded t_def]
  note y = gmtime_year [OF assms(1), folded t_def]
  have d31: "tm_mday t \<le> 31" using g(5) month_len_31 order.trans by blast
  have nd: "ndigits (nat (tm_year t + 1900)) = 4" (is "ndigits ?y = 4")
  proof -
    have b: "1000 \<le> ?y" "?y < 10 ^ 4" using y by auto
    have "ndigits ?y \<le> 4" using b(2) by (rule ndigits_le) simp
    moreover have "\<not> ndigits ?y \<le> 3"
    proof
      assume "ndigits ?y \<le> 3"
      then have "(10::nat) ^ ndigits ?y \<le> 10 ^ 3" by (intro power_increasing) auto
      then show False using ndigits_bounds(1) [of ?y] b(1) by simp
    qed
    ultimately show ?thesis by simp
  qed
  have f: "fmt_int 1 (tm_year t + 1900) = dec 4 ?y" using nd y by (simp add: fmt_int_def del: dec_numeral)
  have f2: "fmt_int 2 (tm_mon t + 1) = dec 2 (nat (tm_mon t + 1))" "fmt_int 2 (tm_mday t) = dec 2 (nat (tm_mday t))"
    "fmt_int 2 (tm_hour t) = dec 2 (nat (tm_hour t))" "fmt_int 2 (tm_min t) = dec 2 (nat (tm_min t))"
    "fmt_int 2 (tm_sec t) = dec 2 (nat (tm_sec t))"
    using g d31 by (auto intro!: fmt_int_dec simp del: dec_numeral)
  have f9: "fmt_int 9 (tv_nsec ts) = dec 9 (nat (tv_nsec ts))"
    using assms(2) by (auto intro!: fmt_int_dec simp: normal_ts_def NS_PER_SEC_def simp del: dec_numeral)
  define h where "h = dec 4 ?y @ [45] @ dec 2 (nat (tm_mon t + 1)) @ [45] @ dec 2 (nat (tm_mday t)) @ [84] @
     dec 2 (nat (tm_hour t)) @ [58] @ dec 2 (nat (tm_min t)) @ [58] @ dec 2 (nat (tm_sec t))"
  define n where "n = [46] @ dec 9 (nat (tv_nsec ts)) @ UTC_OFFSET"
  have len: "length h = 19" "length n = 16" by (simp_all add: h_def n_def UTC_OFFSET_def del: dec_numeral)
  have "strftime_wall t = Some (h @ [0])"
    using len unfolding strftime_wall_def f f2 Let_def h_def [symmetric] by simp
  then have "a0_time_wall_str ts buf = Some ((put_at 19 (n @ [0]) (put_at 0 (h @ [0]) buf))[35 := 0])"
    using len unfolding a0_time_wall_str_def t_def [symmetric] f9 n_def [symmetric] by simp
  moreover have "put_at 19 (n @ [0]) (put_at 0 (h @ [0]) buf) = h @ n @ [0]"
    using len assms(3) by (simp add: put_at_def)
  moreover have "(h @ n @ [0])[35 := 0] = h @ n @ [0]" using len by (simp add: list_update_append)
  moreover have "wall_text ts = h @ n @ [0]" by (simp add: wall_text_def t_def [symmetric] Let_def h_def n_def del: dec_numeral)
  ultimately show ?thesis by simp
qed

lemma wall_parse_text:
  assumes "four_digit_year (tv_sec ts)" "normal_ts ts"
  shows "a0_time_wall_parse (wall_text ts) = Inr ts"
proof -
  define t where "t = gmtime_r (tv_sec ts)"
  note g = gmtime_spec [of "tv_sec ts", folded t_def]
  note y = gmtime_year [OF assms(1), folded t_def]
  have d31: "tm_mday t \<le> 31" using g(5) month_len_31 order.trans by blast
  let ?s = "wall_text ts"
  note w = wall_text_def [of ts, folded t_def, unfolded Let_def]
  have f: "field ?s 0 4 = Inr (nat (tm_year t + 1900))" "field ?s 5 7 = Inr (nat (tm_mon t + 1))"
    "field ?s 8 10 = Inr (nat (tm_mday t))" "field ?s 11 13 = Inr (nat (tm_hour t))"
    "field ?s 14 16 = Inr (nat (tm_min t))" "field ?s 17 19 = Inr (nat (tm_sec t))"
    using y g d31 by (intro field_dec; (simp add: length_wall_text del: dec_numeral)?; simp add: w del: dec_numeral)+
  have c: "?s ! 4 = 45" "?s ! 7 = 45" "?s ! 10 = 84" "?s ! 13 = 58" "?s ! 16 = 58" "?s ! 19 = 46"
    "take 6 (drop 29 ?s) = UTC_OFFSET"
    by (simp_all add: w nth_append UTC_OFFSET_def del: dec_numeral)
  have n: "a0_str_to_u64 (take 9 (drop 20 ?s)) = Inr (nat (tv_nsec ts))"
    using str_to_uint_dec [of 9 "2 ^ 64" "nat (tv_nsec ts)"] assms(2)
    by (simp add: w a0_str_to_u64_def normal_ts_def NS_PER_SEC_def nat_less_iff del: dec_numeral)
  have "\<lparr>tm_year = int (nat (tm_year t + 1900)) - 1900, tm_mon = int (nat (tm_mon t + 1)) - 1,
      tm_mday = int (nat (tm_mday t)), tm_hour = int (nat (tm_hour t)), tm_min = int (nat (tm_min t)),
      tm_sec = int (nat (tm_sec t))\<rparr> = t"
    using y g by (cases t) simp
  moreover have "timegm t = tv_sec ts" by (rule g(1))
  moreover have "\<not> (nat (tm_mon t + 1) < 1 \<or> nat (tm_mon t + 1) > 12)" "\<not> (nat (tm_mday t) < 1 \<or> nat (tm_mday t) > 31)"
    "\<not> nat (tm_hour t) > 24" "\<not> nat (tm_min t) > 60" "\<not> nat (tm_sec t) > 61"
    using g d31 by auto
  ultimately show ?thesis
    using assms(2) unfolding a0_time_wall_parse_def f c n by (simp add: Let_def normal_ts_def)
qed

section \<open>Properties\<close>

text \<open>
  A wall time of the years 1000 to 9999 is printed as 35 characters and a null byte, in the RFC
  3339 layout, and parsing that text gives the same time back, to the nanosecond.
\<close>

theorem wall_roundtrip_spec:
  assumes "four_digit_year (tv_sec ts)" "normal_ts ts" "length buf = 36"
  shows "\<exists>s. a0_time_wall_str ts buf = Some s \<and> length s = 36 \<and> s ! 35 = 0 \<and> a0_time_wall_parse s = Inr ts"
proof -
  have "wall_text ts ! 35 = 0" by (simp add: wall_text_def Let_def nth_append UTC_OFFSET_def del: dec_numeral)
  then show ?thesis
    using wall_str_eq [OF assms] wall_parse_text [OF assms(1,2)] length_wall_text by blast
qed

theorem wall_roundtrip_spec_witness:
  "\<exists>s. a0_time_wall_str \<lparr>tv_sec = 951782400, tv_nsec = 7\<rparr> (replicate 36 0) = Some s \<and>
     a0_time_wall_parse s = Inr \<lparr>tv_sec = 951782400, tv_nsec = 7\<rparr>"
  using wall_roundtrip_spec [of "\<lparr>tv_sec = 951782400, tv_nsec = 7\<rparr>" "replicate 36 0"]
  by (auto simp: four_digit_year_def year_days_def normal_ts_def NS_PER_SEC_def)

text \<open>
  The text of a monotonic time below 10^19 nanoseconds is its nanosecond count with 19 digits; it
  parses back to the time. From 10^19 on, which the type allows, the digits no longer fit the buffer
  and are written in front of it.
\<close>

theorem mono_roundtrip_spec:
  assumes "normal_ts ts" "0 \<le> tv_sec ts" "total_ns ts < 2 ^ 64" "length buf = 20"
  shows "if total_ns ts < 10 ^ 19 then
       \<exists>s. a0_time_mono_str ts buf = Some (s @ [0]) \<and> length s = 19 \<and> a0_time_mono_parse (s @ [0]) = Inr ts
     else a0_time_mono_str ts buf = None"
proof -
  let ?v = "ns_u64 ts" and ?b = "take 19 (buf[19 := 0])"
  have "0 \<le> total_ns ts" using assms(1,2) by (simp add: total_ns_def normal_ts_def NS_PER_SEC_def)
  then have v: "int ?v = total_ns ts" using assms(3) by (simp add: ns_u64_def total_ns_def)
  have b: "length ?b = 19" "drop 19 (buf[19 := 0]) = [0]"
    using assms(4) by (simp_all add: drop_update_swap Cons_nth_drop_Suc [symmetric])
  then have ne: "?b \<noteq> []" by auto
  show ?thesis
  proof (cases "total_ns ts < 10 ^ 19")
    case True
    then have v19: "?v < 10 ^ 19" using v by (simp flip: of_nat_less_iff [where 'a = int])
    have s: "a0_time_mono_str ts buf = Some (dec 19 ?v @ [0])"
      using u64_to_str_eq [of ?v ?b] v19 ne b by (simp add: a0_time_mono_str_def Let_def del: dec_numeral)
    have "a0_str_to_u64 (dec 19 ?v) = Inr ?v"
      using str_to_uint_dec [of 19 "2 ^ 64" ?v] v19 by (simp add: a0_str_to_u64_def del: dec_numeral)
    moreover have "int ?v div NS_PER_SEC = tv_sec ts" "int ?v mod NS_PER_SEC = tv_nsec ts"
      using assms(1) unfolding v total_ns_def by (simp_all add: normal_ts_def NS_PER_SEC_def)
    ultimately have "a0_time_mono_parse (dec 19 ?v @ [0]) = Inr ts"
      by (simp add: a0_time_mono_parse_def del: dec_numeral)
    then show ?thesis using s True by (simp del: dec_numeral)
  next
    case False
    then have "\<not> ?v < 10 ^ 19" using v by (simp flip: of_nat_less_iff [where 'a = int])
    then have "a0_u64_to_str ?v ?b = None" using b(1) by (intro u64_to_str_none) simp
    then show ?thesis using False by (simp add: a0_time_mono_str_def Let_def)
  qed
qed

theorem mono_roundtrip_spec_witness:
  "\<exists>s. a0_time_mono_str \<lparr>tv_sec = 12, tv_nsec = 345\<rparr> (replicate 20 1) = Some (s @ [0]) \<and>
     a0_time_mono_parse (s @ [0]) = Inr \<lparr>tv_sec = 12, tv_nsec = 345\<rparr>"
  using mono_roundtrip_spec [of "\<lparr>tv_sec = 12, tv_nsec = 345\<rparr>" "replicate 20 1"]
  by (auto simp: normal_ts_def total_ns_def NS_PER_SEC_def)

end
