(* ===== verification/Cmp.thy ===== *)
theory Cmp
  imports Prelude
begin

text \<open>
  \<^verbatim>\<open>src/cmp.c\<close> and \<^verbatim>\<open>include/a0/cmp.h\<close>: the hash and comparison callbacks that the hash map is
  parameterised with. A callback reports an error or a value, so it returns a sum. The interface
  the map relies on is the locale \<open>map_keys\<close>; each pair of callbacks is shown to meet it on the
  keys for which it does: 32-bit integers, pointers of one 2 GiB window, buffers shorter than
  2 GiB, C strings and UUIDs.
\<close>

section \<open>The interface a map needs of its keys\<close>

locale map_keys =
  fixes kh :: "'k \<Rightarrow> a0_err + u64"
    and kc :: "'k \<Rightarrow> 'k \<Rightarrow> a0_err + int"
    and kv :: "'k \<Rightarrow> bool"
  assumes hash_total: "kv k \<Longrightarrow> \<exists>h. kh k = Inr h"
    and cmp_eq: "kv a \<Longrightarrow> kv b \<Longrightarrow> \<exists>c. kc a b = Inr c \<and> (c = 0 \<longleftrightarrow> a = b)"

section \<open>Library comparisons\<close>

text \<open>
  \<^verbatim>\<open>memcmp\<close> and \<^verbatim>\<open>strcmp\<close>: C fixes only the sign of the result, which is taken to be -1, 0 or 1.
  A C string is the list of its bytes before the terminating null byte.
\<close>

fun memcmp :: "u8 list \<Rightarrow> u8 list \<Rightarrow> int" where
  "memcmp (a # as) (b # bs) = (if a < b then -1 else if b < a then 1 else memcmp as bs)"
| "memcmp _ _ = 0"

fun strcmp :: "u8 list \<Rightarrow> u8 list \<Rightarrow> int" where
  "strcmp [] [] = 0"
| "strcmp [] (b # bs) = -1"
| "strcmp (a # as) [] = 1"
| "strcmp (a # as) (b # bs) = (if a < b then -1 else if b < a then 1 else strcmp as bs)"

lemma memcmp_eq_0: "length xs = length ys \<Longrightarrow> memcmp xs ys = 0 \<longleftrightarrow> xs = ys"
  by (induction xs ys rule: list_induct2) auto

lemma strcmp_eq_0 [simp]: "strcmp xs ys = 0 \<longleftrightarrow> xs = ys"
  by (induction xs ys rule: strcmp.induct) auto

section \<open>32-bit integers\<close>

definition GOLDEN_RATIO_U32 :: u32 where
  "GOLDEN_RATIO_U32 = 0x9E3779B9"

definition a0_hash_u32_fn :: "u32 \<Rightarrow> a0_err + u64" where
  "a0_hash_u32_fn x = Inr (ucast (x * GOLDEN_RATIO_U32))"

definition a0_cmp_u32_fn :: "u32 \<Rightarrow> u32 \<Rightarrow> a0_err + int" where
  "a0_cmp_u32_fn lhs rhs =
     (let diff = uint rhs - uint lhs in Inr (of_bool (diff < 0) - of_bool (diff > 0)))"

lemma a0_cmp_u32_order:
  "a0_cmp_u32_fn a b = Inr (if a < b then -1 else if b < a then 1 else 0)"
  by (auto simp: a0_cmp_u32_fn_def Let_def word_less_def)

interpretation u32_keys: map_keys a0_hash_u32_fn a0_cmp_u32_fn "\<lambda>_. True"
  by unfold_locales (auto simp: a0_hash_u32_fn_def a0_cmp_u32_order)

section \<open>Pointers\<close>

text \<open>The shift is \<^verbatim>\<open>(size_t)log2(1 + sizeof(uintptr_t))\<close>, the integer part of \<open>log2 9\<close>.\<close>

definition a0_hash_ptr_fn :: "u64 \<Rightarrow> a0_err + u64" where
  "a0_hash_ptr_fn p = Inr (drop_bit 3 p)"

definition a0_cmp_ptr_fn :: "u64 \<Rightarrow> u64 \<Rightarrow> a0_err + int" where
  "a0_cmp_ptr_fn lhs rhs = Inr (sint (ucast (lhs - rhs) :: u32))"

text \<open>
  The difference is cut down to an \<^verbatim>\<open>int\<close>, so two pointers compare equal exactly when they agree
  modulo \<open>2 ^ 32\<close>.
\<close>

lemma ucast_diff_eq_0: "(ucast (a - b :: u64) :: u32) = 0 \<longleftrightarrow> take_bit 32 a = take_bit 32 b"
proof -
  have "uint (ucast (a - b) :: u32) = take_bit 32 (uint (a - b))"
    by (simp only: unsigned_ucast_eq) simp
  also have "uint (a - b) = take_bit 64 (uint a - uint b)"
    by (simp only: uint_word_ariths take_bit_eq_mod) simp
  also have "take_bit 32 \<dots> = (uint a - uint b) mod 2 ^ 32"
    by (simp only: take_bit_take_bit) (simp add: take_bit_eq_mod)
  finally have *: "uint (ucast (a - b) :: u32) = (uint a - uint b) mod 2 ^ 32" .
  have "(ucast (a - b) :: u32) = 0 \<longleftrightarrow> uint (ucast (a - b) :: u32) = 0"
    by (simp only: unsigned_eq_0_iff)
  also have "\<dots> \<longleftrightarrow> uint a mod 2 ^ 32 = uint b mod 2 ^ 32"
    unfolding * by (simp add: mod_eq_dvd_iff dvd_eq_mod_eq_0)
  also have "\<dots> \<longleftrightarrow> uint (take_bit 32 a) = uint (take_bit 32 b)"
    by (simp only: unsigned_take_bit_eq) (simp only: take_bit_eq_mod)
  finally show ?thesis
    by (simp only: word_uint_eq_iff)
qed

lemma a0_cmp_ptr_zero: "a0_cmp_ptr_fn a b = Inr c \<Longrightarrow> c = 0 \<longleftrightarrow> take_bit 32 a = take_bit 32 b"
  by (auto simp: a0_cmp_ptr_fn_def ucast_diff_eq_0 signed_eq_0_iff)

lemma same_window_eq: "drop_bit 32 (a :: u64) = drop_bit 32 b \<Longrightarrow> take_bit 32 a = take_bit 32 b \<Longrightarrow> a = b"
  by (metis bits_ident)

interpretation ptr_keys: map_keys a0_hash_ptr_fn a0_cmp_ptr_fn "\<lambda>p. drop_bit 32 p = hi" for hi
  by unfold_locales
    (auto simp: a0_hash_ptr_fn_def a0_cmp_ptr_fn_def ucast_diff_eq_0 signed_eq_0_iff dest: same_window_eq)

section \<open>Buffers\<close>

definition a0_hash_step :: "u32 \<Rightarrow> u64 \<Rightarrow> u64" where
  "a0_hash_step x out = out XOR (ucast (x + GOLDEN_RATIO_U32) + push_bit 6 out + drop_bit 2 out)"

fun a0_hash_buf_loop :: "u8 list \<Rightarrow> u64 \<Rightarrow> u64" where
  "a0_hash_buf_loop [] out = out"
| "a0_hash_buf_loop (b # bs) out = a0_hash_buf_loop bs (a0_hash_step (ucast b) out)"

definition a0_hash_buf_fn :: "u8 list \<Rightarrow> a0_err + u64" where
  "a0_hash_buf_fn buf = Inr (a0_hash_buf_loop buf 0)"

text \<open>\<^verbatim>\<open>(int)size\<close>: the low 32 bits, read as two's complement.\<close>

definition int_of_size :: "nat \<Rightarrow> int" where
  "int_of_size n = sint (word_of_nat n :: u32)"

definition a0_cmp_buf_fn :: "u8 list \<Rightarrow> u8 list \<Rightarrow> a0_err + int" where
  "a0_cmp_buf_fn lhs rhs =
     Inr (if length lhs \<noteq> length rhs then int_of_size (length lhs) - int_of_size (length rhs)
          else memcmp lhs rhs)"

lemma int_of_size_small: "n < 2 ^ 31 \<Longrightarrow> int_of_size n = int n"
  by (simp add: int_of_size_def signed_of_nat signed_take_bit_int_eq_self)

interpretation buf_keys: map_keys a0_hash_buf_fn a0_cmp_buf_fn "\<lambda>b. length b < 2 ^ 31"
  by unfold_locales
    (auto simp: a0_hash_buf_fn_def a0_cmp_buf_fn_def int_of_size_small memcmp_eq_0)

section \<open>C strings\<close>

text \<open>\<^verbatim>\<open>char\<close> is signed: the byte is sign-extended before the addition.\<close>

fun a0_hash_str_loop :: "u8 list \<Rightarrow> u64 \<Rightarrow> u64" where
  "a0_hash_str_loop [] out = out"
| "a0_hash_str_loop (c # cs) out = a0_hash_str_loop cs (a0_hash_step (scast c) out)"

definition a0_hash_str_fn :: "u8 list \<Rightarrow> a0_err + u64" where
  "a0_hash_str_fn s = Inr (a0_hash_str_loop s 0)"

definition a0_cmp_str_fn :: "u8 list \<Rightarrow> u8 list \<Rightarrow> a0_err + int" where
  "a0_cmp_str_fn lhs rhs = Inr (strcmp lhs rhs)"

interpretation str_keys: map_keys a0_hash_str_fn a0_cmp_str_fn "\<lambda>_. True"
  by unfold_locales (auto simp: a0_hash_str_fn_def a0_cmp_str_fn_def)

section \<open>UUIDs\<close>

definition UNHEX_VALUES :: "u8 list" where
  "UNHEX_VALUES = replicate 48 0 @ [0, 1, 2, 3, 4, 5, 6, 7, 8, 9] @ replicate 7 0
     @ [10, 11, 12, 13, 14, 15] @ replicate 26 0 @ [10, 11, 12, 13, 14, 15] @ replicate 25 0"

lemma length_UNHEX_VALUES: "length UNHEX_VALUES = 128"
  by (simp add: UNHEX_VALUES_def)

text \<open>
  One hash byte from two characters. A character of 128 or more reads past the table; the model
  leaves that byte unspecified (\<open>!\<close> out of range).
\<close>

definition unhex_pair :: "u8 list \<Rightarrow> nat \<Rightarrow> nat \<Rightarrow> u8" where
  "unhex_pair uuid i j =
     (push_bit 4 (UNHEX_VALUES ! unat (uuid ! i))) OR (UNHEX_VALUES ! unat (uuid ! j))"

definition a0_hash_uuid_fn :: "u8 list \<Rightarrow> a0_err + u64" where
  "a0_hash_uuid_fn uuid = Inr (word_of_nat (le_val
     [unhex_pair uuid 0 1, unhex_pair uuid 2 3, unhex_pair uuid 4 5, unhex_pair uuid 6 7,
      unhex_pair uuid 9 10, unhex_pair uuid 11 12, unhex_pair uuid 13 15, unhex_pair uuid 16 17]))"

definition a0_cmp_uuid_fn :: "u8 list \<Rightarrow> u8 list \<Rightarrow> a0_err + int" where
  "a0_cmp_uuid_fn lhs rhs = Inr (memcmp (take 37 lhs) (take 37 rhs))"

interpretation uuid_keys: map_keys a0_hash_uuid_fn a0_cmp_uuid_fn "\<lambda>k. length k = 37"
  by unfold_locales (auto simp: a0_hash_uuid_fn_def a0_cmp_uuid_fn_def memcmp_eq_0)

end
