(* ===== verification/Packet.thy ===== *)
theory Packet
  imports Bytes Cmp
begin

text \<open>
  \<^verbatim>\<open>src/packet.c\<close>: packets, and their serialised (flat) form. A packet given by the caller is modelled
  by its contents: the 37 bytes of the id, the chain of header blocks, each a list of pairs of C
  strings, and the payload. What the functions build themselves lives in memory, at addresses.
  Pointer arithmetic is plain addition (its overflow is undefined in C); \<^verbatim>\<open>size_t\<close> sums wrap.

  \<open>None\<close> stands for a call that does not return or writes through an unset pointer, which
  \<^verbatim>\<open>a0_packet_serialize\<close>, \<^verbatim>\<open>a0_packet_deserialize\<close> and \<^verbatim>\<open>a0_packet_deep_copy\<close> do when the allocation
  fails: they ignore its result.
\<close>

section \<open>Packets\<close>

type_synonym header = "u8 list \<times> u8 list"
type_synonym a0_buf = "nat \<times> nat"
type_synonym a0_alloc = "nat \<Rightarrow> world \<Rightarrow> ((a0_err + a0_buf) \<times> world) option"

record a0_packet =
  pkt_id :: "u8 list"
  headers_block :: "header list list"
  pkt_payload :: "u8 list"

record a0_packet_stats =
  num_hdrs :: nat
  content_size :: nat
  serial_size :: nat

definition sizeof_uuid :: nat where "sizeof_uuid = 37"
definition sizeof_size :: nat where "sizeof_size = 8"

text \<open>\<^verbatim>\<open>size_t\<close> subtraction.\<close>

definition sub64 :: "nat \<Rightarrow> nat \<Rightarrow> nat" where
  "sub64 a b = (a + (2 ^ 64 - b mod 2 ^ 64)) mod 2 ^ 64"

definition a0_packet_init :: "u8 list \<Rightarrow> a0_packet" where
  "a0_packet_init uuid = \<lparr>pkt_id = uuid, headers_block = [[]], pkt_payload = []\<rparr>"

fun num_loop :: "header list list \<Rightarrow> nat \<Rightarrow> nat" where
  "num_loop [] n = n"
| "num_loop (block # next_block) n = num_loop next_block (add64 n (length block))"

fun content_loop :: "header list \<Rightarrow> nat \<Rightarrow> nat" where
  "content_loop [] n = n"
| "content_loop ((key, val) # hdrs) n =
     content_loop hdrs (add64 (add64 n (length key + 1)) (length val + 1))"

fun content_blocks_loop :: "header list list \<Rightarrow> nat \<Rightarrow> nat" where
  "content_blocks_loop [] n = n"
| "content_blocks_loop (block # next_block) n = content_blocks_loop next_block (content_loop block n)"

text \<open>The size of the index: id, number of headers, header offsets, payload offset.\<close>

definition index_size :: "nat \<Rightarrow> nat" where
  "index_size n = (sizeof_uuid + sizeof_size + 2 * n * sizeof_size + sizeof_size) mod 2 ^ 64"

definition a0_packet_stats_of :: "a0_packet \<Rightarrow> a0_packet_stats" where
  "a0_packet_stats_of pkt =
     (let n = num_loop (headers_block pkt) 0;
          c = add64 (content_blocks_loop (headers_block pkt) 0) (length (pkt_payload pkt))
      in \<lparr>num_hdrs = n, content_size = c, serial_size = add64 (index_size n) c\<rparr>)"

section \<open>Iterating over the headers\<close>

type_synonym a0_packet_header_iterator = "header list list \<times> nat"

definition a0_packet_header_iterator_init :: "a0_packet \<Rightarrow> a0_packet_header_iterator" where
  "a0_packet_header_iterator_init pkt = (headers_block pkt, 0)"

fun a0_packet_header_iterator_next ::
    "a0_packet_header_iterator \<Rightarrow> (a0_err + header) \<times> a0_packet_header_iterator" where
  "a0_packet_header_iterator_next ([], idx) = (Inl A0_ERR_ITER_DONE, ([], idx))"
| "a0_packet_header_iterator_next (block # next_block, idx) =
     (if idx \<ge> length block then a0_packet_header_iterator_next (next_block, 0)
      else (Inr (block ! idx), (block # next_block, idx + 1)))"

partial_function (option) a0_packet_header_iterator_next_match ::
    "u8 list \<Rightarrow> a0_packet_header_iterator \<Rightarrow> ((a0_err + header) \<times> a0_packet_header_iterator) option" where
  [code]: "a0_packet_header_iterator_next_match key iter =
     (case a0_packet_header_iterator_next iter of
        (Inl e, iter) \<Rightarrow> Some (Inl e, iter)
      | (Inr out, iter) \<Rightarrow>
          if strcmp key (fst out) \<noteq> 0 then a0_packet_header_iterator_next_match key iter
          else Some (Inr out, iter))"

section \<open>Serialising\<close>

text \<open>\<open>out\<close> is the address of the output, \<open>idx_off\<close> and \<open>off\<close> the write offsets.\<close>

fun serialize_hdrs :: "nat \<Rightarrow> header list \<Rightarrow> nat \<times> nat \<times> world \<Rightarrow> nat \<times> nat \<times> world" where
  "serialize_hdrs out [] (idx_off, off, w) = (idx_off, off, w)"
| "serialize_hdrs out ((key, val) # hdrs) (idx_off, off, w) =
     (let w = wr_bytes (out + idx_off) (le_bytes 8 off) w;
          idx_off = add64 idx_off sizeof_size;
          w = wr_bytes (out + off) (key @ [0]) w;
          off = add64 off (length key + 1);
          w = wr_bytes (out + idx_off) (le_bytes 8 off) w;
          idx_off = add64 idx_off sizeof_size;
          w = wr_bytes (out + off) (val @ [0]) w;
          off = add64 off (length val + 1)
      in serialize_hdrs out hdrs (idx_off, off, w))"

fun serialize_blocks :: "nat \<Rightarrow> header list list \<Rightarrow> nat \<times> nat \<times> world \<Rightarrow> nat \<times> nat \<times> world" where
  "serialize_blocks out [] s = s"
| "serialize_blocks out (block # next_block) s = serialize_blocks out next_block (serialize_hdrs out block s)"

definition serialize_to :: "a0_packet \<Rightarrow> nat \<Rightarrow> world \<Rightarrow> world" where
  "serialize_to pkt out w =
     (let stats = a0_packet_stats_of pkt;
          idx_off = 0;
          off = index_size (num_hdrs stats);
          w = wr_bytes (out + idx_off) (pkt_id pkt) w;
          idx_off = idx_off + sizeof_uuid;
          w = wr_bytes (out + idx_off) (le_bytes 8 (num_hdrs stats)) w;
          idx_off = idx_off + sizeof_size;
          (idx_off, off, w) = serialize_blocks out (headers_block pkt) (idx_off, off, w);
          w = wr_bytes (out + idx_off) (le_bytes 8 off) w
      in if pkt_payload pkt \<noteq> [] then wr_bytes (out + off) (pkt_payload pkt) w else w)"

definition a0_packet_serialize :: "a0_packet \<Rightarrow> a0_alloc \<Rightarrow> world \<Rightarrow> (a0_buf \<times> world) option" where
  "a0_packet_serialize pkt alloc w =
     (case alloc (serial_size (a0_packet_stats_of pkt)) w of
        Some (Inr out, w) \<Rightarrow> Some (out, serialize_to pkt (fst out) w)
      | _ \<Rightarrow> None)"

section \<open>Flat packets\<close>

definition a0_flat_packet_stats :: "a0_buf \<Rightarrow> mem \<Rightarrow> a0_packet_stats" where
  "a0_flat_packet_stats fpkt m =
     (let n = ld64 m (fst fpkt + sizeof_uuid)
      in \<lparr>num_hdrs = n, content_size = sub64 (snd fpkt) (index_size n), serial_size = snd fpkt\<rparr>)"

definition a0_flat_packet_id :: "a0_buf \<Rightarrow> nat" where
  "a0_flat_packet_id fpkt = fst fpkt"

text \<open>The offset in the index of the payload's offset.\<close>

definition payload_idx :: "nat \<Rightarrow> nat" where
  "payload_idx n = sizeof_uuid + sizeof_size + (2 * n * sizeof_size) mod 2 ^ 64"

definition a0_flat_packet_payload :: "a0_buf \<Rightarrow> mem \<Rightarrow> a0_buf" where
  "a0_flat_packet_payload fpkt m =
     (let n = ld64 m (fst fpkt + sizeof_uuid);
          payload_off = ld64 m (fst fpkt + payload_idx n)
      in (fst fpkt + payload_off, sub64 (snd fpkt) payload_off))"

text \<open>The result are the addresses of key and value.\<close>

definition a0_flat_packet_header :: "a0_buf \<Rightarrow> nat \<Rightarrow> mem \<Rightarrow> a0_err + nat \<times> nat" where
  "a0_flat_packet_header fpkt idx m =
     (if idx \<ge> ld64 m (fst fpkt + sizeof_uuid) then Inl A0_ERR_NOT_FOUND
      else
        let hdr_idx_ptr = fst fpkt + sizeof_uuid + sizeof_size;
            key_off = ld64 m (hdr_idx_ptr + 8 * (2 * idx));
            val_off = ld64 m (hdr_idx_ptr + 8 * (2 * idx + 1))
        in Inr (fst fpkt + key_off, fst fpkt + val_off))"

type_synonym a0_flat_packet_header_iterator = "a0_buf \<times> nat"

definition a0_flat_packet_header_iterator_init :: "a0_buf \<Rightarrow> a0_flat_packet_header_iterator" where
  "a0_flat_packet_header_iterator_init fpkt = (fpkt, 0)"

definition a0_flat_packet_header_iterator_next ::
    "mem \<Rightarrow> a0_flat_packet_header_iterator \<Rightarrow> (a0_err + nat \<times> nat) \<times> a0_flat_packet_header_iterator" where
  "a0_flat_packet_header_iterator_next m iter =
     (a0_flat_packet_header (fst iter) (snd iter) m, (fst iter, snd iter + 1))"

partial_function (option) a0_flat_packet_header_iterator_next_match ::
    "mem \<Rightarrow> u8 list \<Rightarrow> a0_flat_packet_header_iterator
      \<Rightarrow> ((a0_err + nat \<times> nat) \<times> a0_flat_packet_header_iterator) option" where
  [code]: "a0_flat_packet_header_iterator_next_match m key iter =
     (case a0_flat_packet_header_iterator_next m iter of
        (Inl e, iter) \<Rightarrow> Some (Inl e, iter)
      | (Inr out, iter) \<Rightarrow>
          Option.bind (cstr m (fst out)) (\<lambda>k.
            if strcmp key k \<noteq> 0 then a0_flat_packet_header_iterator_next_match m key iter
            else Some (Inr out, iter)))"

section \<open>Deserialising and copying\<close>

text \<open>
  A packet in memory: its id, the address and number of its headers, each a pair of addresses of C
  strings, and its payload.
\<close>

record packet_ref =
  ref_id :: "u8 list"
  ref_headers :: nat
  ref_size :: nat
  ref_payload :: a0_buf

fun deserialize_hdrs :: "nat \<Rightarrow> nat \<Rightarrow> nat \<Rightarrow> nat \<Rightarrow> nat \<Rightarrow> world \<Rightarrow> (nat \<times> world) option" where
  "deserialize_hdrs data hdrs 0 i write_ptr w = Some (write_ptr, w)"
| "deserialize_hdrs data hdrs (Suc n) i write_ptr w =
     (let hdr_idx_ptr = data + sizeof_uuid + sizeof_size;
          key_off = ld64 (mm w) (hdr_idx_ptr + 8 * (2 * i));
          w = wr 8 (hdrs + 16 * i) write_ptr w
      in Option.bind (strcpy write_ptr (data + key_off) w) (\<lambda>w.
         Option.bind (strlen (mm w) (data + key_off)) (\<lambda>key_len.
         let write_ptr = write_ptr + key_len + 1;
             val_off = ld64 (mm w) (hdr_idx_ptr + 8 * (2 * i + 1));
             w = wr 8 (hdrs + 16 * i + 8) write_ptr w
         in Option.bind (strcpy write_ptr (data + val_off) w) (\<lambda>w.
            Option.bind (strlen (mm w) (data + val_off)) (\<lambda>val_len.
            deserialize_hdrs data hdrs n (i + 1) (write_ptr + val_len + 1) w)))))"

definition a0_packet_deserialize :: "a0_buf \<Rightarrow> a0_alloc \<Rightarrow> world \<Rightarrow> (packet_ref \<times> a0_buf \<times> world) option" where
  "a0_packet_deserialize fpkt alloc w =
     (let data = fst fpkt;
          uuid = bytes (mm w) data sizeof_uuid;
          stats = a0_flat_packet_stats fpkt (mm w);
          n = num_hdrs stats
      in case alloc (add64 (n * 16) (content_size stats)) w of
           Some (Inr out_buf, w) \<Rightarrow>
             Option.bind (deserialize_hdrs data (fst out_buf) n 0 (fst out_buf + 16 * n) w) (\<lambda>(write_ptr, w).
               let payload_off = ld64 (mm w) (data + payload_idx n);
                   size = sub64 (snd fpkt) payload_off;
                   w = wr_bytes write_ptr (bytes (mm w) (data + payload_off) size) w
               in Some (\<lparr>ref_id = uuid, ref_headers = fst out_buf, ref_size = n, ref_payload = (write_ptr, size)\<rparr>,
                    out_buf, w))
         | _ \<Rightarrow> None)"

text \<open>\<open>base\<close> is the address of the output buffer, \<open>i\<close> the number of headers written.\<close>

fun copy_hdrs :: "nat \<Rightarrow> header list \<Rightarrow> nat \<times> nat \<times> world \<Rightarrow> nat \<times> nat \<times> world" where
  "copy_hdrs base [] s = s"
| "copy_hdrs base ((key, val) # hdrs) (i, off, w) =
     (let w = wr 8 (base + 16 * i) (base + off) w;
          w = wr_bytes (base + off) (key @ [0]) w;
          off = off + length key + 1;
          w = wr 8 (base + 16 * i + 8) (base + off) w;
          w = wr_bytes (base + off) (val @ [0]) w;
          off = off + length val + 1
      in copy_hdrs base hdrs (i + 1, off, w))"

fun copy_blocks :: "nat \<Rightarrow> header list list \<Rightarrow> nat \<times> nat \<times> world \<Rightarrow> nat \<times> nat \<times> world" where
  "copy_blocks base [] s = s"
| "copy_blocks base (block # next_block) s = copy_blocks base next_block (copy_hdrs base block s)"

definition a0_packet_deep_copy :: "a0_packet \<Rightarrow> a0_alloc \<Rightarrow> world \<Rightarrow> (packet_ref \<times> a0_buf \<times> world) option" where
  "a0_packet_deep_copy pkt alloc w =
     (let stats = a0_packet_stats_of pkt;
          n = num_hdrs stats
      in case alloc (add64 (n * 16) (content_size stats)) w of
           Some (Inr out_buf, w) \<Rightarrow>
             let base = fst out_buf;
                 (i, off, w) = copy_blocks base (headers_block pkt) (0, n * 16, w);
                 w = wr_bytes (base + off) (pkt_payload pkt) w
             in Some (\<lparr>ref_id = pkt_id pkt, ref_headers = base, ref_size = n,
                  ref_payload = (base + off, length (pkt_payload pkt))\<rparr>, out_buf, w)
         | _ \<Rightarrow> None)"

text \<open>The packet that a deserialised packet in memory stands for.\<close>

definition load_packet :: "mem \<Rightarrow> packet_ref \<Rightarrow> a0_packet option" where
  "load_packet m r =
     (let strings = map (\<lambda>i. (cstr m (ld64 m (ref_headers r + 16 * i)), cstr m (ld64 m (ref_headers r + 16 * i + 8))))
            [0..<ref_size r]
      in if \<exists>h \<in> set strings. fst h = None \<or> snd h = None then None
         else Some \<lparr>pkt_id = ref_id r, headers_block = [map (\<lambda>(k, v). (the k, the v)) strings],
           pkt_payload = bytes m (fst (ref_payload r)) (snd (ref_payload r))\<rparr>)"

end
