(* ===== verification/Uuid.thy ===== *)
theory Uuid
  imports Cmp
begin

text \<open>
  \<^verbatim>\<open>src/rand.c\<close> and \<^verbatim>\<open>src/uuid.c\<close>: the thread's random number generator and version 4 UUIDs. The seed
  that \<^verbatim>\<open>/dev/urandom\<close> delivers is a parameter; the POSIX function \<^verbatim>\<open>jrand48\<close> is modelled.
\<close>

section \<open>Random numbers\<close>

text \<open>The generator's 48 bits, and whether they have been seeded.\<close>

record rand_state =
  a0_xsubi :: nat
  a0_xsubi_init :: bool

text \<open>One step of the POSIX generator; the result are the upper 32 of the 48 bits.\<close>

definition jrand48 :: "nat \<Rightarrow> u32 \<times> nat" where
  "jrand48 x = (let x = (25214903917 * x + 11) mod 2 ^ 48 in (word_of_nat (x div 2 ^ 16), x))"

definition a0_mrand48 :: "nat \<Rightarrow> rand_state \<Rightarrow> u32 \<times> rand_state" where
  "a0_mrand48 urandom s =
     (let s = (if a0_xsubi_init s then s else \<lparr>a0_xsubi = urandom mod 2 ^ 48, a0_xsubi_init = True\<rparr>);
          (r, x) = jrand48 (a0_xsubi s)
      in (r, s\<lparr>a0_xsubi := x\<rparr>))"

section \<open>UUIDs\<close>

text \<open>The two upper case hexadecimal digits of every byte, as one string.\<close>

definition hex_digit :: "nat \<Rightarrow> u8" where
  "hex_digit i = word_of_nat (if i < 10 then 48 + i else 55 + i)"

definition HEX_DIGITS :: "u8 list" where
  "HEX_DIGITS = concat (map (\<lambda>i. [hex_digit (i div 16), hex_digit (i mod 16)]) [0..<256])"

definition hex2 :: "u8 \<Rightarrow> u8 list" where
  "hex2 b = take 2 (drop (unat b * 2) HEX_DIGITS)"

text \<open>The four numbers with the version and variant bits set, as bytes in memory.\<close>

definition uuid_bytes :: "u32 \<Rightarrow> u32 \<Rightarrow> u32 \<Rightarrow> u32 \<Rightarrow> u8 list" where
  "uuid_bytes r0 r1 r2 r3 =
     concat (map (\<lambda>d. le_bytes 4 (unat d))
       [r0, (r1 AND 0xFF0FFFFF) OR 0x00400000, (r2 AND 0xFFFFFF3F) OR 0x00000080, r3])"

definition uuid_text :: "u8 list \<Rightarrow> u8 list" where
  "uuid_text b =
     concat (map hex2 (take 4 b)) @ [45] @ concat (map hex2 (take 2 (drop 4 b))) @ [45] @
     concat (map hex2 (take 2 (drop 6 b))) @ [45] @ concat (map hex2 (take 2 (drop 8 b))) @ [45] @
     concat (map hex2 (drop 10 b)) @ [0]"

definition a0_uuidv4 :: "nat \<Rightarrow> rand_state \<Rightarrow> u8 list \<times> rand_state" where
  "a0_uuidv4 urandom s =
     (let (r0, s) = a0_mrand48 urandom s;
          (r1, s) = a0_mrand48 urandom s;
          (r2, s) = a0_mrand48 urandom s;
          (r3, s) = a0_mrand48 urandom s
      in (uuid_text (uuid_bytes r0 r1 r2 r3), s))"


section \<open>Their form\<close>

text \<open>A digit of the upper case hexadecimal alphabet.\<close>

definition is_hex :: "u8 \<Rightarrow> bool" where
  "is_hex c \<longleftrightarrow> 48 \<le> c \<and> c \<le> 57 \<or> 65 \<le> c \<and> c \<le> 70"

lemma all_hex: "i < 16 \<Longrightarrow> is_hex (hex_digit i) \<and> UNHEX_VALUES ! unat (hex_digit i) = word_of_nat i"
proof -
  have "\<forall>i \<in> set [0..<16]. is_hex (hex_digit i) \<and> UNHEX_VALUES ! unat (hex_digit i) = word_of_nat i" by code_simp
  then show "i < 16 \<Longrightarrow> ?thesis" by simp
qed

lemma drop_pairs:
  "i < length xs \<Longrightarrow> take 2 (drop (2 * i) (concat (map (\<lambda>x. [f x, g x]) xs))) = [f (xs ! i), g (xs ! i)]"
proof (induction xs arbitrary: i)
  case (Cons x xs)
  then show ?case by (cases i) (simp_all add: numeral_2_eq_2)
qed simp

lemma hex2: "hex2 b = [hex_digit (unat b div 16), hex_digit (unat b mod 16)]"
  using drop_pairs [of "unat b" "[0..<256]"] by (simp add: hex2_def HEX_DIGITS_def mult.commute)

lemma length_uuid_bytes [simp]: "length (uuid_bytes r0 r1 r2 r3) = 16"
  by (simp add: uuid_bytes_def)

lemma uuid_text_eq:
  "uuid_text [b0, b1, b2, b3, b4, b5, b6, b7, b8, b9, b10, b11, b12, b13, b14, b15] =
     hex2 b0 @ hex2 b1 @ hex2 b2 @ hex2 b3 @ [45] @ hex2 b4 @ hex2 b5 @ [45] @ hex2 b6 @ hex2 b7 @ [45] @
     hex2 b8 @ hex2 b9 @ [45] @ hex2 b10 @ hex2 b11 @ hex2 b12 @ hex2 b13 @ hex2 b14 @ hex2 b15 @ [0]"
  by (simp add: uuid_text_def)

lemma unhex_hex2:
  assumes "uuid ! i = hex_digit (unat b div 16)" "uuid ! j = hex_digit (unat b mod 16)"
  shows "unhex_pair uuid i j = b"
proof -
  have d: "unat b div 16 < 16" "unat b mod 16 < 16"
    using unat_u8_bound [of b] by (simp_all add: less_mult_imp_div_less)
  have "\<forall>i \<in> set [0..<256]. push_bit 4 (word_of_nat (i div 16)) OR word_of_nat (i mod 16) = (word_of_nat i :: u8)"
    by code_simp
  then have "push_bit 4 (word_of_nat (unat b div 16)) OR word_of_nat (unat b mod 16) = (word_of_nat (unat b) :: u8)"
    by simp
  then show ?thesis
    using assms all_hex [OF d(1)] all_hex [OF d(2)] by (simp add: unhex_pair_def)
qed


text \<open>The bits that \<^verbatim>\<open>a0_uuidv4\<close> fixes.\<close>

lemma version_bits: "drop_bit 4 (ucast (drop_bit 16 ((r AND 0xFF0FFFFF) OR 0x00400000 :: u32)) :: u8) = 4"
  by (simp add: drop_bit_and drop_bit_or unsigned_and_eq unsigned_or_eq)

lemma variant_bits: "drop_bit 6 (ucast ((r AND 0xFFFFFF3F) OR 0x00000080 :: u32) :: u8) = 2"
  by (simp add: drop_bit_and drop_bit_or unsigned_and_eq unsigned_or_eq)

lemma version_mask: "((r AND 0xFF0FFFFF) OR 0x00400000) AND 0xFF0FFFFF = (r AND 0xFF0FFFFF :: u32)"
  by (simp add: bit.conj_disj_distrib2 and.assoc)

lemma le_bytes_4: "le_bytes 4 v =
    [word_of_nat v, word_of_nat (v div 256), word_of_nat (v div 65536), word_of_nat (v div 16777216)]"
proof -
  have "4 = Suc (Suc (Suc (Suc 0)))" by simp
  then show ?thesis by (simp only: le_bytes.simps) (simp add: div_mult2_eq [symmetric])
qed

lemma le_bytes_word:
  fixes d :: u32
  shows "le_bytes 4 (unat d) = [ucast d, ucast (drop_bit 8 d), ucast (drop_bit 16 d), ucast (drop_bit 24 d)]"
proof -
  have "word_of_nat (unat d div 2 ^ n) = (ucast (drop_bit n d) :: u8)" for n
    by (simp flip: drop_bit_eq_div unat_drop_bit_eq)
  from this [of 0] this [of 8] this [of 16] this [of 24] show ?thesis
    by (simp add: le_bytes_4)
qed

lemma le_val_append: "le_val (xs @ ys) = le_val xs + 256 ^ length xs * le_val ys"
  by (induction xs) (simp_all add: algebra_simps)

lemma le_val_word:
  fixes d :: u32
  shows "le_val [ucast d, ucast (drop_bit 8 d), ucast (drop_bit 16 d), ucast (drop_bit 24 d)] = unat d"
  using le_val_le_bytes [of 4 "unat d"] unsigned_less [of d, where ?'a = nat] by (simp add: le_bytes_word)

text \<open>The characters at the dashes, and the others.\<close>

definition dashes :: "nat list" where "dashes = [8, 13, 18, 23]"

lemma uuid_text_form:
  assumes "length b = 16"
  shows "length (uuid_text b) = 37 \<and> uuid_text b ! 36 = 0 \<and> map ((!) (uuid_text b)) dashes = [45, 45, 45, 45] \<and>
     list_all (\<lambda>i. is_hex (uuid_text b ! i)) (filter (\<lambda>i. i \<notin> set dashes) [0..<36])"
    and "uuid_text b ! 14 = hex_digit (unat (b ! 6) div 16)" "uuid_text b ! 19 = hex_digit (unat (b ! 8) div 16)"
    and "map2 (unhex_pair (uuid_text b)) [0, 2, 4, 6, 9, 11, 13, 16] [1, 3, 5, 7, 10, 12, 15, 17] =
       take 6 b @ [b ! 6 AND 15, b ! 7]"
proof -
  obtain b0 b1 b2 b3 b4 b5 b6 b7 b8 b9 b10 b11 b12 b13 b14 b15 where
    b: "b = [b0, b1, b2, b3, b4, b5, b6, b7, b8, b9, b10, b11, b12, b13, b14, b15]"
    using assms by (auto simp: numeral_eq_Suc length_Suc_conv)
  have hex: "is_hex (hex_digit (unat c div 16))" "is_hex (hex_digit (unat c mod 16))" for c :: u8
    using all_hex [of "unat c div 16"] all_hex [of "unat c mod 16"] unat_u8_bound [of c]
    by (simp_all add: less_mult_imp_div_less)
  show "length (uuid_text b) = 37 \<and> uuid_text b ! 36 = 0 \<and> map ((!) (uuid_text b)) dashes = [45, 45, 45, 45] \<and>
     list_all (\<lambda>i. is_hex (uuid_text b ! i)) (filter (\<lambda>i. i \<notin> set dashes) [0..<36])"
    unfolding b by (simp add: uuid_text_eq hex2 dashes_def upt_rec hex)
  show "uuid_text b ! 14 = hex_digit (unat (b ! 6) div 16)" "uuid_text b ! 19 = hex_digit (unat (b ! 8) div 16)"
    unfolding b by (simp_all add: uuid_text_eq hex2)
  have "unhex_pair (uuid_text b) 13 15 = b6 AND 15"
  proof -
    have dash: "UNHEX_VALUES ! unat (45 :: u8) = 0" by code_simp
    have "n AND 15 = n mod 16" for n :: nat
      using take_bit_eq_mask [of 4 n] by (simp add: mask_eq_exp_minus_1 take_bit_eq_mod)
    then have "word_of_nat (unat b6 mod 16) = b6 AND 15" by (simp add: word_unat_eq_iff unsigned_and_eq unat_of_nat)
    then show ?thesis
      using all_hex [of "unat b6 mod 16"] dash unfolding b by (simp add: uuid_text_eq hex2 unhex_pair_def)
  qed
  then show "map2 (unhex_pair (uuid_text b)) [0, 2, 4, 6, 9, 11, 13, 16] [1, 3, 5, 7, 10, 12, 15, 17] =
      take 6 b @ [b ! 6 AND 15, b ! 7]"
    unfolding b by (simp add: uuid_text_eq hex2 unhex_hex2)
qed

text \<open>
  C32. Whatever the random numbers, \<^verbatim>\<open>a0_uuidv4\<close> writes a version 4 UUID: 36 characters and a null byte,
  dashes at 8, 13, 18 and 23 and upper case hexadecimal digits elsewhere, version digit 4, variant
  digit 8, 9, A or B. \<^verbatim>\<open>a0_hash_uuid_fn\<close> of \<^verbatim>\<open>src/cmp.c\<close> recovers from the text exactly the first 60
  random bits: the first number, and the second without its version digit.
\<close>

theorem uuid_v4_spec:
  "let (u, _) = a0_uuidv4 urandom s; (r0, s1) = a0_mrand48 urandom s; (r1, _) = a0_mrand48 urandom s1 in
     length u = 37 \<and> u ! 36 = 0 \<and> map ((!) u) dashes = [45, 45, 45, 45] \<and>
     list_all (\<lambda>i. is_hex (u ! i)) (filter (\<lambda>i. i \<notin> set dashes) [0..<36]) \<and>
     u ! 14 = 52 \<and> u ! 19 \<in> {56, 57, 65, 66} \<and>
     a0_hash_uuid_fn u = Inr (word_of_nat (unat r0 + 2 ^ 32 * unat (r1 AND 0xFF0FFFFF)))"
proof -
  obtain r0 s1 r1 s2 r2 s3 r3 s4 where r: "a0_mrand48 urandom s = (r0, s1)" "a0_mrand48 urandom s1 = (r1, s2)"
      "a0_mrand48 urandom s2 = (r2, s3)" "a0_mrand48 urandom s3 = (r3, s4)"
    by (metis surj_pair)
  define d1 d2 where "d1 = (r1 AND 0xFF0FFFFF) OR 0x00400000" and "d2 = (r2 AND 0xFFFFFF3F) OR 0x00000080"
  let ?b = "uuid_bytes r0 r1 r2 r3" and ?u = "uuid_text (uuid_bytes r0 r1 r2 r3)"
  have b: "?b = le_bytes 4 (unat r0) @ le_bytes 4 (unat d1) @ le_bytes 4 (unat d2) @ le_bytes 4 (unat r3)"
    by (simp add: uuid_bytes_def d1_def d2_def)
  note form = uuid_text_form [OF length_uuid_bytes, of r0 r1 r2 r3]
  have "unat (?b ! 6) div 16 = unat (drop_bit 4 (?b ! 6))" by (simp only: unat_drop_bit_eq) (simp add: drop_bit_eq_div)
  also have "\<dots> = 4" using version_bits [of r1] unfolding b by (simp add: le_bytes_word d1_def)
  finally have version: "?u ! 14 = 52" using form(2) by (simp add: hex_digit_def)
  have "unat (?b ! 8) div 16 div 4 = unat (drop_bit 6 (?b ! 8))"
    by (simp only: unat_drop_bit_eq) (simp add: drop_bit_eq_div div_mult2_eq [symmetric])
  also have "\<dots> = 2" using variant_bits [of r2] unfolding b by (simp add: le_bytes_word d2_def)
  finally have "unat (?b ! 8) div 16 \<in> {8, 9, 10, 11}" by auto
  then have variant: "?u ! 19 \<in> {56, 57, 65, 66}" using form(3) by (auto simp: hex_digit_def)
  have m: "(4279238655 :: u8) = - 1" "(4194304 :: u8) = 0" "(16715775 :: u8) = - 1" "(16384 :: u8) = 0" "(65295 :: u8) = 15"
    by code_simp+
  have "take 6 ?b @ [?b ! 6 AND 15, ?b ! 7] = le_bytes 4 (unat r0) @ le_bytes 4 (unat (r1 AND 0xFF0FFFFF))"
    unfolding b le_bytes_word d1_def
    by (simp add: drop_bit_and drop_bit_or unsigned_and_eq unsigned_or_eq bit.conj_disj_distrib2 and.assoc m)
  then have "a0_hash_uuid_fn ?u = Inr (word_of_nat (unat r0 + 2 ^ 32 * unat (r1 AND 0xFF0FFFFF)))"
  proof -
    have "a0_hash_uuid_fn ?u = Inr (word_of_nat (le_val
        (map2 (unhex_pair ?u) [0, 2, 4, 6, 9, 11, 13, 16] [1, 3, 5, 7, 10, 12, 15, 17])))"
      by (simp add: a0_hash_uuid_fn_def)
    also have "\<dots> = Inr (word_of_nat (le_val (le_bytes 4 (unat r0) @ le_bytes 4 (unat (r1 AND 0xFF0FFFFF)))))"
      unfolding form(4) using \<open>take 6 ?b @ _ = _\<close> by (simp only:)
    finally show ?thesis by (simp only: le_val_append le_bytes_word le_val_word) simp
  qed
  then show ?thesis
    using form(1) version variant r by (simp add: a0_uuidv4_def)
qed

end
