(* ===== verification/Writer.thy ===== *)
theory Writer
  imports Transport Packet Time Uuid
begin

text \<open>
  \<^verbatim>\<open>src/writer.c\<close> and \<^verbatim>\<open>src/middleware.c\<close>: writing packets through a chain of middleware. A writer is
  the list of the actions along its \<^verbatim>\<open>_next\<close> pointers, a middleware one of those the library
  provides, or a composition. A packet passes the chain twice: unlocked, up to the write action,
  which locks the transport and starts over, and locked, up to the write action, which serialises
  it into a new frame.

  The JSON library is a parameter: \<open>merge\<close> takes the original text and the patch, and gives the
  merged text or the message of the step that failed. \<open>None\<close> is undefined behaviour of the source:
  a chain without a write action is followed through a null pointer, and a packet that does not fit
  is stored through an unset one, since the error of the allocation is ignored.
\<close>

section \<open>Middleware\<close>

datatype a0_middleware =
    Write_action a0_transport
  | Add_time_mono_header
  | Add_time_wall_header
  | Add_writer_id_header "u8 list"
  | Add_writer_seq_header nat
  | Add_transport_seq_header
  | Write_if_empty "nat option"
  | Json_mergepatch
  | Compose a0_middleware a0_middleware

type_synonym a0_writer = "a0_middleware list"
type_synonym json_merge = "u8 list \<Rightarrow> u8 list \<Rightarrow> string + u8 list"

text \<open>What a middleware does with a packet: return, or pass it on down the chain.\<close>

type_synonym mw_step = "(a0_err \<times> world) + (a0_packet \<times> world)"

definition str :: "string \<Rightarrow> u8 list" where
  "str s = map of_char s"

text \<open>A C string in a local buffer.\<close>

definition c_string :: "u8 list \<Rightarrow> u8 list" where
  "c_string s = takeWhile (\<lambda>c. c \<noteq> 0) s"

text \<open>A block with one header in front of the packet's.\<close>

definition add_header :: "u8 list \<Rightarrow> u8 list \<Rightarrow> a0_packet \<Rightarrow> a0_packet" where
  "add_header key val pkt = pkt\<lparr>headers_block := [(key, val)] # headers_block pkt\<rparr>"

definition A0_TIME_MONO :: "u8 list" where "A0_TIME_MONO = str ''a0_time_mono''"
definition A0_TIME_WALL :: "u8 list" where "A0_TIME_WALL = str ''a0_time_wall''"

text \<open>The source ignores that the clock cannot be read, and uses an unset time.\<close>

definition a0_add_time_mono_header_process_locked :: "a0_packet \<Rightarrow> world \<Rightarrow> (a0_packet \<times> world) option" where
  "a0_add_time_mono_header_process_locked pkt w =
     (case a0_time_mono_now w of
        (Inl _, w) \<Rightarrow> None
      | (Inr time_mono, w) \<Rightarrow>
          Option.bind (a0_time_mono_str time_mono (replicate 20 0)) (\<lambda>mono_str.
            Some (add_header A0_TIME_MONO (c_string mono_str) pkt, w)))"

definition a0_add_time_wall_header_process :: "a0_packet \<Rightarrow> world \<Rightarrow> (a0_packet \<times> world) option" where
  "a0_add_time_wall_header_process pkt w =
     (case a0_time_wall_now w of
        (Inl _, w) \<Rightarrow> None
      | (Inr time_wall, w) \<Rightarrow>
          Option.bind (a0_time_wall_str time_wall (replicate 36 0)) (\<lambda>wall_str.
            Some (add_header A0_TIME_WALL (c_string wall_str) pkt, w)))"

definition a0_add_writer_id_header_process :: "u8 list \<Rightarrow> a0_packet \<Rightarrow> a0_packet" where
  "a0_add_writer_id_header_process data pkt = add_header (str ''a0_writer_id'') (c_string data) pkt"

text \<open>A number in a buffer of 20 bytes, from its first digit.\<close>

definition seq_str :: "nat \<Rightarrow> u8 list option" where
  "seq_str seq = map_option (\<lambda>(digits, start). drop start digits) (a0_u64_to_str seq (replicate 19 0))"

definition a0_add_writer_seq_header_process :: "nat \<Rightarrow> a0_packet \<Rightarrow> world \<Rightarrow> (a0_packet \<times> world) option" where
  "a0_add_writer_seq_header_process data pkt w =
     (let seq = ld64 (mm w) data;
          w = wr 8 data (add64 seq 1) w
      in Option.bind (seq_str seq) (\<lambda>s. Some (add_header (str ''a0_writer_seq'') s pkt, w)))"

definition a0_add_transport_seq_header_process_locked :: "a0_packet \<Rightarrow> world \<Rightarrow> (a0_packet \<times> world) option" where
  "a0_add_transport_seq_header_process_locked pkt w =
     (let seq = a0_transport_seq_high w
      in Option.bind (seq_str seq) (\<lambda>s. Some (add_header (str ''a0_transport_seq'') s pkt, w)))"

text \<open>\<open>data\<close> is the address of the caller's flag, if there is one.\<close>

definition a0_write_if_empty_process_locked :: "nat option \<Rightarrow> a0_transport \<Rightarrow> a0_packet \<Rightarrow> world \<Rightarrow> mw_step" where
  "a0_write_if_empty_process_locked data tlk pkt w =
     (let empty = a0_transport_empty w;
          w = (case data of None \<Rightarrow> w | Some addr \<Rightarrow> wr 1 addr (if empty then 1 else 0) w)
      in if \<not> empty then Inl (A0_OK, a0_transport_unlock tlk w) else Inr (pkt, w))"

text \<open>\<open>None\<close>: the frame cannot be read, and the source would use an unset pointer.\<close>

definition a0_json_mergepatch_process_locked_nonempty ::
    "json_merge \<Rightarrow> a0_transport \<Rightarrow> a0_packet \<Rightarrow> world \<Rightarrow> mw_step option" where
  "a0_json_mergepatch_process_locked_nonempty merge tlk pkt w =
     (let (_, tlk) = a0_transport_jump_tail tlk w
      in case a0_transport_frame tlk w of
           Inl _ \<Rightarrow> None
         | Inr frame \<Rightarrow>
             let flat_packet = (frame + sizeof_frame_hdr, ld64 (mm w) (fr_size_at frame));
                 original_payload = a0_flat_packet_payload flat_packet (mm w);
                 original = bytes (mm w) (fst original_payload) (snd original_payload)
             in case merge original (pkt_payload pkt) of
                  Inl msg \<Rightarrow> Some (Inl (A0_ERR_CUSTOM_MSG msg, a0_transport_unlock tlk w))
                | Inr data \<Rightarrow> Some (Inr (pkt\<lparr>pkt_payload := data\<rparr>, w)))"

definition a0_json_mergepatch_process_locked ::
    "json_merge \<Rightarrow> a0_transport \<Rightarrow> a0_packet \<Rightarrow> world \<Rightarrow> mw_step option" where
  "a0_json_mergepatch_process_locked merge tlk pkt w =
     (if a0_transport_empty w then Some (Inr (pkt, w))
      else a0_json_mergepatch_process_locked_nonempty merge tlk pkt w)"

section \<open>The write action\<close>

definition a0_write_action_process_locked :: "a0_transport \<Rightarrow> a0_packet \<Rightarrow> world \<Rightarrow> (a0_err \<times> world) option" where
  "a0_write_action_process_locked tlk pkt w =
     Option.bind (a0_packet_serialize pkt (a0_transport_allocator_impl tlk) w) (\<lambda>(_, w).
     Option.bind (a0_transport_commit w) (\<lambda>w.
     Some (A0_OK, a0_transport_unlock tlk w)))"

section \<open>The chain\<close>

text \<open>
  The methods of the simple middleware. Those without a method for the phase pass the packet on.
\<close>

definition process :: "a0_middleware \<Rightarrow> a0_packet \<Rightarrow> world \<Rightarrow> mw_step option" where
  "process m pkt w =
     (case m of
        Add_time_wall_header \<Rightarrow> map_option Inr (a0_add_time_wall_header_process pkt w)
      | Add_writer_id_header data \<Rightarrow> Some (Inr (a0_add_writer_id_header_process data pkt, w))
      | Add_writer_seq_header data \<Rightarrow> map_option Inr (a0_add_writer_seq_header_process data pkt w)
      | _ \<Rightarrow> Some (Inr (pkt, w)))"

definition process_locked :: "json_merge \<Rightarrow> a0_middleware \<Rightarrow> a0_transport \<Rightarrow> a0_packet \<Rightarrow> world \<Rightarrow> mw_step option" where
  "process_locked merge m tlk pkt w =
     (case m of
        Add_time_mono_header \<Rightarrow> map_option Inr (a0_add_time_mono_header_process_locked pkt w)
      | Add_transport_seq_header \<Rightarrow> map_option Inr (a0_add_transport_seq_header_process_locked pkt w)
      | Write_if_empty data \<Rightarrow> Some (a0_write_if_empty_process_locked data tlk pkt w)
      | Json_mergepatch \<Rightarrow> a0_json_mergepatch_process_locked merge tlk pkt w
      | _ \<Rightarrow> Some (Inr (pkt, w)))"

definition process_mw :: "json_merge \<Rightarrow> a0_middleware \<Rightarrow> a0_transport option \<Rightarrow> a0_packet \<Rightarrow> world \<Rightarrow> mw_step option" where
  "process_mw merge m tlk pkt w =
     (case tlk of None \<Rightarrow> process m pkt w | Some tlk \<Rightarrow> process_locked merge m tlk pkt w)"

text \<open>The chain that a composition goes on with: both members in front of the rest.\<close>

definition a0_compose_process :: "a0_middleware \<Rightarrow> a0_middleware \<Rightarrow> a0_writer \<Rightarrow> a0_writer" where
  [simp]: "a0_compose_process first second rest = first # second # rest"

text \<open>Where the chain goes on after the lock: at its head, with the transport locked.\<close>

definition a0_write_action_process :: "a0_transport \<Rightarrow> a0_writer \<Rightarrow> world \<Rightarrow> a0_writer \<times> a0_transport \<times> world" where
  [simp]: "a0_write_action_process transport head w = (head, transport, a0_transport_lock transport w)"

fun mw_size :: "a0_middleware \<Rightarrow> nat" where
  "mw_size (Compose f s) = mw_size f + mw_size s + 1"
| "mw_size _ = 1"

text \<open>\<open>node\<close> is the rest of the chain, \<open>head\<close> the whole of it, \<open>tlk\<close> the locked transport.\<close>

function a0_writer_write_impl ::
    "json_merge \<Rightarrow> a0_writer \<Rightarrow> a0_writer \<Rightarrow> a0_transport option \<Rightarrow> a0_packet \<Rightarrow> world \<Rightarrow> (a0_err \<times> world) option" where
  "a0_writer_write_impl merge node head tlk pkt w =
     (case node of
        [] \<Rightarrow> None
      | action # rest \<Rightarrow>
          (case action of
             Compose f s \<Rightarrow> a0_writer_write_impl merge (a0_compose_process f s rest) head tlk pkt w
           | Write_action transport \<Rightarrow>
               (case tlk of
                  None \<Rightarrow>
                    (case a0_write_action_process transport head w of
                       (next_node, tlk, w) \<Rightarrow> a0_writer_write_impl merge next_node head (Some tlk) pkt w)
                | Some tlk \<Rightarrow> a0_write_action_process_locked tlk pkt w)
           | _ \<Rightarrow>
               (case process_mw merge action tlk pkt w of
                  None \<Rightarrow> None
                | Some (Inl r) \<Rightarrow> Some r
                | Some (Inr (pkt, w)) \<Rightarrow> a0_writer_write_impl merge rest head tlk pkt w)))"
  by pat_completeness auto
termination
  by (relation "measures [\<lambda>(_, _, _, tlk, _, _). if tlk = None then 1 else 0,
      \<lambda>(_, node, _, _, _, _). sum_list (map mw_size node)]") (auto split: if_splits)

declare a0_writer_write_impl.simps [simp del]

section \<open>Writers\<close>

definition a0_write_action_init :: "nat \<Rightarrow> a0_arena_mode \<Rightarrow> world \<Rightarrow> a0_middleware \<times> world" where
  "a0_write_action_init arena_size mode w =
     (let (transport, w) = a0_transport_init arena_size mode w in (Write_action transport, w))"

definition a0_writer_init :: "nat \<Rightarrow> a0_arena_mode \<Rightarrow> world \<Rightarrow> a0_writer \<times> world" where
  "a0_writer_init arena_size mode w =
     (let (action, w) = a0_write_action_init arena_size mode w in ([action], w))"

definition a0_writer_write :: "json_merge \<Rightarrow> a0_writer \<Rightarrow> a0_packet \<Rightarrow> world \<Rightarrow> (a0_err \<times> world) option" where
  "a0_writer_write merge w pkt = a0_writer_write_impl merge w w None pkt"

definition a0_writer_wrap :: "a0_writer \<Rightarrow> a0_middleware \<Rightarrow> a0_writer" where
  "a0_writer_wrap w middleware = middleware # w"

definition a0_middleware_compose :: "a0_middleware \<Rightarrow> a0_middleware \<Rightarrow> a0_middleware" where
  "a0_middleware_compose first second = Compose first second"

definition a0_writer_push :: "a0_writer \<Rightarrow> a0_middleware \<Rightarrow> a0_writer" where
  "a0_writer_push w middleware = a0_middleware_compose middleware (hd w) # tl w"

section \<open>The middleware provided\<close>

definition a0_add_writer_id_header :: "nat \<Rightarrow> rand_state \<Rightarrow> a0_middleware \<times> rand_state" where
  "a0_add_writer_id_header urandom s = (let (id, s) = a0_uuidv4 urandom s in (Add_writer_id_header id, s))"

text \<open>\<open>data\<close> is the address that \<^verbatim>\<open>malloc\<close> returns for the counter.\<close>

definition a0_add_writer_seq_header :: "nat \<Rightarrow> world \<Rightarrow> a0_middleware \<times> world" where
  "a0_add_writer_seq_header data w = (Add_writer_seq_header data, wr 8 data 0 w)"

definition a0_add_standard_headers ::
    "nat \<Rightarrow> nat \<Rightarrow> rand_state \<Rightarrow> world \<Rightarrow> a0_middleware \<times> rand_state \<times> world" where
  "a0_add_standard_headers data urandom s w =
     (let tmp0 = a0_middleware_compose Add_time_mono_header Add_time_wall_header;
          (writer_id, s) = a0_add_writer_id_header urandom s;
          tmp1 = a0_middleware_compose tmp0 writer_id;
          (writer_seq, w) = a0_add_writer_seq_header data w;
          tmp2 = a0_middleware_compose tmp1 writer_seq;
          tmp3 = a0_middleware_compose tmp2 Add_transport_seq_header
      in (tmp3, s, w))"

end
