(* ===== verification/Event.thy ===== *)
theory Event
  imports Mtx Bytes
begin

text \<open>
  \<^verbatim>\<open>src/event.c\<close> and \<^verbatim>\<open>src/latch.c\<close>: a flag that threads can wait for, and a counter whose reaching zero
  they can wait for. Both are a value, a mutex and a condition variable in memory. \<open>None\<close> is a wait
  that does not return.
\<close>

text \<open>Offsets in \<^verbatim>\<open>a0_event_t\<close> and \<^verbatim>\<open>a0_latch_t\<close>; the value is at 0.\<close>

definition ev_mtx :: "nat \<Rightarrow> nat" where "ev_mtx e = e + 8"
definition ev_cnd :: "nat \<Rightarrow> nat" where "ev_cnd e = e + 32"
definition sizeof_latch :: nat where "sizeof_latch = 40"

section \<open>Events\<close>

definition a0_event_is_set :: "nat \<Rightarrow> world \<Rightarrow> (a0_err + bool) \<times> world" where
  "a0_event_is_set e w =
     (let (err, w) = a0_mtx_lock (ev_mtx e) w
      in if \<not> a0_mtx_lock_successful err then (Inl err, w)
         else
           let out = mm w e \<noteq> 0;
               (_, w) = a0_mtx_unlock (ev_mtx e) w
           in (Inr out, w))"

definition a0_event_set :: "nat \<Rightarrow> world \<Rightarrow> (a0_err \<times> world) option" where
  "a0_event_set e w =
     (let (err, w) = a0_mtx_lock (ev_mtx e) w
      in if \<not> a0_mtx_lock_successful err then Some (err, w)
         else
           Option.bind (a0_cnd_broadcast (ev_cnd e) (ev_mtx e) (wr 1 e 1 w)) (\<lambda>(_, w).
             let (_, w) = a0_mtx_unlock (ev_mtx e) w in Some (A0_OK, w)))"

partial_function (option) a0_event_wait_loop :: "nat \<Rightarrow> timeout \<Rightarrow> a0_err \<Rightarrow> world \<Rightarrow> (a0_err \<times> world) option" where
  [code]: "a0_event_wait_loop e timeout err w =
     (if err = A0_OK \<and> mm w e = 0 then
        (case a0_cnd_timedwait (ev_cnd e) (ev_mtx e) timeout w of (err, w) \<Rightarrow> a0_event_wait_loop e timeout err w)
      else Some (err, w))"

text \<open>The error of the wait, as it reads after the unlock (\<open>resys\<close>).\<close>

definition a0_event_timedwait :: "nat \<Rightarrow> timeout \<Rightarrow> world \<Rightarrow> (a0_err \<times> world) option" where
  "a0_event_timedwait e timeout w =
     (let (err, w) = a0_mtx_lock (ev_mtx e) w
      in if \<not> a0_mtx_lock_successful err then Some (err, w)
         else
           Option.bind (a0_event_wait_loop e timeout A0_OK w) (\<lambda>(err, w).
             let (err', w) = a0_mtx_unlock (ev_mtx e) w in Some (resys err err', w)))"

definition a0_event_wait :: "nat \<Rightarrow> world \<Rightarrow> (a0_err \<times> world) option" where
  "a0_event_wait e w = a0_event_timedwait e None w"

section \<open>Latches\<close>

text \<open>The counter is a signed 32-bit integer.\<close>

definition latch_done :: "nat \<Rightarrow> world \<Rightarrow> bool" where
  "latch_done l w \<longleftrightarrow> sint (ld32 (mm w) l) \<le> 0"

definition a0_latch_init :: "nat \<Rightarrow> u32 \<Rightarrow> world \<Rightarrow> world" where
  "a0_latch_init l init_val w = wr32 l init_val (wr_bytes l (replicate sizeof_latch 0) w)"

text \<open>Under the lock: count down, and wake the waiters when the counter has run down.\<close>

definition latch_update :: "nat \<Rightarrow> u32 \<Rightarrow> world \<Rightarrow> world option" where
  "latch_update l update w =
     (let w = wr32 l (ld32 (mm w) l - update) w
      in if latch_done l w then map_option snd (a0_cnd_broadcast (ev_cnd l) (ev_mtx l) w) else Some w)"

definition a0_latch_count_down :: "nat \<Rightarrow> u32 \<Rightarrow> world \<Rightarrow> (a0_err \<times> world) option" where
  "a0_latch_count_down l update w =
     (let (err, w) = a0_mtx_lock (ev_mtx l) w
      in if \<not> a0_mtx_lock_successful err then Some (err, w)
         else map_option (\<lambda>w. (A0_OK, snd (a0_mtx_unlock (ev_mtx l) w))) (latch_update l update w))"

definition a0_latch_try_wait :: "nat \<Rightarrow> world \<Rightarrow> (a0_err + bool) \<times> world" where
  "a0_latch_try_wait l w =
     (let (err, w) = a0_mtx_lock (ev_mtx l) w
      in if \<not> a0_mtx_lock_successful err then (Inl err, w)
         else
           let out = latch_done l w;
               (_, w) = a0_mtx_unlock (ev_mtx l) w
           in (Inr out, w))"

partial_function (option) a0_latch_wait_loop :: "nat \<Rightarrow> world \<Rightarrow> world option" where
  [code]: "a0_latch_wait_loop l w =
     (if latch_done l w then Some w
      else (case a0_cnd_wait (ev_cnd l) (ev_mtx l) w of (_, w) \<Rightarrow> a0_latch_wait_loop l w))"

definition a0_latch_arrive_and_wait :: "nat \<Rightarrow> u32 \<Rightarrow> world \<Rightarrow> (a0_err \<times> world) option" where
  "a0_latch_arrive_and_wait l update w =
     (let (err, w) = a0_mtx_lock (ev_mtx l) w
      in if \<not> a0_mtx_lock_successful err then Some (err, w)
         else
           Option.bind (latch_update l update w) (\<lambda>w.
           Option.bind (a0_latch_wait_loop l w) (\<lambda>w.
             Some (A0_OK, snd (a0_mtx_unlock (ev_mtx l) w)))))"

definition a0_latch_wait :: "nat \<Rightarrow> world \<Rightarrow> (a0_err \<times> world) option" where
  "a0_latch_wait l w = a0_latch_arrive_and_wait l 0 w"

end
