(* ===== verification/Reader.thy ===== *)
theory Reader
  imports Transport Packet Event
begin

text \<open>
  \<^verbatim>\<open>src/reader.c\<close>: readers of a transport, synchronous and threaded. A reader is its connection with
  the iterator, its options and its progress. A zero-copy callback is a function of the flat packet,
  its own state \<open>'s\<close> and the world; like the callbacks of the library itself it does not move the
  reader's iterator. \<open>others\<close> is what other threads do to the connection during a wait.

  \<open>None\<close> is a call that does not return, or undefined behaviour: a frame that cannot be read leaves
  a pointer unset, which the source does not check.
\<close>

section \<open>Options and callbacks\<close>

datatype a0_reader_init = A0_INIT_OLDEST | A0_INIT_MOST_RECENT | A0_INIT_AWAIT_NEW
datatype a0_reader_iter = A0_ITER_NEXT | A0_ITER_NEWEST

record a0_reader_options =
  opt_init :: a0_reader_init
  opt_iter :: a0_reader_iter

definition A0_READER_OPTIONS_DEFAULT :: a0_reader_options where
  "A0_READER_OPTIONS_DEFAULT = \<lparr>opt_init = A0_INIT_AWAIT_NEW, opt_iter = A0_ITER_NEXT\<rparr>"

type_synonym 's a0_zero_copy_callback = "a0_buf \<Rightarrow> 's \<Rightarrow> world \<Rightarrow> ('s \<times> world) option"
type_synonym others = "nat \<Rightarrow> a0_transport \<Rightarrow> a0_transport"

section \<open>Synchronous zero-copy reader\<close>

record a0_reader_sync_zc =
  r_transport :: a0_transport
  r_opts :: a0_reader_options
  first_read_done :: bool

definition init_jump :: "a0_reader_init \<Rightarrow> a0_transport \<Rightarrow> world \<Rightarrow> a0_transport" where
  "init_jump init t w =
     (case init of
        A0_INIT_OLDEST \<Rightarrow> snd (a0_transport_jump_head t w)
      | A0_INIT_MOST_RECENT \<Rightarrow> snd (a0_transport_jump_tail t w)
      | A0_INIT_AWAIT_NEW \<Rightarrow> snd (a0_transport_jump_tail t w))"

definition a0_reader_sync_zc_init ::
    "nat \<Rightarrow> a0_arena_mode \<Rightarrow> a0_reader_options \<Rightarrow> world \<Rightarrow> a0_reader_sync_zc \<times> world" where
  "a0_reader_sync_zc_init arena_size mode opts w =
     (let (t, w) = a0_transport_init arena_size mode w;
          w = a0_transport_lock t w;
          t = init_jump (opt_init opts) t w;
          w = a0_transport_unlock t w
      in (\<lparr>r_transport = t, r_opts = opts, first_read_done = False\<rparr>, w))"

definition steps_first :: "a0_reader_sync_zc \<Rightarrow> bool" where
  "steps_first r \<longleftrightarrow> first_read_done r \<or> opt_init (r_opts r) = A0_INIT_AWAIT_NEW"

definition a0_reader_sync_zc_can_read :: "a0_reader_sync_zc \<Rightarrow> world \<Rightarrow> bool \<times> world" where
  "a0_reader_sync_zc_can_read r w =
     (let t = r_transport r;
          w = a0_transport_lock t w;
          can_read = (if steps_first r then a0_transport_has_next t w else a0_transport_nonempty w)
      in (can_read, a0_transport_unlock t w))"

text \<open>The step of the iterator; its result is ignored.\<close>

definition iter_step :: "a0_reader_iter \<Rightarrow> a0_transport \<Rightarrow> world \<Rightarrow> a0_transport" where
  "iter_step iter t w =
     (case iter of
        A0_ITER_NEXT \<Rightarrow> snd (a0_transport_step_next t w)
      | A0_ITER_NEWEST \<Rightarrow> snd (a0_transport_jump_tail t w))"

type_synonym align = "a0_reader_sync_zc \<Rightarrow> world \<Rightarrow> (a0_err \<times> a0_reader_sync_zc \<times> world) option"

text \<open>Reading a frame: its data as a flat packet.\<close>

definition frame_packet :: "a0_transport \<Rightarrow> world \<Rightarrow> a0_buf option" where
  "frame_packet t w =
     (case a0_transport_frame t w of
        Inl _ \<Rightarrow> None
      | Inr frame \<Rightarrow> Some (frame + sizeof_frame_hdr, ld64 (mm w) (fr_size_at frame)))"

definition a0_reader_sync_zc_read_helper ::
    "'s a0_zero_copy_callback \<Rightarrow> align \<Rightarrow> a0_reader_sync_zc \<Rightarrow> 's \<Rightarrow> world
      \<Rightarrow> (a0_err \<times> 's \<times> a0_reader_sync_zc \<times> world) option" where
  "a0_reader_sync_zc_read_helper cb align_read r s w =
     Option.bind (align_read r (a0_transport_lock (r_transport r) w)) (\<lambda>(err, r, w).
       if err \<noteq> A0_OK then Some (err, s, r, a0_transport_unlock (r_transport r) w)
       else
         let r = r\<lparr>first_read_done := True\<rparr>
         in Option.bind (frame_packet (r_transport r) w) (\<lambda>flat_packet.
            Option.bind (cb flat_packet s w) (\<lambda>(s, w).
            Some (A0_OK, s, r, a0_transport_unlock (r_transport r) w))))"

definition a0_reader_sync_zc_read_align :: align where
  "a0_reader_sync_zc_read_align r w =
     (let t = r_transport r
      in if a0_transport_empty w then Some (A0_ERR_AGAIN, r, w)
         else if steps_first r \<and> \<not> a0_transport_has_next t w then Some (A0_ERR_AGAIN, r, w)
         else
           let should_step = (steps_first r \<or> \<not> a0_transport_iter_valid t w);
               t = (if should_step then iter_step (opt_iter (r_opts r)) t w else t)
           in Some (A0_OK, r\<lparr>r_transport := t\<rparr>, w))"

definition a0_reader_sync_zc_read ::
    "'s a0_zero_copy_callback \<Rightarrow> a0_reader_sync_zc \<Rightarrow> 's \<Rightarrow> world
      \<Rightarrow> (a0_err \<times> 's \<times> a0_reader_sync_zc \<times> world) option" where
  "a0_reader_sync_zc_read cb r s w = a0_reader_sync_zc_read_helper cb a0_reader_sync_zc_read_align r s w"

definition a0_reader_sync_zc_read_blocking_align :: "others \<Rightarrow> align" where
  "a0_reader_sync_zc_read_blocking_align others r w =
     Option.bind (a0_transport_wait others a0_transport_nonempty_pred (r_transport r) w) (\<lambda>(err, t, w).
       if err \<noteq> A0_OK then Some (err, r\<lparr>r_transport := t\<rparr>, w)
       else
         let should_step = (steps_first r \<or> \<not> a0_transport_iter_valid t w)
         in if should_step then
              Option.bind (a0_transport_wait others a0_transport_has_next_pred t w) (\<lambda>(err, t, w).
                if err \<noteq> A0_OK then Some (err, r\<lparr>r_transport := t\<rparr>, w)
                else Some (A0_OK, r\<lparr>r_transport := iter_step (opt_iter (r_opts r)) t w\<rparr>, w))
            else Some (A0_OK, r\<lparr>r_transport := t\<rparr>, w))"

definition a0_reader_sync_zc_read_blocking ::
    "others \<Rightarrow> 's a0_zero_copy_callback \<Rightarrow> a0_reader_sync_zc \<Rightarrow> 's \<Rightarrow> world
      \<Rightarrow> (a0_err \<times> 's \<times> a0_reader_sync_zc \<times> world) option" where
  "a0_reader_sync_zc_read_blocking others cb r s w =
     a0_reader_sync_zc_read_helper cb (a0_reader_sync_zc_read_blocking_align others) r s w"

definition a0_reader_sync_zc_read_blocking_timeout_align :: "others \<Rightarrow> timeout \<Rightarrow> align" where
  "a0_reader_sync_zc_read_blocking_timeout_align others timeout r w =
     Option.bind (a0_transport_timedwait others a0_transport_nonempty_pred timeout (r_transport r) w) (\<lambda>(err, t, w).
       if err \<noteq> A0_OK then Some (err, r\<lparr>r_transport := t\<rparr>, w)
       else
         let should_step = (steps_first r \<or> \<not> a0_transport_iter_valid t w)
         in if should_step then
              Option.bind (a0_transport_timedwait others a0_transport_has_next_pred timeout t w) (\<lambda>(err, t, w).
                if err \<noteq> A0_OK then Some (err, r\<lparr>r_transport := t\<rparr>, w)
                else Some (A0_OK, r\<lparr>r_transport := iter_step (opt_iter (r_opts r)) t w\<rparr>, w))
            else Some (A0_OK, r\<lparr>r_transport := t\<rparr>, w))"

definition a0_reader_sync_zc_read_blocking_timeout ::
    "others \<Rightarrow> timeout \<Rightarrow> 's a0_zero_copy_callback \<Rightarrow> a0_reader_sync_zc \<Rightarrow> 's \<Rightarrow> world
      \<Rightarrow> (a0_err \<times> 's \<times> a0_reader_sync_zc \<times> world) option" where
  "a0_reader_sync_zc_read_blocking_timeout others timeout cb r s w =
     a0_reader_sync_zc_read_helper cb (a0_reader_sync_zc_read_blocking_timeout_align others timeout) r s w"

section \<open>Synchronous reader\<close>

record a0_reader_sync =
  sync_zc :: a0_reader_sync_zc
  sync_alloc :: a0_alloc

definition a0_reader_sync_init ::
    "nat \<Rightarrow> a0_arena_mode \<Rightarrow> a0_alloc \<Rightarrow> a0_reader_options \<Rightarrow> world \<Rightarrow> a0_reader_sync \<times> world" where
  "a0_reader_sync_init arena_size mode alloc opts w =
     (let (zc, w) = a0_reader_sync_zc_init arena_size mode opts w in (\<lparr>sync_zc = zc, sync_alloc = alloc\<rparr>, w))"

definition a0_reader_sync_can_read :: "a0_reader_sync \<Rightarrow> world \<Rightarrow> bool \<times> world" where
  "a0_reader_sync_can_read r w = a0_reader_sync_zc_can_read (sync_zc r) w"

text \<open>The state of the callback is the packet read, if there is one.\<close>

definition a0_reader_sync_read_impl :: "a0_alloc \<Rightarrow> packet_ref option a0_zero_copy_callback" where
  "a0_reader_sync_read_impl alloc fpkt pkt w =
     map_option (\<lambda>(pkt, _, w). (Some pkt, w)) (a0_packet_deserialize fpkt alloc w)"

definition a0_reader_sync_read ::
    "a0_reader_sync \<Rightarrow> world \<Rightarrow> (a0_err \<times> packet_ref option \<times> a0_reader_sync \<times> world) option" where
  "a0_reader_sync_read r w =
     map_option (\<lambda>(err, pkt, zc, w). (err, pkt, r\<lparr>sync_zc := zc\<rparr>, w))
       (a0_reader_sync_zc_read (a0_reader_sync_read_impl (sync_alloc r)) (sync_zc r) None w)"

definition a0_reader_sync_read_blocking_timeout ::
    "others \<Rightarrow> timeout \<Rightarrow> a0_reader_sync \<Rightarrow> world \<Rightarrow> (a0_err \<times> packet_ref option \<times> a0_reader_sync \<times> world) option" where
  "a0_reader_sync_read_blocking_timeout others timeout r w =
     map_option (\<lambda>(err, pkt, zc, w). (err, pkt, r\<lparr>sync_zc := zc\<rparr>, w))
       (a0_reader_sync_zc_read_blocking_timeout others timeout (a0_reader_sync_read_impl (sync_alloc r)) (sync_zc r) None w)"

definition a0_reader_sync_read_blocking ::
    "others \<Rightarrow> a0_reader_sync \<Rightarrow> world \<Rightarrow> (a0_err \<times> packet_ref option \<times> a0_reader_sync \<times> world) option" where
  "a0_reader_sync_read_blocking others r w = a0_reader_sync_read_blocking_timeout others None r w"

section \<open>Threaded zero-copy reader\<close>

record a0_reader_zc =
  zc_transport :: a0_transport
  started_empty :: bool
  zc_opts :: a0_reader_options
  thread_id :: u32
  thread_start_event :: nat

definition a0_reader_zc_thread_handle_pkt ::
    "'s a0_zero_copy_callback \<Rightarrow> a0_reader_zc \<Rightarrow> 's \<Rightarrow> world \<Rightarrow> ('s \<times> world) option" where
  "a0_reader_zc_thread_handle_pkt onpacket r s w =
     Option.bind (frame_packet (zc_transport r) w) (\<lambda>fpkt. onpacket fpkt s w)"

text \<open>The first component of the result: whether to go on.\<close>

definition a0_reader_zc_thread_handle_first_pkt ::
    "others \<Rightarrow> 's a0_zero_copy_callback \<Rightarrow> a0_reader_zc \<Rightarrow> 's \<Rightarrow> world \<Rightarrow> (bool \<times> a0_reader_zc \<times> 's \<times> world) option" where
  "a0_reader_zc_thread_handle_first_pkt others onpacket r s w =
     Option.bind (a0_transport_wait others a0_transport_nonempty_pred (zc_transport r) w) (\<lambda>(err, t, w).
       if err = A0_OK then
         let reset = (started_empty r \<or> \<not> a0_transport_iter_valid t w);
             t = (if reset then snd (a0_transport_jump_head t w) else t);
             r = r\<lparr>zc_transport := t\<rparr>
         in if reset \<or> opt_init (zc_opts r) = A0_INIT_OLDEST \<or> opt_init (zc_opts r) = A0_INIT_MOST_RECENT then
              map_option (\<lambda>(s, w). (True, r, s, w)) (a0_reader_zc_thread_handle_pkt onpacket r s w)
            else Some (True, r, s, w)
       else Some (False, r\<lparr>zc_transport := t\<rparr>, s, w))"

definition a0_reader_zc_thread_handle_next_pkt ::
    "others \<Rightarrow> 's a0_zero_copy_callback \<Rightarrow> a0_reader_zc \<Rightarrow> 's \<Rightarrow> world \<Rightarrow> (bool \<times> a0_reader_zc \<times> 's \<times> world) option" where
  "a0_reader_zc_thread_handle_next_pkt others onpacket r s w =
     Option.bind (a0_transport_wait others a0_transport_has_next_pred (zc_transport r) w) (\<lambda>(err, t, w).
       if err = A0_OK then
         let r = r\<lparr>zc_transport := iter_step (opt_iter (zc_opts r)) t w\<rparr>
         in map_option (\<lambda>(s, w). (True, r, s, w)) (a0_reader_zc_thread_handle_pkt onpacket r s w)
       else Some (False, r\<lparr>zc_transport := t\<rparr>, s, w))"

partial_function (option) a0_reader_zc_thread_loop ::
    "others \<Rightarrow> 's a0_zero_copy_callback \<Rightarrow> a0_reader_zc \<Rightarrow> 's \<Rightarrow> world \<Rightarrow> (a0_reader_zc \<times> 's \<times> world) option" where
  [code]: "a0_reader_zc_thread_loop others onpacket r s w =
     Option.bind (a0_reader_zc_thread_handle_next_pkt others onpacket r s w) (\<lambda>(more, r, s, w).
       if more then a0_reader_zc_thread_loop others onpacket r s w else Some (r, s, w))"

definition a0_reader_zc_thread_main ::
    "others \<Rightarrow> 's a0_zero_copy_callback \<Rightarrow> a0_reader_zc \<Rightarrow> 's \<Rightarrow> world \<Rightarrow> (a0_reader_zc \<times> 's \<times> world) option" where
  "a0_reader_zc_thread_main others onpacket r s w =
     (let r = r\<lparr>thread_id := gettid w\<rparr>
      in Option.bind (a0_event_set (thread_start_event r) w) (\<lambda>(_, w).
         Option.bind (a0_reader_zc_thread_handle_first_pkt others onpacket r s (a0_transport_lock (zc_transport r) w))
           (\<lambda>(more, r, s, w).
             Option.bind (if more then a0_reader_zc_thread_loop others onpacket r s w else Some (r, s, w)) (\<lambda>(r, s, w).
               Some (r, s, a0_transport_unlock (zc_transport r) w)))))"

text \<open>\<open>event\<close> is the address of the start event. The thread then runs \<open>a0_reader_zc_thread_main\<close>.\<close>

definition a0_reader_zc_init ::
    "nat \<Rightarrow> a0_arena_mode \<Rightarrow> a0_reader_options \<Rightarrow> nat \<Rightarrow> world \<Rightarrow> a0_reader_zc \<times> world" where
  "a0_reader_zc_init arena_size mode opts event w =
     (let w = wr_bytes event (replicate sizeof_latch 0) w;
          (t, w) = a0_transport_init arena_size mode w;
          w = a0_transport_lock t w;
          empty = a0_transport_empty w;
          t = (if \<not> empty then init_jump (opt_init opts) t w else t);
          w = a0_transport_unlock t w
      in (\<lparr>zc_transport = t, started_empty = empty, zc_opts = opts, thread_id = 0, thread_start_event = event\<rparr>, w))"

text \<open>\<open>pthread_self\<close>, an identifier of the pthread library, is compared with a kernel thread number.\<close>

definition a0_reader_zc_close ::
    "nat \<Rightarrow> others \<Rightarrow> a0_reader_zc \<Rightarrow> world \<Rightarrow> (a0_err \<times> a0_reader_zc \<times> world) option" where
  "a0_reader_zc_close pthread_self others r w =
     Option.bind (a0_event_wait (thread_start_event r) w) (\<lambda>(_, w).
       if pthread_self = unat (thread_id r) then Some (A0_MAKE_SYSERR EDEADLK, r, w)
       else
         Option.bind (a0_transport_shutdown others (zc_transport r) (a0_transport_lock (zc_transport r) w)) (\<lambda>(t, w).
           Some (A0_OK, r\<lparr>zc_transport := t\<rparr>, a0_transport_unlock t w)))"

section \<open>Threaded reader\<close>

text \<open>
  The packet is copied under the lock; the user's callback runs without it. \<open>dealloc\<close> is that of the
  reader's allocator.
\<close>

definition a0_reader_onpacket_wrapper ::
    "a0_alloc \<Rightarrow> (a0_buf \<Rightarrow> world \<Rightarrow> world) \<Rightarrow> (packet_ref \<Rightarrow> 's \<Rightarrow> world \<Rightarrow> 's \<times> world) \<Rightarrow> a0_transport
      \<Rightarrow> 's a0_zero_copy_callback" where
  "a0_reader_onpacket_wrapper alloc dealloc onpacket t fpkt s w =
     Option.bind (a0_packet_deserialize fpkt alloc w) (\<lambda>(pkt, buf, w).
       let w = a0_transport_unlock t w;
           (s, w) = onpacket pkt s w;
           w = dealloc buf w
       in Some (s, a0_transport_lock t w))"

section \<open>Random access\<close>

definition a0_read_random_access ::
    "nat \<Rightarrow> a0_arena_mode \<Rightarrow> nat \<Rightarrow> 's a0_zero_copy_callback \<Rightarrow> 's \<Rightarrow> world \<Rightarrow> (a0_err \<times> 's \<times> world) option" where
  "a0_read_random_access arena_size mode off cb s w =
     (let (t, w) = a0_transport_init arena_size mode w;
          w = a0_transport_lock t w;
          (err, t) = a0_transport_jump t off w
      in if err \<noteq> A0_OK then Some (err, s, a0_transport_unlock t w)
         else
           Option.bind (frame_packet t w) (\<lambda>fpkt.
           Option.bind (cb fpkt s w) (\<lambda>(s, w).
           Some (A0_OK, s, a0_transport_unlock t w))))"

end
