(* ===== verification/Topic.thy ===== *)
theory Topic
  imports Prelude "HOL-Library.Sublist"
begin

text \<open>
  \<^verbatim>\<open>src/env.c\<close>, the path functions of \<^verbatim>\<open>src/file.c\<close> and \<^verbatim>\<open>src/topic.c\<close>: from the name of a topic to the
  path of the file that backs it. A C string is the list of its characters before the NUL; a
  pointer that may be NULL is an option. The environment of the process is a parameter.
\<close>

section \<open>The environment\<close>

type_synonym environ = "string \<Rightarrow> string option"

definition envdef :: "environ \<Rightarrow> string \<Rightarrow> string \<Rightarrow> string" where
  "envdef getenv name def = (case getenv name of None \<Rightarrow> def | Some val \<Rightarrow> val)"

definition a0_env_root :: "environ \<Rightarrow> string" where
  "a0_env_root getenv = envdef getenv ''A0_ROOT'' ''/dev/shm/alephzero''"

definition a0_env_topic :: "environ \<Rightarrow> string option" where
  "a0_env_topic getenv = getenv ''A0_TOPIC''"

definition a0_env_topic_tmpl_cfg :: "environ \<Rightarrow> string" where
  "a0_env_topic_tmpl_cfg getenv = envdef getenv ''A0_TOPIC_TMPL_CFG'' ''{topic}.cfg.a0''"

definition a0_env_topic_tmpl_deadman :: "environ \<Rightarrow> string" where
  "a0_env_topic_tmpl_deadman getenv = envdef getenv ''A0_TOPIC_TMPL_DEADMAN'' ''{topic}.deadman''"

definition a0_env_topic_tmpl_log :: "environ \<Rightarrow> string" where
  "a0_env_topic_tmpl_log getenv = envdef getenv ''A0_TOPIC_TMPL_LOG'' ''{topic}.log.a0''"

definition a0_env_topic_tmpl_prpc :: "environ \<Rightarrow> string" where
  "a0_env_topic_tmpl_prpc getenv = envdef getenv ''A0_TOPIC_TMPL_PRPC'' ''{topic}.prpc.a0''"

definition a0_env_topic_tmpl_pubsub :: "environ \<Rightarrow> string" where
  "a0_env_topic_tmpl_pubsub getenv = envdef getenv ''A0_TOPIC_TMPL_PUBSUB'' ''{topic}.pubsub.a0''"

definition a0_env_topic_tmpl_rpc :: "environ \<Rightarrow> string" where
  "a0_env_topic_tmpl_rpc getenv = envdef getenv ''A0_TOPIC_TMPL_RPC'' ''{topic}.rpc.a0''"

section \<open>Paths\<close>

definition a0_joinpath :: "string \<Rightarrow> string \<Rightarrow> a0_err + string" where
  "a0_joinpath dir fil =
     (if dir = [] \<or> fil = [] then Inl (A0_MAKE_SYSERR ENOENT) else Inr (dir @ ''/'' @ fil))"

definition a0_abspath :: "environ \<Rightarrow> string option \<Rightarrow> a0_err + string" where
  "a0_abspath getenv rel =
     (case rel of
        None \<Rightarrow> Inl (A0_MAKE_SYSERR ENOENT)
      | Some rel \<Rightarrow>
          if rel = [] then Inl (A0_MAKE_SYSERR ENOENT)
          else if rel ! 0 = CHR ''/'' then Inr rel
          else
            let root = a0_env_root getenv
            in if root = [] then Inl (A0_MAKE_SYSERR ENOENT)
               else if root ! 0 \<noteq> CHR ''/'' then Inl (A0_MAKE_SYSERR ENOENT)
               else a0_joinpath root rel)"

lemma abspath_absolute: "a0_abspath getenv rel = Inr p \<Longrightarrow> \<exists>q. p = CHR ''/'' # q"
  by (auto simp: a0_abspath_def a0_joinpath_def Let_def neq_Nil_conv split: option.splits if_splits)

section \<open>Topics\<close>

text \<open>\<open>strstr\<close>: where \<open>needle\<close> first occurs.\<close>

fun strstr :: "string \<Rightarrow> string \<Rightarrow> nat option" where
  "strstr [] needle = (if needle = [] then Some 0 else None)"
| "strstr (c # cs) needle = (if prefix needle (c # cs) then Some 0 else map_option Suc (strstr cs needle))"

definition TOPIC :: string where "TOPIC = ''{topic}''"

record a0_topic_template_match_info =
  mi_tmpl :: string
  mi_tmpl_len :: nat
  mi_topic :: string
  mi_topic_len :: nat
  mi_prefix_len :: nat
  mi_suffix_len :: nat

definition a0_topic_match_info :: "string option \<Rightarrow> string option \<Rightarrow> a0_err + a0_topic_template_match_info" where
  "a0_topic_match_info tmpl topic =
     (case (tmpl, topic) of
        (Some tmpl, Some topic) \<Rightarrow>
          if topic = [] \<or> topic ! 0 = CHR ''/'' then Inl A0_ERR_BAD_TOPIC
          else
            (case strstr tmpl TOPIC of
               None \<Rightarrow> Inl A0_ERR_BAD_TOPIC
             | Some topic_ptr \<Rightarrow>
                 Inr \<lparr>mi_tmpl = tmpl, mi_tmpl_len = length tmpl, mi_topic = topic, mi_topic_len = length topic,
                   mi_prefix_len = topic_ptr, mi_suffix_len = length tmpl - topic_ptr - length TOPIC\<rparr>)
      | _ \<Rightarrow> Inl A0_ERR_BAD_TOPIC)"

text \<open>The three copies, into a buffer of exactly their length.\<close>

definition a0_topic_write_path :: "a0_topic_template_match_info \<Rightarrow> string" where
  "a0_topic_write_path info =
     take (mi_prefix_len info) (mi_tmpl info) @
     take (mi_topic_len info) (mi_topic info) @
     take (mi_suffix_len info) (drop (mi_prefix_len info + length TOPIC) (mi_tmpl info))"

definition a0_topic_path :: "string option \<Rightarrow> string option \<Rightarrow> a0_err + string" where
  "a0_topic_path tmpl topic =
     (case a0_topic_match_info tmpl topic of
        Inl err \<Rightarrow> Inl err
      | Inr info \<Rightarrow> Inr (a0_topic_write_path info))"

text \<open>\<open>file_open\<close> stands for \<^verbatim>\<open>a0_file_open\<close> with its options.\<close>

definition a0_topic_open :: "(string \<Rightarrow> a0_err + 'f) \<Rightarrow> string option \<Rightarrow> string option \<Rightarrow> a0_err + 'f" where
  "a0_topic_open file_open tmpl topic =
     (case a0_topic_match_info tmpl topic of
        Inl err \<Rightarrow> Inl err
      | Inr info \<Rightarrow> file_open (a0_topic_write_path info))"

lemma strstr_Some:
  "strstr s needle = Some i \<Longrightarrow> \<exists>post. s = take i s @ needle @ post \<and> i \<le> length s \<and>
     (\<forall>pre' post'. s = pre' @ needle @ post' \<longrightarrow> i \<le> length pre')"
proof (induction s arbitrary: i)
  case (Cons c cs)
  show ?case
  proof (cases "prefix needle (c # cs)")
    case True
    then show ?thesis using Cons.prems by (auto simp: prefix_def)
  next
    case False
    then obtain j where j: "strstr cs needle = Some j" "i = Suc j" using Cons.prems by auto
    from Cons.IH [OF j(1)] obtain post where post: "cs = take j cs @ needle @ post" "j \<le> length cs"
        "\<forall>pre' post'. cs = pre' @ needle @ post' \<longrightarrow> j \<le> length pre'"
      by blast
    have "i \<le> length pre'" if "c # cs = pre' @ needle @ post'" for pre' post'
      using that False post(3) j(2) by (cases pre') (auto simp: prefix_def)
    then show ?thesis using post j(2) by auto
  qed
qed (auto split: if_splits)

lemma strstr_None: "strstr s needle = None \<longleftrightarrow> \<not> sublist needle s"
  by (induction s) (auto simp: sublist_Cons_right)

lemma match_info_eq:
  assumes "topic \<noteq> []" "topic ! 0 \<noteq> CHR ''/''" "strstr tmpl TOPIC = Some i"
  shows "\<exists>post. tmpl = take i tmpl @ TOPIC @ post \<and>
     a0_topic_path (Some tmpl) (Some topic) = Inr (take i tmpl @ topic @ post)"
proof -
  obtain post where post: "tmpl = take i tmpl @ TOPIC @ post" "i \<le> length tmpl"
    using strstr_Some [OF assms(3)] by blast
  have len: "length tmpl = i + length TOPIC + length post"
    using post(2) by (subst post(1)) simp
  have "drop (i + length TOPIC) tmpl = post"
    using post(2) by (subst post(1)) simp
  then have "a0_topic_path (Some tmpl) (Some topic) = Inr (take i tmpl @ topic @ post)"
    using assms len by (simp add: a0_topic_path_def a0_topic_match_info_def a0_topic_write_path_def)
  then show ?thesis using post(1) by blast
qed

text \<open>
  C33. The path of a topic is the template with the first \<^verbatim>\<open>{topic}\<close> in it replaced by the name, so
  two topics of a protocol never share a file. A name that is missing, empty or begins with a slash, and a
  template without a place for it, are refused with \<^verbatim>\<open>A0_ERR_BAD_TOPIC\<close>, and then no file is opened.
\<close>

theorem topic_path_spec:
  assumes "tmpl = Some t"
  shows "(case topic of
       None \<Rightarrow> a0_topic_path tmpl topic = Inl A0_ERR_BAD_TOPIC
     | Some name \<Rightarrow>
         if name = [] \<or> hd name = CHR ''/'' \<or> \<not> sublist TOPIC t
         then a0_topic_path tmpl topic = Inl A0_ERR_BAD_TOPIC
         else \<exists>pre post. t = pre @ TOPIC @ post \<and> (\<forall>pre' post'. t = pre' @ TOPIC @ post' \<longrightarrow> length pre \<le> length pre') \<and>
           a0_topic_path tmpl topic = Inr (pre @ name @ post)) \<and>
     (\<forall>name' p. a0_topic_path tmpl topic = Inr p \<and> a0_topic_path tmpl name' = Inr p \<longrightarrow> name' = topic) \<and>
     a0_topic_open file_open tmpl topic =
       (case a0_topic_path tmpl topic of Inl err \<Rightarrow> Inl err | Inr p \<Rightarrow> file_open p)"
proof (intro conjI allI impI)
  have ok: "\<exists>name. topic = Some name \<and> name \<noteq> [] \<and> name ! 0 \<noteq> CHR ''/'' \<and> strstr t TOPIC \<noteq> None"
    if "a0_topic_path tmpl topic = Inr p" for topic p
    using that assms by (auto simp: a0_topic_path_def a0_topic_match_info_def split: option.splits if_splits)
  show "case topic of
       None \<Rightarrow> a0_topic_path tmpl topic = Inl A0_ERR_BAD_TOPIC
     | Some name \<Rightarrow>
         if name = [] \<or> hd name = CHR ''/'' \<or> \<not> sublist TOPIC t
         then a0_topic_path tmpl topic = Inl A0_ERR_BAD_TOPIC
         else \<exists>pre post. t = pre @ TOPIC @ post \<and> (\<forall>pre' post'. t = pre' @ TOPIC @ post' \<longrightarrow> length pre \<le> length pre') \<and>
           a0_topic_path tmpl topic = Inr (pre @ name @ post)"
  proof (cases topic)
    case (Some name)
    show ?thesis
    proof (cases "name = [] \<or> hd name = CHR ''/'' \<or> \<not> sublist TOPIC t")
      case True
      then have "name = [] \<or> name ! 0 = CHR ''/'' \<or> strstr t TOPIC = None" by (auto simp: strstr_None hd_conv_nth)
      then show ?thesis using True Some assms by (auto simp: a0_topic_path_def a0_topic_match_info_def)
    next
      case False
      then obtain i where i: "strstr t TOPIC = Some i" using strstr_None by blast
      have "name \<noteq> []" "name ! 0 \<noteq> CHR ''/''" using False by (auto simp: hd_conv_nth)
      from match_info_eq [OF this i] obtain post where post: "t = take i t @ TOPIC @ post"
          "a0_topic_path tmpl topic = Inr (take i t @ name @ post)"
        using Some assms by blast
      have "\<forall>pre' post'. t = pre' @ TOPIC @ post' \<longrightarrow> length (take i t) \<le> length pre'"
        using strstr_Some [OF i] by auto
      then have "\<exists>pre post. t = pre @ TOPIC @ post \<and>
          (\<forall>pre' post'. t = pre' @ TOPIC @ post' \<longrightarrow> length pre \<le> length pre') \<and>
          a0_topic_path tmpl topic = Inr (pre @ name @ post)"
        using post by (intro exI conjI)
      then show ?thesis unfolding Some option.case if_not_P [OF False] .
    qed
  qed (simp add: a0_topic_path_def a0_topic_match_info_def assms)
  show "name' = topic" if p: "a0_topic_path tmpl topic = Inr p \<and> a0_topic_path tmpl name' = Inr p" for name' p
  proof -
    obtain n i where n: "topic = Some n" "n \<noteq> []" "n ! 0 \<noteq> CHR ''/''" "strstr t TOPIC = Some i" using ok p by blast
    obtain n' where n': "name' = Some n'" "n' \<noteq> []" "n' ! 0 \<noteq> CHR ''/''" using ok p by blast
    obtain post post' where "t = take i t @ TOPIC @ post" "p = take i t @ n @ post"
        "t = take i t @ TOPIC @ post'" "p = take i t @ n' @ post'"
      using match_info_eq [OF n(2-4)] match_info_eq [OF n'(2,3) n(4)] p n(1) n'(1) assms by auto
    then show ?thesis using n(1) n'(1) by (metis append_same_eq same_append_eq)
  qed
  show "a0_topic_open file_open tmpl topic =
      (case a0_topic_path tmpl topic of Inl err \<Rightarrow> Inl err | Inr p \<Rightarrow> file_open p)"
    by (simp add: a0_topic_open_def a0_topic_path_def split: sum.split)
qed

theorem topic_path_spec_witness:
  "a0_topic_path (Some ''{topic}.pubsub.a0'') (Some ''cam'') = Inr ''cam.pubsub.a0''"
proof -
  let ?t = "''{topic}.pubsub.a0''"
  have "sublist TOPIC ?t" by (simp add: TOPIC_def sublist_Cons_right)
  then have c: "\<not> (''cam'' = [] \<or> hd ''cam'' = CHR ''/'' \<or> \<not> sublist TOPIC ?t)" by simp
  obtain pre post where p: "?t = pre @ TOPIC @ post" "a0_topic_path (Some ?t) (Some ''cam'') = Inr (pre @ ''cam'' @ post)"
    using conjunct1 [OF topic_path_spec [where topic = "Some ''cam''", OF refl [of "Some ?t"]]]
    unfolding option.case if_not_P [OF c] by blast
  have "pre = []" using p(1) by (cases pre) (auto simp: TOPIC_def Cons_eq_append_conv)
  then show ?thesis using p by (simp add: TOPIC_def)
qed

end
