(* ===== verification/Endpoint.thy ===== *)
theory Endpoint
  imports Writer Reader Topic
begin

text \<open>
  What the endpoints of the protocols share: packets with a block of headers in front, looking up a
  header, calling a packet callback, and opening the file of a topic.

  A packet that a reader hands over is a value here, and so is a callback: \<open>None\<close> for a NULL function;
  calling it is returned as an effect.
\<close>

definition A0_DEP :: "u8 list" where "A0_DEP = str ''a0_dep''"

text \<open>The value of the first header with a key.\<close>

definition find_header :: "u8 list \<Rightarrow> a0_packet \<Rightarrow> (a0_err + u8 list) option" where
  "find_header key pkt =
     map_option (\<lambda>(r, _). map_sum id snd r)
       (a0_packet_header_iterator_next_match key (a0_packet_header_iterator_init pkt))"

text \<open>A string, with its NUL, read as a UUID.\<close>

definition uuid_at :: "u8 list \<Rightarrow> u8 list option" where
  "uuid_at s = (if length s + 1 < sizeof_uuid then None else Some (take sizeof_uuid (s @ [0])))"

definition with_block :: "header list \<Rightarrow> a0_packet \<Rightarrow> a0_packet" where
  "with_block extra_headers pkt = pkt\<lparr>headers_block := extra_headers # headers_block pkt\<rparr>"

text \<open>The options of the readers of the RPC and PRPC endpoints.\<close>

definition await_new :: a0_reader_options where
  "await_new = \<lparr>opt_init = A0_INIT_AWAIT_NEW, opt_iter = A0_ITER_NEXT\<rparr>"

text \<open>A topic is opened to the size and the mode of the arena in its file.\<close>

type_synonym a0_file = "nat \<times> a0_arena_mode"
type_synonym file_open = "string \<Rightarrow> a0_err + a0_file"

text \<open>A writer to a file, with the standard headers: how every endpoint that writes sets its writer up.\<close>

definition standard_writer ::
    "nat \<Rightarrow> a0_arena_mode \<Rightarrow> nat \<Rightarrow> nat \<Rightarrow> rand_state \<Rightarrow> world \<Rightarrow> a0_writer \<times> rand_state \<times> world" where
  "standard_writer arena_size mode data urandom s w =
     (let (writer, w) = a0_writer_init arena_size mode w;
          (headers, s, w) = a0_add_standard_headers data urandom s w
      in (a0_writer_push writer headers, s, w))"

text \<open>What the callback does is left to the caller: the result is the calls to make.\<close>

definition a0_packet_callback_call :: "'cb option \<Rightarrow> a0_packet \<Rightarrow> ('cb \<times> a0_packet) list" where
  "a0_packet_callback_call cb pkt = (case cb of None \<Rightarrow> [] | Some fn \<Rightarrow> [(fn, pkt)])"

end
