(* ===== verification/Cfg.thy ===== *)
theory Cfg
  imports Endpoint
begin

text \<open>
  \<^verbatim>\<open>src/cfg.c\<close>: a configuration is the newest packet of a topic. It is read with a reader that
  starts at the newest packet, and written whole, only if there is none yet, or as a JSON merge patch of the
  newest. A reader is set up for each read, and a middleware put in front of the writer for
  each special write.
\<close>

definition a0_cfg_topic_open :: "file_open \<Rightarrow> environ \<Rightarrow> string option \<Rightarrow> a0_err + a0_file" where
  "a0_cfg_topic_open file_open getenv name = a0_topic_open file_open (Some (a0_env_topic_tmpl_cfg getenv)) name"

record a0_cfg =
  cfg_file :: a0_file
  cfg_writer :: a0_writer

definition a0_cfg_init ::
    "file_open \<Rightarrow> environ \<Rightarrow> string option \<Rightarrow> nat \<Rightarrow> nat \<Rightarrow> rand_state \<Rightarrow> world \<Rightarrow> (a0_err + a0_cfg) \<times> rand_state \<times> world" where
  "a0_cfg_init file_open getenv name data urandom s w =
     (case a0_cfg_topic_open file_open getenv name of
        Inl err \<Rightarrow> (Inl err, s, w)
      | Inr file \<Rightarrow>
          let (writer, s, w) = standard_writer (fst file) (snd file) data urandom s w
          in (Inr \<lparr>cfg_file = file, cfg_writer = writer\<rparr>, s, w))"

definition most_recent :: "a0_reader_iter \<Rightarrow> a0_reader_options" where
  "most_recent iter = \<lparr>opt_init = A0_INIT_MOST_RECENT, opt_iter = iter\<rparr>"

definition a0_cfg_read :: "a0_cfg \<Rightarrow> a0_alloc \<Rightarrow> world \<Rightarrow> (a0_err \<times> packet_ref option \<times> world) option" where
  "a0_cfg_read cfg alloc w =
     (let (reader_sync, w) = a0_reader_sync_init (fst (cfg_file cfg)) (snd (cfg_file cfg)) alloc (most_recent A0_ITER_NEXT) w
      in map_option (\<lambda>(err, out, _, w). (err, out, w)) (a0_reader_sync_read reader_sync w))"

definition a0_cfg_read_blocking_timeout ::
    "others \<Rightarrow> a0_cfg \<Rightarrow> a0_alloc \<Rightarrow> timeout \<Rightarrow> world \<Rightarrow> (a0_err \<times> packet_ref option \<times> world) option" where
  "a0_cfg_read_blocking_timeout others cfg alloc timeout w =
     (let (reader_sync, w) = a0_reader_sync_init (fst (cfg_file cfg)) (snd (cfg_file cfg)) alloc (most_recent A0_ITER_NEXT) w
      in map_option (\<lambda>(err, out, _, w). (err, out, w)) (a0_reader_sync_read_blocking_timeout others timeout reader_sync w))"

definition a0_cfg_read_blocking ::
    "others \<Rightarrow> a0_cfg \<Rightarrow> a0_alloc \<Rightarrow> world \<Rightarrow> (a0_err \<times> packet_ref option \<times> world) option" where
  "a0_cfg_read_blocking others cfg alloc w = a0_cfg_read_blocking_timeout others cfg alloc None w"

definition a0_cfg_write :: "json_merge \<Rightarrow> a0_cfg \<Rightarrow> a0_packet \<Rightarrow> world \<Rightarrow> (a0_err \<times> world) option" where
  "a0_cfg_write merge cfg pkt w = a0_writer_write merge (cfg_writer cfg) pkt w"

text \<open>Without \<open>written\<close> the flag is a local variable, which nobody reads.\<close>

definition a0_cfg_write_if_empty :: "json_merge \<Rightarrow> a0_cfg \<Rightarrow> a0_packet \<Rightarrow> nat option \<Rightarrow> world \<Rightarrow> (a0_err \<times> world) option" where
  "a0_cfg_write_if_empty merge cfg pkt written w =
     (let write_if_empty_writer = a0_writer_wrap (cfg_writer cfg) (Write_if_empty written)
      in a0_writer_write merge write_if_empty_writer pkt w)"

definition a0_cfg_mergepatch :: "json_merge \<Rightarrow> a0_cfg \<Rightarrow> a0_packet \<Rightarrow> world \<Rightarrow> (a0_err \<times> world) option" where
  "a0_cfg_mergepatch merge cfg pkt w =
     (let writer = a0_writer_wrap (cfg_writer cfg) Json_mergepatch
      in a0_writer_write merge writer pkt w)"

record a0_cfg_watcher =
  cw_file :: a0_file
  cw_reader :: a0_reader_zc
  cw_alloc :: a0_alloc

definition a0_cfg_watcher_init ::
    "file_open \<Rightarrow> environ \<Rightarrow> string option \<Rightarrow> a0_alloc \<Rightarrow> nat \<Rightarrow> world \<Rightarrow> (a0_err + a0_cfg_watcher) \<times> world" where
  "a0_cfg_watcher_init file_open getenv name alloc event w =
     (case a0_cfg_topic_open file_open getenv name of
        Inl err \<Rightarrow> (Inl err, w)
      | Inr file \<Rightarrow>
          let (reader, w) = a0_reader_zc_init (fst file) (snd file) (most_recent A0_ITER_NEWEST) event w
          in (Inr \<lparr>cw_file = file, cw_reader = reader, cw_alloc = alloc\<rparr>, w))"

definition a0_cfg_watcher_close ::
    "nat \<Rightarrow> others \<Rightarrow> a0_cfg_watcher \<Rightarrow> world \<Rightarrow> (a0_err \<times> a0_cfg_watcher \<times> world) option" where
  "a0_cfg_watcher_close pthread_self others cw w =
     map_option (\<lambda>(_, reader, w). (A0_OK, cw\<lparr>cw_reader := reader\<rparr>, w))
       (a0_reader_zc_close pthread_self others (cw_reader cw) w)"

end
