(* ===== verification/Pubsub.thy ===== *)
theory Pubsub
  imports Endpoint
begin

text \<open>
  \<^verbatim>\<open>src/pubsub.c\<close>: publishers write packets with the standard headers to the file of a topic, subscribers read
  them, in the ways that readers offer. Opening the file is a parameter; \<open>data\<close> and \<open>event\<close> are the addresses of
  the writer's counter and the reader's start event. The thread of a threaded subscriber runs
  \<open>a0_reader_zc_thread_main\<close>.
\<close>

definition a0_pubsub_topic_open :: "file_open \<Rightarrow> environ \<Rightarrow> string option \<Rightarrow> a0_err + a0_file" where
  "a0_pubsub_topic_open file_open getenv name = a0_topic_open file_open (Some (a0_env_topic_tmpl_pubsub getenv)) name"

section \<open>Publisher\<close>

record a0_publisher =
  pub_file :: a0_file
  pub_writer :: a0_writer

definition a0_publisher_init ::
    "file_open \<Rightarrow> environ \<Rightarrow> string option \<Rightarrow> nat \<Rightarrow> nat \<Rightarrow> rand_state \<Rightarrow> world \<Rightarrow> (a0_err + a0_publisher) \<times> rand_state \<times> world" where
  "a0_publisher_init file_open getenv name data urandom s w =
     (case a0_pubsub_topic_open file_open getenv name of
        Inl err \<Rightarrow> (Inl err, s, w)
      | Inr file \<Rightarrow>
          let (writer, s, w) = standard_writer (fst file) (snd file) data urandom s w
          in (Inr \<lparr>pub_file = file, pub_writer = writer\<rparr>, s, w))"

definition a0_publisher_pub :: "json_merge \<Rightarrow> a0_publisher \<Rightarrow> a0_packet \<Rightarrow> world \<Rightarrow> (a0_err \<times> world) option" where
  "a0_publisher_pub merge pub pkt w = a0_writer_write merge (pub_writer pub) pkt w"

definition a0_publisher_writer :: "a0_publisher \<Rightarrow> a0_writer" where
  "a0_publisher_writer pub = pub_writer pub"

section \<open>Synchronous subscribers\<close>

record a0_subscriber_sync_zc =
  ssz_file :: a0_file
  ssz_reader :: a0_reader_sync_zc

definition a0_subscriber_sync_zc_init ::
    "file_open \<Rightarrow> environ \<Rightarrow> string option \<Rightarrow> a0_reader_options \<Rightarrow> world \<Rightarrow> (a0_err + a0_subscriber_sync_zc) \<times> world" where
  "a0_subscriber_sync_zc_init file_open getenv name opts w =
     (case a0_pubsub_topic_open file_open getenv name of
        Inl err \<Rightarrow> (Inl err, w)
      | Inr file \<Rightarrow>
          let (reader, w) = a0_reader_sync_zc_init (fst file) (snd file) opts w
          in (Inr \<lparr>ssz_file = file, ssz_reader = reader\<rparr>, w))"

definition a0_subscriber_sync_zc_can_read :: "a0_subscriber_sync_zc \<Rightarrow> world \<Rightarrow> bool \<times> world" where
  "a0_subscriber_sync_zc_can_read sub w = a0_reader_sync_zc_can_read (ssz_reader sub) w"

definition a0_subscriber_sync_zc_read ::
    "'s a0_zero_copy_callback \<Rightarrow> a0_subscriber_sync_zc \<Rightarrow> 's \<Rightarrow> world \<Rightarrow> (a0_err \<times> 's \<times> a0_subscriber_sync_zc \<times> world) option" where
  "a0_subscriber_sync_zc_read onpacket sub s w =
     map_option (\<lambda>(err, s, reader, w). (err, s, sub\<lparr>ssz_reader := reader\<rparr>, w))
       (a0_reader_sync_zc_read onpacket (ssz_reader sub) s w)"

definition a0_subscriber_sync_zc_read_blocking ::
    "others \<Rightarrow> 's a0_zero_copy_callback \<Rightarrow> a0_subscriber_sync_zc \<Rightarrow> 's \<Rightarrow> world
      \<Rightarrow> (a0_err \<times> 's \<times> a0_subscriber_sync_zc \<times> world) option" where
  "a0_subscriber_sync_zc_read_blocking others onpacket sub s w =
     map_option (\<lambda>(err, s, reader, w). (err, s, sub\<lparr>ssz_reader := reader\<rparr>, w))
       (a0_reader_sync_zc_read_blocking others onpacket (ssz_reader sub) s w)"

definition a0_subscriber_sync_zc_read_blocking_timeout ::
    "others \<Rightarrow> timeout \<Rightarrow> 's a0_zero_copy_callback \<Rightarrow> a0_subscriber_sync_zc \<Rightarrow> 's \<Rightarrow> world
      \<Rightarrow> (a0_err \<times> 's \<times> a0_subscriber_sync_zc \<times> world) option" where
  "a0_subscriber_sync_zc_read_blocking_timeout others timeout onpacket sub s w =
     map_option (\<lambda>(err, s, reader, w). (err, s, sub\<lparr>ssz_reader := reader\<rparr>, w))
       (a0_reader_sync_zc_read_blocking_timeout others timeout onpacket (ssz_reader sub) s w)"

record a0_subscriber_sync =
  ss_file :: a0_file
  ss_reader :: a0_reader_sync

definition a0_subscriber_sync_init ::
    "file_open \<Rightarrow> environ \<Rightarrow> string option \<Rightarrow> a0_alloc \<Rightarrow> a0_reader_options \<Rightarrow> world \<Rightarrow> (a0_err + a0_subscriber_sync) \<times> world" where
  "a0_subscriber_sync_init file_open getenv name alloc opts w =
     (case a0_pubsub_topic_open file_open getenv name of
        Inl err \<Rightarrow> (Inl err, w)
      | Inr file \<Rightarrow>
          let (reader, w) = a0_reader_sync_init (fst file) (snd file) alloc opts w
          in (Inr \<lparr>ss_file = file, ss_reader = reader\<rparr>, w))"

definition a0_subscriber_sync_can_read :: "a0_subscriber_sync \<Rightarrow> world \<Rightarrow> bool \<times> world" where
  "a0_subscriber_sync_can_read sub w = a0_reader_sync_can_read (ss_reader sub) w"

definition a0_subscriber_sync_read ::
    "a0_subscriber_sync \<Rightarrow> world \<Rightarrow> (a0_err \<times> packet_ref option \<times> a0_subscriber_sync \<times> world) option" where
  "a0_subscriber_sync_read sub w =
     map_option (\<lambda>(err, pkt, reader, w). (err, pkt, sub\<lparr>ss_reader := reader\<rparr>, w)) (a0_reader_sync_read (ss_reader sub) w)"

definition a0_subscriber_sync_read_blocking ::
    "others \<Rightarrow> a0_subscriber_sync \<Rightarrow> world \<Rightarrow> (a0_err \<times> packet_ref option \<times> a0_subscriber_sync \<times> world) option" where
  "a0_subscriber_sync_read_blocking others sub w =
     map_option (\<lambda>(err, pkt, reader, w). (err, pkt, sub\<lparr>ss_reader := reader\<rparr>, w))
       (a0_reader_sync_read_blocking others (ss_reader sub) w)"

definition a0_subscriber_sync_read_blocking_timeout ::
    "others \<Rightarrow> timeout \<Rightarrow> a0_subscriber_sync \<Rightarrow> world \<Rightarrow> (a0_err \<times> packet_ref option \<times> a0_subscriber_sync \<times> world) option" where
  "a0_subscriber_sync_read_blocking_timeout others timeout sub w =
     map_option (\<lambda>(err, pkt, reader, w). (err, pkt, sub\<lparr>ss_reader := reader\<rparr>, w))
       (a0_reader_sync_read_blocking_timeout others timeout (ss_reader sub) w)"

section \<open>Threaded subscribers\<close>

record a0_subscriber_zc =
  sz_file :: a0_file
  sz_reader :: a0_reader_zc

definition a0_subscriber_zc_init ::
    "file_open \<Rightarrow> environ \<Rightarrow> string option \<Rightarrow> a0_reader_options \<Rightarrow> nat \<Rightarrow> world \<Rightarrow> (a0_err + a0_subscriber_zc) \<times> world" where
  "a0_subscriber_zc_init file_open getenv name opts event w =
     (case a0_pubsub_topic_open file_open getenv name of
        Inl err \<Rightarrow> (Inl err, w)
      | Inr file \<Rightarrow>
          let (reader, w) = a0_reader_zc_init (fst file) (snd file) opts event w
          in (Inr \<lparr>sz_file = file, sz_reader = reader\<rparr>, w))"

text \<open>The result of closing the reader is ignored.\<close>

definition a0_subscriber_zc_close ::
    "nat \<Rightarrow> others \<Rightarrow> a0_subscriber_zc \<Rightarrow> world \<Rightarrow> (a0_err \<times> a0_subscriber_zc \<times> world) option" where
  "a0_subscriber_zc_close pthread_self others sub w =
     map_option (\<lambda>(_, reader, w). (A0_OK, sub\<lparr>sz_reader := reader\<rparr>, w))
       (a0_reader_zc_close pthread_self others (sz_reader sub) w)"

text \<open>With an allocator, the reader's callback is \<open>a0_reader_onpacket_wrapper\<close> around the user's.\<close>

record a0_subscriber =
  s_file :: a0_file
  s_reader :: a0_reader_zc
  s_alloc :: a0_alloc

definition a0_subscriber_init ::
    "file_open \<Rightarrow> environ \<Rightarrow> string option \<Rightarrow> a0_alloc \<Rightarrow> a0_reader_options \<Rightarrow> nat \<Rightarrow> world \<Rightarrow> (a0_err + a0_subscriber) \<times> world" where
  "a0_subscriber_init file_open getenv name alloc opts event w =
     (case a0_pubsub_topic_open file_open getenv name of
        Inl err \<Rightarrow> (Inl err, w)
      | Inr file \<Rightarrow>
          let (reader, w) = a0_reader_zc_init (fst file) (snd file) opts event w
          in (Inr \<lparr>s_file = file, s_reader = reader, s_alloc = alloc\<rparr>, w))"

definition a0_subscriber_close ::
    "nat \<Rightarrow> others \<Rightarrow> a0_subscriber \<Rightarrow> world \<Rightarrow> (a0_err \<times> a0_subscriber \<times> world) option" where
  "a0_subscriber_close pthread_self others sub w =
     map_option (\<lambda>(_, reader, w). (A0_OK, sub\<lparr>s_reader := reader\<rparr>, w))
       (a0_reader_zc_close pthread_self others (s_reader sub) w)"

end
