(* ===== verification/Log_Stream.thy ===== *)
theory Log_Stream
  imports Publish
begin

text \<open>
  What a log of numbered frames promises to those who follow it: numbers only grow, and a frame
  keeps its number, place and data for as long as it is in the log. The locale states the contract,
  with the lemmas a reader needs; the log of \<^verbatim>\<open>src/transport.c\<close> is shown to keep it, whatever
  sequence of evictions, publications and clearings it goes through.
\<close>

section \<open>The contract\<close>

text \<open>\<open>low\<close> is the number of the oldest frame, \<open>high\<close> that of the newest; \<open>frame_no L n\<close> is frame \<open>n\<close>.\<close>

locale frame_log =
  fixes step :: "'l \<Rightarrow> 'l \<Rightarrow> bool" and low high :: "'l \<Rightarrow> nat" and frame_no :: "'l \<Rightarrow> nat \<Rightarrow> 'f option"
  assumes numbers_grow: "step L L' \<Longrightarrow> low L \<le> low L' \<and> high L \<le> high L'"
    and frames_stay: "step L L' \<Longrightarrow> low L' \<le> n \<Longrightarrow> n \<le> high L \<Longrightarrow> frame_no L' n = frame_no L n"
begin

lemma runs_grow: "step\<^sup>*\<^sup>* L L' \<Longrightarrow> low L \<le> low L' \<and> high L \<le> high L'"
  by (induction rule: rtranclp_induct) (auto dest: numbers_grow)

lemma runs_stay: "step\<^sup>*\<^sup>* L L' \<Longrightarrow> low L' \<le> n \<Longrightarrow> n \<le> high L \<Longrightarrow> frame_no L' n = frame_no L n"
proof (induction rule: rtranclp_induct)
  case (step L1 L2)
  then have "low L1 \<le> n" "n \<le> high L1" using numbers_grow [OF step.hyps(2)] runs_grow [OF step.hyps(1)] by simp_all
  then show ?case using step frames_stay [OF step.hyps(2)] by simp
qed simp

text \<open>A follower that has last seen frame \<open>n\<close>, at \<open>f\<close>.\<close>

definition follows :: "'l \<Rightarrow> nat \<Rightarrow> 'f \<Rightarrow> bool" where
  "follows L n f \<longleftrightarrow> n \<le> high L \<and> (low L \<le> n \<longrightarrow> frame_no L n = Some f)"

lemma follows_runs: "step\<^sup>*\<^sup>* L L' \<Longrightarrow> follows L n f \<Longrightarrow> follows L' n f"
  using runs_grow runs_stay by (fastforce simp: follows_def)

end

section \<open>The log of the transport\<close>

text \<open>A log with the data of its frames.\<close>

type_synonym stream = "tlog \<times> u8 list list"

definition numbered :: "stream \<Rightarrow> bool" where
  "numbered L \<longleftrightarrow> length (snd L) = length (frames (fst L)) \<and>
     (s_high (fst L) + 1 = s_low (fst L) + length (frames (fst L)) \<and> s_low (fst L) \<noteq> 0 \<or>
      frames (fst L) = [] \<and> s_low (fst L) = 0 \<and> s_high (fst L) = 0)"

text \<open>The steps of the log: the oldest frames go, one is published, or all are cleared.\<close>

inductive log_step :: "stream \<Rightarrow> stream \<Rightarrow> bool" where
  evict: "numbered (st, cs) \<Longrightarrow> k \<le> length cs \<Longrightarrow> log_step (st, cs) (l_evict k st, drop k cs)"
| publish: "numbered (st, cs) \<Longrightarrow> log_step (st, cs) (l_push off (length bs) st, cs @ [bs])"
| clear: "numbered (st, cs) \<Longrightarrow> log_step (st, cs) (l_clear st, [])"

inductive_cases log_stepE: "log_step L L'"

definition first_no :: "stream \<Rightarrow> nat" where
  "first_no L = max 1 (s_low (fst L))"

definition last_no :: "stream \<Rightarrow> nat" where
  "last_no L = s_high (fst L)"

text \<open>Frame \<open>n\<close>: its offset and data.\<close>

definition frame_no :: "stream \<Rightarrow> nat \<Rightarrow> (nat \<times> u8 list) option" where
  "frame_no L n = (let i = n - first_no L in
     if first_no L \<le> n \<and> n \<le> last_no L then Some (fst (frames (fst L) ! i), snd L ! i) else None)"

lemma log_step_numbered: "log_step L L' \<Longrightarrow> numbered L'"
  by (erule log_stepE) (auto simp: numbered_def l_push_def l_clear_def)

lemma log_runs_numbered: "log_step\<^sup>*\<^sup>* L L' \<Longrightarrow> numbered L \<Longrightarrow> numbered L'"
  by (induction rule: rtranclp_induct) (auto dest: log_step_numbered)

interpretation stream: frame_log log_step first_no last_no frame_no
proof
  fix L L' n
  assume step: "log_step L L'"
  then show "first_no L \<le> first_no L' \<and> last_no L \<le> last_no L'"
    by cases (auto simp: first_no_def last_no_def numbered_def l_push_def l_clear_def)
  assume n: "first_no L' \<le> n" "n \<le> last_no L"
  from step show "frame_no L' n = frame_no L n"
  proof cases
    case (evict st cs k)
    have "s_low st \<noteq> 0 \<or> k = 0" using evict by (auto simp: numbered_def)
    then have "first_no L' = first_no L + k" using evict by (auto simp: first_no_def)
    moreover have "n - first_no L < length cs" using n evict by (auto simp: first_no_def last_no_def numbered_def)
    ultimately show ?thesis
      using n evict by (auto simp: frame_no_def Let_def last_no_def numbered_def add.commute)
  next
    case (publish st cs off bs)
    have "n - first_no L < length cs" using n publish by (auto simp: first_no_def last_no_def numbered_def l_push_def)
    moreover have "first_no L' = first_no L" using publish by (auto simp: first_no_def numbered_def l_push_def)
    ultimately show ?thesis
      using n publish by (auto simp: frame_no_def Let_def last_no_def nth_append numbered_def l_push_def)
  next
    case (clear st cs)
    then show ?thesis using n by (auto simp: first_no_def last_no_def l_clear_def)
  qed
qed

text \<open>The log in memory as a stream.\<close>

definition stream_of :: "mem \<Rightarrow> tlog \<Rightarrow> stream" where
  "stream_of m st = (st, contents m st)"

lemma stream_numbered: "log_ok A st \<Longrightarrow> numbered (stream_of m st)"
  by (auto simp: numbered_def stream_of_def log_ok_def contents_def)

end
