(* ===== verification/Packet_Correct.thy ===== *)
theory Packet_Correct
  imports Packet
begin

text \<open>
  The serialised form of a packet as one byte string (\<open>flat\<close>), and the proofs that serialising
  writes exactly it, that the accessors read it back, and that deserialising and copying build the
  packet again.
\<close>

section \<open>The layout\<close>

definition hdrs_of :: "a0_packet \<Rightarrow> header list" where
  "hdrs_of pkt = concat (headers_block pkt)"

fun hdr_index :: "nat \<Rightarrow> header list \<Rightarrow> u8 list" where
  "hdr_index off [] = []"
| "hdr_index off ((key, val) # hdrs) = le_bytes 8 off @ le_bytes 8 (off + length key + 1) @
     hdr_index (off + length key + length val + 2) hdrs"

fun hdr_content :: "header list \<Rightarrow> u8 list" where
  "hdr_content [] = []"
| "hdr_content ((key, val) # hdrs) = key @ [0] @ val @ [0] @ hdr_content hdrs"

definition content_off :: "a0_packet \<Rightarrow> nat" where
  "content_off pkt = 53 + 16 * length (hdrs_of pkt)"

definition flat :: "a0_packet \<Rightarrow> u8 list" where
  "flat pkt = pkt_id pkt @ le_bytes 8 (length (hdrs_of pkt)) @ hdr_index (content_off pkt) (hdrs_of pkt) @
     le_bytes 8 (content_off pkt + length (hdr_content (hdrs_of pkt))) @
     hdr_content (hdrs_of pkt) @ pkt_payload pkt"

definition packet_ok :: "a0_packet \<Rightarrow> bool" where
  "packet_ok pkt \<longleftrightarrow> length (pkt_id pkt) = 37 \<and> length (flat pkt) < 2 ^ 64"

lemma length_hdr_index [simp]: "length (hdr_index off hs) = 16 * length hs"
  by (induction off hs rule: hdr_index.induct) auto

lemma length_content_Cons [simp]: "length (hdr_content (h # hs)) = length (fst h) + length (snd h) + 2 + length (hdr_content hs)"
  by (cases h) simp

lemma length_flat: "length (pkt_id pkt) = 37 \<Longrightarrow> length (flat pkt) =
    content_off pkt + length (hdr_content (hdrs_of pkt)) + length (pkt_payload pkt)"
  by (simp add: flat_def content_off_def)

section \<open>Sizes\<close>

lemma num_loop_eq: "n + length (concat bs) < 2 ^ 64 \<Longrightarrow> num_loop bs n = n + length (concat bs)"
  by (induction bs n rule: num_loop.induct) auto

lemma content_loop_eq: "n + length (hdr_content hs) < 2 ^ 64 \<Longrightarrow> content_loop hs n = n + length (hdr_content hs)"
  by (induction hs n rule: content_loop.induct) auto

lemma hdr_content_append: "hdr_content (xs @ ys) = hdr_content xs @ hdr_content ys"
  by (induction xs rule: hdr_content.induct) auto

lemma content_blocks_loop_eq:
  "n + length (hdr_content (concat bs)) < 2 ^ 64 \<Longrightarrow> content_blocks_loop bs n = n + length (hdr_content (concat bs))"
  by (induction bs n rule: content_blocks_loop.induct) (auto simp: hdr_content_append content_loop_eq)

lemma stats_eq:
  assumes "packet_ok pkt"
  shows "a0_packet_stats_of pkt = \<lparr>num_hdrs = length (hdrs_of pkt),
     content_size = length (hdr_content (hdrs_of pkt)) + length (pkt_payload pkt), serial_size = length (flat pkt)\<rparr>"
    "index_size (length (hdrs_of pkt)) = content_off pkt"
proof -
  have len: "length (flat pkt) = content_off pkt + length (hdr_content (hdrs_of pkt)) + length (pkt_payload pkt)"
    and small: "length (flat pkt) < 2 ^ 64" using assms length_flat by (auto simp: packet_ok_def)
  then show idx: "index_size (length (hdrs_of pkt)) = content_off pkt"
    by (simp add: index_size_def sizeof_uuid_def sizeof_size_def content_off_def)
  have "num_loop (headers_block pkt) 0 = length (hdrs_of pkt)"
    using len small by (subst num_loop_eq) (auto simp: hdrs_of_def content_off_def)
  moreover have "content_blocks_loop (headers_block pkt) 0 = length (hdr_content (hdrs_of pkt))"
    using len small by (subst content_blocks_loop_eq) (auto simp: hdrs_of_def)
  ultimately show "a0_packet_stats_of pkt = \<lparr>num_hdrs = length (hdrs_of pkt),
     content_size = length (hdr_content (hdrs_of pkt)) + length (pkt_payload pkt), serial_size = length (flat pkt)\<rparr>"
    using idx len small by (simp add: a0_packet_stats_of_def Let_def)
qed

section \<open>Serialising\<close>

lemma serialize_blocks_concat: "serialize_blocks out bs s = serialize_hdrs out (concat bs) s"
proof (induction bs arbitrary: s)
  case (Cons b bs)
  have "serialize_hdrs out (xs @ ys) s = serialize_hdrs out ys (serialize_hdrs out xs s)" for xs ys s
    by (induction out xs s rule: serialize_hdrs.induct) (auto simp: Let_def)
  then show ?case using Cons by simp
next
  case Nil
  then show ?case by (cases s) simp
qed

text \<open>
  One header, written as index entry, key, index entry, value, in front of the others: the same bytes
  as index and contents written whole. \<open>a\<close> is the place in the index, \<open>q\<close> the place in the contents.
\<close>

lemma blit_header:
  assumes "a + 16 * Suc (length hs) \<le> q"
  shows "blit (q + length key + length val + 2) (hdr_content hs)
      (blit (a + 16) (hdr_index (off + length key + length val + 2) hs)
        (blit (q + length key + 1) (val @ [0]) (blit (a + 8) (le_bytes 8 (off + length key + 1))
          (blit q (key @ [0]) (blit a (le_bytes 8 off) m))))) =
    blit q (hdr_content ((key, val) # hs)) (blit a (hdr_index off ((key, val) # hs)) m)"
proof -
  let ?i1 = "le_bytes 8 (off + length key + 1)"
  let ?hs = "hdr_index (off + length key + length val + 2) hs"
  have c1: "blit (a + 8) ?i1 (blit q (key @ [0]) m') = blit q (key @ [0]) (blit (a + 8) ?i1 m')" for m'
    using assms by (intro blit_commute) auto
  have c2: "blit (a + 16) ?hs (blit q zs m') = blit q zs (blit (a + 16) ?hs m')" for zs m'
    using assms by (intro blit_commute) auto
  have j1: "blit (q + length key + 1) (val @ [0]) (blit q (key @ [0]) m') = blit q ((key @ [0]) @ (val @ [0])) m'" for m'
    by (rule blit_join) simp
  have j2: "blit (a + 8) ?i1 (blit a (le_bytes 8 off) m') = blit a (le_bytes 8 off @ ?i1) m'" for m'
    by (rule blit_join) simp
  have j3: "blit (a + 16) ?hs (blit a (le_bytes 8 off @ ?i1) m') = blit a ((le_bytes 8 off @ ?i1) @ ?hs) m'" for m'
    by (rule blit_join) simp
  have j4: "blit (q + length key + length val + 2) (hdr_content hs) (blit q ((key @ [0]) @ (val @ [0])) m') =
      blit q (((key @ [0]) @ (val @ [0])) @ hdr_content hs) m'" for m'
    by (rule blit_join) simp
  show ?thesis unfolding c1 j1 c2 j2 j3 j4 by simp
qed

lemma serialize_hdrs_eq:
  assumes "idx + 16 * length hs \<le> off" "off + length (hdr_content hs) < 2 ^ 64"
  shows "\<exists>w'. serialize_hdrs out hs (idx, off, w) = (idx + 16 * length hs, off + length (hdr_content hs), w') \<and>
     mm w' = blit (out + off) (hdr_content hs) (blit (out + idx) (hdr_index off hs) (mm w)) \<and>
     touches ({out + idx..<out + idx + 16 * length hs} \<union> {out + off..<out + off + length (hdr_content hs)}) w w'"
  using assms
proof (induction hs arbitrary: idx off w)
  case (Cons h hs)
  obtain key val where h: "h = (key, val)" by (cases h)
  define o1 where "o1 = off + length key + 1"
  define o2 where "o2 = o1 + length val + 1"
  let ?w1 = "wr_bytes (out + idx) (le_bytes 8 off) w"
  let ?w2 = "wr_bytes (out + off) (key @ [0]) ?w1"
  let ?w3 = "wr_bytes (out + (idx + 8)) (le_bytes 8 o1) ?w2"
  let ?w4 = "wr_bytes (out + o1) (val @ [0]) ?w3"
  have small: "add64 idx 8 = idx + 8" "add64 (idx + 8) 8 = idx + 16" "add64 off (length key + 1) = o1"
    "add64 o1 (length val + 1) = o2"
    using Cons.prems by (simp_all add: h o1_def o2_def)
  have pre: "idx + 16 + 16 * length hs \<le> o2" "o2 + length (hdr_content hs) < 2 ^ 64"
    using Cons.prems by (simp_all add: h o1_def o2_def)
  obtain w' where w': "serialize_hdrs out hs (idx + 16, o2, ?w4) = (idx + 16 + 16 * length hs, o2 + length (hdr_content hs), w')"
      "mm w' = blit (out + o2) (hdr_content hs) (blit (out + (idx + 16)) (hdr_index o2 hs) (mm ?w4))"
      "touches ({out + (idx + 16)..<out + (idx + 16) + 16 * length hs} \<union> {out + o2..<out + o2 + length (hdr_content hs)}) ?w4 w'"
    using Cons.IH [OF pre] by blast
  let ?A = "out + idx" and ?B = "out + off"
  have "?A + 16 * Suc (length hs) \<le> ?B" using Cons.prems(1) by simp
  from blit_header [OF this, of key val off "mm w"]
  have "mm w' = blit ?B (hdr_content (h # hs)) (blit ?A (hdr_index off (h # hs)) (mm w))"
    unfolding w'(2) wr_bytes_blit h o1_def o2_def by (simp add: ac_simps)
  moreover have "touches ({?A..<?A + 16 * length (h # hs)} \<union> {?B..<?B + length (hdr_content (h # hs))}) w w'"
    (is "touches ?S w w'")
  proof -
    have "touches ?S w ?w1" using Cons.prems by (intro touches_wr_bytes) auto
    moreover have "touches ?S ?w1 ?w2" by (intro touches_wr_bytes) (auto simp: h)
    moreover have "touches ?S ?w2 ?w3" by (intro touches_wr_bytes) auto
    moreover have "touches ?S ?w3 ?w4" by (intro touches_wr_bytes) (auto simp: h o1_def)
    moreover have "touches ?S ?w4 w'" by (rule touches_mono [OF w'(3)]) (auto simp: h o1_def o2_def)
    ultimately show ?thesis using touches_trans by meson
  qed
  moreover have "serialize_hdrs out (h # hs) (idx, off, w) =
     (idx + 16 * length (h # hs), off + length (hdr_content (h # hs)), w')"
    using w'(1) small unfolding h serialize_hdrs.simps Let_def sizeof_size_def by (simp add: o1_def o2_def)
  ultimately show ?case by blast
qed simp

lemma serialize_to_eq:
  assumes ok: "packet_ok pkt"
  shows "mm (serialize_to pkt out w) = blit out (flat pkt) (mm w)"
    "touches {out..<out + length (flat pkt)} w (serialize_to pkt out w)"
proof -
  let ?hs = "hdrs_of pkt"
  have id: "length (pkt_id pkt) = 37" and small: "length (flat pkt) < 2 ^ 64" using ok by (simp_all add: packet_ok_def)
  note len = length_flat [OF id]
  let ?off = "content_off pkt"
  let ?fin = "?off + length (hdr_content ?hs)"
  define w1 where "w1 = wr_bytes out (pkt_id pkt) w"
  define w2 where "w2 = wr_bytes (out + 37) (le_bytes 8 (length ?hs)) w1"
  obtain w3 where w3: "serialize_hdrs out ?hs (45, ?off, w2) = (45 + 16 * length ?hs, ?fin, w3)"
      "mm w3 = blit (out + ?off) (hdr_content ?hs) (blit (out + 45) (hdr_index ?off ?hs) (mm w2))"
      "touches ({out + 45..<out + 45 + 16 * length ?hs} \<union> {out + ?off..<out + ?off + length (hdr_content ?hs)}) w2 w3"
    using serialize_hdrs_eq [of 45 ?hs ?off out w2] len small by (auto simp: content_off_def)
  define w4 where "w4 = wr_bytes (out + (45 + 16 * length ?hs)) (le_bytes 8 ?fin) w3"
  define w5 where "w5 = wr_bytes (out + ?fin) (pkt_payload pkt) w4"
  have eq: "serialize_to pkt out w = w5"
    using w3(1) stats_eq [OF ok] unfolding serialize_to_def w5_def w4_def w2_def w1_def
    by (simp add: serialize_blocks_concat sizeof_uuid_def sizeof_size_def Let_def hdrs_of_def)
  have c: "blit (out + (45 + 16 * length ?hs)) (le_bytes 8 ?fin) (blit (out + ?off) (hdr_content ?hs) m) =
     blit (out + ?off) (hdr_content ?hs) (blit (out + (45 + 16 * length ?hs)) (le_bytes 8 ?fin) m)" for m
    by (rule blit_commute) (simp add: content_off_def)
  have "mm w5 = blit out (flat pkt) (mm w)"
    unfolding w5_def w4_def wr_bytes_blit w3(2) c w2_def w1_def flat_def
    by (simp add: blit_append id content_off_def add.assoc)
  then show "mm (serialize_to pkt out w) = blit out (flat pkt) (mm w)" by (simp add: eq)
  show "touches {out..<out + length (flat pkt)} w (serialize_to pkt out w)" (is "touches ?S _ _")
  proof -
    have "touches ?S w w1" unfolding w1_def using len by (intro touches_wr_bytes) (auto simp: id content_off_def)
    moreover have "touches ?S w1 w2" unfolding w2_def using len by (intro touches_wr_bytes) (auto simp: content_off_def)
    moreover have "touches ?S w2 w3" using len by (intro touches_mono [OF w3(3)]) (auto simp: content_off_def)
    moreover have "touches ?S w3 w4" unfolding w4_def using len by (intro touches_wr_bytes) (auto simp: content_off_def)
    moreover have "touches ?S w4 w5" unfolding w5_def using len by (intro touches_wr_bytes) (auto simp: content_off_def)
    ultimately show ?thesis unfolding eq using touches_trans by meson
  qed
qed

section \<open>Reading the flat form\<close>

definition flat_at :: "mem \<Rightarrow> a0_buf \<Rightarrow> a0_packet \<Rightarrow> bool" where
  "flat_at m buf pkt \<longleftrightarrow> holds_at m (fst buf) (flat pkt) \<and> snd buf = length (flat pkt)"

text \<open>The two offsets at \<open>a\<close> lead to key and value of \<open>h\<close>, within the \<open>n\<close> bytes of the packet.\<close>

definition entry :: "mem \<Rightarrow> nat \<Rightarrow> nat \<Rightarrow> nat \<Rightarrow> header \<Rightarrow> bool" where
  "entry m data n a h \<longleftrightarrow>
     holds_at m (data + ld64 m a) (fst h @ [0]) \<and> ld64 m a + length (fst h) < n \<and>
     holds_at m (data + ld64 m (a + 8)) (snd h @ [0]) \<and> ld64 m (a + 8) + length (snd h) < n"

lemma index_entry:
  assumes "holds_at m a (hdr_index off hs)" "holds_at m (data + off) (hdr_content hs)"
    and "off + length (hdr_content hs) \<le> n" "n < 2 ^ 64" "i < length hs"
  shows "entry m data n (a + 16 * i) (hs ! i)"
  using assms
proof (induction off hs arbitrary: a i rule: hdr_index.induct)
  case (2 off key val hs)
  have k: "ld64 m a = off" "ld64 m (a + 8) = off + length key + 1"
    using "2.prems" by (auto simp: byte_simps)
  have c: "holds_at m (data + off) (key @ [0])" "holds_at m (data + (off + length key + 1)) (val @ [0])"
    "holds_at m (data + (off + length key + length val + 2)) (hdr_content hs)"
    using "2.prems"(2) by (simp_all add: holds_append holds_Cons holds_Nil add.assoc)
  show ?case
  proof (cases i)
    case 0
    then show ?thesis using k c "2.prems"(3) by (simp add: entry_def)
  next
    case (Suc j)
    have "holds_at m (a + 16) (hdr_index (off + length key + length val + 2) hs)"
      using "2.prems"(1) by (simp add: holds_append add.assoc)
    from "2.IH" [OF this c(3)] show ?thesis using "2.prems"(3-5) Suc by (simp add: add.assoc)
  qed
qed simp

lemma flat_reads:
  assumes ok: "packet_ok pkt" and f: "flat_at m (data, sz) pkt"
  shows "holds_at m data (pkt_id pkt)" "ld64 m (data + 37) = length (hdrs_of pkt)"
    "i < length (hdrs_of pkt) \<Longrightarrow> entry m data sz (data + 45 + 16 * i) (hdrs_of pkt ! i)"
    "ld64 m (data + (45 + 16 * length (hdrs_of pkt))) = content_off pkt + length (hdr_content (hdrs_of pkt))"
    "holds_at m (data + (content_off pkt + length (hdr_content (hdrs_of pkt)))) (pkt_payload pkt)"
    "sz = content_off pkt + length (hdr_content (hdrs_of pkt)) + length (pkt_payload pkt)" "sz < 2 ^ 64"
proof -
  let ?hs = "hdrs_of pkt"
  have id: "length (pkt_id pkt) = 37" using ok by (simp add: packet_ok_def)
  show sz: "sz = content_off pkt + length (hdr_content ?hs) + length (pkt_payload pkt)" "sz < 2 ^ 64"
    using f ok length_flat [OF id] by (simp_all add: flat_at_def packet_ok_def)
  have len: "length ?hs < 2 ^ 64" "content_off pkt + length (hdr_content ?hs) < 2 ^ 64"
    using sz by (auto simp: content_off_def)
  have h: "holds_at m data (flat pkt)" using f by (simp add: flat_at_def)
  note parts = h [unfolded flat_def holds_append id length_hdr_index length_le_bytes]
  show "holds_at m data (pkt_id pkt)" using parts by simp
  show "ld64 m (data + 37) = length ?hs" using parts len(1) by (simp add: holds_le_bytes)
  show "ld64 m (data + (45 + 16 * length ?hs)) = content_off pkt + length (hdr_content ?hs)"
    using parts len(2) by (simp add: holds_le_bytes add.assoc)
  have c: "holds_at m (data + content_off pkt) (hdr_content ?hs)"
    using parts by (simp add: content_off_def add.assoc)
  show "holds_at m (data + (content_off pkt + length (hdr_content ?hs))) (pkt_payload pkt)"
    using parts by (simp add: content_off_def add.assoc)
  have ix: "holds_at m (data + 45) (hdr_index (content_off pkt) ?hs)" using parts by (simp add: add.assoc)
  show "entry m data sz (data + 45 + 16 * i) (?hs ! i)" if "i < length ?hs"
    by (rule index_entry [OF ix c _ sz(2) that]) (simp add: sz(1))
qed

lemma sub64_eq: "b \<le> a \<Longrightarrow> a < 2 ^ 64 \<Longrightarrow> sub64 a b = a - b"
  by (simp add: sub64_def) (metis Nat.add_diff_assoc Nat.add_diff_assoc2 less_imp_diff_less mod_add_self2 mod_less)

text \<open>The C strings of a packet: keys and values hold no null byte.\<close>

definition strings_ok :: "a0_packet \<Rightarrow> bool" where
  "strings_ok pkt \<longleftrightarrow> (\<forall>h \<in> set (hdrs_of pkt). 0 \<notin> set (fst h) \<and> 0 \<notin> set (snd h))"

lemma flat_header:
  assumes ok: "packet_ok pkt" "strings_ok pkt" and f: "flat_at m buf pkt"
  shows "i < length (hdrs_of pkt) \<Longrightarrow> \<exists>k v. a0_flat_packet_header buf i m = Inr (k, v) \<and>
      cstr m k = Some (fst (hdrs_of pkt ! i)) \<and> cstr m v = Some (snd (hdrs_of pkt ! i))"
    and "length (hdrs_of pkt) \<le> i \<Longrightarrow> a0_flat_packet_header buf i m = Inl A0_ERR_NOT_FOUND"
proof -
  obtain data sz where buf: "buf = (data, sz)" by (cases buf)
  note r = flat_reads [OF ok(1) f [unfolded buf]]
  show "length (hdrs_of pkt) \<le> i \<Longrightarrow> a0_flat_packet_header buf i m = Inl A0_ERR_NOT_FOUND"
    using r(2) by (simp add: a0_flat_packet_header_def buf sizeof_uuid_def)
  assume i: "i < length (hdrs_of pkt)"
  have e: "entry m data sz (data + 45 + 16 * i) (hdrs_of pkt ! i)" by (rule r(3) [OF i])
  have "hdrs_of pkt ! i \<in> set (hdrs_of pkt)" using i by simp
  then have "0 \<notin> set (fst (hdrs_of pkt ! i))" "0 \<notin> set (snd (hdrs_of pkt ! i))"
    using ok(2) by (auto simp: strings_ok_def)
  moreover have "a0_flat_packet_header buf i m = Inr (data + ld64 m (data + 45 + 16 * i), data + ld64 m (data + 45 + 16 * i + 8))"
    using i r(2) by (simp add: a0_flat_packet_header_def buf sizeof_uuid_def sizeof_size_def Let_def ac_simps)
  ultimately show "\<exists>k v. a0_flat_packet_header buf i m = Inr (k, v) \<and>
      cstr m k = Some (fst (hdrs_of pkt ! i)) \<and> cstr m v = Some (snd (hdrs_of pkt ! i))"
    using e by (simp add: entry_def cstr_holds)
qed

text \<open>The position of the first header with a given key, from position \<open>i\<close> on.\<close>

fun first_match :: "u8 list \<Rightarrow> header list \<Rightarrow> nat \<Rightarrow> nat option" where
  "first_match key [] i = None"
| "first_match key (h # hs) i = (if fst h = key then Some i else first_match key hs (i + 1))"

lemma flat_next_match:
  assumes ok: "packet_ok pkt" "strings_ok pkt" and f: "flat_at m buf pkt" and i: "i \<le> length (hdrs_of pkt)"
  shows "\<exists>r. a0_flat_packet_header_iterator_next_match m key (buf, i) = Some r \<and>
     (case first_match key (drop i (hdrs_of pkt)) i of
        None \<Rightarrow> r = (Inl A0_ERR_NOT_FOUND, (buf, length (hdrs_of pkt) + 1))
      | Some j \<Rightarrow> r = (a0_flat_packet_header buf j m, (buf, j + 1)))"
  using i
proof (induction "length (hdrs_of pkt) - i" arbitrary: i)
  case 0
  then have "i = length (hdrs_of pkt)" by simp
  then show ?case
    using flat_header(2) [OF ok f, of i]
    by (subst a0_flat_packet_header_iterator_next_match.simps)
      (simp add: a0_flat_packet_header_iterator_next_def)
next
  case (Suc n)
  then have i: "i < length (hdrs_of pkt)" by simp
  obtain k v where kv: "a0_flat_packet_header buf i m = Inr (k, v)" "cstr m k = Some (fst (hdrs_of pkt ! i))"
    using flat_header(1) [OF ok f i] by blast
  have "drop i (hdrs_of pkt) = (hdrs_of pkt ! i) # drop (Suc i) (hdrs_of pkt)" by (simp add: Cons_nth_drop_Suc i)
  moreover have "n = length (hdrs_of pkt) - Suc i" "Suc i \<le> length (hdrs_of pkt)" using Suc.hyps(2) i by simp_all
  note Suc.hyps(1) [OF this]
  ultimately show ?case
    using kv by (cases buf, subst a0_flat_packet_header_iterator_next_match.simps)
      (auto simp: a0_flat_packet_header_iterator_next_def)
qed

section \<open>Packets in memory\<close>

lemma stb_blit: "stb n m a v = blit a (le_bytes n v) m"
  by (rule ext) (simp add: stb_def blit_def)

text \<open>\<open>hs\<close> laid out with absolute addresses: the array of pointers at \<open>a\<close>, the strings at \<open>q\<close>.\<close>

definition ref_at :: "mem \<Rightarrow> packet_ref \<Rightarrow> a0_packet \<Rightarrow> bool" where
  "ref_at m r pkt \<longleftrightarrow> ref_id r = pkt_id pkt \<and> ref_size r = length (hdrs_of pkt) \<and>
     (\<forall>i < length (hdrs_of pkt).
        cstr m (ld64 m (ref_headers r + 16 * i)) = Some (fst (hdrs_of pkt ! i)) \<and>
        cstr m (ld64 m (ref_headers r + 16 * i + 8)) = Some (snd (hdrs_of pkt ! i))) \<and>
     snd (ref_payload r) = length (pkt_payload pkt) \<and> holds_at m (fst (ref_payload r)) (pkt_payload pkt)"

lemma ref_held:
  assumes "strings_ok pkt" "q + length (hdr_content (hdrs_of pkt)) + length (pkt_payload pkt) < 2 ^ 64"
    and "n = length (hdrs_of pkt)" "k = length (pkt_payload pkt)"
    and held: "holds_at m q (hdr_content (hdrs_of pkt) @ pkt_payload pkt)" "holds_at m a (hdr_index q (hdrs_of pkt))"
  shows "ref_at m \<lparr>ref_id = pkt_id pkt, ref_headers = a, ref_size = n,
     ref_payload = (q + length (hdr_content (hdrs_of pkt)), k)\<rparr> pkt"
proof -
  let ?hs = "hdrs_of pkt"
  have c: "holds_at m q (hdr_content ?hs)" "holds_at m (q + length (hdr_content ?hs)) (pkt_payload pkt)"
    using held(1) by (simp_all add: holds_append)
  have "cstr m (ld64 m (a + 16 * i)) = Some (fst (?hs ! i)) \<and> cstr m (ld64 m (a + 16 * i + 8)) = Some (snd (?hs ! i))"
    if i: "i < length ?hs" for i
  proof -
    have "entry m 0 (q + length (hdr_content ?hs)) (a + 16 * i) (?hs ! i)"
      using c(1) assms(2) by (intro index_entry [OF held(2) _ _ _ i]) simp_all
    moreover have "?hs ! i \<in> set ?hs" using i by simp
    then have "0 \<notin> set (fst (?hs ! i))" "0 \<notin> set (snd (?hs ! i))" using assms(1) by (auto simp: strings_ok_def)
    ultimately show ?thesis by (simp add: entry_def cstr_holds)
  qed
  then show ?thesis using c(2) assms(3,4) by (simp add: ref_at_def)
qed

text \<open>What the stores of headers and payload leave, and it stays as long as the buffer does.\<close>

lemma ref_built:
  assumes "strings_ok pkt" "q + length (hdr_content (hdrs_of pkt)) + length (pkt_payload pkt) < 2 ^ 64"
    and "a + 16 * length (hdrs_of pkt) \<le> q" "n = length (hdrs_of pkt)" "k = length (pkt_payload pkt)"
    and "mm w' = blit (q + length (hdr_content (hdrs_of pkt))) (pkt_payload pkt)
      (blit q (hdr_content (hdrs_of pkt)) (blit a (hdr_index q (hdrs_of pkt)) m))"
    and "only S (mm w') m'" "S \<inter> {a..<q + length (hdr_content (hdrs_of pkt)) + k} = {}"
  shows "ref_at m' \<lparr>ref_id = pkt_id pkt, ref_headers = a, ref_size = n,
     ref_payload = (q + length (hdr_content (hdrs_of pkt)), k)\<rparr> pkt"
proof (rule ref_held [OF assms(1,2,4,5)])
  let ?hs = "hdrs_of pkt" and ?m = "mm w'"
  have m: "?m = blit q (hdr_content ?hs @ pkt_payload pkt) (blit a (hdr_index q ?hs) m)"
    using assms(6) by (simp add: blit_append)
  have R: "{a..<a + length (hdr_index q ?hs)} \<subseteq> {a..<q + length (hdr_content ?hs) + k}"
    "{q..<q + length (hdr_content ?hs @ pkt_payload pkt)} \<subseteq> {a..<q + length (hdr_content ?hs) + k}"
    using assms(3,5) by auto
  have "holds_at ?m q (hdr_content ?hs @ pkt_payload pkt)" using m by (simp add: holds_blit)
  then show "holds_at m' q (hdr_content ?hs @ pkt_payload pkt)"
    using holds_only [OF assms(7)] R(2) assms(8) by blast
  have "?m = blit a (hdr_index q ?hs) (blit q (hdr_content ?hs @ pkt_payload pkt) m)"
    unfolding m using assms(3) by (intro blit_commute) simp
  then have "holds_at ?m a (hdr_index q ?hs)" by (simp add: holds_blit)
  then show "holds_at m' a (hdr_index q ?hs)"
    using holds_only [OF assms(7)] R(1) assms(8) by blast
qed

lemma entry_only:
  assumes "only S m m'" "S \<inter> {data..<data + n} = {}" "data \<le> a" "a + 16 \<le> data + n"
  shows "entry m' data n a h = entry m data n a h"
proof -
  have "ld64 m' a = ld64 m a" "ld64 m' (a + 8) = ld64 m (a + 8)"
    using assms(2-4) by (intro only_ld [OF assms(1)]; fastforce)+
  moreover have "holds_at m' (data + k) (s @ [0]) = holds_at m (data + k) (s @ [0])" if "k + length s < n" for k s
    using that assms(2) by (intro holds_only [OF assms(1)]) fastforce
  ultimately show ?thesis unfolding entry_def by auto
qed

lemma entry_strings:
  assumes "entry m data n a h" "0 \<notin> set (fst h)" "0 \<notin> set (snd h)"
  shows "cstr m (data + ld64 m a) = Some (fst h)" "strlen m (data + ld64 m a) = Some (length (fst h))"
    "cstr m (data + ld64 m (a + 8)) = Some (snd h)" "strlen m (data + ld64 m (a + 8)) = Some (length (snd h))"
  using assms by (simp_all add: entry_def cstr_holds strlen_holds)

section \<open>Deserialising\<close>

lemma deserialize_step:
  assumes e: "entry (mm w) data n (data + 45 + 16 * i) (key, val)" "0 \<notin> set key" "0 \<notin> set val"
    and i: "45 + 16 * i + 16 \<le> n" and a: "a = hdrs + 16 * i" and q: "a + 16 \<le> q" "q + length key + length val + 2 < 2 ^ 64"
    and far: "({a..<a + 16} \<union> {q..<q + length key + length val + 2}) \<inter> {data..<data + n} = {}"
  shows "\<exists>w4. deserialize_hdrs data hdrs (Suc k) i q w = deserialize_hdrs data hdrs k (i + 1) (q + length key + length val + 2) w4 \<and>
     mm w4 = blit (q + length key + 1) (val @ [0]) (blit (a + 8) (le_bytes 8 (q + length key + 1))
       (blit q (key @ [0]) (blit a (le_bytes 8 q) (mm w)))) \<and>
     touches ({a..<a + 16} \<union> {q..<q + length key + length val + 2}) w w4"
proof -
  let ?S = "{a..<a + 16} \<union> {q..<q + length key + length val + 2}"
  let ?p = "data + 45 + 16 * i"
  define w1 where "w1 = wr 8 a q w"
  define w2 where "w2 = wr_bytes q (key @ [0]) w1"
  define w3 where "w3 = wr 8 (a + 8) (q + length key + 1) w2"
  define w4 where "w4 = wr_bytes (q + length key + 1) (val @ [0]) w3"
  have s: "touches ?S w w1" "touches ?S w1 w2" "touches ?S w2 w3" "touches ?S w3 w4"
    unfolding w4_def w3_def w2_def w1_def by (auto intro!: touches_wr touches_wr_bytes)
  then have t: "touches ?S w w1" "touches ?S w w2" "touches ?S w w3" "touches ?S w w4"
    using touches_trans by meson+
  have keep: "entry (mm w') data n ?p (key, val)" "ld64 (mm w') ?p = ld64 (mm w) ?p"
    "ld64 (mm w') (?p + 8) = ld64 (mm w) (?p + 8)" if "touches ?S w w'" for w'
  proof -
    note o = touches_only [OF that]
    show "entry (mm w') data n ?p (key, val)" using e(1) entry_only [OF o far, of ?p] i by simp
    have "?S \<inter> {?p..<?p + 16} = {}" using far i by fastforce
    then have "?S \<inter> {?p..<?p + 8} = {}" "?S \<inter> {?p + 8..<?p + 8 + 8} = {}" by (fastforce, fastforce)
    then show "ld64 (mm w') ?p = ld64 (mm w) ?p" "ld64 (mm w') (?p + 8) = ld64 (mm w) (?p + 8)"
      by (auto intro!: only_ld [OF o] simp: disjoint_iff)
  qed
  note str = entry_strings [OF keep(1), unfolded fst_conv snd_conv, OF _ e(2,3)]
  have ix: "data + sizeof_uuid + sizeof_size + 8 * (2 * i) = ?p" "data + sizeof_uuid + sizeof_size + 8 * (2 * i + 1) = ?p + 8"
    by (simp_all add: sizeof_uuid_def sizeof_size_def)
  have "deserialize_hdrs data hdrs (Suc k) i q w =
      deserialize_hdrs data hdrs k (i + 1) (q + length key + length val + 2) w4"
    using str(1) [OF t(1)] str(2) [OF t(2)] str(3) [OF t(3)] str(4) [OF t(4)]
      keep(2,3) [OF t(1)] keep(2,3) [OF t(2)] keep(2,3) [OF t(3)] keep(2,3) [OF t(4)]
    unfolding deserialize_hdrs.simps Let_def ix strcpy_def w4_def w3_def w2_def w1_def a
    by (simp add: add.assoc)
  moreover have "mm w4 = blit (q + length key + 1) (val @ [0]) (blit (a + 8) (le_bytes 8 (q + length key + 1))
       (blit q (key @ [0]) (blit a (le_bytes 8 q) (mm w))))"
    unfolding w4_def w3_def w2_def w1_def wr_bytes_blit wr_simps stb_blit ..
  ultimately show ?thesis using t(4) by blast
qed

lemma deserialize_hdrs_eq:
  assumes "\<forall>j < length hs. entry (mm w) data n (data + 45 + 16 * (i + j)) (hs ! j)"
    and "\<forall>h \<in> set hs. 0 \<notin> set (fst h) \<and> 0 \<notin> set (snd h)"
    and "45 + 16 * (i + length hs) \<le> n" "hdrs + 16 * (i + length hs) \<le> q" "q + length (hdr_content hs) < 2 ^ 64"
    and "({hdrs + 16 * i..<hdrs + 16 * (i + length hs)} \<union> {q..<q + length (hdr_content hs)}) \<inter> {data..<data + n} = {}"
  shows "\<exists>w'. deserialize_hdrs data hdrs (length hs) i q w = Some (q + length (hdr_content hs), w') \<and>
     mm w' = blit q (hdr_content hs) (blit (hdrs + 16 * i) (hdr_index q hs) (mm w)) \<and>
     touches ({hdrs + 16 * i..<hdrs + 16 * (i + length hs)} \<union> {q..<q + length (hdr_content hs)}) w w'"
  using assms
proof (induction hs arbitrary: i q w)
  case (Cons h hs)
  obtain key val where h: "h = (key, val)" by (cases h)
  let ?a = "hdrs + 16 * i" and ?q = "q + length key + length val + 2"
  let ?S = "{?a..<hdrs + 16 * (i + length (h # hs))} \<union> {q..<q + length (hdr_content (h # hs))}"
  have sub: "{?a..<?a + 16} \<union> {q..<?q} \<subseteq> ?S" by (auto simp: h)
  have e: "entry (mm w) data n (data + 45 + 16 * i) (key, val)" "0 \<notin> set key" "0 \<notin> set val"
    using Cons.prems(1,2) by (force simp: h)+
  have "45 + 16 * i + 16 \<le> n" "?a + 16 \<le> q" "?q < 2 ^ 64" using Cons.prems(3-5) by (simp_all add: h)
  moreover have "({?a..<?a + 16} \<union> {q..<?q}) \<inter> {data..<data + n} = {}" using sub Cons.prems(6) by blast
  ultimately obtain w4 where w4: "deserialize_hdrs data hdrs (Suc (length hs)) i q w = deserialize_hdrs data hdrs (length hs) (i + 1) ?q w4"
      "mm w4 = blit (q + length key + 1) (val @ [0]) (blit (?a + 8) (le_bytes 8 (q + length key + 1))
       (blit q (key @ [0]) (blit ?a (le_bytes 8 q) (mm w))))"
      "touches ({?a..<?a + 16} \<union> {q..<?q}) w w4"
    using deserialize_step [OF e _ refl] by metis
  note t4 = touches_mono [OF w4(3) sub]
  have "\<forall>j < length hs. entry (mm w4) data n (data + 45 + 16 * (i + 1 + j)) (hs ! j)"
  proof (intro allI impI)
    fix j assume "j < length hs"
    then have "entry (mm w) data n (data + 45 + 16 * (i + Suc j)) (hs ! j)" using Cons.prems(1) by fastforce
    then show "entry (mm w4) data n (data + 45 + 16 * (i + 1 + j)) (hs ! j)"
      using entry_only [OF touches_only [OF t4] Cons.prems(6)] \<open>j < length hs\<close> Cons.prems(3) by simp
  qed
  moreover have "\<forall>h \<in> set hs. 0 \<notin> set (fst h) \<and> 0 \<notin> set (snd h)" using Cons.prems(2) by simp
  moreover have "45 + 16 * (i + 1 + length hs) \<le> n" "hdrs + 16 * (i + 1 + length hs) \<le> ?q"
    "?q + length (hdr_content hs) < 2 ^ 64" using Cons.prems(3-5) by (simp_all add: h)
  moreover have sub2: "{hdrs + 16 * (i + 1)..<hdrs + 16 * (i + 1 + length hs)} \<union> {?q..<?q + length (hdr_content hs)} \<subseteq> ?S"
    by (auto simp: h)
  then have "({hdrs + 16 * (i + 1)..<hdrs + 16 * (i + 1 + length hs)} \<union> {?q..<?q + length (hdr_content hs)})
      \<inter> {data..<data + n} = {}" using Cons.prems(6) by blast
  ultimately obtain w' where w': "deserialize_hdrs data hdrs (length hs) (i + 1) ?q w4 = Some (?q + length (hdr_content hs), w')"
      "mm w' = blit ?q (hdr_content hs) (blit (hdrs + 16 * (i + 1)) (hdr_index ?q hs) (mm w4))"
      "touches ({hdrs + 16 * (i + 1)..<hdrs + 16 * (i + 1 + length hs)} \<union> {?q..<?q + length (hdr_content hs)}) w4 w'"
    using Cons.IH by blast
  have a16: "hdrs + 16 * (i + 1) = ?a + 16" by simp
  have "?a + 16 * Suc (length hs) \<le> q" using Cons.prems(4) by simp
  from blit_header [OF this, of key val q "mm w"]
  have "mm w' = blit q (hdr_content (h # hs)) (blit ?a (hdr_index q (h # hs)) (mm w))"
    unfolding w'(2) w4(2) h a16 by simp
  moreover have "touches ?S w w'"
    using t4 touches_mono [OF w'(3) sub2] touches_trans by blast
  moreover have "?q + length (hdr_content hs) = q + length (hdr_content (h # hs))" by (simp add: h)
  ultimately show ?case using w4(1) w'(1) by (intro exI [where x = w']) simp
qed simp

text \<open>The packet stays as long as nothing is stored into its buffer.\<close>

lemma deserialize_kept:
  assumes ok: "packet_ok pkt" "strings_ok pkt" and f: "flat_at (mm w) buf pkt"
    and alloc: "alloc (16 * length (hdrs_of pkt) + length (hdr_content (hdrs_of pkt)) + length (pkt_payload pkt)) w =
      Some (Inr (out, n), w1)" "flat_at (mm w1) buf pkt"
    and fits: "out + 16 * length (hdrs_of pkt) + length (hdr_content (hdrs_of pkt)) + length (pkt_payload pkt) < 2 ^ 64"
    and far: "{out..<out + 16 * length (hdrs_of pkt) + length (hdr_content (hdrs_of pkt)) + length (pkt_payload pkt)} \<inter>
      {fst buf..<fst buf + length (flat pkt)} = {}"
  shows "\<exists>r w'. a0_packet_deserialize buf alloc w = Some (r, (out, n), w') \<and>
     (\<forall>S m'. only S (mm w') m' \<and>
       S \<inter> {out..<out + 16 * length (hdrs_of pkt) + length (hdr_content (hdrs_of pkt)) + length (pkt_payload pkt)} = {} \<longrightarrow>
       ref_at m' r pkt) \<and>
     touches {out..<out + 16 * length (hdrs_of pkt) + length (hdr_content (hdrs_of pkt)) + length (pkt_payload pkt)} w1 w'"
proof -
  obtain data sz where buf: "buf = (data, sz)" by (cases buf)
  let ?hs = "hdrs_of pkt" and ?c = "length (hdr_content (hdrs_of pkt))" and ?k = "length (pkt_payload pkt)"
  let ?O = "{out..<out + 16 * length ?hs + ?c + ?k}"
  note r = flat_reads [OF ok(1) f [unfolded buf]]
  note r1 = flat_reads [OF ok(1) alloc(2) [unfolded buf]]
  have id: "length (pkt_id pkt) = 37" using ok(1) by (simp add: packet_ok_def)
  have sz: "length (flat pkt) = sz" using f by (simp add: flat_at_def buf)
  have R: "?O \<inter> {data..<data + sz} = {}" using far by (simp add: buf sz)
  let ?q = "out + 16 * length ?hs"
  let ?S = "{out + 16 * 0..<out + 16 * (0 + length ?hs)} \<union> {?q..<?q + ?c}"
  have S: "?S \<subseteq> ?O" by auto
  have "\<forall>j < length ?hs. entry (mm w1) data sz (data + 45 + 16 * (0 + j)) (?hs ! j)" using r1(3) by simp
  moreover have "\<forall>h \<in> set ?hs. 0 \<notin> set (fst h) \<and> 0 \<notin> set (snd h)" using ok(2) by (simp add: strings_ok_def)
  moreover have "45 + 16 * (0 + length ?hs) \<le> sz" using r(6) by (simp add: content_off_def)
  moreover have "?q + ?c < 2 ^ 64" using fits by simp
  moreover have "?S \<inter> {data..<data + sz} = {}" using R S by blast
  ultimately obtain w2 where w2: "deserialize_hdrs data out (length ?hs) 0 ?q w1 = Some (?q + ?c, w2)"
      "mm w2 = blit ?q (hdr_content ?hs) (blit out (hdr_index ?q ?hs) (mm w1))" "touches ?S w1 w2"
    using deserialize_hdrs_eq [of ?hs w1 data sz 0 out ?q] by auto
  have o2: "only ?O (mm w1) (mm w2)" using touches_only [OF touches_mono [OF w2(3) S]] .
  have "flat_at (mm w2) buf pkt"
    using alloc(2) holds_only [OF o2, of data "flat pkt"] R by (simp add: flat_at_def buf)
  note r2 = flat_reads [OF ok(1) this [unfolded buf]]
  define w3 where "w3 = wr_bytes (?q + ?c) (pkt_payload pkt) w2"
  have n: "index_size (length ?hs) = content_off pkt" by (rule stats_eq(2) [OF ok(1)])
  have pay_idx: "payload_idx (length ?hs) = 45 + 16 * length ?hs"
    using r(6,7) by (simp add: payload_idx_def sizeof_uuid_def sizeof_size_def content_off_def)
  have size: "sub64 sz (content_off pkt + ?c) = ?k" "sub64 sz (content_off pkt) = ?c + ?k"
    using r(6,7) by (simp_all add: sub64_eq)
  have pay: "bytes (mm w2) (data + (content_off pkt + ?c)) ?k = pkt_payload pkt"
    using r2(5) by (simp add: holds_at_def)
  have uuid: "bytes (mm w) data 37 = pkt_id pkt" using r(1) id by (simp add: holds_at_def)
  have add: "add64 (length ?hs * 16) (?c + ?k) = 16 * length ?hs + ?c + ?k" using fits by simp
  let ?r = "\<lparr>ref_id = pkt_id pkt, ref_headers = out, ref_size = length ?hs, ref_payload = (?q + ?c, ?k)\<rparr>"
  have "a0_packet_deserialize buf alloc w = Some (?r, (out, n), w3)"
    using alloc(1) r(2) w2(1) r2(4) n pay_idx size pay uuid add
    unfolding a0_packet_deserialize_def a0_flat_packet_stats_def buf Let_def w3_def
    by (simp add: sizeof_uuid_def)
  moreover have "ref_at m' ?r pkt" if "only S (mm w3) m'" "S \<inter> ?O = {}" for S m'
  proof (rule ref_built [OF ok(2) _ _ _ _ _ that(1)])
    show "mm w3 = blit (?q + ?c) (pkt_payload pkt) (blit ?q (hdr_content ?hs) (blit out (hdr_index ?q ?hs) (mm w1)))"
      by (simp add: w3_def wr_bytes_blit w2(2))
  qed (use fits that(2) in simp_all)
  moreover have "touches ?O w1 w3"
  proof -
    have "touches ?O w2 w3" unfolding w3_def by (intro touches_wr_bytes) auto
    then show ?thesis using touches_mono [OF w2(3) S] touches_trans by blast
  qed
  ultimately show ?thesis by blast
qed

lemma load_ref: "ref_at m r pkt \<Longrightarrow> load_packet m r = Some (pkt\<lparr>headers_block := [hdrs_of pkt]\<rparr>)"
proof -
  assume r: "ref_at m r pkt"
  define strings where "strings = map (\<lambda>i. (cstr m (ld64 m (ref_headers r + 16 * i)), cstr m (ld64 m (ref_headers r + 16 * i + 8))))
    [0..<ref_size r]"
  have s: "strings = map (\<lambda>(k, v). (Some k, Some v)) (hdrs_of pkt)"
    using r by (intro nth_equalityI) (auto simp: strings_def ref_at_def case_prod_beta)
  have "map (\<lambda>(k, v). (the k, the v)) strings = hdrs_of pkt" by (simp add: s comp_def case_prod_beta)
  moreover have "\<not> (\<exists>h \<in> set strings. fst h = None \<or> snd h = None)" by (auto simp: s)
  ultimately show ?thesis
    using r unfolding load_packet_def strings_def [symmetric] Let_def
    by (simp add: ref_at_def holds_at_def)
qed

lemma deserialize_correct:
  assumes "packet_ok pkt" "strings_ok pkt" "flat_at (mm w) buf pkt"
    and "alloc (16 * length (hdrs_of pkt) + length (hdr_content (hdrs_of pkt)) + length (pkt_payload pkt)) w =
      Some (Inr (out, n), w1)" "flat_at (mm w1) buf pkt"
    and "out + 16 * length (hdrs_of pkt) + length (hdr_content (hdrs_of pkt)) + length (pkt_payload pkt) < 2 ^ 64"
    and "{out..<out + 16 * length (hdrs_of pkt) + length (hdr_content (hdrs_of pkt)) + length (pkt_payload pkt)} \<inter>
      {fst buf..<fst buf + length (flat pkt)} = {}"
  shows "\<exists>r w'. a0_packet_deserialize buf alloc w = Some (r, (out, n), w') \<and> ref_at (mm w') r pkt \<and>
     touches {out..<out + 16 * length (hdrs_of pkt) + length (hdr_content (hdrs_of pkt)) + length (pkt_payload pkt)} w1 w'"
proof -
  obtain r w' where r: "a0_packet_deserialize buf alloc w = Some (r, (out, n), w')"
      "\<forall>S m'. only S (mm w') m' \<and> S \<inter> {out..<out + 16 * length (hdrs_of pkt) + length (hdr_content (hdrs_of pkt)) +
        length (pkt_payload pkt)} = {} \<longrightarrow> ref_at m' r pkt"
      "touches {out..<out + 16 * length (hdrs_of pkt) + length (hdr_content (hdrs_of pkt)) + length (pkt_payload pkt)} w1 w'"
    using deserialize_kept [where alloc = alloc and w = w, OF assms] by blast
  have "ref_at (mm w') r pkt" using r(2) only_refl [of "{}" "mm w'"] by blast
  then show ?thesis using r(1,3) by blast
qed

section \<open>Copying\<close>

lemma copy_blocks_concat: "copy_blocks base bs s = copy_hdrs base (concat bs) s"
proof (induction bs arbitrary: s)
  case (Cons b bs)
  have "copy_hdrs base (xs @ ys) s = copy_hdrs base ys (copy_hdrs base xs s)" for xs ys s
    by (induction base xs s rule: copy_hdrs.induct) (auto simp: Let_def)
  then show ?case using Cons by simp
qed simp

lemma copy_hdrs_eq:
  assumes "16 * (i + length hs) \<le> off"
  shows "\<exists>w'. copy_hdrs base hs (i, off, w) = (i + length hs, off + length (hdr_content hs), w') \<and>
     mm w' = blit (base + off) (hdr_content hs) (blit (base + 16 * i) (hdr_index (base + off) hs) (mm w)) \<and>
     touches ({base + 16 * i..<base + 16 * (i + length hs)} \<union> {base + off..<base + off + length (hdr_content hs)}) w w'"
  using assms
proof (induction hs arbitrary: i off w)
  case (Cons h hs)
  obtain key val where h: "h = (key, val)" by (cases h)
  let ?a = "base + 16 * i" and ?q = "base + off"
  let ?o = "off + length key + length val + 2"
  let ?S = "{?a..<base + 16 * (i + length (h # hs))} \<union> {?q..<?q + length (hdr_content (h # hs))}"
  define w1 where "w1 = wr 8 ?a ?q w"
  define w2 where "w2 = wr_bytes ?q (key @ [0]) w1"
  define w3 where "w3 = wr 8 (?a + 8) (?q + length key + 1) w2"
  define w4 where "w4 = wr_bytes (?q + length key + 1) (val @ [0]) w3"
  have "16 * (i + 1 + length hs) \<le> ?o" using Cons.prems by simp
  then obtain w' where w': "copy_hdrs base hs (i + 1, ?o, w4) = (i + 1 + length hs, ?o + length (hdr_content hs), w')"
      "mm w' = blit (base + ?o) (hdr_content hs) (blit (base + 16 * (i + 1)) (hdr_index (base + ?o) hs) (mm w4))"
      "touches ({base + 16 * (i + 1)..<base + 16 * (i + 1 + length hs)} \<union> {base + ?o..<base + ?o + length (hdr_content hs)}) w4 w'"
    using Cons.IH by blast
  have "?a + 16 * Suc (length hs) \<le> ?q" using Cons.prems by simp
  from blit_header [OF this, of key val ?q "mm w"]
  have "mm w' = blit ?q (hdr_content (h # hs)) (blit ?a (hdr_index ?q (h # hs)) (mm w))"
    unfolding w'(2) w4_def w3_def w2_def w1_def wr_bytes_blit wr_simps stb_blit h by (simp add: ac_simps)
  moreover have "touches ?S w w'"
  proof -
    have "touches ?S w w1" "touches ?S w1 w2" "touches ?S w2 w3" "touches ?S w3 w4"
      unfolding w4_def w3_def w2_def w1_def by (auto intro!: touches_wr touches_wr_bytes simp: h)
    moreover have "touches ?S w4 w'" by (rule touches_mono [OF w'(3)]) (auto simp: h)
    ultimately show ?thesis using touches_trans by meson
  qed
  moreover have "copy_hdrs base (h # hs) (i, off, w) = copy_hdrs base hs (i + 1, ?o, w4)"
    unfolding h copy_hdrs.simps Let_def w4_def w3_def w2_def w1_def by (simp add: ac_simps)
  ultimately show ?case using w'(1) by (intro exI [where x = w']) (simp add: h)
qed simp

lemma deep_copy_correct:
  assumes ok: "packet_ok pkt" "strings_ok pkt"
    and alloc: "alloc (16 * length (hdrs_of pkt) + length (hdr_content (hdrs_of pkt)) + length (pkt_payload pkt)) w =
      Some (Inr (out, n), w1)"
    and fits: "out + 16 * length (hdrs_of pkt) + length (hdr_content (hdrs_of pkt)) + length (pkt_payload pkt) < 2 ^ 64"
  shows "\<exists>r w'. a0_packet_deep_copy pkt alloc w = Some (r, (out, n), w') \<and> ref_at (mm w') r pkt \<and>
     touches {out..<out + 16 * length (hdrs_of pkt) + length (hdr_content (hdrs_of pkt)) + length (pkt_payload pkt)} w1 w'"
proof -
  let ?hs = "hdrs_of pkt" and ?c = "length (hdr_content (hdrs_of pkt))" and ?k = "length (pkt_payload pkt)"
  let ?O = "{out..<out + 16 * length ?hs + ?c + ?k}" and ?q = "out + 16 * length ?hs"
  obtain w2 where w2: "copy_hdrs out ?hs (0, 16 * length ?hs, w1) = (length ?hs, 16 * length ?hs + ?c, w2)"
      "mm w2 = blit ?q (hdr_content ?hs) (blit out (hdr_index ?q ?hs) (mm w1))"
      "touches ({out..<?q} \<union> {?q..<?q + ?c}) w1 w2"
    using copy_hdrs_eq [of 0 ?hs "16 * length ?hs" out w1] by auto
  define w3 where "w3 = wr_bytes (?q + ?c) (pkt_payload pkt) w2"
  let ?r = "\<lparr>ref_id = pkt_id pkt, ref_headers = out, ref_size = length ?hs, ref_payload = (?q + ?c, ?k)\<rparr>"
  have add: "add64 (length ?hs * 16) (?c + ?k) = 16 * length ?hs + ?c + ?k" using fits by simp
  have "a0_packet_deep_copy pkt alloc w = Some (?r, (out, n), w3)"
    using alloc w2(1) stats_eq(1) [OF ok(1)] add
    unfolding a0_packet_deep_copy_def Let_def w3_def
    by (simp add: copy_blocks_concat hdrs_of_def [symmetric] mult.commute add.assoc)
  moreover have "ref_at (mm w3) ?r pkt"
  proof (rule ref_built [OF ok(2) _ _ _ _ _ only_refl [of "{}"]])
    show "mm w3 = blit (?q + ?c) (pkt_payload pkt) (blit ?q (hdr_content ?hs) (blit out (hdr_index ?q ?hs) (mm w1)))"
      by (simp add: w3_def wr_bytes_blit w2(2))
  qed (use fits in simp_all)
  moreover have "touches ?O w1 w3"
  proof -
    have "touches ?O w2 w3" unfolding w3_def by (intro touches_wr_bytes) auto
    moreover have "touches ?O w1 w2" by (rule touches_mono [OF w2(3)]) auto
    ultimately show ?thesis using touches_trans by blast
  qed
  ultimately show ?thesis by blast
qed

section \<open>Iterating over a packet\<close>

text \<open>What an iterator has still to yield.\<close>

fun hdrs_left :: "a0_packet_header_iterator \<Rightarrow> header list" where
  "hdrs_left ([], idx) = []"
| "hdrs_left (block # next_block, idx) = drop idx block @ concat next_block"

lemma iterator_next:
  "case hdrs_left iter of
     [] \<Rightarrow> fst (a0_packet_header_iterator_next iter) = Inl A0_ERR_ITER_DONE \<and>
       hdrs_left (snd (a0_packet_header_iterator_next iter)) = []
   | h # hs \<Rightarrow> fst (a0_packet_header_iterator_next iter) = Inr h \<and>
       hdrs_left (snd (a0_packet_header_iterator_next iter)) = hs"
proof (induction iter rule: a0_packet_header_iterator_next.induct)
  case (2 block next_block idx)
  show ?case
  proof (cases "length block \<le> idx")
    case True
    have "hdrs_left (next_block, 0) = concat next_block" by (cases next_block) auto
    moreover have "a0_packet_header_iterator_next (block # next_block, idx) = a0_packet_header_iterator_next (next_block, 0)"
      "hdrs_left (block # next_block, idx) = concat next_block"
      using True by simp_all
    ultimately show ?thesis using 2 [OF True] by (simp only:)
  next
    case False
    then have "drop idx block = block ! idx # drop (Suc idx) block" by (simp add: Cons_nth_drop_Suc)
    then show ?thesis using False by simp
  qed
qed simp

lemma iterator_next_match:
  "\<exists>r iter'. a0_packet_header_iterator_next_match key iter = Some (r, iter') \<and>
     (case dropWhile (\<lambda>h. fst h \<noteq> key) (hdrs_left iter) of
        [] \<Rightarrow> r = Inl A0_ERR_ITER_DONE \<and> hdrs_left iter' = []
      | h # hs \<Rightarrow> r = Inr h \<and> hdrs_left iter' = hs)"
proof (induction "hdrs_left iter" arbitrary: iter)
  case Nil
  then show ?case
    using iterator_next [of iter]
    by (subst a0_packet_header_iterator_next_match.simps) (auto split: prod.splits sum.splits)
next
  case (Cons h hs)
  have *: "fst (a0_packet_header_iterator_next iter) = Inr h"
    "hs = hdrs_left (snd (a0_packet_header_iterator_next iter))"
    using iterator_next [of iter] Cons.hyps(2) [symmetric] by auto
  show ?case
    using Cons.hyps(1) [OF *(2)] * Cons.hyps(2) [symmetric]
    by (subst a0_packet_header_iterator_next_match.simps) (auto split: prod.splits)
qed

lemma flat_payload:
  assumes "packet_ok pkt" "flat_at m buf pkt"
  shows "bytes m (fst (a0_flat_packet_payload buf m)) (snd (a0_flat_packet_payload buf m)) = pkt_payload pkt"
proof -
  obtain data sz where buf: "buf = (data, sz)" by (cases buf)
  note r = flat_reads [OF assms(1) assms(2) [unfolded buf]]
  have "payload_idx (length (hdrs_of pkt)) = 45 + 16 * length (hdrs_of pkt)"
    using r(6,7) by (simp add: payload_idx_def sizeof_uuid_def sizeof_size_def content_off_def)
  moreover have "sub64 sz (content_off pkt + length (hdr_content (hdrs_of pkt))) = length (pkt_payload pkt)"
    using r(6,7) by (simp add: sub64_eq)
  ultimately show ?thesis
    using r(2,4,5) by (simp add: a0_flat_packet_payload_def buf sizeof_uuid_def Let_def holds_at_def)
qed

section \<open>Properties\<close>

text \<open>An allocator that always hands out address \<open>a\<close>, and a packet with headers in two blocks.\<close>

definition alloc_at :: "nat \<Rightarrow> a0_alloc" where
  "alloc_at a n w = Some (Inr (a, n), w)"

definition example_packet :: a0_packet where
  "example_packet = \<lparr>pkt_id = replicate 36 48 @ [0], headers_block = [[([97], [98])], [], [([99, 99], [])]],
     pkt_payload = [7, 8, 9]\<rparr>"

lemma example_packet: "packet_ok example_packet" "strings_ok example_packet"
  "hdrs_of example_packet = [([97], [98]), ([99, 99], [])]" "length (flat example_packet) = 96"
  by (simp_all add: packet_ok_def strings_ok_def hdrs_of_def example_packet_def flat_def content_off_def)

definition blank :: world where
  "blank = \<lparr>mm = (\<lambda>_. 0), past = [], now = 0, kernel = (\<lambda>_ _ m. (None, m)),
     clock_gettime = (\<lambda>_ _. Inr \<lparr>tv_sec = 0, tv_nsec = 0\<rparr>), gettid = 7, rb_head = 0, rb_init = True, null = 0\<rparr>"

text \<open>
  \<^verbatim>\<open>a0_packet_serialize\<close> asks for exactly the bytes it needs and writes exactly the documented
  layout there: id, number of headers, the offset of every key and value, the offset of the payload,
  then the null-terminated keys and values in order, and the payload; nothing else changes.
\<close>

theorem packet_serialize_spec:
  assumes "packet_ok pkt" "alloc (length (flat pkt)) w = Some (Inr buf, w1)"
  shows "\<exists>w'. a0_packet_serialize pkt alloc w = Some (buf, w') \<and>
     bytes (mm w') (fst buf) (length (flat pkt)) = flat pkt \<and>
     touches {fst buf..<fst buf + length (flat pkt)} w1 w'"
  using serialize_to_eq [OF assms(1), of "fst buf" w1] stats_eq(1) [OF assms(1)] assms(2)
  by (simp add: a0_packet_serialize_def)

theorem packet_serialize_spec_witness:
  "\<exists>w'. a0_packet_serialize example_packet (alloc_at 100) blank = Some ((100, 96), w') \<and>
     bytes (mm w') 100 96 = flat example_packet"
  using packet_serialize_spec [OF example_packet(1), of "alloc_at 100" blank "(100, 96)" blank]
  by (auto simp: alloc_at_def example_packet(4))

text \<open>
  C15. Round trip: deserialising what \<^verbatim>\<open>a0_packet_serialize\<close> has written, into memory that does not
  overlap it, gives a packet with the same id, the same headers in the same order, all in one
  block, and the same payload, and writes only the buffer it has allocated.
\<close>

theorem packet_roundtrip_spec:
  assumes "packet_ok pkt" "strings_ok pkt" "alloc (length (flat pkt)) w = Some (Inr (fp, length (flat pkt)), w0)"
    and "a0_packet_serialize pkt alloc w = Some (buf, w1)"
    and "n = 16 * length (hdrs_of pkt) + length (hdr_content (hdrs_of pkt)) + length (pkt_payload pkt)"
    and "alloc2 n w1 = Some (Inr (out, n), w2)" "only S (mm w1) (mm w2)" "S \<inter> {fp..<fp + length (flat pkt)} = {}"
    and "out + n < 2 ^ 64" "{out..<out + n} \<inter> {fp..<fp + length (flat pkt)} = {}"
  shows "\<exists>r w3. a0_packet_deserialize buf alloc2 w1 = Some (r, (out, n), w3) \<and>
     ref_at (mm w3) r pkt \<and> touches {out..<out + n} w2 w3"
proof -
  have buf: "buf = (fp, length (flat pkt))" and w1: "mm w1 = blit fp (flat pkt) (mm w0)"
    using assms(3,4) serialize_to_eq [OF assms(1), of fp w0] stats_eq(1) [OF assms(1)]
    by (auto simp: a0_packet_serialize_def)
  have f1: "flat_at (mm w1) buf pkt" by (simp add: flat_at_def buf w1 holds_blit)
  have f2: "flat_at (mm w2) buf pkt"
    using f1 holds_only [OF assms(7,8)] by (simp add: flat_at_def buf)
  have out: "out + 16 * length (hdrs_of pkt) + length (hdr_content (hdrs_of pkt)) + length (pkt_payload pkt) = out + n"
    using assms(5) by simp
  show ?thesis
    using deserialize_correct [OF assms(1,2) f1, of alloc2 out n w2] f2 assms(5,6,9,10)
    unfolding out by (simp add: buf)
qed

theorem packet_roundtrip_spec_witness:
  "\<exists>w1 r w3. a0_packet_serialize example_packet (alloc_at 100) blank = Some ((100, 96), w1) \<and>
     a0_packet_deserialize (100, 96) (alloc_at 300) w1 = Some (r, (300, 43), w3) \<and> ref_at (mm w3) r example_packet"
proof -
  have n: "43 = 16 * length (hdrs_of example_packet) + length (hdr_content (hdrs_of example_packet)) +
      length (pkt_payload example_packet)"
    by (simp add: example_packet(3)) (simp add: example_packet_def)
  obtain w1 where w1: "a0_packet_serialize example_packet (alloc_at 100) blank = Some ((100, 96), w1)"
    using stats_eq(1) [OF example_packet(1)] by (simp add: a0_packet_serialize_def alloc_at_def example_packet(4))
  show ?thesis
    using packet_roundtrip_spec [OF example_packet(1,2) _ w1 n, of 100 blank "alloc_at 300" 300 w1 "{}"] w1
    by (auto simp: alloc_at_def example_packet(4) only_def)
qed

text \<open>
  \<^verbatim>\<open>a0_packet_deep_copy\<close> builds the same packet in the one buffer it allocates: id, all headers in
  order in one block, payload.
\<close>

theorem packet_deep_copy_spec:
  assumes "packet_ok pkt" "strings_ok pkt"
    and "n = 16 * length (hdrs_of pkt) + length (hdr_content (hdrs_of pkt)) + length (pkt_payload pkt)"
    and "alloc n w = Some (Inr (out, n), w1)" "out + n < 2 ^ 64"
  shows "\<exists>r w'. a0_packet_deep_copy pkt alloc w = Some (r, (out, n), w') \<and> ref_at (mm w') r pkt \<and>
     touches {out..<out + n} w1 w'"
proof -
  have out: "out + 16 * length (hdrs_of pkt) + length (hdr_content (hdrs_of pkt)) + length (pkt_payload pkt) = out + n"
    using assms(3) by simp
  show ?thesis
    using deep_copy_correct [OF assms(1,2), of alloc w out n w1] assms(3-5) unfolding out by simp
qed

theorem packet_deep_copy_spec_witness:
  "\<exists>r w'. a0_packet_deep_copy example_packet (alloc_at 300) blank = Some (r, (300, 43), w') \<and>
     ref_at (mm w') r example_packet"
proof -
  have n: "43 = 16 * length (hdrs_of example_packet) + length (hdr_content (hdrs_of example_packet)) +
      length (pkt_payload example_packet)"
    by (simp add: example_packet(3)) (simp add: example_packet_def)
  show ?thesis
    using packet_deep_copy_spec [OF example_packet(1,2) n, of "alloc_at 300" blank 300 blank]
    by (auto simp: alloc_at_def)
qed

text \<open>
  The accessors read a flat packet in place: the statistics, the payload, the id, and the \<open>i\<close>-th
  header in order of serialisation; an index past the last header is not found. Searching from
  position \<open>i\<close> returns, always, the first header from there with the key, or that there is none.
\<close>

theorem flat_packet_access_spec:
  assumes "packet_ok pkt" "strings_ok pkt" "flat_at m buf pkt"
  shows "a0_flat_packet_stats buf m = a0_packet_stats_of pkt \<and>
     bytes m (a0_flat_packet_id buf) 37 = pkt_id pkt \<and>
     bytes m (fst (a0_flat_packet_payload buf m)) (snd (a0_flat_packet_payload buf m)) = pkt_payload pkt \<and>
     (case a0_flat_packet_header buf i m of
        Inl e \<Rightarrow> e = A0_ERR_NOT_FOUND \<and> length (hdrs_of pkt) \<le> i
      | Inr (k, v) \<Rightarrow> i < length (hdrs_of pkt) \<and> cstr m k = Some (fst (hdrs_of pkt ! i)) \<and>
          cstr m v = Some (snd (hdrs_of pkt ! i))) \<and>
     (i \<le> length (hdrs_of pkt) \<longrightarrow>
        (\<exists>r. a0_flat_packet_header_iterator_next_match m key (buf, i) = Some r \<and>
           (case first_match key (drop i (hdrs_of pkt)) i of
              None \<Rightarrow> r = (Inl A0_ERR_NOT_FOUND, (buf, length (hdrs_of pkt) + 1))
            | Some j \<Rightarrow> r = (a0_flat_packet_header buf j m, (buf, j + 1)))))"
proof -
  obtain data sz where buf: "buf = (data, sz)" by (cases buf)
  note r = flat_reads [OF assms(1) assms(3) [unfolded buf]]
  let ?hs = "hdrs_of pkt"
  have id: "length (pkt_id pkt) = 37" using assms(1) by (simp add: packet_ok_def)
  have n: "index_size (length ?hs) = content_off pkt" by (rule stats_eq(2) [OF assms(1)])
  have size: "sub64 sz (content_off pkt) = length (hdr_content ?hs) + length (pkt_payload pkt)"
    using r(6,7) by (simp add: sub64_eq)
  have "a0_flat_packet_stats buf m = a0_packet_stats_of pkt"
    using r(2) n size stats_eq(1) [OF assms(1)] length_flat [OF id] r(6)
    by (simp add: a0_flat_packet_stats_def buf sizeof_uuid_def)
  moreover have "bytes m (a0_flat_packet_id buf) 37 = pkt_id pkt"
    using r(1) id by (simp add: a0_flat_packet_id_def buf holds_at_def)
  moreover note flat_payload [OF assms(1,3)]
  moreover have "case a0_flat_packet_header buf i m of
        Inl e \<Rightarrow> e = A0_ERR_NOT_FOUND \<and> length ?hs \<le> i
      | Inr (k, v) \<Rightarrow> i < length ?hs \<and> cstr m k = Some (fst (?hs ! i)) \<and> cstr m v = Some (snd (?hs ! i))"
    using flat_header [OF assms, of i] by (cases "i < length ?hs") auto
  ultimately show ?thesis using flat_next_match [OF assms, of i key] by blast
qed

theorem flat_packet_access_spec_witness:
  "\<exists>k v. a0_flat_packet_header (100, 96) 1 (blit 100 (flat example_packet) (\<lambda>_. 0)) = Inr (k, v) \<and>
     cstr (blit 100 (flat example_packet) (\<lambda>_. 0)) k = Some [99, 99]"
proof -
  have f: "flat_at (blit 100 (flat example_packet) (\<lambda>_. 0)) (100, 96) example_packet"
    by (simp add: flat_at_def holds_blit example_packet(4))
  show ?thesis
    using flat_packet_access_spec [OF example_packet(1,2) f, of 1 "[]"]
    by (auto simp: example_packet(3) split: sum.splits)
qed

text \<open>
  C16. The header iterator of a packet yields the headers of all its blocks in order, empty blocks
  skipped, and then reports the end, again and again; searching with it always returns, with the
  first header left that has the key, and stands behind it.
\<close>

theorem packet_iterate_spec:
  "hdrs_left (a0_packet_header_iterator_init pkt) = hdrs_of pkt \<and>
   (case hdrs_left iter of
      [] \<Rightarrow> fst (a0_packet_header_iterator_next iter) = Inl A0_ERR_ITER_DONE \<and>
        hdrs_left (snd (a0_packet_header_iterator_next iter)) = []
    | h # hs \<Rightarrow> fst (a0_packet_header_iterator_next iter) = Inr h \<and>
        hdrs_left (snd (a0_packet_header_iterator_next iter)) = hs) \<and>
   (\<exists>r iter'. a0_packet_header_iterator_next_match key iter = Some (r, iter') \<and>
     (case dropWhile (\<lambda>h. fst h \<noteq> key) (hdrs_left iter) of
        [] \<Rightarrow> r = Inl A0_ERR_ITER_DONE \<and> hdrs_left iter' = []
      | h # hs \<Rightarrow> r = Inr h \<and> hdrs_left iter' = hs))"
proof -
  have "hdrs_left (a0_packet_header_iterator_init pkt) = hdrs_of pkt"
    by (cases "headers_block pkt") (simp_all add: a0_packet_header_iterator_init_def hdrs_of_def)
  then show ?thesis using iterator_next iterator_next_match by blast
qed

end
