(* ===== verification/Writer_Correct.thy ===== *)
theory Writer_Correct
  imports Writer Publish Packet_Correct Transport_Props
begin

text \<open>
  The properties of \<^verbatim>\<open>src/writer.c\<close> and \<^verbatim>\<open>src/middleware.c\<close>: how a chain of middleware is run, and
  what a write leaves in the transport.
\<close>

section \<open>The chain\<close>

fun flatten :: "a0_middleware \<Rightarrow> a0_writer" where
  "flatten (Compose f s) = flatten f @ flatten s"
| "flatten m = [m]"

definition flat_chain :: "a0_writer \<Rightarrow> a0_writer" where
  "flat_chain ms = concat (map flatten ms)"

lemma flat_chain_simps [simp]: "flat_chain [] = []" "flat_chain (m # ms) = flatten m @ flat_chain ms"
  by (simp_all add: flat_chain_def)

definition simple :: "a0_middleware \<Rightarrow> bool" where
  "simple m \<longleftrightarrow> (case m of Compose _ _ \<Rightarrow> False | Write_action _ \<Rightarrow> False | _ \<Rightarrow> True)"

lemma impl_simps:
  "a0_writer_write_impl merge [] head tlk pkt w = None"
  "a0_writer_write_impl merge (Compose f s # rest) head tlk pkt w = a0_writer_write_impl merge (f # s # rest) head tlk pkt w"
  "a0_writer_write_impl merge (Write_action t # rest) head None pkt w =
     a0_writer_write_impl merge head head (Some t) pkt (a0_transport_lock t w)"
  "a0_writer_write_impl merge (Write_action t # rest) head (Some c) pkt w = a0_write_action_process_locked c pkt w"
  "simple m \<Longrightarrow> a0_writer_write_impl merge (m # rest) head tlk pkt w =
     (case process_mw merge m tlk pkt w of
        None \<Rightarrow> None
      | Some (Inl r) \<Rightarrow> Some r
      | Some (Inr (pkt, w)) \<Rightarrow> a0_writer_write_impl merge rest head tlk pkt w)"
  by (subst a0_writer_write_impl.simps, simp add: simple_def split: a0_middleware.splits)+

lemma impl_flatten:
  "a0_writer_write_impl merge node head tlk pkt w =
     a0_writer_write_impl merge (flat_chain node) (flat_chain head) tlk pkt w"
proof (induction merge node head tlk pkt w rule: a0_writer_write_impl.induct)
  case (1 merge node head tlk pkt w)
  show ?case
  proof (cases node)
    case (Cons m rest)
    consider f s where "m = Compose f s" | t where "m = Write_action t" | "simple m"
      by (cases m) (auto simp: simple_def)
    then show ?thesis
    proof cases
      case 1
      then show ?thesis using "1.IH"(9) [OF Cons 1] Cons by (simp add: impl_simps)
    next
      case 2
      then show ?thesis using "1.IH"(1) [OF Cons 2] Cons by (cases tlk) (simp_all add: impl_simps)
    next
      case 3
      then have "flatten m = [m]" by (cases m) (auto simp: simple_def)
      moreover have "a0_writer_write_impl merge rest head tlk p v =
          a0_writer_write_impl merge (flat_chain rest) (flat_chain head) tlk p v"
        if "process_mw merge m tlk pkt w = Some (Inr (p, v))" for p v
        using 3 that Cons by (cases m) (auto simp: simple_def intro: "1.IH"(2-8))
      ultimately show ?thesis
        using 3 Cons by (auto simp: impl_simps split: option.splits sum.splits)
    qed
  qed (simp add: impl_simps)
qed

text \<open>The simple middleware in one phase, one after the other.\<close>

fun run_mw :: "json_merge \<Rightarrow> a0_transport option \<Rightarrow> a0_writer \<Rightarrow> a0_packet \<Rightarrow> world \<Rightarrow> mw_step option" where
  "run_mw merge tlk [] pkt w = Some (Inr (pkt, w))"
| "run_mw merge tlk (m # ms) pkt w =
     (case process_mw merge m tlk pkt w of
        None \<Rightarrow> None
      | Some (Inl r) \<Rightarrow> Some (Inl r)
      | Some (Inr (pkt, w)) \<Rightarrow> run_mw merge tlk ms pkt w)"

lemma impl_run:
  "list_all simple ms \<Longrightarrow> a0_writer_write_impl merge (ms @ rest) head tlk pkt w =
     (case run_mw merge tlk ms pkt w of
        None \<Rightarrow> None
      | Some (Inl r) \<Rightarrow> Some r
      | Some (Inr (pkt, w)) \<Rightarrow> a0_writer_write_impl merge rest head tlk pkt w)"
  by (induction ms arbitrary: pkt w) (auto simp: impl_simps split: option.splits sum.splits)

lemma write_phases:
  assumes chain: "flat_chain writer = ms @ [Write_action t]" and ms: "list_all simple ms"
  shows "a0_writer_write merge writer pkt w =
     (case run_mw merge None ms pkt w of
        None \<Rightarrow> None
      | Some (Inl r) \<Rightarrow> Some r
      | Some (Inr (pkt, w)) \<Rightarrow>
          (case run_mw merge (Some t) ms pkt (a0_transport_lock t w) of
             None \<Rightarrow> None
           | Some (Inl r) \<Rightarrow> Some r
           | Some (Inr (pkt, w)) \<Rightarrow> a0_write_action_process_locked t pkt w))"
  using impl_run [OF ms]
  by (auto simp: a0_writer_write_def impl_flatten [of merge writer] chain impl_simps split: option.splits sum.splits)

section \<open>The write action\<close>

lemma serialize_hdrs_simps:
  "rb_init (snd (snd (serialize_hdrs out hs s))) = rb_init (snd (snd s))"
  "null (snd (snd (serialize_hdrs out hs s))) = null (snd (snd s))"
  by (induction out hs s rule: serialize_hdrs.induct) (simp_all add: wr_bytes_simps Let_def del: wr_bytes.simps)

lemma serialize_to_simps: "rb_init (serialize_to pkt out w) = rb_init w" "null (serialize_to pkt out w) = null w"
  using serialize_hdrs_simps [of out "hdrs_of pkt"]
  by (simp_all add: serialize_to_def Let_def serialize_blocks_concat hdrs_of_def wr_bytes_simps case_prod_beta
      del: wr_bytes.simps)

text \<open>
  What a write does to the log \<open>st\<close>: it takes some of the oldest frames away and appends one with
  the bytes \<open>bs\<close>; on the way, every memory has the log with fewer frames, or the complete new one.
\<close>

definition appends :: "nat \<Rightarrow> world \<Rightarrow> world \<Rightarrow> nat list \<Rightarrow> tlog \<Rightarrow> u8 list \<Rightarrow> bool" where
  "appends A w w' ms st bs \<longleftrightarrow> (\<exists>off k. k \<le> length (frames st) \<and>
     (let new = l_push off (length bs) (l_evict k st); data = drop k (contents (mm w) st) @ [bs] in
       idle A w' ms new \<and> contents (mm w') new = data \<and>
       grew w w' (\<lambda>m. (\<exists>j \<le> k. leaves A w m (l_evict j st)) \<or> committed A m new \<and> contents m new = data)))"

lemma appends_after:
  assumes g: "grew w w1 (\<lambda>m. leaves A w m st)" and c: "contents (mm w1) st = contents (mm w) st"
    and a: "appends A w1 w' ms st bs"
  shows "appends A w w' ms st bs"
proof -
  have l: "leaves A w1 m (l_evict j st) = leaves A w m (l_evict j st)" for m j
    using c by (simp add: leaves_def drop_contents)
  obtain off k where k: "k \<le> length (frames st)" and
    a: "let new = l_push off (length bs) (l_evict k st); data = drop k (contents (mm w) st) @ [bs] in
       idle A w' ms new \<and> contents (mm w') new = data \<and>
       grew w1 w' (\<lambda>m. (\<exists>j \<le> k. leaves A w m (l_evict j st)) \<or> committed A m new \<and> contents m new = data)"
    using a unfolding appends_def c l by blast
  have "grew w w1 (\<lambda>m. (\<exists>j \<le> k. leaves A w m (l_evict j st)) \<or> Q m)" for Q
    using g by (rule grew_mono) (metis l_evict.simps(1) le0)
  note pre = this
  let ?new = "l_push off (length bs) (l_evict k st)" and ?data = "drop k (contents (mm w) st) @ [bs]"
  have a: "idle A w' ms ?new" "contents (mm w') ?new = ?data"
    "grew w1 w' (\<lambda>m. (\<exists>j \<le> k. leaves A w m (l_evict j st)) \<or> committed A m ?new \<and> contents m ?new = ?data)"
    using a unfolding Let_def by blast+
  from grew_trans [OF pre a(3)] k a(1,2) show ?thesis
    unfolding appends_def Let_def by blast
qed

lemma write_locked:
  assumes s: "session A w ms st" and mode: "arena_mode t = A0_ARENA_MODE_SHARED" and ok: "packet_ok pkt"
    and fits: "184 + length (flat pkt) \<le> A" "length (flat pkt) + A + 128 < 2 ^ 64" "s_high st + 1 < 2 ^ 64"
  shows "\<exists>w'. a0_write_action_process_locked t pkt w = Some (A0_OK, w') \<and> appends A w w' ms st (flat pkt) \<and>
     only (lock_area A w ms) (mm w) (mm w')"
proof -
  let ?fill = "\<lambda>off. serialize_to pkt (off + 40)"
  note ser = serialize_to_eq [OF ok]
  have "map (mm (?fill off v)) [off + 40..<off + 40 + length (flat pkt)] = flat pkt" for off v
    unfolding ser(1) using bytes_blit [of "off + 40" "flat pkt" "mm v"] by (simp add: bytes_def)
  from publish_session [OF s mode fits ser(2) this] serialize_to_simps obtain off k w1 w2 where
    p: "a0_transport_alloc t (length (flat pkt)) w = Some (Inr off, w1)"
      "a0_transport_commit (?fill off w1) = Some w2" "k \<le> length (frames st)"
    and q: "let w' = a0_transport_unlock t w2; new = l_push off (length (flat pkt)) (l_evict k st);
          data = drop k (contents (mm w) st) @ [flat pkt] in
       idle A w' ms new \<and> contents (mm w') new = data \<and> only (lock_area A w ms) (mm w) (mm w') \<and>
       grew w w' (\<lambda>m. (\<exists>j \<le> k. leaves A w m (l_evict j st)) \<or> committed A m new \<and> contents m new = data)"
    by blast
  have "a0_write_action_process_locked t pkt w = Some (A0_OK, a0_transport_unlock t w2)"
    using p(1,2) stats_eq(1) [OF ok]
    by (simp add: a0_write_action_process_locked_def a0_packet_serialize_def a0_transport_allocator_impl_def
        sizeof_frame_hdr_def)
  then show ?thesis using p(3) q unfolding appends_def Let_def by blast
qed

lemma write_locked_large:
  assumes s: "session A w ms st" and mode: "arena_mode t = A0_ARENA_MODE_SHARED" and ok: "packet_ok pkt"
    and fits: "A < 184 + length (flat pkt)" "length (flat pkt) + A + 128 < 2 ^ 64" "s_high st + 1 < 2 ^ 64"
  shows "a0_write_action_process_locked t pkt w = None"
proof -
  have t: "tinv A w st st" using s by (simp add: session_def)
  have "find_slot A (40 + length (flat pkt)) (frames st) = None"
    using find_slot_None [OF tinvD(3) [OF t]] fits by simp
  then have "a0_transport_alloc t (length (flat pkt)) w = Some (Inl A0_ERR_FRAME_LARGE, w)"
    using alloc_correct [OF t _ fits(2,3), of t] mode by (simp add: l_alloc_def)
  then show ?thesis
    using stats_eq(1) [OF ok]
    by (simp add: a0_write_action_process_locked_def a0_packet_serialize_def a0_transport_allocator_impl_def)
qed

section \<open>Standard headers\<close>

lemma dec_nonzero: "0 \<notin> set (dec n v)"
proof (induction n arbitrary: v)
  case (Suc n)
  have "(word_of_nat (48 + v mod 10) :: u8) \<noteq> 0"
  proof -
    have "v mod 10 < 10" by simp
    then have "48 + v mod 10 < 256" by linarith
    then have "unat (word_of_nat (48 + v mod 10) :: u8) = 48 + v mod 10" by (simp add: unat_of_nat del: of_nat_add)
    then show ?thesis by (intro notI) simp
  qed
  then show ?case using Suc by simp
qed simp

lemma c_string_nul: "0 \<notin> set s \<Longrightarrow> c_string (s @ [0]) = s"
  unfolding c_string_def by (subst takeWhile_append2) auto

lemma mono_text:
  assumes "ns_u64 ts < 10 ^ 19"
  shows "a0_time_mono_str ts (replicate 20 0) = Some (dec 19 (ns_u64 ts) @ [0])"
proof -
  have "replicate 20 0 = replicate 19 (0 :: u8) @ [0]" by (simp add: numeral_eq_Suc)
  then show ?thesis
    using u64_to_str_eq [of "ns_u64 ts" "replicate 19 0"] assms
    by (simp add: a0_time_mono_str_def Let_def list_update_append del: dec_numeral)
qed

lemma seq_str_eq:
  assumes "n < 10 ^ 19"
  shows "seq_str n = Some (dec (ndigits n) n)"
proof -
  have "ndigits n \<le> 19" using assms by (rule ndigits_le) simp
  then obtain m where m: "19 = m + ndigits n" by (metis add.commute le_Suc_ex)
  have "drop (19 - ndigits n) (dec 19 n) = dec (ndigits n) n"
    unfolding m dec_add by simp
  then show ?thesis
    using u64_to_str_eq [of n "replicate 19 0"] assms by (simp add: seq_str_def del: dec_numeral)
qed

text \<open>Memory of the caller's that is neither in the arena nor in the thread's robust list.\<close>

definition apart_from :: "nat \<Rightarrow> nat list \<Rightarrow> nat \<Rightarrow> nat \<Rightarrow> bool" where
  "apart_from A ys a n \<longleftrightarrow> A \<le> a \<and> (\<forall>y \<in> set ys. a + n \<le> y \<or> y + 24 \<le> a)"

lemma idle_wr:
  assumes i: "idle A w ms st" and a: "apart_from A (rb_head w # ms) a n"
  shows "idle A (wr n a v w) ms st" "contents (mm (wr n a v w)) st = contents (mm w) st"
    "grew w (wr n a v w) (\<lambda>m. leaves A w m st)"
proof -
  have c: "committed A (mm w) st" using i by (simp add: idle_def)
  then have ok: "log_ok A st" by (simp add: committed_def)
  have A: "144 \<le> A" by (rule log_ok_A [OF ok])
  have high: "A \<le> a" using a by (simp add: apart_from_def)
  have o: "only (outer A) (mm w) (mm (wr n a v w))"
    unfolding wr_simps by (rule only_stb) (use high in \<open>auto simp: outer_def\<close>)
  show "contents (mm (wr n a v w)) st = contents (mm w) st" by (rule contents_around [OF only_mono [OF o outer_around] ok])
  show "grew w (wr n a v w) (\<lambda>m. leaves A w m st)" by (rule grew_wr) (simp add: leaves_def c)
  have far: "\<forall>y \<in> set (rb_head w # ms). A \<le> y" using i by (simp add: idle_def list_outside_def)
  have "robust_ok (stb n (mm w) a v) (rb_head w) ms = robust_ok (mm w) (rb_head w) ms"
    using a by (intro robust_ok_cong) (auto simp: apart_from_def ld_stb_other)
  then have "list_outside A (wr n a v w) ms" using i far by (auto simp: idle_def list_outside_def thread_ok_def)
  moreover have "ld32 (stb n (mm w) a v) (hdr_mtx + 16) = ld32 (mm w) (hdr_mtx + 16)"
    using high A by (simp add: ld32_def ld_stb_other layout)
  ultimately show "idle A (wr n a v w) ms st"
    using i committed_outer(1) [OF c o] high A by (simp add: idle_def requeue_ok_def no_waiters_def has_header_def stb_other)
qed

text \<open>Locking a free transport takes no system call.\<close>

lemma lock_clock:
  assumes i: "idle A w ms st" and mode: "arena_mode t = A0_ARENA_MODE_SHARED"
  shows "now (a0_transport_lock t w) = now w" "clock_gettime (a0_transport_lock t w) = clock_gettime w"
proof -
  have "144 \<le> A" "A \<le> rb_head w" "rb_init w" "ld32 (mm w) (hdr_mtx + 16) = 0"
    using i log_ok_A [of A st] by (auto simp: idle_def list_outside_def thread_ok_def committed_def)
  then have "ld32 (stb 8 (mm w) (rb_head w + 16) v) (hdr_mtx + 16) = 0" for v
    by (simp add: ld32_def ld_stb_other layout)
  then have "now (snd (a0_mtx_lock hdr_mtx w)) = now w \<and> clock_gettime (snd (a0_mtx_lock hdr_mtx w)) = clock_gettime w"
    using \<open>rb_init w\<close>
    by (simp add: a0_mtx_lock_def a0_mtx_timedlock_def a0_mtx_timedlock_robust_def a0_robust_op_start_def
        a0_robust_init_thread_def a0_cas_val_def a0_mtx_lock_successful_def a0_robust_op_add_def
        a0_robust_op_end_def robust_is_head_def wr32_def Let_def)
  then show "now (a0_transport_lock t w) = now w" "clock_gettime (a0_transport_lock t w) = clock_gettime w"
    using mode by (simp_all add: a0_transport_lock_def copy_page_def Let_def case_prod_beta)
qed

text \<open>The packet with the standard headers: the readings of the clocks, and the counters.\<close>

definition with_headers :: "timespec \<Rightarrow> timespec \<Rightarrow> nat \<Rightarrow> u8 list \<Rightarrow> nat \<Rightarrow> a0_packet \<Rightarrow> a0_packet" where
  "with_headers wall boot wseq wid tseq pkt = pkt\<lparr>headers_block :=
     [[(str ''a0_transport_seq'', dec (ndigits tseq) tseq)], [(A0_TIME_MONO, dec 19 (ns_u64 boot))],
      [(str ''a0_writer_seq'', dec (ndigits wseq) wseq)], [(str ''a0_writer_id'', c_string wid)],
      [(A0_TIME_WALL, c_string (wall_text wall))]] @ headers_block pkt\<rparr>"

lemma session_now: "session A w ms st \<Longrightarrow> session A (w\<lparr>now := n\<rparr>) ms st"
  by (auto simp: session_def tinv_def holds_def thread_ok_def no_waiters_def requeue_ok_def)

lemma idle_now: "idle A w ms st \<Longrightarrow> idle A (w\<lparr>now := n\<rparr>) ms st"
  by (auto simp: idle_def list_outside_def thread_ok_def no_waiters_def requeue_ok_def)

lemma appends_now: "appends A (w\<lparr>now := n\<rparr>) w' ms st bs = appends A w w' ms st bs"
  by (simp add: appends_def grew_def leaves_def Let_def)

definition std_chain :: "u8 list \<Rightarrow> nat \<Rightarrow> a0_writer" where
  "std_chain wid data = [Add_time_mono_header, Add_time_wall_header, Add_writer_id_header wid, Add_writer_seq_header data,
     Add_transport_seq_header]"

text \<open>The headers that are added before the lock is taken.\<close>

definition early_headers :: "timespec \<Rightarrow> nat \<Rightarrow> u8 list \<Rightarrow> a0_packet \<Rightarrow> a0_packet" where
  "early_headers wall wseq wid pkt = add_header (str ''a0_writer_seq'') (dec (ndigits wseq) wseq)
     (add_header (str ''a0_writer_id'') (c_string wid) (add_header A0_TIME_WALL (c_string (wall_text wall)) pkt))"

text \<open>The clocks can be read, and everything has its text: what the standard headers need.\<close>

definition stampable :: "nat \<Rightarrow> world \<Rightarrow> nat list \<Rightarrow> tlog \<Rightarrow> nat \<Rightarrow> timespec \<Rightarrow> timespec \<Rightarrow> bool" where
  "stampable A w ms st data wall boot \<longleftrightarrow>
     clock_gettime w (now w) CLOCK_REALTIME = Inr wall \<and> clock_gettime w (now w + 1) CLOCK_BOOTTIME = Inr boot \<and>
     four_digit_year (tv_sec wall) \<and> normal_ts wall \<and> ns_u64 boot < 10 ^ 19 \<and>
     ld64 (mm w) data < 10 ^ 19 \<and> s_high st < 10 ^ 19 \<and> apart_from A (rb_head w # ms) data 8"

lemma run_standard_early:
  assumes i: "idle A w ms st" and std: "stampable A w ms st data wall boot"
  shows "\<exists>w1. run_mw merge None (std_chain wid data) pkt w = Some (Inr (early_headers wall (ld64 (mm w) data) wid pkt, w1)) \<and>
     idle A w1 ms st \<and> contents (mm w1) st = contents (mm w) st \<and> grew w w1 (\<lambda>m. leaves A w m st) \<and>
     now w1 = now w + 1 \<and> clock_gettime w1 = clock_gettime w \<and> ld64 (mm w1) data = add64 (ld64 (mm w) data) 1"
proof -
  define w0 where "w0 = w\<lparr>now := Suc (now w)\<rparr>"
  define w1 where "w1 = wr 8 data (add64 (ld64 (mm w) data) 1) w0"
  have clocks: "clock_gettime w (now w) CLOCK_REALTIME = Inr wall" and texts: "four_digit_year (tv_sec wall)" "normal_ts wall"
    and seqs: "ld64 (mm w) data < 10 ^ 19" and data: "apart_from A (rb_head w # ms) data 8"
    using std by (simp_all add: stampable_def)
  have i0: "idle A w0 ms st" unfolding w0_def by (rule idle_now [OF i])
  have d0: "apart_from A (rb_head w0 # ms) data 8" using data by (simp add: w0_def)
  note i1 = idle_wr [OF i0 d0, of "add64 (ld64 (mm w) data) 1", folded w1_def]
  have wall: "a0_time_wall_now w = (Inr wall, w0)" by (simp add: a0_time_wall_now_def a0_clock_now_def clocks w0_def)
  have 1: "run_mw merge None (std_chain wid data) pkt w = Some (Inr (early_headers wall (ld64 (mm w) data) wid pkt, w1))"
    using wall_str_eq [OF texts(1,2), of "replicate 36 0"] seq_str_eq [OF seqs]
    by (simp add: std_chain_def process_mw_def process_def a0_add_time_wall_header_process_def wall
        a0_add_writer_id_header_process_def a0_add_writer_seq_header_process_def Let_def w1_def early_headers_def)
      (simp add: w0_def process_mw_def process_def)
  have m0: "mm w0 = mm w" "past w0 = past w" by (simp_all add: w0_def)
  have "grew w w1 (\<lambda>m. leaves A w m st)" using i1(3) by (simp add: grew_def leaves_def w0_def)
  moreover have "now w1 = now w + 1" "clock_gettime w1 = clock_gettime w" by (simp_all add: w1_def w0_def)
  moreover have "ld64 (mm w1) data = add64 (ld64 (mm w) data) 1" by (simp add: w1_def w0_def mem_simps add64_def)
  ultimately show ?thesis using 1 i1(1,2) m0 by auto
qed

lemma run_standard_locked:
  assumes s: "session A v ms st" and boot: "clock_gettime v (now v) CLOCK_BOOTTIME = Inr boot"
    and texts: "ns_u64 boot < 10 ^ 19" "s_high st < 10 ^ 19"
  shows "run_mw merge (Some t) (std_chain wid data) (early_headers wall wseq wid' pkt) v =
       Some (Inr (with_headers wall boot wseq wid' (s_high st) pkt, v\<lparr>now := Suc (now v)\<rparr>))"
proof -
  let ?v = "v\<lparr>now := Suc (now v)\<rparr>"
  have "session A ?v ms st" by (rule session_now [OF s])
  then have "a0_transport_seq_high ?v = s_high st"
    using working_fields(2) [of A ?v st st] by (simp add: session_def a0_transport_seq_high_def)
  moreover have "a0_time_mono_now v = (Inr boot, ?v)"
    using boot by (simp add: a0_time_mono_now_def a0_clock_now_def)
  ultimately show ?thesis
    using mono_text [OF texts(1)] seq_str_eq [OF texts(2)] c_string_nul [OF dec_nonzero, of 19 "ns_u64 boot"]
    by (simp add: std_chain_def process_mw_def process_locked_def a0_add_time_mono_header_process_locked_def
        a0_add_transport_seq_header_process_locked_def Let_def add_header_def early_headers_def with_headers_def del: dec_numeral)
qed

text \<open>
  A chain with one middleware in front of the standard headers: what this one does under the lock
  decides between returning and writing.
\<close>

lemma run_mw_append: "run_mw merge tlk (xs @ ys) pkt w =
     (case run_mw merge tlk xs pkt w of
        None \<Rightarrow> None
      | Some (Inl r) \<Rightarrow> Some (Inl r)
      | Some (Inr (pkt, w)) \<Rightarrow> run_mw merge tlk ys pkt w)"
  by (induction xs arbitrary: pkt w) (auto split: option.splits sum.splits)

lemma simple_std: "list_all simple (std_chain wid data)"
  by (simp add: std_chain_def simple_def)

lemma lock_area_apart:
  assumes "only (lock_area A w ms) m m'" "apart_from A (rb_head w # ms) data 8"
  shows "ld64 m' data = ld64 m data"
  by (rule only_ld [OF assms(1)]) (use assms(2) in \<open>fastforce simp: lock_area_def apart_from_def\<close>)

lemma write_front_standard:
  assumes i: "idle A w ms st" and mode: "arena_mode t = A0_ARENA_MODE_SHARED" and std: "stampable A w ms st data wall boot"
    and chain: "flat_chain writer = front @ std_chain wid data @ [Write_action t]" and front: "list_all simple front"
    and passes: "run_mw merge None front pkt w = Some (Inr (pkt, w))"
    and wseq: "wseq = ld64 (mm w) data"
  shows "\<exists>w1. session A w1 ms st \<and> contents (mm w1) st = contents (mm w) st \<and> grew w w1 (\<lambda>m. leaves A w m st) \<and>
     now w1 = now w + 1 \<and> clock_gettime w1 = clock_gettime w \<and> rb_head w1 = rb_head w \<and> ld64 (mm w1) data = add64 wseq 1 \<and>
     a0_writer_write merge writer pkt w =
       (case run_mw merge (Some t) front (early_headers wall wseq wid pkt) w1 of
          None \<Rightarrow> None
        | Some (Inl r) \<Rightarrow> Some r
        | Some (Inr (pkt, w2)) \<Rightarrow>
            (case run_mw merge (Some t) (std_chain wid data) pkt w2 of
               None \<Rightarrow> None
             | Some (Inl r) \<Rightarrow> Some r
             | Some (Inr (pkt, w3)) \<Rightarrow> a0_write_action_process_locked t pkt w3))"
proof -
  obtain w0 where 0: "run_mw merge None (std_chain wid data) pkt w = Some (Inr (early_headers wall wseq wid pkt, w0))"
      "idle A w0 ms st" "contents (mm w0) st = contents (mm w) st" "grew w w0 (\<lambda>m. leaves A w m st)"
      "now w0 = now w + 1" "clock_gettime w0 = clock_gettime w" "ld64 (mm w0) data = add64 wseq 1"
    using run_standard_early [OF i std] unfolding wseq by blast
  let ?w1 = "a0_transport_lock t w0"
  note l = lock_session [OF 0(2) mode] and c = lock_clock [OF 0(2) mode]
  have "grew w0 ?w1 (\<lambda>m. leaves A w m st)"
    using l(3) by (rule grew_mono) (simp add: leaves_def 0(3))
  then have g: "grew w ?w1 (\<lambda>m. leaves A w m st)" by (rule grew_trans [OF 0(4)])
  have "apart_from A (rb_head w0 # ms) data 8" using std 0(4) by (simp add: stampable_def grew_def)
  moreover have "only (lock_area A w0 ms) (mm w0) (mm ?w1)" using 0(2) lock_only [OF mode] by (auto simp: idle_def)
  ultimately have count: "ld64 (mm ?w1) data = add64 wseq 1" using lock_area_apart 0(7) by simp
  have ch: "flat_chain writer = (front @ std_chain wid data) @ [Write_action t]" using chain by simp
  have "list_all simple (front @ std_chain wid data)" using front simple_std by simp
  from write_phases [OF ch this, of merge pkt w] passes 0(1)
  have "a0_writer_write merge writer pkt w =
       (case run_mw merge (Some t) front (early_headers wall wseq wid pkt) ?w1 of
          None \<Rightarrow> None
        | Some (Inl r) \<Rightarrow> Some r
        | Some (Inr (pkt, w2)) \<Rightarrow>
            (case run_mw merge (Some t) (std_chain wid data) pkt w2 of
               None \<Rightarrow> None
             | Some (Inl r) \<Rightarrow> Some r
             | Some (Inr (pkt, w3)) \<Rightarrow> a0_write_action_process_locked t pkt w3))"
    by (simp add: run_mw_append split: option.splits sum.splits prod.splits)
  moreover have "rb_head ?w1 = rb_head w" using g by (simp add: grew_def)
  ultimately show ?thesis using l(1,2) 0(3,5,6) c g count by (intro exI [of _ ?w1]) simp
qed

text \<open>From the session on: the standard headers and the write.\<close>

lemma finish_standard:
  assumes s: "session A w2 ms st" and c: "contents (mm w2) st = contents (mm w) st" and g: "grew w w2 (\<lambda>m. leaves A w m st)"
    and clock: "now w2 = now w + 1" "clock_gettime w2 = clock_gettime w"
    and mode: "arena_mode t = A0_ARENA_MODE_SHARED" and std: "stampable A w ms st data wall boot"
    and pkt': "pkt' = with_headers wall boot wseq wid (s_high st) pkt"
    and ok: "packet_ok pkt'" "184 + length (flat pkt') \<le> A" "length (flat pkt') + A + 128 < 2 ^ 64"
  shows "\<exists>w3 w'. run_mw merge (Some t) (std_chain wid data) (early_headers wall wseq wid pkt) w2 = Some (Inr (pkt', w3)) \<and>
     a0_write_action_process_locked t pkt' w3 = Some (A0_OK, w') \<and> appends A w w' ms st (flat pkt') \<and>
     only (lock_area A w2 ms) (mm w2) (mm w')"
proof -
  let ?w3 = "w2\<lparr>now := Suc (now w2)\<rparr>"
  have "clock_gettime w2 (now w2) CLOCK_BOOTTIME = Inr boot" "ns_u64 boot < 10 ^ 19" "s_high st < 10 ^ 19"
    using std clock by (simp_all add: stampable_def)
  from run_standard_locked [OF s this]
  have r: "run_mw merge (Some t) (std_chain wid data) (early_headers wall wseq wid pkt) w2 = Some (Inr (pkt', ?w3))"
    by (simp add: pkt')
  have "s_high st + 1 < 2 ^ 64" using std by (simp add: stampable_def)
  from write_locked [OF session_now [OF s] mode ok this]
  obtain w' where w': "a0_write_action_process_locked t pkt' ?w3 = Some (A0_OK, w')" "appends A ?w3 w' ms st (flat pkt')"
      "only (lock_area A w2 ms) (mm w2) (mm w')"
    by (auto simp: lock_area_def)
  have "appends A w w' ms st (flat pkt')"
    using appends_after [OF g c] w'(2) unfolding appends_now by blast
  then show ?thesis using r w'(1,3) by blast
qed

lemma standard_appends:
  assumes "idle A w ms st" "arena_mode t = A0_ARENA_MODE_SHARED" "stampable A w ms st data wall boot"
    and "flat_chain writer = std_chain wid data @ [Write_action t]"
    and "pkt' = with_headers wall boot (ld64 (mm w) data) wid (s_high st) pkt"
    and "packet_ok pkt'" "184 + length (flat pkt') \<le> A" "length (flat pkt') + A + 128 < 2 ^ 64"
  shows "\<exists>w'. a0_writer_write merge writer pkt w = Some (A0_OK, w') \<and> appends A w w' ms st (flat pkt') \<and>
     ld64 (mm w') data = add64 (ld64 (mm w) data) 1"
proof -
  have ch: "flat_chain writer = [] @ std_chain wid data @ [Write_action t]" using assms(4) by simp
  obtain w1 where w1: "session A w1 ms st" "contents (mm w1) st = contents (mm w) st" "grew w w1 (\<lambda>m. leaves A w m st)"
      "now w1 = now w + 1" "clock_gettime w1 = clock_gettime w" "rb_head w1 = rb_head w"
      "ld64 (mm w1) data = add64 (ld64 (mm w) data) 1"
      "a0_writer_write merge writer pkt w =
         (case run_mw merge (Some t) (std_chain wid data) (early_headers wall (ld64 (mm w) data) wid pkt) w1 of
               None \<Rightarrow> None
             | Some (Inl r) \<Rightarrow> Some r
             | Some (Inr (pkt, w3)) \<Rightarrow> a0_write_action_process_locked t pkt w3)"
    using write_front_standard [OF assms(1-3) ch _ _ refl, of merge pkt] by auto
  have "apart_from A (rb_head w1 # ms) data 8" using assms(3) w1(6) by (simp add: stampable_def)
  from lock_area_apart [OF _ this] finish_standard [OF w1(1-5) assms(2,3,5-8), of merge] w1(7,8) show ?thesis by auto
qed

lemma push_standard:
  assumes "a0_add_standard_headers data urandom s v = (std, s', v')"
  shows "flat_chain (a0_writer_push [Write_action t] std) = std_chain (fst (a0_uuidv4 urandom s)) data @ [Write_action t]"
  using assms by (auto simp: a0_add_standard_headers_def a0_middleware_compose_def a0_add_writer_id_header_def std_chain_def
      a0_add_writer_seq_header_def a0_writer_push_def split: prod.splits)

section \<open>The newest packet\<close>

text \<open>The newest frame of the log holds the packet \<open>pkt\<close>.\<close>

definition newest :: "mem \<Rightarrow> tlog \<Rightarrow> a0_packet \<Rightarrow> bool" where
  "newest m st pkt \<longleftrightarrow> frames st \<noteq> [] \<and> last (contents m st) = flat pkt \<and> packet_ok pkt"

lemma newest_payload:
  assumes t: "tinv A w st st" and n: "newest (mm w) st pkt"
  shows "\<exists>t' frame. a0_transport_jump_tail t w = (A0_OK, t') \<and> a0_transport_frame t' w = Inr frame \<and>
     arena_mode t' = arena_mode t \<and>
     (let p = a0_flat_packet_payload (frame + sizeof_frame_hdr, ld64 (mm w) (fr_size_at frame)) (mm w) in
      bytes (mm w) (fst p) (snd p) = pkt_payload pkt)"
proof -
  have ne: "frames st \<noteq> []" and ok: "packet_ok pkt" using n by (simp_all add: newest_def)
  obtain t' where t': "a0_transport_jump_tail t w = (A0_OK, t')" "at_frame t' st (length (frames st) - 1)"
    using jump_tail_correct [OF t ne] by blast
  define f where "f = frames st ! (length (frames st) - 1)"
  note r = at_frame_reads [OF t t'(2), folded f_def]
  have f: "f = last (frames st)" using ne by (simp add: f_def last_conv_nth)
  have "payload (mm w) f = flat pkt" using n ne by (simp add: newest_def contents_def f last_map)
  then have p: "map (mm w) [fst f + 40..<fst f + 40 + snd f] = flat pkt" by (simp add: payload_def f_end_def)
  have len: "length (flat pkt) = snd f" using arg_cong [OF p, of length] by simp
  have "flat_at (mm w) (fst f + 40, snd f) pkt"
    using p by (simp add: flat_at_def holds_at_def bytes_def len)
  from flat_payload [OF ok this] r t' show ?thesis
    by (auto simp: sizeof_frame_hdr_def Let_def a0_transport_frame_def a0_transport_jump_tail_def split: if_splits)
qed

section \<open>Properties\<close>

text \<open>The concrete arena of 1000 bytes, unlocked; and a JSON library whose patches replace the text.\<close>

lemma arena_simps:
  "rb_head arena = 1000" "now arena = 0" "clock_gettime arena = (\<lambda>_ _. Inr \<lparr>tv_sec = 0, tv_nsec = 0\<rparr>)"
  "kernel arena = (\<lambda>_ _ m. (None, m))" "gettid arena = 7" "rb_init arena" "null arena = 0"
  by (simp_all add: arena_def init_hdr_def Let_def wr_bytes_simps quiet_world_def del: wr_bytes.simps)

lemma arena_only: "only {..<144} (mm quiet_world) (mm arena)" "ld32 (mm arena) (hdr_mtx + 16) = 0"
proof -
  have t: "touches ({..<16} \<union> {44..<144}) quiet_world arena"
    unfolding arena_def by (rule init_hdr_correct(3) [OF quiet_fresh quiet_world(2)]) simp_all
  then show "only {..<144} (mm quiet_world) (mm arena)" by (intro only_mono [OF touches_only]) auto
  have "ld 4 (mm arena) (hdr_mtx + 16) = ld 4 (mm quiet_world) (hdr_mtx + 16)"
    by (rule only_ld [OF touches_only [OF t]]) (auto simp: layout)
  then show "ld32 (mm arena) (hdr_mtx + 16) = 0" using quiet_free [of 16] by (simp add: ld32_def layout)
qed

lemma arena_hdr: "has_header (mm arena)"
proof -
  have stb: "stb (Suc 0) m a v = m(a := word_of_nat v)" for m a v by (auto simp: stb_def fun_eq_iff)
  show ?thesis
    by (simp add: has_header_def arena_def init_hdr_def Let_def wr_bytes_simps mem_simps stb_other layout ALEPHZERO_def
        version_0_3_0_def stb)
qed

lemma arena_idle: "idle 1000 arena [] empty_log"
proof -
  have "ld64 (mm arena) 1000 = ld64 (mm quiet_world) 1000" by (rule only_ld [OF arena_only(1)]) auto
  then have "list_outside 1000 arena []"
    using quiet_list by (simp add: list_outside_def thread_ok_def robust_ok_def arena_simps quiet_world_def)
  then show ?thesis
    using tinvD(1) [OF arena] arena_only(2) tinvD(4) [OF arena] arena_hdr by (simp add: idle_def no_waiters_def arena_simps)
qed

definition example_merge :: json_merge where
  "example_merge original patch = (if patch = [] then Inl ''empty'' else Inr patch)"

text \<open>
  C14. A chain of middleware is the list of its simple members, however they were composed, wrapped or
  pushed. With one write action at its end, writing a packet runs all members' unlocked methods in
  order, locks the transport, runs all locked methods in order on the packet as it is by then, and
  ends with the write action; a member that returns ends the write with its result. In particular
  pushing and wrapping a middleware are the same.
\<close>

theorem writer_phases_spec:
  assumes "flat_chain writer = ms @ [Write_action t]" "list_all simple ms"
  shows "a0_writer_write merge writer pkt w =
     (case run_mw merge None ms pkt w of
        None \<Rightarrow> None
      | Some (Inl r) \<Rightarrow> Some r
      | Some (Inr (pkt, w)) \<Rightarrow>
          (case run_mw merge (Some t) ms pkt (a0_transport_lock t w) of
             None \<Rightarrow> None
           | Some (Inl r) \<Rightarrow> Some r
           | Some (Inr (pkt, w)) \<Rightarrow> a0_write_action_process_locked t pkt w)) \<and>
     a0_writer_write merge (a0_writer_push writer m) pkt w = a0_writer_write merge (a0_writer_wrap writer m) pkt w"
proof -
  have "flat_chain (a0_writer_push writer m) = flat_chain (a0_writer_wrap writer m)"
    using assms(1) by (cases writer) (simp_all add: a0_writer_push_def a0_writer_wrap_def a0_middleware_compose_def)
  then show ?thesis
    using write_phases [OF assms] impl_flatten [of merge "a0_writer_push writer m"]
      impl_flatten [of merge "a0_writer_wrap writer m"] by (simp add: a0_writer_write_def)
qed

theorem writer_phases_spec_witness:
  "a0_writer_write example_merge (a0_writer_push [Write_action conn] (Write_if_empty None)) example_packet arena =
   a0_writer_write example_merge (a0_writer_wrap [Write_action conn] (Write_if_empty None)) example_packet arena"
  using writer_phases_spec [of "[Write_action conn]" "[]" conn example_merge example_packet arena "Write_if_empty None"]
  by simp

lemma write_appends:
  assumes i: "idle A w ms st" and mode: "arena_mode t = A0_ARENA_MODE_SHARED" and ok: "packet_ok pkt"
    and fits: "184 + length (flat pkt) \<le> A" "length (flat pkt) + A + 128 < 2 ^ 64" "s_high st + 1 < 2 ^ 64"
  shows "\<exists>w'. a0_writer_write merge [Write_action t] pkt w = Some (A0_OK, w') \<and> appends A w w' ms st (flat pkt)"
proof -
  note l = lock_session [OF i mode]
  show ?thesis
    using write_locked [OF l(1) mode ok fits] appends_after [OF l(3,2)] by (auto simp: a0_writer_write_def impl_simps)
qed

text \<open>
  C12. \<^verbatim>\<open>a0_writer_write\<close> on a transport that is not locked appends exactly the packet's serialised form as
  the newest frame, returns \<^verbatim>\<open>A0_OK\<close> and leaves the transport unlocked. A process that dies in it, at
  any store from the lock to the unlock, leaves the log without or with the complete packet. A
  packet that does not fit the arena is not reported: the source goes on with an unset pointer.
\<close>

theorem writer_write_spec:
  assumes "idle A w ms st" "arena_mode t = A0_ARENA_MODE_SHARED" "packet_ok pkt"
    and "length (flat pkt) + A + 128 < 2 ^ 64" "s_high st + 1 < 2 ^ 64"
  shows "if A < 184 + length (flat pkt) then a0_writer_write merge [Write_action t] pkt w = None
     else \<exists>w'. a0_writer_write merge [Write_action t] pkt w = Some (A0_OK, w') \<and> appends A w w' ms st (flat pkt)"
proof (cases "A < 184 + length (flat pkt)")
  case True
  note l = lock_session [OF assms(1,2)]
  have "a0_writer_write merge [Write_action t] pkt w = a0_write_action_process_locked t pkt (a0_transport_lock t w)"
    by (simp add: a0_writer_write_def impl_simps)
  then show ?thesis using True write_locked_large [OF l(1) assms(2,3) True assms(4,5)] by simp
next
  case False
  then show ?thesis using write_appends [OF assms(1-3) _ assms(4,5)] by simp
qed

theorem writer_write_spec_witness:
  "\<exists>w'. a0_writer_write example_merge [Write_action conn] example_packet arena = Some (A0_OK, w') \<and>
     appends 1000 arena w' [] empty_log (flat example_packet)"
  using writer_write_spec [OF arena_idle conn_mode example_packet(1)] by (simp add: example_packet(4))

text \<open>
  C13. A writer with the standard headers puts five in front of the packet's own: the sequence number of
  the newest frame before this one, the time on the monotonic clock, read under the lock, the count
  of this writer's packets so far, the writer's id and the time on the wall clock, read before. The count
  is then one more.
\<close>

theorem writer_standard_headers_spec:
  assumes "idle A w ms st" "arena_mode t = A0_ARENA_MODE_SHARED" "stampable A w ms st data wall boot"
    and "a0_add_standard_headers data urandom s v = (std, s', v')"
    and "pkt' = with_headers wall boot (ld64 (mm w) data) (fst (a0_uuidv4 urandom s)) (s_high st) pkt"
    and "packet_ok pkt'" "184 + length (flat pkt') \<le> A" "length (flat pkt') + A + 128 < 2 ^ 64"
  shows "\<exists>w'. a0_writer_write merge (a0_writer_push [Write_action t] std) pkt w = Some (A0_OK, w') \<and>
     appends A w w' ms st (flat pkt') \<and> ld64 (mm w') data = (ld64 (mm w) data + 1) mod 2 ^ 64"
  using standard_appends [OF assms(1-3) push_standard [OF assms(4)] assms(5-8)] by (simp add: add64_def)

lemma with_headers_simps:
  "pkt_id (with_headers wall boot wseq wid tseq pkt) = pkt_id pkt"
  "pkt_payload (with_headers wall boot wseq wid tseq pkt) = pkt_payload pkt"
  by (simp_all add: with_headers_def del: dec_numeral)

lemma with_headers_fits:
  assumes "length wid = 37" "packet_ok pkt" "length (flat pkt) \<le> 300"
  shows "packet_ok (with_headers wall boot 0 wid 0 pkt)" "184 + length (flat (with_headers wall boot 0 wid 0 pkt)) \<le> 1000"
proof -
  have c: "length (c_string s) \<le> length s" for s unfolding c_string_def by (rule length_takeWhile_le)
  let ?p = "with_headers wall boot 0 wid 0 pkt"
  have id: "length (pkt_id pkt) = 37" using assms(2) by (simp add: packet_ok_def)
  then have i: "length (pkt_id ?p) = 37" by (simp add: with_headers_simps)
  have h: "hdrs_of ?p = concat [[(str ''a0_transport_seq'', dec (ndigits 0) 0)], [(A0_TIME_MONO, dec 19 (ns_u64 boot))],
      [(str ''a0_writer_seq'', dec (ndigits 0) 0)], [(str ''a0_writer_id'', c_string wid)],
      [(A0_TIME_WALL, c_string (wall_text wall))]] @ hdrs_of pkt"
    by (simp add: with_headers_def hdrs_of_def del: dec_numeral)
  have n: "ndigits 0 = 1" by (simp add: ndigits.simps)
  have "length (pkt_payload ?p) = length (pkt_payload pkt)" by (simp add: with_headers_simps)
  moreover have "length (hdrs_of ?p) = 5 + length (hdrs_of pkt)" unfolding h by (simp del: dec_numeral)
  moreover have "length (hdr_content (hdrs_of ?p)) \<le> 250 + length (hdr_content (hdrs_of pkt))"
    using c [of wid] c [of "wall_text wall"] assms(1) length_wall_text [of wall]
    unfolding h by (simp add: n str_def A0_TIME_MONO_def A0_TIME_WALL_def hdr_content_append del: dec_numeral)
  ultimately have "length (flat ?p) \<le> 330 + length (flat pkt)"
    unfolding length_flat [OF i] length_flat [OF id] by (simp add: content_off_def)
  then show "packet_ok ?p" "184 + length (flat ?p) \<le> 1000" using i assms(3) by (simp_all add: packet_ok_def)
qed

text \<open>On the concrete arena all clocks read 0; the counter of the writer is at address 2000.\<close>

definition zero_time :: timespec where "zero_time = \<lparr>tv_sec = 0, tv_nsec = 0\<rparr>"
definition example_wid :: "u8 list" where "example_wid = fst (a0_uuidv4 7 \<lparr>a0_xsubi = 0, a0_xsubi_init = True\<rparr>)"

definition stamped :: "a0_packet \<Rightarrow> a0_packet" where
  "stamped pkt = with_headers zero_time zero_time 0 example_wid 0 pkt"

lemma arena_stampable: "stampable 1000 arena [] empty_log 2000 zero_time zero_time" "ld64 (mm arena) 2000 = 0"
proof -
  have "ld64 (mm arena) 2000 = ld64 (mm quiet_world) 2000" by (rule only_ld [OF arena_only(1)]) auto
  then show seq: "ld64 (mm arena) 2000 = 0" by (simp add: quiet_world_def mem_simps)
  have "four_digit_year 0" by (simp add: four_digit_year_def year_days_def)
  then show "stampable 1000 arena [] empty_log 2000 zero_time zero_time"
    using seq by (simp add: stampable_def arena_simps normal_ts_def NS_PER_SEC_def ns_u64_def apart_from_def zero_time_def)
qed

lemma stamped_eq: "stamped pkt = with_headers zero_time zero_time (ld64 (mm arena) 2000) example_wid (s_high empty_log) pkt"
  by (simp add: stamped_def arena_stampable(2))

lemma stamped_small:
  assumes "packet_ok pkt" "length (flat pkt) \<le> 300"
  shows "packet_ok (stamped pkt)" "184 + length (flat (stamped pkt)) \<le> 1000"
proof -
  have "length example_wid = 37"
    using uuid_text_form(1) [OF length_uuid_bytes] by (simp add: a0_uuidv4_def case_prod_beta example_wid_def)
  from with_headers_fits [OF this assms] show "packet_ok (stamped pkt)" "184 + length (flat (stamped pkt)) \<le> 1000"
    unfolding stamped_def by blast+
qed

lemma stamped_fits: "packet_ok (stamped example_packet)" "184 + length (flat (stamped example_packet)) \<le> 1000"
  using stamped_small [OF example_packet(1)] by (simp_all add: example_packet(4))

theorem writer_standard_headers_spec_witness:
  "\<exists>w'. a0_writer_write example_merge
       (a0_writer_push [Write_action conn] (fst (a0_add_standard_headers 2000 7 \<lparr>a0_xsubi = 0, a0_xsubi_init = True\<rparr> arena)))
       example_packet arena = Some (A0_OK, w') \<and>
     appends 1000 arena w' [] empty_log (flat (stamped example_packet))"
proof -
  let ?s = "\<lparr>a0_xsubi = 0, a0_xsubi_init = True\<rparr>"
  obtain std s' v' where std: "a0_add_standard_headers 2000 7 ?s arena = (std, s', v')" by (rule prod_cases3)
  have "stamped example_packet = with_headers zero_time zero_time (ld64 (mm arena) 2000) (fst (a0_uuidv4 7 ?s)) (s_high empty_log)
      example_packet"
    by (simp add: stamped_def arena_stampable(2) example_wid_def)
  from writer_standard_headers_spec [OF arena_idle conn_mode arena_stampable(1) std this stamped_fits, of example_merge]
  show ?thesis using stamped_fits(2) std by auto
qed

section \<open>Middleware of the configuration\<close>

lemma passes_unlocked:
  "run_mw merge None [Write_if_empty flag] pkt w = Some (Inr (pkt, w))" "run_mw merge None [Json_mergepatch] pkt w = Some (Inr (pkt, w))"
  by (simp_all add: process_mw_def process_def)

text \<open>\<^verbatim>\<open>a0_write_if_empty\<close> under the lock: it stores whether the transport is empty, and lets the packet pass if so.\<close>

definition set_flag :: "nat option \<Rightarrow> bool \<Rightarrow> world \<Rightarrow> world" where
  "set_flag flag b w = (case flag of None \<Rightarrow> w | Some a \<Rightarrow> wr 1 a (if b then 1 else 0) w)"

lemma run_write_if_empty:
  assumes s: "session A w ms st"
  shows "run_mw merge (Some t) [Write_if_empty flag] pkt w =
       (if frames st = [] then Some (Inr (pkt, set_flag flag True w))
        else Some (Inl (A0_OK, a0_transport_unlock t (set_flag flag False w))))"
proof -
  have "a0_transport_empty w = (frames st = [])" using working_fields(5) s by (auto simp: session_def)
  then show "run_mw merge (Some t) [Write_if_empty flag] pkt w =
       (if frames st = [] then Some (Inr (pkt, set_flag flag True w))
        else Some (Inl (A0_OK, a0_transport_unlock t (set_flag flag False w))))"
    by (simp add: process_mw_def process_locked_def a0_write_if_empty_process_locked_def Let_def set_flag_def)
qed

text \<open>\<^verbatim>\<open>a0_json_mergepatch\<close> under the lock: the newest packet's payload is patched.\<close>

lemma run_mergepatch:
  assumes s: "session A w ms st"
  shows "frames st = [] \<Longrightarrow> run_mw merge (Some t) [Json_mergepatch] pkt w = Some (Inr (pkt, w))"
    "newest (mm w) st old \<Longrightarrow> run_mw merge (Some t) [Json_mergepatch] pkt w =
       (case merge (pkt_payload old) (pkt_payload pkt) of
          Inl msg \<Rightarrow> Some (Inl (A0_ERR_CUSTOM_MSG msg, a0_transport_unlock t w))
        | Inr data \<Rightarrow> Some (Inr (pkt\<lparr>pkt_payload := data\<rparr>, w)))"
proof -
  have t: "tinv A w st st" using s by (simp add: session_def)
  have e: "a0_transport_empty w = (frames st = [])" by (rule working_fields(5) [OF t])
  show "run_mw merge (Some t) [Json_mergepatch] pkt w = Some (Inr (pkt, w))" if "frames st = []"
    using e that by (simp add: process_mw_def process_locked_def a0_json_mergepatch_process_locked_def)
  assume n: "newest (mm w) st old"
  obtain t' frame where j: "a0_transport_jump_tail t w = (A0_OK, t')" "a0_transport_frame t' w = Inr frame"
      "arena_mode t' = arena_mode t"
      "let p = a0_flat_packet_payload (frame + sizeof_frame_hdr, ld64 (mm w) (fr_size_at frame)) (mm w) in
       bytes (mm w) (fst p) (snd p) = pkt_payload old"
    using newest_payload [OF t n] by blast
  have "a0_transport_unlock t' w = a0_transport_unlock t w" using j(3) by (simp add: a0_transport_unlock_def)
  then show "run_mw merge (Some t) [Json_mergepatch] pkt w =
       (case merge (pkt_payload old) (pkt_payload pkt) of
          Inl msg \<Rightarrow> Some (Inl (A0_ERR_CUSTOM_MSG msg, a0_transport_unlock t w))
        | Inr data \<Rightarrow> Some (Inr (pkt\<lparr>pkt_payload := data\<rparr>, w)))"
    using e n j
    by (auto simp: process_mw_def process_locked_def a0_json_mergepatch_process_locked_def Let_def newest_def
        a0_json_mergepatch_process_locked_nonempty_def split: sum.splits)
qed

end
