(* ===== verification/Reader_Correct.thy ===== *)
theory Reader_Correct
  imports Reader Log_Stream Writer_Correct
begin

text \<open>
  The properties of \<^verbatim>\<open>src/reader.c\<close>: a reader delivers the frames of the log in order, each with the
  data it was published with, whatever the writers do between two reads.
\<close>

section \<open>Iterators over a stream\<close>

text \<open>The iterator \<open>t\<close> follows the stream: if its frame is still there, it stands on it.\<close>

definition iter_on :: "stream \<Rightarrow> a0_transport \<Rightarrow> bool" where
  "iter_on L t \<longleftrightarrow> (\<exists>d. stream.follows L (t_seq t) (t_off t, d))"

lemma iter_on_runs: "log_step\<^sup>*\<^sup>* L L' \<Longrightarrow> iter_on L t \<Longrightarrow> iter_on L' t"
  using stream.follows_runs by (fastforce simp: iter_on_def)

lemma iter_on_le: "iter_on (stream_of m st) t \<Longrightarrow> t_seq t \<le> s_high st"
  by (auto simp: iter_on_def stream.follows_def last_no_def stream_of_def)

lemma iter_on_frame:
  assumes ok: "log_ok A st" and i: "iter_on (stream_of m st) t" and ne: "frames st \<noteq> []" and n: "s_low st \<le> t_seq t"
  shows "at_frame t st (t_seq t - s_low st)"
proof -
  have low: "first_no (stream_of m st) = s_low st" and seq: "s_high st + 1 = s_low st + length (frames st)"
    using log_seq [OF ok ne] by (auto simp: first_no_def stream_of_def)
  then show ?thesis
    using i n by (auto simp: iter_on_def stream.follows_def frame_no_def Let_def at_frame_def last_no_def stream_of_def
        split: if_splits)
qed

lemma at_frame_iter_on:
  assumes ok: "log_ok A st" and a: "at_frame t st i"
  shows "iter_on (stream_of m st) t"
proof -
  have ne: "frames st \<noteq> []" using a by (auto simp: at_frame_def)
  have low: "first_no (stream_of m st) = s_low st" and seq: "s_high st + 1 = s_low st + length (frames st)"
    using log_seq [OF ok ne] by (auto simp: first_no_def stream_of_def)
  then have "stream.follows (stream_of m st) (t_seq t) (t_off t, contents m st ! i)"
    using a by (auto simp: stream.follows_def frame_no_def Let_def at_frame_def last_no_def stream_of_def)
  then show ?thesis by (auto simp: iter_on_def)
qed

text \<open>A write is a run of the stream.\<close>

lemma appends_runs:
  assumes a: "appends A w w' ms st bs" and ok: "log_ok A st"
  shows "\<exists>st'. idle A w' ms st' \<and> log_step\<^sup>*\<^sup>* (stream_of (mm w) st) (stream_of (mm w') st') \<and>
     frames st' \<noteq> [] \<and> last (contents (mm w') st') = bs \<and> s_high st' = s_high st + 1"
proof -
  obtain off k where k: "k \<le> length (frames st)" and i: "idle A w' ms (l_push off (length bs) (l_evict k st))"
    and c: "contents (mm w') (l_push off (length bs) (l_evict k st)) = drop k (contents (mm w) st) @ [bs]"
    using a unfolding appends_def Let_def by blast
  let ?mid = "(l_evict k st, drop k (contents (mm w) st))"
  have "log_step (stream_of (mm w) st) ?mid"
    using stream_numbered [OF ok, of "mm w"] k unfolding stream_of_def by (intro log_step.evict) (simp_all add: contents_def)
  moreover from log_step_numbered [OF this] have "log_step ?mid (stream_of (mm w') (l_push off (length bs) (l_evict k st)))"
    unfolding stream_of_def c by (intro log_step.publish)
  ultimately show ?thesis
    using i c by (intro exI [of _ "l_push off (length bs) (l_evict k st)"]) (auto simp: l_push_def)
qed

section \<open>Moving the iterator\<close>

lemma frame_packet_at:
  assumes t: "tinv A w stC st" and a: "at_frame t st i"
  shows "frame_packet t w = Some (fst (frames st ! i) + 40, snd (frames st ! i))"
    "bytes (mm w) (fst (frames st ! i) + 40) (snd (frames st ! i)) = contents (mm w) st ! i"
proof -
  note r = at_frame_reads [OF t a]
  have i: "i < length (frames st)" "t_off t = fst (frames st ! i)" using a by (simp_all add: at_frame_def)
  then show "frame_packet t w = Some (fst (frames st ! i) + 40, snd (frames st ! i))"
    using r by (simp add: frame_packet_def sizeof_frame_hdr_def)
  show "bytes (mm w) (fst (frames st ! i) + 40) (snd (frames st ! i)) = contents (mm w) st ! i"
    using i by (simp add: contents_def payload_def bytes_def f_end_def)
qed

text \<open>The number of the frame that a step of the iterator leads to.\<close>

definition next_no :: "a0_reader_iter \<Rightarrow> tlog \<Rightarrow> nat \<Rightarrow> nat" where
  "next_no iter st n = (case iter of A0_ITER_NEXT \<Rightarrow> max (n + 1) (s_low st) | A0_ITER_NEWEST \<Rightarrow> s_high st)"

lemma iter_step_at:
  assumes t: "tinv A w stC st" and i: "iter_on (stream_of m st) t" and ne: "frames st \<noteq> []" and n: "t_seq t < s_high st"
  shows "at_frame (iter_step iter t w) st (next_no iter st (t_seq t) - s_low st)"
    "s_low st \<le> next_no iter st (t_seq t)" "next_no iter st (t_seq t) \<le> s_high st"
proof -
  have ok: "log_ok A st" by (rule tinvD(3) [OF t])
  note seq = log_seq [OF ok ne] and wf = working_fields [OF t]
  show "s_low st \<le> next_no iter st (t_seq t)" "next_no iter st (t_seq t) \<le> s_high st"
    using seq n ne by (cases iter; cases "frames st"; simp add: next_no_def)+
  show "at_frame (iter_step iter t w) st (next_no iter st (t_seq t) - s_low st)"
  proof (cases iter)
    case A0_ITER_NEWEST
    have "s_high st - s_low st = length (frames st) - 1" using seq ne by (cases "frames st") auto
    then show ?thesis using jump_tail_correct [OF t ne, of t] A0_ITER_NEWEST by (auto simp: iter_step_def next_no_def)
  next
    case A0_ITER_NEXT
    show ?thesis
    proof (cases "s_low st \<le> t_seq t")
      case True
      have "at_frame t st (t_seq t - s_low st)" by (rule iter_on_frame [OF ok i ne True])
      moreover have "Suc (t_seq t - s_low st) < length (frames st)" using seq n True by arith
      ultimately show ?thesis
        using step_next_at [OF t] True A0_ITER_NEXT by (fastforce simp: iter_step_def next_no_def Suc_diff_le)
    next
      case False
      then have "a0_transport_step_next t w = (A0_OK, t\<lparr>t_seq := s_low st, t_off := fst (hd (frames st))\<rparr>)"
        using wf ne n by (simp add: a0_transport_step_next_def a0_transport_has_next_def)
      then show ?thesis using False A0_ITER_NEXT ne by (simp add: iter_step_def next_no_def at_frame_def hd_conv_nth max_def)
    qed
  qed
qed

section \<open>Reading\<close>

text \<open>A callback that looks at the bytes of the packet and changes its own state only.\<close>

definition looks :: "'s a0_zero_copy_callback \<Rightarrow> (u8 list \<Rightarrow> 's \<Rightarrow> 's) \<Rightarrow> bool" where
  "looks cb f \<longleftrightarrow> (\<forall>p s w. cb p s w = Some (f (bytes (mm w) (fst p) (snd p)) s, w))"

definition readable :: "a0_reader_sync_zc \<Rightarrow> tlog \<Rightarrow> bool" where
  "readable r st \<longleftrightarrow> frames st \<noteq> [] \<and> (steps_first r \<longrightarrow> t_seq (r_transport r) < s_high st)"

text \<open>The number of the frame that a read delivers.\<close>

definition read_no :: "a0_reader_sync_zc \<Rightarrow> tlog \<Rightarrow> nat" where
  "read_no r st = (let n = t_seq (r_transport r) in
     if \<not> steps_first r \<and> s_low st \<le> n then n else next_no (opt_iter (r_opts r)) st n)"

lemma iter_step_mode: "arena_mode (iter_step iter t w) = arena_mode t"
  by (cases iter) (auto simp: iter_step_def a0_transport_step_next_def a0_transport_jump_tail_def Let_def)

text \<open>The position of the iterator when the frame is read.\<close>

definition aligned :: "a0_reader_sync_zc \<Rightarrow> world \<Rightarrow> a0_transport" where
  "aligned r w = (let t = r_transport r in
     if steps_first r \<or> \<not> a0_transport_iter_valid t w then iter_step (opt_iter (r_opts r)) t w else t)"

lemma aligned_at:
  assumes t: "tinv A w stC st" and i: "iter_on (stream_of m st) (r_transport r)" and rd: "readable r st"
  shows "at_frame (aligned r w) st (read_no r st - s_low st)" "s_low st \<le> read_no r st" "read_no r st \<le> s_high st"
    "t_seq (aligned r w) = read_no r st" "arena_mode (aligned r w) = arena_mode (r_transport r)"
proof -
  have ok: "log_ok A st" by (rule tinvD(3) [OF t])
  have ne: "frames st \<noteq> []" using rd by (simp add: readable_def)
  note seq = log_seq [OF ok ne]
  have lh: "s_low st \<le> s_high st" using seq ne by (cases "frames st") auto
  let ?n = "t_seq (r_transport r)"
  have le: "?n \<le> s_high st" by (rule iter_on_le [OF i])
  have v: "a0_transport_iter_valid (r_transport r) w \<longleftrightarrow> s_low st \<le> ?n"
    using working_fields(1,2) [OF t] le by (simp add: a0_transport_iter_valid_def)
  have "at_frame (aligned r w) st (read_no r st - s_low st) \<and> s_low st \<le> read_no r st \<and> read_no r st \<le> s_high st"
  proof (cases "\<not> steps_first r \<and> s_low st \<le> ?n")
    case True
    then show ?thesis using iter_on_frame [OF ok i ne] le v by (simp add: aligned_def read_no_def Let_def)
  next
    case False
    then have "?n < s_high st" using rd lh by (auto simp: readable_def)
    from iter_step_at [OF t i ne this, of "opt_iter (r_opts r)"] False v
    show ?thesis by (auto simp: aligned_def read_no_def Let_def)
  qed
  then show "at_frame (aligned r w) st (read_no r st - s_low st)" "s_low st \<le> read_no r st" "read_no r st \<le> s_high st"
    "t_seq (aligned r w) = read_no r st"
    by (auto simp: at_frame_def)
  show "arena_mode (aligned r w) = arena_mode (r_transport r)" by (simp add: aligned_def Let_def iter_step_mode)
qed

lemma read_align:
  assumes t: "tinv A w stC st"
  shows "a0_reader_sync_zc_read_align r w =
     (if readable r st then Some (A0_OK, r\<lparr>r_transport := aligned r w\<rparr>, w) else Some (A0_ERR_AGAIN, r, w))"
  using working_fields [OF t]
  by (simp add: a0_reader_sync_zc_read_align_def readable_def aligned_def a0_transport_has_next_def Let_def)

text \<open>A read whose alignment succeeded under the lock.\<close>

lemma helper_reads:
  assumes i: "idle A w ms st" and mode: "arena_mode (r_transport r) = A0_ARENA_MODE_SHARED"
    and it: "iter_on (stream_of (mm w) st) (r_transport r)" and cb: "looks cb f" and rd: "readable r st"
    and al: "align_read r (a0_transport_lock (r_transport r) w) =
      Some (A0_OK, r\<lparr>r_transport := aligned r (a0_transport_lock (r_transport r) w)\<rparr>, a0_transport_lock (r_transport r) w)"
  shows "\<exists>r' w'. a0_reader_sync_zc_read_helper cb align_read r s w =
      Some (A0_OK, f (contents (mm w) st ! (read_no r st - s_low st)) s, r', w') \<and>
    idle A w' ms st \<and> contents (mm w') st = contents (mm w) st \<and> t_seq (r_transport r') = read_no r st \<and>
    first_read_done r' \<and> r_opts r' = r_opts r \<and> arena_mode (r_transport r') = A0_ARENA_MODE_SHARED \<and>
    iter_on (stream_of (mm w') st) (r_transport r')"
proof -
  let ?w = "a0_transport_lock (r_transport r) w"
  note l = lock_session [OF i mode]
  have t: "tinv A ?w st st" "holds A ?w ms" "no_waiters ?w" "has_header (mm ?w)"
    using l(1) by (simp_all add: session_def)
  let ?r = "r\<lparr>r_transport := aligned r ?w, first_read_done := True\<rparr>"
  note a = aligned_at [OF t(1) it rd]
  note u = unlock_session [OF t, of "aligned r ?w"]
  note fp = frame_packet_at [OF t(1) a(1)]
  have "a0_reader_sync_zc_read_helper cb align_read r s w =
      Some (A0_OK, f (contents (mm w) st ! (read_no r st - s_low st)) s, ?r, a0_transport_unlock (aligned r ?w) ?w)"
    using fp cb l(2) by (simp add: a0_reader_sync_zc_read_helper_def al looks_def)
  then show ?thesis
    using u a(4,5) mode l(2) at_frame_iter_on [OF tinvD(3) [OF t(1)] a(1)] by auto
qed

lemma sync_read:
  assumes "idle A w ms st" "arena_mode (r_transport r) = A0_ARENA_MODE_SHARED"
    and it: "iter_on (stream_of (mm w) st) (r_transport r)" and "looks cb f"
  shows "fst (a0_reader_sync_zc_can_read r w) = readable r st \<and>
     (\<exists>r' w'. a0_reader_sync_zc_read cb r s w =
         (if readable r st then Some (A0_OK, f (contents (mm w) st ! (read_no r st - s_low st)) s, r', w')
          else Some (A0_ERR_AGAIN, s, r', w')) \<and>
       (if readable r st then first_read_done r' \<and> t_seq (r_transport r') = read_no r st \<and> r_opts r' = r_opts r \<and>
            s_low st \<le> read_no r st \<and> read_no r st \<le> s_high st
        else r' = r) \<and>
       idle A w' ms st \<and> contents (mm w') st = contents (mm w) st \<and>
       arena_mode (r_transport r') = A0_ARENA_MODE_SHARED \<and> iter_on (stream_of (mm w') st) (r_transport r'))"
proof -
  let ?w = "a0_transport_lock (r_transport r) w"
  note l = lock_session [OF assms(1,2)]
  have t: "tinv A ?w st st" "holds A ?w ms" "no_waiters ?w" "has_header (mm ?w)"
    using l(1) by (simp_all add: session_def)
  note u = unlock_session [OF t assms(2)]
  have can: "fst (a0_reader_sync_zc_can_read r w) = readable r st"
    using working_fields [OF t(1)]
    by (simp add: a0_reader_sync_zc_can_read_def readable_def a0_transport_has_next_def a0_transport_nonempty_def Let_def)
  show ?thesis
  proof (cases "readable r st")
    case True
    then have "a0_reader_sync_zc_read_align r ?w = Some (A0_OK, r\<lparr>r_transport := aligned r ?w\<rparr>, ?w)"
      using read_align [OF t(1)] by simp
    from helper_reads [OF assms(1,2) it assms(4) True, of a0_reader_sync_zc_read_align s, OF this] aligned_at(2,3) [OF t(1) it True] can True
    show ?thesis unfolding a0_reader_sync_zc_read_def by auto
  next
    case False
    then have "a0_reader_sync_zc_read cb r s w = Some (A0_ERR_AGAIN, s, r, a0_transport_unlock (r_transport r) ?w)"
      using read_align [OF t(1)] by (simp add: a0_reader_sync_zc_read_def a0_reader_sync_zc_read_helper_def)
    then show ?thesis using False can u(1,2) l(2) it assms(2) by (auto simp: stream_of_def)
  qed
qed

text \<open>
  C4. A synchronous read delivers the frame that is next in line, with the data it was published with: the
  one the iterator was initialised to on the first read, afterwards the next one, or the newest,
  or the oldest one left if the next is gone. If there is none, it reports \<^verbatim>\<open>A0_ERR_AGAIN\<close>, and
  the reader stays where it is; \<^verbatim>\<open>a0_reader_sync_zc_can_read\<close> tells which. The log stays as it is, and
  the iterator stays on it through whatever runs of writes follow (\<open>log_step\<close>).
\<close>

theorem reader_sync_read_spec:
  assumes "idle A w ms st" "arena_mode (r_transport r) = A0_ARENA_MODE_SHARED"
    and "log_step\<^sup>*\<^sup>* L (stream_of (mm w) st)" "iter_on L (r_transport r)" "looks cb f"
  shows "fst (a0_reader_sync_zc_can_read r w) = readable r st \<and>
     (\<exists>r' w'. a0_reader_sync_zc_read cb r s w =
         (if readable r st then Some (A0_OK, f (contents (mm w) st ! (read_no r st - s_low st)) s, r', w')
          else Some (A0_ERR_AGAIN, s, r', w')) \<and>
       (if readable r st then first_read_done r' \<and> t_seq (r_transport r') = read_no r st \<and> r_opts r' = r_opts r \<and>
            s_low st \<le> read_no r st \<and> read_no r st \<le> s_high st
        else r' = r) \<and>
       idle A w' ms st \<and> contents (mm w') st = contents (mm w) st \<and>
       arena_mode (r_transport r') = A0_ARENA_MODE_SHARED \<and> iter_on (stream_of (mm w') st) (r_transport r'))"
  by (rule sync_read [OF assms(1,2) iter_on_runs [OF assms(3,4)] assms(5)])

text \<open>A connection to a concrete arena with one frame, of the bytes 1, 2, 3.\<close>

definition example_reader :: "a0_reader_init \<Rightarrow> a0_reader_sync_zc" where
  "example_reader init = \<lparr>r_transport = conn, r_opts = \<lparr>opt_init = init, opt_iter = A0_ITER_NEXT\<rparr>, first_read_done = False\<rparr>"

definition collect :: "u8 list list a0_zero_copy_callback" where
  "collect p s w = Some (bytes (mm w) (fst p) (snd p) # s, w)"

lemma collect: "looks collect Cons"
  by (simp add: looks_def collect_def)

lemma conn_follows: "iter_on (stream_of (mm arena) empty_log) conn"
proof -
  have "stream.follows (stream_of (mm arena) empty_log) (t_seq conn) (t_off conn, [])"
    by (simp add: stream.follows_def first_no_def last_no_def stream_of_def conn_def)
  then show ?thesis by (auto simp: iter_on_def)
qed

text \<open>The concrete arena after the write of the example packet.\<close>

lemma example_written:
  "\<exists>w st. idle 1000 w [] st \<and> log_step\<^sup>*\<^sup>* (stream_of (mm arena) empty_log) (stream_of (mm w) st) \<and>
     frames st \<noteq> [] \<and> last (contents (mm w) st) = flat example_packet \<and> s_high st = 1 \<and>
     kernel w = kernel quiet_world"
proof -
  obtain w where "appends 1000 (a0_transport_lock conn arena) w [] empty_log (flat example_packet)"
    using write_locked [OF lock_session(1) [OF arena_idle conn_mode] conn_mode example_packet(1)]
    by (auto simp: example_packet(4))
  from appends_after [OF lock_session(3,2) [OF arena_idle conn_mode] this]
  have "appends 1000 arena w [] empty_log (flat example_packet)" .
  moreover have "kernel arena = kernel quiet_world"
    using init_hdr_correct(3) [OF quiet_fresh quiet_world(2), of 1000] by (simp add: arena_def touches_def grew_def)
  moreover have "kernel w = kernel arena" if "appends 1000 arena w [] empty_log (flat example_packet)" for w
    using that by (auto simp: appends_def grew_def Let_def)
  ultimately show ?thesis using appends_runs [OF _ tinvD(3) [OF arena]] by force
qed

lemma single_frame:
  assumes i: "idle A w ms st" and ne: "frames st \<noteq> []" and h: "s_high st = 1"
  shows "s_low st = 1" "contents m st = [last (contents m st)]"
proof -
  have "log_ok A st" using i by (simp add: idle_def committed_def)
  from log_seq [OF this ne] have seq: "s_low st \<noteq> 0" "s_high st + 1 = s_low st + length (frames st)" by simp_all
  moreover have "length (frames st) \<noteq> 0" using ne by simp
  ultimately show low: "s_low st = 1" using h by arith
  with seq(2) h have "length (contents m st) = 1" by (simp add: contents_def)
  then obtain c where "contents m st = [c]" by (auto simp: length_Suc_conv)
  then show "contents m st = [last (contents m st)]" by simp
qed

theorem reader_sync_read_spec_witness:
  "\<exists>w r' w'. a0_reader_sync_zc_read collect (example_reader A0_INIT_OLDEST) [] w = Some (A0_OK, [flat example_packet], r', w') \<and>
     t_seq (r_transport r') = 1"
proof -
  obtain w st where w: "idle 1000 w [] st" "log_step\<^sup>*\<^sup>* (stream_of (mm arena) empty_log) (stream_of (mm w) st)"
      "frames st \<noteq> []" "last (contents (mm w) st) = flat example_packet" "s_high st = 1"
    using example_written by blast
  let ?r = "example_reader A0_INIT_OLDEST"
  note one = single_frame [OF w(1,3,5)]
  have c: "contents (mm w) st = [flat example_packet]" using one(2) [of "mm w"] w(4) by simp
  have r: "readable ?r st" "read_no ?r st = 1" "arena_mode (r_transport ?r) = A0_ARENA_MODE_SHARED"
    using w(3) one(1) by (simp_all add: readable_def read_no_def steps_first_def example_reader_def next_no_def conn_def)
  have f: "iter_on (stream_of (mm arena) empty_log) (r_transport ?r)" using conn_follows by (simp add: example_reader_def)
  from reader_sync_read_spec [OF w(1) r(3) w(2) f collect, of "[]"] obtain r' w' where
    "a0_reader_sync_zc_read collect ?r [] w = Some (A0_OK, [contents (mm w) st ! (1 - s_low st)], r', w')"
    "t_seq (r_transport r') = 1"
    unfolding r if_True using r by auto
  then show ?thesis using one(1) c by auto
qed

section \<open>Waiting readers\<close>

lemma wait_ready:
  assumes "arena_mode t = A0_ARENA_MODE_SHARED" "\<not> shutdown t" "pred t w = Inr True"
  shows "a0_transport_wait others pred t w = Some (A0_OK, t, w)"
  using assms by (simp add: a0_transport_wait_def a0_transport_timedwait_def check_pred_def
      a0_transport_timedwait_istimeout_def)

lemma wait_shutdown: "shutdown t \<Longrightarrow> a0_transport_wait others pred t w = Some (A0_MAKE_SYSERR ESHUTDOWN, t, w)"
  by (simp add: a0_transport_wait_def a0_transport_timedwait_def)

lemma ready_preds:
  assumes "tinv A w stC st"
  shows "a0_transport_nonempty_pred t w = Inr (frames st \<noteq> [])"
    "a0_transport_has_next_pred t w = Inr (frames st \<noteq> [] \<and> t_seq t < s_high st)"
  using working_fields [OF assms]
  by (simp_all add: a0_transport_nonempty_pred_def a0_transport_has_next_pred_def a0_transport_nonempty_def
      a0_transport_has_next_def)

text \<open>
  A blocking read does not block when there is a frame to read: it is the read. On a connection that
  was shut down it reports ESHUTDOWN at once, reads nothing, and leaves the transport unlocked.
\<close>

theorem reader_blocking_spec:
  assumes "idle A w ms st" "arena_mode (r_transport r) = A0_ARENA_MODE_SHARED"
    and "iter_on (stream_of (mm w) st) (r_transport r)" "readable r st \<or> shutdown (r_transport r)"
  shows "if shutdown (r_transport r) then
       \<exists>w'. a0_reader_sync_zc_read_blocking others cb r s w = Some (A0_MAKE_SYSERR ESHUTDOWN, s, r, w') \<and> idle A w' ms st
     else a0_reader_sync_zc_read_blocking others cb r s w = a0_reader_sync_zc_read cb r s w \<and>
       a0_reader_sync_zc_read_blocking_timeout others None cb r s w = a0_reader_sync_zc_read cb r s w"
proof -
  let ?t = "r_transport r"
  let ?w = "a0_transport_lock ?t w"
  note l = lock_session [OF assms(1,2)]
  have t: "tinv A ?w st st" "holds A ?w ms" "no_waiters ?w" "has_header (mm ?w)"
    using l(1) by (simp_all add: session_def)
  note u = unlock_session [OF t assms(2)]
  show ?thesis
  proof (cases "shutdown ?t")
    case True
    then show ?thesis
      using u(1) wait_shutdown [OF True, of others]
      by (auto simp: a0_reader_sync_zc_read_blocking_def a0_reader_sync_zc_read_helper_def
          a0_reader_sync_zc_read_blocking_align_def A0_MAKE_SYSERR_def)
  next
    case False
    then have rd: "readable r st" using assms(4) by simp
    then have ne: "frames st \<noteq> []" by (simp add: readable_def)
    have lh: "s_low st \<le> s_high st" using log_seq [OF tinvD(3) [OF t(1)] ne] ne by (cases "frames st") auto
    note wf = working_fields(1,2) [OF t(1)] and le = iter_on_le [OF assms(3)]
    have w1: "a0_transport_wait others a0_transport_nonempty_pred ?t ?w = Some (A0_OK, ?t, ?w)"
      using wait_ready [OF assms(2) False] ready_preds(1) [OF t(1)] ne by simp
    have w2: "a0_transport_wait others a0_transport_has_next_pred ?t ?w = Some (A0_OK, ?t, ?w)"
      if "steps_first r \<or> \<not> a0_transport_iter_valid ?t ?w"
      using wait_ready [OF assms(2) False] ready_preds(2) [OF t(1)] ne that rd le lh wf
      by (auto simp: readable_def a0_transport_iter_valid_def)
    have "a0_reader_sync_zc_read_blocking_align others r ?w = a0_reader_sync_zc_read_align r ?w"
      "a0_reader_sync_zc_read_blocking_timeout_align others None r ?w = a0_reader_sync_zc_read_align r ?w"
      using w1 w2 rd unfolding read_align [OF t(1)]
      by (auto simp: a0_reader_sync_zc_read_blocking_align_def a0_reader_sync_zc_read_blocking_timeout_align_def
          a0_transport_wait_def aligned_def Let_def)
    then show ?thesis
      using False by (simp add: a0_reader_sync_zc_read_blocking_def a0_reader_sync_zc_read_def
          a0_reader_sync_zc_read_helper_def a0_reader_sync_zc_read_blocking_timeout_def)
  qed
qed

theorem reader_blocking_spec_witness:
  "\<exists>w. a0_reader_sync_zc_read_blocking (\<lambda>_ t. t) collect (example_reader A0_INIT_OLDEST) [] w =
     a0_reader_sync_zc_read collect (example_reader A0_INIT_OLDEST) [] w"
proof -
  obtain w st where w: "idle 1000 w [] st" "log_step\<^sup>*\<^sup>* (stream_of (mm arena) empty_log) (stream_of (mm w) st)"
      "frames st \<noteq> []"
    using example_written by blast
  let ?r = "example_reader A0_INIT_OLDEST"
  have "iter_on (stream_of (mm w) st) (r_transport ?r)"
    using iter_on_runs [OF w(2) conn_follows] by (simp add: example_reader_def)
  moreover have "readable ?r st" using w(3) by (simp add: readable_def steps_first_def example_reader_def)
  moreover have "\<not> shutdown (r_transport ?r)" by (simp add: example_reader_def conn_def)
  ultimately have "a0_reader_sync_zc_read_blocking (\<lambda>_ t. t) collect ?r [] w = a0_reader_sync_zc_read collect ?r [] w"
    using reader_blocking_spec [OF w(1), of ?r "\<lambda>_ t. t" collect "[]"] by (simp add: example_reader_def)
  then show ?thesis by blast
qed

end
