(* ===== verification/Transport_Wait.thy ===== *)
theory Transport_Wait
  imports Transport
begin

text \<open>
  Waiting on a transport without a timeout: the sleeps of \<^verbatim>\<open>a0_transport_wait\<close>, one by one, and the
  shutdown of the transport while a thread sleeps in it.
\<close>

section \<open>A sleep\<close>

text \<open>What \<^verbatim>\<open>futex(2)\<close> documents of the calls that take no timeout: they do not time out.\<close>

definition patient :: "world \<Rightarrow> bool" where
  "patient w \<longleftrightarrow> (\<forall>t cnd val ftx m.
     fst (kernel w t (FUTEX_WAIT_REQUEUE_PI cnd val None ftx) m) \<noteq> Some ETIMEDOUT \<and>
     fst (kernel w t (FUTEX_LOCK_PI ftx None) m) \<noteq> Some ETIMEDOUT)"

lemma futex_kernel [simp]: "kernel (snd (a0_futex op w)) = kernel w"
  by (simp add: a0_futex_def Let_def split: prod.split)

lemma robust_kernel [simp]:
  "kernel (a0_robust_op_start mtx w) = kernel w" "kernel (a0_robust_op_end mtx w) = kernel w"
  "kernel (a0_robust_op_add mtx w) = kernel w" "kernel (a0_robust_op_del mtx w) = kernel w"
  by (simp_all add: a0_robust_op_start_def a0_robust_init_thread_def a0_robust_init_head_def a0_robust_op_end_def
      a0_robust_op_add_def a0_robust_op_del_def Let_def)

lemma cas_kernel [simp]: "kernel (snd (a0_cas_val p old new w)) = kernel w"
  by (simp add: a0_cas_val_def wr32_def Let_def)

lemma timedlock_kernel [simp]: "kernel (snd (a0_mtx_timedlock_robust mtx None w)) = kernel w"
  using cas_kernel [of "ftx_of mtx" 0 "gettid w" w]
  by (auto simp: a0_mtx_timedlock_robust_def a0_ftx_lock_pi_def simp del: cas_kernel split: prod.splits)
    (metis futex_kernel snd_conv)+

lemma unlock_kernel [simp]: "kernel (snd (a0_mtx_unlock mtx w)) = kernel w"
  by (auto simp: a0_mtx_unlock_def Let_def a0_ftx_unlock_pi_def wr32_def case_prod_beta)

lemma sleep_kernel [simp]: "kernel (snd (a0_cnd_timedwait cnd mtx None w)) = kernel w"
  by (simp add: a0_cnd_timedwait_def Let_def a0_ftx_wait_requeue_pi_def case_prod_beta)

lemma patient_kernel: "kernel w' = kernel w \<Longrightarrow> patient w \<Longrightarrow> patient w'"
  by (simp add: patient_def)

lemma futex_timely:
  "fst (kernel w (now w) op (mm w)) \<noteq> Some ETIMEDOUT \<Longrightarrow> A0_SYSERR (fst (a0_futex op w)) \<noteq> Some ETIMEDOUT"
  by (auto simp: a0_futex_def Let_def case_prod_beta A0_MAKE_SYSERR_def split: option.split)

lemma timedlock_patient:
  assumes "patient w"
  shows "A0_SYSERR (fst (a0_mtx_timedlock_robust mtx None w)) \<noteq> Some ETIMEDOUT"
proof -
  obtain old w1 where c: "a0_cas_val (ftx_of mtx) 0 (gettid w) w = (old, w1)" by fastforce
  have k: "patient w1" using patient_kernel [OF _ assms] cas_kernel c by (metis snd_conv)
  obtain r m where f: "kernel w1 (now w1) (FUTEX_LOCK_PI (ftx_of mtx) None) (mm w1) = (r, m)" by fastforce
  then have "r \<noteq> Some ETIMEDOUT" using k unfolding patient_def by (metis fst_conv)
  then show ?thesis
    using c f by (auto simp: a0_mtx_timedlock_robust_def a0_ftx_lock_pi_def a0_futex_def owner_check_def
        Let_def A0_MAKE_SYSERR_def split: option.split)
qed

lemma sleep_patient:
  assumes "patient w"
  shows "A0_SYSERR (fst (a0_cnd_timedwait cnd mtx None w)) \<noteq> Some ETIMEDOUT"
proof -
  obtain e w1 where u: "a0_mtx_unlock mtx w = (e, w1)" by fastforce
  have e: "A0_SYSERR e \<noteq> Some ETIMEDOUT"
    using u by (auto simp: a0_mtx_unlock_def Let_def A0_MAKE_SYSERR_def case_prod_beta split: if_splits)
  let ?w2 = "a0_robust_op_start mtx w1"
  have k2: "patient ?w2" using patient_kernel [OF _ assms] unlock_kernel [of mtx w] u by simp
  obtain e3 w3 where f: "a0_ftx_wait_requeue_pi cnd (ld 4 (mm w) cnd) None (ftx_of mtx) ?w2 = (e3, w3)" by fastforce
  have "fst (kernel ?w2 (now ?w2) (FUTEX_WAIT_REQUEUE_PI cnd (ld 4 (mm w) cnd) None (ftx_of mtx)) (mm ?w2)) \<noteq> Some ETIMEDOUT"
    using k2 unfolding patient_def by blast
  from futex_timely [OF this] have e3: "A0_SYSERR e3 \<noteq> Some ETIMEDOUT"
    unfolding f [unfolded a0_ftx_wait_requeue_pi_def option.case] fst_conv .
  have "kernel w3 = kernel ?w2" 
    using futex_kernel [of "FUTEX_WAIT_REQUEUE_PI cnd (ld 4 (mm w) cnd) None (ftx_of mtx)" ?w2]
    unfolding f [unfolded a0_ftx_wait_requeue_pi_def option.case] snd_conv .
  then have "patient w3" using patient_kernel k2 by blast
  note lock = timedlock_patient [OF this, of mtx]
  have own: "A0_SYSERR (owner_check mtx v) \<noteq> Some ETIMEDOUT" for v
    by (simp add: owner_check_def A0_MAKE_SYSERR_def)
  show ?thesis
  proof (cases "e = A0_OK")
    case False
    then show ?thesis using u e by (simp add: a0_cnd_timedwait_def)
  next
    case True
    define p4 where "p4 = (if A0_SYSERR e3 = Some EAGAIN then a0_mtx_timedlock_robust mtx None w3 else (e3, w3))"
    have "fst (a0_cnd_timedwait cnd mtx None w) =
        (if fst p4 = A0_OK then owner_check mtx (a0_robust_op_add mtx (snd p4)) else fst p4)"
      unfolding a0_cnd_timedwait_def Let_def u option.case if_False prod.case f p4_def [symmetric] if_not_P [OF e3]
      using True by (simp add: case_prod_beta)
    moreover have "A0_SYSERR (fst p4) \<noteq> Some ETIMEDOUT" using e3 lock by (simp add: p4_def)
    ultimately show ?thesis using own by simp
  qed
qed

section \<open>Sleeps in a row\<close>

text \<open>
  The connection and the world after \<open>k\<close> sleeps in the waiting loop. \<open>others\<close> is what the other
  threads of the process do to the connection meanwhile.
\<close>

primrec slept :: "(nat \<Rightarrow> a0_transport \<Rightarrow> a0_transport) \<Rightarrow> nat \<Rightarrow> a0_transport \<Rightarrow> world \<Rightarrow> a0_transport \<times> world" where
  "slept others 0 t w = (t, w)"
| "slept others (Suc k) t w =
     (let w = snd (a0_cnd_timedwait hdr_cnd hdr_mtx None w) in slept others k (others (now w) t) w)"

definition counted_in :: "a0_transport \<Rightarrow> a0_transport" where
  "counted_in t = t\<lparr>wait_cnt := (wait_cnt t + 1) mod 2 ^ 32\<rparr>"

text \<open>
  The shutdown comes in the sleep after \<open>k\<close> sleeps from which the thread awoke for nothing. It may
  find its predicate satisfied then, or not.
\<close>

definition shut_down_asleep ::
    "(nat \<Rightarrow> a0_transport \<Rightarrow> a0_transport) \<Rightarrow> a0_predicate \<Rightarrow> nat \<Rightarrow> a0_transport \<Rightarrow> world \<Rightarrow> bool" where
  "shut_down_asleep others pred k t w \<longleftrightarrow>
     (\<forall>j \<in> {1..k}. case slept others j t w of (t', w') \<Rightarrow> \<not> shutdown t' \<and> pred t' w' = Inr False) \<and>
     shutdown (fst (slept others (Suc k) t w))"

lemma slept_kernel: "kernel (snd (slept others k t w)) = kernel w"
  by (induction k arbitrary: t w) (simp_all add: Let_def)

lemma wait_loop_shut_down:
  assumes "patient w" "\<not> shutdown t" "shut_down_asleep others pred k t w"
    and "\<And>t w. \<exists>b. pred t w = Inr b"
  shows "a0_transport_wait_loop others pred None err False t w =
    Some (A0_OK, fst (slept others (Suc k) t w), snd (slept others (Suc k) t w))"
  using assms(1-3)
proof (induction k arbitrary: t w err)
  case 0
  obtain e w1 where s: "a0_cnd_timedwait hdr_cnd hdr_mtx None w = (e, w1)" by fastforce
  have e: "A0_SYSERR e \<noteq> Some ETIMEDOUT" using sleep_patient [OF 0(1)] s by (metis fst_conv)
  let ?t = "others (now w1) t"
  have sh: "shutdown ?t" using 0(3) s by (simp add: shut_down_asleep_def)
  obtain b where b: "pred ?t w1 = Inr b" using assms(4) by blast
  show ?case
  proof (cases b)
    case True
    then show ?thesis
      using 0(2) s e b by (subst a0_transport_wait_loop.simps)
        (simp add: check_pred_def a0_transport_timedwait_istimeout_def)
  next
    case False
    have "a0_transport_wait_loop others pred None A0_OK False ?t w1 = Some (A0_OK, ?t, w1)"
      using sh by (subst a0_transport_wait_loop.simps) simp
    then show ?thesis
      using 0(2) s e b False by (subst a0_transport_wait_loop.simps)
        (simp add: check_pred_def a0_transport_timedwait_istimeout_def)
  qed
next
  case (Suc k)
  obtain e w1 where s: "a0_cnd_timedwait hdr_cnd hdr_mtx None w = (e, w1)" by fastforce
  have e: "A0_SYSERR e \<noteq> Some ETIMEDOUT" using sleep_patient [OF Suc.prems(1)] s by (metis fst_conv)
  let ?t = "others (now w1) t"
  have step: "slept others (Suc j) t w = slept others j ?t w1" for j using s by (simp add: Let_def)
  have all: "case slept others j t w of (t', w') \<Rightarrow> \<not> shutdown t' \<and> pred t' w' = Inr False" if "1 \<le> j" "j \<le> Suc k" for j
    using Suc.prems(3) that unfolding shut_down_asleep_def by auto
  have quiet: "\<not> shutdown ?t" "pred ?t w1 = Inr False" using all [of 1] step [of 0] by simp_all
  have "case slept others j ?t w1 of (t', w') \<Rightarrow> \<not> shutdown t' \<and> pred t' w' = Inr False" if "j \<in> {1..k}" for j
    using all [of "Suc j"] that unfolding step by simp
  moreover have "shutdown (fst (slept others (Suc k) ?t w1))"
    using Suc.prems(3) unfolding shut_down_asleep_def step by simp
  ultimately have "shut_down_asleep others pred k ?t w1" unfolding shut_down_asleep_def by (intro conjI ballI)
  moreover have "patient w1" using patient_kernel [OF _ Suc.prems(1)] sleep_kernel s by (metis snd_conv)
  ultimately have "a0_transport_wait_loop others pred None A0_OK False ?t w1 =
      Some (A0_OK, fst (slept others (Suc (Suc k)) t w), snd (slept others (Suc (Suc k)) t w))"
    using Suc.IH quiet(1) unfolding step by blast
  moreover have "a0_transport_wait_loop others pred None err False t w =
      a0_transport_wait_loop others pred None A0_OK False ?t w1"
    using Suc.prems(2) e quiet(2) by (subst a0_transport_wait_loop.simps)
      (simp add: s check_pred_def a0_transport_timedwait_istimeout_def)
  ultimately show ?case by (simp only:)
qed

text \<open>The wait then reports ESHUTDOWN, whatever there is to read by now.\<close>

lemma wait_shut_down:
  assumes "arena_mode t = A0_ARENA_MODE_SHARED" "\<not> shutdown t" "pred t w = Inr False" "\<And>t w. \<exists>b. pred t w = Inr b"
    and "patient w" "requeue_ok w" "shut_down_asleep others pred k (counted_in t) w"
  shows "\<exists>t' w'. a0_transport_wait others pred t w = Some (A0_MAKE_SYSERR ESHUTDOWN, t', w') \<and> shutdown t'"
proof -
  obtain t1 w1 where s: "slept others (Suc k) (counted_in t) w = (t1, w1)" by fastforce
  have "\<not> shutdown (counted_in t)" using assms(2) by (simp add: counted_in_def)
  from wait_loop_shut_down [OF assms(5) this assms(7,4), of A0_OK] s
  have loop: "a0_transport_wait_loop others pred None A0_OK False (counted_in t) w = Some (A0_OK, t1, w1)" by simp
  have sh: "shutdown t1" using assms(7) s by (simp add: shut_down_asleep_def)
  have "requeue_ok w1" using requeue_ok_kernel [OF _ assms(6)] slept_kernel s by (metis snd_conv)
  then obtain e w2 where "a0_cnd_broadcast hdr_cnd hdr_mtx w1 = Some (e, w2)"
    using cnd_wake_effect [of w1 "\<lambda>_. True" hdr_cnd hdr_mtx INT_MAX] by (auto simp: a0_cnd_broadcast_def)
  then show ?thesis
    using assms(1-3) loop sh
    by (simp add: a0_transport_wait_def a0_transport_timedwait_def check_pred_def
        a0_transport_timedwait_istimeout_def counted_in_def)
qed

end
