(* ===== verification/Reader_Thread.thy ===== *)
theory Reader_Thread
  imports Reader_Correct Transport_Wait
begin

text \<open>
  The threaded reader of \<^verbatim>\<open>src/reader.c\<close>, the initialisation of readers and random access: what the
  thread delivers when there is something to deliver, that it stops when it is told to, where
  a new reader starts, and which offsets can be read at random.
\<close>

section \<open>The thread\<close>

text \<open>The numbers of the frames that a thread standing at \<open>n\<close> has yet to deliver, in order.\<close>

function backlog :: "a0_reader_iter \<Rightarrow> tlog \<Rightarrow> nat \<Rightarrow> nat list" where
  "backlog iter st n =
     (if n < s_high st \<and> s_low st \<le> s_high st then next_no iter st n # backlog iter st (next_no iter st n) else [])"
  by pat_completeness auto
termination
  by (relation "measure (\<lambda>(iter, st, n). s_high st - n)") (auto simp: next_no_def split: a0_reader_iter.splits)

declare backlog.simps [simp del]

lemma backlog_next: "s_low st \<le> Suc n \<Longrightarrow> backlog A0_ITER_NEXT st n = [Suc n..<Suc (s_high st)]"
proof (induction "s_high st - n" arbitrary: n)
  case 0
  then show ?case by (subst backlog.simps) simp
next
  case (Suc k)
  then have "n < s_high st" by arith
  with Suc show ?case by (subst backlog.simps) (simp add: next_no_def upt_conv_Cons del: upt_Suc)
qed

lemma backlog_all: "s_low st \<noteq> 0 \<Longrightarrow> s_low st \<le> s_high st \<Longrightarrow> n < s_low st \<Longrightarrow>
    backlog A0_ITER_NEXT st n = [s_low st..<Suc (s_high st)]"
  by (subst backlog.simps) (simp add: next_no_def backlog_next max_def upt_conv_Cons del: upt_Suc)

lemma backlog_newest: "s_low st \<le> s_high st \<Longrightarrow> backlog A0_ITER_NEWEST st n = (if n < s_high st then [s_high st] else [])"
  by (subst backlog.simps, subst backlog.simps) (simp add: next_no_def)

text \<open>The callback has been called for the frames of these numbers, one after the other.\<close>

definition delivered :: "(u8 list \<Rightarrow> 's \<Rightarrow> 's) \<Rightarrow> mem \<Rightarrow> tlog \<Rightarrow> nat list \<Rightarrow> 's \<Rightarrow> 's" where
  "delivered f m st ns s = fold (\<lambda>n. f (contents m st ! (n - s_low st))) ns s"

lemma delivered_simps [simp]:
  "delivered f m st [] s = s"
  "delivered f m st (n # ns) s = delivered f m st ns (f (contents m st ! (n - s_low st)) s)"
  "delivered f m st (ns @ ns') s = delivered f m st ns' (delivered f m st ns s)"
  by (simp_all add: delivered_def)

text \<open>\<open>k\<close> rounds of the thread's loop.\<close>

primrec rounds :: "others \<Rightarrow> 's a0_zero_copy_callback \<Rightarrow> nat \<Rightarrow> a0_reader_zc \<Rightarrow> 's \<Rightarrow> world
    \<Rightarrow> (bool \<times> a0_reader_zc \<times> 's \<times> world) option" where
  "rounds others cb 0 r s w = Some (True, r, s, w)"
| "rounds others cb (Suc k) r s w =
     Option.bind (a0_reader_zc_thread_handle_next_pkt others cb r s w) (\<lambda>(more, r, s, w).
       if more then rounds others cb k r s w else Some (False, r, s, w))"

lemma rounds_loop:
  "rounds others cb k r s w = Some (True, r', s', w') \<Longrightarrow>
     a0_reader_zc_thread_loop others cb r s w = a0_reader_zc_thread_loop others cb r' s' w'"
proof (induction k arbitrary: r s w)
  case (Suc k)
  then obtain r1 s1 w1 where 1: "a0_reader_zc_thread_handle_next_pkt others cb r s w = Some (True, r1, s1, w1)"
      "rounds others cb k r1 s1 w1 = Some (True, r', s', w')"
    by (auto split: bind_splits if_splits)
  show ?case by (subst a0_reader_zc_thread_loop.simps) (simp add: 1(1) Suc.IH [OF 1(2)])
qed simp

lemma iter_step_fields: "shutdown (iter_step iter t w) = shutdown t"
  by (cases iter) (auto simp: iter_step_def a0_transport_step_next_def a0_transport_jump_tail_def Let_def)

lemma handle_pkt_at:
  assumes "tinv A w stC st" "at_frame t st i" "looks cb f"
  shows "a0_reader_zc_thread_handle_pkt cb (r\<lparr>zc_transport := t\<rparr>) s w = Some (f (contents (mm w) st ! i) s, w)"
  using frame_packet_at [OF assms(1,2)] assms(3) by (simp add: a0_reader_zc_thread_handle_pkt_def looks_def)

text \<open>A thread at work: it holds the lock and follows the log.\<close>

definition at_work :: "nat \<Rightarrow> world \<Rightarrow> tlog \<Rightarrow> a0_transport \<Rightarrow> bool" where
  "at_work A w st t \<longleftrightarrow> tinv A w st st \<and> frames st \<noteq> [] \<and> iter_on (stream_of (mm w) st) t \<and>
     arena_mode t = A0_ARENA_MODE_SHARED \<and> \<not> shutdown t"

lemma handle_next_at:
  assumes a: "at_work A w st (zc_transport r)" and n: "t_seq (zc_transport r) < s_high st" and cb: "looks cb f"
  shows "\<exists>t'. a0_reader_zc_thread_handle_next_pkt others cb r s w =
      Some (True, r\<lparr>zc_transport := t'\<rparr>, f (contents (mm w) st ! (t_seq t' - s_low st)) s, w) \<and>
    t_seq t' = next_no (opt_iter (zc_opts r)) st (t_seq (zc_transport r)) \<and> at_work A w st t' \<and>
    at_frame t' st (t_seq t' - s_low st)"
proof -
  let ?t = "zc_transport r" and ?iter = "opt_iter (zc_opts r)"
  let ?t' = "iter_step ?iter ?t w"
  have t: "tinv A w st st" "frames st \<noteq> []" "iter_on (stream_of (mm w) st) ?t"
      "arena_mode ?t = A0_ARENA_MODE_SHARED" "\<not> shutdown ?t"
    using a by (simp_all add: at_work_def)
  note i = iter_step_at [OF t(1,3,2) n, of ?iter]
  have seq: "t_seq ?t' = next_no ?iter st (t_seq ?t)" using i(1,2) by (simp add: at_frame_def)
  have "a0_transport_wait others a0_transport_has_next_pred ?t w = Some (A0_OK, ?t, w)"
    using wait_ready [OF t(4,5)] ready_preds(2) [OF t(1)] t(2) n by simp
  moreover have "a0_reader_zc_thread_handle_pkt cb (r\<lparr>zc_transport := ?t'\<rparr>) s w =
      Some (f (contents (mm w) st ! (t_seq ?t' - s_low st)) s, w)"
    by (rule handle_pkt_at [OF t(1) _ cb]) (simp add: i(1) seq)
  ultimately show ?thesis
    using seq i(1) at_frame_iter_on [OF tinvD(3) [OF t(1)] i(1)] t iter_step_mode [of ?iter ?t w] iter_step_fields [of ?iter ?t w]
    by (intro exI [of _ ?t']) (simp add: a0_reader_zc_thread_handle_next_pkt_def at_work_def)
qed

lemma rounds_backlog:
  assumes "at_work A w st (zc_transport r)" "looks cb f"
  shows "\<exists>t'. rounds others cb (length (backlog (opt_iter (zc_opts r)) st (t_seq (zc_transport r)))) r s w =
      Some (True, r\<lparr>zc_transport := t'\<rparr>,
        delivered f (mm w) st (backlog (opt_iter (zc_opts r)) st (t_seq (zc_transport r))) s, w) \<and>
    t_seq t' = s_high st \<and> at_work A w st t'"
  using assms(1)
proof (induction "s_high st - t_seq (zc_transport r)" arbitrary: r s rule: less_induct)
  case less
  let ?n = "t_seq (zc_transport r)" and ?iter = "opt_iter (zc_opts r)"
  have t: "tinv A w st st" "frames st \<noteq> []" "iter_on (stream_of (mm w) st) (zc_transport r)"
    using less.prems by (simp_all add: at_work_def)
  have "s_high st + 1 = s_low st + length (frames st)" using log_seq [OF tinvD(3) [OF t(1)] t(2)] by simp
  moreover have "length (frames st) \<noteq> 0" using t(2) by simp
  ultimately have lh: "s_low st \<le> s_high st" by arith
  show ?case
  proof (cases "?n < s_high st")
    case True
    obtain t' where 1: "a0_reader_zc_thread_handle_next_pkt others cb r s w =
        Some (True, r\<lparr>zc_transport := t'\<rparr>, f (contents (mm w) st ! (t_seq t' - s_low st)) s, w)"
        "t_seq t' = next_no ?iter st ?n" "at_work A w st t'"
      using handle_next_at [OF less.prems True assms(2)] by blast
    have "?n < t_seq t'" using 1(2) True by (auto simp: next_no_def split: a0_reader_iter.splits)
    then have dec: "s_high st - t_seq (zc_transport (r\<lparr>zc_transport := t'\<rparr>)) < s_high st - ?n" using True by simp
    have "backlog ?iter st ?n = t_seq t' # backlog ?iter st (t_seq t')"
      using True lh 1(2) by (subst backlog.simps) simp
    then show ?thesis
      using less.hyps [OF dec, of "f (contents (mm w) st ! (t_seq t' - s_low st)) s"] 1(1,3) by simp
  next
    case False
    then have "?n = s_high st" using iter_on_le [OF t(3)] by simp
    moreover have "backlog ?iter st (s_high st) = []" by (subst backlog.simps) simp
    ultimately show ?thesis using less.prems by (intro exI [of _ "zc_transport r"]) simp
  qed
qed
text \<open>The frames after frame \<open>n\<close> that it is interested in.\<close>

definition later_nos :: "a0_reader_iter \<Rightarrow> tlog \<Rightarrow> nat \<Rightarrow> nat list" where
  "later_nos iter st n =
     (case iter of A0_ITER_NEXT \<Rightarrow> [Suc n..<Suc (s_high st)]
      | A0_ITER_NEWEST \<Rightarrow> if n < s_high st then [s_high st] else [])"

section \<open>The first frame\<close>

text \<open>Where the thread starts, and the frames it delivers before its loop.\<close>

definition start_no :: "a0_reader_zc \<Rightarrow> tlog \<Rightarrow> nat" where
  "start_no r st = (if started_empty r \<or> t_seq (zc_transport r) < s_low st then s_low st else t_seq (zc_transport r))"

definition start_nos :: "a0_reader_zc \<Rightarrow> tlog \<Rightarrow> nat list" where
  "start_nos r st =
     (if started_empty r \<or> t_seq (zc_transport r) < s_low st \<or> opt_init (zc_opts r) \<noteq> A0_INIT_AWAIT_NEW
      then [start_no r st] else [])"

lemma init_cases: "i \<noteq> A0_INIT_AWAIT_NEW \<longleftrightarrow> i = A0_INIT_OLDEST \<or> i = A0_INIT_MOST_RECENT"
  by (cases i) auto

lemma handle_first_at:
  assumes a: "at_work A w st (zc_transport r)" and cb: "looks cb f"
  shows "\<exists>t'. a0_reader_zc_thread_handle_first_pkt others cb r s w =
      Some (True, r\<lparr>zc_transport := t'\<rparr>, delivered f (mm w) st (start_nos r st) s, w) \<and>
    t_seq t' = start_no r st \<and> at_work A w st t'"
proof -
  let ?t = "zc_transport r"
  have t: "tinv A w st st" "frames st \<noteq> []" "iter_on (stream_of (mm w) st) ?t"
      "arena_mode ?t = A0_ARENA_MODE_SHARED" "\<not> shutdown ?t"
    using a by (simp_all add: at_work_def)
  have ok: "log_ok A st" by (rule tinvD(3) [OF t(1)])
  have le: "t_seq ?t \<le> s_high st" by (rule iter_on_le [OF t(3)])
  have valid: "a0_transport_iter_valid ?t w \<longleftrightarrow> s_low st \<le> t_seq ?t"
    using working_fields(1,2) [OF t(1)] le by (simp add: a0_transport_iter_valid_def)
  let ?reset = "started_empty r \<or> \<not> s_low st \<le> t_seq ?t"
  let ?t' = "if ?reset then snd (a0_transport_jump_head ?t w) else ?t"
  obtain th where head: "a0_transport_jump_head ?t w = (A0_OK, th)" "at_frame th st 0"
    using jump_head_correct [OF t(1,2)] by blast
  have th: "arena_mode th = arena_mode ?t" "shutdown th = shutdown ?t"
    using head(1) by (auto simp: a0_transport_jump_head_def split: if_splits)
  have at: "at_frame ?t' st (start_no r st - s_low st)" "t_seq ?t' = start_no r st"
    using head iter_on_frame [OF ok t(3,2)] by (auto simp: start_no_def at_frame_def)
  have wait: "a0_transport_wait others a0_transport_nonempty_pred ?t w = Some (A0_OK, ?t, w)"
    using wait_ready [OF t(4,5)] ready_preds(1) [OF t(1)] t(2) by simp
  have pkt: "a0_reader_zc_thread_handle_pkt cb (r\<lparr>zc_transport := ?t'\<rparr>) s w =
      Some (f (contents (mm w) st ! (start_no r st - s_low st)) s, w)"
    by (rule handle_pkt_at [OF t(1) at(1) cb])
  have "at_work A w st ?t'"
    using t th at_frame_iter_on [OF ok at(1)] head(1) by (simp add: at_work_def)
  moreover have "a0_reader_zc_thread_handle_first_pkt others cb r s w =
      Some (True, r\<lparr>zc_transport := ?t'\<rparr>, delivered f (mm w) st (start_nos r st) s, w)"
    using pkt unfolding a0_reader_zc_thread_handle_first_pkt_def wait
    by (simp add: Let_def valid start_nos_def init_cases not_le)
  ultimately show ?thesis using at(2) by blast
qed

lemma handle_shutdown:
  assumes "shutdown (zc_transport r)"
  shows "a0_reader_zc_thread_handle_first_pkt others cb r s w = Some (False, r, s, w)"
    "a0_reader_zc_thread_handle_next_pkt others cb r s w = Some (False, r, s, w)"
  unfolding a0_reader_zc_thread_handle_first_pkt_def a0_reader_zc_thread_handle_next_pkt_def wait_shutdown [OF assms]
  by (simp_all add: A0_MAKE_SYSERR_def)

text \<open>Both predicates of the thread evaluate without an error.\<close>

lemma reader_preds_total: "\<exists>b. a0_transport_nonempty_pred t w = Inr b" "\<exists>b. a0_transport_has_next_pred t w = Inr b"
  by (simp_all add: a0_transport_nonempty_pred_def a0_transport_has_next_pred_def)

text \<open>A shutdown while the thread sleeps: it delivers nothing, and its loop ends.\<close>

lemma first_shut_down:
  assumes "tinv A w st st" "frames st = []" "arena_mode (zc_transport r) = A0_ARENA_MODE_SHARED"
    and "\<not> shutdown (zc_transport r)" "patient w"
    and "shut_down_asleep others a0_transport_nonempty_pred k (counted_in (zc_transport r)) w"
  shows "\<exists>t' w'. a0_transport_wait others a0_transport_nonempty_pred (zc_transport r) w = Some (A0_MAKE_SYSERR ESHUTDOWN, t', w') \<and>
     a0_reader_zc_thread_handle_first_pkt others cb r s w = Some (False, r\<lparr>zc_transport := t'\<rparr>, s, w')"
proof -
  have "a0_transport_nonempty_pred (zc_transport r) w = Inr False" using ready_preds(1) [OF assms(1)] assms(2) by simp
  from wait_shut_down [OF assms(3,4) this reader_preds_total(1) assms(5) tinvD(4) [OF assms(1)] assms(6)]
  show ?thesis by (auto simp: a0_reader_zc_thread_handle_first_pkt_def A0_MAKE_SYSERR_def)
qed

lemma next_shut_down:
  assumes "at_work A w st (zc_transport r)" "t_seq (zc_transport r) = s_high st" "patient w"
    and "shut_down_asleep others a0_transport_has_next_pred k (counted_in (zc_transport r)) w"
  shows "\<exists>t' w'. a0_transport_wait others a0_transport_has_next_pred (zc_transport r) w = Some (A0_MAKE_SYSERR ESHUTDOWN, t', w') \<and>
     a0_reader_zc_thread_loop others cb r s w = Some (r\<lparr>zc_transport := t'\<rparr>, s, w')"
proof -
  have t: "tinv A w st st" "arena_mode (zc_transport r) = A0_ARENA_MODE_SHARED" "\<not> shutdown (zc_transport r)"
    using assms(1) by (simp_all add: at_work_def)
  have "a0_transport_has_next_pred (zc_transport r) w = Inr False" using ready_preds(2) [OF t(1)] assms(2) by simp
  from wait_shut_down [OF t(2,3) this reader_preds_total(2) assms(3) tinvD(4) [OF t(1)] assms(4)]
  show ?thesis
    by (subst a0_reader_zc_thread_loop.simps) (auto simp: a0_reader_zc_thread_handle_next_pkt_def A0_MAKE_SYSERR_def)
qed

text \<open>
  C5. The reader's thread, once it holds the lock of a transport, delivers to the
  callback, in order and each exactly once: the frame it starts on (the oldest if it was
  started on an empty log or its frame has gone, none if it awaits new ones), then every
  later frame (\<^verbatim>\<open>A0_ITER_NEXT\<close>) or the newest (\<^verbatim>\<open>A0_ITER_NEWEST\<close>). Then it sleeps, on the newest frame;
  on an empty log it sleeps before it delivers anything. However often it has woken for nothing, when
  the transport is shut down during a sleep the wait reports ESHUTDOWN, nothing more is delivered,
  even if there are new frames by then, and the loop returns. So it does, without a sleep, where the
  transport was shut down before.
\<close>

theorem reader_thread_spec:
  assumes "tinv A w st st" "iter_on (stream_of (mm w) st) (zc_transport r)"
    and "arena_mode (zc_transport r) = A0_ARENA_MODE_SHARED" "looks cb f" "patient w"
  shows "if shutdown (zc_transport r) then
       a0_reader_zc_thread_handle_first_pkt others cb r s w = Some (False, r, s, w) \<and>
       a0_reader_zc_thread_loop others cb r s w = Some (r, s, w)
     else if frames st = [] then
       \<forall>k. shut_down_asleep others a0_transport_nonempty_pred k (counted_in (zc_transport r)) w \<longrightarrow>
         (\<exists>t' w'. a0_transport_wait others a0_transport_nonempty_pred (zc_transport r) w = Some (A0_MAKE_SYSERR ESHUTDOWN, t', w') \<and>
           a0_reader_zc_thread_handle_first_pkt others cb r s w = Some (False, r\<lparr>zc_transport := t'\<rparr>, s, w'))
     else
       let n = start_no r st;
           rest = later_nos (opt_iter (zc_opts r)) st n;
           s1 = delivered f (mm w) st (start_nos r st) s;
           s2 = delivered f (mm w) st rest s1
       in \<exists>r1 r2. a0_reader_zc_thread_handle_first_pkt others cb r s w = Some (True, r1, s1, w) \<and>
         rounds others cb (length rest) r1 s1 w = Some (True, r2, s2, w) \<and>
         a0_reader_zc_thread_loop others cb r1 s1 w = a0_reader_zc_thread_loop others cb r2 s2 w \<and>
         t_seq (zc_transport r2) = s_high st \<and> s_low st \<le> n \<and> n \<le> s_high st \<and>
         (\<forall>k. shut_down_asleep others a0_transport_has_next_pred k (counted_in (zc_transport r2)) w \<longrightarrow>
           (\<exists>t' w'. a0_transport_wait others a0_transport_has_next_pred (zc_transport r2) w = Some (A0_MAKE_SYSERR ESHUTDOWN, t', w') \<and>
             a0_reader_zc_thread_loop others cb r1 s1 w = Some (r2\<lparr>zc_transport := t'\<rparr>, s2, w')))"
proof (cases "shutdown (zc_transport r)")
  case True
  then show ?thesis by (subst a0_reader_zc_thread_loop.simps) (simp add: handle_shutdown)
next
  case False
  show ?thesis
  proof (cases "frames st = []")
    case True
    show ?thesis
      unfolding if_not_P [OF False] if_P [OF True]
      by (intro allI impI) (rule first_shut_down [OF assms(1) True assms(3) False assms(5)])
  next
    case ne: False
    have a: "at_work A w st (zc_transport r)" using assms(1-3) ne False by (simp add: at_work_def)
    obtain t1 where 1: "a0_reader_zc_thread_handle_first_pkt others cb r s w =
          Some (True, r\<lparr>zc_transport := t1\<rparr>, delivered f (mm w) st (start_nos r st) s, w)"
        "t_seq t1 = start_no r st" "at_work A w st t1"
      using handle_first_at [OF a assms(4)] by blast
    let ?r1 = "r\<lparr>zc_transport := t1\<rparr>"
    have "at_work A w st (zc_transport ?r1)" using 1(3) by simp
    note rounds = rounds_backlog [OF this assms(4), of others "delivered f (mm w) st (start_nos r st) s"]
    have "s_high st + 1 = s_low st + length (frames st)" "length (frames st) \<noteq> 0"
      using log_seq [OF tinvD(3) [OF assms(1)] ne] ne by simp_all
    then have lh: "s_low st \<le> s_high st" by arith
    have low: "s_low st \<le> start_no r st" "start_no r st \<le> s_high st"
      using iter_on_le [OF assms(2)] lh by (auto simp: start_no_def)
    have rest: "backlog (opt_iter (zc_opts r)) st (start_no r st) = later_nos (opt_iter (zc_opts r)) st (start_no r st)"
      using low by (cases "opt_iter (zc_opts r)") (simp_all add: later_nos_def backlog_next backlog_newest lh del: upt_Suc)
    let ?rest = "later_nos (opt_iter (zc_opts r)) st (start_no r st)" and ?s1 = "delivered f (mm w) st (start_nos r st) s"
    obtain t2 where 2: "rounds others cb (length ?rest) ?r1 ?s1 w =
          Some (True, ?r1\<lparr>zc_transport := t2\<rparr>, delivered f (mm w) st ?rest ?s1, w)" "t_seq t2 = s_high st"
        "at_work A w st t2"
      using rounds 1(2) rest by auto
    let ?r2 = "?r1\<lparr>zc_transport := t2\<rparr>" and ?s2 = "delivered f (mm w) st ?rest ?s1"
    note loop = rounds_loop [OF 2(1)]
    have sleep: "\<exists>t' w'. a0_transport_wait others a0_transport_has_next_pred (zc_transport ?r2) w =
          Some (A0_MAKE_SYSERR ESHUTDOWN, t', w') \<and>
        a0_reader_zc_thread_loop others cb ?r1 ?s1 w = Some (?r2\<lparr>zc_transport := t'\<rparr>, ?s2, w')"
      if "shut_down_asleep others a0_transport_has_next_pred k (counted_in (zc_transport ?r2)) w" for k
      unfolding loop using 2(2,3) by (intro next_shut_down [OF _ _ assms(5) that]) simp_all
    show ?thesis
      unfolding Let_def if_not_P [OF False] if_not_P [OF ne]
      using 1(1) 2(1,2) loop low sleep
      by (intro exI [of _ ?r1] exI [of _ ?r2] conjI allI impI) (assumption | simp)+
  qed
qed

text \<open>A thread's reader, started on the empty log of the concrete arena.\<close>

definition example_thread :: a0_reader_zc where
  "example_thread = \<lparr>zc_transport = conn, started_empty = True,
     zc_opts = \<lparr>opt_init = A0_INIT_AWAIT_NEW, opt_iter = A0_ITER_NEXT\<rparr>, thread_id = 8, thread_start_event = 5000\<rparr>"

text \<open>Another thread shuts the connection down during the first sleep.\<close>

definition example_others :: others where
  "example_others = (\<lambda>_ t. t\<lparr>shutdown := True\<rparr>)"

lemma example_shut_down: "shut_down_asleep example_others pred 0 t w"
  by (simp add: shut_down_asleep_def example_others_def Let_def)

theorem reader_thread_spec_witness:
  "\<exists>w r1 r3 w3. a0_reader_zc_thread_handle_first_pkt example_others collect example_thread [] w = Some (True, r1, [flat example_packet], w) \<and>
     a0_reader_zc_thread_loop example_others collect r1 [flat example_packet] w = Some (r3, [flat example_packet], w3)"
proof -
  obtain w st where w: "idle 1000 w [] st" "log_step\<^sup>*\<^sup>* (stream_of (mm arena) empty_log) (stream_of (mm w) st)"
      "frames st \<noteq> []" "last (contents (mm w) st) = flat example_packet" "s_high st = 1" "kernel w = kernel quiet_world"
    using example_written by blast
  let ?w = "a0_transport_lock conn w" and ?t = "zc_transport example_thread"
  note l = lock_session [OF w(1) conn_mode]
  have t: "tinv 1000 ?w st st" using l(1) by (simp add: session_def)
  have c: "contents (mm ?w) st = [flat example_packet]" using single_frame(2) [OF w(1,3,5), of "mm w"] w(4) l(2) by simp
  have low: "s_low st = 1" by (rule single_frame(1) [OF w(1,3,5)])
  have "iter_on (stream_of (mm w) st) conn" by (rule iter_on_runs [OF w(2) conn_follows])
  then have i: "iter_on (stream_of (mm ?w) st) ?t" using l(2) by (simp add: stream_of_def example_thread_def)
  have "kernel ?w = kernel quiet_world" using l(3) w(6) by (simp add: grew_def)
  then have p: "patient ?w" by (simp add: patient_def quiet_world_def)
  have s1: "delivered Cons (mm ?w) st (start_nos example_thread st) [] = [flat example_packet]"
    using c by (simp add: start_nos_def start_no_def example_thread_def)
  have rest: "later_nos (opt_iter (zc_opts example_thread)) st (start_no example_thread st) = []"
    using low w(5) by (simp add: later_nos_def start_no_def example_thread_def)
  have on: "\<not> shutdown ?t" "arena_mode ?t = A0_ARENA_MODE_SHARED" by (simp_all add: example_thread_def conn_def)
  from reader_thread_spec [OF t i on(2) collect p, of example_others "[]"]
  show ?thesis
    unfolding Let_def if_not_P [OF on(1)] if_not_P [OF w(3)] s1 rest
    using example_shut_down by fastforce
qed

section \<open>Connecting\<close>

lemma init_idle:
  assumes i: "idle A w ms st"
  shows "\<exists>w'. a0_transport_init n A0_ARENA_MODE_SHARED w = (new_conn n A0_ARENA_MODE_SHARED, w') \<and>
     idle A w' ms st \<and> contents (mm w') st = contents (mm w) st \<and> grew w w' (\<lambda>m. leaves A w m st)"
proof -
  have i': "list_outside A w ms" "ld32 (mm w) (hdr_mtx + 16) = 0" "committed A (mm w) st" "requeue_ok w"
    "no_waiters w" "A < 2 ^ 63"
    and hdr: "mm w 12 \<noteq> 0" "mm w 0 \<noteq> 1"
    using i by (simp_all add: idle_def has_header_def)
  from init_existing [OF i'(1-3) hdr i'(4,6), of n] obtain w' where
    w': "a0_transport_init n A0_ARENA_MODE_SHARED w = (new_conn n A0_ARENA_MODE_SHARED, w')"
      "committed A (mm w') st" "contents (mm w') st = contents (mm w) st" "list_outside A w' ms"
      "ld32 (mm w') (hdr_mtx + 16) = 0" "requeue_ok w'" "grew w w' (\<lambda>m. leaves A w m st)"
      "\<forall>x<16. mm w' x = mm w x"
    by blast
  have "kernel w' = kernel w" using w'(7) by (simp add: grew_def)
  then have "no_waiters w'" using i'(5) by (simp add: no_waiters_def)
  then show ?thesis using w' i'(6) hdr by (simp add: idle_def has_header_def)
qed

lemma stream_same: "contents m' st = contents m st \<Longrightarrow> stream_of m' st = stream_of m st"
  by (simp add: stream_of_def)

lemma sync_zc_init:
  assumes "idle A w ms st"
  shows "\<exists>r w'. a0_reader_sync_zc_init n A0_ARENA_MODE_SHARED opts w = (r, w') \<and>
     idle A w' ms st \<and> contents (mm w') st = contents (mm w) st \<and>
     arena_mode (r_transport r) = A0_ARENA_MODE_SHARED \<and> iter_on (stream_of (mm w') st) (r_transport r) \<and>
     r_opts r = opts \<and> grew w w' (\<lambda>m. leaves A w m st) \<and>
     (if frames st = [] then \<not> readable r st
      else case opt_init opts of
          A0_INIT_OLDEST \<Rightarrow> readable r st \<and> read_no r st = s_low st
        | A0_INIT_MOST_RECENT \<Rightarrow> readable r st \<and> read_no r st = s_high st
        | A0_INIT_AWAIT_NEW \<Rightarrow> \<not> readable r st)"
proof -
  obtain w1 where 1: "a0_transport_init n A0_ARENA_MODE_SHARED w = (new_conn n A0_ARENA_MODE_SHARED, w1)"
      "idle A w1 ms st" "contents (mm w1) st = contents (mm w) st" "grew w w1 (\<lambda>m. leaves A w m st)"
    using init_idle [OF assms(1)] by blast
  let ?t = "new_conn n A0_ARENA_MODE_SHARED"
  have mode: "arena_mode ?t = A0_ARENA_MODE_SHARED" by simp
  let ?w = "a0_transport_lock ?t w1"
  note l = lock_session [OF 1(2) mode]
  have t: "tinv A ?w st st" "holds A ?w ms" "no_waiters ?w" "has_header (mm ?w)"
    using l(1) by (simp_all add: session_def)
  have ok: "log_ok A st" by (rule tinvD(3) [OF t(1)])
  let ?t' = "init_jump (opt_init opts) ?t ?w"
  let ?r = "\<lparr>r_transport = ?t', r_opts = opts, first_read_done = False\<rparr>" and ?w' = "a0_transport_unlock ?t' ?w"
  have mode': "arena_mode ?t' = A0_ARENA_MODE_SHARED"
    using mode by (cases "opt_init opts") (simp_all add: init_jump_def a0_transport_jump_head_def a0_transport_jump_tail_def)
  note u = unlock_session [OF t mode']
  have init: "a0_reader_sync_zc_init n A0_ARENA_MODE_SHARED opts w = (?r, ?w')"
    by (simp add: a0_reader_sync_zc_init_def 1(1) Let_def)
  have c: "contents (mm ?w') st = contents (mm w) st" using u(2) l(2) 1(3) by simp
  have "grew w1 ?w (\<lambda>m. leaves A w m st)" using l(3) by (rule grew_mono) (simp add: leaves_def 1(3))
  moreover have "grew ?w ?w' (\<lambda>m. leaves A w m st)" using u(3) by (rule grew_mono) (simp add: leaves_def l(2) 1(3))
  ultimately have g: "grew w ?w' (\<lambda>m. leaves A w m st)" using 1(4) grew_trans by blast
  show ?thesis
  proof (cases "frames st = []")
    case True
    then have "?t' = ?t" using working_fields(5) [OF t(1)]
      by (cases "opt_init opts") (simp_all add: init_jump_def a0_transport_jump_head_def a0_transport_jump_tail_def)
    then have "iter_on (stream_of (mm ?w') st) ?t'"
      by (auto simp: iter_on_def stream.follows_def first_no_def)
    then show ?thesis using init u(1) c g mode' True by (auto simp: readable_def)
  next
    case False
    have "s_high st + 1 = s_low st + length (frames st)" "length (frames st) \<noteq> 0" "s_low st \<noteq> 0"
      using log_seq [OF ok False] False by simp_all
    then have lh: "s_low st + (length (frames st) - 1) = s_high st" "s_low st \<le> s_high st" by arith+
    obtain i where i: "at_frame ?t' st i" "s_low st + i = (if opt_init opts = A0_INIT_OLDEST then s_low st else s_high st)"
      using jump_head_correct [OF t(1) False, of ?t] jump_tail_correct [OF t(1) False, of ?t] lh(1)
      by (cases "opt_init opts") (force simp: init_jump_def)+
    then have seq: "t_seq ?t' = (if opt_init opts = A0_INIT_OLDEST then s_low st else s_high st)" by (simp add: at_frame_def)
    have "iter_on (stream_of (mm ?w') st) ?t'" by (rule at_frame_iter_on [OF ok i(1)])
    moreover have "case opt_init opts of
          A0_INIT_OLDEST \<Rightarrow> readable ?r st \<and> read_no ?r st = s_low st
        | A0_INIT_MOST_RECENT \<Rightarrow> readable ?r st \<and> read_no ?r st = s_high st
        | A0_INIT_AWAIT_NEW \<Rightarrow> \<not> readable ?r st"
      using seq lh(2) False
      by (cases "opt_init opts") (simp_all add: readable_def read_no_def steps_first_def)
    ultimately show ?thesis using init u(1) c g mode' False by auto
  qed
qed

text \<open>
  A new synchronous reader of an existing transport leaves the log alone and follows it. With
  \<^verbatim>\<open>A0_INIT_OLDEST\<close> its first read delivers the oldest frame, with \<^verbatim>\<open>A0_INIT_MOST_RECENT\<close> the newest, and with
  \<^verbatim>\<open>A0_INIT_AWAIT_NEW\<close> there is nothing to read yet. On an empty transport there never is.
\<close>

theorem reader_init_spec:
  assumes "idle A w ms st"
  shows "\<exists>r w'. a0_reader_sync_zc_init n A0_ARENA_MODE_SHARED opts w = (r, w') \<and>
     idle A w' ms st \<and> contents (mm w') st = contents (mm w) st \<and>
     arena_mode (r_transport r) = A0_ARENA_MODE_SHARED \<and> iter_on (stream_of (mm w') st) (r_transport r) \<and>
     r_opts r = opts \<and> grew w w' (\<lambda>m. leaves A w m st) \<and>
     (if frames st = [] then \<not> readable r st
      else case opt_init opts of
          A0_INIT_OLDEST \<Rightarrow> readable r st \<and> read_no r st = s_low st
        | A0_INIT_MOST_RECENT \<Rightarrow> readable r st \<and> read_no r st = s_high st
        | A0_INIT_AWAIT_NEW \<Rightarrow> \<not> readable r st)"
  by (rule sync_zc_init [OF assms])

theorem reader_init_spec_witness:
  "\<exists>r w'. a0_reader_sync_zc_init 1000 A0_ARENA_MODE_SHARED A0_READER_OPTIONS_DEFAULT arena = (r, w') \<and>
     \<not> readable r empty_log"
  using reader_init_spec [OF arena_idle, of 1000 A0_READER_OPTIONS_DEFAULT] by auto

section \<open>Random access\<close>

lemma jump_frame:
  assumes t: "tinv A w stC st" and f: "f \<in> set (frames st)"
  shows "a0_transport_jump c (fst f) w =
     (if f_end f < A then (A0_OK, c\<lparr>t_off := fst f, t_seq := ld64 (mm w) (fr_seq_at (fst f))\<rparr>) else (A0_ERR_RANGE, c))"
proof -
  obtain i where i: "i < length (frames st)" "f = frames st ! i" using f by (auto simp: in_set_conv_nth)
  have p: "placed A f" "A < 2 ^ 63" using tinvD(5) [OF t] f log_frame [OF tinvD(3) [OF t]] by auto
  then have al: "a0_max_align (fst f) = fst f" using a0_max_align_id [of "fst f"] by (simp add: placed_def f_end_def)
  have sz: "ld64 (mm w) (fr_size_at (fst f)) = snd f" using nth_frame [OF tinvD(2) [OF t] i(1)] i(2) by simp
  have "add64 (fst f) sizeof_frame_hdr = fst f + 40" "add64 (fst f + 40) (snd f) = f_end f"
    using p by (simp_all add: sizeof_frame_hdr_def add64_def placed_def f_end_def)
  moreover have "fst f + 40 \<le> f_end f" by (simp add: f_end_def)
  ultimately show ?thesis using al sz tinvD(9) [OF t] by (simp add: a0_transport_jump_def)
qed

text \<open>
  Reading at random: at the offset of a frame of the log, the callback gets the frame's data, and the log
  stays as it is. But the frame that ends exactly at the end of the arena, a legal place for
  a frame, is refused with \<^verbatim>\<open>A0_ERR_RANGE\<close>, as is any offset that is not aligned or leaves no room for a header.
\<close>

theorem random_access_spec:
  assumes "idle A w ms st" "looks cb g"
  shows "\<exists>w'. idle A w' ms st \<and> contents (mm w') st = contents (mm w) st \<and>
     (\<forall>i. i < length (frames st) \<and> off = fst (frames st ! i) \<longrightarrow>
        a0_read_random_access n A0_ARENA_MODE_SHARED off cb s w =
          Some (if f_end (frames st ! i) < A then (A0_OK, g (contents (mm w) st ! i) s, w') else (A0_ERR_RANGE, s, w'))) \<and>
     (off < 2 ^ 63 \<and> (\<not> 16 dvd off \<or> A \<le> off + 40) \<longrightarrow>
        a0_read_random_access n A0_ARENA_MODE_SHARED off cb s w = Some (A0_ERR_RANGE, s, w'))"
proof -
  let ?t = "new_conn n A0_ARENA_MODE_SHARED"
  obtain w1 where 1: "a0_transport_init n A0_ARENA_MODE_SHARED w = (?t, w1)"
      "idle A w1 ms st" "contents (mm w1) st = contents (mm w) st"
    using init_idle [OF assms(1)] by blast
  let ?w = "a0_transport_lock ?t w1"
  note l = lock_session [OF 1(2), of ?t, simplified]
  have t: "tinv A ?w st st" "holds A ?w ms" "no_waiters ?w" "has_header (mm ?w)"
    using l(1) by (simp_all add: session_def)
  have u: "idle A (a0_transport_unlock c ?w) ms st" "contents (mm (a0_transport_unlock c ?w)) st = contents (mm w) st"
    "a0_transport_unlock c ?w = a0_transport_unlock ?t ?w"
    if "arena_mode c = A0_ARENA_MODE_SHARED" for c
    using unlock_session [OF t that] l(2) 1(3) that by (simp_all add: a0_transport_unlock_def)
  let ?w' = "a0_transport_unlock ?t ?w"
  have "a0_read_random_access n A0_ARENA_MODE_SHARED off cb s w =
      Some (if f_end (frames st ! i) < A then (A0_OK, g (contents (mm w) st ! i) s, ?w') else (A0_ERR_RANGE, s, ?w'))"
    if i: "i < length (frames st)" "off = fst (frames st ! i)" for i
  proof -
    let ?c = "?t\<lparr>t_off := off, t_seq := ld64 (mm ?w) (fr_seq_at off)\<rparr>"
    have "at_frame ?c st i" using i nth_frame(1) [OF tinvD(2) [OF t(1)] i(1)] by (simp add: at_frame_def)
    note f = frame_packet_at [OF t(1) this]
    have "a0_transport_jump ?t off ?w = (if f_end (frames st ! i) < A then (A0_OK, ?c) else (A0_ERR_RANGE, ?t))"
      using jump_frame [OF t(1), of "frames st ! i" ?t] i by simp
    then show ?thesis
      using f assms(2) l(2) 1(3) u(3) [of ?c] by (simp add: a0_read_random_access_def 1(1) looks_def)
  qed
  moreover have "a0_read_random_access n A0_ARENA_MODE_SHARED off cb s w = Some (A0_ERR_RANGE, s, ?w')"
    if o: "off < 2 ^ 63" "\<not> 16 dvd off \<or> A \<le> off + 40"
  proof -
    have "a0_max_align off = off \<longleftrightarrow> 16 dvd off" "add64 off sizeof_frame_hdr = off + 40"
      using o(1) by (simp_all add: a0_max_align_id sizeof_frame_hdr_def)
    then have "a0_transport_jump ?t off ?w = (A0_ERR_RANGE, ?t)"
      using o(2) tinvD(9) [OF t(1)] by (auto simp: a0_transport_jump_def)
    then show ?thesis by (simp add: a0_read_random_access_def 1(1))
  qed
  ultimately show ?thesis using u(1,2) [of ?t] by (intro exI [of _ ?w']) auto
qed

theorem random_access_spec_witness:
  "\<exists>w'. a0_read_random_access 1000 A0_ARENA_MODE_SHARED 1000 collect [] arena = Some (A0_ERR_RANGE, [], w')"
  using random_access_spec [OF arena_idle collect, of 1000 1000 "[]"] by auto

end
