(* ===== verification/Reader_Alloc.thy ===== *)
theory Reader_Alloc
  imports Reader_Thread
begin

text \<open>
  The allocating readers of \<^verbatim>\<open>src/reader.c\<close>: what the caller gets is a packet in memory of its own,
  equal to the one that was written, and it stays when the transport is unlocked.
\<close>

section \<open>Stores to the caller's memory\<close>

lemma session_outside:
  assumes s: "session A v ms st" and o: "touches {out..<out + n} v v'" and a: "apart_from A (rb_head v # ms) out n"
    and same: "rb_init v' = rb_init v" "null v' = null v"
  shows "session A v' ms st" "contents (mm v') st = contents (mm v) st"
proof -
  have t: "tinv A v st st" and h: "holds A v ms" and nw: "no_waiters v" using s by (simp_all add: session_def)
  have ok: "log_ok A st" by (rule tinvD(3) [OF t])
  have A: "144 \<le> A" by (rule log_ok_A [OF ok])
  have high: "A \<le> out" using a by (simp add: apart_from_def)
  have oo: "only (outer A) (mm v) (mm v')"
    by (rule only_mono [OF touches_only [OF o]]) (use high in \<open>auto simp: outer_def\<close>)
  have idx: "idx_ok (mm v)" using tinvD(1) [OF t] by (simp add: committed_def)
  note c = committed_outer [OF tinvD(1) [OF t] oo]
  have "wpage v = 48 \<or> wpage v = 88" using pages [OF idx] by auto
  note ap = outer_apart [OF ok this]
  have "view (mm v') (wpage v') st" using view_only [OF oo ap(3,4)] tinvD(2) [OF t] c(3) by simp
  moreover have g: "kernel v' = kernel v" "gettid v' = gettid v" "rb_head v' = rb_head v"
    using o by (simp_all add: touches_def grew_def)
  ultimately have "tinv A v' st st"
    using t c(1) by (simp add: tinv_def requeue_ok_def)
  moreover have "holds A v' ms"
  proof -
    have far: "\<forall>y \<in> set (rb_head v # ms). A \<le> y" and th: "thread_ok v (hdr_mtx # ms)" using h by (simp_all add: holds_def)
    have "ld64 (mm v') y = ld64 (mm v) y" if "y \<in> set (rb_head v # hdr_mtx # ms)" for y
      using that a A by (intro only_ld [OF touches_only [OF o]]) (auto simp: apart_from_def layout)
    moreover have "ld64 (mm v') (y + 8) = ld64 (mm v) (y + 8)" if "y \<in> set (hdr_mtx # ms)" for y
      using that a A by (intro only_ld [OF touches_only [OF o]]) (auto simp: apart_from_def layout)
    ultimately have "robust_ok (mm v') (rb_head v) (hdr_mtx # ms) = robust_ok (mm v) (rb_head v) (hdr_mtx # ms)"
      by (rule robust_ok_cong)
    moreover have "ld32 (mm v') (hdr_mtx + 16) = ld32 (mm v) (hdr_mtx + 16)"
      unfolding ld32_def using high A by (subst only_ld [OF touches_only [OF o]]) (auto simp: layout)
    ultimately show ?thesis using h g same th far by (simp add: holds_def thread_ok_def)
  qed
  moreover have "has_header (mm v')"
    using s oo A by (auto simp: session_def has_header_def only_def outer_def layout)
  ultimately show "session A v' ms st" using nw g by (simp add: session_def no_waiters_def)
  show "contents (mm v') st = contents (mm v) st" by (rule contents_around [OF only_mono [OF oo outer_around] ok])
qed

lemma strcpy_same: "strcpy d s w = Some w' \<Longrightarrow> rb_init w' = rb_init w \<and> null w' = null w"
  by (auto simp: strcpy_def wr_bytes_simps simp del: wr_bytes.simps)

lemma deserialize_hdrs_same:
  "deserialize_hdrs data hdrs n i q w = Some (q', w') \<Longrightarrow> rb_init w' = rb_init w \<and> null w' = null w"
proof (induction n arbitrary: i q w)
  case (Suc n)
  from Suc.prems show ?case
    by (auto simp: Let_def bind_eq_Some_conv dest!: Suc.IH strcpy_same)
qed simp

lemma deserialize_same:
  assumes "a0_packet_deserialize buf alloc w = Some (r, b, w')" "alloc n w = Some (Inr b', w1)" 
    and "n = add64 (num_hdrs (a0_flat_packet_stats buf (mm w)) * 16) (content_size (a0_flat_packet_stats buf (mm w)))"
  shows "rb_init w' = rb_init w1 \<and> null w' = null w1"
  using assms
  by (auto simp: a0_packet_deserialize_def Let_def bind_eq_Some_conv wr_bytes_simps dest!: deserialize_hdrs_same
      simp del: wr_bytes.simps)

text \<open>An allocator with memory for the packet.\<close>

definition ref_bytes :: "a0_packet \<Rightarrow> nat" where
  "ref_bytes pkt = 16 * length (hdrs_of pkt) + length (hdr_content (hdrs_of pkt)) + length (pkt_payload pkt)"

definition gives :: "a0_alloc \<Rightarrow> nat \<Rightarrow> nat \<Rightarrow> bool" where
  "gives alloc out n \<longleftrightarrow> out + n < 2 ^ 64 \<and> (\<forall>v. alloc n v = Some (Inr (out, n), v))"

lemma deserialize_outside:
  assumes s: "session A v ms st" and ok: "packet_ok pkt" "strings_ok pkt" and f: "flat_at (mm v) buf pkt"
    and buf: "fst buf + snd buf \<le> A" and alloc: "gives alloc out (ref_bytes pkt)"
    and a: "apart_from A (rb_head v # ms) out (ref_bytes pkt)"
  shows "\<exists>r v'. a0_packet_deserialize buf alloc v = Some (r, (out, ref_bytes pkt), v') \<and>
     session A v' ms st \<and> contents (mm v') st = contents (mm v) st \<and>
     (\<forall>S m'. only S (mm v') m' \<and> S \<inter> {out..<out + ref_bytes pkt} = {} \<longrightarrow>
        load_packet m' r = Some (pkt\<lparr>headers_block := [hdrs_of pkt]\<rparr>)) \<and>
     touches {out..<out + ref_bytes pkt} v v'"
proof -
  let ?n = "ref_bytes pkt"
  have al: "alloc (16 * length (hdrs_of pkt) + length (hdr_content (hdrs_of pkt)) + length (pkt_payload pkt)) v =
      Some (Inr (out, ?n), v)" and fit: "out + 16 * length (hdrs_of pkt) + length (hdr_content (hdrs_of pkt)) + length (pkt_payload pkt) < 2 ^ 64"
    and n: "out + 16 * length (hdrs_of pkt) + length (hdr_content (hdrs_of pkt)) + length (pkt_payload pkt) = out + ?n"
    using alloc by (simp_all add: gives_def ref_bytes_def add.assoc)
  have "length (flat pkt) = snd buf" using f by (cases buf) (simp add: flat_at_def)
  then have "{out..<out + ?n} \<inter> {fst buf..<fst buf + length (flat pkt)} = {}"
    using buf a by (auto simp: apart_from_def)
  with deserialize_kept [OF ok f, of alloc out ?n v] al f fit obtain r v' where
    d: "a0_packet_deserialize buf alloc v = Some (r, (out, ?n), v')" "touches {out..<out + ?n} v v'"
      "\<And>S m'. only S (mm v') m' \<Longrightarrow> S \<inter> {out..<out + ?n} = {} \<Longrightarrow> ref_at m' r pkt"
    unfolding n by blast
  obtain data sz where b: "buf = (data, sz)" by (cases buf)
  note r = flat_reads [OF ok(1) f [unfolded b]]
  have idx: "index_size (length (hdrs_of pkt)) = content_off pkt" by (rule stats_eq(2) [OF ok(1)])
  have "?n = add64 (num_hdrs (a0_flat_packet_stats buf (mm v)) * 16) (content_size (a0_flat_packet_stats buf (mm v)))"
    using r(2,6,7) idx sub64_eq [of "content_off pkt" sz] fit
    by (simp add: b a0_flat_packet_stats_def Let_def sizeof_uuid_def ref_bytes_def)
  from deserialize_same [OF d(1) _ this, of "(out, ?n)" v] alloc
  have "rb_init v' = rb_init v" "null v' = null v" by (simp_all add: gives_def)
  note s' = session_outside [OF s d(2) a this]
  show ?thesis using d s' load_ref by blast
qed

text \<open>A synchronous read into memory of the caller's.\<close>

lemma sync_alloc_read:
  assumes i: "idle A w ms st" and mode: "arena_mode (r_transport (sync_zc r)) = A0_ARENA_MODE_SHARED"
    and it: "iter_on (stream_of (mm w) st) (r_transport (sync_zc r))" and rd: "readable (sync_zc r) st"
    and pkt: "contents (mm w) st ! (read_no (sync_zc r) st - s_low st) = flat pkt" "packet_ok pkt" "strings_ok pkt"
    and alloc: "gives (sync_alloc r) out (ref_bytes pkt)" "apart_from A (rb_head w # ms) out (ref_bytes pkt)"
  shows "\<exists>ref r' w'. a0_reader_sync_read r w = Some (A0_OK, Some ref, r', w') \<and>
    (\<forall>S m'. only S (mm w') m' \<and> S \<inter> {out..<out + ref_bytes pkt} = {} \<longrightarrow>
       load_packet m' ref = Some (pkt\<lparr>headers_block := [hdrs_of pkt]\<rparr>)) \<and>
    idle A w' ms st \<and> contents (mm w') st = contents (mm w) st \<and> sync_alloc r' = sync_alloc r \<and>
    t_seq (r_transport (sync_zc r')) = read_no (sync_zc r) st \<and> first_read_done (sync_zc r') \<and>
    r_opts (sync_zc r') = r_opts (sync_zc r) \<and> arena_mode (r_transport (sync_zc r')) = A0_ARENA_MODE_SHARED \<and>
    iter_on (stream_of (mm w') st) (r_transport (sync_zc r'))"
proof -
  let ?z = "sync_zc r"
  let ?w = "a0_transport_lock (r_transport ?z) w" and ?n = "ref_bytes pkt"
  note l = lock_session [OF i mode]
  have t: "tinv A ?w st st" using l(1) by (simp add: session_def)
  note a = aligned_at [OF t it rd]
  let ?k = "read_no ?z st - s_low st" and ?t = "aligned ?z ?w"
  let ?f = "frames st ! ?k"
  note fp = frame_packet_at [OF t a(1)]
  have k: "?k < length (frames st)" using a(1) by (simp add: at_frame_def)
  have placed: "placed A ?f" using log_frame [OF tinvD(3) [OF t]] nth_mem [OF k] by blast
  have p: "bytes (mm ?w) (fst ?f + 40) (snd ?f) = flat pkt" using fp(2) pkt(1) l(2) by simp
  then have "length (flat pkt) = snd ?f" using length_bytes by metis
  then have flat: "flat_at (mm ?w) (fst ?f + 40, snd ?f) pkt" using p by (simp add: flat_at_def holds_at_def)
  have inside: "fst (fst ?f + 40, snd ?f) + snd (fst ?f + 40, snd ?f) \<le> A"
    using placed by (simp add: placed_def f_end_def)
  have rb: "rb_head ?w = rb_head w" using l(3) by (simp add: grew_def)
  obtain ref v where d: "a0_packet_deserialize (fst ?f + 40, snd ?f) (sync_alloc r) ?w = Some (ref, (out, ?n), v)"
      "session A v ms st" "contents (mm v) st = contents (mm ?w) st"
      "\<And>S m'. only S (mm v) m' \<Longrightarrow> S \<inter> {out..<out + ?n} = {} \<Longrightarrow>
         load_packet m' ref = Some (pkt\<lparr>headers_block := [hdrs_of pkt]\<rparr>)"
      "touches {out..<out + ?n} ?w v"
    using deserialize_outside [OF l(1) pkt(2,3) flat inside alloc(1)] alloc(2) rb by auto
  have s: "tinv A v st st" "holds A v ms" "no_waiters v" "has_header (mm v)" using d(2) by (simp_all add: session_def)
  have mode': "arena_mode ?t = A0_ARENA_MODE_SHARED" using a(5) mode by simp
  note u = unlock_session [OF s mode']
  let ?w' = "a0_transport_unlock ?t v"
  have "rb_head v = rb_head w" using d(5) rb by (simp add: touches_def grew_def)
  moreover have "lock_area A w ms \<inter> {out..<out + ?n} = {}"
    using alloc(2) by (auto simp: apart_from_def lock_area_def)
  ultimately have "load_packet m' ref = Some (pkt\<lparr>headers_block := [hdrs_of pkt]\<rparr>)"
    if "only S (mm ?w') m'" "S \<inter> {out..<out + ?n} = {}" for S m'
  proof -
    have lock: "only (lock_area A v ms) (mm v) (mm ?w')" by (rule unlock_only [OF mode' s(1,2)])
    have "only (lock_area A v ms \<union> S) (mm v) m'"
      using only_mono [OF lock Un_upper1] only_mono [OF that(1) Un_upper2] by (rule only_trans)
    moreover have "(lock_area A v ms \<union> S) \<inter> {out..<out + ?n} = {}"
      using that(2) \<open>rb_head v = rb_head w\<close> \<open>lock_area A w ms \<inter> _ = {}\<close> by (simp add: lock_area_def Int_Un_distrib2)
    ultimately show ?thesis by (rule d(4))
  qed
  moreover have "a0_reader_sync_read r w = Some (A0_OK, Some ref,
      r\<lparr>sync_zc := ?z\<lparr>r_transport := ?t, first_read_done := True\<rparr>\<rparr>, ?w')"
    using fp(1) d(1) rd read_align [OF t, of ?z]
    by (simp add: a0_reader_sync_read_def a0_reader_sync_zc_read_def a0_reader_sync_zc_read_helper_def
        a0_reader_sync_read_impl_def)
  ultimately show ?thesis
    using u(1,2) d(3) l(2) a(4) mode' at_frame_iter_on [OF tinvD(3) [OF t] a(1)]
    by (intro exI [of _ ref] exI [of _ "r\<lparr>sync_zc := ?z\<lparr>r_transport := ?t, first_read_done := True\<rparr>\<rparr>"] exI [of _ ?w'])
      auto
qed

lemma kept_packet:
  "(\<forall>S m'. only S m m' \<and> S \<inter> B = {} \<longrightarrow> load_packet m' ref = r) \<Longrightarrow> load_packet m ref = r"
  using only_refl [of "{}" m] by blast

text \<open>With nothing to read, the callback does not matter.\<close>

lemma sync_read_again:
  assumes i: "idle A w ms st" and mode: "arena_mode (r_transport r) = A0_ARENA_MODE_SHARED" and no: "\<not> readable r st"
  shows "\<exists>w'. a0_reader_sync_zc_read cb r s w = Some (A0_ERR_AGAIN, s, r, w') \<and>
     idle A w' ms st \<and> contents (mm w') st = contents (mm w) st"
proof -
  note l = lock_session [OF i mode]
  have t: "tinv A (a0_transport_lock (r_transport r) w) st st" "holds A (a0_transport_lock (r_transport r) w) ms"
    "no_waiters (a0_transport_lock (r_transport r) w)" "has_header (mm (a0_transport_lock (r_transport r) w))"
    using l(1) by (simp_all add: session_def)
  note u = unlock_session [OF t mode]
  show ?thesis
    using read_align [OF t(1)] no u(1,2) l(2)
    by (simp add: a0_reader_sync_zc_read_def a0_reader_sync_zc_read_helper_def)
qed

lemma sync_alloc_again:
  assumes "idle A w ms st" "arena_mode (r_transport (sync_zc r)) = A0_ARENA_MODE_SHARED" "\<not> readable (sync_zc r) st"
  shows "\<exists>r' w'. a0_reader_sync_read r w = Some (A0_ERR_AGAIN, None, r', w') \<and>
     idle A w' ms st \<and> contents (mm w') st = contents (mm w) st"
  using sync_read_again [OF assms, of "a0_reader_sync_read_impl (sync_alloc r)" None] by (auto simp: a0_reader_sync_read_def)

lemma can_read:
  assumes i: "idle A w ms st" and mode: "arena_mode (r_transport r) = A0_ARENA_MODE_SHARED"
  shows "fst (a0_reader_sync_zc_can_read r w) = readable r st"
  using working_fields [of A "a0_transport_lock (r_transport r) w" st st] lock_session(1) [OF i mode]
  by (simp add: a0_reader_sync_zc_can_read_def readable_def a0_transport_has_next_def a0_transport_nonempty_def Let_def
      session_def)

section \<open>The newest frame\<close>

lemma newest_frame:
  assumes i: "idle A w ms st" and ne: "frames st \<noteq> []"
  shows "contents m st ! (s_high st - s_low st) = last (contents m st)" "s_low st \<le> s_high st"
proof -
  have "log_ok A st" using i by (simp add: idle_def committed_def)
  from log_seq [OF this ne] have "s_high st + 1 = s_low st + length (frames st)" by simp
  moreover have "length (frames st) \<noteq> 0" using ne by simp
  ultimately have "s_high st - s_low st = length (frames st) - 1" "s_low st \<le> s_high st" by arith+
  then show "contents m st ! (s_high st - s_low st) = last (contents m st)" "s_low st \<le> s_high st"
    using ne by (simp_all add: contents_def last_conv_nth)
qed

text \<open>A reader that has read all there was reads the one frame that has been added.\<close>

lemma reads_added:
  assumes "idle A w ms st" "frames st \<noteq> []" "steps_first r" "s_high st = t_seq (r_transport r) + 1"
  shows "readable r st" "read_no r st = s_high st"
  using assms newest_frame(2) [OF assms(1,2)]
  by (simp_all add: readable_def read_no_def Let_def next_no_def split: a0_reader_iter.splits)

end
