(* ===== verification/Endpoint_Correct.thy ===== *)
theory Endpoint_Correct
  imports Endpoint Reader_Alloc
begin

text \<open>
  Lemmas that the endpoints share: what a header lookup finds, how ids travel in headers, and what
  arrives of a packet that was written.
\<close>

section \<open>Headers\<close>

lemma find_header_eq:
  "find_header key pkt = Some (case map_of (hdrs_of pkt) key of None \<Rightarrow> Inl A0_ERR_ITER_DONE | Some val \<Rightarrow> Inr val)"
proof -
  obtain r iter' where r: "a0_packet_header_iterator_next_match key (a0_packet_header_iterator_init pkt) = Some (r, iter')"
      "case dropWhile (\<lambda>h. fst h \<noteq> key) (hdrs_left (a0_packet_header_iterator_init pkt)) of
        [] \<Rightarrow> r = Inl A0_ERR_ITER_DONE \<and> hdrs_left iter' = []
      | h # hs \<Rightarrow> r = Inr h \<and> hdrs_left iter' = hs"
    using iterator_next_match by blast
  have left: "hdrs_left (a0_packet_header_iterator_init pkt) = hdrs_of pkt"
    by (cases "headers_block pkt") (simp_all add: a0_packet_header_iterator_init_def hdrs_of_def)
  have m: "map_of hs key = (case dropWhile (\<lambda>h. fst h \<noteq> key) hs of [] \<Rightarrow> None | h # _ \<Rightarrow> Some (snd h))" for hs :: "header list"
    by (induction hs) auto
  show ?thesis
  proof (cases "dropWhile (\<lambda>h. fst h \<noteq> key) (hdrs_of pkt)")
    case Nil
    then show ?thesis unfolding find_header_def m Nil using r(1) r(2) [unfolded left Nil] by simp
  next
    case (Cons h hs)
    then show ?thesis unfolding find_header_def m Cons using r(1) r(2) [unfolded left Cons] by simp
  qed
qed

lemma hdrs_with_block [simp]: "hdrs_of (with_block hs pkt) = hs @ hdrs_of pkt"
  "pkt_id (with_block hs pkt) = pkt_id pkt" "pkt_payload (with_block hs pkt) = pkt_payload pkt"
  by (simp_all add: hdrs_of_def with_block_def)

text \<open>An id as \<^verbatim>\<open>a0_uuidv4\<close> writes it: 36 characters and a NUL.\<close>

definition uuid_str :: "u8 list \<Rightarrow> bool" where
  "uuid_str s \<longleftrightarrow> (\<exists>cs. s = cs @ [0] \<and> length cs = 36 \<and> 0 \<notin> set cs)"

lemma uuid_str_length: "uuid_str s \<Longrightarrow> length s = 37"
  by (auto simp: uuid_str_def)

lemma uuid_at_c_string:
  assumes "uuid_str s"
  shows "uuid_at (c_string s) = Some s"
proof -
  obtain cs where cs: "s = cs @ [0]" "length cs = 36" "0 \<notin> set cs" using assms by (auto simp: uuid_str_def)
  have "takeWhile (\<lambda>c. c \<noteq> 0) (cs @ [0]) = cs @ takeWhile (\<lambda>c. c \<noteq> 0) [0]"
    by (rule takeWhile_append2) (use cs(3) in metis)
  then have "c_string s = cs" by (simp add: cs(1) c_string_def)
  then show ?thesis using cs by (simp add: uuid_at_def sizeof_uuid_def)
qed

text \<open>
  What a reader hands over of a packet that was written: the same packet, with headers of the
  writer's middleware in front, which use none of the \<open>keys\<close>.
\<close>

definition arrives :: "u8 list set \<Rightarrow> a0_packet \<Rightarrow> a0_packet \<Rightarrow> bool" where
  "arrives keys pkt pkt' \<longleftrightarrow> pkt_id pkt' = pkt_id pkt \<and> pkt_payload pkt' = pkt_payload pkt \<and>
     (\<exists>hs. hdrs_of pkt' = hs @ hdrs_of pkt \<and> fst ` set hs \<inter> keys = {})"

lemma arrives_header:
  assumes "arrives keys pkt pkt'" "key \<in> keys"
  shows "map_of (hdrs_of pkt') key = map_of (hdrs_of pkt) key"
proof -
  obtain hs where hs: "hdrs_of pkt' = hs @ hdrs_of pkt" "fst ` set hs \<inter> keys = {}" using assms(1) by (auto simp: arrives_def)
  then have "map_of hs key = None" using assms(2) by (auto simp: map_of_eq_None_iff)
  then show ?thesis using hs(1) by (simp add: map_add_def)
qed

lemma arrives_refl: "arrives keys pkt pkt"
  by (auto simp: arrives_def)

end
