(* ===== verification/Pubsub_Correct.thy ===== *)
theory Pubsub_Correct
  imports Pubsub Endpoint_Correct
begin

text \<open>
  \<^verbatim>\<open>src/pubsub.c\<close>: what a publisher publishes reaches a subscriber, as the same packet with the standard
  headers in front.
\<close>

lemma c_string_no_nul: "0 \<notin> set (c_string s)"
  by (auto simp: c_string_def dest: set_takeWhileD)

lemma strings_with_headers: "strings_ok pkt \<Longrightarrow> strings_ok (with_headers wall boot wseq wid tseq pkt)"
  using c_string_no_nul dec_nonzero
  by (auto simp: strings_ok_def with_headers_def hdrs_of_def A0_TIME_MONO_def A0_TIME_WALL_def str_def simp del: dec_numeral)

text \<open>A writer set up by one of the endpoints.\<close>

definition standard_to :: "a0_transport \<Rightarrow> u8 list \<Rightarrow> nat \<Rightarrow> a0_writer \<Rightarrow> bool" where
  "standard_to t wid data writer \<longleftrightarrow> arena_mode t = A0_ARENA_MODE_SHARED \<and>
     flat_chain writer = std_chain wid data @ [Write_action t]"

lemma standard_writer_init:
  assumes "idle A w ms st" "apart_from A (rb_head w # ms) data 8"
  shows "\<exists>writer s' w'. standard_writer n A0_ARENA_MODE_SHARED data urandom s w = (writer, s', w') \<and>
     standard_to (new_conn n A0_ARENA_MODE_SHARED) (fst (a0_uuidv4 urandom s)) data writer \<and>
     idle A w' ms st \<and> contents (mm w') st = contents (mm w) st \<and> ld64 (mm w') data = 0"
proof -
  obtain w1 where 1: "a0_transport_init n A0_ARENA_MODE_SHARED w = (new_conn n A0_ARENA_MODE_SHARED, w1)"
      "idle A w1 ms st" "contents (mm w1) st = contents (mm w) st" "grew w w1 (\<lambda>m. leaves A w m st)"
    using init_idle [OF assms(1)] by blast
  obtain std s' w2 where std: "a0_add_standard_headers data urandom s w1 = (std, s', w2)" by (rule prod_cases3)
  then have w2: "w2 = wr 8 data 0 w1"
    by (auto simp: a0_add_standard_headers_def a0_add_writer_seq_header_def split: prod.splits)
  have "apart_from A (rb_head w1 # ms) data 8" using assms(2) 1(4) by (simp add: grew_def)
  note o = idle_wr [OF 1(2) this, of 0]
  have "ld64 (mm w2) data = 0" by (simp add: w2 mem_simps)
  then show ?thesis
    using 1 std o w2 push_standard [OF std]
    by (simp add: standard_writer_def a0_writer_init_def a0_write_action_init_def standard_to_def)
qed

text \<open>A publisher, as \<^verbatim>\<open>a0_publisher_init\<close> makes it.\<close>

lemma publisher_standard:
  assumes "a0_publisher_init file_open getenv name data urandom rs wi = (Inr pub, rs', wi')"
    and "snd (pub_file pub) = A0_ARENA_MODE_SHARED"
  shows "\<exists>t. standard_to t (fst (a0_uuidv4 urandom rs)) data (pub_writer pub)"
proof -
  obtain n mode where f: "a0_pubsub_topic_open file_open getenv name = Inr (n, mode)"
    using assms(1) by (auto simp: a0_publisher_init_def split: sum.splits)
  obtain t w1 where t: "a0_transport_init n mode wi = (t, w1)" by fastforce
  obtain std s2 w2 where std: "a0_add_standard_headers data urandom rs w1 = (std, s2, w2)" by (rule prod_cases3)
  have pub: "pub = \<lparr>pub_file = (n, mode), pub_writer = a0_writer_push [Write_action t] std\<rparr>"
    using assms(1) f t std
    by (simp add: a0_publisher_init_def standard_writer_def a0_writer_init_def a0_write_action_init_def)
  moreover have "arena_mode t = mode" using t by (auto simp: a0_transport_init_def Let_def)
  ultimately show ?thesis using assms(2) push_standard [OF std] by (auto simp: standard_to_def)
qed

section \<open>Properties\<close>

text \<open>
  C20. Publish and subscribe. A subscriber that has read all there is waits for the next packet. What a
  publisher set up by \<^verbatim>\<open>a0_publisher_init\<close> publishes reaches it as the same packet with the standard
  headers in front: whatever had to be evicted for it, and whatever connection it was published on.
  The packet it gets lies in the memory that its allocator gave: it reads the same after any change of
  the memory elsewhere, the whole arena included. After that there is again nothing to read.
\<close>

theorem pubsub_delivery_spec:
  assumes "a0_publisher_init file_open getenv name data urandom rs wi = (Inr pub, rs', wi')"
    and "snd (pub_file pub) = A0_ARENA_MODE_SHARED" "wid = fst (a0_uuidv4 urandom rs)"
    and "idle A w ms st" "stampable A w ms st data wall boot"
    and "pkt' = with_headers wall boot (ld64 (mm w) data) wid (s_high st) pkt" "strings_ok pkt"
    and "packet_ok pkt'" "184 + length (flat pkt') \<le> A" "length (flat pkt') + A + 128 < 2 ^ 64"
    and "r = sync_zc (ss_reader sub)" "arena_mode (r_transport r) = A0_ARENA_MODE_SHARED"
    and "iter_on (stream_of (mm w) st) (r_transport r)" "steps_first r" "t_seq (r_transport r) = s_high st"
    and "gives (sync_alloc (ss_reader sub)) out (ref_bytes pkt')" "apart_from A (rb_head w # ms) out (ref_bytes pkt')"
  shows "\<exists>w1 ref sub2 w2 sub3 w3. a0_publisher_pub merge pub pkt w = Some (A0_OK, w1) \<and>
     a0_subscriber_sync_read sub w1 = Some (A0_OK, Some ref, sub2, w2) \<and>
     load_packet (mm w2) ref = Some (pkt'\<lparr>headers_block := [hdrs_of pkt']\<rparr>) \<and>
     (\<forall>S m'. only S (mm w2) m' \<and> S \<inter> {out..<out + ref_bytes pkt'} = {} \<longrightarrow>
        load_packet m' ref = Some (pkt'\<lparr>headers_block := [hdrs_of pkt']\<rparr>)) \<and>
     a0_subscriber_sync_read sub2 w2 = Some (A0_ERR_AGAIN, None, sub3, w3) \<and>
     fst (a0_subscriber_sync_can_read sub w) = False \<and> fst (a0_subscriber_sync_can_read sub w1) = True"
proof -
  note idle = assms(4) and adds = assms(6) and strings = assms(7) and r = assms(11) and shared = assms(12)
  obtain t where mode: "arena_mode t = A0_ARENA_MODE_SHARED" and ch: "flat_chain (pub_writer pub) = std_chain wid data @ [Write_action t]"
    using publisher_standard [OF assms(1,2)] assms(3) by (auto simp: standard_to_def)
  have st0: "strings_ok pkt'" using strings_with_headers [OF strings] by (simp add: adds)
  obtain w1 where 1: "a0_writer_write merge (pub_writer pub) pkt w = Some (A0_OK, w1)" "appends A w w1 ms st (flat pkt')"
    using standard_appends [OF idle mode assms(5) ch adds assms(8-10)] by blast
  have ok: "log_ok A st" using idle by (simp add: idle_def committed_def)
  obtain st' where st': "idle A w1 ms st'" "log_step\<^sup>*\<^sup>* (stream_of (mm w) st) (stream_of (mm w1) st')"
      "frames st' \<noteq> []" "last (contents (mm w1) st') = flat pkt'" "s_high st' = s_high st + 1"
    using appends_runs [OF 1(2) ok] by blast
  have rb: "rb_head w1 = rb_head w" using 1(2) by (auto simp: appends_def Let_def grew_def)
  have it: "iter_on (stream_of (mm w1) st') (r_transport r)" by (rule iter_on_runs [OF st'(2) assms(13)])
  have add: "s_high st' = t_seq (r_transport r) + 1" using st'(5) assms(15) by simp
  note rd = reads_added(1) [OF st'(1,3) assms(14) add] and no = reads_added(2) [OF st'(1,3) assms(14) add]
  have d: "contents (mm w1) st' ! (read_no r st' - s_low st') = flat pkt'"
    using newest_frame(1) [OF st'(1,3)] no st'(4) by simp
  obtain ref r2 w2 where 2: "a0_reader_sync_read (ss_reader sub) w1 = Some (A0_OK, Some ref, r2, w2)"
      "\<forall>S m'. only S (mm w2) m' \<and> S \<inter> {out..<out + ref_bytes pkt'} = {} \<longrightarrow>
         load_packet m' ref = Some (pkt'\<lparr>headers_block := [hdrs_of pkt']\<rparr>)"
      "idle A w2 ms st'" "t_seq (r_transport (sync_zc r2)) = s_high st'" "first_read_done (sync_zc r2)"
      "arena_mode (r_transport (sync_zc r2)) = A0_ARENA_MODE_SHARED" "iter_on (stream_of (mm w2) st') (r_transport (sync_zc r2))"
    using sync_alloc_read [OF st'(1), of "ss_reader sub" pkt' out] assms(8,16,17) r shared it rd d no st0 rb by auto
  have "\<not> readable (sync_zc r2) st'" using 2(4,5) by (simp add: readable_def steps_first_def)
  from sync_alloc_again [OF 2(3,6) this] obtain r3 w3 where 3: "a0_reader_sync_read r2 w2 = Some (A0_ERR_AGAIN, None, r3, w3)"
    by blast
  have "\<not> readable r st" using assms(14,15) by (simp add: readable_def)
  then have can: "fst (a0_reader_sync_zc_can_read r w) = False" "fst (a0_reader_sync_zc_can_read r w1) = True"
    using can_read [OF idle shared] can_read [OF st'(1) shared] rd by simp_all
  have read: "a0_subscriber_sync_read sub w1 = Some (A0_OK, Some ref, sub\<lparr>ss_reader := r2\<rparr>, w2)"
    "a0_subscriber_sync_read (sub\<lparr>ss_reader := r2\<rparr>) w2 = Some (A0_ERR_AGAIN, None, sub\<lparr>ss_reader := r3\<rparr>, w3)"
    using 2(1) 3 by (simp_all add: a0_subscriber_sync_read_def)
  show ?thesis
    using 1(1) read 2(2) kept_packet [OF 2(2)] can r
    unfolding a0_publisher_pub_def a0_subscriber_sync_can_read_def a0_reader_sync_can_read_def by blast
qed

text \<open>Every topic opens to an arena of 1000 bytes; the generator starts at 0.\<close>

definition example_open :: file_open where
  "example_open = (\<lambda>_. Inr (1000, A0_ARENA_MODE_SHARED))"

definition example_publisher :: "a0_err + a0_publisher" where
  "example_publisher = fst (a0_publisher_init example_open (\<lambda>_. None) (Some ''chat'') 2000 7
     \<lparr>a0_xsubi = 0, a0_xsubi_init = True\<rparr> quiet_world)"

definition example_subscriber :: a0_subscriber_sync where
  "example_subscriber = \<lparr>ss_file = (1000, A0_ARENA_MODE_SHARED),
     ss_reader = \<lparr>sync_zc = example_reader A0_INIT_AWAIT_NEW, sync_alloc = alloc_at 3000\<rparr>\<rparr>"

lemma standard_to_std: "arena_mode t = A0_ARENA_MODE_SHARED \<Longrightarrow> standard_to t wid data (std_chain wid data @ [Write_action t])"
  by (simp add: standard_to_def std_chain_def)

lemma ref_bytes_flat: "packet_ok pkt \<Longrightarrow> ref_bytes pkt \<le> length (flat pkt)"
  using length_flat by (simp add: packet_ok_def ref_bytes_def content_off_def)

lemma gives_stamped: "gives (alloc_at 3000) 3000 (ref_bytes (stamped example_packet))"
  "apart_from 1000 (rb_head arena # []) 3000 (ref_bytes (stamped example_packet))"
  using stamped_fits ref_bytes_flat [OF stamped_fits(1)]
  by (simp_all add: gives_def alloc_at_def apart_from_def arena_simps)

lemma example_topic: "case a0_topic_match_info (Some (a0_env_topic_tmpl_pubsub (\<lambda>_. None))) (Some ''chat'') of Inl _ \<Rightarrow> False | Inr _ \<Rightarrow> True"
  by code_simp

lemma example_publisher:
  "\<exists>pub rs' w'. a0_publisher_init example_open (\<lambda>_. None) (Some ''chat'') 2000 7 \<lparr>a0_xsubi = 0, a0_xsubi_init = True\<rparr>
       quiet_world = (Inr pub, rs', w') \<and> pub_file pub = (1000, A0_ARENA_MODE_SHARED) \<and> example_publisher = Inr pub"
proof -
  have "a0_pubsub_topic_open example_open (\<lambda>_. None) (Some ''chat'') = Inr (1000, A0_ARENA_MODE_SHARED)"
    using example_topic by (simp add: a0_pubsub_topic_open_def a0_topic_open_def example_open_def split: sum.splits)
  then show ?thesis
    by (simp add: a0_publisher_init_def example_publisher_def case_prod_beta Let_def)
qed

theorem pubsub_delivery_spec_witness:
  "\<exists>pub w1 ref sub2 w2. example_publisher = Inr pub \<and>
     a0_publisher_pub example_merge pub example_packet arena = Some (A0_OK, w1) \<and>
     a0_subscriber_sync_read example_subscriber w1 = Some (A0_OK, Some ref, sub2, w2) \<and>
     map_option pkt_payload (load_packet (mm w2) ref) = Some [7, 8, 9]"
proof -
  have pay: "pkt_payload (stamped example_packet) = [7, 8, 9]"
    unfolding stamped_def by (simp add: with_headers_simps) (simp add: example_packet_def)
  have r: "example_reader A0_INIT_AWAIT_NEW = sync_zc (ss_reader example_subscriber)"
    "sync_alloc (ss_reader example_subscriber) = alloc_at 3000"
    by (simp_all add: example_subscriber_def)
  obtain pub rs' w' where p: "a0_publisher_init example_open (\<lambda>_. None) (Some ''chat'') 2000 7
       \<lparr>a0_xsubi = 0, a0_xsubi_init = True\<rparr> quiet_world = (Inr pub, rs', w')"
      "pub_file pub = (1000, A0_ARENA_MODE_SHARED)" "example_publisher = Inr pub"
    using example_publisher by blast
  have shared: "snd (pub_file pub) = A0_ARENA_MODE_SHARED" by (simp add: p(2))
  from pubsub_delivery_spec [OF p(1) shared example_wid_def arena_idle arena_stampable(1) stamped_eq example_packet(2)
      stamped_fits _ r(1), of 3000 example_merge]
  show ?thesis
    using conn_follows gives_stamped stamped_fits(2) pay p(3)
    by (fastforce simp: r(2) example_reader_def steps_first_def conn_def)
qed

end
