(* ===== verification/Cfg_Correct.thy ===== *)
theory Cfg_Correct
  imports Cfg Pubsub_Correct
begin

text \<open>
  \<^verbatim>\<open>src/cfg.c\<close> as a register: reading gives what was written last, writing if empty writes only once, and a
  merge patch is applied to what was written last.
\<close>

section \<open>Reading\<close>

lemma cfg_read_newest:
  assumes i: "idle A w ms st" and cfg: "snd (cfg_file cfg) = A0_ARENA_MODE_SHARED"
    and new: "newest (mm w) st pkt" "strings_ok pkt"
    and alloc: "gives alloc out (ref_bytes pkt)" "apart_from A (rb_head w # ms) out (ref_bytes pkt)"
  shows "\<exists>ref w'. a0_cfg_read cfg alloc w = Some (A0_OK, Some ref, w') \<and>
    load_packet (mm w') ref = Some (pkt\<lparr>headers_block := [hdrs_of pkt]\<rparr>) \<and>
    idle A w' ms st \<and> contents (mm w') st = contents (mm w) st"
proof -
  have ne: "frames st \<noteq> []" and ok: "packet_ok pkt" and last: "last (contents (mm w) st) = flat pkt"
    using new(1) by (simp_all add: newest_def)
  obtain r w1 where 1: "a0_reader_sync_zc_init (fst (cfg_file cfg)) A0_ARENA_MODE_SHARED (most_recent A0_ITER_NEXT) w = (r, w1)"
      "idle A w1 ms st" "contents (mm w1) st = contents (mm w) st" "arena_mode (r_transport r) = A0_ARENA_MODE_SHARED"
      "iter_on (stream_of (mm w1) st) (r_transport r)" "readable r st" "read_no r st = s_high st" "grew w w1 (\<lambda>m. leaves A w m st)"
    using sync_zc_init [OF i, of "fst (cfg_file cfg)" "most_recent A0_ITER_NEXT"] ne by (auto simp: most_recent_def)
  have "rb_head w1 = rb_head w" using 1(8) by (simp add: grew_def)
  note alloc = alloc [folded this]
  let ?r = "\<lparr>sync_zc = r, sync_alloc = alloc\<rparr>"
  have "contents (mm w1) st ! (read_no r st - s_low st) = flat pkt"
    using newest_frame(1) [OF i ne, of "mm w"] last 1(3,7) by simp
  then obtain ref r2 w2 where "a0_reader_sync_read ?r w1 = Some (A0_OK, Some ref, r2, w2)"
      "\<forall>S m'. only S (mm w2) m' \<and> S \<inter> {out..<out + ref_bytes pkt} = {} \<longrightarrow>
         load_packet m' ref = Some (pkt\<lparr>headers_block := [hdrs_of pkt]\<rparr>)" "idle A w2 ms st"
      "contents (mm w2) st = contents (mm w1) st"
    using sync_alloc_read [OF 1(2), of ?r pkt out] 1(4-7) ok new(2) alloc by auto
  with kept_packet [OF this(2)] show ?thesis
    using 1(1,3) cfg by (simp add: a0_cfg_read_def a0_reader_sync_init_def)
qed

lemma cfg_read_none:
  assumes i: "idle A w ms st" and cfg: "snd (cfg_file cfg) = A0_ARENA_MODE_SHARED" and e: "frames st = []"
  shows "\<exists>w'. a0_cfg_read cfg alloc w = Some (A0_ERR_AGAIN, None, w') \<and> idle A w' ms st"
proof -
  obtain r w1 where 1: "a0_reader_sync_zc_init (fst (cfg_file cfg)) A0_ARENA_MODE_SHARED (most_recent A0_ITER_NEXT) w = (r, w1)"
      "idle A w1 ms st" "arena_mode (r_transport r) = A0_ARENA_MODE_SHARED" "\<not> readable r st"
    using sync_zc_init [OF i, of "fst (cfg_file cfg)" "most_recent A0_ITER_NEXT"] e by auto
  then show ?thesis
    using sync_alloc_again [OF 1(2), of "\<lparr>sync_zc = r, sync_alloc = alloc\<rparr>"] cfg
    by (auto simp: a0_cfg_read_def a0_reader_sync_init_def)
qed

section \<open>Writing\<close>

text \<open>The packet appended is the newest afterwards, for everyone who connects.\<close>

lemma appends_newest:
  assumes "appends A w w' ms st (flat pkt)" "idle A w ms st" "packet_ok pkt"
  shows "\<exists>st'. idle A w' ms st' \<and> newest (mm w') st' pkt \<and> s_high st' = s_high st + 1"
proof -
  have "log_ok A st" using assms(2) by (simp add: idle_def committed_def)
  from appends_runs [OF assms(1) this] assms(3) show ?thesis by (auto simp: newest_def)
qed

lemma appends_head: "appends A w w' ms st bs \<Longrightarrow> rb_head w' = rb_head w"
  by (auto simp: appends_def Let_def grew_def)

text \<open>A special write, up to what its middleware does under the lock.\<close>

lemma wrap_phases:
  assumes "idle A w ms st" "standard_to t wid data base" "stampable A w ms st data wall boot"
    and m: "simple m" "run_mw merge None [m] pkt w = Some (Inr (pkt, w))"
  shows "\<exists>w1. session A w1 ms st \<and> contents (mm w1) st = contents (mm w) st \<and> grew w w1 (\<lambda>m. leaves A w m st) \<and>
     now w1 = now w + 1 \<and> clock_gettime w1 = clock_gettime w \<and> rb_head w1 = rb_head w \<and>
     a0_writer_write merge (a0_writer_wrap base m) pkt w =
       (case run_mw merge (Some t) [m] (early_headers wall (ld64 (mm w) data) wid pkt) w1 of
          None \<Rightarrow> None
        | Some (Inl r) \<Rightarrow> Some r
        | Some (Inr (pkt, w2)) \<Rightarrow>
            (case run_mw merge (Some t) (std_chain wid data) pkt w2 of
               None \<Rightarrow> None
             | Some (Inl r) \<Rightarrow> Some r
             | Some (Inr (pkt, w3)) \<Rightarrow> a0_write_action_process_locked t pkt w3))"
proof -
  have mode: "arena_mode t = A0_ARENA_MODE_SHARED" and ch: "flat_chain base = std_chain wid data @ [Write_action t]"
    using assms(2) by (simp_all add: standard_to_def)
  have "flatten m = [m]" using m(1) by (cases m) (simp_all add: simple_def)
  then have c: "flat_chain (a0_writer_wrap base m) = [m] @ std_chain wid data @ [Write_action t]"
    using ch by (simp add: a0_writer_wrap_def)
  have "list_all simple [m]" using m(1) by simp
  from write_front_standard [OF assms(1) mode assms(3) c this m(2) refl] show ?thesis by blast
qed

text \<open>The flag is memory of the caller's; it is stored under the lock, and stays.\<close>

lemma set_flag_session:
  assumes s: "session A w ms st" and a: "\<forall>a. flag = Some a \<longrightarrow> apart_from A (rb_head w # ms) a 1"
  shows "session A (set_flag flag b w) ms st" "contents (mm (set_flag flag b w)) st = contents (mm w) st"
    "grew w (set_flag flag b w) (\<lambda>m. leaves A w m st)" "now (set_flag flag b w) = now w"
    "clock_gettime (set_flag flag b w) = clock_gettime w" "rb_head (set_flag flag b w) = rb_head w"
    "flag = Some x \<Longrightarrow> mm (set_flag flag b w) x = (if b then 1 else 0)"
proof -
  have t: "touches {x..<x + 1} w (wr 1 x v w)" for x v by (rule touches_wr) simp
  have "session A (set_flag flag b w) ms st \<and> contents (mm (set_flag flag b w)) st = contents (mm w) st"
  proof (cases flag)
    case None
    then show ?thesis using s by (simp add: set_flag_def)
  next
    case (Some x)
    then show ?thesis using session_outside [OF s t, of x] a by (simp add: set_flag_def)
  qed
  then show "session A (set_flag flag b w) ms st" "contents (mm (set_flag flag b w)) st = contents (mm w) st" by auto
  have "committed A (mm w) st" using s tinvD(1) by (auto simp: session_def)
  then show "grew w (set_flag flag b w) (\<lambda>m. leaves A w m st)"
    by (cases flag) (simp_all add: set_flag_def leaves_def grew_wr)
  show "now (set_flag flag b w) = now w" "clock_gettime (set_flag flag b w) = clock_gettime w"
    "rb_head (set_flag flag b w) = rb_head w"
    by (cases flag; simp add: set_flag_def)+
  show "mm (set_flag flag b w) x = (if b then 1 else 0)" if "flag = Some x"
    using that by (simp add: set_flag_def stb_def)
qed

section \<open>Properties\<close>

text \<open>
  C21. A configuration is a register. What \<^verbatim>\<open>a0_cfg_write\<close> wrote, with the standard headers, is what the next
  \<^verbatim>\<open>a0_cfg_read\<close> gives, here or through any other handle on the topic, as a packet in memory of the reader's. Before the
  first write, reading reports \<^verbatim>\<open>A0_ERR_AGAIN\<close>.
\<close>

theorem cfg_register_spec:
  assumes "idle A w ms st" "standard_to t wid data (cfg_writer cfg)" "stampable A w ms st data wall boot"
    and "pkt' = with_headers wall boot (ld64 (mm w) data) wid (s_high st) pkt" "strings_ok pkt"
    and "packet_ok pkt'" "184 + length (flat pkt') \<le> A" "length (flat pkt') + A + 128 < 2 ^ 64"
    and "gives alloc out (ref_bytes pkt')" "apart_from A (rb_head w # ms) out (ref_bytes pkt')"
    and "snd (cfg_file other) = A0_ARENA_MODE_SHARED"
  shows "\<exists>w1 ref w2. a0_cfg_write merge cfg pkt w = Some (A0_OK, w1) \<and>
     a0_cfg_read other alloc w1 = Some (A0_OK, Some ref, w2) \<and>
     load_packet (mm w2) ref = Some (pkt'\<lparr>headers_block := [hdrs_of pkt']\<rparr>) \<and> appends A w w1 ms st (flat pkt') \<and>
     (frames st = [] \<longrightarrow> (\<exists>w0. a0_cfg_read other alloc w = Some (A0_ERR_AGAIN, None, w0)))"
proof -
  have mode: "arena_mode t = A0_ARENA_MODE_SHARED" and ch: "flat_chain (cfg_writer cfg) = std_chain wid data @ [Write_action t]"
    using assms(2) by (simp_all add: standard_to_def)
  have str: "strings_ok pkt'" using strings_with_headers [OF assms(5)] by (simp add: assms(4))
  obtain w1 where 1: "a0_writer_write merge (cfg_writer cfg) pkt w = Some (A0_OK, w1)" "appends A w w1 ms st (flat pkt')"
    using standard_appends [OF assms(1) mode assms(3) ch assms(4,6-8)] by blast
  obtain st' where st': "idle A w1 ms st'" "newest (mm w1) st' pkt'"
    using appends_newest [OF 1(2) assms(1,6)] by blast
  have "apart_from A (rb_head w1 # ms) out (ref_bytes pkt')" using assms(10) appends_head [OF 1(2)] by simp
  from cfg_read_newest [OF st'(1) assms(11) st'(2) str assms(9) this]
  show ?thesis using 1 cfg_read_none [OF assms(1,11)] unfolding a0_cfg_write_def by blast
qed

theorem cfg_register_spec_witness:
  "\<exists>w1 ref w2. a0_cfg_write example_merge \<lparr>cfg_file = (1000, A0_ARENA_MODE_SHARED),
       cfg_writer = std_chain example_wid 2000 @ [Write_action conn]\<rparr> example_packet arena = Some (A0_OK, w1) \<and>
     a0_cfg_read \<lparr>cfg_file = (1000, A0_ARENA_MODE_SHARED), cfg_writer = []\<rparr> (alloc_at 3000) w1 = Some (A0_OK, Some ref, w2) \<and>
     map_option pkt_payload (load_packet (mm w2) ref) = Some [7, 8, 9]"
proof -
  let ?cfg = "\<lparr>cfg_file = (1000, A0_ARENA_MODE_SHARED), cfg_writer = std_chain example_wid 2000 @ [Write_action conn]\<rparr>"
  have p: "stamped example_packet = with_headers zero_time zero_time (ld64 (mm arena) 2000) example_wid (s_high empty_log)
      example_packet"
    by (simp add: stamped_def arena_stampable(2))
  have pay: "pkt_payload (stamped example_packet) = [7, 8, 9]"
    unfolding stamped_def by (simp add: with_headers_simps) (simp add: example_packet_def)
  have "standard_to conn example_wid 2000 (cfg_writer ?cfg)" using standard_to_std [OF conn_mode] by simp
  from cfg_register_spec [OF arena_idle this arena_stampable(1) stamped_eq example_packet(2) stamped_fits _ gives_stamped,
      of "\<lparr>cfg_file = (1000, A0_ARENA_MODE_SHARED), cfg_writer = []\<rparr>" example_merge]
  show ?thesis using stamped_fits(2) pay by fastforce
qed

text \<open>
  \<^verbatim>\<open>a0_cfg_write_if_empty\<close> writes to an empty topic only, and says so in the caller's flag. Otherwise it returns
  \<^verbatim>\<open>A0_OK\<close> with the log as it was and the transport unlocked. Test and write are one step under the
  lock: of several processes that write if empty, one writes.
\<close>

theorem cfg_write_if_empty_spec:
  assumes "idle A w ms st" "standard_to t wid data (cfg_writer cfg)" "stampable A w ms st data wall boot"
    and "pkt' = with_headers wall boot (ld64 (mm w) data) wid (s_high st) pkt"
    and "packet_ok pkt'" "184 + length (flat pkt') \<le> A" "length (flat pkt') + A + 128 < 2 ^ 64"
    and "\<forall>a. written = Some a \<longrightarrow> apart_from A (rb_head w # ms) a 1"
  shows "\<exists>w'. a0_cfg_write_if_empty merge cfg pkt written w = Some (A0_OK, w') \<and>
     (\<forall>a. written = Some a \<longrightarrow> mm w' a = (if frames st = [] then 1 else 0)) \<and>
     (if frames st = [] then appends A w w' ms st (flat pkt')
      else idle A w' ms st \<and> contents (mm w') st = contents (mm w) st \<and> grew w w' (\<lambda>m. leaves A w m st))"
proof -
  have mode: "arena_mode t = A0_ARENA_MODE_SHARED" using assms(2) by (simp add: standard_to_def)
  let ?pkt1 = "early_headers wall (ld64 (mm w) data) wid pkt"
  have "simple (Write_if_empty written)" by (simp add: simple_def)
  from wrap_phases [OF assms(1-3) this passes_unlocked(1)] obtain w1 where
    1: "session A w1 ms st" "contents (mm w1) st = contents (mm w) st" "grew w w1 (\<lambda>m. leaves A w m st)"
      "now w1 = now w + 1" "clock_gettime w1 = clock_gettime w" "rb_head w1 = rb_head w"
      "a0_writer_write merge (a0_writer_wrap (cfg_writer cfg) (Write_if_empty written)) pkt w =
         (case run_mw merge (Some t) [Write_if_empty written] ?pkt1 w1 of
            None \<Rightarrow> None
          | Some (Inl r) \<Rightarrow> Some r
          | Some (Inr (pkt, w2)) \<Rightarrow>
              (case run_mw merge (Some t) (std_chain wid data) pkt w2 of
                 None \<Rightarrow> None
               | Some (Inl r) \<Rightarrow> Some r
               | Some (Inr (pkt, w3)) \<Rightarrow> a0_write_action_process_locked t pkt w3))"
    by blast
  let ?b = "frames st = []"
  let ?w2 = "set_flag written ?b w1"
  have fl: "\<forall>a. written = Some a \<longrightarrow> apart_from A (rb_head w1 # ms) a 1" using assms(8) 1(6) by simp
  note f = set_flag_session [OF 1(1) fl, where b = ?b]
  have c2: "contents (mm ?w2) st = contents (mm w) st" using f(2) 1(2) by simp
  have "grew w1 ?w2 (\<lambda>m. leaves A w m st)" using f(3) by (rule grew_mono) (simp add: leaves_def 1(2))
  with 1(3) have g2: "grew w ?w2 (\<lambda>m. leaves A w m st)" by (rule grew_trans)
  have keep: "mm w' a = (if ?b then 1 else 0)" if "only (lock_area A ?w2 ms) (mm ?w2) (mm w')" "written = Some a" for w' a
  proof -
    have "a \<notin> lock_area A ?w2 ms" using assms(8) that(2) f(6) 1(6) by (fastforce simp: lock_area_def apart_from_def)
    then show ?thesis using that f(7) by (simp add: only_def)
  qed
  show ?thesis
  proof (cases ?b)
    case True
    have "now ?w2 = now w + 1" "clock_gettime ?w2 = clock_gettime w" using f(4,5) 1(4,5) by simp_all
    from finish_standard [OF f(1) c2 g2 this mode assms(3-7), of merge]
    obtain w3 w' where 3: "run_mw merge (Some t) (std_chain wid data) ?pkt1 ?w2 = Some (Inr (pkt', w3))"
        "a0_write_action_process_locked t pkt' w3 = Some (A0_OK, w')" "appends A w w' ms st (flat pkt')"
        "only (lock_area A ?w2 ms) (mm ?w2) (mm w')"
      by blast
    have "a0_cfg_write_if_empty merge cfg pkt written w = Some (A0_OK, w')"
      using 1(7) run_write_if_empty [OF 1(1)] 3(1,2) True by (simp add: a0_cfg_write_if_empty_def del: run_mw.simps)
    then show ?thesis using True 3(3) keep [OF 3(4)] by auto
  next
    case False
    let ?w' = "a0_transport_unlock t ?w2"
    have s: "tinv A ?w2 st st" "holds A ?w2 ms" "no_waiters ?w2" "has_header (mm ?w2)" using f(1) by (simp_all add: session_def)
    note u = unlock_session [OF s mode]
    have "grew ?w2 ?w' (\<lambda>m. leaves A w m st)" using u(3) by (rule grew_mono) (simp add: leaves_def c2)
    then have "grew w ?w' (\<lambda>m. leaves A w m st)" by (rule grew_trans [OF g2])
    moreover have "a0_cfg_write_if_empty merge cfg pkt written w = Some (A0_OK, ?w')"
      using 1(7) run_write_if_empty [OF 1(1)] False by (simp add: a0_cfg_write_if_empty_def del: run_mw.simps)
    ultimately show ?thesis using False u(1,2) c2 keep [OF unlock_only [OF mode s(1,2)]] by auto
  qed
qed

theorem cfg_write_if_empty_spec_witness:
  "\<exists>w'. a0_cfg_write_if_empty example_merge \<lparr>cfg_file = (1000, A0_ARENA_MODE_SHARED),
       cfg_writer = std_chain example_wid 2000 @ [Write_action conn]\<rparr> example_packet (Some 4000) arena = Some (A0_OK, w') \<and>
     mm w' 4000 = 1 \<and> appends 1000 arena w' [] empty_log (flat (stamped example_packet))"
proof -
  let ?cfg = "\<lparr>cfg_file = (1000, A0_ARENA_MODE_SHARED), cfg_writer = std_chain example_wid 2000 @ [Write_action conn]\<rparr>"
  have "standard_to conn example_wid 2000 (cfg_writer ?cfg)" using standard_to_std [OF conn_mode] by simp
  from cfg_write_if_empty_spec [OF arena_idle this arena_stampable(1) stamped_eq stamped_fits, of "Some 4000" example_merge]
  show ?thesis using stamped_fits(2) by (simp add: apart_from_def arena_simps)
qed

text \<open>
  C22. \<^verbatim>\<open>a0_cfg_mergepatch\<close> patches the newest configuration: the payload of the packet it appends is the patch
  applied to the payload of the newest packet, or the patch itself if there is none. If the patch cannot be
  applied it returns that error, with the log as it was and the transport unlocked.
\<close>

theorem cfg_mergepatch_spec:
  assumes "idle A w ms st" "standard_to t wid data (cfg_writer cfg)" "stampable A w ms st data wall boot"
    and "frames st = [] \<and> merged = Inr (pkt_payload pkt) \<or>
      newest (mm w) st old \<and> merged = merge (pkt_payload old) (pkt_payload pkt)"
    and "case merged of Inl _ \<Rightarrow> True | Inr p \<Rightarrow>
      pkt' = with_headers wall boot (ld64 (mm w) data) wid (s_high st) (pkt\<lparr>pkt_payload := p\<rparr>) \<and> packet_ok pkt' \<and>
      184 + length (flat pkt') \<le> A \<and> length (flat pkt') + A + 128 < 2 ^ 64"
  shows "\<exists>e w'. a0_cfg_mergepatch merge cfg pkt w = Some (e, w') \<and>
     (case merged of
        Inr _ \<Rightarrow> e = A0_OK \<and> appends A w w' ms st (flat pkt')
      | Inl msg \<Rightarrow> e = A0_ERR_CUSTOM_MSG msg \<and> idle A w' ms st \<and> contents (mm w') st = contents (mm w) st \<and>
          grew w w' (\<lambda>m. leaves A w m st))"
proof -
  have mode: "arena_mode t = A0_ARENA_MODE_SHARED" using assms(2) by (simp add: standard_to_def)
  let ?pkt1 = "early_headers wall (ld64 (mm w) data) wid pkt"
  have "simple Json_mergepatch" by (simp add: simple_def)
  from wrap_phases [OF assms(1-3) this passes_unlocked(2)] obtain w1 where
    1: "session A w1 ms st" "contents (mm w1) st = contents (mm w) st" "grew w w1 (\<lambda>m. leaves A w m st)"
      "now w1 = now w + 1" "clock_gettime w1 = clock_gettime w" "rb_head w1 = rb_head w"
      "a0_writer_write merge (a0_writer_wrap (cfg_writer cfg) Json_mergepatch) pkt w =
         (case run_mw merge (Some t) [Json_mergepatch] ?pkt1 w1 of
            None \<Rightarrow> None
          | Some (Inl r) \<Rightarrow> Some r
          | Some (Inr (pkt, w2)) \<Rightarrow>
              (case run_mw merge (Some t) (std_chain wid data) pkt w2 of
                 None \<Rightarrow> None
               | Some (Inl r) \<Rightarrow> Some r
               | Some (Inr (pkt, w3)) \<Rightarrow> a0_write_action_process_locked t pkt w3))"
    by blast
  have pay: "pkt_payload ?pkt1 = pkt_payload pkt" by (simp add: early_headers_def add_header_def)
  have upd: "?pkt1\<lparr>pkt_payload := p\<rparr> = early_headers wall (ld64 (mm w) data) wid (pkt\<lparr>pkt_payload := p\<rparr>)" for p
    by (simp add: early_headers_def add_header_def)
  have same: "pkt\<lparr>pkt_payload := pkt_payload pkt\<rparr> = pkt" by simp
  have run: "run_mw merge (Some t) [Json_mergepatch] ?pkt1 w1 =
      (case merged of Inl msg \<Rightarrow> Some (Inl (A0_ERR_CUSTOM_MSG msg, a0_transport_unlock t w1))
       | Inr p \<Rightarrow> Some (Inr (early_headers wall (ld64 (mm w) data) wid (pkt\<lparr>pkt_payload := p\<rparr>), w1)))"
    using assms(4) run_mergepatch [OF 1(1)] 1(2) pay upd same
    by (auto simp: newest_def simp del: run_mw.simps split: sum.splits)
  show ?thesis
  proof (cases merged)
    case (Inl msg)
    have s: "tinv A w1 st st" "holds A w1 ms" "no_waiters w1" "has_header (mm w1)" using 1(1) by (simp_all add: session_def)
    note u = unlock_session [OF s mode]
    have "grew w1 (a0_transport_unlock t w1) (\<lambda>m. leaves A w m st)"
      using u(3) by (rule grew_mono) (simp add: leaves_def 1(2))
    from grew_trans [OF 1(3) this] show ?thesis
      using 1(2,7) run Inl u(1,2) by (simp add: a0_cfg_mergepatch_def del: run_mw.simps)
  next
    case (Inr p)
    then have p: "pkt' = with_headers wall boot (ld64 (mm w) data) wid (s_high st) (pkt\<lparr>pkt_payload := p\<rparr>)" "packet_ok pkt'"
      "184 + length (flat pkt') \<le> A" "length (flat pkt') + A + 128 < 2 ^ 64"
      using assms(5) [unfolded Inr sum.case] by blast+
    from finish_standard [OF 1(1-5) mode assms(3) p, of merge] show ?thesis
      using 1(7) run Inr by (auto simp: a0_cfg_mergepatch_def simp del: run_mw.simps)
  qed
qed

theorem cfg_mergepatch_spec_witness:
  "\<exists>w'. a0_cfg_mergepatch example_merge \<lparr>cfg_file = (1000, A0_ARENA_MODE_SHARED),
       cfg_writer = std_chain example_wid 2000 @ [Write_action conn]\<rparr> example_packet arena = Some (A0_OK, w') \<and>
     appends 1000 arena w' [] empty_log (flat (stamped example_packet))"
proof -
  let ?cfg = "\<lparr>cfg_file = (1000, A0_ARENA_MODE_SHARED), cfg_writer = std_chain example_wid 2000 @ [Write_action conn]\<rparr>"
  have "standard_to conn example_wid 2000 (cfg_writer ?cfg)" using standard_to_std [OF conn_mode] by simp
  from cfg_mergepatch_spec [OF arena_idle this arena_stampable(1), of "Inr (pkt_payload example_packet)" example_packet
      example_packet example_merge "stamped example_packet"]
  show ?thesis using stamped_fits stamped_eq [of example_packet] by simp
qed

end
