(* ===== verification/Logger.thy ===== *)
theory Logger
  imports Endpoint
begin

text \<open>
  \<^verbatim>\<open>src/log.c\<close>: loggers write packets with a header that names their level; listeners pass on those
  of a level up to their own.
\<close>

section \<open>Levels\<close>

datatype a0_log_level =
    A0_LOG_LEVEL_CRIT
  | A0_LOG_LEVEL_ERR
  | A0_LOG_LEVEL_WARN
  | A0_LOG_LEVEL_INFO
  | A0_LOG_LEVEL_DBG
  | A0_LOG_LEVEL_UNKNOWN

primrec log_level_num :: "a0_log_level \<Rightarrow> nat" where
  "log_level_num A0_LOG_LEVEL_CRIT = 0"
| "log_level_num A0_LOG_LEVEL_ERR = 1"
| "log_level_num A0_LOG_LEVEL_WARN = 2"
| "log_level_num A0_LOG_LEVEL_INFO = 3"
| "log_level_num A0_LOG_LEVEL_DBG = 4"
| "log_level_num A0_LOG_LEVEL_UNKNOWN = 5"

instantiation a0_log_level :: linorder
begin

definition less_eq_a0_log_level :: "a0_log_level \<Rightarrow> a0_log_level \<Rightarrow> bool" where
  "less_eq_a0_log_level l l' \<longleftrightarrow> log_level_num l \<le> log_level_num l'"

definition less_a0_log_level :: "a0_log_level \<Rightarrow> a0_log_level \<Rightarrow> bool" where
  "less_a0_log_level l l' \<longleftrightarrow> log_level_num l < log_level_num l'"

instance
proof
  fix x y :: a0_log_level
  show "x \<le> y \<Longrightarrow> y \<le> x \<Longrightarrow> x = y"
    by (cases x; cases y; simp add: less_eq_a0_log_level_def)
qed (auto simp: less_eq_a0_log_level_def less_a0_log_level_def)

end

definition LOG_LEVEL :: "u8 list" where "LOG_LEVEL = str ''a0_log_level''"

fun a0_log_level_name :: "a0_log_level \<Rightarrow> u8 list" where
  "a0_log_level_name A0_LOG_LEVEL_CRIT = str ''CRIT''"
| "a0_log_level_name A0_LOG_LEVEL_ERR = str ''ERR''"
| "a0_log_level_name A0_LOG_LEVEL_WARN = str ''WARN''"
| "a0_log_level_name A0_LOG_LEVEL_INFO = str ''INFO''"
| "a0_log_level_name A0_LOG_LEVEL_DBG = str ''DBG''"
| "a0_log_level_name _ = str ''UNKNOWN''"

definition a0_log_level_from_name :: "u8 list \<Rightarrow> a0_log_level" where
  "a0_log_level_from_name name =
     (if strcmp name (str ''CRIT'') = 0 then A0_LOG_LEVEL_CRIT
      else if strcmp name (str ''ERR'') = 0 then A0_LOG_LEVEL_ERR
      else if strcmp name (str ''WARN'') = 0 then A0_LOG_LEVEL_WARN
      else if strcmp name (str ''INFO'') = 0 then A0_LOG_LEVEL_INFO
      else if strcmp name (str ''DBG'') = 0 then A0_LOG_LEVEL_DBG
      else A0_LOG_LEVEL_UNKNOWN)"

definition a0_log_topic_open :: "file_open \<Rightarrow> environ \<Rightarrow> string option \<Rightarrow> a0_err + a0_file" where
  "a0_log_topic_open file_open getenv name = a0_topic_open file_open (Some (a0_env_topic_tmpl_log getenv)) name"

section \<open>Logger\<close>

record a0_logger =
  log_file :: a0_file
  log_writer :: a0_writer

definition a0_logger_init ::
    "file_open \<Rightarrow> environ \<Rightarrow> string option \<Rightarrow> nat \<Rightarrow> nat \<Rightarrow> rand_state \<Rightarrow> world \<Rightarrow> (a0_err + a0_logger) \<times> rand_state \<times> world" where
  "a0_logger_init file_open getenv name data urandom s w =
     (case a0_log_topic_open file_open getenv name of
        Inl err \<Rightarrow> (Inl err, s, w)
      | Inr file \<Rightarrow>
          let (writer, s, w) = standard_writer (fst file) (snd file) data urandom s w
          in (Inr \<lparr>log_file = file, log_writer = writer\<rparr>, s, w))"

definition log_packet :: "a0_log_level \<Rightarrow> a0_packet \<Rightarrow> a0_packet" where
  "log_packet level pkt = with_block [(LOG_LEVEL, a0_log_level_name level)] pkt"

definition a0_logger_log :: "json_merge \<Rightarrow> a0_logger \<Rightarrow> a0_log_level \<Rightarrow> a0_packet \<Rightarrow> world \<Rightarrow> (a0_err \<times> world) option" where
  "a0_logger_log merge logger level pkt w = a0_writer_write merge (log_writer logger) (log_packet level pkt) w"

definition a0_logger_crit :: "json_merge \<Rightarrow> a0_logger \<Rightarrow> a0_packet \<Rightarrow> world \<Rightarrow> (a0_err \<times> world) option" where
  "a0_logger_crit merge logger pkt w = a0_logger_log merge logger A0_LOG_LEVEL_CRIT pkt w"

definition a0_logger_err :: "json_merge \<Rightarrow> a0_logger \<Rightarrow> a0_packet \<Rightarrow> world \<Rightarrow> (a0_err \<times> world) option" where
  "a0_logger_err merge logger pkt w = a0_logger_log merge logger A0_LOG_LEVEL_ERR pkt w"

definition a0_logger_warn :: "json_merge \<Rightarrow> a0_logger \<Rightarrow> a0_packet \<Rightarrow> world \<Rightarrow> (a0_err \<times> world) option" where
  "a0_logger_warn merge logger pkt w = a0_logger_log merge logger A0_LOG_LEVEL_WARN pkt w"

definition a0_logger_info :: "json_merge \<Rightarrow> a0_logger \<Rightarrow> a0_packet \<Rightarrow> world \<Rightarrow> (a0_err \<times> world) option" where
  "a0_logger_info merge logger pkt w = a0_logger_log merge logger A0_LOG_LEVEL_INFO pkt w"

definition a0_logger_dbg :: "json_merge \<Rightarrow> a0_logger \<Rightarrow> a0_packet \<Rightarrow> world \<Rightarrow> (a0_err \<times> world) option" where
  "a0_logger_dbg merge logger pkt w = a0_logger_log merge logger A0_LOG_LEVEL_DBG pkt w"

section \<open>Listener\<close>

record 'cb a0_log_listener =
  ll_file :: a0_file
  ll_reader :: a0_reader_zc
  ll_level :: a0_log_level
  ll_onmsg :: "'cb option"

text \<open>The calls that a packet from the reader's thread leads to.\<close>

definition a0_log_listener_callback :: "'cb a0_log_listener \<Rightarrow> a0_packet \<Rightarrow> ('cb \<times> a0_packet) list option" where
  "a0_log_listener_callback log_list pkt =
     Option.bind (find_header LOG_LEVEL pkt) (\<lambda>lvl_hdr.
       case lvl_hdr of
         Inl _ \<Rightarrow> Some []
       | Inr lvl_hdr \<Rightarrow>
           let level = a0_log_level_from_name lvl_hdr
           in if level \<le> ll_level log_list then Some (a0_packet_callback_call (ll_onmsg log_list) pkt) else Some [])"

definition a0_log_listener_init ::
    "file_open \<Rightarrow> environ \<Rightarrow> string option \<Rightarrow> a0_log_level \<Rightarrow> a0_reader_options \<Rightarrow> 'cb option \<Rightarrow> nat \<Rightarrow> world
      \<Rightarrow> (a0_err + 'cb a0_log_listener) \<times> world" where
  "a0_log_listener_init file_open getenv name level opts onmsg event w =
     (case a0_log_topic_open file_open getenv name of
        Inl err \<Rightarrow> (Inl err, w)
      | Inr file \<Rightarrow>
          let (reader, w) = a0_reader_zc_init (fst file) (snd file) opts event w
          in (Inr \<lparr>ll_file = file, ll_reader = reader, ll_level = level, ll_onmsg = onmsg\<rparr>, w))"

definition a0_log_listener_close ::
    "nat \<Rightarrow> others \<Rightarrow> 'cb a0_log_listener \<Rightarrow> world \<Rightarrow> (a0_err \<times> 'cb a0_log_listener \<times> world) option" where
  "a0_log_listener_close pthread_self others log_list w =
     map_option (\<lambda>(_, reader, w). (A0_OK, log_list\<lparr>ll_reader := reader\<rparr>, w))
       (a0_reader_zc_close pthread_self others (ll_reader log_list) w)"

end
