(* ===== verification/Logger_Correct.thy ===== *)
theory Logger_Correct
  imports Logger Pubsub_Correct
begin

text \<open>
  \<^verbatim>\<open>src/log.c\<close>: a message reaches the listeners of its level and of every more talkative one, and no other.
\<close>

lemma level_roundtrip: "a0_log_level_from_name (a0_log_level_name l) = l"
  by (cases l) (simp_all add: a0_log_level_from_name_def str_def)

lemma listener_callback_eq:
  "a0_log_listener_callback ll pkt = Some (case map_of (hdrs_of pkt) LOG_LEVEL of
       None \<Rightarrow> []
     | Some name \<Rightarrow> if a0_log_level_from_name name \<le> ll_level ll then a0_packet_callback_call (ll_onmsg ll) pkt else [])"
  by (simp add: a0_log_listener_callback_def find_header_eq split: option.split)

text \<open>The standard headers are in front of the packet's own, and none is the level.\<close>

lemma arrives_stamped:
  assumes "keys \<inter> {str ''a0_transport_seq'', A0_TIME_MONO, str ''a0_writer_seq'', str ''a0_writer_id'', A0_TIME_WALL} = {}"
  shows "arrives keys pkt ((with_headers wall boot wseq wid tseq pkt)
     \<lparr>headers_block := [hdrs_of (with_headers wall boot wseq wid tseq pkt)]\<rparr>)"
  using assms by (auto simp: arrives_def with_headers_def hdrs_of_def simp del: dec_numeral)

lemma level_key: "{LOG_LEVEL} \<inter> {str ''a0_transport_seq'', A0_TIME_MONO, str ''a0_writer_seq'', str ''a0_writer_id'', A0_TIME_WALL} = {}"
  by (simp add: LOG_LEVEL_def A0_TIME_MONO_def A0_TIME_WALL_def str_def)

text \<open>
  Logging at a level appends the packet with the standard headers and the name of the level. A listener that
  reads it calls its callback, once, if its own level is the same or a more talkative one
  (\<open>CRIT < ERR < WARN < INFO < DBG < UNKNOWN\<close>), whatever level the packet itself may claim further back in
  its headers. Packets without a level are for nobody.
\<close>

theorem log_listener_spec:
  assumes "idle A w ms st" "standard_to t wid data (log_writer logger)" "stampable A w ms st data wall boot"
    and "pkt' = with_headers wall boot (ld64 (mm w) data) wid (s_high st) (log_packet level pkt)"
    and "packet_ok pkt'" "184 + length (flat pkt') \<le> A" "length (flat pkt') + A + 128 < 2 ^ 64"
    and "got = pkt'\<lparr>headers_block := [hdrs_of pkt']\<rparr>"
  shows "\<exists>w'. a0_logger_log merge logger level pkt w = Some (A0_OK, w') \<and> appends A w w' ms st (flat pkt') \<and>
     a0_log_listener_callback ll got =
       Some (if level \<le> ll_level ll then a0_packet_callback_call (ll_onmsg ll) got else []) \<and>
     (LOG_LEVEL \<notin> fst ` set (hdrs_of other) \<longrightarrow> a0_log_listener_callback ll other = Some [])"
proof -
  have mode: "arena_mode t = A0_ARENA_MODE_SHARED" and ch: "flat_chain (log_writer logger) = std_chain wid data @ [Write_action t]"
    using assms(2) by (simp_all add: standard_to_def)
  obtain w' where w': "a0_writer_write merge (log_writer logger) (log_packet level pkt) w = Some (A0_OK, w')"
      "appends A w w' ms st (flat pkt')"
    using standard_appends [OF assms(1) mode assms(3) ch assms(4-7)] by blast
  have "arrives {LOG_LEVEL} (log_packet level pkt) got"
    unfolding assms(8,4) by (rule arrives_stamped [OF level_key])
  from arrives_header [OF this, of LOG_LEVEL] have "map_of (hdrs_of got) LOG_LEVEL = Some (a0_log_level_name level)"
    by (simp add: log_packet_def)
  then have "a0_log_listener_callback ll got =
       Some (if level \<le> ll_level ll then a0_packet_callback_call (ll_onmsg ll) got else [])"
    by (simp add: listener_callback_eq level_roundtrip)
  moreover have "a0_log_listener_callback ll other = Some []" if "LOG_LEVEL \<notin> fst ` set (hdrs_of other)"
    using that by (simp add: listener_callback_eq map_of_eq_None_iff [THEN iffD2])
  ultimately show ?thesis using w' unfolding a0_logger_log_def by blast
qed

definition example_logger :: a0_logger where
  "example_logger = \<lparr>log_file = (1000, A0_ARENA_MODE_SHARED), log_writer = std_chain example_wid 2000 @ [Write_action conn]\<rparr>"

definition example_listener :: "nat a0_log_listener" where
  "example_listener = \<lparr>ll_file = (1000, A0_ARENA_MODE_SHARED), ll_reader = example_thread, ll_level = A0_LOG_LEVEL_ERR,
     ll_onmsg = Some 5\<rparr>"

text \<open>A warning is logged, and not shown to a listener for errors.\<close>

theorem log_listener_spec_witness:
  "\<exists>w'. a0_logger_log example_merge example_logger A0_LOG_LEVEL_WARN example_packet arena = Some (A0_OK, w') \<and>
     (\<exists>got. pkt_id got = pkt_id example_packet \<and> a0_log_listener_callback example_listener got = Some [])"
proof -
  let ?pkt = "log_packet A0_LOG_LEVEL_WARN example_packet"
  have id: "length (pkt_id ?pkt) = 37" "pkt_id ?pkt = pkt_id example_packet" by (simp_all add: log_packet_def example_packet_def)
  have "hdrs_of ?pkt = (LOG_LEVEL, str ''WARN'') # hdrs_of example_packet" "pkt_payload ?pkt = [7, 8, 9]"
    by (simp_all add: log_packet_def) (simp add: example_packet_def)
  then have len: "length (flat ?pkt) = 130"
    unfolding length_flat [OF id(1)] by (simp add: content_off_def example_packet(3) LOG_LEVEL_def str_def)
  then have "packet_ok ?pkt" using id(1) by (simp add: packet_ok_def)
  then have fits: "packet_ok (stamped ?pkt)" "184 + length (flat (stamped ?pkt)) \<le> 1000" using stamped_small [of ?pkt] len by simp_all
  have "standard_to conn example_wid 2000 (log_writer example_logger)"
    using standard_to_std [OF conn_mode] by (simp add: example_logger_def)
  from log_listener_spec [OF arena_idle this arena_stampable(1) stamped_eq fits _ refl, of example_merge example_listener example_packet]
  obtain w' where "a0_logger_log example_merge example_logger A0_LOG_LEVEL_WARN example_packet arena = Some (A0_OK, w')"
      "a0_log_listener_callback example_listener ((stamped ?pkt)\<lparr>headers_block := [hdrs_of (stamped ?pkt)]\<rparr>) = Some []"
    using fits(2) by (auto simp: example_listener_def less_eq_a0_log_level_def)
  moreover have "pkt_id ((stamped ?pkt)\<lparr>headers_block := [hdrs_of (stamped ?pkt)]\<rparr>) = pkt_id example_packet"
    by (simp add: stamped_def with_headers_simps id(2))
  ultimately show ?thesis by blast
qed

end
