(* ===== verification/Wildcard.thy ===== *)
theory Wildcard
  imports Prelude
begin

text \<open>
  Patterns with wildcards: what it means that a pattern matches, and the argument that a greedy search,
  which only ever goes back to the wildcard it has seen last, decides it. The locale leaves open
  what the elements of patterns and words are; \<^verbatim>\<open>src/pathglob.c\<close> searches twice, through the
  parts of a path and through the characters of a part.
\<close>

locale wildcard =
  fixes star :: "'p \<Rightarrow> bool" and fits :: "'p \<Rightarrow> 'c \<Rightarrow> bool"
begin

fun wild :: "'p list \<Rightarrow> 'c list \<Rightarrow> bool" where
  "wild [] r = (r = [])"
| "wild (p # g) [] = (star p \<and> wild g [])"
| "wild (p # g) (c # r) = (if star p then wild g (c # r) \<or> wild (p # g) r else fits p c \<and> wild g r)"

lemma wild_Nil: "wild g [] \<longleftrightarrow> list_all star g"
  by (induction g) auto

lemma wild_star: "star p \<Longrightarrow> wild (p # g) r \<longleftrightarrow> (\<exists>k \<le> length r. wild g (drop k r))"
proof (induction r)
  case (Cons c r)
  have "(\<exists>k \<le> length (c # r). wild g (drop k (c # r))) \<longleftrightarrow> wild g (c # r) \<or> (\<exists>k \<le> length r. wild g (drop k r))"
    by (metis Suc_le_mono drop0 drop_Suc_Cons length_Cons not0_implies_Suc zero_le)
  then show ?case using Cons by simp
qed simp

lemma wild_trailing: "star p \<Longrightarrow> wild [p] r"
  by (induction r) auto

lemma wild_later: "star p \<Longrightarrow> wild (p # g) (drop k r) \<Longrightarrow> wild (p # g) r"
proof (induction k arbitrary: r)
  case (Suc k)
  then show ?case by (cases r) auto
qed simp

lemma wild_literal: "list_all (\<lambda>p. \<not> star p) lit \<Longrightarrow> wild (lit @ g) r \<Longrightarrow> wild g (drop (length lit) r)"
  by (induction lit arbitrary: r) (auto, case_tac r, auto)

text \<open>
  A search at the pattern \<open>g\<close> and the word \<open>r\<close>; \<open>saved\<close> is what followed the last wildcard, and the
  word it is being tried at. It still has a chance if \<open>g\<close> matches, or the saved pattern does further on.
\<close>

type_synonym ('a, 'b) saved = "('a list \<times> 'b list) option"

definition chance :: "'p list \<Rightarrow> 'c list \<Rightarrow> ('p, 'c) saved \<Rightarrow> bool" where
  "chance g r saved \<longleftrightarrow> wild g r \<or>
     (\<exists>sg sr k. saved = Some (sg, sr) \<and> 1 \<le> k \<and> k \<le> length sr \<and> wild sg (drop k sr))"

definition tried :: "'p list \<Rightarrow> 'c list \<Rightarrow> ('p, 'c) saved \<Rightarrow> bool" where
  "tried g r saved \<longleftrightarrow> (\<forall>sg sr. saved = Some (sg, sr) \<longrightarrow>
     (\<exists>lit cs. sg = lit @ g \<and> sr = cs @ r \<and> length cs = length lit \<and> list_all (\<lambda>p. \<not> star p) lit))"

lemma chance_start: "chance g r None \<longleftrightarrow> wild g r" and tried_start: "tried g r None"
  by (simp_all add: chance_def tried_def)

text \<open>A new wildcard supersedes the saved one.\<close>

lemma chance_star:
  assumes p: "star p" and t: "tried (p # g) r saved"
  shows "chance (p # g) r saved \<longleftrightarrow> chance g r (Some (g, r))"
proof -
  have "wild (p # g) r" if s: "saved = Some (sg, sr)" "wild sg (drop k sr)" for sg sr k
  proof -
    obtain lit cs where l: "sg = lit @ p # g" "sr = cs @ r" "length cs = length lit" "list_all (\<lambda>p. \<not> star p) lit"
      using t s(1) unfolding tried_def by blast
    then have "wild (p # g) (drop (length lit) (drop k sr))" using wild_literal s(2) by blast
    moreover have "drop (length lit) (drop k sr) = drop k (drop (length cs) sr)" using l(3) by (simp add: add.commute)
    then have "drop (length lit) (drop k sr) = drop k r" using l(2) by simp
    ultimately show ?thesis using wild_later [OF p] by simp
  qed
  then have "chance (p # g) r saved \<longleftrightarrow> wild (p # g) r" by (auto simp: chance_def)
  also have "\<dots> \<longleftrightarrow> chance g r (Some (g, r))"
    unfolding wild_star [OF p] chance_def by (auto intro: exI [of _ 0]) (metis Suc_leI drop0 neq0_conv One_nat_def)
  finally show ?thesis .
qed

lemma tried_star: "tried g r (Some (g, r))"
  by (auto simp: tried_def)

lemma tried_match: "\<not> star p \<Longrightarrow> tried (p # g) (c # r) saved \<Longrightarrow> tried g r saved"
proof -
  assume p: "\<not> star p" and t: "tried (p # g) (c # r) saved"
  show "tried g r saved"
    unfolding tried_def
  proof (intro allI impI)
    fix sg sr assume "saved = Some (sg, sr)"
    then obtain lit cs where l: "sg = lit @ p # g" "sr = cs @ c # r" "length cs = length lit" "list_all (\<lambda>p. \<not> star p) lit"
      using t unfolding tried_def by blast
    then show "\<exists>lit cs. sg = lit @ g \<and> sr = cs @ r \<and> length cs = length lit \<and> list_all (\<lambda>p. \<not> star p) lit"
      using p by (intro exI [of _ "lit @ [p]"] exI [of _ "cs @ [c]"]) auto
  qed
qed

lemma chance_match:
  assumes "\<not> star p" "fits p c" "tried (p # g) (c # r) saved"
  shows "chance (p # g) (c # r) saved \<longleftrightarrow> chance g r saved"
  using assms(1,2) by (simp add: chance_def)

text \<open>After a mismatch, only the saved wildcard can help.\<close>

lemma chance_mismatch:
  assumes "g = [] \<or> \<not> star (hd g) \<and> \<not> fits (hd g) c"
  shows "chance g (c # r) None \<longleftrightarrow> False"
    "chance g (c # r) (Some (sg, x # sr)) \<longleftrightarrow> chance sg sr (Some (sg, sr))"
proof -
  have no: "\<not> wild g (c # r)" using assms by (cases g) auto
  then show "chance g (c # r) None \<longleftrightarrow> False" by (simp add: chance_def)
  have "(\<exists>k. 1 \<le> k \<and> k \<le> length (x # sr) \<and> wild sg (drop k (x # sr))) \<longleftrightarrow>
      wild sg sr \<or> (\<exists>k. 1 \<le> k \<and> k \<le> length sr \<and> wild sg (drop k sr))"
  proof
    assume "\<exists>k. 1 \<le> k \<and> k \<le> length (x # sr) \<and> wild sg (drop k (x # sr))"
    then obtain k where k: "k \<le> length sr" "wild sg (drop k sr)"
      by (metis One_nat_def Suc_le_D Suc_le_mono drop_Suc_Cons length_Cons)
    then show "wild sg sr \<or> (\<exists>k. 1 \<le> k \<and> k \<le> length sr \<and> wild sg (drop k sr))"
      by (cases k) auto
  next
    assume "wild sg sr \<or> (\<exists>k. 1 \<le> k \<and> k \<le> length sr \<and> wild sg (drop k sr))"
    then obtain k where "k \<le> length sr" "wild sg (drop k sr)" by (metis drop0 zero_le)
    then show "\<exists>k. 1 \<le> k \<and> k \<le> length (x # sr) \<and> wild sg (drop k (x # sr))"
      by (intro exI [of _ "Suc k"]) simp
  qed
  then show "chance g (c # r) (Some (sg, x # sr)) \<longleftrightarrow> chance sg sr (Some (sg, sr))"
    using no by (simp add: chance_def)
qed

lemma chance_done: "chance g [] saved \<longleftrightarrow> list_all star g" if "tried g [] saved"
proof -
  have "list_all star g" if s: "saved = Some (sg, sr)" "wild sg (drop k sr)" "1 \<le> k" "k \<le> length sr" for sg sr k
  proof -
    obtain lit where l: "sg = lit @ g" "length sr = length lit" "list_all (\<lambda>p. \<not> star p) lit"
      using \<open>tried g [] saved\<close> s(1) unfolding tried_def by auto
    then have "wild g (drop (length lit) (drop k sr))" using wild_literal s(2) by blast
    then show ?thesis using l(2) by (simp add: wild_Nil)
  qed
  then show ?thesis by (auto simp: chance_def wild_Nil)
qed

end

end
