(* ===== verification/Pathglob.thy ===== *)
theory Pathglob
  imports Wildcard Topic
begin

text \<open>
  \<^verbatim>\<open>src/pathglob.c\<close>: matching paths against patterns with \<^verbatim>\<open>*\<close>, for any characters of one part, and \<^verbatim>\<open>**\<close>, for
  any parts. The parts of a path are kept as in the source, as places in the string. \<open>None\<close> is undefined
  behaviour: a path of more than 32 parts is written beyond the array.
\<close>

section \<open>Parsing\<close>

datatype a0_pathglob_part_type =
    A0_PATHGLOB_PART_TYPE_VERBATIM
  | A0_PATHGLOB_PART_TYPE_PATTERN
  | A0_PATHGLOB_PART_TYPE_RECURSIVE

definition A0_PATHGLOB_MAX_DEPTH :: nat where "A0_PATHGLOB_MAX_DEPTH = 32"

text \<open>The string of a part: where it begins in the path, and its size.\<close>

record a0_pathglob_part =
  part_data :: nat
  part_size :: nat
  part_type :: a0_pathglob_part_type

record a0_pathglob =
  glob_path :: string
  glob_parts :: "a0_pathglob_part list"

text \<open>Reading a byte of a C string.\<close>

definition byte_at :: "string \<Rightarrow> nat \<Rightarrow> char" where
  "byte_at s i = (if i < length s then s ! i else CHR 0x00)"

definition add_part :: "a0_pathglob_part list \<Rightarrow> nat \<Rightarrow> nat \<Rightarrow> a0_pathglob_part_type \<Rightarrow> a0_pathglob_part list option" where
  "add_part parts recent_slash iter type =
     (if length parts \<ge> A0_PATHGLOB_MAX_DEPTH then None
      else Some (parts @ [\<lparr>part_data = recent_slash + 1, part_size = iter - recent_slash - 1, part_type = type\<rparr>]))"

function init_loop ::
    "string \<Rightarrow> nat \<Rightarrow> nat \<Rightarrow> bool \<Rightarrow> a0_pathglob_part list \<Rightarrow> a0_pathglob_part list option" where
  "init_loop path iter recent_slash has_star parts =
     (if iter < length path then
        if path ! iter = CHR ''*'' then init_loop path (iter + 1) recent_slash True parts
        else if path ! iter = CHR ''/'' then
          let type =
            (if has_star then
               if iter = recent_slash + 3 \<and> take 3 (drop recent_slash path) = ''/**''
               then A0_PATHGLOB_PART_TYPE_RECURSIVE
               else A0_PATHGLOB_PART_TYPE_PATTERN
             else A0_PATHGLOB_PART_TYPE_VERBATIM)
          in Option.bind (add_part parts recent_slash iter type) (init_loop path (iter + 1) iter has_star)
        else init_loop path (iter + 1) recent_slash has_star parts
      else
        let type = (if has_star then A0_PATHGLOB_PART_TYPE_PATTERN else A0_PATHGLOB_PART_TYPE_VERBATIM)
        in add_part parts recent_slash iter type)"
  by pat_completeness auto
termination
  by (relation "measure (\<lambda>(path, iter, _). length path - iter)") auto

declare init_loop.simps [simp del]

definition a0_pathglob_init :: "environ \<Rightarrow> string option \<Rightarrow> (a0_err + a0_pathglob) option" where
  "a0_pathglob_init getenv path_pattern =
     (if path_pattern = None then Some (Inl A0_ERR_BAD_PATH)
      else
        (case a0_abspath getenv path_pattern of
           Inl err \<Rightarrow> Some (Inl err)
         | Inr path \<Rightarrow>
             map_option (\<lambda>parts. Inr \<lparr>glob_path = path, glob_parts = parts\<rparr>) (init_loop path 1 0 False [])))"

section \<open>Matching a part\<close>

text \<open>
  \<open>gs\<close> and \<open>rs\<close> are the strings that the pointers point into; \<open>star_g\<close> and \<open>star_r\<close> are NULL at first.
\<close>

partial_function (option) pattern_match_loop ::
    "string \<Rightarrow> nat \<Rightarrow> string \<Rightarrow> nat \<Rightarrow> nat option \<Rightarrow> nat \<Rightarrow> nat \<Rightarrow> nat \<Rightarrow> bool option" where
  [code]: "pattern_match_loop gs glob_end rs real_end star_g star_r glob real =
     (if real \<noteq> real_end then
        if byte_at gs glob = CHR ''*'' then
          if glob + 1 = glob_end then Some True
          else pattern_match_loop gs glob_end rs real_end (Some (glob + 1)) real (glob + 1) real
        else if byte_at rs real = byte_at gs glob then
          pattern_match_loop gs glob_end rs real_end star_g star_r (glob + 1) (real + 1)
        else
          (case star_g of
             None \<Rightarrow> Some False
           | Some g \<Rightarrow> pattern_match_loop gs glob_end rs real_end star_g (star_r + 1) g (star_r + 1))
      else
        let rest = length (takeWhile (\<lambda>c. c = CHR ''*'') (drop glob gs))
        in Some (glob + rest = glob_end))"

definition a0_pathglob_pattern_match :: "string \<Rightarrow> a0_pathglob_part \<Rightarrow> string \<Rightarrow> a0_pathglob_part \<Rightarrow> bool option" where
  "a0_pathglob_pattern_match gs part rs buf =
     pattern_match_loop gs (part_data part + part_size part) rs (part_data buf + part_size buf)
       None 0 (part_data part) (part_data buf)"

definition part_str :: "string \<Rightarrow> a0_pathglob_part \<Rightarrow> string" where
  "part_str s part = take (part_size part) (drop (part_data part) s)"

definition a0_pathglob_part_match :: "string \<Rightarrow> a0_pathglob_part \<Rightarrow> string \<Rightarrow> a0_pathglob_part \<Rightarrow> bool option" where
  "a0_pathglob_part_match gs globpart rs buf =
     (case part_type globpart of
        A0_PATHGLOB_PART_TYPE_VERBATIM \<Rightarrow>
          Some (part_size globpart = part_size buf \<and> part_str gs globpart = part_str rs buf)
      | A0_PATHGLOB_PART_TYPE_PATTERN \<Rightarrow> a0_pathglob_pattern_match gs globpart rs buf
      | A0_PATHGLOB_PART_TYPE_RECURSIVE \<Rightarrow> Some True)"

section \<open>Matching a path\<close>

text \<open>\<open>star_g = 0\<close> means that there was no star.\<close>

partial_function (option) pathglob_match_loop ::
    "a0_pathglob \<Rightarrow> a0_pathglob \<Rightarrow> nat \<Rightarrow> nat \<Rightarrow> nat \<Rightarrow> nat \<Rightarrow> bool option" where
  [code]: "pathglob_match_loop glob path star_g star_r glob_idx real_idx =
     (let recursive = (\<lambda>i. part_type (glob_parts glob ! i) = A0_PATHGLOB_PART_TYPE_RECURSIVE);
          depth = length (glob_parts glob);
          real_depth = length (glob_parts path)
      in if real_idx < real_depth then
           if glob_idx < depth \<and> recursive glob_idx then
             if glob_idx + 1 = depth \<and> real_idx + 1 \<noteq> real_depth then Some True
             else pathglob_match_loop glob path (glob_idx + 1) real_idx (glob_idx + 1) real_idx
           else
             Option.bind
               (if glob_idx < depth \<and> (real_idx + 1 \<noteq> real_depth \<or> \<not> recursive glob_idx)
                then a0_pathglob_part_match (glob_path glob) (glob_parts glob ! glob_idx) (glob_path path) (glob_parts path ! real_idx)
                else Some False)
               (\<lambda>segment_match.
                 if segment_match then pathglob_match_loop glob path star_g star_r (glob_idx + 1) (real_idx + 1)
                 else if star_g = 0 then Some False
                 else pathglob_match_loop glob path star_g (star_r + 1) star_g (star_r + 1))
         else Some (list_all (\<lambda>p. part_type p = A0_PATHGLOB_PART_TYPE_RECURSIVE) (drop glob_idx (glob_parts glob))))"

definition a0_pathglob_match :: "environ \<Rightarrow> a0_pathglob \<Rightarrow> string option \<Rightarrow> (a0_err + bool) option" where
  "a0_pathglob_match getenv glob path =
     Option.bind (a0_pathglob_init getenv path) (\<lambda>real.
       (case real of
          Inl err \<Rightarrow> Some (Inl err)
        | Inr real \<Rightarrow> map_option Inr (pathglob_match_loop glob real 0 0 0 0)))"

end
