(* ===== verification/Pathglob_Correct.thy ===== *)
theory Pathglob_Correct
  imports Pathglob
begin

text \<open>
  \<^verbatim>\<open>src/pathglob.c\<close> against the meaning of its patterns: the parser splits paths at the slashes, and the two
  searches with one saved wildcard each decide what the locale \<open>wildcard\<close> says matching is.
\<close>

section \<open>What a pattern means\<close>

interpretation chars: wildcard "\<lambda>p. p = CHR ''*''" "\<lambda>p c :: char. p = c" .

text \<open>The names of a path, between the slashes.\<close>

fun split_path :: "string \<Rightarrow> string list" where
  "split_path [] = [[]]"
| "split_path (c # cs) =
     (if c = CHR ''/'' then [] # split_path cs else (c # hd (split_path cs)) # tl (split_path cs))"

definition names :: "string \<Rightarrow> string list" where
  "names path = split_path (tl path)"

datatype elem = Any_dirs | Name string

fun elems :: "string list \<Rightarrow> elem list" where
  "elems [] = []"
| "elems [n] = [Name n]"
| "elems (n # m # ns) = (if n = ''**'' then Any_dirs else Name n) # elems (m # ns)"

fun name_fits :: "elem \<Rightarrow> string \<Rightarrow> bool" where
  "name_fits Any_dirs n = True"
| "name_fits (Name p) n = chars.wild p n"

interpretation dirs: wildcard "\<lambda>p. p = Any_dirs" name_fits .

text \<open>
  Name by name, \<^verbatim>\<open>*\<close> stands for any characters; \<^verbatim>\<open>**\<close>, except at the end of the pattern, for any number of
  names.
\<close>

definition path_matches :: "string \<Rightarrow> string \<Rightarrow> bool" where
  "path_matches pattern path = dirs.wild (elems (names pattern)) (names path)"

lemma split_path_nonempty [simp]: "split_path s \<noteq> []"
  by (induction s) auto

lemma length_elems [simp]: "length (elems ns) = length ns"
  by (induction ns rule: elems.induct) auto

lemma split_path_append:
  "CHR ''/'' \<notin> set w \<Longrightarrow> split_path (w @ t) = (w @ hd (split_path t)) # tl (split_path t)"
  by (induction w) (auto simp del: hd_append2)

lemma split_path_slash: "CHR ''/'' \<notin> set w \<Longrightarrow> split_path (w @ CHR ''/'' # t) = w # split_path t"
  by (simp add: split_path_append)

lemma split_path_last: "CHR ''/'' \<notin> set w \<Longrightarrow> split_path w = [w]"
  using split_path_append [of w "[]"] by simp

lemma wild_verbatim: "CHR ''*'' \<notin> set p \<Longrightarrow> chars.wild p n \<longleftrightarrow> p = n"
proof (induction p arbitrary: n)
  case (Cons c p)
  then show ?case by (cases n) auto
qed auto

section \<open>Parsing\<close>

text \<open>A part of the path \<open>s\<close>: it ends at a slash or at the end.\<close>

definition good_part :: "string \<Rightarrow> a0_pathglob_part \<Rightarrow> bool" where
  "good_part s p \<longleftrightarrow> part_data p + part_size p \<le> length s \<and> CHR ''/'' \<notin> set (part_str s p) \<and>
     (part_data p + part_size p < length s \<longrightarrow> s ! (part_data p + part_size p) = CHR ''/'')"

definition stands_for :: "string \<Rightarrow> a0_pathglob_part \<Rightarrow> elem \<Rightarrow> bool" where
  "stands_for s p e \<longleftrightarrow> good_part s p \<and>
     (case e of
        Any_dirs \<Rightarrow> part_type p = A0_PATHGLOB_PART_TYPE_RECURSIVE
      | Name n \<Rightarrow> part_str s p = n \<and> (part_type p = A0_PATHGLOB_PART_TYPE_PATTERN \<or>
          part_type p = A0_PATHGLOB_PART_TYPE_VERBATIM \<and> CHR ''*'' \<notin> set n))"

definition seg :: "'a list \<Rightarrow> nat \<Rightarrow> nat \<Rightarrow> 'a list" where
  "seg s i j = take (j - i) (drop i s)"

lemma seg_refl [simp]: "seg s i i = []"
  by (simp add: seg_def)

lemma length_seg: "i \<le> j \<Longrightarrow> j \<le> length s \<Longrightarrow> length (seg s i j) = j - i"
  by (simp add: seg_def)

lemma seg_Cons:
  assumes "i < j" "j \<le> length s"
  shows "seg s i j = s ! i # seg s (Suc i) j"
proof -
  have "j - i = Suc (j - Suc i)" "drop i s = s ! i # drop (Suc i) s"
    using assms by (simp_all add: Cons_nth_drop_Suc)
  then show ?thesis by (simp add: seg_def)
qed

lemma seg_snoc:
  assumes "i \<le> j" "j < length s"
  shows "seg s i (Suc j) = seg s i j @ [s ! j]"
proof -
  have "Suc j - i = Suc (j - i)" "j - i < length (drop i s)" using assms by simp_all
  then show ?thesis using assms by (simp add: seg_def take_Suc_conv_app_nth)
qed

lemma drop_seg: "i \<le> j \<Longrightarrow> drop i s = seg s i j @ drop j s"
  using append_take_drop_id [of "j - i" "drop i s"] by (simp add: seg_def)

lemma part_str_seg: "part_str s p = seg s (part_data p) (part_data p + part_size p)"
  by (simp add: part_str_def seg_def)

lemma elems_Cons: "ns \<noteq> [] \<Longrightarrow> elems (n # ns) = (if n = ''**'' then Any_dirs else Name n) # elems ns"
  by (cases ns) auto

lemma init_loop_spec:
  assumes "recent < iter" "iter \<le> length s" "s ! recent = CHR ''/''"
    and "CHR ''/'' \<notin> set (seg s (Suc recent) iter)" "hs \<or> CHR ''*'' \<notin> set (seg s (Suc recent) iter)"
  shows "let ns = split_path (drop (Suc recent) s) in
     if length ps + length ns \<le> A0_PATHGLOB_MAX_DEPTH
     then \<exists>qs. init_loop s iter recent hs ps = Some (ps @ qs) \<and>
       list_all2 (stands_for s) qs (elems ns) \<and> map (part_str s) qs = ns
     else init_loop s iter recent hs ps = None"
  using assms
proof (induction s iter recent hs ps rule: init_loop.induct)
  case (1 s iter recent hs ps)
  let ?w = "seg s (Suc recent) iter" and ?ns = "split_path (drop (Suc recent) s)"
  have d: "drop (Suc recent) s = ?w @ drop iter s" by (rule drop_seg) (use "1.prems"(1) in simp)
  let ?part = "\<lambda>type. \<lparr>part_data = Suc recent, part_size = iter - Suc recent, part_type = type\<rparr>"
  have str: "part_str s (?part type) = ?w" for type using "1.prems"(1) by (simp add: part_str_seg)
  have good: "good_part s (?part type)" if "iter = length s \<or> s ! iter = CHR ''/''" for type
    using that "1.prems" str by (auto simp: good_part_def)
  show ?case
  proof (cases "iter < length s")
    case False
    then have ns: "?ns = [?w]" using d split_path_last [OF "1.prems"(4)] by simp
    let ?type = "if hs then A0_PATHGLOB_PART_TYPE_PATTERN else A0_PATHGLOB_PART_TYPE_VERBATIM"
    have "stands_for s (?part ?type) (Name ?w)"
      using good [of ?type] "1.prems"(2,5) False str [of ?type] by (auto simp: stands_for_def)
    moreover have "init_loop s iter recent hs ps = add_part ps recent iter ?type"
      using False by (subst init_loop.simps) simp
    ultimately show ?thesis using str [of ?type] unfolding ns by (auto simp: add_part_def)
  next
    case True
    have more: "seg s (Suc recent) (Suc iter) = ?w @ [s ! iter]" using seg_snoc [of "Suc recent" iter s] True "1.prems"(1) by simp
    consider "s ! iter = CHR ''*''" | "s ! iter = CHR ''/''" | "s ! iter \<noteq> CHR ''*''" "s ! iter \<noteq> CHR ''/''" by blast
    then show ?thesis
    proof cases
      case 1
      have eq: "init_loop s iter recent hs ps = init_loop s (Suc iter) recent True ps"
        using True 1 by (subst init_loop.simps) simp
      show ?thesis unfolding eq
        by (rule "1.IH"(1) [OF True 1, unfolded Suc_eq_plus1 [symmetric]]) (use True 1 "1.prems" more in simp_all)
    next
      case 3
      have eq: "init_loop s iter recent hs ps = init_loop s (Suc iter) recent hs ps"
        using True 3 by (subst init_loop.simps) simp
      show ?thesis unfolding eq
        by (rule "1.IH"(3) [OF True 3, unfolded Suc_eq_plus1 [symmetric]]) (use True 3 "1.prems" more in simp_all)
    next
      case 2
      let ?type = "if hs then if iter = recent + 3 \<and> take 3 (drop recent s) = ''/**''
          then A0_PATHGLOB_PART_TYPE_RECURSIVE else A0_PATHGLOB_PART_TYPE_PATTERN else A0_PATHGLOB_PART_TYPE_VERBATIM"
      let ?rest = "split_path (drop (Suc iter) s)"
      have ns: "?ns = ?w # ?rest"
        using d split_path_slash [OF "1.prems"(4)] True 2 by (simp flip: Cons_nth_drop_Suc)
      have "iter = recent + 3 \<and> take 3 (drop recent s) = ''/**'' \<longleftrightarrow> ?w = ''**''"
      proof
        assume "iter = recent + 3 \<and> take 3 (drop recent s) = ''/**''"
        then show "?w = ''**''" using "1.prems"(1-3) True
          by (simp add: seg_def Cons_nth_drop_Suc [symmetric] numeral_3_eq_3 numeral_2_eq_2)
      next
        assume w: "?w = ''**''"
        then have "iter = recent + 3" using length_seg [of "Suc recent" iter s] "1.prems"(1,2) by simp
        then show "iter = recent + 3 \<and> take 3 (drop recent s) = ''/**''" using w "1.prems"(1-3) True
          by (simp add: seg_def Cons_nth_drop_Suc [symmetric] numeral_3_eq_3 numeral_2_eq_2)
      qed
      then have part: "stands_for s (?part ?type) (if ?w = ''**'' then Any_dirs else Name ?w)"
        using good [of ?type] 2 str [of ?type] "1.prems"(5) by (auto simp: stands_for_def)
      have eq: "init_loop s iter recent hs ps =
          Option.bind (add_part ps recent iter ?type) (init_loop s (Suc iter) iter hs)"
        using True 2 by (subst init_loop.simps) simp
      show ?thesis
      proof (cases "length ps < A0_PATHGLOB_MAX_DEPTH")
        case False
        then show ?thesis unfolding ns eq by (simp add: add_part_def Let_def)
      next
        case small: True
        let ?ps = "ps @ [?part ?type]"
        have add: "add_part ps recent iter ?type = Some ?ps" using small by (simp add: add_part_def)
        have prems: "iter < Suc iter" "Suc iter \<le> length s" "s ! iter = CHR ''/''"
          "CHR ''/'' \<notin> set (seg s (Suc iter) (Suc iter))" "hs \<or> CHR ''*'' \<notin> set (seg s (Suc iter) (Suc iter))"
          using True 2 by simp_all
        have IH: "let ns = ?rest in
           if length ?ps + length ns \<le> A0_PATHGLOB_MAX_DEPTH
           then \<exists>qs. init_loop s (Suc iter) iter hs ?ps = Some (?ps @ qs) \<and>
             list_all2 (stands_for s) qs (elems ns) \<and> map (part_str s) qs = ns
           else init_loop s (Suc iter) iter hs ?ps = None"
          using "1.IH"(2) [OF True _ 2 refl, unfolded Suc_eq_plus1 [symmetric], OF _ add prems] 2 by simp
        show ?thesis
        proof (cases "length ?ps + length ?rest \<le> A0_PATHGLOB_MAX_DEPTH")
          case True
          then obtain qs where "init_loop s (Suc iter) iter hs ?ps = Some (?ps @ qs)"
              "list_all2 (stands_for s) qs (elems ?rest)" "map (part_str s) qs = ?rest"
            using IH unfolding Let_def by auto
          then have "init_loop s iter recent hs ps = Some (ps @ ?part ?type # qs)"
              "list_all2 (stands_for s) (?part ?type # qs) (elems ?ns)" "map (part_str s) (?part ?type # qs) = ?ns"
            using eq add part str [of ?type] by (simp_all add: ns elems_Cons)
          moreover have "length ps + length ?ns \<le> A0_PATHGLOB_MAX_DEPTH" using True ns by simp
          ultimately show ?thesis unfolding Let_def by (simp only: if_True) blast
        next
          case False
          then show ?thesis using IH unfolding Let_def ns eq add by auto
        qed
      qed
    qed
  qed
qed

section \<open>The two searches\<close>

abbreviation search_order :: "((nat \<times> nat \<times> nat) \<times> (nat \<times> nat \<times> nat)) set" where
  "search_order \<equiv> less_than <*lex*> less_than <*lex*> less_than"

lemma wf_search: "wf search_order"
  by (intro wf_lex_prod wf_less_than)

text \<open>After the word, the rest of the pattern may only be stars.\<close>

lemma stars_left:
  assumes "glob \<le> E" "E \<le> length gs" "byte_at gs E \<noteq> CHR ''*''"
  shows "glob + length (takeWhile (\<lambda>c. c = CHR ''*'') (drop glob gs)) = E \<longleftrightarrow>
    list_all (\<lambda>p. p = CHR ''*'') (seg gs glob E)"
proof (cases "list_all (\<lambda>p. p = CHR ''*'') (seg gs glob E)")
  case True
  have "takeWhile (\<lambda>c. c = CHR ''*'') (drop E gs) = []"
    using assms(2,3) by (cases "E < length gs") (auto simp: byte_at_def simp flip: Cons_nth_drop_Suc)
  then have "takeWhile (\<lambda>c. c = CHR ''*'') (drop glob gs) = seg gs glob E"
    using True unfolding drop_seg [OF assms(1)] by (subst takeWhile_append2) (auto simp: list_all_iff)
  then show ?thesis using True assms(1,2) by (simp add: length_seg)
next
  case False
  then have w: "takeWhile (\<lambda>c. c = CHR ''*'') (drop glob gs) = takeWhile (\<lambda>c. c = CHR ''*'') (seg gs glob E)"
    unfolding drop_seg [OF assms(1), of gs] by (auto simp: list_all_iff takeWhile_append1)
  have "dropWhile (\<lambda>c. c = CHR ''*'') (seg gs glob E) \<noteq> []"
    using False by (simp add: list_all_iff dropWhile_eq_Nil_conv)
  then have "0 < length (dropWhile (\<lambda>c. c = CHR ''*'') (seg gs glob E))" by (rule length_greater_0_conv [THEN iffD2])
  then have "length (takeWhile (\<lambda>c. c = CHR ''*'') (seg gs glob E)) < length (seg gs glob E)"
    using arg_cong [OF takeWhile_dropWhile_id [of "\<lambda>c. c = CHR ''*''" "seg gs glob E"], of length]
    unfolding length_append by linarith
  then show ?thesis using False w assms(1,2) by (simp add: length_seg)
qed

lemma pattern_match_loop_spec:
  assumes "E \<le> length gs" "F \<le> length rs" "byte_at gs E \<noteq> CHR ''*''" "byte_at gs E \<notin> set (seg rs b F)"
    and "glob \<le> E" "b \<le> real" "real \<le> F" "\<forall>g. star_g = Some g \<longrightarrow> g \<le> glob \<and> b \<le> star_r \<and> star_r \<le> real"
    and "saved = map_option (\<lambda>g. (seg gs g E, seg rs star_r F)) star_g"
    and "chars.tried (seg gs glob E) (seg rs real F) saved"
  shows "pattern_match_loop gs E rs F star_g star_r glob real = Some (chars.chance (seg gs glob E) (seg rs real F) saved)"
  using assms(5-)
proof (induction "(case star_g of None \<Rightarrow> F + 1 | Some _ \<Rightarrow> F - star_r, case star_g of None \<Rightarrow> 0 | Some g \<Rightarrow> E - g, F - real)"
    arbitrary: star_g star_r glob real saved rule: wf_induct_rule [OF wf_search])
  case (1 star_g star_r real glob saved)
  note step = pattern_match_loop.simps [of gs E rs F star_g star_r glob real]
  have nth: "byte_at gs glob = gs ! glob" if "glob < E" using that assms(1) by (simp add: byte_at_def)
  show ?case
  proof (cases "real = F")
    case True
    have "chars.tried (seg gs glob E) [] saved" using "1.prems"(6) True by simp
    from chars.chance_done [OF this] show ?thesis
      using stars_left [OF "1.prems"(1) assms(1,3)] unfolding True
      by (subst pattern_match_loop.simps) simp
  next
    case False
    then have r: "seg rs real F = rs ! real # seg rs (Suc real) F" and rb: "byte_at rs real = rs ! real"
      using "1.prems"(3) assms(2) seg_Cons [of real F rs] by (simp_all add: byte_at_def)
    consider (star) "glob < E" "gs ! glob = CHR ''*''" | (match) "glob < E" "gs ! glob \<noteq> CHR ''*''" "rs ! real = gs ! glob"
      | (mismatch) "byte_at gs glob \<noteq> CHR ''*''" "byte_at rs real \<noteq> byte_at gs glob"
          "glob < E \<longrightarrow> gs ! glob \<noteq> CHR ''*'' \<and> gs ! glob \<noteq> rs ! real"
    proof (cases "glob < E")
      case True
      then show ?thesis using that nth rb by force
    next
      case False
      then have "glob = E" using "1.prems"(1) by simp
      moreover have "rs ! real \<in> set (seg rs b F)"
        using "1.prems"(2,3) \<open>real \<noteq> F\<close> assms(2) by (auto simp: seg_def in_set_conv_nth intro!: exI [of _ "real - b"])
      ultimately show ?thesis using that(3) assms(3,4) rb by (metis less_irrefl)
    qed
    then show ?thesis
    proof cases
      case star
      have g: "seg gs glob E = CHR ''*'' # seg gs (Suc glob) E" using seg_Cons [of glob E gs] star assms(1) by simp
      have chance: "chars.chance (seg gs glob E) (seg rs real F) saved \<longleftrightarrow>
          chars.chance (seg gs (Suc glob) E) (seg rs real F) (Some (seg gs (Suc glob) E, seg rs real F))"
        using chars.chance_star [of "CHR ''*''"] "1.prems"(6) g by simp
      show ?thesis
      proof (cases "glob + 1 = E")
        case True
        then have "chars.wild (seg gs glob E) (seg rs real F)" using g chars.wild_trailing by simp
        then show ?thesis using star False True nth by (simp add: step chars.chance_def)
      next
        case last: False
        have "pattern_match_loop gs E rs F (Some (Suc glob)) real (Suc glob) real =
            Some (chars.chance (seg gs (Suc glob) E) (seg rs real F) (Some (seg gs (Suc glob) E, seg rs real F)))"
          by (rule "1.hyps") (use star(1) "1.prems"(1-4) False in \<open>auto simp: chars.tried_star split: option.split\<close>)
        then show ?thesis using chance star False last nth by (simp add: step)
      qed
    next
      case match
      have g: "seg gs glob E = gs ! glob # seg gs (Suc glob) E" using seg_Cons [of glob E gs] match assms(1) by simp
      have t: "chars.tried (seg gs (Suc glob) E) (seg rs (Suc real) F) saved"
        by (rule chars.tried_match [OF match(2) "1.prems"(6) [unfolded g r]])
      have "pattern_match_loop gs E rs F star_g star_r (Suc glob) (Suc real) =
          Some (chars.chance (seg gs (Suc glob) E) (seg rs (Suc real) F) saved)"
        by (rule "1.hyps" [OF _ _ _ _ _ "1.prems"(5) t])
          (use match(1) "1.prems"(1-4) False in \<open>auto split: option.split\<close>)
      moreover have "chars.chance (seg gs glob E) (seg rs real F) saved \<longleftrightarrow>
          chars.chance (seg gs (Suc glob) E) (seg rs (Suc real) F) saved"
        unfolding g r by (rule chars.chance_match [OF match(2) match(3) [symmetric] "1.prems"(6) [unfolded g r]])
      ultimately show ?thesis using match False nth rb by (simp add: step)
    next
      case mismatch
      have no: "seg gs glob E = [] \<or> hd (seg gs glob E) \<noteq> CHR ''*'' \<and> hd (seg gs glob E) \<noteq> rs ! real"
        using mismatch(3) seg_Cons [of glob E gs] assms(1) "1.prems"(1) by (cases "glob < E") auto
      show ?thesis
      proof (cases star_g)
        case None
        then show ?thesis
          using mismatch(1,2) False chars.chance_mismatch(1) [OF no] "1.prems"(5) r
          by (simp add: step [unfolded None])
      next
        case (Some g)
        then have le: "g \<le> glob" "b \<le> star_r" "star_r \<le> real" using "1.prems"(4) by auto
        have sr: "seg rs star_r F = rs ! star_r # seg rs (Suc star_r) F"
          using seg_Cons [of star_r F rs] le(3) False "1.prems"(3) assms(2) by simp
        have "pattern_match_loop gs E rs F (Some g) (Suc star_r) g (Suc star_r) =
            Some (chars.chance (seg gs g E) (seg rs (Suc star_r) F) (Some (seg gs g E, seg rs (Suc star_r) F)))"
          by (rule "1.hyps") (use Some le "1.prems"(1-3) False in \<open>auto simp: chars.tried_star\<close>)
        then show ?thesis
          using mismatch(1,2) False chars.chance_mismatch(2) [OF no] "1.prems"(5) r sr Some
          by (simp add: step [unfolded Some])
      qed
    qed
  qed
qed

lemma pattern_match_spec:
  assumes g: "good_part gs p" and r: "good_part rs q" "CHR 0x00 \<notin> set rs"
  shows "a0_pathglob_pattern_match gs p rs q = Some (chars.wild (part_str gs p) (part_str rs q))"
proof -
  let ?E = "part_data p + part_size p"
  have b: "byte_at gs ?E = CHR ''/'' \<or> byte_at gs ?E = CHR 0x00"
    using g by (auto simp: good_part_def byte_at_def)
  have "set (part_str rs q) \<subseteq> set rs" by (auto simp: part_str_def dest: in_set_takeD in_set_dropD)
  then have "byte_at gs ?E \<notin> set (part_str rs q)" using b r by (auto simp: good_part_def)
  then show ?thesis
    using pattern_match_loop_spec [of ?E gs "part_data q + part_size q" rs "part_data q" "part_data p" "part_data q" None 0 None]
      g r b by (auto simp: a0_pathglob_pattern_match_def part_str_seg good_part_def chars.chance_start chars.tried_start)
qed

lemma part_match_spec:
  assumes e: "stands_for gs p (Name n)" and r: "good_part rs q" "CHR 0x00 \<notin> set rs"
  shows "a0_pathglob_part_match gs p rs q = Some (name_fits (Name n) (part_str rs q))"
proof -
  have p: "good_part gs p" "part_str gs p = n" using e by (auto simp: stands_for_def)
  have "length (part_str gs p) = part_size p" "length (part_str rs q) = part_size q"
    using p(1) r(1) by (auto simp: good_part_def part_str_def)
  then have "part_size p = part_size q \<and> n = part_str rs q \<longleftrightarrow> n = part_str rs q" using p(2) by auto
  then show ?thesis
    using e p pattern_match_spec [OF p(1) r] by (auto simp: a0_pathglob_part_match_def stands_for_def wild_verbatim)
qed

text \<open>A parsed path: the elements and the names of its parts.\<close>

definition parsed :: "string \<Rightarrow> a0_pathglob \<Rightarrow> bool" where
  "parsed s glob \<longleftrightarrow> glob_path glob = s \<and> list_all2 (stands_for s) (glob_parts glob) (elems (names s)) \<and>
     map (part_str s) (glob_parts glob) = names s"

lemma init_spec:
  assumes "a0_abspath getenv (Some pattern) = Inr s"
  shows "if length (names s) \<le> A0_PATHGLOB_MAX_DEPTH
    then \<exists>glob. a0_pathglob_init getenv (Some pattern) = Some (Inr glob) \<and> parsed s glob
    else a0_pathglob_init getenv (Some pattern) = None"
proof -
  obtain t where s: "s = CHR ''/'' # t" using abspath_absolute [OF assms] by blast
  have "let ns = names s in
     if length ns \<le> A0_PATHGLOB_MAX_DEPTH
     then \<exists>qs. init_loop s 1 0 False [] = Some qs \<and> list_all2 (stands_for s) qs (elems ns) \<and> map (part_str s) qs = ns
     else init_loop s 1 0 False [] = None"
    using init_loop_spec [of 0 1 s False "[]"] by (simp add: s names_def Let_def cong: if_cong)
  then show ?thesis using assms by (auto simp: Let_def a0_pathglob_init_def parsed_def split: if_splits)
qed

lemma parsed_good: "parsed s glob \<Longrightarrow> p \<in> set (glob_parts glob) \<Longrightarrow> good_part s p"
  by (auto simp: parsed_def stands_for_def list_all2_conv_all_nth in_set_conv_nth)

lemma pathglob_match_loop_spec:
  assumes g: "parsed gs glob" and r: "parsed rs path" "CHR 0x00 \<notin> set rs"
    and "gi \<le> length (names gs)" "ri \<le> length (names rs)" "star_g \<noteq> 0 \<longrightarrow> star_g \<le> gi \<and> star_r \<le> ri"
    and "saved = (if star_g = 0 then None else Some (drop star_g (elems (names gs)), drop star_r (names rs)))"
    and "dirs.tried (drop gi (elems (names gs))) (drop ri (names rs)) saved"
  shows "pathglob_match_loop glob path star_g star_r gi ri =
    Some (dirs.chance (drop gi (elems (names gs))) (drop ri (names rs)) saved)"
  using assms(4-)
proof (induction "(if star_g = 0 then length (names rs) + 1 else length (names rs) - star_r,
      if star_g = 0 then 0 else length (names gs) - star_g, length (names rs) - ri)"
    arbitrary: star_g star_r gi ri saved rule: wf_induct_rule [OF wf_search])
  case (1 star_g star_r ri gi saved)
  let ?es = "elems (names gs)" and ?ns = "names rs"
  have len: "length (glob_parts glob) = length ?es" "length (glob_parts path) = length ?ns"
    using g r(1) by (auto simp: parsed_def list_all2_lengthD dest: arg_cong [of _ _ length])
  have rec: "part_type (glob_parts glob ! i) = A0_PATHGLOB_PART_TYPE_RECURSIVE \<longleftrightarrow> ?es ! i = Any_dirs" if "i < length ?es" for i
    using g that len(1) by (cases "?es ! i") (auto simp: parsed_def list_all2_conv_all_nth stands_for_def)
  note step = pathglob_match_loop.simps [of glob path star_g star_r gi ri]
  show ?case
  proof (cases "ri < length ?ns")
    case False
    then have ri: "drop ri ?ns = []" by simp
    have "list_all (\<lambda>p. part_type p = A0_PATHGLOB_PART_TYPE_RECURSIVE) (drop gi (glob_parts glob)) \<longleftrightarrow>
        list_all (\<lambda>p. p = Any_dirs) (drop gi ?es)"
      using rec len(1) by (auto simp: list_all_length)
    moreover have "dirs.tried (drop gi ?es) [] saved" using "1.prems"(5) ri by simp
    ultimately show ?thesis
      using dirs.chance_done False len by (simp add: step)
  next
    case True
    then have r': "drop ri ?ns = ?ns ! ri # drop (Suc ri) ?ns" by (simp add: Cons_nth_drop_Suc)
    show ?thesis
    proof (cases "gi < length ?es \<and> ?es ! gi = Any_dirs")
      case star: True
      then have g': "drop gi ?es = Any_dirs # drop (Suc gi) ?es" by (metis Cons_nth_drop_Suc)
      have chance: "dirs.chance (drop gi ?es) (drop ri ?ns) saved \<longleftrightarrow>
          dirs.chance (drop (Suc gi) ?es) (drop ri ?ns) (Some (drop (Suc gi) ?es, drop ri ?ns))"
        unfolding g' by (rule dirs.chance_star [OF refl "1.prems"(5) [unfolded g']])
      show ?thesis
      proof (cases "gi + 1 = length ?es \<and> ri + 1 \<noteq> length ?ns")
        case last: True
        then have "dirs.wild (drop gi ?es) (drop ri ?ns)" using g' dirs.wild_trailing by simp
        then show ?thesis using star last True rec len by (simp add: step dirs.chance_def)
      next
        case False
        have "pathglob_match_loop glob path (Suc gi) ri (Suc gi) ri =
            Some (dirs.chance (drop (Suc gi) ?es) (drop ri ?ns) (Some (drop (Suc gi) ?es, drop ri ?ns)))"
          by (rule "1.hyps") (use star "1.prems"(1-3) True in \<open>auto simp: dirs.tried_star\<close>)
        then show ?thesis using chance star False True rec len by (auto simp: step)
      qed
    next
      case other: False
      let ?match = "gi < length ?es \<and> name_fits (?es ! gi) (?ns ! ri)"
      have m: "(if gi < length (glob_parts glob) \<and> (ri + 1 \<noteq> length (glob_parts path) \<or>
            part_type (glob_parts glob ! gi) \<noteq> A0_PATHGLOB_PART_TYPE_RECURSIVE)
          then a0_pathglob_part_match (glob_path glob) (glob_parts glob ! gi) (glob_path path) (glob_parts path ! ri)
          else Some False) = Some ?match"
      proof (cases "gi < length ?es")
        case gi: True
        then obtain n where n: "?es ! gi = Name n" using other by (cases "?es ! gi") auto
        have "stands_for gs (glob_parts glob ! gi) (Name n)"
          using g gi n len(1) by (auto simp: parsed_def list_all2_conv_all_nth)
        moreover have "good_part rs (glob_parts path ! ri)" using parsed_good [OF r(1)] True len(2) by simp
        moreover have "part_str rs (glob_parts path ! ri) = ?ns ! ri"
          using r(1) True len(2) by (metis nth_map parsed_def)
        ultimately show ?thesis
          using part_match_spec r(2) gi n rec [OF gi] len g r(1) by (simp add: parsed_def)
      qed (simp add: len)
      have step': "pathglob_match_loop glob path star_g star_r gi ri =
          (if ?match then pathglob_match_loop glob path star_g star_r (Suc gi) (Suc ri)
           else if star_g = 0 then Some False
           else pathglob_match_loop glob path star_g (Suc star_r) star_g (Suc star_r))"
        unfolding step Let_def m using other rec len True by auto
      show ?thesis
      proof (cases ?match)
        case match: True
        then have g': "drop gi ?es = ?es ! gi # drop (Suc gi) ?es" by (simp add: Cons_nth_drop_Suc)
        have ns: "?es ! gi \<noteq> Any_dirs" using other match by simp
        have t: "dirs.tried (drop (Suc gi) ?es) (drop (Suc ri) ?ns) saved"
          by (rule dirs.tried_match [OF ns "1.prems"(5) [unfolded g' r']])
        have "pathglob_match_loop glob path star_g star_r (Suc gi) (Suc ri) =
            Some (dirs.chance (drop (Suc gi) ?es) (drop (Suc ri) ?ns) saved)"
          by (rule "1.hyps" [OF _ _ _ _ "1.prems"(4) t]) (use match "1.prems"(1-3) True in \<open>auto\<close>)
        moreover have "dirs.chance (drop gi ?es) (drop ri ?ns) saved \<longleftrightarrow>
            dirs.chance (drop (Suc gi) ?es) (drop (Suc ri) ?ns) saved"
          unfolding g' r' by (rule dirs.chance_match [OF ns conjunct2 [OF match] "1.prems"(5) [unfolded g' r']])
        ultimately show ?thesis unfolding step' using match by simp
      next
        case False
        have no: "drop gi ?es = [] \<or> hd (drop gi ?es) \<noteq> Any_dirs \<and> \<not> name_fits (hd (drop gi ?es)) (?ns ! ri)"
          using False other by (auto simp: hd_drop_conv_nth)
        show ?thesis
        proof (cases "star_g = 0")
          case none: True
          then show ?thesis
            unfolding step' if_not_P [OF False] using dirs.chance_mismatch(1) [OF no] "1.prems"(4) r' by simp
        next
          case some: False
          then have le: "star_g \<le> gi" "star_r \<le> ri" using "1.prems"(3) by auto
          have sr: "drop star_r ?ns = ?ns ! star_r # drop (Suc star_r) ?ns"
            using le True by (simp add: Cons_nth_drop_Suc)
          have "pathglob_match_loop glob path star_g (Suc star_r) star_g (Suc star_r) =
              Some (dirs.chance (drop star_g ?es) (drop (Suc star_r) ?ns) (Some (drop star_g ?es, drop (Suc star_r) ?ns)))"
            by (rule "1.hyps") (use some le "1.prems"(1-2) True in \<open>auto simp: dirs.tried_star\<close>)
          moreover have "dirs.chance (drop gi ?es) (drop ri ?ns) saved \<longleftrightarrow>
              dirs.chance (drop star_g ?es) (drop (Suc star_r) ?ns) (Some (drop star_g ?es, drop (Suc star_r) ?ns))"
            unfolding "1.prems"(4) if_not_P [OF some] r' sr by (rule dirs.chance_mismatch(2) [OF no])
          ultimately show ?thesis unfolding step' if_not_P [OF False] if_not_P [OF some] by simp
        qed
      qed
    qed
  qed
qed

text \<open>
  C23. Matching a path against a pattern returns, and decides what patterns mean: name by name,
  \<^verbatim>\<open>*\<close> stands for any characters and \<^verbatim>\<open>**\<close> for any number of names; but a \<^verbatim>\<open>**\<close> at the end stands for one name
  only. The two greedy searches never miss a match. A path or pattern of more than 32 names is
  stored beyond the end of an array.
\<close>

theorem pathglob_match_spec:
  assumes "a0_abspath getenv (Some pattern) = Inr G" "a0_abspath getenv (Some path) = Inr P" "CHR 0x00 \<notin> set P"
  shows "if length (names G) \<le> 32
     then \<exists>glob. a0_pathglob_init getenv (Some pattern) = Some (Inr glob) \<and>
       a0_pathglob_match getenv glob (Some path) =
         (if length (names P) \<le> 32 then Some (Inr (path_matches G P)) else None)
     else a0_pathglob_init getenv (Some pattern) = None"
proof (cases "length (names G) \<le> 32")
  case True
  then obtain glob where glob: "a0_pathglob_init getenv (Some pattern) = Some (Inr glob)" "parsed G glob"
    using init_spec [OF assms(1)] by (auto simp: A0_PATHGLOB_MAX_DEPTH_def)
  have "a0_pathglob_match getenv glob (Some path) = (if length (names P) \<le> 32 then Some (Inr (path_matches G P)) else None)"
  proof (cases "length (names P) \<le> 32")
    case True
    then obtain real where real: "a0_pathglob_init getenv (Some path) = Some (Inr real)" "parsed P real"
      using init_spec [OF assms(2)] by (auto simp: A0_PATHGLOB_MAX_DEPTH_def)
    have "pathglob_match_loop glob real 0 0 0 0 = Some (path_matches G P)"
      using pathglob_match_loop_spec [OF glob(2) real(2) assms(3), of 0 0 0 0 None]
      by (simp add: dirs.chance_start dirs.tried_start path_matches_def)
    then show ?thesis using True by (simp add: a0_pathglob_match_def real(1))
  next
    case False
    then show ?thesis using init_spec [OF assms(2)] by (simp add: a0_pathglob_match_def A0_PATHGLOB_MAX_DEPTH_def)
  qed
  then show ?thesis using glob True by auto
next
  case False
  then show ?thesis using init_spec [OF assms(1)] by (simp add: A0_PATHGLOB_MAX_DEPTH_def)
qed

theorem pathglob_match_spec_witness:
  "\<exists>glob. a0_pathglob_init Map.empty (Some ''/d/**/*.a0'') = Some (Inr glob) \<and>
     a0_pathglob_match Map.empty glob (Some ''/d/x/yz.a0'') = Some (Inr True)"
proof -
  have "path_matches ''/d/**/*.a0'' ''/d/x/yz.a0''" by (simp add: path_matches_def names_def)
  then show ?thesis
    using pathglob_match_spec [of Map.empty "''/d/**/*.a0''" "''/d/**/*.a0''" "''/d/x/yz.a0''" "''/d/x/yz.a0''"]
    by (simp add: a0_abspath_def names_def)
qed

end
