(* ===== verification/HashMap.thy ===== *)
theory HashMap
  imports Cmp
begin

text \<open>
  \<^verbatim>\<open>src/map.c\<close>: the open-addressing hash map with Robin Hood insertion and backward-shift
  deletion. A bucket's contents (offset, key, value) are a record; the \<^verbatim>\<open>key_size\<close> and
  \<^verbatim>\<open>val_size\<close> bytes that the source copies around are values of the types \<open>'k\<close> and \<open>'v\<close>,
  and \<open>zero\<close> is the key and value that zero-filled memory represents.

  An operation returns \<open>None\<close> where the source would touch a bucket outside the table or not
  return at all; that neither happens is part of what is proved. Allocation is taken to succeed,
  as the source takes it.
\<close>

section \<open>State\<close>

record ('k, 'v) a0_map_bucket =
  b_off :: nat
  b_key :: 'k
  b_val :: 'v

record ('k, 'v) a0_map =
  key_hash :: "'k \<Rightarrow> a0_err + u64"
  key_cmp :: "'k \<Rightarrow> 'k \<Rightarrow> a0_err + int"
  zero :: "'k \<times> 'v"
  m_size :: nat
  m_cap :: nat
  hash2idx :: nat
  m_data :: "('k, 'v) a0_map_bucket list"

definition a0_map_init ::
    "('k \<Rightarrow> a0_err + u64) \<Rightarrow> ('k \<Rightarrow> 'k \<Rightarrow> a0_err + int) \<Rightarrow> 'k \<times> 'v \<Rightarrow> ('k, 'v) a0_map" where
  "a0_map_init kh kc z =
     \<lparr>key_hash = kh, key_cmp = kc, zero = z, m_size = 0, m_cap = 0, hash2idx = 0, m_data = []\<rparr>"

text \<open>\<^verbatim>\<open>a0_map_close\<close> frees the table and zeroes the struct (the callbacks become null pointers).\<close>

definition a0_map_close :: "('k, 'v) a0_map \<Rightarrow> ('k, 'v) a0_map" where
  "a0_map_close m = m\<lparr>m_size := 0, m_cap := 0, hash2idx := 0, m_data := []\<rparr>"

definition a0_map_empty :: "('k, 'v) a0_map \<Rightarrow> bool" where
  "a0_map_empty m = (m_size m = 0)"

definition a0_map_size :: "('k, 'v) a0_map \<Rightarrow> nat" where
  "a0_map_size m = m_size m"

text \<open>\<^verbatim>\<open>a0_map_bucket\<close>: the contents of a bucket.\<close>

definition a0_map_bucket :: "('k, 'v) a0_map \<Rightarrow> nat \<Rightarrow> ('k, 'v) a0_map_bucket option" where
  "a0_map_bucket m idx = (if idx < length (m_data m) then Some (m_data m ! idx) else None)"

definition next_idx :: "('k, 'v) a0_map \<Rightarrow> nat \<Rightarrow> nat" where
  "next_idx m idx = (idx + 1) AND hash2idx m"

section \<open>Lookup\<close>

partial_function (option) a0_map_find_loop ::
    "('k, 'v) a0_map \<Rightarrow> 'k \<Rightarrow> nat \<Rightarrow> nat \<Rightarrow> (a0_err + nat) option" where
  "a0_map_find_loop m key idx off =
     Option.bind (a0_map_bucket m idx) (\<lambda>bkt.
       if off \<le> b_off bkt then
         (case key_cmp m key (b_key bkt) of
            Inl e \<Rightarrow> Some (Inl e)
          | Inr cmp \<Rightarrow>
              if cmp = 0 then Some (Inr idx)
              else a0_map_find_loop m key (next_idx m idx) (off + 1))
       else Some (Inl A0_ERR_NOT_FOUND))"

definition a0_map_find :: "('k, 'v) a0_map \<Rightarrow> 'k \<Rightarrow> (a0_err + nat) option" where
  "a0_map_find m key =
     (if m_size m = 0 then Some (Inl A0_ERR_NOT_FOUND)
      else case key_hash m key of
        Inl e \<Rightarrow> Some (Inl e)
      | Inr hash \<Rightarrow> a0_map_find_loop m key (unat hash AND hash2idx m) 1)"

definition a0_map_has :: "('k, 'v) a0_map \<Rightarrow> 'k \<Rightarrow> bool option" where
  "a0_map_has m key = map_option (\<lambda>r. case r of Inl _ \<Rightarrow> False | Inr _ \<Rightarrow> True) (a0_map_find m key)"

definition a0_map_get :: "('k, 'v) a0_map \<Rightarrow> 'k \<Rightarrow> (a0_err + 'v) option" where
  "a0_map_get m key =
     Option.bind (a0_map_find m key) (\<lambda>r. case r of
       Inl e \<Rightarrow> Some (Inl e)
     | Inr idx \<Rightarrow> map_option (\<lambda>b. Inr (b_val b)) (a0_map_bucket m idx))"

text \<open>
  \<^verbatim>\<open>a0_map_get\<close> gives a pointer to the value in its bucket. This is a store through that pointer; \<open>None\<close> is
  a store through a pointer that was not set.
\<close>

definition store_val :: "('k, 'v) a0_map \<Rightarrow> 'k \<Rightarrow> 'v \<Rightarrow> ('k, 'v) a0_map option" where
  "store_val m key val =
     Option.bind (a0_map_find m key) (\<lambda>r. case r of
       Inl _ \<Rightarrow> None
     | Inr idx \<Rightarrow> map_option (\<lambda>b. m\<lparr>m_data := (m_data m)[idx := b\<lparr>b_val := val\<rparr>]\<rparr>) (a0_map_bucket m idx))"

section \<open>Iteration\<close>

text \<open>
  The do-while of \<^verbatim>\<open>a0_map_iterator_next\<close>: look at bucket \<open>idx\<close>, step, and go on while the index
  is in range and the bucket was empty. The result is the stepped index and the bucket looked at.
\<close>

partial_function (option) a0_map_iterator_loop ::
    "('k, 'v) a0_map \<Rightarrow> nat \<Rightarrow> (nat \<times> nat) option" where
  "a0_map_iterator_loop m idx =
     (if idx + 1 \<le> m_cap m then
        Option.bind (a0_map_bucket m idx) (\<lambda>bkt.
          if b_off bkt = 0 then a0_map_iterator_loop m (idx + 1) else Some (idx + 1, idx))
      else Some (idx + 1, idx))"

definition a0_map_iterator_next ::
    "('k, 'v) a0_map \<Rightarrow> nat \<Rightarrow> ((a0_err + 'k \<times> 'v) \<times> nat) option" where
  "a0_map_iterator_next m idx =
     (if idx \<ge> m_cap m then Some (Inl A0_ERR_ITER_DONE, idx)
      else Option.bind (a0_map_iterator_loop m idx) (\<lambda>(idx', at).
        if idx' > m_cap m then Some (Inl A0_ERR_ITER_DONE, idx')
        else map_option (\<lambda>b. (Inr (b_key b, b_val b), idx')) (a0_map_bucket m at)))"

section \<open>Insertion\<close>

text \<open>
  The probe loop of \<^verbatim>\<open>a0_map_put\<close>: \<open>idx\<close> and \<open>new_bkt\<close> are the position and contents of the entry
  being carried; where the carried entry is further from its home than the resident, they swap.
\<close>

partial_function (option) a0_map_put_loop ::
    "('k, 'v) a0_map \<Rightarrow> nat \<Rightarrow> ('k, 'v) a0_map_bucket \<Rightarrow> (a0_err \<times> ('k, 'v) a0_map) option" where
  "a0_map_put_loop m idx new_bkt =
     Option.bind (a0_map_bucket m idx) (\<lambda>iter_bkt.
       if b_off iter_bkt \<noteq> 0 then
         (case key_cmp m (b_key new_bkt) (b_key iter_bkt) of
            Inl e \<Rightarrow> Some (e, m)
          | Inr cmp \<Rightarrow>
              if cmp = 0 then
                Some (A0_OK, m\<lparr>m_data := (m_data m)[idx := iter_bkt\<lparr>b_val := b_val new_bkt\<rparr>]\<rparr>)
              else if b_off new_bkt > b_off iter_bkt then
                a0_map_put_loop (m\<lparr>m_data := (m_data m)[idx := new_bkt]\<rparr>) (next_idx m idx)
                  (iter_bkt\<lparr>b_off := b_off iter_bkt + 1\<rparr>)
              else
                a0_map_put_loop m (next_idx m idx) (new_bkt\<lparr>b_off := b_off new_bkt + 1\<rparr>))
       else Some (A0_OK, m\<lparr>m_data := (m_data m)[idx := new_bkt], m_size := m_size m + 1\<rparr>))"

definition a0_map_put_nogrow ::
    "('k, 'v) a0_map \<Rightarrow> 'k \<Rightarrow> 'v \<Rightarrow> (a0_err \<times> ('k, 'v) a0_map) option" where
  "a0_map_put_nogrow m key val =
     (case key_hash m key of
        Inl e \<Rightarrow> Some (e, m)
      | Inr hash \<Rightarrow>
          a0_map_put_loop m (unat hash AND hash2idx m) \<lparr>b_off = 1, b_key = key, b_val = val\<rparr>)"

text \<open>
  \<^verbatim>\<open>a0_map_grow\<close> and \<^verbatim>\<open>a0_map_put\<close> call each other: growing inserts every entry into the new table
  with \<^verbatim>\<open>a0_map_put\<close>. The depth of that nesting is the fuel \<open>d\<close> of \<open>a0_map_put_d\<close>; two levels
  are enough, since the new table never has to grow while it is being filled
  (\<open>map_keys.put_correct\<close>).
\<close>

partial_function (option) a0_map_grow_loop ::
    "(('k, 'v) a0_map \<Rightarrow> 'k \<Rightarrow> 'v \<Rightarrow> (a0_err \<times> ('k, 'v) a0_map) option)
      \<Rightarrow> ('k, 'v) a0_map \<Rightarrow> nat \<Rightarrow> ('k, 'v) a0_map \<Rightarrow> (a0_err \<times> ('k, 'v) a0_map) option" where
  "a0_map_grow_loop put m iter new_map =
     Option.bind (a0_map_iterator_next m iter) (\<lambda>(r, iter').
       case r of
         Inl _ \<Rightarrow> Some (A0_OK, new_map)
       | Inr (key, val) \<Rightarrow>
           Option.bind (put new_map key val) (\<lambda>(err, new_map').
             if err = A0_OK then a0_map_grow_loop put m iter' new_map' else Some (err, m)))"

definition a0_map_grow ::
    "(('k, 'v) a0_map \<Rightarrow> 'k \<Rightarrow> 'v \<Rightarrow> (a0_err \<times> ('k, 'v) a0_map) option)
      \<Rightarrow> ('k, 'v) a0_map \<Rightarrow> (a0_err \<times> ('k, 'v) a0_map) option" where
  "a0_map_grow put m =
     (let new_cap = (if m_cap m \<noteq> 0 then m_cap m * 2 else 4);
          new_map = m\<lparr>m_size := 0, m_cap := new_cap, hash2idx := new_cap - 1,
            m_data := replicate new_cap
              \<lparr>b_off = 0, b_key = fst (zero m), b_val = snd (zero m)\<rparr>\<rparr>
      in a0_map_grow_loop put m 0 new_map)"

fun a0_map_put_d ::
    "nat \<Rightarrow> ('k, 'v) a0_map \<Rightarrow> 'k \<Rightarrow> 'v \<Rightarrow> (a0_err \<times> ('k, 'v) a0_map) option" where
  "a0_map_put_d 0 m key val = None"
| "a0_map_put_d (Suc d) m key val =
     (if m_size m * 2 \<ge> m_cap m then
        Option.bind (a0_map_grow (a0_map_put_d d) m) (\<lambda>(err, m').
          if err \<noteq> A0_OK then Some (err, m') else a0_map_put_nogrow m' key val)
      else a0_map_put_nogrow m key val)"

definition a0_map_put ::
    "('k, 'v) a0_map \<Rightarrow> 'k \<Rightarrow> 'v \<Rightarrow> (a0_err \<times> ('k, 'v) a0_map) option" where
  "a0_map_put m key val = a0_map_put_d 2 m key val"

section \<open>Deletion\<close>

text \<open>The backward shift of \<^verbatim>\<open>a0_map_del_bucket\<close>: \<open>idx\<close> is the hole.\<close>

partial_function (option) a0_map_shift_loop ::
    "('k, 'v) a0_map \<Rightarrow> nat \<Rightarrow> ('k, 'v) a0_map option" where
  "a0_map_shift_loop m idx =
     Option.bind (a0_map_bucket m idx) (\<lambda>_.
     Option.bind (a0_map_bucket m (next_idx m idx)) (\<lambda>next_bkt.
       if b_off next_bkt > 1 then
         a0_map_shift_loop
           (m\<lparr>m_data := (m_data m)
                [idx := next_bkt\<lparr>b_off := b_off next_bkt - 1\<rparr>,
                 next_idx m idx := next_bkt\<lparr>b_off := 0\<rparr>]\<rparr>)
           (next_idx m idx)
       else Some m))"

definition a0_map_del_bucket ::
    "('k, 'v) a0_map \<Rightarrow> nat \<Rightarrow> (a0_err \<times> ('k, 'v) a0_map) option" where
  "a0_map_del_bucket m idx =
     Option.bind (a0_map_bucket m idx) (\<lambda>bkt.
       map_option (\<lambda>m'. (A0_OK, m'))
         (a0_map_shift_loop
            (m\<lparr>m_data := (m_data m)[idx := bkt\<lparr>b_off := 0\<rparr>], m_size := m_size m - 1\<rparr>) idx))"

definition a0_map_del :: "('k, 'v) a0_map \<Rightarrow> 'k \<Rightarrow> (a0_err \<times> ('k, 'v) a0_map) option" where
  "a0_map_del m key =
     Option.bind (a0_map_find m key) (\<lambda>r. case r of
       Inl e \<Rightarrow> Some (e, m)
     | Inr idx \<Rightarrow> a0_map_del_bucket m idx)"

definition a0_map_pop ::
    "('k, 'v) a0_map \<Rightarrow> 'k \<Rightarrow> ((a0_err + 'v) \<times> ('k, 'v) a0_map) option" where
  "a0_map_pop m key =
     Option.bind (a0_map_find m key) (\<lambda>r. case r of
       Inl e \<Rightarrow> Some (Inl e, m)
     | Inr idx \<Rightarrow>
         Option.bind (a0_map_bucket m idx) (\<lambda>b.
           map_option (\<lambda>(err, m'). (if err = A0_OK then Inr (b_val b) else Inl err, m'))
             (a0_map_del_bucket m idx)))"

end
