(* ===== verification/Rpc.thy ===== *)
theory Rpc
  imports HashMap Endpoint
begin

text \<open>
  \<^verbatim>\<open>src/rpc.c\<close>: requests and responses over one transport. A server reads requests and writes responses,
  a client keeps a hash map from the ids of its outstanding requests to what to call with the
  response. A packet that a reader thread hands over is a value here, and so is a callback:
  \<open>None\<close> for a NULL function, and calling it is returned as an effect. The pthread mutex around the map
  makes its operations atomic.

  A header value that is used as an id is read as 37 bytes. \<open>None\<close> is a read beyond a shorter
  string, or a call that does not return.
\<close>

section \<open>Headers\<close>

definition RPC_TYPE :: "u8 list" where "RPC_TYPE = str ''a0_rpc_type''"
definition RPC_TYPE_REQUEST :: "u8 list" where "RPC_TYPE_REQUEST = str ''request''"
definition RPC_TYPE_RESPONSE :: "u8 list" where "RPC_TYPE_RESPONSE = str ''response''"
definition RPC_TYPE_CANCEL :: "u8 list" where "RPC_TYPE_CANCEL = str ''cancel''"
definition REQUEST_ID :: "u8 list" where "REQUEST_ID = str ''a0_req_id''"

definition a0_rpc_topic_open :: "file_open \<Rightarrow> environ \<Rightarrow> string option \<Rightarrow> a0_err + nat \<times> a0_arena_mode" where
  "a0_rpc_topic_open file_open getenv name = a0_topic_open file_open (Some (a0_env_topic_tmpl_rpc getenv)) name"

section \<open>Server\<close>

record a0_rpc_server =
  request_reader :: a0_reader_zc
  response_writer :: a0_writer
  has_oncancel :: bool

datatype rpc_server_call = Onrequest a0_packet | Oncancel "u8 list"

definition a0_rpc_server_onpacket :: "a0_rpc_server \<Rightarrow> a0_packet \<Rightarrow> rpc_server_call list option" where
  "a0_rpc_server_onpacket server pkt =
     Option.bind (find_header RPC_TYPE pkt) (\<lambda>type_hdr.
       case type_hdr of
         Inl _ \<Rightarrow> Some []
       | Inr type_hdr \<Rightarrow>
           if strcmp type_hdr RPC_TYPE_REQUEST = 0 then Some [Onrequest pkt]
           else if strcmp type_hdr RPC_TYPE_CANCEL = 0 then
             if has_oncancel server then
               if length (pkt_payload pkt) < sizeof_uuid then None
               else Some [Oncancel (take sizeof_uuid (pkt_payload pkt))]
             else Some []
           else Some [])"

text \<open>\<open>data\<close> and \<open>event\<close> are the addresses of the writer's counter and the reader's event.\<close>

definition a0_rpc_server_init ::
    "file_open \<Rightarrow> environ \<Rightarrow> string option \<Rightarrow> bool \<Rightarrow> nat \<Rightarrow> nat \<Rightarrow> nat \<Rightarrow> rand_state \<Rightarrow> world
      \<Rightarrow> (a0_err + a0_rpc_server) \<times> rand_state \<times> world" where
  "a0_rpc_server_init file_open getenv name oncancel data event urandom s w =
     (case a0_rpc_topic_open file_open getenv name of
        Inl err \<Rightarrow> (Inl err, s, w)
      | Inr (arena_size, mode) \<Rightarrow>
          let (writer, w) = a0_writer_init arena_size mode w;
              (headers, s, w) = a0_add_standard_headers data urandom s w;
              writer = a0_writer_push writer headers;
              (reader, w) = a0_reader_zc_init arena_size mode await_new event w
          in (Inr \<lparr>request_reader = reader, response_writer = writer, has_oncancel = oncancel\<rparr>, s, w))"

definition a0_rpc_server_close ::
    "nat \<Rightarrow> others \<Rightarrow> a0_rpc_server \<Rightarrow> world \<Rightarrow> (a0_err \<times> a0_rpc_server \<times> world) option" where
  "a0_rpc_server_close pthread_self others server w =
     map_option (\<lambda>(_, reader, w). (A0_OK, server\<lparr>request_reader := reader\<rparr>, w))
       (a0_reader_zc_close pthread_self others (request_reader server) w)"

definition rpc_response :: "a0_packet \<Rightarrow> a0_packet \<Rightarrow> a0_packet" where
  "rpc_response req resp =
     with_block [(RPC_TYPE, RPC_TYPE_RESPONSE), (REQUEST_ID, c_string (pkt_id req)), (A0_DEP, c_string (pkt_id req))] resp"

definition a0_rpc_server_reply ::
    "json_merge \<Rightarrow> a0_rpc_server \<Rightarrow> a0_packet \<Rightarrow> a0_packet \<Rightarrow> world \<Rightarrow> (a0_err \<times> world) option" where
  "a0_rpc_server_reply merge server req resp w =
     a0_writer_write merge (response_writer server) (rpc_response req resp) w"

section \<open>Client\<close>

definition a0_find_rpctype :: "a0_packet \<Rightarrow> (a0_err + u8 list) option" where
  "a0_find_rpctype pkt = map_option (map_sum (\<lambda>_. A0_ERR_ITER_DONE) id) (find_header RPC_TYPE pkt)"

definition a0_find_reqid :: "a0_packet \<Rightarrow> (a0_err + u8 list) option" where
  "a0_find_reqid pkt = map_option (map_sum (\<lambda>_. A0_ERR_ITER_DONE) id) (find_header REQUEST_ID pkt)"

record 'cb a0_rpc_client =
  response_reader :: a0_reader_zc
  request_writer :: a0_writer
  outstanding_requests :: "(u8 list, 'cb option) a0_map"

definition a0_rpc_client_onpacket ::
    "'cb a0_rpc_client \<Rightarrow> a0_packet \<Rightarrow> (('cb \<times> a0_packet) list \<times> 'cb a0_rpc_client) option" where
  "a0_rpc_client_onpacket client pkt =
     Option.bind (a0_find_rpctype pkt) (\<lambda>rpctype.
       case rpctype of
         Inl _ \<Rightarrow> Some ([], client)
       | Inr rpctype \<Rightarrow>
           if strcmp rpctype RPC_TYPE_RESPONSE \<noteq> 0 then Some ([], client)
           else Option.bind (a0_find_reqid pkt) (\<lambda>reqid.
             case reqid of
               Inl _ \<Rightarrow> Some ([], client)
             | Inr reqid \<Rightarrow>
                 Option.bind (uuid_at reqid) (\<lambda>reqid.
                 Option.bind (a0_map_pop (outstanding_requests client) reqid) (\<lambda>(r, requests).
                   let client = client\<lparr>outstanding_requests := requests\<rparr>
                   in case r of
                        Inl err \<Rightarrow> Some ([], client)
                      | Inr cb \<Rightarrow> Some (a0_packet_callback_call cb pkt, client)))))"

definition a0_rpc_client_init ::
    "file_open \<Rightarrow> environ \<Rightarrow> string option \<Rightarrow> nat \<Rightarrow> nat \<Rightarrow> nat \<Rightarrow> rand_state \<Rightarrow> world
      \<Rightarrow> (a0_err + 'cb a0_rpc_client) \<times> rand_state \<times> world" where
  "a0_rpc_client_init file_open getenv name data event urandom s w =
     (let requests = a0_map_init a0_hash_uuid_fn a0_cmp_uuid_fn ([], None)
      in case a0_rpc_topic_open file_open getenv name of
           Inl err \<Rightarrow> (Inl err, s, w)
         | Inr (arena_size, mode) \<Rightarrow>
             let (writer, w) = a0_writer_init arena_size mode w;
                 (headers, s, w) = a0_add_standard_headers data urandom s w;
                 writer = a0_writer_push writer headers;
                 (reader, w) = a0_reader_zc_init arena_size mode await_new event w
             in (Inr \<lparr>response_reader = reader, request_writer = writer, outstanding_requests = requests\<rparr>, s, w))"

definition a0_rpc_client_close ::
    "nat \<Rightarrow> others \<Rightarrow> 'cb a0_rpc_client \<Rightarrow> world \<Rightarrow> (a0_err \<times> 'cb a0_rpc_client \<times> world) option" where
  "a0_rpc_client_close pthread_self others client w =
     map_option (\<lambda>(_, reader, w).
         (A0_OK, client\<lparr>response_reader := reader, outstanding_requests := a0_map_close (outstanding_requests client)\<rparr>, w))
       (a0_reader_zc_close pthread_self others (response_reader client) w)"

definition rpc_request :: "a0_packet \<Rightarrow> a0_packet" where
  "rpc_request pkt = with_block [(RPC_TYPE, RPC_TYPE_REQUEST)] pkt"

definition a0_rpc_client_send ::
    "json_merge \<Rightarrow> 'cb a0_rpc_client \<Rightarrow> a0_packet \<Rightarrow> 'cb option \<Rightarrow> world \<Rightarrow> (a0_err \<times> 'cb a0_rpc_client \<times> world) option" where
  "a0_rpc_client_send merge client pkt onresponse w =
     Option.bind (a0_map_put (outstanding_requests client) (pkt_id pkt) onresponse) (\<lambda>(err, requests).
       let client = client\<lparr>outstanding_requests := requests\<rparr>
       in if err \<noteq> A0_OK then Some (err, client, w)
          else map_option (\<lambda>(err, w). (err, client, w))
            (a0_writer_write merge (request_writer client) (rpc_request pkt) w))"

text \<open>The loop reads packets until one belongs to the request, or reading fails.\<close>

partial_function (option) send_blocking_loop ::
    "others \<Rightarrow> timeout \<Rightarrow> u8 list \<Rightarrow> a0_reader_sync \<Rightarrow> packet_ref option \<Rightarrow> world
      \<Rightarrow> (a0_err \<times> packet_ref option \<times> world) option" where
  [code]: "send_blocking_loop others timeout req_id reader_sync out w =
     Option.bind (a0_reader_sync_read_blocking_timeout others timeout reader_sync w) (\<lambda>(err, pkt, reader_sync, w).
       if err \<noteq> A0_OK then Some (err, out, w)
       else
         Option.bind pkt (\<lambda>ref.
         Option.bind (load_packet (mm w) ref) (\<lambda>pkt.
         Option.bind (a0_find_rpctype pkt) (\<lambda>rpctype.
         Option.bind (a0_find_reqid pkt) (\<lambda>reqid.
           case (rpctype, reqid) of
             (Inr rpctype, Inr reqid) \<Rightarrow>
               Option.bind (uuid_at reqid) (\<lambda>reqid.
                 if memcmp req_id reqid = 0 then
                   Some (if strcmp rpctype RPC_TYPE_CANCEL = 0 then A0_ERR_CANCELLED else A0_OK, Some ref, w)
                 else send_blocking_loop others timeout req_id reader_sync (Some ref) w)
           | _ \<Rightarrow> send_blocking_loop others timeout req_id reader_sync (Some ref) w)))))"

text \<open>The reader is set up before the request is sent, so the response cannot be missed.\<close>

definition a0_rpc_client_send_blocking_timeout ::
    "json_merge \<Rightarrow> others \<Rightarrow> nat \<Rightarrow> a0_arena_mode \<Rightarrow> 'cb a0_rpc_client \<Rightarrow> a0_packet \<Rightarrow> timeout \<Rightarrow> a0_alloc \<Rightarrow> world
      \<Rightarrow> (a0_err \<times> packet_ref option \<times> 'cb a0_rpc_client \<times> world) option" where
  "a0_rpc_client_send_blocking_timeout merge others arena_size mode client pkt timeout alloc w =
     (let (reader_sync, w) = a0_reader_sync_init arena_size mode alloc await_new w
      in Option.bind (a0_rpc_client_send merge client pkt None w) (\<lambda>(err, client, w).
           if err \<noteq> A0_OK then Some (err, None, client, w)
           else map_option (\<lambda>(err, out, w). (err, out, client, w))
             (send_blocking_loop others timeout (pkt_id pkt) reader_sync None w)))"

definition a0_rpc_client_send_blocking ::
    "json_merge \<Rightarrow> others \<Rightarrow> nat \<Rightarrow> a0_arena_mode \<Rightarrow> 'cb a0_rpc_client \<Rightarrow> a0_packet \<Rightarrow> a0_alloc \<Rightarrow> world
      \<Rightarrow> (a0_err \<times> packet_ref option \<times> 'cb a0_rpc_client \<times> world) option" where
  "a0_rpc_client_send_blocking merge others arena_size mode client pkt alloc w =
     a0_rpc_client_send_blocking_timeout merge others arena_size mode client pkt None alloc w"

text \<open>\<open>new_id\<close> is the id that \<^verbatim>\<open>a0_packet_init\<close> draws for the new packet.\<close>

definition rpc_cancel :: "u8 list \<Rightarrow> u8 list \<Rightarrow> a0_packet" where
  "rpc_cancel new_id uuid = (a0_packet_init new_id)\<lparr>
     headers_block := [[(RPC_TYPE, RPC_TYPE_CANCEL), (REQUEST_ID, c_string uuid), (A0_DEP, c_string uuid)]],
     pkt_payload := uuid\<rparr>"

definition a0_rpc_client_cancel ::
    "json_merge \<Rightarrow> 'cb a0_rpc_client \<Rightarrow> u8 list \<Rightarrow> u8 list \<Rightarrow> world \<Rightarrow> (a0_err \<times> 'cb a0_rpc_client \<times> world) option" where
  "a0_rpc_client_cancel merge client new_id uuid w =
     Option.bind (a0_map_del (outstanding_requests client) uuid) (\<lambda>(_, requests).
       let client = client\<lparr>outstanding_requests := requests\<rparr>
       in map_option (\<lambda>(err, w). (err, client, w))
         (a0_writer_write merge (request_writer client) (rpc_cancel new_id uuid) w))"

end
