(* ===== verification/HashMap_Table.thy ===== *)
theory HashMap_Table
  imports HashMap
begin

text \<open>
  The loops of the hash map of \<^verbatim>\<open>src/map.c\<close>, on a table of buckets. The table is read through \<open>ent\<close>, the entries held by
  the occupied buckets. \<open>rh\<close> is the Robin Hood invariant: every entry sits where its offset says,
  offsets rise by at most one from a bucket to the next, and no key occurs twice. Lookup relies on
  it to stop early; insertion and the backward shift of deletion are shown to keep it.
\<close>

section \<open>Cyclic positions\<close>

definition slot :: "nat \<Rightarrow> nat \<Rightarrow> nat \<Rightarrow> nat" where
  "slot n h off = (h + off - 1) mod n"

lemma slot_Suc: "1 \<le> off \<Longrightarrow> slot n h (Suc off) = Suc (slot n h off) mod n"
  by (simp add: slot_def mod_Suc_eq Suc_diff_le [symmetric])

lemma slot_less [simp]: "0 < n \<Longrightarrow> slot n h off < n"
  by (simp add: slot_def)

lemma slot_1: "h < n \<Longrightarrow> slot n h (Suc 0) = h"
  by (simp add: slot_def)

lemma Suc_mod_inj: "i < n \<Longrightarrow> j < n \<Longrightarrow> Suc i mod n = Suc j mod n \<Longrightarrow> i = j"
  by (auto simp: mod_Suc split: if_splits)

lemma Suc_mod_neq: "1 < n \<Longrightarrow> i < n \<Longrightarrow> Suc i mod n \<noteq> i"
  by (auto simp: mod_Suc)

lemma and_mask_mod: "(a :: nat) AND (2 ^ k - 1) = a mod 2 ^ k"
  by (metis mask_eq_exp_minus_1 take_bit_eq_mask take_bit_eq_mod)

definition gap :: "nat \<Rightarrow> nat \<Rightarrow> nat \<Rightarrow> nat" where
  "gap n i e = (if i \<le> e then e - i else e + n - i)"

lemma gap_decreases: "i < n \<Longrightarrow> e < n \<Longrightarrow> i \<noteq> e \<Longrightarrow> gap n (Suc i mod n) e < gap n i e"
  by (auto simp: gap_def mod_Suc)

section \<open>Entries and the Robin Hood invariant\<close>

definition ent :: "('k, 'v) a0_map_bucket list \<Rightarrow> 'k \<Rightarrow> 'v \<Rightarrow> bool" where
  "ent bs k v \<longleftrightarrow> (\<exists>j<length bs. b_off (bs ! j) \<noteq> 0 \<and> b_key (bs ! j) = k \<and> b_val (bs ! j) = v)"

definition rh :: "('k \<Rightarrow> nat) \<Rightarrow> ('k, 'v) a0_map_bucket list \<Rightarrow> bool" where
  "rh hm bs \<longleftrightarrow>
     (\<forall>i<length bs. b_off (bs ! i) \<noteq> 0 \<longrightarrow>
        slot (length bs) (hm (b_key (bs ! i))) (b_off (bs ! i)) = i) \<and>
     (\<forall>i<length bs. b_off (bs ! (Suc i mod length bs)) \<le> Suc (b_off (bs ! i))) \<and>
     (\<forall>i<length bs. \<forall>j<length bs. b_off (bs ! i) \<noteq> 0 \<longrightarrow> b_off (bs ! j) \<noteq> 0 \<longrightarrow>
        b_key (bs ! i) = b_key (bs ! j) \<longrightarrow> i = j)"

lemma rh_slot: "rh hm bs \<Longrightarrow> i < length bs \<Longrightarrow> b_off (bs ! i) \<noteq> 0 \<Longrightarrow>
    slot (length bs) (hm (b_key (bs ! i))) (b_off (bs ! i)) = i"
  by (simp add: rh_def)

lemma rh_next: "rh hm bs \<Longrightarrow> i < length bs \<Longrightarrow>
    b_off (bs ! (Suc i mod length bs)) \<le> Suc (b_off (bs ! i))"
  by (simp add: rh_def)

lemma rh_unique: "rh hm bs \<Longrightarrow> i < length bs \<Longrightarrow> j < length bs \<Longrightarrow> b_off (bs ! i) \<noteq> 0 \<Longrightarrow>
    b_off (bs ! j) \<noteq> 0 \<Longrightarrow> b_key (bs ! i) = b_key (bs ! j) \<Longrightarrow> i = j"
  by (simp add: rh_def)

lemma rh_empty: "rh hm (replicate n \<lparr>b_off = 0, b_key = k, b_val = v\<rparr>)"
  by (simp add: rh_def)

lemma ent_empty: "\<not> ent (replicate n \<lparr>b_off = 0, b_key = k, b_val = v\<rparr>) k' v'"
  by (simp add: ent_def)

lemma ent_fun: "rh hm bs \<Longrightarrow> ent bs k v \<Longrightarrow> ent bs k w \<Longrightarrow> v = w"
  unfolding ent_def using rh_unique by metis

text \<open>
  The probe sequence of a stored key passes only buckets whose offset is at least the probe's:
  this is what lets lookup stop at the first smaller offset.
\<close>

lemma rh_chain:
  assumes rh: "rh hm bs" and p: "p < length bs" "b_off (bs ! p) \<noteq> 0"
    and le: "off \<le> b_off (bs ! p)" "1 \<le> off"
  shows "off \<le> b_off (bs ! slot (length bs) (hm (b_key (bs ! p))) off)"
  using le
proof (induction off rule: inc_induct)
  case base
  then show ?case using rh_slot [OF rh p] by simp
next
  case (step off)
  let ?s = "slot (length bs) (hm (b_key (bs ! p)))"
  have n: "0 < length bs" using p by auto
  have "Suc off \<le> b_off (bs ! ?s (Suc off))"
    using step.IH by simp
  also have "\<dots> \<le> Suc (b_off (bs ! ?s off))"
    using rh_next [OF rh, of "?s off"] n step.prems by (simp add: slot_Suc)
  finally show ?case by simp
qed

text \<open>Storing an entry at its slot over an empty bucket or one with a smaller offset keeps \<open>rh\<close>.\<close>

lemma rh_place:
  assumes rh: "rh hm bs" and i: "i < length bs" "1 < length bs"
    and sl: "slot (length bs) (hm (b_key nb)) (b_off nb) = i"
    and pred: "\<And>j. j < length bs \<Longrightarrow> Suc j mod length bs = i \<Longrightarrow> b_off nb \<le> Suc (b_off (bs ! j))"
    and le: "b_off (bs ! i) \<le> b_off nb"
    and absent: "\<And>j. j < length bs \<Longrightarrow> b_off (bs ! j) \<noteq> 0 \<Longrightarrow> b_key (bs ! j) \<noteq> b_key nb"
  shows "rh hm (bs[i := nb])"
  unfolding rh_def length_list_update
proof (intro conjI allI impI)
  fix j assume "j < length bs" "b_off (bs[i := nb] ! j) \<noteq> 0"
  then show "slot (length bs) (hm (b_key (bs[i := nb] ! j))) (b_off (bs[i := nb] ! j)) = j"
    using sl rh_slot [OF rh, of j] i by (cases "j = i") auto
next
  fix j assume j: "j < length bs"
  have "b_off (bs ! (Suc i mod length bs)) \<le> Suc (b_off nb)"
    using rh_next [OF rh i(1)] le by simp
  then show "b_off (bs[i := nb] ! (Suc j mod length bs)) \<le> Suc (b_off (bs[i := nb] ! j))"
    using rh_next [OF rh j] pred [OF j] Suc_mod_neq [OF i(2) j] i j
    by (auto simp: nth_list_update)
next
  fix j k assume "j < length bs" "k < length bs"
    "b_off (bs[i := nb] ! j) \<noteq> 0" "b_off (bs[i := nb] ! k) \<noteq> 0"
    "b_key (bs[i := nb] ! j) = b_key (bs[i := nb] ! k)"
  then show "j = k"
    using rh_unique [OF rh, of j k] absent [of j] absent [of k] i
    by (cases "j = i"; cases "k = i") auto
qed

text \<open>Entries other than the one at a position, and the entries after an update of that position.\<close>

definition ent_but :: "('k, 'v) a0_map_bucket list \<Rightarrow> nat \<Rightarrow> 'k \<Rightarrow> 'v \<Rightarrow> bool" where
  "ent_but bs i k v \<longleftrightarrow>
     (\<exists>j<length bs. j \<noteq> i \<and> b_off (bs ! j) \<noteq> 0 \<and> b_key (bs ! j) = k \<and> b_val (bs ! j) = v)"

lemma ent_split: "i < length bs \<Longrightarrow> ent bs k v \<longleftrightarrow>
    (b_off (bs ! i) \<noteq> 0 \<and> b_key (bs ! i) = k \<and> b_val (bs ! i) = v) \<or> ent_but bs i k v"
  unfolding ent_def ent_but_def by auto

lemma ent_but_update [simp]: "ent_but (bs[i := nb]) i k v \<longleftrightarrow> ent_but bs i k v"
  unfolding ent_but_def by (auto simp: nth_list_update)

lemma ent_but_fill:
  assumes h: "h < length bs" "h \<noteq> i" "b_off (bs ! h) = 0" and nb: "b_off nb \<noteq> 0"
  shows "ent_but (bs[h := nb]) i k v \<longleftrightarrow> ent_but bs i k v \<or> (b_key nb = k \<and> b_val nb = v)"
proof
  assume "ent_but (bs[h := nb]) i k v"
  then obtain j where "j < length bs" "j \<noteq> i" "b_off (bs[h := nb] ! j) \<noteq> 0"
      "b_key (bs[h := nb] ! j) = k" "b_val (bs[h := nb] ! j) = v"
    unfolding ent_but_def by auto
  then show "ent_but bs i k v \<or> (b_key nb = k \<and> b_val nb = v)"
    unfolding ent_but_def using h(1) by (cases "j = h") auto
next
  assume "ent_but bs i k v \<or> (b_key nb = k \<and> b_val nb = v)"
  then show "ent_but (bs[h := nb]) i k v"
  proof
    assume "ent_but bs i k v"
    then obtain j where "j < length bs" "j \<noteq> i" "b_off (bs ! j) \<noteq> 0" "b_key (bs ! j) = k" "b_val (bs ! j) = v"
      unfolding ent_but_def by auto
    then show ?thesis
      unfolding ent_but_def using h(3) by (intro exI [where x = j]) (cases "j = h", auto)
  next
    assume "b_key nb = k \<and> b_val nb = v"
    then show ?thesis
      unfolding ent_but_def using h nb by (intro exI [where x = h]) simp
  qed
qed

lemma ent_update: "i < length bs \<Longrightarrow> ent (bs[i := nb]) k v \<longleftrightarrow>
    (b_off nb \<noteq> 0 \<and> b_key nb = k \<and> b_val nb = v) \<or> ent_but bs i k v"
  by (simp add: ent_split [of i "bs[i := nb]"])

lemma ent_but_key: "rh hm bs \<Longrightarrow> i < length bs \<Longrightarrow> b_off (bs ! i) \<noteq> 0 \<Longrightarrow>
    ent_but bs i k v \<longleftrightarrow> ent bs k v \<and> k \<noteq> b_key (bs ! i)"
  unfolding ent_def ent_but_def using rh_unique by metis

text \<open>
  The invariant while deletion shifts entries back: position \<open>h\<close> is a hole, and the bucket after
  it may be one offset too high for the bucket before it.
\<close>

definition hole :: "('k \<Rightarrow> nat) \<Rightarrow> ('k, 'v) a0_map_bucket list \<Rightarrow> nat \<Rightarrow> bool" where
  "hole hm bs h \<longleftrightarrow>
     b_off (bs ! h) = 0 \<and>
     (\<forall>i<length bs. b_off (bs ! i) \<noteq> 0 \<longrightarrow>
        slot (length bs) (hm (b_key (bs ! i))) (b_off (bs ! i)) = i) \<and>
     (\<forall>i<length bs. i \<noteq> h \<longrightarrow> b_off (bs ! (Suc i mod length bs)) \<le> Suc (b_off (bs ! i))) \<and>
     (\<forall>i<length bs. Suc i mod length bs = h \<longrightarrow>
        b_off (bs ! (Suc h mod length bs)) \<le> Suc (Suc (b_off (bs ! i)))) \<and>
     (\<forall>i<length bs. \<forall>j<length bs. b_off (bs ! i) \<noteq> 0 \<longrightarrow> b_off (bs ! j) \<noteq> 0 \<longrightarrow>
        b_key (bs ! i) = b_key (bs ! j) \<longrightarrow> i = j)"

lemma hole_start:
  assumes rh: "rh hm bs" and h: "h < length bs" and n: "1 < length bs"
  shows "hole hm (bs[h := (bs ! h)\<lparr>b_off := 0\<rparr>]) h"
proof -
  have "b_off (bs ! (Suc h mod length bs)) \<le> Suc (Suc (b_off (bs ! i)))"
    if "i < length bs" "Suc i mod length bs = h" for i
    using rh_next [OF rh that(1)] rh_next [OF rh h] that(2) by simp
  then show ?thesis
    using rh_slot [OF rh] rh_next [OF rh] rh_unique [OF rh] h n
    unfolding hole_def by (auto simp: nth_list_update Suc_mod_neq)
qed

lemma hole_close:
  assumes "hole hm bs h" "h < length bs" "b_off (bs ! (Suc h mod length bs)) \<le> 1"
  shows "rh hm bs"
proof -
  have "b_off (bs ! (Suc i mod length bs)) \<le> Suc (b_off (bs ! i))" if "i < length bs" for i
    using assms that by (cases "i = h") (auto simp: hole_def)
  with assms(1) show ?thesis by (simp add: hole_def rh_def)
qed

lemma hole_step:
  assumes hole: "hole hm bs h" and h: "h < length bs" and n: "4 \<le> length bs"
    and h': "h' = Suc h mod length bs" and D: "b_off (bs ! h') > 1"
  shows "hole hm (bs[h := (bs ! h')\<lparr>b_off := b_off (bs ! h') - 1\<rparr>,
      h' := (bs ! h')\<lparr>b_off := 0\<rparr>]) h'" (is "hole hm ?bs h'")
proof -
  let ?n = "length bs"
  have pos: "0 < ?n" using n by linarith
  then have next_lt: "Suc i mod ?n < ?n" for i by (intro mod_less_divisor)
  have h'n: "h' < ?n" and neq: "h \<noteq> h'"
    using h' h n Suc_mod_neq [of ?n h] next_lt by auto
  have len: "length ?bs = ?n" by simp
  have nth: "?bs ! i = (if i = h' then (bs ! h')\<lparr>b_off := 0\<rparr> else if i = h
      then (bs ! h')\<lparr>b_off := b_off (bs ! h') - 1\<rparr> else bs ! i)" if "i < ?n" for i
    using that h h'n neq by (simp add: nth_list_update)
  have slot_h: "slot ?n (hm (b_key (bs ! h'))) (b_off (bs ! h') - 1) = h"
  proof -
    obtain d where d: "b_off (bs ! h') = Suc d" "1 \<le> d"
      using D by (cases "b_off (bs ! h')") auto
    have "slot ?n (hm (b_key (bs ! h'))) (Suc d) = h'"
      using hole h'n d unfolding hole_def by (metis nat.distinct(1))
    then have "Suc (slot ?n (hm (b_key (bs ! h'))) (b_off (bs ! h') - 1)) mod ?n = h'"
      using d by (simp add: slot_Suc)
    also note h'
    finally show ?thesis
      by (rule Suc_mod_inj [OF slot_less [OF pos] h])
  qed
  show ?thesis
    unfolding hole_def len
  proof (intro conjI allI impI)
    show "b_off (?bs ! h') = 0" using nth [OF h'n] by simp
  next
    fix i assume i: "i < ?n" "b_off (?bs ! i) \<noteq> 0"
    have old: "b_off (bs ! i) \<noteq> 0 \<longrightarrow> slot ?n (hm (b_key (bs ! i))) (b_off (bs ! i)) = i"
      using hole i(1) unfolding hole_def by blast
    have "i \<noteq> h'" using i nth [OF h'n] by auto
    then show "slot ?n (hm (b_key (?bs ! i))) (b_off (?bs ! i)) = i"
      using old slot_h i neq unfolding nth [OF i(1)] by (cases "i = h") simp_all
  next
    fix i assume i: "i < ?n" "i \<noteq> h'"
    show "b_off (?bs ! (Suc i mod ?n)) \<le> Suc (b_off (?bs ! i))"
    proof (cases "Suc i mod ?n = h")
      case True
      then have "i \<noteq> h" using Suc_mod_neq [of ?n h] h n by auto
      then show ?thesis
        using hole True i h' D neq h by (auto simp: nth hole_def)
    next
      case False
      have "b_off (bs ! (Suc i mod ?n)) \<le> Suc (b_off (bs ! i))" if "i \<noteq> h"
        using hole i(1) that unfolding hole_def by blast
      then show ?thesis
        using False i neq h' unfolding nth [OF i(1)] nth [OF next_lt] by (cases "i = h") simp_all
    qed
  next
    fix i assume i: "i < ?n" "Suc i mod ?n = h'"
    then have "i = h" using h' h Suc_mod_inj [of i ?n h] by simp
    moreover have "Suc h' mod ?n \<noteq> h'" "Suc h' mod ?n \<noteq> h"
      using h'n h n h' by (auto simp: mod_Suc split: if_splits)
    ultimately show "b_off (?bs ! (Suc h' mod ?n)) \<le> Suc (Suc (b_off (?bs ! i)))"
      using hole neq h h'n D next_lt [of h'] by (auto simp: nth hole_def)
  next
    fix i j assume ij: "i < ?n" "j < ?n" "b_off (?bs ! i) \<noteq> 0" "b_off (?bs ! j) \<noteq> 0"
      "b_key (?bs ! i) = b_key (?bs ! j)"
    let ?g = "\<lambda>i. if i = h then h' else i"
    have src: "?g i < ?n \<and> i \<noteq> h' \<and> b_off (bs ! ?g i) \<noteq> 0 \<and> b_key (bs ! ?g i) = b_key (?bs ! i)"
      if "i < ?n" "b_off (?bs ! i) \<noteq> 0" for i
      using that(2) D h'n neq that(1) unfolding nth [OF that(1)] by (cases "i = h'"; cases "i = h") simp_all
    have "a = b" if "a < ?n" "b < ?n" "b_off (bs ! a) \<noteq> 0" "b_off (bs ! b) \<noteq> 0"
      "b_key (bs ! a) = b_key (bs ! b)" for a b
      using hole that unfolding hole_def by blast
    note uniq = this [of "?g i" "?g j"]
    have "?g i = ?g j"
      by (rule uniq) (simp_all only: src [OF ij(1,3)] src [OF ij(2,4)] ij(5) not_False_eq_True)
    moreover have "i \<noteq> h'" "j \<noteq> h'"
      using src [OF ij(1,3)] src [OF ij(2,4)] by blast+
    ultimately show "i = j" by (cases "i = h"; cases "j = h") simp_all
  qed
qed

section \<open>Tables\<close>

lemma next_idx_eq: "hash2idx m = 2 ^ k - 1 \<Longrightarrow> next_idx m i = Suc i mod 2 ^ k"
  unfolding next_idx_def by (simp add: and_mask_mod [unfolded One_nat_def])

context map_keys
begin

text \<open>What the operations rely on, short of the whole invariant: a table under construction.\<close>

definition table :: "('k \<Rightarrow> nat) \<Rightarrow> ('k, 'v) a0_map \<Rightarrow> bool" where
  "table hm m \<longleftrightarrow>
     key_hash m = kh \<and> key_cmp m = kc \<and>
     (\<exists>k\<ge>2. length (m_data m) = 2 ^ k \<and> hash2idx m = 2 ^ k - 1) \<and>
     rh hm (m_data m) \<and> (\<forall>k v. ent (m_data m) k v \<longrightarrow> kv k)"

lemma table_big: "table hm m \<Longrightarrow> 4 \<le> length (m_data m)"
  unfolding table_def using power_increasing [of 2 _ "2 :: nat"] by fastforce

lemma table_mod: "table hm m \<Longrightarrow> x mod length (m_data m) < length (m_data m)"
  using table_big [of hm m] by (intro mod_less_divisor) linarith

lemma table_next: "table hm m \<Longrightarrow> next_idx m i = Suc i mod length (m_data m)"
  unfolding table_def using next_idx_eq by metis

lemma table_rh: "table hm m \<Longrightarrow> rh hm (m_data m)"
  by (simp add: table_def)

lemma table_cmp: "table hm m \<Longrightarrow> kv a \<Longrightarrow> j < length (m_data m) \<Longrightarrow> b_off (m_data m ! j) \<noteq> 0 \<Longrightarrow>
    \<exists>c. key_cmp m a (b_key (m_data m ! j)) = Inr c \<and> (c = 0 \<longleftrightarrow> a = b_key (m_data m ! j))"
  unfolding table_def using cmp_eq by (metis ent_def)

section \<open>Lookup\<close>

lemma bucket_in: "i < length (m_data m) \<Longrightarrow> a0_map_bucket m i = Some (m_data m ! i)"
  by (simp add: a0_map_bucket_def)

lemma find_present:
  assumes t: "table hm m" and p: "p < length (m_data m)" "b_off (m_data m ! p) \<noteq> 0"
    and off: "1 \<le> off" "off \<le> b_off (m_data m ! p)"
    and i: "i = slot (length (m_data m)) (hm (b_key (m_data m ! p))) off"
  shows "a0_map_find_loop m (b_key (m_data m ! p)) i off = Some (Inr p)"
  using off i
proof (induction "b_off (m_data m ! p) - off" arbitrary: off i)
  case 0
  then have "i = p" and "off = b_off (m_data m ! p)"
    using rh_slot [OF table_rh [OF t] p] by simp_all
  moreover obtain c where "key_cmp m (b_key (m_data m ! p)) (b_key (m_data m ! p)) = Inr c" "c = 0"
    using table_cmp [OF t _ p] p t by (metis table_def ent_def)
  ultimately show ?case
    using p by (subst a0_map_find_loop.simps) (simp add: bucket_in)
next
  case (Suc d)
  let ?n = "length (m_data m)" and ?k = "b_key (m_data m ! p)"
  have in_: "i < ?n" using Suc.prems table_mod [OF t] by (simp add: slot_def)
  have le: "off \<le> b_off (m_data m ! i)"
    using rh_chain [OF table_rh [OF t] p] Suc.prems by simp
  then have occ: "b_off (m_data m ! i) \<noteq> 0" using Suc.prems by simp
  have kvp: "kv ?k" using t p by (metis table_def ent_def)
  obtain c where c: "key_cmp m ?k (b_key (m_data m ! i)) = Inr c" "c = 0 \<longleftrightarrow> ?k = b_key (m_data m ! i)"
    using table_cmp [OF t kvp in_ occ] by blast
  have "c = 0 \<Longrightarrow> i = p"
    using c(2) rh_unique [OF table_rh [OF t] p(1) in_ p(2) occ] by simp
  moreover have "a0_map_find_loop m ?k (next_idx m i) (off + 1) = Some (Inr p)"
    using Suc.hyps(2) Suc.prems by (intro Suc.hyps(1)) (auto simp: table_next [OF t] slot_Suc)
  ultimately show ?case
    using le c(1) in_ by (subst a0_map_find_loop.simps) (auto simp: bucket_in)
qed

lemma find_absent:
  assumes t: "table hm m" and k: "kv k" and absent: "\<And>v. \<not> ent (m_data m) k v"
    and i: "i < length (m_data m)" and off: "1 \<le> off"
  shows "a0_map_find_loop m k i off = Some (Inl A0_ERR_NOT_FOUND)"
  using i off
proof (induction "Suc (Max (b_off ` set (m_data m))) - off" arbitrary: off i rule: less_induct)
  case less
  let ?b = "m_data m ! i"
  have bucket: "a0_map_bucket m i = Some ?b" using less.prems(1) by (rule bucket_in)
  show ?case
  proof (cases "off \<le> b_off ?b")
    case False
    then show ?thesis by (subst a0_map_find_loop.simps) (simp add: bucket)
  next
    case True
    have "b_off ?b \<le> Max (b_off ` set (m_data m))"
      using less.prems by (intro Max_ge) auto
    then have smaller: "Suc (Max (b_off ` set (m_data m))) - (off + 1)
        < Suc (Max (b_off ` set (m_data m))) - off"
      using True by simp
    have "next_idx m i < length (m_data m)"
      using table_mod [OF t] by (simp add: table_next [OF t])
    then have IH: "a0_map_find_loop m k (next_idx m i) (off + 1) = Some (Inl A0_ERR_NOT_FOUND)"
      by (rule less.hyps [OF smaller]) simp
    obtain c where "key_cmp m k (b_key ?b) = Inr c" "c \<noteq> 0"
      using table_cmp [OF t k less.prems(1)] absent less.prems True by (force simp: ent_def)
    then show ?thesis
      using IH by (subst a0_map_find_loop.simps) (simp add: bucket True)
  qed
qed

section \<open>Insertion\<close>

lemma table_place:
  assumes t: "table hm m" and i: "i < length (m_data m)" and nb: "b_off nb \<noteq> 0" "kv (b_key nb)"
    and sl: "slot (length (m_data m)) (hm (b_key nb)) (b_off nb) = i"
    and pred: "\<And>j. j < length (m_data m) \<Longrightarrow> Suc j mod length (m_data m) = i \<Longrightarrow>
      b_off nb \<le> Suc (b_off (m_data m ! j))"
    and le: "b_off (m_data m ! i) \<le> b_off nb"
    and absent: "\<And>v. \<not> ent (m_data m) (b_key nb) v"
  shows "table hm (m\<lparr>m_data := (m_data m)[i := nb]\<rparr>)"
    and "table hm (m\<lparr>m_data := (m_data m)[i := nb], m_size := s\<rparr>)"
proof -
  have "rh hm ((m_data m)[i := nb])"
  proof (rule rh_place [OF table_rh [OF t] i _ sl pred le])
    show "1 < length (m_data m)" using table_big [OF t] by linarith
    show "b_key (m_data m ! j) \<noteq> b_key nb"
      if "j < length (m_data m)" "b_off (m_data m ! j) \<noteq> 0" for j
      using absent that unfolding ent_def by metis
  qed
  moreover have "kv k" if "ent ((m_data m)[i := nb]) k v" for k v
    using that nb(2) t i by (auto simp: ent_update table_def dest: ent_split [THEN iffD2, OF i disjI2])
  ultimately show "table hm (m\<lparr>m_data := (m_data m)[i := nb]\<rparr>)"
    and "table hm (m\<lparr>m_data := (m_data m)[i := nb], m_size := s\<rparr>)"
    using t by (simp_all add: table_def)
qed

text \<open>
  Inserting a key that the table does not hold: carried past full buckets, swapping where the
  carried entry is further from home, the entry ends up in the table with all the others.
\<close>

lemma put_loop_absent:
  assumes "table hm m" "b_off nb \<noteq> 0" "kv (b_key nb)"
    and "slot (length (m_data m)) (hm (b_key nb)) (b_off nb) = i"
    and "\<And>j. j < length (m_data m) \<Longrightarrow> Suc j mod length (m_data m) = i \<Longrightarrow>
      b_off nb \<le> Suc (b_off (m_data m ! j))"
    and "\<And>v. \<not> ent (m_data m) (b_key nb) v"
    and "e < length (m_data m)" "b_off (m_data m ! e) = 0"
  shows "\<exists>bs. a0_map_put_loop m i nb = Some (A0_OK, m\<lparr>m_data := bs, m_size := m_size m + 1\<rparr>) \<and>
     length bs = length (m_data m) \<and> table hm (m\<lparr>m_data := bs, m_size := m_size m + 1\<rparr>) \<and>
     (\<forall>k v. ent bs k v \<longleftrightarrow> ent (m_data m) k v \<or> (k = b_key nb \<and> v = b_val nb))"
  using assms
proof (induction "gap (length (m_data m)) i e" arbitrary: m i nb rule: less_induct)
  case less
  note t = less.prems(1) and sl = less.prems(4) and pred = less.prems(5)
    and absent = less.prems(6)
  let ?n = "length (m_data m)" and ?b = "m_data m ! i"
  have i: "i < ?n" using sl table_mod [OF t] by (auto simp: slot_def)
  have bucket: "a0_map_bucket m i = Some ?b" using i by (rule bucket_in)
  show ?case
  proof (cases "b_off ?b = 0")
    case True
    have "ent ((m_data m)[i := nb]) k v \<longleftrightarrow> ent (m_data m) k v \<or> (k = b_key nb \<and> v = b_val nb)" for k v
      using True i less.prems(2) by (auto simp: ent_update ent_split [OF i])
    moreover have "table hm (m\<lparr>m_data := (m_data m)[i := nb], m_size := m_size m + 1\<rparr>)"
      using less.prems i True by (intro table_place [OF t i]) auto
    ultimately show ?thesis
      using True
      by (intro exI [where x = "(m_data m)[i := nb]"]) (subst a0_map_put_loop.simps, simp add: bucket)
  next
    case occ: False
    let ?i' = "Suc i mod ?n"
    obtain c where c: "key_cmp m (b_key nb) (b_key ?b) = Inr c" "c \<noteq> 0"
      using table_cmp [OF t less.prems(3) i] absent i occ unfolding ent_def by metis
    have e: "i \<noteq> e" using occ less.prems(8) by auto
    have closer: "gap ?n ?i' e < gap ?n i e"
      by (rule gap_decreases [OF i less.prems(7) e])
    show ?thesis
    proof (cases "b_off nb > b_off ?b")
      case swap: True
      let ?m = "m\<lparr>m_data := (m_data m)[i := nb]\<rparr>" and ?nb = "?b\<lparr>b_off := b_off ?b + 1\<rparr>"
      have tm: "table hm ?m"
        using less.prems swap by (intro table_place(1) [OF t i]) auto
      have new_absent: "\<not> ent (m_data ?m) (b_key ?nb) v" for v
      proof -
        have "b_key nb \<noteq> b_key ?b" using absent i occ unfolding ent_def by metis
        then show ?thesis
          using ent_but_key [OF table_rh [OF t] i occ] i by (auto simp: ent_update)
      qed
      have IH: "\<exists>bs. a0_map_put_loop ?m ?i' ?nb = Some (A0_OK, ?m\<lparr>m_data := bs, m_size := m_size ?m + 1\<rparr>) \<and>
          length bs = length (m_data ?m) \<and> table hm (?m\<lparr>m_data := bs, m_size := m_size ?m + 1\<rparr>) \<and>
          (\<forall>k v. ent bs k v \<longleftrightarrow> ent (m_data ?m) k v \<or> (k = b_key ?nb \<and> v = b_val ?nb))"
      proof (rule less.hyps [OF _ tm])
        show "gap (length (m_data ?m)) ?i' e < gap ?n i e" using closer by simp
        show "b_off ?nb \<noteq> 0" by simp
        show "kv (b_key ?nb)" using t i occ by (auto simp: table_def ent_def)
        show "slot (length (m_data ?m)) (hm (b_key ?nb)) (b_off ?nb) = ?i'"
          using rh_slot [OF table_rh [OF t] i occ] occ by (simp add: slot_Suc)
        show "b_off ?nb \<le> Suc (b_off (m_data ?m ! j))"
          if "j < length (m_data ?m)" "Suc j mod length (m_data ?m) = ?i'" for j
          using that Suc_mod_inj [of j ?n i] i swap by simp
        show "e < length (m_data ?m)" "b_off (m_data ?m ! e) = 0"
          using less.prems(7,8) e by simp_all
      qed (rule new_absent)
      then obtain bs where bs: "a0_map_put_loop ?m ?i' ?nb
            = Some (A0_OK, m\<lparr>m_data := bs, m_size := m_size m + 1\<rparr>)"
          "length bs = ?n" "table hm (m\<lparr>m_data := bs, m_size := m_size m + 1\<rparr>)"
          "\<forall>k v. ent bs k v \<longleftrightarrow> ent (m_data ?m) k v \<or> (k = b_key ?b \<and> v = b_val ?b)"
        by auto
      have "a0_map_put_loop m i nb = Some (A0_OK, m\<lparr>m_data := bs, m_size := m_size m + 1\<rparr>)"
        using swap occ c bs(1) by (subst a0_map_put_loop.simps) (simp add: bucket table_next [OF t])
      moreover have "ent bs k v \<longleftrightarrow> ent (m_data m) k v \<or> (k = b_key nb \<and> v = b_val nb)" for k v
        using bs(4) less.prems(2) occ i by (auto simp: ent_update ent_split [OF i])
      ultimately show ?thesis using bs(2,3) by blast
    next
      case stay: False
      let ?nb = "nb\<lparr>b_off := b_off nb + 1\<rparr>"
      have "\<exists>bs. a0_map_put_loop m ?i' ?nb = Some (A0_OK, m\<lparr>m_data := bs, m_size := m_size m + 1\<rparr>) \<and>
          length bs = length (m_data m) \<and> table hm (m\<lparr>m_data := bs, m_size := m_size m + 1\<rparr>) \<and>
          (\<forall>k v. ent bs k v \<longleftrightarrow> ent (m_data m) k v \<or> (k = b_key ?nb \<and> v = b_val ?nb))"
      proof (rule less.hyps [OF closer t])
        show "slot ?n (hm (b_key ?nb)) (b_off ?nb) = ?i'"
          using sl less.prems(2) by (simp add: slot_Suc)
        show "b_off ?nb \<le> Suc (b_off (m_data m ! j))" if "j < ?n" "Suc j mod ?n = ?i'" for j
          using that Suc_mod_inj [of j ?n i] i stay by simp
      qed (use less.prems in auto)
      then show ?thesis
        using stay occ c by (subst a0_map_put_loop.simps) (simp add: bucket table_next [OF t])
    qed
  qed
qed

text \<open>Inserting a key the table holds overwrites its value in place; nothing is moved.\<close>

lemma put_loop_present:
  assumes t: "table hm m" and p: "p < length (m_data m)" "b_off (m_data m ! p) \<noteq> 0"
    and off: "1 \<le> off" "off \<le> b_off (m_data m ! p)"
    and i: "i = slot (length (m_data m)) (hm (b_key (m_data m ! p))) off"
  shows "a0_map_put_loop m i \<lparr>b_off = off, b_key = b_key (m_data m ! p), b_val = v\<rparr> =
     Some (A0_OK, m\<lparr>m_data := (m_data m)[p := (m_data m ! p)\<lparr>b_val := v\<rparr>]\<rparr>)"
  using off i
proof (induction "b_off (m_data m ! p) - off" arbitrary: off i rule: less_induct)
  case less
  let ?n = "length (m_data m)" and ?k = "b_key (m_data m ! p)"
  have in_: "i < ?n" using less.prems table_mod [OF t] by (simp add: slot_def)
  have le: "off \<le> b_off (m_data m ! i)"
    using rh_chain [OF table_rh [OF t] p] less.prems by simp
  then have occ: "b_off (m_data m ! i) \<noteq> 0" using less.prems by simp
  have kvp: "kv ?k" using t p by (metis table_def ent_def)
  obtain c where c: "key_cmp m ?k (b_key (m_data m ! i)) = Inr c" "c = 0 \<longleftrightarrow> ?k = b_key (m_data m ! i)"
    using table_cmp [OF t kvp in_ occ] by blast
  show ?case
  proof (cases "i = p")
    case True
    then show ?thesis
      using c occ in_ by (subst a0_map_put_loop.simps) (simp add: bucket_in)
  next
    case False
    then have "c \<noteq> 0"
      using c(2) rh_unique [OF table_rh [OF t] p(1) in_ p(2) occ] by auto
    moreover have "off \<noteq> b_off (m_data m ! p)"
      using False less.prems rh_slot [OF table_rh [OF t] p] by auto
    then have "a0_map_put_loop m (next_idx m i) \<lparr>b_off = Suc off, b_key = ?k, b_val = v\<rparr> =
        Some (A0_OK, m\<lparr>m_data := (m_data m)[p := (m_data m ! p)\<lparr>b_val := v\<rparr>]\<rparr>)"
      using less.prems by (intro less.hyps) (auto simp: table_next [OF t] slot_Suc)
    ultimately show ?thesis
      using c(1) occ le in_ by (subst a0_map_put_loop.simps) (simp add: bucket_in)
  qed
qed

section \<open>Deletion\<close>

lemma shift_loop_correct:
  assumes "hole hm (m_data m) h" "h < length (m_data m)" "4 \<le> length (m_data m)"
    and "length (m_data m) = 2 ^ k" "hash2idx m = 2 ^ k - 1"
  shows "\<exists>bs. a0_map_shift_loop m h = Some (m\<lparr>m_data := bs\<rparr>) \<and>
     length bs = length (m_data m) \<and> rh hm bs \<and> (\<forall>k v. ent bs k v \<longleftrightarrow> ent (m_data m) k v)"
  using assms
proof (induction "sum_list (map b_off (m_data m))" arbitrary: m h rule: less_induct)
  case less
  let ?n = "length (m_data m)" and ?h' = "Suc h mod length (m_data m)"
  let ?next = "m_data m ! (Suc h mod length (m_data m))"
  have pos: "0 < ?n" using less.prems(3) by linarith
  have h': "?h' < ?n" using pos by (rule mod_less_divisor)
  have neq: "h \<noteq> ?h'" using Suc_mod_neq [of ?n h] less.prems(2,3) by auto
  have nx: "next_idx m h = ?h'" using less.prems(4,5) next_idx_eq by simp
  have hb: "a0_map_bucket m h = Some (m_data m ! h)" using less.prems(2) by (rule bucket_in)
  have nb: "a0_map_bucket m ?h' = Some ?next" using h' by (rule bucket_in)
  show ?case
  proof (cases "b_off ?next > 1")
    case False
    then have "rh hm (m_data m)"
      using hole_close [OF less.prems(1,2)] by simp
    then show ?thesis
      using False by (intro exI [where x = "m_data m"])
        (subst a0_map_shift_loop.simps, simp add: hb nx nb)
  next
    case True
    let ?bs1 = "(m_data m)[h := ?next\<lparr>b_off := b_off ?next - 1\<rparr>]"
    let ?bs = "?bs1[?h' := ?next\<lparr>b_off := 0\<rparr>]"
    let ?m = "m\<lparr>m_data := ?bs\<rparr>"
    have hole_h: "b_off (m_data m ! h) = 0" using less.prems(1) by (simp add: hole_def)
    have "sum_list (map b_off ?bs) + 1 = sum_list (map b_off (m_data m))"
    proof -
      have "sum_list (map b_off ?bs1) = sum_list (map b_off (m_data m)) + (b_off ?next - 1)"
        using less.prems(2) hole_h by (simp add: map_update sum_list_update)
      moreover have "sum_list (map b_off ?bs) + b_off ?next = sum_list (map b_off ?bs1)"
        using h' neq elem_le_sum_list [of ?h' "map b_off ?bs1"]
        by (simp add: map_update sum_list_update)
      ultimately show ?thesis using True by simp
    qed
    then have smaller: "sum_list (map b_off (m_data ?m)) < sum_list (map b_off (m_data m))"
      by simp
    have "hole hm (m_data ?m) ?h'"
      using hole_step [OF less.prems(1-3) refl True] by simp
    then have "\<exists>bs. a0_map_shift_loop ?m ?h' = Some (?m\<lparr>m_data := bs\<rparr>) \<and>
        length bs = length (m_data ?m) \<and> rh hm bs \<and> (\<forall>k v. ent bs k v \<longleftrightarrow> ent (m_data ?m) k v)"
    proof (rule less.hyps [OF smaller])
      show "?h' < length (m_data ?m)" using h' by simp
      show "4 \<le> length (m_data ?m)" using less.prems(3) by simp
      show "length (m_data ?m) = 2 ^ k" "hash2idx ?m = 2 ^ k - 1" using less.prems(4,5) by simp_all
    qed
    then obtain bs where bs: "a0_map_shift_loop ?m ?h' = Some (m\<lparr>m_data := bs\<rparr>)" "length bs = ?n"
        "rh hm bs" "\<forall>k v. ent bs k v \<longleftrightarrow> ent ?bs k v"
      by auto
    have "ent ?bs k v \<longleftrightarrow> ent (m_data m) k v" for k v
    proof -
      have "ent ?bs k v \<longleftrightarrow> ent_but ?bs1 ?h' k v"
        using h' by (simp add: ent_update)
      also have "\<dots> \<longleftrightarrow> ent_but (m_data m) ?h' k v \<or> (b_key ?next = k \<and> b_val ?next = v)"
        using True by (subst ent_but_fill [OF less.prems(2) neq hole_h]) simp_all
      also have "\<dots> \<longleftrightarrow> ent (m_data m) k v"
        using h' True by (auto simp: ent_split [OF h'])
      finally show ?thesis .
    qed
    then show ?thesis
      using True bs by (intro exI [where x = bs])
        (subst a0_map_shift_loop.simps, simp add: hb nx nb)
  qed
qed

lemma del_bucket_correct:
  assumes t: "table hm m" and p: "p < length (m_data m)" "b_off (m_data m ! p) \<noteq> 0"
  shows "\<exists>bs. a0_map_del_bucket m p = Some (A0_OK, m\<lparr>m_data := bs, m_size := m_size m - 1\<rparr>) \<and>
     length bs = length (m_data m) \<and> table hm (m\<lparr>m_data := bs, m_size := m_size m - 1\<rparr>) \<and>
     (\<forall>k v. ent bs k v \<longleftrightarrow> ent (m_data m) k v \<and> k \<noteq> b_key (m_data m ! p))"
proof -
  let ?m = "m\<lparr>m_data := (m_data m)[p := (m_data m ! p)\<lparr>b_off := 0\<rparr>], m_size := m_size m - 1\<rparr>"
  obtain k where k: "length (m_data m) = 2 ^ k" "hash2idx m = 2 ^ k - 1"
    using t by (auto simp: table_def)
  have "hole hm (m_data ?m) p"
    using hole_start [OF table_rh [OF t] p(1)] table_big [OF t] by simp
  then obtain bs where bs: "a0_map_shift_loop ?m p = Some (?m\<lparr>m_data := bs\<rparr>)"
      "length bs = length (m_data m)" "rh hm bs" "\<forall>k v. ent bs k v \<longleftrightarrow> ent (m_data ?m) k v"
    using shift_loop_correct [of hm ?m p k] p k table_big [OF t] by auto
  have ents: "ent bs k v \<longleftrightarrow> ent (m_data m) k v \<and> k \<noteq> b_key (m_data m ! p)" for k v
    using bs(4) p ent_but_key [OF table_rh [OF t] p] by (simp add: ent_update)
  have "kv k'" if "ent bs k' v" for k' v
    using that t ents unfolding table_def by blast
  then have "table hm (m\<lparr>m_data := bs, m_size := m_size m - 1\<rparr>)"
    using t bs(2,3) by (simp add: table_def)
  then show ?thesis
    using bs ents by (intro exI [where x = bs]) (simp add: a0_map_del_bucket_def bucket_in [OF p(1)])
qed

end

end
