(* ===== verification/Dictionary.thy ===== *)
theory Dictionary
  imports Prelude
begin

text \<open>
  What the clients of the hash map rely on: operations on an abstract finite map. The RPC and
  PRPC endpoints keep their outstanding requests and connections in such a dictionary, topic
  aliases and discovery keep their entries in one. The hash map of \<^verbatim>\<open>src/map.c\<close> is shown to
  provide it in \<open>HashMap_Correct\<close>.

  An operation returns an option (\<open>None\<close> for a call that does not return or leaves its memory).
\<close>

datatype ('k, 'v) dict_op = Put 'k 'v | Del 'k | Pop 'k

locale dictionary =
  fixes inv :: "'m \<Rightarrow> bool"
    and abs :: "'m \<Rightarrow> 'k \<rightharpoonup> 'v"
    and valid :: "'k \<Rightarrow> bool"
    and put :: "'m \<Rightarrow> 'k \<Rightarrow> 'v \<Rightarrow> (a0_err \<times> 'm) option"
    and get :: "'m \<Rightarrow> 'k \<Rightarrow> (a0_err + 'v) option"
    and del :: "'m \<Rightarrow> 'k \<Rightarrow> (a0_err \<times> 'm) option"
    and pop :: "'m \<Rightarrow> 'k \<Rightarrow> ((a0_err + 'v) \<times> 'm) option"
    and has :: "'m \<Rightarrow> 'k \<Rightarrow> bool option"
    and size_of :: "'m \<Rightarrow> nat"
  assumes put_law: "inv m \<Longrightarrow> valid k \<Longrightarrow>
      \<exists>m'. put m k v = Some (A0_OK, m') \<and> inv m' \<and> abs m' = (abs m)(k \<mapsto> v)"
    and get_law: "inv m \<Longrightarrow> valid k \<Longrightarrow>
      get m k = Some (case abs m k of None \<Rightarrow> Inl A0_ERR_NOT_FOUND | Some v \<Rightarrow> Inr v)"
    and has_law: "inv m \<Longrightarrow> valid k \<Longrightarrow> has m k = Some (k \<in> dom (abs m))"
    and del_law: "inv m \<Longrightarrow> valid k \<Longrightarrow> case abs m k of
        None \<Rightarrow> del m k = Some (A0_ERR_NOT_FOUND, m)
      | Some v \<Rightarrow> \<exists>m'. del m k = Some (A0_OK, m') \<and> inv m' \<and> abs m' = (abs m)(k := None)"
    and pop_law: "inv m \<Longrightarrow> valid k \<Longrightarrow> case abs m k of
        None \<Rightarrow> pop m k = Some (Inl A0_ERR_NOT_FOUND, m)
      | Some v \<Rightarrow> \<exists>m'. pop m k = Some (Inr v, m') \<and> inv m' \<and> abs m' = (abs m)(k := None)"
    and size_law: "inv m \<Longrightarrow> size_of m = card (dom (abs m)) \<and> finite (dom (abs m))"
begin

lemma put_get:
  assumes "inv m" "valid k" "valid k'"
  shows "\<exists>m'. put m k v = Some (A0_OK, m') \<and> inv m' \<and>
     get m' k' = (if k' = k then Some (Inr v) else get m k')"
  using put_law [OF assms(1,2), of v] get_law assms by (metis fun_upd_apply option.case(2))

lemma pop_twice:
  assumes "inv m" "valid k" "pop m k = Some (Inr v, m')"
  shows "inv m' \<and> pop m' k = Some (Inl A0_ERR_NOT_FOUND, m') \<and> get m' k = Some (Inl A0_ERR_NOT_FOUND)"
proof -
  obtain w where "abs m k = Some w"
    using pop_law [OF assms(1,2)] assms(3) by (cases "abs m k") auto
  then have m': "inv m'" "abs m' k = None"
    using pop_law [OF assms(1,2)] assms(3) by auto
  then show ?thesis
    using pop_law [OF m'(1) assms(2)] get_law [OF m'(1) assms(2)] by simp
qed

lemma del_is_pop:
  assumes "inv m" "valid k"
  shows "\<exists>e m1 m2 r. del m k = Some (e, m1) \<and> pop m k = Some (r, m2) \<and> abs m1 = abs m2 \<and>
     (e = A0_OK \<longleftrightarrow> (\<exists>v. r = Inr v)) \<and> inv m1 \<and> inv m2"
  using del_law [OF assms] pop_law [OF assms] assms(1) by (cases "abs m k") auto

text \<open>A sequence of operations, and the finite map it should build.\<close>

fun run :: "('k, 'v) dict_op list \<Rightarrow> 'm \<Rightarrow> 'm option" where
  "run [] m = Some m"
| "run (Put k v # ops) m = Option.bind (put m k v) (\<lambda>(_, m'). run ops m')"
| "run (Del k # ops) m = Option.bind (del m k) (\<lambda>(_, m'). run ops m')"
| "run (Pop k # ops) m = Option.bind (pop m k) (\<lambda>(_, m'). run ops m')"

fun run_abs :: "('k, 'v) dict_op list \<Rightarrow> ('k \<rightharpoonup> 'v) \<Rightarrow> 'k \<rightharpoonup> 'v" where
  "run_abs [] f = f"
| "run_abs (Put k v # ops) f = run_abs ops (f(k \<mapsto> v))"
| "run_abs (Del k # ops) f = run_abs ops (f(k := None))"
| "run_abs (Pop k # ops) f = run_abs ops (f(k := None))"

fun op_key :: "('k, 'v) dict_op \<Rightarrow> 'k" where
  "op_key (Put k v) = k"
| "op_key (Del k) = k"
| "op_key (Pop k) = k"

lemma run_correct:
  "inv m \<Longrightarrow> (\<And>op. op \<in> set ops \<Longrightarrow> valid (op_key op)) \<Longrightarrow>
     \<exists>m'. run ops m = Some m' \<and> inv m' \<and> abs m' = run_abs ops (abs m)"
proof (induction ops arbitrary: m)
  case (Cons op ops)
  have absent: "(abs m)(k := None) = abs m" if "abs m k = None" for k
    using that by (simp add: fun_upd_idem)
  show ?case
  proof (cases op)
    case (Put k v)
    then show ?thesis using Cons put_law [of m k v] by fastforce
  next
    case (Del k)
    then show ?thesis
      using Cons del_law [of m k] absent [of k] by (cases "abs m k") fastforce+
  next
    case (Pop k)
    then show ?thesis
      using Cons pop_law [of m k] absent [of k] by (cases "abs m k") fastforce+
  qed
qed simp

end

text \<open>A client that also writes through the pointer that a lookup gives it.\<close>

locale dictionary_store = dictionary +
  fixes store :: "'a \<Rightarrow> 'b \<Rightarrow> 'c \<Rightarrow> 'a option"
  assumes store_law: "inv m \<Longrightarrow> valid k \<Longrightarrow> abs m k = Some v \<Longrightarrow>
      \<exists>m'. store m k w = Some m' \<and> inv m' \<and> abs m' = (abs m)(k \<mapsto> w)"
begin

text \<open>Storing what is there already changes nothing, and a store is a put.\<close>

lemma store_is_put:
  assumes "inv m" "valid k" "k \<in> dom (abs m)"
  shows "\<exists>m1 m2. store m k w = Some m1 \<and> put m k w = Some (A0_OK, m2) \<and> abs m1 = abs m2 \<and> inv m1 \<and> inv m2"
  using store_law [OF assms(1,2)] put_law [OF assms(1,2)] assms(3) by (metis domD)

end

end
