(* ===== verification/HashMap_Correct.thy ===== *)
theory HashMap_Correct
  imports HashMap_Table Dictionary
begin

text \<open>
  Correctness of the operations of \<^verbatim>\<open>src/map.c\<close>: each is the matching operation of a finite map,
  and each keeps the invariant \<open>map_inv\<close>. Growing is shown to nest only once.
\<close>

section \<open>The invariant of a map and its contents\<close>

definition home :: "('k, 'v) a0_map \<Rightarrow> 'k \<Rightarrow> nat" where
  "home m k = unat (projr (key_hash m k)) mod m_cap m"

definition map_inv :: "('k \<Rightarrow> bool) \<Rightarrow> ('k, 'v) a0_map \<Rightarrow> bool" where
  "map_inv kv m \<longleftrightarrow>
     m_cap m = length (m_data m) \<and>
     m_size m = card {k. \<exists>v. ent (m_data m) k v} \<and> 2 * m_size m \<le> m_cap m \<and>
     (\<forall>k v. ent (m_data m) k v \<longrightarrow> kv k) \<and>
     (m_cap m \<noteq> 0 \<longrightarrow>
        (\<exists>k\<ge>2. m_cap m = 2 ^ k) \<and> hash2idx m = m_cap m - 1 \<and> rh (home m) (m_data m))"

definition map_abs :: "('k, 'v) a0_map \<Rightarrow> 'k \<rightharpoonup> 'v" where
  "map_abs m = map_of (map (\<lambda>b. (b_key b, b_val b)) (filter (\<lambda>b. b_off b \<noteq> 0) (m_data m)))"

lemma map_inv_fun: "map_inv kv m \<Longrightarrow> ent (m_data m) k v \<Longrightarrow> ent (m_data m) k w \<Longrightarrow> v = w"
  unfolding map_inv_def using ent_fun by (metis ent_def length_0_conv less_nat_zero_code list.size(3))

lemma map_abs_ent:
  assumes "\<And>v w. ent (m_data m) k v \<Longrightarrow> ent (m_data m) k w \<Longrightarrow> v = w"
  shows "map_abs m k = Some v \<longleftrightarrow> ent (m_data m) k v"
proof
  assume "map_abs m k = Some v"
  then show "ent (m_data m) k v"
    by (auto simp: map_abs_def ent_def in_set_conv_nth dest!: map_of_SomeD)
next
  assume e: "ent (m_data m) k v"
  then have "map_abs m k \<noteq> None"
    by (auto simp: map_abs_def ent_def map_of_eq_None_iff image_iff in_set_conv_nth)
  then obtain w where w: "map_abs m k = Some w" by auto
  then have "ent (m_data m) k w"
    by (auto simp: map_abs_def ent_def in_set_conv_nth dest!: map_of_SomeD)
  with e w assms show "map_abs m k = Some v" by metis
qed

lemma map_abs_iff: "map_inv kv m \<Longrightarrow> map_abs m k = Some v \<longleftrightarrow> ent (m_data m) k v"
  by (rule map_abs_ent) (rule map_inv_fun)

lemma map_abs_None: "map_inv kv m \<Longrightarrow> map_abs m k = None \<longleftrightarrow> (\<forall>v. \<not> ent (m_data m) k v)"
  using map_abs_iff by (metis option.exhaust option.distinct(1))

lemma dom_map_abs: "map_inv kv m \<Longrightarrow> dom (map_abs m) = {k. \<exists>v. ent (m_data m) k v}"
  by (auto simp: map_abs_iff)

lemma finite_ent: "finite {k. \<exists>v. ent bs k v}"
proof -
  have "{k. \<exists>v. ent bs k v} \<subseteq> b_key ` set bs" by (auto simp: ent_def)
  then show ?thesis by (rule finite_subset) simp
qed

lemma map_size_card: "map_inv kv m \<Longrightarrow> m_size m = card (dom (map_abs m))"
  by (subst dom_map_abs, assumption) (simp add: map_inv_def)

lemma map_abs_eqI:
  assumes "map_inv kv m" "\<And>k v. ent (m_data m) k v \<longleftrightarrow> f k = Some v"
  shows "map_abs m = f"
  using map_abs_iff [OF assms(1)] assms(2) by (intro ext) (metis option.exhaust)

text \<open>A table with at least one empty bucket: what insertion needs to stop.\<close>

lemma empty_bucket:
  assumes rh: "rh hm bs" and size: "card {k. \<exists>v. ent bs k v} < length bs"
  shows "\<exists>e<length bs. b_off (bs ! e) = 0"
proof (rule ccontr)
  assume no: "\<not> ?thesis"
  then have "inj_on (\<lambda>i. b_key (bs ! i)) {..<length bs}"
    by (intro inj_onI) (use rh_unique [OF rh] in auto)
  moreover have "(\<lambda>i. b_key (bs ! i)) ` {..<length bs} = {k. \<exists>v. ent bs k v}"
    using no by (auto simp: ent_def)
  ultimately have "card {k. \<exists>v. ent bs k v} = length bs"
    using card_image by fastforce
  with size show False by simp
qed

section \<open>Iteration\<close>

abbreviation occupied :: "('k, 'v) a0_map_bucket list \<Rightarrow> ('k, 'v) a0_map_bucket list" where
  "occupied bs \<equiv> filter (\<lambda>b. b_off b \<noteq> 0) bs"

lemma iterator_loop_empty:
  assumes "m_cap m = length (m_data m)" "idx \<le> m_cap m" "occupied (drop idx (m_data m)) = []"
  shows "a0_map_iterator_loop m idx = Some (m_cap m + 1, m_cap m)"
  using assms
proof (induction "m_cap m - idx" arbitrary: idx)
  case 0
  then show ?case by (subst a0_map_iterator_loop.simps) simp
next
  case (Suc d)
  then have idx: "idx < length (m_data m)" by simp
  with Suc.prems(3) have free: "b_off (m_data m ! idx) = 0"
    and rest: "occupied (drop (idx + 1) (m_data m)) = []"
    by (auto simp: Cons_nth_drop_Suc [symmetric] split: if_splits)
  have "a0_map_iterator_loop m (idx + 1) = Some (m_cap m + 1, m_cap m)"
    using Suc.hyps(2) Suc.prems(1) idx rest by (intro Suc.hyps(1)) auto
  then show ?case
    using idx free Suc.prems(1) by (subst a0_map_iterator_loop.simps) (simp add: a0_map_bucket_def)
qed

lemma iterator_loop_found:
  assumes "m_cap m = length (m_data m)" "occupied (drop idx (m_data m)) = b # rest"
  shows "\<exists>p<m_cap m. a0_map_iterator_loop m idx = Some (p + 1, p) \<and> m_data m ! p = b \<and>
     b_off b \<noteq> 0 \<and> occupied (drop (p + 1) (m_data m)) = rest"
  using assms
proof (induction "m_cap m - idx" arbitrary: idx)
  case 0
  then show ?case by simp
next
  case (Suc d)
  then have idx: "idx < length (m_data m)" by simp
  then have drop: "drop idx (m_data m) = m_data m ! idx # drop (idx + 1) (m_data m)"
    by (simp add: Cons_nth_drop_Suc)
  show ?case
  proof (cases "b_off (m_data m ! idx) = 0")
    case False
    then show ?thesis
      using Suc.prems drop idx
      by (intro exI [where x = idx]) (subst a0_map_iterator_loop.simps, simp add: a0_map_bucket_def)
  next
    case True
    then have "occupied (drop (idx + 1) (m_data m)) = b # rest"
      using Suc.prems(2) drop by simp
    then have "\<exists>p<m_cap m. a0_map_iterator_loop m (idx + 1) = Some (p + 1, p) \<and> m_data m ! p = b \<and>
        b_off b \<noteq> 0 \<and> occupied (drop (p + 1) (m_data m)) = rest"
      using Suc.hyps(2) Suc.prems(1) by (intro Suc.hyps(1)) auto
    then obtain p where "p < m_cap m" "a0_map_iterator_loop m (idx + 1) = Some (p + 1, p)"
        "m_data m ! p = b" "b_off b \<noteq> 0" "occupied (drop (p + 1) (m_data m)) = rest"
      by blast
    then show ?thesis
      using True idx Suc.prems(1)
      by (intro exI [where x = p]) (subst a0_map_iterator_loop.simps, simp add: a0_map_bucket_def)
  qed
qed

lemma iterator_next_done:
  assumes "m_cap m = length (m_data m)" "idx \<le> m_cap m" "occupied (drop idx (m_data m)) = []"
  shows "\<exists>idx'. a0_map_iterator_next m idx = Some (Inl A0_ERR_ITER_DONE, idx')"
  using iterator_loop_empty [OF assms] by (simp add: a0_map_iterator_next_def)

lemma iterator_next_entry:
  assumes "m_cap m = length (m_data m)" "occupied (drop idx (m_data m)) = b # rest"
  shows "\<exists>idx'\<le>m_cap m. a0_map_iterator_next m idx = Some (Inr (b_key b, b_val b), idx') \<and>
     occupied (drop idx' (m_data m)) = rest"
proof -
  obtain p where "p < m_cap m" "a0_map_iterator_loop m idx = Some (p + 1, p)" "m_data m ! p = b"
      "occupied (drop (p + 1) (m_data m)) = rest"
    using iterator_loop_found [OF assms] by blast
  moreover have "idx < m_cap m" using assms by (cases "idx < m_cap m") auto
  ultimately show ?thesis
    using assms(1)
    by (intro exI [where x = "p + 1"]) (simp add: a0_map_iterator_next_def a0_map_bucket_def)
qed

lemma occupied_distinct: "rh hm bs \<Longrightarrow> distinct (map b_key (occupied bs))"
proof -
  assume rh: "rh hm bs"
  have "distinct (map b_key (occupied (take n bs))) \<and>
      (\<forall>b \<in> set (occupied (take n bs)). \<exists>i<n. i < length bs \<and> bs ! i = b)" for n
  proof (induction n)
    case (Suc n)
    then show ?case
    proof (cases "n < length bs")
      case True
      have "b_key (bs ! n) \<notin> b_key ` set (occupied (take n bs))" if "b_off (bs ! n) \<noteq> 0"
        using Suc.IH rh_unique [OF rh True] that by fastforce
      then show ?thesis
        using Suc.IH True by (auto simp: take_Suc_conv_app_nth less_Suc_eq)
    qed (auto simp: less_Suc_eq)
  qed simp
  from this [of "length bs"] show ?thesis by simp
qed

lemma occupied_keys: "b_key ` set (occupied bs) = {k. \<exists>v. ent bs k v}"
  unfolding ent_def by (auto simp: in_set_conv_nth image_iff)

section \<open>Operations on a table\<close>

context map_keys
begin

text \<open>A table with its size and capacity in order, whatever its load.\<close>

definition good :: "('k, 'v) a0_map \<Rightarrow> bool" where
  "good m \<longleftrightarrow> table (home m) m \<and> m_cap m = length (m_data m) \<and>
     m_size m = card {k. \<exists>v. ent (m_data m) k v}"

lemma map_inv_good:
  assumes "map_inv kv m" "key_hash m = kh" "key_cmp m = kc"
  shows "m_cap m = 0 \<and> m_data m = [] \<and> m_size m = 0 \<or> good m \<and> 2 * m_size m \<le> m_cap m"
proof (cases "m_cap m = 0")
  case False
  then obtain k where "k \<ge> 2" "m_cap m = 2 ^ k" using assms(1) by (auto simp: map_inv_def)
  then show ?thesis
    using False assms unfolding good_def table_def map_inv_def by (auto intro!: exI [where x = k])
qed (use assms in \<open>simp_all add: map_inv_def ent_def\<close>)

lemma good_map_inv: "good m \<Longrightarrow> 2 * m_size m \<le> m_cap m \<Longrightarrow> map_inv kv m"
  unfolding good_def map_inv_def table_def by auto

lemma good_abs: "good m \<Longrightarrow> map_abs m k = Some v \<longleftrightarrow> ent (m_data m) k v"
  by (rule map_abs_ent) (auto simp: good_def dest!: table_rh intro: ent_fun)

lemma good_dom: "good m \<Longrightarrow> dom (map_abs m) = {k. \<exists>v. ent (m_data m) k v}"
  by (auto simp: good_abs)

lemma good_size: "good m \<Longrightarrow> m_size m = card (dom (map_abs m))"
  by (subst good_dom, assumption) (simp add: good_def)

lemma good_finite: "good m \<Longrightarrow> finite (dom (map_abs m))"
  by (simp add: good_dom finite_ent)

lemma good_absI:
  assumes "good m" "\<And>k v. ent (m_data m) k v \<longleftrightarrow> f k = Some v"
  shows "map_abs m = f"
  using good_abs [OF assms(1)] assms(2) by (intro ext) (metis option.exhaust)

lemma good_big: "good m \<Longrightarrow> 4 \<le> m_cap m"
  using table_big by (auto simp: good_def)

lemma home_index:
  assumes "good m" "kh k = Inr h"
  shows "unat h AND hash2idx m = home m k" and "slot (length (m_data m)) (home m k) 1 = home m k"
    and "home m k < length (m_data m)"
proof -
  obtain n where n: "length (m_data m) = 2 ^ n" "hash2idx m = 2 ^ n - 1" "m_cap m = 2 ^ n" "key_hash m = kh"
    using assms(1) by (auto simp: good_def table_def)
  then show idx: "unat h AND hash2idx m = home m k"
    using assms(2) by (simp add: home_def and_mask_mod [unfolded One_nat_def])
  show lt: "home m k < length (m_data m)"
    using n by (simp add: home_def)
  show "slot (length (m_data m)) (home m k) 1 = home m k"
    using lt by (simp add: slot_def)
qed

lemma home_same: "key_hash m' = key_hash m \<Longrightarrow> m_cap m' = m_cap m \<Longrightarrow> home m' = home m"
  by (simp add: home_def fun_eq_iff)

lemma home_upd [simp]: "home (m\<lparr>m_data := bs\<rparr>) = home m" "home (m\<lparr>m_size := s\<rparr>) = home m"
  by (simp_all add: home_def fun_eq_iff)

text \<open>Writing the value of an entry in place.\<close>

lemma overwrite_correct:
  assumes g: "good m" and p: "p < length (m_data m)" "b_off (m_data m ! p) \<noteq> 0" "b_key (m_data m ! p) = k"
    and m': "m' = m\<lparr>m_data := (m_data m)[p := (m_data m ! p)\<lparr>b_val := v\<rparr>]\<rparr>"
  shows "good m' \<and> map_abs m' = (map_abs m)(k \<mapsto> v)"
proof -
  have t: "table (home m) m" and cap: "m_cap m = length (m_data m)"
    and size: "m_size m = card {k. \<exists>v. ent (m_data m) k v}"
    using g by (simp_all add: good_def)
  let ?bs = "(m_data m)[p := (m_data m ! p)\<lparr>b_val := v\<rparr>]"
  have here: "\<exists>w. ent (m_data m) k w" using p by (auto simp: ent_def)
  then have k: "kv k" using t by (auto simp: table_def)
  have ents: "ent ?bs k' v' \<longleftrightarrow> (if k' = k then v' = v else ent (m_data m) k' v')" for k' v'
    using p ent_but_key [OF table_rh [OF t] p(1,2)] by (auto simp: ent_update)
  have "{k. \<exists>v. ent ?bs k v} = {k. \<exists>v. ent (m_data m) k v}" using here by (auto simp: ents)
  moreover have "rh (home m) ?bs"
    using table_rh [OF t] p unfolding rh_def
    by (simp add: nth_list_update) (metis (no_types, lifting))
  moreover have "\<forall>k' v'. ent ?bs k' v' \<longrightarrow> kv k'"
    using k t by (auto simp: ents table_def)
  ultimately have g': "good m'"
    using t cap size by (simp add: good_def table_def m')
  then have "map_abs m' = (map_abs m)(k \<mapsto> v)"
    by (rule good_absI) (auto simp: ents good_abs [OF g] m')
  with g' show ?thesis by blast
qed

lemma put_nogrow_correct:
  assumes g: "good m" and k: "kv k" and room: "m_size m < m_cap m"
  shows "\<exists>m'. a0_map_put_nogrow m k v = Some (A0_OK, m') \<and> good m' \<and>
     map_abs m' = (map_abs m)(k \<mapsto> v) \<and> m_cap m' = m_cap m"
proof -
  have t: "table (home m) m" and cap: "m_cap m = length (m_data m)"
    and size: "m_size m = card {k. \<exists>v. ent (m_data m) k v}"
    using g by (simp_all add: good_def)
  obtain h where h: "kh k = Inr h" using hash_total [OF k] by blast
  let ?nb = "\<lparr>b_off = 1, b_key = k, b_val = v\<rparr>"
  have start: "a0_map_put_nogrow m k v = a0_map_put_loop m (home m k) ?nb"
    using h t home_index(1) [OF g h] by (simp add: a0_map_put_nogrow_def table_def)
  show ?thesis
  proof (cases "\<exists>w. ent (m_data m) k w")
    case True
    then obtain p where p: "p < length (m_data m)" "b_off (m_data m ! p) \<noteq> 0" "b_key (m_data m ! p) = k"
      by (auto simp: ent_def)
    let ?bs = "(m_data m)[p := (m_data m ! p)\<lparr>b_val := v\<rparr>]"
    have "a0_map_put_loop m (home m k) ?nb = Some (A0_OK, m\<lparr>m_data := ?bs\<rparr>)"
      using put_loop_present [OF t p(1,2), of 1 "home m k" v] p home_index(2) [OF g h] by simp
    moreover have "good (m\<lparr>m_data := ?bs\<rparr>) \<and> map_abs (m\<lparr>m_data := ?bs\<rparr>) = (map_abs m)(k \<mapsto> v)"
      by (rule overwrite_correct [OF g p refl])
    ultimately show ?thesis using start by simp
  next
    case False
    obtain e where e: "e < length (m_data m)" "b_off (m_data m ! e) = 0"
      using empty_bucket [OF table_rh [OF t]] room cap size by auto
    obtain bs where bs: "a0_map_put_loop m (home m k) ?nb = Some (A0_OK, m\<lparr>m_data := bs, m_size := m_size m + 1\<rparr>)"
        "length bs = length (m_data m)" "table (home m) (m\<lparr>m_data := bs, m_size := m_size m + 1\<rparr>)"
        "\<And>k' v'. ent bs k' v' \<longleftrightarrow> ent (m_data m) k' v' \<or> (k' = k \<and> v' = v)"
      using put_loop_absent [OF t, of ?nb "home m k" e] k e False home_index(2) [OF g h] by auto
    let ?m = "m\<lparr>m_data := bs, m_size := m_size m + 1\<rparr>"
    have "{k. \<exists>v. ent bs k v} = insert k {k. \<exists>v. ent (m_data m) k v}" by (auto simp: bs(4))
    then have "card {k. \<exists>v. ent bs k v} = m_size m + 1"
      using False by (simp add: size finite_ent)
    then have g': "good ?m" using bs(2,3) cap by (simp add: good_def)
    then have "map_abs ?m = (map_abs m)(k \<mapsto> v)"
      by (rule good_absI) (use False in \<open>auto simp: bs(4) good_abs [OF g]\<close>)
    then show ?thesis using start bs(1) g' by simp
  qed
qed

section \<open>Growing\<close>

lemma good_occupied:
  assumes "good m"
  shows "length (occupied (m_data m)) = m_size m" and "map_of (map (\<lambda>b. (b_key b, b_val b)) (occupied (m_data m))) = map_abs m"
    and "distinct (map b_key (occupied (m_data m)))" and "b \<in> set (occupied (m_data m)) \<Longrightarrow> kv (b_key b)"
proof -
  have t: "table (home m) m" using assms by (simp add: good_def)
  show d: "distinct (map b_key (occupied (m_data m)))"
    by (rule occupied_distinct [OF table_rh [OF t]])
  have "m_size m = card (b_key ` set (occupied (m_data m)))"
    using assms by (simp only: occupied_keys good_def)
  then show "length (occupied (m_data m)) = m_size m"
    using distinct_card [OF d] by (simp only: length_map set_map)
  show "map_of (map (\<lambda>b. (b_key b, b_val b)) (occupied (m_data m))) = map_abs m"
    by (simp add: map_abs_def)
  show "kv (b_key b)" if "b \<in> set (occupied (m_data m))"
    using that t unfolding table_def ent_def by (auto simp: in_set_conv_nth)
qed

lemma grow_loop_correct:
  assumes "m_cap m = length (m_data m)" "idx \<le> m_cap m" "occupied (drop idx (m_data m)) = xs"
    and "good n" "2 * (m_size n + length xs) \<le> m_cap n"
    and "distinct (map b_key xs)" "\<And>b. b \<in> set xs \<Longrightarrow> kv (b_key b)"
  shows "\<exists>n'. (\<forall>d. a0_map_grow_loop (a0_map_put_d (Suc d)) m idx n = Some (A0_OK, n')) \<and> good n' \<and>
     map_abs n' = map_abs n ++ map_of (map (\<lambda>b. (b_key b, b_val b)) xs) \<and> m_cap n' = m_cap n"
  using assms
proof (induction xs arbitrary: idx n)
  case Nil
  then show ?case
    using iterator_next_done [OF Nil(1-3)] by (subst a0_map_grow_loop.simps) auto
next
  case (Cons b xs)
  obtain idx' where next': "idx' \<le> m_cap m" "occupied (drop idx' (m_data m)) = xs"
      "a0_map_iterator_next m idx = Some (Inr (b_key b, b_val b), idx')"
    using iterator_next_entry [OF Cons.prems(1,3)] by blast
  obtain n1 where n1: "a0_map_put_nogrow n (b_key b) (b_val b) = Some (A0_OK, n1)" "good n1"
      "map_abs n1 = (map_abs n)(b_key b \<mapsto> b_val b)" "m_cap n1 = m_cap n"
    using put_nogrow_correct [OF Cons.prems(4), of "b_key b" "b_val b"] Cons.prems(5,7) by auto
  have put: "a0_map_put_d (Suc d) n (b_key b) (b_val b) = Some (A0_OK, n1)" for d
    using n1(1) Cons.prems(5) by simp
  have "m_size n1 \<le> m_size n + 1"
    using n1(3) good_size [OF n1(2)] good_size [OF Cons.prems(4)] good_finite [OF Cons.prems(4)]
    by (simp add: card_insert_if)
  then have "\<exists>n'. (\<forall>d. a0_map_grow_loop (a0_map_put_d (Suc d)) m idx' n1 = Some (A0_OK, n')) \<and> good n' \<and>
     map_abs n' = map_abs n1 ++ map_of (map (\<lambda>b. (b_key b, b_val b)) xs) \<and> m_cap n' = m_cap n1"
    using Cons.prems n1(2,4) next' by (intro Cons.IH) auto
  moreover have "map_abs n1 ++ map_of (map (\<lambda>b. (b_key b, b_val b)) xs)
      = map_abs n ++ map_of (map (\<lambda>b. (b_key b, b_val b)) (b # xs))"
  proof -
    have "b_key b \<notin> dom (map_of (map (\<lambda>b. (b_key b, b_val b)) xs))"
      using Cons.prems(6) by (simp add: dom_map_of_conv_image_fst image_image)
    then show ?thesis by (simp add: n1(3) map_add_upd_left)
  qed
  ultimately show ?case
    using next'(3) put n1(4) by (subst a0_map_grow_loop.simps) auto
qed

lemma grow_correct:
  assumes inv: "map_inv kv m" "key_hash m = kh" "key_cmp m = kc"
  shows "\<exists>m'. (\<forall>d. a0_map_grow (a0_map_put_d (Suc d)) m = Some (A0_OK, m')) \<and> good m' \<and>
     map_abs m' = map_abs m \<and> m_cap m' = (if m_cap m \<noteq> 0 then m_cap m * 2 else 4)"
proof -
  let ?cap = "if m_cap m \<noteq> 0 then m_cap m * 2 else 4"
  let ?new = "m\<lparr>m_size := 0, m_cap := ?cap, hash2idx := ?cap - 1,
      m_data := replicate ?cap \<lparr>b_off = 0, b_key = fst (zero m), b_val = snd (zero m)\<rparr>\<rparr>"
  let ?xs = "occupied (m_data m)"
  have "\<exists>k\<ge>2. ?cap = 2 ^ k"
  proof (cases "m_cap m = 0")
    case False
    then obtain k where "k \<ge> 2" "m_cap m = 2 ^ k" using inv by (auto simp: map_inv_def)
    then show ?thesis by (intro exI [where x = "Suc k"]) simp
  qed (auto intro!: exI [where x = 2])
  then have new: "good ?new"
    using inv rh_empty [where n = ?cap]
    by (auto simp: good_def table_def ent_empty)
  have new_abs: "map_abs ?new = Map.empty" by (simp add: map_abs_def)
  have xs: "length ?xs = m_size m" "map_of (map (\<lambda>b. (b_key b, b_val b)) ?xs) = map_abs m"
      "distinct (map b_key ?xs)" "\<And>b. b \<in> set ?xs \<Longrightarrow> kv (b_key b)"
    using map_inv_good [OF inv] good_occupied by (auto simp: map_abs_def)
  have load: "2 * m_size m \<le> m_cap m" "m_cap m = length (m_data m)"
    using inv(1) by (simp_all add: map_inv_def)
  have "\<exists>n'. (\<forall>d. a0_map_grow_loop (a0_map_put_d (Suc d)) m 0 ?new = Some (A0_OK, n')) \<and> good n' \<and>
     map_abs n' = map_abs ?new ++ map_of (map (\<lambda>b. (b_key b, b_val b)) ?xs) \<and> m_cap n' = m_cap ?new"
    by (rule grow_loop_correct [OF load(2) _ _ new _ xs(3,4)]) (use load xs(1) in auto)
  then obtain n' where n': "\<And>d. a0_map_grow_loop (a0_map_put_d (Suc d)) m 0 ?new = Some (A0_OK, n')"
      "good n'" "map_abs n' = map_abs m" "m_cap n' = ?cap"
    unfolding new_abs xs(2) by auto
  have "a0_map_grow (a0_map_put_d (Suc d)) m = Some (A0_OK, n')" for d
    unfolding a0_map_grow_def Let_def by (rule n'(1))
  then show ?thesis using n'(2-4) by blast
qed

section \<open>The operations of a map\<close>

lemma put_d_correct:
  assumes inv: "map_inv kv m" "key_hash m = kh" "key_cmp m = kc" and k: "kv k"
  shows "\<exists>m'. (\<forall>d. a0_map_put_d (Suc (Suc d)) m k v = Some (A0_OK, m')) \<and> map_inv kv m' \<and>
     map_abs m' = (map_abs m)(k \<mapsto> v) \<and> key_hash m' = kh \<and> key_cmp m' = kc"
proof -
  have done_: "\<exists>m'. a0_map_put_nogrow g k v = Some (A0_OK, m') \<and> map_inv kv m' \<and>
     map_abs m' = (map_abs m)(k \<mapsto> v) \<and> key_hash m' = kh \<and> key_cmp m' = kc"
    if g: "good g" "map_abs g = map_abs m" and room: "2 * m_size g + 2 \<le> m_cap g" for g
  proof -
    obtain m' where m': "a0_map_put_nogrow g k v = Some (A0_OK, m')" "good m'"
        "map_abs m' = (map_abs g)(k \<mapsto> v)" "m_cap m' = m_cap g"
      using put_nogrow_correct [OF g(1) k] room by auto
    have "m_size m' \<le> m_size g + 1"
      using m'(3) good_size [OF m'(2)] good_size [OF g(1)] good_finite [OF g(1)]
      by (simp add: card_insert_if)
    then have "map_inv kv m'" using m' room by (intro good_map_inv) auto
    moreover have "key_hash m' = kh \<and> key_cmp m' = kc" using m'(2) by (simp add: good_def table_def)
    ultimately show ?thesis using m' g(2) by simp
  qed
  show ?thesis
  proof (cases "m_size m * 2 \<ge> m_cap m")
    case True
    obtain g where g: "\<And>d. a0_map_grow (a0_map_put_d (Suc d)) m = Some (A0_OK, g)" "good g"
        "map_abs g = map_abs m" "m_cap g = (if m_cap m \<noteq> 0 then m_cap m * 2 else 4)"
      using grow_correct [OF inv] by blast
    have "m_size g = m_size m"
      using g(3) good_size [OF g(2)] map_size_card [OF inv(1)] by simp
    moreover have "2 * m_size m \<le> m_cap m" "m_cap m = 0 \<or> 4 \<le> m_cap m"
      using map_inv_good [OF inv] good_big by auto
    ultimately have "2 * m_size g + 2 \<le> m_cap g" using g(4) by (simp split: if_splits)
    then show ?thesis using done_ [OF g(2,3)] True g(1) by simp
  next
    case False
    then have g: "good m" "2 * m_size m \<le> m_cap m" using map_inv_good [OF inv] by auto
    have "m_cap m \<noteq> 0" using False by auto
    then obtain j where "m_cap m = 2 ^ j" "j \<ge> 2"
      using inv(1) unfolding map_inv_def by blast
    then have "even (m_cap m)" by simp
    then have "2 * m_size m + 2 \<le> m_cap m" using False by presburger
    then show ?thesis using done_ [OF g(1) refl] False by simp
  qed
qed

lemma put_correct:
  assumes "map_inv kv m" "key_hash m = kh" "key_cmp m = kc" "kv k"
  shows "\<exists>m'. a0_map_put m k v = Some (A0_OK, m') \<and> (\<forall>d. a0_map_put_d (d + 2) m k v = Some (A0_OK, m')) \<and>
     map_inv kv m' \<and>
     map_abs m' = (map_abs m)(k \<mapsto> v) \<and> key_hash m' = kh \<and> key_cmp m' = kc"
  using put_d_correct [OF assms] unfolding a0_map_put_def numeral_2_eq_2 add_Suc_right add_0_right by blast

lemma find_some:
  assumes inv: "map_inv kv m" "key_hash m = kh" "key_cmp m = kc" and "map_abs m k = Some v"
  shows "\<exists>p<length (m_data m). a0_map_find m k = Some (Inr p) \<and> b_off (m_data m ! p) \<noteq> 0 \<and>
     b_key (m_data m ! p) = k \<and> b_val (m_data m ! p) = v \<and> good m \<and> 2 * m_size m \<le> m_cap m"
proof -
  have e: "ent (m_data m) k v" using assms(4) map_abs_iff [OF inv(1)] by simp
  then obtain p where p: "p < length (m_data m)" "b_off (m_data m ! p) \<noteq> 0"
      "b_key (m_data m ! p) = k" "b_val (m_data m ! p) = v"
    by (auto simp: ent_def)
  then have g: "good m" "2 * m_size m \<le> m_cap m" using map_inv_good [OF inv] by auto
  then have t: "table (home m) m" by (simp add: good_def)
  have "kv k" using inv(1) e by (auto simp: map_inv_def)
  then obtain h where h: "kh k = Inr h" using hash_total by blast
  have "m_size m \<noteq> 0"
    using good_size [OF g(1)] good_finite [OF g(1)] assms(4) by (auto simp: card_eq_0_iff)
  then have "a0_map_find m k = Some (Inr p)"
    using find_present [OF t p(1,2), of 1 "home m k"] p(2,3) h inv(2) home_index [OF g(1) h]
    by (simp add: a0_map_find_def)
  then show ?thesis using p g by auto
qed

lemma find_none:
  assumes inv: "map_inv kv m" "key_hash m = kh" "key_cmp m = kc" and "kv k" "map_abs m k = None"
  shows "a0_map_find m k = Some (Inl A0_ERR_NOT_FOUND)"
proof (cases "m_size m = 0")
  case False
  then have g: "good m" using map_inv_good [OF inv] by auto
  then have t: "table (home m) m" by (simp add: good_def)
  obtain h where h: "kh k = Inr h" using hash_total [OF assms(4)] by blast
  have "\<And>v. \<not> ent (m_data m) k v" using assms(5) map_abs_None [OF inv(1)] by simp
  then show ?thesis
    using False find_absent [OF t assms(4), of "home m k" 1] home_index [OF g h] h inv(2)
    by (simp add: a0_map_find_def)
qed (simp add: a0_map_find_def)

lemma get_correct:
  assumes "map_inv kv m" "key_hash m = kh" "key_cmp m = kc" "kv k"
  shows "a0_map_get m k = Some (case map_abs m k of None \<Rightarrow> Inl A0_ERR_NOT_FOUND | Some v \<Rightarrow> Inr v)"
  using find_none [OF assms] find_some [OF assms(1-3), of k]
  by (cases "map_abs m k") (auto simp: a0_map_get_def bucket_in)

lemma store_val_correct:
  assumes inv: "map_inv kv m" "key_hash m = kh" "key_cmp m = kc" and "map_abs m k = Some v"
  shows "\<exists>m'. store_val m k w = Some m' \<and> map_inv kv m' \<and> key_hash m' = kh \<and> key_cmp m' = kc \<and>
     map_abs m' = (map_abs m)(k \<mapsto> w)"
proof -
  obtain p where p: "p < length (m_data m)" "a0_map_find m k = Some (Inr p)" "b_off (m_data m ! p) \<noteq> 0"
      "b_key (m_data m ! p) = k" "good m" "2 * m_size m \<le> m_cap m"
    using find_some [OF assms] by blast
  let ?m = "m\<lparr>m_data := (m_data m)[p := (m_data m ! p)\<lparr>b_val := w\<rparr>]\<rparr>"
  have "store_val m k w = Some ?m" using p by (simp add: store_val_def bucket_in)
  moreover have "good ?m \<and> map_abs ?m = (map_abs m)(k \<mapsto> w)"
    by (rule overwrite_correct [OF p(5,1,3,4) refl])
  moreover from this have "map_inv kv ?m" using p(6) by (intro good_map_inv) simp_all
  ultimately show ?thesis using inv by (intro exI [of _ ?m]) simp
qed

lemma has_correct:
  assumes "map_inv kv m" "key_hash m = kh" "key_cmp m = kc" "kv k"
  shows "a0_map_has m k = Some (k \<in> dom (map_abs m))"
  using find_none [OF assms] find_some [OF assms(1-3), of k]
  by (cases "map_abs m k") (auto simp: a0_map_has_def)

lemma del_bucket_good:
  assumes g: "good m" "2 * m_size m \<le> m_cap m" and p: "p < length (m_data m)" "b_off (m_data m ! p) \<noteq> 0"
  shows "\<exists>m'. a0_map_del_bucket m p = Some (A0_OK, m') \<and> map_inv kv m' \<and>
     map_abs m' = (map_abs m)(b_key (m_data m ! p) := None) \<and> key_hash m' = kh \<and> key_cmp m' = kc"
proof -
  let ?k = "b_key (m_data m ! p)"
  have t: "table (home m) m" and cap: "m_cap m = length (m_data m)" 
    and size: "m_size m = card {k. \<exists>v. ent (m_data m) k v}"
    using g by (simp_all add: good_def)
  obtain bs where bs: "a0_map_del_bucket m p = Some (A0_OK, m\<lparr>m_data := bs, m_size := m_size m - 1\<rparr>)"
      "length bs = length (m_data m)" "table (home m) (m\<lparr>m_data := bs, m_size := m_size m - 1\<rparr>)"
      "\<And>k v. ent bs k v \<longleftrightarrow> ent (m_data m) k v \<and> k \<noteq> ?k"
    using del_bucket_correct [OF t p] by blast
  let ?m = "m\<lparr>m_data := bs, m_size := m_size m - 1\<rparr>"
  have "{k. \<exists>v. ent bs k v} = {k. \<exists>v. ent (m_data m) k v} - {?k}" by (auto simp: bs(4))
  moreover have "\<exists>v. ent (m_data m) ?k v" using p by (auto simp: ent_def)
  ultimately have "card {k. \<exists>v. ent bs k v} = m_size m - 1" by (simp add: size finite_ent)
  then have g': "good ?m" using bs(2,3) cap by (simp add: good_def)
  then have "map_abs ?m = (map_abs m)(?k := None)"
    by (rule good_absI) (auto simp: bs(4) good_abs [OF g(1)])
  moreover have "map_inv kv ?m" using g(2) by (intro good_map_inv g') simp
  moreover have "key_hash ?m = kh \<and> key_cmp ?m = kc" using t by (simp add: table_def)
  ultimately show ?thesis using bs(1) by blast
qed

lemma del_pop_correct:
  assumes "map_inv kv m" "key_hash m = kh" "key_cmp m = kc" "kv k"
  shows "case map_abs m k of
       None \<Rightarrow> a0_map_del m k = Some (A0_ERR_NOT_FOUND, m) \<and>
         a0_map_pop m k = Some (Inl A0_ERR_NOT_FOUND, m)
     | Some v \<Rightarrow> \<exists>m'. a0_map_del m k = Some (A0_OK, m') \<and> a0_map_pop m k = Some (Inr v, m') \<and>
         map_inv kv m' \<and> map_abs m' = (map_abs m)(k := None) \<and> key_hash m' = kh \<and> key_cmp m' = kc"
proof (cases "map_abs m k")
  case (Some v)
  then show ?thesis
    using find_some [OF assms(1-3) Some] del_bucket_good
    by (auto simp: a0_map_pop_def a0_map_del_def bucket_in)
qed (use find_none [OF assms] in \<open>simp add: a0_map_pop_def a0_map_del_def\<close>)

text \<open>A map with the callbacks of this locale is a dictionary.\<close>

lemma size_correct: "map_inv kv m \<Longrightarrow> a0_map_size m = card (dom (map_abs m)) \<and> finite (dom (map_abs m))"
  by (simp add: a0_map_size_def map_size_card) (simp add: dom_map_abs finite_ent)

lemma map_dictionary: "dictionary (\<lambda>m. map_inv kv m \<and> key_hash m = kh \<and> key_cmp m = kc)
    map_abs kv a0_map_put a0_map_get a0_map_del a0_map_pop a0_map_has a0_map_size"
proof (unfold_locales, goal_cases put get has del pop size)
  case (put m k v)
  then show ?case using put_correct [of m k v] by auto
next
  case (get m k)
  then show ?case using get_correct [of m k] by auto
next
  case (has m k)
  then show ?case using has_correct [of m k] by auto
next
  case (del m k)
  then show ?case using del_pop_correct [of m k] by (auto split: option.splits)
next
  case (pop m k)
  then show ?case using del_pop_correct [of m k] by (auto split: option.splits)
next
  case (size m)
  then show ?case using size_correct by blast
qed

lemma map_dictionary_store: "dictionary_store (\<lambda>m. map_inv kv m \<and> key_hash m = kh \<and> key_cmp m = kc)
    map_abs kv a0_map_put a0_map_get a0_map_del a0_map_pop a0_map_has a0_map_size store_val"
proof (rule dictionary_store.intro, rule map_dictionary, rule dictionary_store_axioms.intro)
  fix m k v w
  assume "map_inv kv m \<and> key_hash m = kh \<and> key_cmp m = kc" "map_abs m k = Some v"
  then show "\<exists>m'. store_val m k w = Some m' \<and> (map_inv kv m' \<and> key_hash m' = kh \<and> key_cmp m' = kc) \<and>
      map_abs m' = (map_abs m)(k \<mapsto> w)"
    using store_val_correct [of m k v w] by auto
qed

end

text \<open>The maps of the library: by string (topic aliases), by UUID (requests and connections).\<close>

abbreviation map_of_kind ::
    "('k \<Rightarrow> a0_err + u64) \<Rightarrow> ('k \<Rightarrow> 'k \<Rightarrow> a0_err + int) \<Rightarrow> ('k \<Rightarrow> bool) \<Rightarrow> ('k, 'v) a0_map \<Rightarrow> bool" where
  "map_of_kind kh kc kv m \<equiv> map_inv kv m \<and> key_hash m = kh \<and> key_cmp m = kc"

interpretation str_map: dictionary "map_of_kind a0_hash_str_fn a0_cmp_str_fn (\<lambda>_. True)"
    map_abs "\<lambda>_. True" a0_map_put a0_map_get a0_map_del a0_map_pop a0_map_has a0_map_size
  by (rule str_keys.map_dictionary)

interpretation uuid_map: dictionary "map_of_kind a0_hash_uuid_fn a0_cmp_uuid_fn (\<lambda>k. length k = 37)"
    map_abs "\<lambda>k. length k = 37" a0_map_put a0_map_get a0_map_del a0_map_pop a0_map_has a0_map_size
  by (rule uuid_keys.map_dictionary)

interpretation u32_map: dictionary "map_of_kind a0_hash_u32_fn a0_cmp_u32_fn (\<lambda>_. True)"
    map_abs "\<lambda>_. True" a0_map_put a0_map_get a0_map_del a0_map_pop a0_map_has a0_map_size
  by (rule u32_keys.map_dictionary)

text \<open>Reference counts, by pointer, inside one window of 4 GiB.\<close>

interpretation ptr_map: dictionary_store "map_of_kind a0_hash_ptr_fn a0_cmp_ptr_fn (\<lambda>p. drop_bit 32 p = hi)"
    map_abs "\<lambda>p. drop_bit 32 p = hi" a0_map_put a0_map_get a0_map_del a0_map_pop a0_map_has a0_map_size store_val for hi
  by (rule ptr_keys.map_dictionary_store)

lemma map_inv_init: "map_inv kv (a0_map_init kh kc z)"
  by (simp add: map_inv_def a0_map_init_def ent_def)

lemma map_abs_init: "map_abs (a0_map_init kh kc z) = Map.empty"
  by (simp add: map_abs_def a0_map_init_def)

lemma map_kind_init: "map_of_kind kh kc kv (a0_map_init kh kc z)"
  by (simp add: map_inv_init) (simp add: a0_map_init_def)

text \<open>A concrete map: three insertions, the third of which grows the table.\<close>

definition example_map :: "(u32, nat) a0_map" where
  "example_map = the (dictionary.run a0_map_put a0_map_del a0_map_pop [Put 1 10, Put 2 20, Put 3 30]
     (a0_map_init a0_hash_u32_fn a0_cmp_u32_fn (0, 0)))"

lemma example_map:
  "map_of_kind a0_hash_u32_fn a0_cmp_u32_fn (\<lambda>_. True) example_map"
  "map_abs example_map = [1 \<mapsto> 10, 2 \<mapsto> 20, 3 \<mapsto> 30]"
  using u32_map.run_correct [OF map_kind_init, of "[Put 1 10, Put 2 20, Put 3 (30 :: nat)]" "(0, 0)"]
  by (auto simp: example_map_def map_abs_init simp del: u32_map.run.simps)

lemma example_keys: "map_keys (key_hash example_map) (key_cmp example_map) (\<lambda>_. True)"
  using example_map(1) u32_keys.map_keys_axioms by simp

section \<open>Traversal\<close>

text \<open>
  A client's loop over \<^verbatim>\<open>a0_map_iterator_next\<close>: the entries reported from position \<open>idx\<close> until
  the iterator is done.
\<close>

inductive iterates :: "('k, 'v) a0_map \<Rightarrow> nat \<Rightarrow> ('k \<times> 'v) list \<Rightarrow> bool" where
  iterates_done: "a0_map_iterator_next m idx = Some (Inl A0_ERR_ITER_DONE, idx') \<Longrightarrow> iterates m idx []"
| iterates_entry: "a0_map_iterator_next m idx = Some (Inr e, idx') \<Longrightarrow> iterates m idx' es \<Longrightarrow>
    iterates m idx (e # es)"

lemma iterates_occupied:
  assumes "m_cap m = length (m_data m)" "idx \<le> m_cap m" "occupied (drop idx (m_data m)) = bs"
  shows "iterates m idx (map (\<lambda>b. (b_key b, b_val b)) bs)"
  using assms
proof (induction bs arbitrary: idx)
  case Nil
  then show ?case using iterator_next_done by (force intro: iterates_done)
next
  case (Cons b bs)
  then obtain idx' where "idx' \<le> m_cap m" "occupied (drop idx' (m_data m)) = bs"
      "a0_map_iterator_next m idx = Some (Inr (b_key b, b_val b), idx')"
    using iterator_next_entry by blast
  then show ?case using Cons.IH Cons.prems(1) by (auto intro: iterates_entry)
qed

section \<open>Properties\<close>

text \<open>
  \<^verbatim>\<open>a0_map_put\<close> inserts or overwrites. On every map in the invariant, with callbacks that decide
  equality of the valid keys, the call returns, reports no error, keeps the invariant (Robin Hood
  order, load at most one half, size equal to the number of keys), and the contents become the
  old contents updated at the key. This covers the call that grows the table first: the nested
  call of growth never grows again, whatever depth of nesting is allowed for.
\<close>

theorem map_put_spec:
  assumes "map_keys (key_hash m) (key_cmp m) kv" "map_inv kv m" "kv k"
  shows "\<exists>m'. a0_map_put m k v = Some (A0_OK, m') \<and> a0_map_put_d (d + 2) m k v = Some (A0_OK, m') \<and>
     map_inv kv m' \<and> map_abs m' = (map_abs m)(k \<mapsto> v) \<and>
     key_hash m' = key_hash m \<and> key_cmp m' = key_cmp m"
  using map_keys.put_correct [OF assms(1,2) refl refl assms(3), of v] by blast

theorem map_put_spec_witness:
  "\<exists>m'. a0_map_put example_map 2 25 = Some (A0_OK, m') \<and>
     map_abs m' = [1 \<mapsto> 10, 2 \<mapsto> 25, 3 \<mapsto> 30]"
  using map_put_spec [OF example_keys, of 2 25 0] example_map by (auto simp: fun_upd_twist)

text \<open>
  \<^verbatim>\<open>a0_map_get\<close> and \<^verbatim>\<open>a0_map_has\<close> return the value stored under the key, and NOT_FOUND exactly
  when there is none: the early stop of the probe loop never misses an entry, and the loop ends.
\<close>

theorem map_get_spec:
  assumes "map_keys (key_hash m) (key_cmp m) kv" "map_inv kv m" "kv k"
  shows "a0_map_get m k = Some (case map_abs m k of None \<Rightarrow> Inl A0_ERR_NOT_FOUND | Some v \<Rightarrow> Inr v) \<and>
     a0_map_has m k = Some (k \<in> dom (map_abs m))"
  using map_keys.get_correct [OF assms(1,2) refl refl assms(3)]
    map_keys.has_correct [OF assms(1,2) refl refl assms(3)] by blast

theorem map_get_spec_witness:
  "a0_map_get example_map 2 = Some (Inr 20) \<and> a0_map_has example_map 4 = Some False"
  using map_get_spec [OF example_keys, of 2] map_get_spec [OF example_keys, of 4] example_map by simp

text \<open>
  \<^verbatim>\<open>a0_map_del\<close> and \<^verbatim>\<open>a0_map_pop\<close> remove exactly the named key: an absent key is NOT_FOUND and
  leaves the map alone; a present one is removed by the backward shift, which ends, keeps the
  invariant and every other entry, and \<^verbatim>\<open>a0_map_pop\<close> hands out the removed value.
\<close>

theorem map_del_pop_spec:
  assumes "map_keys (key_hash m) (key_cmp m) kv" "map_inv kv m" "kv k"
  shows "case map_abs m k of
       None \<Rightarrow> a0_map_del m k = Some (A0_ERR_NOT_FOUND, m) \<and>
         a0_map_pop m k = Some (Inl A0_ERR_NOT_FOUND, m)
     | Some v \<Rightarrow> \<exists>m'. a0_map_del m k = Some (A0_OK, m') \<and> a0_map_pop m k = Some (Inr v, m') \<and>
         map_inv kv m' \<and> map_abs m' = (map_abs m)(k := None)"
  using map_keys.del_pop_correct [OF assms(1,2) refl refl assms(3)] by (cases "map_abs m k") auto

theorem map_del_pop_spec_witness:
  "\<exists>m'. a0_map_pop example_map 2 = Some (Inr 20, m') \<and> map_abs m' = [1 \<mapsto> 10, 3 \<mapsto> 30]"
  using map_del_pop_spec [OF example_keys, of 2] example_map by (auto simp: fun_upd_twist)

text \<open>
  C34. Any sequence of insertions, deletions and pops on a fresh map goes through without leaving
  the table, and ends in a map in the invariant whose contents are those of the same operations
  on a finite map; the reported size is the number of keys.
\<close>

theorem map_run_spec:
  assumes "map_keys kh kc kv" "\<forall>op \<in> set ops. kv (dictionary.op_key op)"
  shows "\<exists>m. dictionary.run a0_map_put a0_map_del a0_map_pop ops (a0_map_init kh kc z) = Some m \<and>
     map_inv kv m \<and> map_abs m = dictionary.run_abs ops Map.empty \<and>
     a0_map_size m = card (dom (map_abs m)) \<and> 2 * a0_map_size m \<le> m_cap m"
proof -
  obtain m where m: "dictionary.run a0_map_put a0_map_del a0_map_pop ops (a0_map_init kh kc z) = Some m"
      "map_inv kv m" "map_abs m = dictionary.run_abs ops Map.empty"
    using dictionary.run_correct [OF map_keys.map_dictionary [OF assms(1)] map_kind_init, of ops z] assms(2)
    by (auto simp: map_abs_init)
  then show ?thesis
    using map_keys.size_correct [OF assms(1) m(2)] by (auto simp: map_inv_def a0_map_size_def)
qed

theorem map_run_spec_witness:
  "\<exists>m. dictionary.run a0_map_put a0_map_del a0_map_pop
        [Put 1 10, Put 2 20, Del 1, Put 2 25, Pop 7] (a0_map_init a0_hash_u32_fn a0_cmp_u32_fn (0, 0 :: nat)) = Some m \<and>
     map_abs m = [2 \<mapsto> 25] \<and> a0_map_size m = 1"
  using map_run_spec [OF u32_keys.map_keys_axioms, of "[Put 1 10, Put 2 20, Del 1, Put 2 25, Pop 7]" "(0, 0 :: nat)"]
  by (auto simp: fun_upd_twist)

text \<open>
  A traversal with \<^verbatim>\<open>a0_map_iterator_next\<close> from a fresh iterator ends, and reports every entry
  of the map exactly once.
\<close>

theorem map_iterate_spec:
  assumes "map_inv kv m"
  shows "\<exists>es. iterates m 0 es \<and> distinct (map fst es) \<and> map_of es = map_abs m \<and> length es = a0_map_size m"
proof -
  have cap: "m_cap m = length (m_data m)" using assms by (simp add: map_inv_def)
  have d: "distinct (map b_key (occupied (m_data m)))"
  proof (cases "m_cap m = 0")
    case False
    then show ?thesis using assms occupied_distinct by (auto simp: map_inv_def)
  qed (use cap in simp)
  have "length (occupied (m_data m)) = card (b_key ` set (occupied (m_data m)))"
    using distinct_card [OF d] by simp
  also have "\<dots> = a0_map_size m"
    using assms by (simp only: occupied_keys map_inv_def a0_map_size_def)
  finally show ?thesis
    using iterates_occupied [OF cap, of 0] d
    by (intro exI [where x = "map (\<lambda>b. (b_key b, b_val b)) (occupied (m_data m))"])
      (simp add: map_abs_def comp_def)
qed

theorem map_iterate_spec_witness:
  "\<exists>es. iterates example_map 0 es \<and> map_of es = [1 \<mapsto> 10, 2 \<mapsto> 20, 3 \<mapsto> 30]"
  using map_iterate_spec [of "\<lambda>_. True" example_map] example_map by auto

end
