(* ===== verification/Rpc_Correct.thy ===== *)
theory Rpc_Correct
  imports Rpc HashMap_Correct Endpoint_Correct
begin

text \<open>
  The properties of \<^verbatim>\<open>src/rpc.c\<close>: what a client's table of outstanding requests is, and how a
  request, its response and its cancellation find their way. The table is used through the contract of
  dictionaries, as the hash map provides it.
\<close>

section \<open>The table of outstanding requests\<close>

definition client_ok :: "'cb a0_rpc_client \<Rightarrow> bool" where
  "client_ok c \<longleftrightarrow> map_of_kind a0_hash_uuid_fn a0_cmp_uuid_fn (\<lambda>k. length k = 37) (outstanding_requests c)"

abbreviation outstanding :: "'cb a0_rpc_client \<Rightarrow> u8 list \<rightharpoonup> 'cb option" where
  "outstanding c \<equiv> map_abs (outstanding_requests c)"

lemma send_correct:
  assumes c: "client_ok c" and len: "length (pkt_id pkt) = 37"
  shows "\<exists>c'. a0_rpc_client_send merge c pkt cb w =
      map_option (\<lambda>(err, w). (err, c', w)) (a0_writer_write merge (request_writer c) (rpc_request pkt) w) \<and>
    client_ok c' \<and> outstanding c' = (outstanding c)(pkt_id pkt \<mapsto> cb) \<and> request_writer c' = request_writer c"
proof -
  obtain m where m: "a0_map_put (outstanding_requests c) (pkt_id pkt) cb = Some (A0_OK, m)"
      "map_of_kind a0_hash_uuid_fn a0_cmp_uuid_fn (\<lambda>k. length k = 37) m"
      "map_abs m = (outstanding c)(pkt_id pkt \<mapsto> cb)"
    using uuid_map.put_law [OF c [unfolded client_ok_def] len] by blast
  then show ?thesis
    by (intro exI [of _ "c\<lparr>outstanding_requests := m\<rparr>"]) (simp add: a0_rpc_client_send_def client_ok_def)
qed

lemma cancel_correct:
  assumes c: "client_ok c" and len: "length uuid = 37"
  shows "\<exists>c'. a0_rpc_client_cancel merge c new_id uuid w =
      map_option (\<lambda>(err, w). (err, c', w)) (a0_writer_write merge (request_writer c) (rpc_cancel new_id uuid) w) \<and>
    client_ok c' \<and> outstanding c' = (outstanding c)(uuid := None) \<and> request_writer c' = request_writer c"
proof -
  obtain e m where m: "a0_map_del (outstanding_requests c) uuid = Some (e, m)"
      "map_of_kind a0_hash_uuid_fn a0_cmp_uuid_fn (\<lambda>k. length k = 37) m"
      "map_abs m = (outstanding c)(uuid := None)"
    using uuid_map.del_law [OF c [unfolded client_ok_def] len] c
    by (cases "outstanding c uuid") (auto simp: client_ok_def fun_upd_idem)
  then show ?thesis
    by (intro exI [of _ "c\<lparr>outstanding_requests := m\<rparr>"]) (simp add: a0_rpc_client_cancel_def client_ok_def)
qed

text \<open>A response to the request \<open>id\<close>; all that is not one leaves the client alone.\<close>

definition response_to :: "a0_packet \<Rightarrow> u8 list \<Rightarrow> bool" where
  "response_to pkt req \<longleftrightarrow> map_of (hdrs_of pkt) RPC_TYPE = Some RPC_TYPE_RESPONSE \<and>
     map_of (hdrs_of pkt) REQUEST_ID = Some (c_string req)"

lemma onpacket_response:
  assumes c: "client_ok c" and id: "uuid_str req" and r: "response_to pkt req"
  shows "\<exists>c'. a0_rpc_client_onpacket c pkt =
      Some (case outstanding c req of None \<Rightarrow> [] | Some cb \<Rightarrow> a0_packet_callback_call cb pkt, c') \<and>
    client_ok c' \<and> outstanding c' = (outstanding c)(req := None)"
proof -
  obtain r m where m: "a0_map_pop (outstanding_requests c) req = Some (r, m)"
      "r = (case outstanding c req of None \<Rightarrow> Inl A0_ERR_NOT_FOUND | Some cb \<Rightarrow> Inr cb)"
      "map_of_kind a0_hash_uuid_fn a0_cmp_uuid_fn (\<lambda>k. length k = 37) m"
      "map_abs m = (outstanding c)(req := None)"
    using uuid_map.pop_law [OF c [unfolded client_ok_def] uuid_str_length [OF id]] c
    by (cases "outstanding c req") (auto simp: client_ok_def fun_upd_idem)
  then show ?thesis
    using r uuid_at_c_string [OF id]
    by (intro exI [of _ "c\<lparr>outstanding_requests := m\<rparr>"])
      (simp add: a0_rpc_client_onpacket_def a0_find_rpctype_def a0_find_reqid_def find_header_eq response_to_def
        client_ok_def strcmp_eq_0 split: option.split)
qed

lemma onpacket_other:
  "map_of (hdrs_of pkt) RPC_TYPE \<noteq> Some RPC_TYPE_RESPONSE \<Longrightarrow> a0_rpc_client_onpacket c pkt = Some ([], c)"
  by (auto simp: a0_rpc_client_onpacket_def a0_find_rpctype_def find_header_eq strcmp_eq_0 split: option.split)

lemma rpc_types:
  "RPC_TYPE_REQUEST \<noteq> RPC_TYPE_RESPONSE" "RPC_TYPE_CANCEL \<noteq> RPC_TYPE_RESPONSE" "RPC_TYPE_CANCEL \<noteq> RPC_TYPE_REQUEST"
  "RPC_TYPE \<noteq> REQUEST_ID" "RPC_TYPE \<noteq> A0_DEP" "REQUEST_ID \<noteq> A0_DEP"
  by (simp_all add: RPC_TYPE_REQUEST_def RPC_TYPE_RESPONSE_def RPC_TYPE_CANCEL_def RPC_TYPE_def REQUEST_ID_def A0_DEP_def str_def)

section \<open>Runs of a client\<close>

text \<open>The request that a packet responds to.\<close>

definition response_id :: "a0_packet \<Rightarrow> u8 list option" where
  "response_id pkt =
     (if map_of (hdrs_of pkt) RPC_TYPE = Some RPC_TYPE_RESPONSE then Option.bind (map_of (hdrs_of pkt) REQUEST_ID) uuid_at
      else None)"

datatype 'cb rpc_event =
    Sent "u8 list" "'cb option"
  | Cancelled "u8 list"
  | Received a0_packet "('cb \<times> a0_packet) list"

inductive client_step :: "'cb a0_rpc_client \<Rightarrow> 'cb rpc_event \<Rightarrow> 'cb a0_rpc_client \<Rightarrow> bool" where
  send: "a0_rpc_client_send merge c pkt cb w = Some (err, c', w') \<Longrightarrow> length (pkt_id pkt) = 37 \<Longrightarrow>
    client_step c (Sent (pkt_id pkt) cb) c'"
| cancel: "a0_rpc_client_cancel merge c new_id uuid w = Some (err, c', w') \<Longrightarrow> length uuid = 37 \<Longrightarrow>
    client_step c (Cancelled uuid) c'"
| receive: "a0_rpc_client_onpacket c pkt = Some (calls, c') \<Longrightarrow> client_step c (Received pkt calls) c'"

inductive client_run :: "'cb a0_rpc_client \<Rightarrow> 'cb rpc_event list \<Rightarrow> 'cb a0_rpc_client \<Rightarrow> bool" where
  start: "client_run c [] c"
| step: "client_run c tr c1 \<Longrightarrow> client_step c1 ev c2 \<Longrightarrow> client_run c (tr @ [ev]) c2"

inductive_cases client_stepE: "client_step c ev c'"

text \<open>What waits for a response after an event: a finite map, as a reader of the documentation would expect it.\<close>

fun pending_after :: "'cb rpc_event \<Rightarrow> (u8 list \<rightharpoonup> 'cb option) \<Rightarrow> u8 list \<rightharpoonup> 'cb option" where
  "pending_after (Sent req cb) p = p(req \<mapsto> cb)"
| "pending_after (Cancelled req) p = p(req := None)"
| "pending_after (Received pkt _) p = (case response_id pkt of None \<Rightarrow> p | Some req \<Rightarrow> p(req := None))"

definition pending :: "'cb rpc_event list \<Rightarrow> u8 list \<rightharpoonup> 'cb option" where
  "pending tr = fold pending_after tr Map.empty"

definition calls_for :: "(u8 list \<rightharpoonup> 'cb option) \<Rightarrow> a0_packet \<Rightarrow> ('cb \<times> a0_packet) list" where
  "calls_for p pkt =
     (case response_id pkt of
        None \<Rightarrow> []
      | Some req \<Rightarrow> (case p req of Some (Some f) \<Rightarrow> [(f, pkt)] | _ \<Rightarrow> []))"

lemma onpacket_correct:
  assumes c: "client_ok c" and step: "a0_rpc_client_onpacket c pkt = Some (calls, c')"
  shows "client_ok c' \<and> outstanding c' = pending_after (Received pkt calls) (outstanding c) \<and>
    calls = calls_for (outstanding c) pkt"
proof (cases "response_id pkt")
  case None
  then have "calls = [] \<and> c' = c"
    using step by (auto simp: response_id_def a0_rpc_client_onpacket_def a0_find_rpctype_def a0_find_reqid_def find_header_eq
      split: option.splits if_splits)
  then show ?thesis using c None by (simp add: calls_for_def)
next
  case (Some req)
  then obtain v where v: "map_of (hdrs_of pkt) RPC_TYPE = Some RPC_TYPE_RESPONSE"
      "map_of (hdrs_of pkt) REQUEST_ID = Some v" "uuid_at v = Some req"
    by (auto simp: response_id_def bind_eq_Some_conv split: if_splits)
  then have "length req = 37" by (auto simp: uuid_at_def sizeof_uuid_def split: if_splits)
  then obtain r m where m: "a0_map_pop (outstanding_requests c) req = Some (r, m)"
      "r = (case outstanding c req of None \<Rightarrow> Inl A0_ERR_NOT_FOUND | Some cb \<Rightarrow> Inr cb)"
      "map_of_kind a0_hash_uuid_fn a0_cmp_uuid_fn (\<lambda>k. length k = 37) m"
      "map_abs m = (outstanding c)(req := None)"
    using uuid_map.pop_law [OF c [unfolded client_ok_def], of req] c
    by (cases "outstanding c req") (auto simp: client_ok_def fun_upd_idem)
  then show ?thesis
    using step v Some
    by (auto simp: a0_rpc_client_onpacket_def a0_find_rpctype_def a0_find_reqid_def find_header_eq client_ok_def
        calls_for_def a0_packet_callback_call_def split: option.splits)
qed

lemma step_correct:
  assumes c: "client_ok c" and s: "client_step c ev c'"
  shows "client_ok c' \<and> outstanding c' = pending_after ev (outstanding c) \<and>
    (\<forall>pkt calls. ev = Received pkt calls \<longrightarrow> calls = calls_for (outstanding c) pkt)"
  using s
proof (cases rule: client_step.cases)
  case (send merge pkt cb w err w')
  then show ?thesis using send_correct [OF c send(3), of merge cb w]
    by (cases "a0_writer_write merge (request_writer c) (rpc_request pkt) w") auto
next
  case (cancel merge new_id uuid w err w')
  then show ?thesis using cancel_correct [OF c cancel(3), of merge new_id w]
    by (cases "a0_writer_write merge (request_writer c) (rpc_cancel new_id uuid) w") auto
next
  case (receive pkt calls)
  then show ?thesis using onpacket_correct [OF c] by simp
qed

lemma client_run_correct:
  assumes "client_run c tr c'" "client_ok c" "outstanding c = Map.empty"
  shows "client_ok c' \<and> outstanding c' = pending tr \<and>
    (\<forall>tr1 pkt calls tr2. tr = tr1 @ Received pkt calls # tr2 \<longrightarrow> calls = calls_for (pending tr1) pkt)"
  using assms
proof (induction rule: client_run.induct)
  case (step c tr c1 ev c2)
  note IH = step.IH [OF step.prems] and s = step_correct [OF conjunct1 [OF step.IH [OF step.prems]] step.hyps(2)]
  have "calls = calls_for (pending tr1) pkt" if "tr @ [ev] = tr1 @ Received pkt calls # tr2" for tr1 pkt calls tr2
  proof (cases tr2 rule: rev_cases)
    case Nil
    then have "tr1 = tr" "ev = Received pkt calls" using that by auto
    then show ?thesis using IH s by simp
  next
    case (snoc tr2' e)
    then have "tr = tr1 @ Received pkt calls # tr2'" using that by simp
    then show ?thesis using IH by blast
  qed
  then show ?case using IH s by (auto simp: pending_def)
qed (simp add: pending_def)

text \<open>A client of its own, with a writer to the concrete arena.\<close>

definition example_client :: "nat a0_rpc_client" where
  "example_client = \<lparr>response_reader = \<lparr>zc_transport = conn, started_empty = True, zc_opts = await_new,
       thread_id = 0, thread_start_event = 0\<rparr>, request_writer = [Write_action conn],
     outstanding_requests = a0_map_init a0_hash_uuid_fn a0_cmp_uuid_fn ([], None)\<rparr>"

lemma example_client: "client_ok example_client" "outstanding example_client = Map.empty"
  by (simp_all add: client_ok_def example_client_def map_kind_init map_abs_init)

section \<open>Properties\<close>

text \<open>
  C17. Whatever an RPC client does, in any order of sends, cancellations and packets received, its
  table of outstanding requests is the finite map one expects, and a callback is called exactly
  when a response arrives to a request that was sent with it and that was neither cancelled nor answered since:
  at most once for each request sent.
\<close>

theorem rpc_client_run_spec:
  assumes "client_run c tr c'" "client_ok c" "outstanding c = Map.empty"
  shows "outstanding c' = pending tr \<and> client_ok c' \<and>
     (\<forall>tr1 pkt calls tr2. tr = tr1 @ Received pkt calls # tr2 \<longrightarrow>
        calls = calls_for (pending tr1) pkt \<and> length calls \<le> 1 \<and>
        (\<forall>f. (f, pkt) \<in> set calls \<longrightarrow> (\<exists>req. response_id pkt = Some req \<and> pending tr1 req = Some (Some f) \<and>
           pending (tr1 @ [Received pkt calls]) req = None)))"
proof -
  have one: "length (calls_for p pkt) \<le> 1" for p pkt by (simp add: calls_for_def split: option.split)
  have why: "\<exists>req. response_id pkt = Some req \<and> pending tr1 req = Some (Some f) \<and>
      pending (tr1 @ [Received pkt calls]) req = None"
    if "(f, pkt) \<in> set (calls_for (pending tr1) pkt)" for f pkt tr1 calls
    using that by (cases "response_id pkt") (auto simp: calls_for_def pending_def split: option.splits)
  note r = client_run_correct [OF assms]
  show ?thesis
  proof (intro conjI allI impI)
    show "outstanding c' = pending tr" "client_ok c'" using r by blast+
    fix tr1 pkt calls tr2
    assume "tr = tr1 @ Received pkt calls # tr2"
    then show calls: "calls = calls_for (pending tr1) pkt" using r by blast
    then show "length calls \<le> 1" using one by simp
    fix f
    assume "(f, pkt) \<in> set calls"
    then show "\<exists>req. response_id pkt = Some req \<and> pending tr1 req = Some (Some f) \<and>
        pending (tr1 @ [Received pkt calls]) req = None"
      using why [of f pkt tr1 calls] calls by simp
  qed
qed

text \<open>
  C18. A request and its response. The client sends the request; the server, when it arrives, calls
  \<^verbatim>\<open>onrequest\<close> with it; the reply, when it arrives, makes the client call the callback of this request with it,
  once: the request is no longer outstanding, and the same response again calls nothing. Client and server ignore
  their own packets. Had the client cancelled the request, the server would be told its id.
\<close>

theorem rpc_exchange_spec:
  assumes "client_ok c" "uuid_str (pkt_id req)"
    and "a0_writer_write merge (request_writer c) (rpc_request req) w = Some (A0_OK, w')"
    and "arrives {RPC_TYPE, REQUEST_ID} (rpc_request req) req'"
    and "arrives {RPC_TYPE, REQUEST_ID} (rpc_response req' resp) resp'"
    and "arrives {RPC_TYPE, REQUEST_ID} (rpc_cancel new_id (pkt_id req)) cancel'"
  shows "\<exists>c1 c2 c3. a0_rpc_client_send merge c req (Some f) w = Some (A0_OK, c1, w') \<and>
     a0_rpc_server_onpacket server req' = Some [Onrequest req'] \<and> a0_rpc_client_onpacket c1 req' = Some ([], c1) \<and>
     a0_rpc_server_onpacket server resp' = Some [] \<and> a0_rpc_client_onpacket c1 resp' = Some ([(f, resp')], c2) \<and>
     outstanding c2 = (outstanding c)(pkt_id req := None) \<and>
     a0_rpc_client_onpacket c2 resp' = Some ([], c3) \<and> outstanding c3 = outstanding c2 \<and>
     a0_rpc_server_onpacket server cancel' = Some (if has_oncancel server then [Oncancel (pkt_id req)] else [])"
proof -
  have len: "length (pkt_id req) = 37" by (rule uuid_str_length [OF assms(2)])
  have h: "map_of (hdrs_of req') RPC_TYPE = Some RPC_TYPE_REQUEST" "map_of (hdrs_of resp') RPC_TYPE = Some RPC_TYPE_RESPONSE"
    "map_of (hdrs_of cancel') RPC_TYPE = Some RPC_TYPE_CANCEL"
    using arrives_header [OF assms(4)] arrives_header [OF assms(5)] arrives_header [OF assms(6)]
    by (simp_all add: rpc_request_def rpc_response_def rpc_cancel_def hdrs_of_def a0_packet_init_def with_block_def)
  have "pkt_id req' = pkt_id req" using assms(4) by (simp add: arrives_def rpc_request_def)
  then have "map_of (hdrs_of resp') REQUEST_ID = Some (c_string (pkt_id req))"
    using arrives_header [OF assms(5)] rpc_types(4) by (simp add: rpc_response_def)
  then have r: "response_to resp' (pkt_id req)" using h(2) by (simp add: response_to_def)
  obtain c1 where c1: "a0_rpc_client_send merge c req (Some f) w = Some (A0_OK, c1, w')" "client_ok c1"
      "outstanding c1 = (outstanding c)(pkt_id req \<mapsto> Some f)"
    using send_correct [OF assms(1) len, of merge "Some f" w] assms(3) by auto
  obtain c2 where c2: "a0_rpc_client_onpacket c1 resp' = Some ([(f, resp')], c2)" "client_ok c2"
      "outstanding c2 = (outstanding c)(pkt_id req := None)"
    using onpacket_response [OF c1(2) assms(2) r] c1(3) by (auto simp: a0_packet_callback_call_def)
  obtain c3 where c3: "a0_rpc_client_onpacket c2 resp' = Some ([], c3)" "outstanding c3 = outstanding c2"
    using onpacket_response [OF c2(2) assms(2) r] c2(3) by auto
  have "a0_rpc_client_onpacket c1 req' = Some ([], c1)"
    by (rule onpacket_other) (simp add: h(1) rpc_types)
  moreover have "a0_rpc_server_onpacket server req' = Some [Onrequest req']" "a0_rpc_server_onpacket server resp' = Some []"
    using h rpc_types by (simp_all add: a0_rpc_server_onpacket_def find_header_eq)
  moreover have "a0_rpc_server_onpacket server cancel' = Some (if has_oncancel server then [Oncancel (pkt_id req)] else [])"
    using h(3) rpc_types assms(6) len
    by (simp add: a0_rpc_server_onpacket_def find_header_eq arrives_def rpc_cancel_def sizeof_uuid_def)
  ultimately show ?thesis using c1(1) c2(1,3) c3 by blast
qed

text \<open>A request with an id of 36 characters, and what arrives of it.\<close>

definition example_request :: a0_packet where
  "example_request = \<lparr>pkt_id = replicate 36 65 @ [0], headers_block = [], pkt_payload = [1, 2]\<rparr>"

lemma example_request:
  "uuid_str (pkt_id example_request)" "packet_ok (rpc_request example_request)"
  "length (flat (rpc_request example_request)) = 91"
  by (simp_all add: uuid_str_def example_request_def packet_ok_def flat_def hdrs_of_def rpc_request_def with_block_def
      RPC_TYPE_def RPC_TYPE_REQUEST_def str_def)

lemma example_sent:
  "\<exists>w'. a0_writer_write example_merge (request_writer example_client) (rpc_request example_request) arena = Some (A0_OK, w')"
  using write_appends [OF arena_idle conn_mode example_request(2), of example_merge] example_request(3)
  by (auto simp: example_client_def)

theorem rpc_exchange_spec_witness:
  "\<exists>w' c1 c2. a0_rpc_client_send example_merge example_client example_request (Some 5) arena = Some (A0_OK, c1, w') \<and>
     a0_rpc_client_onpacket c1 (rpc_response (rpc_request example_request) example_packet) =
       Some ([(5, rpc_response (rpc_request example_request) example_packet)], c2)"
proof -
  obtain w' where "a0_writer_write example_merge (request_writer example_client) (rpc_request example_request) arena = Some (A0_OK, w')"
    using example_sent by blast
  from rpc_exchange_spec [OF example_client(1) example_request(1) this arrives_refl arrives_refl arrives_refl, of 5]
  show ?thesis by blast
qed

text \<open>The request is sent with callback 5; its response arrives, and arrives again.\<close>

definition example_response :: a0_packet where
  "example_response = rpc_response (rpc_request example_request) example_packet"

lemma example_response: "response_to example_response (pkt_id example_request)"
  using rpc_types by (simp add: response_to_def example_response_def rpc_response_def rpc_request_def)

lemma example_run:
  "\<exists>c. client_run example_client [Sent (pkt_id example_request) (Some 5), Received example_response [(5, example_response)],
     Received example_response []] c"
proof -
  let ?id = "pkt_id example_request" and ?resp = example_response
  have len: "length ?id = 37" by (rule uuid_str_length [OF example_request(1)])
  obtain w' where w': "a0_writer_write example_merge (request_writer example_client) (rpc_request example_request) arena = Some (A0_OK, w')"
    using example_sent by blast
  obtain c1 where c1: "a0_rpc_client_send example_merge example_client example_request (Some 5) arena = Some (A0_OK, c1, w')"
      "client_ok c1" "outstanding c1 = (outstanding example_client)(?id \<mapsto> Some 5)"
    using send_correct [OF example_client(1) len, of example_merge "Some 5" arena] w' by auto
  obtain c2 where c2: "a0_rpc_client_onpacket c1 ?resp = Some ([(5, ?resp)], c2)" "client_ok c2" "outstanding c2 ?id = None"
    using onpacket_response [OF c1(2) example_request(1) example_response] c1(3) by (auto simp: a0_packet_callback_call_def)
  obtain c3 where c3: "a0_rpc_client_onpacket c2 ?resp = Some ([], c3)"
    using onpacket_response [OF c2(2) example_request(1) example_response] c2(3) by auto
  have "client_run example_client [Sent ?id (Some 5)] c1"
    using client_run.step [OF client_run.start client_step.send [OF c1(1) len]] by simp
  from client_run.step [OF client_run.step [OF this client_step.receive [OF c2(1)]] client_step.receive [OF c3]]
  show ?thesis by auto
qed

theorem rpc_client_run_spec_witness:
  "\<exists>c. client_run example_client [Sent (pkt_id example_request) (Some 5), Received example_response [(5, example_response)],
      Received example_response []] c \<and> outstanding c (pkt_id example_request) = None"
proof -
  let ?tr = "[Sent (pkt_id example_request) (Some 5), Received example_response [(5, example_response)],
      Received example_response []]"
  obtain c where run: "client_run example_client ?tr c" using example_run by blast
  have "pending (?tr @ []) (pkt_id example_request) = None"
    using rpc_client_run_spec [OF run example_client, THEN conjunct2, THEN conjunct2, rule_format,
        of "[Sent (pkt_id example_request) (Some 5)]" example_response "[(5, example_response)]" "[Received example_response []]"]
      rpc_client_run_spec [OF run example_client, THEN conjunct1]
    by (auto simp: pending_def split: option.splits)
  then have "outstanding c (pkt_id example_request) = None"
    using rpc_client_run_spec [OF run example_client, THEN conjunct1] by simp
  then show ?thesis using run by blast
qed

end
