(* ===== verification/Prpc.thy ===== *)
theory Prpc
  imports Rpc
begin

text \<open>
  \<^verbatim>\<open>src/prpc.c\<close>: connections with progress. A client connects, the server sends any number of progress
  packets and a last, completing one; the client keeps a hash map from the ids of its connections
  to their callbacks. Packets, callbacks and \<open>None\<close> are as in \<open>Rpc\<close>; here a NULL callback is called
  without a check.
\<close>

definition PRPC_TYPE :: "u8 list" where "PRPC_TYPE = str ''a0_prpc_type''"
definition PRPC_TYPE_CONNECT :: "u8 list" where "PRPC_TYPE_CONNECT = str ''connect''"
definition PRPC_TYPE_PROGRESS :: "u8 list" where "PRPC_TYPE_PROGRESS = str ''progress''"
definition PRPC_TYPE_COMPLETE :: "u8 list" where "PRPC_TYPE_COMPLETE = str ''complete''"
definition PRPC_TYPE_CANCEL :: "u8 list" where "PRPC_TYPE_CANCEL = str ''cancel''"
definition CONN_ID :: "u8 list" where "CONN_ID = str ''a0_conn_id''"

definition a0_prpc_topic_open :: "file_open \<Rightarrow> environ \<Rightarrow> string option \<Rightarrow> a0_err + nat \<times> a0_arena_mode" where
  "a0_prpc_topic_open file_open getenv name = a0_topic_open file_open (Some (a0_env_topic_tmpl_prpc getenv)) name"

section \<open>Server\<close>

record a0_prpc_server =
  connection_reader :: a0_reader_zc
  progress_writer :: a0_writer
  prpc_has_oncancel :: bool

datatype prpc_server_call = Onconnect a0_packet | Conn_oncancel "u8 list"

definition a0_prpc_server_onpacket :: "a0_prpc_server \<Rightarrow> a0_packet \<Rightarrow> prpc_server_call list option" where
  "a0_prpc_server_onpacket server pkt =
     Option.bind (find_header PRPC_TYPE pkt) (\<lambda>type_hdr.
       case type_hdr of
         Inl _ \<Rightarrow> Some []
       | Inr type_hdr \<Rightarrow>
           if strcmp type_hdr PRPC_TYPE_CONNECT = 0 then Some [Onconnect pkt]
           else if strcmp type_hdr PRPC_TYPE_CANCEL = 0 then
             if prpc_has_oncancel server then
               if length (pkt_payload pkt) < sizeof_uuid then None
               else Some [Conn_oncancel (take sizeof_uuid (pkt_payload pkt))]
             else Some []
           else Some [])"

definition a0_prpc_server_init ::
    "file_open \<Rightarrow> environ \<Rightarrow> string option \<Rightarrow> bool \<Rightarrow> nat \<Rightarrow> nat \<Rightarrow> nat \<Rightarrow> rand_state \<Rightarrow> world
      \<Rightarrow> (a0_err + a0_prpc_server) \<times> rand_state \<times> world" where
  "a0_prpc_server_init file_open getenv name oncancel data event urandom s w =
     (case a0_prpc_topic_open file_open getenv name of
        Inl err \<Rightarrow> (Inl err, s, w)
      | Inr (arena_size, mode) \<Rightarrow>
          let (writer, w) = a0_writer_init arena_size mode w;
              (headers, s, w) = a0_add_standard_headers data urandom s w;
              writer = a0_writer_push writer headers;
              (reader, w) = a0_reader_zc_init arena_size mode await_new event w
          in (Inr \<lparr>connection_reader = reader, progress_writer = writer, prpc_has_oncancel = oncancel\<rparr>, s, w))"

definition a0_prpc_server_close ::
    "nat \<Rightarrow> others \<Rightarrow> a0_prpc_server \<Rightarrow> world \<Rightarrow> (a0_err \<times> a0_prpc_server \<times> world) option" where
  "a0_prpc_server_close pthread_self others server w =
     map_option (\<lambda>(_, reader, w). (A0_OK, server\<lparr>connection_reader := reader\<rparr>, w))
       (a0_reader_zc_close pthread_self others (connection_reader server) w)"

definition prpc_progress :: "a0_packet \<Rightarrow> bool \<Rightarrow> a0_packet \<Rightarrow> a0_packet" where
  "prpc_progress conn complete resp =
     with_block [(PRPC_TYPE, if complete then PRPC_TYPE_COMPLETE else PRPC_TYPE_PROGRESS),
       (CONN_ID, c_string (pkt_id conn)), (A0_DEP, c_string (pkt_id conn))] resp"

definition a0_prpc_server_send ::
    "json_merge \<Rightarrow> a0_prpc_server \<Rightarrow> a0_packet \<Rightarrow> a0_packet \<Rightarrow> bool \<Rightarrow> world \<Rightarrow> (a0_err \<times> world) option" where
  "a0_prpc_server_send merge server conn resp complete w =
     a0_writer_write merge (progress_writer server) (prpc_progress conn complete resp) w"

section \<open>Client\<close>

record 'cb a0_prpc_client =
  progress_reader :: a0_reader_zc
  connection_writer :: a0_writer
  outstanding_connections :: "(u8 list, 'cb option) a0_map"

text \<open>A call to make: the callback, the packet and whether the connection is complete.\<close>

definition a0_prpc_client_onpacket ::
    "'cb a0_prpc_client \<Rightarrow> a0_packet \<Rightarrow> (('cb \<times> a0_packet \<times> bool) list \<times> 'cb a0_prpc_client) option" where
  "a0_prpc_client_onpacket client pkt =
     Option.bind (find_header CONN_ID pkt) (\<lambda>conn_id_hdr.
       case conn_id_hdr of
         Inl _ \<Rightarrow> Some ([], client)
       | Inr conn_id_hdr \<Rightarrow>
           Option.bind (find_header PRPC_TYPE pkt) (\<lambda>type_hdr.
             case type_hdr of
               Inl _ \<Rightarrow> Some ([], client)
             | Inr type_hdr \<Rightarrow>
                 let is_complete = (strcmp type_hdr PRPC_TYPE_COMPLETE = 0);
                     call = (\<lambda>client r. case r of
                         Inl err \<Rightarrow> Some ([], client)
                       | Inr cb \<Rightarrow> map_option (\<lambda>fn. ([(fn, pkt, is_complete)], client)) cb)
                 in Option.bind (uuid_at conn_id_hdr) (\<lambda>conn_id.
                      if is_complete then
                        Option.bind (a0_map_pop (outstanding_connections client) conn_id) (\<lambda>(r, connections).
                          call (client\<lparr>outstanding_connections := connections\<rparr>) r)
                      else
                        Option.bind (a0_map_get (outstanding_connections client) conn_id) (call client))))"

definition a0_prpc_client_init ::
    "file_open \<Rightarrow> environ \<Rightarrow> string option \<Rightarrow> nat \<Rightarrow> nat \<Rightarrow> nat \<Rightarrow> rand_state \<Rightarrow> world
      \<Rightarrow> (a0_err + 'cb a0_prpc_client) \<times> rand_state \<times> world" where
  "a0_prpc_client_init file_open getenv name data event urandom s w =
     (let connections = a0_map_init a0_hash_uuid_fn a0_cmp_uuid_fn ([], None)
      in case a0_prpc_topic_open file_open getenv name of
           Inl err \<Rightarrow> (Inl err, s, w)
         | Inr (arena_size, mode) \<Rightarrow>
             let (writer, w) = a0_writer_init arena_size mode w;
                 (headers, s, w) = a0_add_standard_headers data urandom s w;
                 writer = a0_writer_push writer headers;
                 (reader, w) = a0_reader_zc_init arena_size mode await_new event w
             in (Inr \<lparr>progress_reader = reader, connection_writer = writer, outstanding_connections = connections\<rparr>, s, w))"

definition a0_prpc_client_close ::
    "nat \<Rightarrow> others \<Rightarrow> 'cb a0_prpc_client \<Rightarrow> world \<Rightarrow> (a0_err \<times> 'cb a0_prpc_client \<times> world) option" where
  "a0_prpc_client_close pthread_self others client w =
     map_option (\<lambda>(_, reader, w).
         (A0_OK, client\<lparr>progress_reader := reader, outstanding_connections := a0_map_close (outstanding_connections client)\<rparr>, w))
       (a0_reader_zc_close pthread_self others (progress_reader client) w)"

definition prpc_connect :: "a0_packet \<Rightarrow> a0_packet" where
  "prpc_connect pkt = with_block [(PRPC_TYPE, PRPC_TYPE_CONNECT)] pkt"

definition a0_prpc_client_connect ::
    "json_merge \<Rightarrow> 'cb a0_prpc_client \<Rightarrow> a0_packet \<Rightarrow> 'cb option \<Rightarrow> world \<Rightarrow> (a0_err \<times> 'cb a0_prpc_client \<times> world) option" where
  "a0_prpc_client_connect merge client pkt onprogress w =
     Option.bind (a0_map_put (outstanding_connections client) (pkt_id pkt) onprogress) (\<lambda>(err, connections).
       let client = client\<lparr>outstanding_connections := connections\<rparr>
       in if err \<noteq> A0_OK then Some (err, client, w)
          else map_option (\<lambda>(err, w). (err, client, w))
            (a0_writer_write merge (connection_writer client) (prpc_connect pkt) w))"

definition prpc_cancel :: "u8 list \<Rightarrow> u8 list \<Rightarrow> a0_packet" where
  "prpc_cancel new_id uuid = (a0_packet_init new_id)\<lparr>
     headers_block := [[(PRPC_TYPE, PRPC_TYPE_CANCEL), (CONN_ID, c_string uuid), (A0_DEP, c_string uuid)]],
     pkt_payload := uuid\<rparr>"

definition a0_prpc_client_cancel ::
    "json_merge \<Rightarrow> 'cb a0_prpc_client \<Rightarrow> u8 list \<Rightarrow> u8 list \<Rightarrow> world \<Rightarrow> (a0_err \<times> 'cb a0_prpc_client \<times> world) option" where
  "a0_prpc_client_cancel merge client new_id uuid w =
     Option.bind (a0_map_del (outstanding_connections client) uuid) (\<lambda>(_, connections).
       let client = client\<lparr>outstanding_connections := connections\<rparr>
       in map_option (\<lambda>(err, w). (err, client, w))
         (a0_writer_write merge (connection_writer client) (prpc_cancel new_id uuid) w))"

end
