(* ===== verification/Prpc_Correct.thy ===== *)
theory Prpc_Correct
  imports Prpc Rpc_Correct
begin

text \<open>
  The properties of \<^verbatim>\<open>src/prpc.c\<close>: the progress of a connection reaches the callback of its client, in order,
  until it is complete.
\<close>

definition prpc_ok :: "'cb a0_prpc_client \<Rightarrow> bool" where
  "prpc_ok c \<longleftrightarrow> map_of_kind a0_hash_uuid_fn a0_cmp_uuid_fn (\<lambda>k. length k = 37) (outstanding_connections c)"

abbreviation connections :: "'cb a0_prpc_client \<Rightarrow> u8 list \<rightharpoonup> 'cb option" where
  "connections c \<equiv> map_abs (outstanding_connections c)"

lemma prpc_types:
  "PRPC_TYPE_CONNECT \<noteq> PRPC_TYPE_CANCEL" "PRPC_TYPE_CONNECT \<noteq> PRPC_TYPE_COMPLETE" "PRPC_TYPE_PROGRESS \<noteq> PRPC_TYPE_COMPLETE"
  "PRPC_TYPE_CANCEL \<noteq> PRPC_TYPE_COMPLETE" "PRPC_TYPE_PROGRESS \<noteq> PRPC_TYPE_CONNECT" "PRPC_TYPE_PROGRESS \<noteq> PRPC_TYPE_CANCEL"
  "PRPC_TYPE \<noteq> CONN_ID"
  by (simp_all add: PRPC_TYPE_CONNECT_def PRPC_TYPE_PROGRESS_def PRPC_TYPE_CANCEL_def PRPC_TYPE_COMPLETE_def PRPC_TYPE_def
      CONN_ID_def str_def)

lemma connect_correct:
  assumes c: "prpc_ok c" and len: "length (pkt_id pkt) = 37"
  shows "\<exists>c'. a0_prpc_client_connect merge c pkt cb w =
      map_option (\<lambda>(err, w). (err, c', w)) (a0_writer_write merge (connection_writer c) (prpc_connect pkt) w) \<and>
    prpc_ok c' \<and> connections c' = (connections c)(pkt_id pkt \<mapsto> cb)"
proof -
  obtain m where m: "a0_map_put (outstanding_connections c) (pkt_id pkt) cb = Some (A0_OK, m)"
      "map_of_kind a0_hash_uuid_fn a0_cmp_uuid_fn (\<lambda>k. length k = 37) m"
      "map_abs m = (connections c)(pkt_id pkt \<mapsto> cb)"
    using uuid_map.put_law [OF c [unfolded prpc_ok_def] len] by blast
  then show ?thesis
    by (intro exI [of _ "c\<lparr>outstanding_connections := m\<rparr>"]) (simp add: a0_prpc_client_connect_def prpc_ok_def)
qed

lemma prpc_cancel_correct:
  assumes c: "prpc_ok c" and len: "length uuid = 37"
  shows "\<exists>c'. a0_prpc_client_cancel merge c new_id uuid w =
      map_option (\<lambda>(err, w). (err, c', w)) (a0_writer_write merge (connection_writer c) (prpc_cancel new_id uuid) w) \<and>
    prpc_ok c' \<and> connections c' = (connections c)(uuid := None)"
proof -
  obtain e m where m: "a0_map_del (outstanding_connections c) uuid = Some (e, m)"
      "map_of_kind a0_hash_uuid_fn a0_cmp_uuid_fn (\<lambda>k. length k = 37) m"
      "map_abs m = (connections c)(uuid := None)"
    using uuid_map.del_law [OF c [unfolded prpc_ok_def] len] c
    by (cases "connections c uuid") (auto simp: prpc_ok_def fun_upd_idem)
  then show ?thesis
    by (intro exI [of _ "c\<lparr>outstanding_connections := m\<rparr>"]) (simp add: a0_prpc_client_cancel_def prpc_ok_def)
qed

text \<open>What a packet of the connection \<open>con\<close> of the type \<open>ty\<close> makes the client do.\<close>

lemma prpc_onpacket_correct:
  assumes c: "prpc_ok c" and id: "uuid_str con" and cn: "map_of (hdrs_of pkt) CONN_ID = Some (c_string con)"
    and ty: "map_of (hdrs_of pkt) PRPC_TYPE = Some ty" and cb: "connections c con \<noteq> Some None"
  shows "\<exists>c'. a0_prpc_client_onpacket c pkt =
      Some (case connections c con of Some (Some f) \<Rightarrow> [(f, pkt, ty = PRPC_TYPE_COMPLETE)] | _ \<Rightarrow> [], c') \<and> prpc_ok c' \<and>
    connections c' = (if ty = PRPC_TYPE_COMPLETE then (connections c)(con := None) else connections c)"
proof -
  note heads = find_header_eq cn ty uuid_at_c_string [OF id]
  have len: "length con = 37" by (rule uuid_str_length [OF id])
  show ?thesis
  proof (cases "ty = PRPC_TYPE_COMPLETE")
    case True
    obtain r m where m: "a0_map_pop (outstanding_connections c) con = Some (r, m)"
        "r = (case connections c con of None \<Rightarrow> Inl A0_ERR_NOT_FOUND | Some cb \<Rightarrow> Inr cb)"
        "map_of_kind a0_hash_uuid_fn a0_cmp_uuid_fn (\<lambda>k. length k = 37) m"
        "map_abs m = (connections c)(con := None)"
      using uuid_map.pop_law [OF c [unfolded prpc_ok_def] len] c
      by (cases "connections c con") (auto simp: prpc_ok_def fun_upd_idem)
    then show ?thesis
      using True cb heads
      by (intro exI [of _ "c\<lparr>outstanding_connections := m\<rparr>"])
        (auto simp: a0_prpc_client_onpacket_def prpc_ok_def split: option.splits)
  next
    case False
    have "a0_map_get (outstanding_connections c) con =
        Some (case connections c con of None \<Rightarrow> Inl A0_ERR_NOT_FOUND | Some v \<Rightarrow> Inr v)"
      using uuid_map.get_law [OF c [unfolded prpc_ok_def] len] .
    then show ?thesis
      using False cb heads c
      by (intro exI [of _ c]) (auto simp: a0_prpc_client_onpacket_def split: option.splits)
  qed
qed

text \<open>A client takes the packets of a list, one after the other; the calls it makes.\<close>

fun take_packets :: "'cb a0_prpc_client \<Rightarrow> a0_packet list \<Rightarrow> (('cb \<times> a0_packet \<times> bool) list \<times> 'cb a0_prpc_client) option" where
  "take_packets c [] = Some ([], c)"
| "take_packets c (pkt # pkts) =
     Option.bind (a0_prpc_client_onpacket c pkt) (\<lambda>(calls, c).
       map_option (\<lambda>(calls', c). (calls @ calls', c)) (take_packets c pkts))"

definition progress_of :: "u8 list \<Rightarrow> a0_packet \<Rightarrow> bool" where
  "progress_of con pkt \<longleftrightarrow> map_of (hdrs_of pkt) CONN_ID = Some (c_string con) \<and>
     map_of (hdrs_of pkt) PRPC_TYPE = Some PRPC_TYPE_PROGRESS"

lemma take_progress:
  assumes "prpc_ok c" "uuid_str con" "connections c con = Some (Some f)" "\<forall>pkt \<in> set pkts. progress_of con pkt"
  shows "\<exists>c'. take_packets c pkts = Some (map (\<lambda>pkt. (f, pkt, False)) pkts, c') \<and> prpc_ok c' \<and> connections c' = connections c"
  using assms(1,3,4)
proof (induction pkts arbitrary: c)
  case (Cons pkt pkts)
  obtain c1 where c1: "a0_prpc_client_onpacket c pkt = Some ([(f, pkt, False)], c1)" "prpc_ok c1" "connections c1 = connections c"
    using prpc_onpacket_correct [OF Cons.prems(1) assms(2), of pkt PRPC_TYPE_PROGRESS] Cons.prems(2,3) prpc_types
    by (auto simp: progress_of_def)
  then show ?case using Cons.IH [OF c1(2)] Cons.prems(2,3) by auto
qed simp

text \<open>
  C19. A connection with progress. The client connects; the server, when that arrives, calls \<^verbatim>\<open>onconnect\<close>; then
  every progress packet of the connection, in order and each once, and the completing one are passed to
  the callback given when connecting; after that the client has forgotten the connection and further
  packets of it call nothing. A cancellation that someone else sends for the connection reaches the
  callback as if it were progress.
\<close>

theorem prpc_connection_spec:
  assumes "prpc_ok c" "uuid_str (pkt_id con)"
    and "a0_writer_write merge (connection_writer c) (prpc_connect con) w = Some (A0_OK, w')"
    and "arrives {PRPC_TYPE, CONN_ID} (prpc_connect con) con'"
    and "list_all2 (arrives {PRPC_TYPE, CONN_ID}) (map (prpc_progress con' False) resps) pkts"
    and "arrives {PRPC_TYPE, CONN_ID} (prpc_progress con' True final) last_pkt"
    and "arrives {PRPC_TYPE, CONN_ID} (prpc_cancel new_id (pkt_id con)) cancel'"
  shows "\<exists>c1 c2 c3 c4. a0_prpc_client_connect merge c con (Some f) w = Some (A0_OK, c1, w') \<and>
     a0_prpc_server_onpacket server con' = Some [Onconnect con'] \<and>
     take_packets c1 pkts = Some (map (\<lambda>pkt. (f, pkt, False)) pkts, c2) \<and>
     take_packets c1 (pkts @ [last_pkt]) = Some (map (\<lambda>pkt. (f, pkt, False)) pkts @ [(f, last_pkt, True)], c3) \<and>
     connections c3 = (connections c)(pkt_id con := None) \<and>
     a0_prpc_client_onpacket c3 last_pkt = Some ([], c4) \<and>
     a0_prpc_client_onpacket c1 cancel' = Some ([(f, cancel', False)], c1) \<and>
     a0_prpc_server_onpacket server cancel' =
       Some (if prpc_has_oncancel server then [Conn_oncancel (pkt_id con)] else [])"
proof -
  have len: "length (pkt_id con) = 37" by (rule uuid_str_length [OF assms(2)])
  have id: "pkt_id con' = pkt_id con" using assms(4) by (simp add: arrives_def prpc_connect_def)
  have h: "map_of (hdrs_of con') PRPC_TYPE = Some PRPC_TYPE_CONNECT"
    "map_of (hdrs_of last_pkt) PRPC_TYPE = Some PRPC_TYPE_COMPLETE" "map_of (hdrs_of cancel') PRPC_TYPE = Some PRPC_TYPE_CANCEL"
    "map_of (hdrs_of last_pkt) CONN_ID = Some (c_string (pkt_id con))"
    "map_of (hdrs_of cancel') CONN_ID = Some (c_string (pkt_id con))"
    using arrives_header [OF assms(4)] arrives_header [OF assms(6)] arrives_header [OF assms(7)] prpc_types(7) id
    by (simp_all add: prpc_connect_def prpc_progress_def prpc_cancel_def hdrs_of_def a0_packet_init_def with_block_def)
  have p: "\<forall>pkt \<in> set pkts. progress_of (pkt_id con) pkt"
  proof
    fix pkt assume "pkt \<in> set pkts"
    then obtain resp where "arrives {PRPC_TYPE, CONN_ID} (prpc_progress con' False resp) pkt"
      using assms(5) by (auto simp: list_all2_conv_all_nth in_set_conv_nth)
    from arrives_header [OF this] show "progress_of (pkt_id con) pkt"
      using prpc_types(7) id by (simp add: progress_of_def prpc_progress_def)
  qed
  obtain c1 where c1: "a0_prpc_client_connect merge c con (Some f) w = Some (A0_OK, c1, w')" "prpc_ok c1"
      "connections c1 = (connections c)(pkt_id con \<mapsto> Some f)"
    using connect_correct [OF assms(1) len, of merge "Some f" w] assms(3) by auto
  obtain c2 where c2: "take_packets c1 pkts = Some (map (\<lambda>pkt. (f, pkt, False)) pkts, c2)" "prpc_ok c2"
      "connections c2 = connections c1"
    using take_progress [OF c1(2) assms(2) _ p, of f] c1(3) by auto
  obtain c3 where c3: "a0_prpc_client_onpacket c2 last_pkt = Some ([(f, last_pkt, True)], c3)" "prpc_ok c3"
      "connections c3 = (connections c)(pkt_id con := None)"
    using prpc_onpacket_correct [OF c2(2) assms(2) h(4,2)] c2(3) c1(3) by auto
  obtain c4 where c4: "a0_prpc_client_onpacket c3 last_pkt = Some ([], c4)"
    using prpc_onpacket_correct [OF c3(2) assms(2) h(4,2)] c3(3) by auto
  have app: "take_packets c (xs @ ys) = Option.bind (take_packets c xs) (\<lambda>(calls, c).
      map_option (\<lambda>(calls', c). (calls @ calls', c)) (take_packets c ys))" for c :: "'a a0_prpc_client" and xs ys
    by (induction xs arbitrary: c) (auto simp: option.map_comp comp_def case_prod_beta map_option_case
        split: bind_split option.split)
  have "take_packets c1 (pkts @ [last_pkt]) = Some (map (\<lambda>pkt. (f, pkt, False)) pkts @ [(f, last_pkt, True)], c3)"
    by (simp add: app c2(1) c3(1))
  moreover have "a0_prpc_client_onpacket c1 cancel' = Some ([(f, cancel', False)], c1)"
    using uuid_map.get_law [OF c1(2) [unfolded prpc_ok_def] len] c1(3) h(3,5) uuid_at_c_string [OF assms(2)] prpc_types(4)
    by (simp add: a0_prpc_client_onpacket_def find_header_eq)
  moreover have "a0_prpc_server_onpacket server con' = Some [Onconnect con']"
    "a0_prpc_server_onpacket server cancel' = Some (if prpc_has_oncancel server then [Conn_oncancel (pkt_id con)] else [])"
    using h(1,3) prpc_types assms(7) len
    by (auto simp: a0_prpc_server_onpacket_def find_header_eq arrives_def prpc_cancel_def sizeof_uuid_def)
  ultimately show ?thesis using c1(1) c2(1) c3(3) c4 by blast
qed

definition example_prpc :: "nat a0_prpc_client" where
  "example_prpc = \<lparr>progress_reader = \<lparr>zc_transport = conn, started_empty = True, zc_opts = await_new,
       thread_id = 0, thread_start_event = 0\<rparr>, connection_writer = [Write_action conn],
     outstanding_connections = a0_map_init a0_hash_uuid_fn a0_cmp_uuid_fn ([], None)\<rparr>"

theorem prpc_connection_spec_witness:
  "\<exists>w' c1 c2. let con = prpc_connect example_request; pkt = prpc_progress con False example_packet in
     a0_prpc_client_connect example_merge example_prpc example_request (Some 5) arena = Some (A0_OK, c1, w') \<and>
     take_packets c1 [pkt] = Some ([(5, pkt, False)], c2)"
proof -
  let ?con = "prpc_connect example_request" and ?keys = "{PRPC_TYPE, CONN_ID}"
  have ok: "packet_ok ?con" "length (flat ?con) \<le> 100"
    by (simp_all add: example_request_def packet_ok_def flat_def hdrs_of_def prpc_connect_def with_block_def
        PRPC_TYPE_def PRPC_TYPE_CONNECT_def str_def)
  obtain w' where "a0_writer_write example_merge (connection_writer example_prpc) ?con arena = Some (A0_OK, w')"
    using write_appends [OF arena_idle conn_mode ok(1), of example_merge] ok(2) by (auto simp: example_prpc_def)
  moreover have "prpc_ok example_prpc" by (simp add: prpc_ok_def example_prpc_def map_kind_init)
  moreover have "list_all2 (arrives ?keys) (map (prpc_progress ?con False) [example_packet]) [prpc_progress ?con False example_packet]"
    by (simp add: arrives_refl)
  ultimately show ?thesis
    using prpc_connection_spec [OF _ example_request(1) _ arrives_refl _ arrives_refl arrives_refl, of example_prpc example_merge
        arena w' "[example_packet]" "[prpc_progress ?con False example_packet]" 5] by (simp add: Let_def) blast
qed

end
