(* ===== verification/Deadman.thy ===== *)
theory Deadman
  imports Event Endpoint
begin

text \<open>
  \<^verbatim>\<open>src/deadman_mtx.c\<close> and \<^verbatim>\<open>src/deadman.c\<close>: a mutex that is held for as long as its owner lives. Others can
  wait until it is held, or until a particular holder is gone; a token that is counted up each time it is taken
  tells the holders apart. The token and the mutex are shared memory, and so is the handle, because another
  thread may shut it down while an operation on it waits. \<open>None\<close> is an operation that does not return.
\<close>

section \<open>The handle and the shared token\<close>

text \<open>Offsets in \<^verbatim>\<open>a0_deadman_mtx_t\<close>; the pointer to the shared token is at 0.\<close>

definition sizeof_deadman_mtx :: nat where "sizeof_deadman_mtx = 16"
definition dm_stkn :: "mem \<Rightarrow> nat \<Rightarrow> nat" where "dm_stkn m d = ld64 m d"
definition dm_shutdown :: "nat \<Rightarrow> nat" where "dm_shutdown d = d + 8"
definition dm_inop :: "nat \<Rightarrow> nat" where "dm_inop d = d + 9"
definition dm_is_owner :: "nat \<Rightarrow> nat" where "dm_is_owner d = d + 10"

text \<open>In \<^verbatim>\<open>a0_deadman_mtx_shared_token_t\<close> the mutex is first.\<close>

definition sizeof_shared_token :: nat where "sizeof_shared_token = 32"
definition stkn_tkn :: "nat \<Rightarrow> nat" where "stkn_tkn s = s + 24"

definition flag_set :: "nat \<Rightarrow> world \<Rightarrow> bool" where
  "flag_set a w \<longleftrightarrow> mm w a \<noteq> 0"

definition dm_ftx :: "nat \<Rightarrow> world \<Rightarrow> nat" where
  "dm_ftx d w = ftx_of (dm_stkn (mm w) d)"

definition FUTEX_WAITERS :: u32 where
  "FUTEX_WAITERS = 0x80000000"

definition a0_deadman_mtx_init :: "nat \<Rightarrow> nat \<Rightarrow> world \<Rightarrow> world" where
  "a0_deadman_mtx_init d shared_token w = wr 8 d shared_token (wr_bytes d (replicate sizeof_deadman_mtx 0) w)"

partial_function (option) shutdown_loop :: "nat \<Rightarrow> world \<Rightarrow> world option" where
  [code]: "shutdown_loop d w =
     (if flag_set (dm_inop d) w then shutdown_loop d (snd (a0_ftx_broadcast (dm_ftx d w) w)) else Some w)"

definition a0_deadman_mtx_shutdown :: "nat \<Rightarrow> world \<Rightarrow> world option" where
  "a0_deadman_mtx_shutdown d w = shutdown_loop d (wr 1 (dm_shutdown d) 1 w)"

section \<open>Taking it\<close>

definition a0_deadman_mtx_trylock_impl :: "nat \<Rightarrow> world \<Rightarrow> a0_err \<times> world" where
  "a0_deadman_mtx_trylock_impl d w =
     (if flag_set (dm_shutdown d) w then (A0_MAKE_SYSERR ESHUTDOWN, w)
      else
        let stkn = dm_stkn (mm w) d;
            tid = gettid w;
            old = ld32 (mm w) (ftx_of stkn)
        in if a0_ftx_tid old = 0 then
             let new = (old OR tid) AND NOT FUTEX_OWNER_DIED;
                 (prev, w) = a0_cas_val (ftx_of stkn) old new w
             in if prev = old then
                  let err = (if a0_ftx_owner_died old then A0_MAKE_SYSERR EOWNERDEAD else A0_OK);
                      w = wr 1 (dm_is_owner d) 1 w;
                      w = wr 8 (stkn_tkn stkn) (add64 (ld64 (mm w) (stkn_tkn stkn)) 1) w;
                      (err', w) = a0_ftx_broadcast (ftx_of stkn) w
                  in (resys err err', w)
                else (A0_MAKE_SYSERR EBUSY, w)
           else if a0_ftx_tid old = tid then (A0_MAKE_SYSERR EDEADLK, w)
           else (A0_MAKE_SYSERR EBUSY, w))"

definition a0_deadman_mtx_trylock :: "nat \<Rightarrow> world \<Rightarrow> a0_err \<times> world" where
  "a0_deadman_mtx_trylock d w =
     (if flag_set (dm_is_owner d) w then (A0_OK, w)
      else
        let w = a0_robust_op_start (dm_stkn (mm w) d) w;
            (err, w) = a0_deadman_mtx_trylock_impl d w;
            w = (if a0_mtx_lock_successful err then a0_robust_op_add (dm_stkn (mm w) d) w else w)
        in (err, a0_robust_op_end (dm_stkn (mm w) d) w))"

partial_function (option) timedlock_impl_loop :: "nat \<Rightarrow> timeout \<Rightarrow> world \<Rightarrow> (a0_err \<times> world) option" where
  [code]: "timedlock_impl_loop d timeout w =
     (let old = ld32 (mm w) (dm_ftx d w);
          (err, w) = a0_deadman_mtx_trylock_impl d w
      in if err = A0_OK \<or> A0_SYSERR err \<noteq> Some EBUSY then Some (err, w)
         else
           let new = old OR FUTEX_WAITERS;
               ftx = dm_ftx d w;
               (prev, w) = a0_cas_val ftx old new w
           in if prev \<noteq> old then timedlock_impl_loop d timeout w
              else
                (case a0_ftx_wait ftx (unat new) timeout w of
                   (err, w) \<Rightarrow>
                     if err = A0_OK \<or> A0_SYSERR err = Some EAGAIN then timedlock_impl_loop d timeout w
                     else Some (err, w)))"

definition a0_deadman_mtx_timedlock :: "nat \<Rightarrow> timeout \<Rightarrow> world \<Rightarrow> (a0_err \<times> world) option" where
  "a0_deadman_mtx_timedlock d timeout w =
     (if flag_set (dm_is_owner d) w then Some (A0_OK, w)
      else
        let w = wr 1 (dm_inop d) 1 w;
            w = a0_robust_op_start (dm_stkn (mm w) d) w
        in map_option (\<lambda>(err, w).
             let w = (if a0_mtx_lock_successful err then a0_robust_op_add (dm_stkn (mm w) d) w else w);
                 w = a0_robust_op_end (dm_stkn (mm w) d) w
             in (err, wr 1 (dm_inop d) 0 w))
           (timedlock_impl_loop d timeout w))"

definition a0_deadman_mtx_lock :: "nat \<Rightarrow> world \<Rightarrow> (a0_err \<times> world) option" where
  "a0_deadman_mtx_lock d w = a0_deadman_mtx_timedlock d None w"

section \<open>Giving it up\<close>

definition a0_deadman_mtx_unlock :: "nat \<Rightarrow> world \<Rightarrow> a0_err \<times> world" where
  "a0_deadman_mtx_unlock d w =
     (if \<not> flag_set (dm_is_owner d) w then (A0_MAKE_SYSERR EPERM, w)
      else
        let w = a0_robust_op_start (dm_stkn (mm w) d) w;
            w = a0_robust_op_del (dm_stkn (mm w) d) w;
            w = wr32 (dm_ftx d w) (ld32 (mm w) (dm_ftx d w) AND FUTEX_WAITERS) w;
            w = a0_robust_op_end (dm_stkn (mm w) d) w;
            w = wr 1 (dm_is_owner d) 0 w
        in (A0_OK, snd (a0_ftx_broadcast (dm_ftx d w) w)))"

section \<open>Waiting\<close>

text \<open>
  Both ways to wait have the same loop, while \<open>keep\<close> holds of the word and the token. It ends with
  \<^verbatim>\<open>A0_OK\<close> when \<open>keep\<close> does not hold any more.
\<close>

partial_function (option) wait_while :: "(nat \<Rightarrow> world \<Rightarrow> bool) \<Rightarrow> nat \<Rightarrow> timeout \<Rightarrow> world \<Rightarrow> (a0_err \<times> world) option" where
  [code]: "wait_while keep d timeout w =
     (if \<not> keep d w then Some (A0_OK, w)
      else if flag_set (dm_shutdown d) w then Some (A0_MAKE_SYSERR ESHUTDOWN, w)
      else
        let ftx = dm_ftx d w;
            old = ld32 (mm w) ftx;
            new = old OR FUTEX_WAITERS;
            (prev, w) = a0_cas_val ftx old new w
        in if prev \<noteq> old then wait_while keep d timeout w
           else
             (case a0_ftx_wait ftx (unat new) timeout w of
                (err, w) \<Rightarrow>
                  if err \<noteq> A0_OK \<and> A0_SYSERR err \<noteq> Some EAGAIN then Some (err, w)
                  else wait_while keep d timeout w))"

text \<open>There is no holder, or it has died.\<close>

definition vacant :: "nat \<Rightarrow> world \<Rightarrow> bool" where
  "vacant d w \<longleftrightarrow> (let old = ld32 (mm w) (dm_ftx d w) in a0_ftx_tid old = 0 \<or> a0_ftx_owner_died old)"

definition a0_deadman_mtx_timedwait_locked_impl :: "nat \<Rightarrow> timeout \<Rightarrow> world \<Rightarrow> (a0_err \<times> nat option \<times> world) option" where
  "a0_deadman_mtx_timedwait_locked_impl d timeout w =
     map_option (\<lambda>(err, w).
       (err, if err = A0_OK then Some (ld64 (mm w) (stkn_tkn (dm_stkn (mm w) d))) else None, w))
     (wait_while vacant d timeout w)"

definition a0_deadman_mtx_timedwait_locked :: "nat \<Rightarrow> timeout \<Rightarrow> world \<Rightarrow> (a0_err \<times> nat option \<times> world) option" where
  "a0_deadman_mtx_timedwait_locked d timeout w =
     map_option (\<lambda>(err, out_tkn, w). (err, out_tkn, wr 1 (dm_inop d) 0 w))
       (a0_deadman_mtx_timedwait_locked_impl d timeout (wr 1 (dm_inop d) 1 w))"

definition a0_deadman_mtx_wait_locked :: "nat \<Rightarrow> world \<Rightarrow> (a0_err \<times> nat option \<times> world) option" where
  "a0_deadman_mtx_wait_locked d w = a0_deadman_mtx_timedwait_locked d None w"

text \<open>There is a holder, and it is the one that the token stands for.\<close>

definition held_by :: "nat \<Rightarrow> nat \<Rightarrow> world \<Rightarrow> bool" where
  "held_by tkn d w \<longleftrightarrow> (let old = ld32 (mm w) (dm_ftx d w)
     in a0_ftx_tid old \<noteq> 0 \<and> \<not> a0_ftx_owner_died old \<and> tkn = ld64 (mm w) (stkn_tkn (dm_stkn (mm w) d)))"

definition a0_deadman_mtx_timedwait_unlocked_impl :: "nat \<Rightarrow> timeout \<Rightarrow> nat \<Rightarrow> world \<Rightarrow> (a0_err \<times> world) option" where
  "a0_deadman_mtx_timedwait_unlocked_impl d timeout tkn w = wait_while (held_by tkn) d timeout w"

definition a0_deadman_mtx_timedwait_unlocked :: "nat \<Rightarrow> timeout \<Rightarrow> nat \<Rightarrow> world \<Rightarrow> (a0_err \<times> world) option" where
  "a0_deadman_mtx_timedwait_unlocked d timeout tkn w =
     map_option (\<lambda>(err, w). (err, wr 1 (dm_inop d) 0 w))
       (a0_deadman_mtx_timedwait_unlocked_impl d timeout tkn (wr 1 (dm_inop d) 1 w))"

definition a0_deadman_mtx_wait_unlocked :: "nat \<Rightarrow> nat \<Rightarrow> world \<Rightarrow> (a0_err \<times> world) option" where
  "a0_deadman_mtx_wait_unlocked d tkn w = a0_deadman_mtx_timedwait_unlocked d None tkn w"

section \<open>The state\<close>

record a0_deadman_mtx_state_t =
  is_locked :: bool
  is_owner :: bool
  owner_tid :: u32
  st_tkn :: nat

definition a0_deadman_mtx_state :: "nat \<Rightarrow> world \<Rightarrow> a0_deadman_mtx_state_t" where
  "a0_deadman_mtx_state d w =
     (let tid = a0_ftx_tid (ld32 (mm w) (dm_ftx d w));
          tid = (if a0_ftx_owner_died tid then 0 else tid);
          locked = (tid \<noteq> 0)
      in \<lparr>is_locked = locked, is_owner = flag_set (dm_is_owner d) w, owner_tid = tid,
          st_tkn = (if locked then ld64 (mm w) (stkn_tkn (dm_stkn (mm w) d)) else 0)\<rparr>)"

section \<open>Deadmen on topics (deadman.c)\<close>

text \<open>
  The file has room for the token and nothing else, so the token is where the arena begins.
  \<open>file_open\<close> is \<^verbatim>\<open>a0_file_open\<close> with the default options and this size. \<open>dead_mtx\<close> is where the handle is.
\<close>

record a0_deadman =
  dead_file :: a0_file
  dead_mtx :: nat

definition a0_deadman_topic_open :: "(nat \<Rightarrow> file_open) \<Rightarrow> environ \<Rightarrow> string option \<Rightarrow> a0_err + a0_file" where
  "a0_deadman_topic_open file_open getenv name =
     a0_topic_open (file_open sizeof_shared_token) (Some (a0_env_topic_tmpl_deadman getenv)) name"

definition a0_deadman_init ::
    "(nat \<Rightarrow> file_open) \<Rightarrow> environ \<Rightarrow> string option \<Rightarrow> nat \<Rightarrow> world \<Rightarrow> (a0_err + a0_deadman) \<times> world" where
  "a0_deadman_init file_open getenv name d w =
     (case a0_deadman_topic_open file_open getenv name of
        Inl err \<Rightarrow> (Inl err, w)
      | Inr file \<Rightarrow> (Inr \<lparr>dead_file = file, dead_mtx = d\<rparr>, a0_deadman_mtx_init d 0 w))"

definition a0_deadman_take :: "a0_deadman \<Rightarrow> world \<Rightarrow> (a0_err \<times> world) option" where
  "a0_deadman_take d w = a0_deadman_mtx_lock (dead_mtx d) w"

definition a0_deadman_trytake :: "a0_deadman \<Rightarrow> world \<Rightarrow> a0_err \<times> world" where
  "a0_deadman_trytake d w = a0_deadman_mtx_trylock (dead_mtx d) w"

definition a0_deadman_timedtake :: "a0_deadman \<Rightarrow> timeout \<Rightarrow> world \<Rightarrow> (a0_err \<times> world) option" where
  "a0_deadman_timedtake d timeout w = a0_deadman_mtx_timedlock (dead_mtx d) timeout w"

definition a0_deadman_release :: "a0_deadman \<Rightarrow> world \<Rightarrow> a0_err \<times> world" where
  "a0_deadman_release d w = a0_deadman_mtx_unlock (dead_mtx d) w"

definition a0_deadman_timedwait_taken :: "a0_deadman \<Rightarrow> timeout \<Rightarrow> world \<Rightarrow> (a0_err \<times> nat option \<times> world) option" where
  "a0_deadman_timedwait_taken d timeout w = a0_deadman_mtx_timedwait_locked (dead_mtx d) timeout w"

definition a0_deadman_wait_taken :: "a0_deadman \<Rightarrow> world \<Rightarrow> (a0_err \<times> nat option \<times> world) option" where
  "a0_deadman_wait_taken d w = a0_deadman_mtx_wait_locked (dead_mtx d) w"

definition a0_deadman_timedwait_released :: "a0_deadman \<Rightarrow> timeout \<Rightarrow> nat \<Rightarrow> world \<Rightarrow> (a0_err \<times> world) option" where
  "a0_deadman_timedwait_released d timeout tkn w = a0_deadman_mtx_timedwait_unlocked (dead_mtx d) timeout tkn w"

definition a0_deadman_wait_released :: "a0_deadman \<Rightarrow> nat \<Rightarrow> world \<Rightarrow> (a0_err \<times> world) option" where
  "a0_deadman_wait_released d tkn w = a0_deadman_mtx_wait_unlocked (dead_mtx d) tkn w"

definition a0_deadman_state :: "a0_deadman \<Rightarrow> world \<Rightarrow> a0_deadman_mtx_state_t" where
  "a0_deadman_state d w = a0_deadman_mtx_state (dead_mtx d) w"

text \<open>Up to unmapping the file.\<close>

definition a0_deadman_close :: "a0_deadman \<Rightarrow> world \<Rightarrow> world option" where
  "a0_deadman_close d w =
     map_option (\<lambda>w. snd (a0_deadman_release d w)) (a0_deadman_mtx_shutdown (dead_mtx d) w)"

end
