(* ===== verification/Deadman_Correct.thy ===== *)
theory Deadman_Correct
  imports Deadman Mtx_Correct
begin

text \<open>
  Correctness of \<^verbatim>\<open>src/deadman_mtx.c\<close>, operation by operation: taking and releasing, and the two ways of
  waiting. What threads do to each other between the steps of these operations is in \<open>Deadman_Steps\<close>.
\<close>

section \<open>Words\<close>

lemma tid_mask: "NOT FUTEX_OWNER_DIED AND FUTEX_TID_MASK = FUTEX_TID_MASK"
    "FUTEX_WAITERS AND FUTEX_TID_MASK = 0" "FUTEX_WAITERS AND FUTEX_OWNER_DIED = 0"
    "FUTEX_TID_MASK AND FUTEX_OWNER_DIED = 0"
  by (simp_all add: FUTEX_OWNER_DIED_def FUTEX_TID_MASK_def FUTEX_WAITERS_def)

lemma tid_taken: "a0_ftx_tid old = 0 \<Longrightarrow> t AND FUTEX_TID_MASK = t \<Longrightarrow> a0_ftx_tid ((old OR t) AND NOT FUTEX_OWNER_DIED) = t"
  by (simp add: a0_ftx_tid_def and.assoc tid_mask bit.conj_disj_distrib2)

lemma died_taken: "\<not> a0_ftx_owner_died ((old OR t) AND NOT FUTEX_OWNER_DIED)"
  by (simp add: a0_ftx_owner_died_def and.assoc)

lemma waiting_word [simp]: "a0_ftx_tid (old OR FUTEX_WAITERS) = a0_ftx_tid old"
    "a0_ftx_owner_died (old OR FUTEX_WAITERS) = a0_ftx_owner_died old"
  by (simp_all add: a0_ftx_tid_def a0_ftx_owner_died_def bit.conj_disj_distrib2 tid_mask)

lemma released_word [simp]: "a0_ftx_tid (old AND FUTEX_WAITERS) = 0" "\<not> a0_ftx_owner_died (old AND FUTEX_WAITERS)"
  by (simp_all add: a0_ftx_tid_def a0_ftx_owner_died_def and.assoc tid_mask)

lemma waiters_kept: "t AND FUTEX_TID_MASK = t \<Longrightarrow> ((old OR t) AND NOT FUTEX_OWNER_DIED) AND FUTEX_WAITERS = old AND FUTEX_WAITERS"
proof -
  assume t: "t AND FUTEX_TID_MASK = t"
  have "t AND FUTEX_WAITERS = (t AND FUTEX_TID_MASK) AND FUTEX_WAITERS" using t by simp
  also have "\<dots> = 0" by (simp add: and.assoc FUTEX_TID_MASK_def FUTEX_WAITERS_def)
  finally have 0: "t AND FUTEX_WAITERS = 0" .
  have "NOT FUTEX_OWNER_DIED AND FUTEX_WAITERS = FUTEX_WAITERS"
    by (simp add: FUTEX_OWNER_DIED_def FUTEX_WAITERS_def)
  then show ?thesis by (simp add: and.assoc bit.conj_disj_distrib2 0)
qed

section \<open>Where things are\<close>

text \<open>
  The handle \<open>d\<close> points to the token at \<open>s\<close>; both lie apart from each other, from the thread's list head and
  from the other mutexes it holds.
\<close>

definition clear_of :: "nat \<Rightarrow> nat \<Rightarrow> nat list \<Rightarrow> bool" where
  "clear_of a n ys \<longleftrightarrow> (\<forall>y \<in> set ys. a + n \<le> y \<or> y + 24 \<le> a)"

definition dead_at :: "world \<Rightarrow> nat list \<Rightarrow> nat \<Rightarrow> nat \<Rightarrow> bool" where
  "dead_at w ms d s \<longleftrightarrow> dm_stkn (mm w) d = s \<and> s + 32 < 2 ^ 64 \<and> clear_of s 32 (rb_head w # ms) \<and>
     clear_of d 16 (rb_head w # ms) \<and> (d + 16 \<le> s \<or> s + 32 \<le> d)"

text \<open>Waking sleepers is no blocking call: it succeeds, and writes nothing.\<close>

definition wake_ok :: "world \<Rightarrow> bool" where
  "wake_ok w \<longleftrightarrow> (\<forall>t a n m. kernel w t (FUTEX_WAKE a n) m = (None, m))"

lemma broadcast_eq: "wake_ok w \<Longrightarrow> a0_ftx_broadcast a w = (A0_OK, w\<lparr>past := mm w # past w, now := Suc (now w)\<rparr>)"
  by (simp add: a0_ftx_broadcast_def a0_ftx_wake_def a0_futex_def wake_ok_def)

lemma dead_at_mtx: "dead_at w ms d s \<Longrightarrow> mtx_apart s w ms"
  by (fastforce simp: dead_at_def clear_of_def mtx_apart_def apart24_def)

text \<open>What the operations of a thread on a token may write.\<close>

definition dead_area :: "nat \<Rightarrow> nat list \<Rightarrow> nat \<Rightarrow> nat \<Rightarrow> nat set" where
  "dead_area rb ms d s = {s..<s + 32} \<union> {rb..<rb + 24} \<union> {d + 9..<d + 11} \<union> (\<Union>y \<in> set ms. {y..<y + 16})"

text \<open>Memory in which the word names thread \<open>t\<close> only if the thread's list, or its announcement, covers it.\<close>

definition names_covered :: "u32 \<Rightarrow> nat \<Rightarrow> nat \<Rightarrow> mem \<Rightarrow> bool" where
  "names_covered t rb s m \<longleftrightarrow> a0_ftx_tid (ld32 m (s + 16)) = t \<longrightarrow> covered rb s m"

section \<open>Taking\<close>

lemma trylock_impl_taken:
  assumes "wake_ok w" "\<not> flag_set (dm_shutdown d) w" "dead_at w ms d s"
    and "ld32 (mm w) (s + 16) = old" "a0_ftx_tid old = 0"
    and "w1 = wr32 (s + 16) ((old OR gettid w) AND NOT FUTEX_OWNER_DIED) w" "w2 = wr 1 (dm_is_owner d) 1 w1"
    and "w3 = wr 8 (stkn_tkn s) (add64 (ld64 (mm w) (stkn_tkn s)) 1) w2"
  shows "a0_deadman_mtx_trylock_impl d w =
     (if a0_ftx_owner_died old then A0_MAKE_SYSERR EOWNERDEAD else A0_OK, w3\<lparr>past := mm w3 # past w3, now := Suc (now w3)\<rparr>)"
proof -
  have "ld64 (mm w2) (stkn_tkn s) = ld64 (mm w) (stkn_tkn s)"
    using assms(3,6,7) by (auto simp: dead_at_def stkn_tkn_def dm_is_owner_def wr32_def mem_simps)
  moreover have "wake_ok w3" using assms(1,6-8) by (simp add: wake_ok_def wr32_def)
  ultimately show ?thesis
    using assms(2-) broadcast_eq [of w3]
    by (simp add: a0_deadman_mtx_trylock_impl_def dead_at_def Let_def a0_cas_val_def resys_def)
qed

lemma clear_of_pick: "clear_of a n ys \<Longrightarrow> y \<in> set ys \<Longrightarrow> a + n \<le> y \<or> y + 24 \<le> a"
  by (simp add: clear_of_def)

text \<open>Stores to the handle and the token do not touch the list.\<close>

lemma aside_robust:
  assumes "robust_ok m rb ms" "\<forall>y \<in> set (rb # ms). b + k \<le> y \<or> y + 24 \<le> b" "b \<le> a" "a + n \<le> b + k"
  shows "robust_ok (stb n m a v) rb ms"
proof -
  have "\<forall>y \<in> set (rb # ms). a + n \<le> y \<or> y + 24 \<le> a"
  proof
    fix y assume "y \<in> set (rb # ms)"
    then show "a + n \<le> y \<or> y + 24 \<le> a" using assms(2) [rule_format, of y] assms(3,4) by auto
  qed
  then show ?thesis using assms(1) by (subst robust_ok_cong [of rb ms _ m]) (auto simp: mem_simps)
qed

text \<open>From the moment the mutex is announced as pending.\<close>

lemma take_enlisted:
  assumes t: "thread_ok w ms" and at: "dead_at w ms d s" and k: "wake_ok w" and down: "\<not> flag_set (dm_shutdown d) w"
    and old: "ld32 (mm w) (s + 16) = old" "a0_ftx_tid old = 0" and pend: "ld64 (mm w) (rb_head w + 16) = s"
  shows "\<exists>w5 w'. a0_deadman_mtx_trylock_impl d w = (if a0_ftx_owner_died old then A0_MAKE_SYSERR EOWNERDEAD else A0_OK, w5) \<and>
     dm_stkn (mm w5) d = s \<and> a0_robust_op_end s (a0_robust_op_add s w5) = w' \<and>
     thread_ok w' (s # ms) \<and> ld32 (mm w') (s + 16) = (old OR gettid w) AND NOT FUTEX_OWNER_DIED \<and>
     ld64 (mm w') (stkn_tkn s) = add64 (ld64 (mm w) (stkn_tkn s)) 1 \<and> flag_set (dm_is_owner d) w' \<and>
     dead_at w' ms d s \<and> touches (dead_area (rb_head w) ms d s) w w' \<and>
     grew w w' (names_covered (gettid w) (rb_head w) s)"
proof -
  let ?rb = "rb_head w" and ?new = "(old OR gettid w) AND NOT FUTEX_OWNER_DIED" and ?P = "names_covered (gettid w) (rb_head w) s"
  let ?e = "if a0_ftx_owner_died old then A0_MAKE_SYSERR EOWNERDEAD else A0_OK" and ?S = "dead_area (rb_head w) ms d s"
  have ok: "robust_ok (mm w) ?rb ms" and init: "rb_init w" and tid: "gettid w \<noteq> 0"
    using t by (simp_all add: thread_ok_def)
  have s: "s + 32 < 2 ^ 64" "dm_stkn (mm w) d = s" "d + 16 \<le> s \<or> s + 32 \<le> d" "s + 32 \<le> ?rb \<or> ?rb + 24 \<le> s" "d + 16 \<le> ?rb \<or> ?rb + 24 \<le> d"
    and sy: "\<forall>y \<in> set (?rb # ms). s + 32 \<le> y \<or> y + 24 \<le> s" and dy: "\<forall>y \<in> set (?rb # ms). d + 16 \<le> y \<or> y + 24 \<le> d"
    using at by (auto simp: dead_at_def clear_of_def)
  define w2 where "w2 = wr32 (s + 16) ?new w"
  define w3 where "w3 = wr 1 (dm_is_owner d) 1 w2"
  define w4 where "w4 = wr 8 (stkn_tkn s) (add64 (ld64 (mm w) (stkn_tkn s)) 1) w3"
  define w5 where "w5 = w4\<lparr>past := mm w4 # past w4, now := Suc (now w4)\<rparr>"
  note ws = w2_def w3_def w4_def w5_def wr32_def dm_is_owner_def stkn_tkn_def
  have same: "rb_head w5 = ?rb" "gettid w5 = gettid w" "null w5 = null w" "rb_init w5 = rb_init w"
    by (simp_all add: ws)
  have ok5: "robust_ok (mm w5) (rb_head w5) ms"
    unfolding same
    using aside_robust [OF aside_robust [OF aside_robust [OF ok sy, of "s + 16" 4] dy, of "d + 10" 1] sy,
      of "s + 24" 8]
    by (simp add: ws)
  have k2: "ld64 (mm w2) (?rb + 16) = s" "ld32 (mm w2) (s + 16) = ?new"
    using s pend unfolding ws by (auto simp: mem_simps)
  have k3: "ld64 (mm w3) (?rb + 16) = s" "ld32 (mm w3) (s + 16) = ?new"
    using k2 s unfolding w3_def dm_is_owner_def by (auto simp: mem_simps ld32_stb_other)
  have k5: "ld64 (mm w5) (rb_head w5 + 16) = s" "ld32 (mm w5) (s + 16) = ?new"
    unfolding same using k3 s by (auto simp: w4_def w5_def stkn_tkn_def mem_simps ld32_stb_other)
  have k5': "ld64 (mm w5) (stkn_tkn s) = add64 (ld64 (mm w) (stkn_tkn s)) 1"
    using add64_bound by (simp add: w4_def w5_def mem_simps)
  have "mm w3 (dm_is_owner d) \<noteq> 0" by (simp add: w3_def stb_def)
  then have o5: "flag_set (dm_is_owner d) w5"
    using s(3) by (auto simp: flag_set_def w4_def w5_def stb_other stkn_tkn_def dm_is_owner_def)
  have d5: "dm_stkn (mm w5) d = s"
    using s(2,3) by (auto simp: w5_def w4_def w3_def w2_def dm_stkn_def dm_is_owner_def stkn_tkn_def wr32_def mem_simps)
  have run: "a0_deadman_mtx_trylock_impl d w = (?e, w5)"
    using trylock_impl_taken [OF k down at old refl refl refl] by (simp add: ws)
  obtain w6 where w6: "a0_robust_op_end s (a0_robust_op_add s w5) = w6" "robust_ok (mm w6) ?rb (s # ms)"
      "ld32 (mm w6) (s + 16) = ?new" "grew w5 w6 (\<lambda>m. ld32 m (s + 16) = ?new \<and> covered ?rb s m)"
      "touches ({s..<s + 16} \<union> {?rb..<?rb + 24} \<union> (\<Union>y \<in> set ms. {y + 8..<y + 16})) w5 w6"
      "gettid w6 = gettid w" "rb_init w6 = rb_init w" "null w6 = null w"
    using enlist [OF ok5 _ k5(1)] dead_at_mtx [OF at] unfolding mtx_apart_def k5(2) same by blast
  have "grew w w2 ?P"
    unfolding w2_def wr32_def using old tid by (intro grew_wr) (simp add: names_covered_def)
  also have "grew w2 w3 ?P"
    unfolding w3_def using k2 by (intro grew_wr) (simp add: names_covered_def covered_def)
  also have "grew w3 w4 ?P"
    unfolding w4_def using k3 by (intro grew_wr) (simp add: names_covered_def covered_def)
  also have "grew w4 w5 ?P"
    using k5(1) same by (simp add: grew_def w5_def names_covered_def covered_def)
  also have "grew w5 w6 ?P" by (rule grew_mono [OF w6(4)]) (simp add: names_covered_def)
  finally have g: "grew w w6 ?P" .
  have "touches ?S w w2" unfolding w2_def wr32_def by (rule touches_wr) (auto simp: dead_area_def)
  also have "touches ?S w2 w3" unfolding w3_def by (rule touches_wr) (auto simp: dead_area_def dm_is_owner_def)
  also have "touches ?S w3 w4" unfolding w4_def by (rule touches_wr) (auto simp: dead_area_def stkn_tkn_def)
  also have "touches ?S w4 w5" by (simp add: touches_def grew_def w5_def)
  also have "touches ?S w5 w6" by (rule touches_mono [OF w6(5)]) (auto simp: dead_area_def)
  finally have touch: "touches ?S w w6" .
  note o6 = touches_only [OF w6(5)]
  have kept: "ld n (mm w6) a = ld n (mm w5) a" if "a = stkn_tkn s \<and> n = 8 \<or> d \<le> a \<and> a + n \<le> d + 16" for a n
    using that sy dy s by (intro only_ld [OF o6]) (fastforce simp: stkn_tkn_def)
  have "ld64 (mm w6) (stkn_tkn s) = ld64 (mm w5) (stkn_tkn s)" "dm_stkn (mm w6) d = dm_stkn (mm w5) d"
    using kept [of "stkn_tkn s" 8] kept [of d 8] by (simp_all add: dm_stkn_def)
  moreover have "dm_is_owner d \<notin> {s..<s + 16} \<union> {?rb..<?rb + 24} \<union> (\<Union>y \<in> set ms. {y + 8..<y + 16})"
    using dy s by (fastforce simp: dm_is_owner_def)
  then have "mm w6 (dm_is_owner d) = mm w5 (dm_is_owner d)" using o6 unfolding only_def by blast
  ultimately have "ld64 (mm w6) (stkn_tkn s) = add64 (ld64 (mm w) (stkn_tkn s)) 1" "dead_at w6 ms d s" "flag_set (dm_is_owner d) w6"
    using k5' d5 o5 at touch by (simp_all add: dead_at_def touches_def grew_def flag_set_def)
  moreover have "thread_ok w6 (s # ms)" using t w6 g by (simp add: thread_ok_def grew_def)
  ultimately show ?thesis using run d5 w6(1,3) touch g by blast
qed

text \<open>Announcing a mutex that the word does not give to the thread.\<close>

lemma announce:
  assumes t: "thread_ok w ms" and at: "dead_at w ms d s"
  shows "\<exists>w1. a0_robust_op_start s w = w1 \<and> thread_ok w1 ms \<and> dead_at w1 ms d s \<and> ld64 (mm w1) (rb_head w + 16) = s \<and>
     (\<forall>f \<in> {dm_shutdown d, dm_is_owner d}. flag_set f w1 = flag_set f w) \<and> ld32 (mm w1) (s + 16) = ld32 (mm w) (s + 16) \<and>
     ld64 (mm w1) (stkn_tkn s) = ld64 (mm w) (stkn_tkn s) \<and> touches {rb_head w + 16..<rb_head w + 24} w w1 \<and>
     gettid w1 = gettid w \<and> rb_head w1 = rb_head w \<and> kernel w1 = kernel w \<and>
     (a0_ftx_tid (ld32 (mm w) (s + 16)) \<noteq> gettid w \<longrightarrow> grew w w1 (names_covered (gettid w) (rb_head w) s))"
proof -
  let ?rb = "rb_head w"
  have ok: "robust_ok (mm w) ?rb ms" and init: "rb_init w" using t by (simp_all add: thread_ok_def)
  have s: "s + 32 < 2 ^ 64" "dm_stkn (mm w) d = s" "s + 32 \<le> ?rb \<or> ?rb + 24 \<le> s" "d + 16 \<le> ?rb \<or> ?rb + 24 \<le> d"
    using at by (auto simp: dead_at_def clear_of_def)
  define w1 where "w1 = wr 8 (?rb + 16) s w"
  have start: "a0_robust_op_start s w = w1"
    using init by (simp add: a0_robust_op_start_def a0_robust_init_thread_def w1_def Let_def)
  have "ld64 (mm w1) (?rb + 16) = s" "ld32 (mm w1) (s + 16) = ld32 (mm w) (s + 16)"
    "ld64 (mm w1) (stkn_tkn s) = ld64 (mm w) (stkn_tkn s)" "dm_stkn (mm w1) d = s"
    "mm w1 (dm_shutdown d) = mm w (dm_shutdown d)" "mm w1 (dm_is_owner d) = mm w (dm_is_owner d)"
    using s unfolding w1_def by (auto simp: mem_simps ld32_stb_other stkn_tkn_def dm_stkn_def stb_other dm_shutdown_def dm_is_owner_def)
  moreover have "thread_ok w1 ms" using t pending_robust [OF ok] by (simp add: thread_ok_def w1_def)
  moreover have "touches {?rb + 16..<?rb + 24} w w1" unfolding w1_def by (rule touches_wr) auto
  moreover have "a0_ftx_tid (ld32 (mm w) (s + 16)) \<noteq> gettid w \<Longrightarrow> grew w w1 (names_covered (gettid w) ?rb s)"
    unfolding w1_def by (rule grew_wr) (simp add: names_covered_def)
  ultimately show ?thesis using start at by (simp add: flag_set_def dead_at_def w1_def)
qed

lemma trylock_taken:
  assumes t: "thread_ok w ms" and at: "dead_at w ms d s" and k: "wake_ok w"
    and flags: "\<not> flag_set (dm_shutdown d) w" "\<not> flag_set (dm_is_owner d) w"
    and old: "ld32 (mm w) (s + 16) = old" "a0_ftx_tid old = 0"
  shows "\<exists>w'. a0_deadman_mtx_trylock d w = (if a0_ftx_owner_died old then A0_MAKE_SYSERR EOWNERDEAD else A0_OK, w') \<and>
     thread_ok w' (s # ms) \<and> ld32 (mm w') (s + 16) = (old OR gettid w) AND NOT FUTEX_OWNER_DIED \<and>
     ld64 (mm w') (stkn_tkn s) = add64 (ld64 (mm w) (stkn_tkn s)) 1 \<and> flag_set (dm_is_owner d) w' \<and>
     dead_at w' ms d s \<and> touches (dead_area (rb_head w) ms d s) w w' \<and>
     grew w w' (names_covered (gettid w) (rb_head w) s)"
proof -
  let ?e = "if a0_ftx_owner_died old then A0_MAKE_SYSERR EOWNERDEAD else A0_OK" and ?S = "dead_area (rb_head w) ms d s"
  have tid: "gettid w \<noteq> 0" using t by (simp add: thread_ok_def)
  obtain w1 where w1: "a0_robust_op_start s w = w1" "thread_ok w1 ms" "dead_at w1 ms d s" "ld64 (mm w1) (rb_head w1 + 16) = s"
      "flag_set (dm_shutdown d) w1 = flag_set (dm_shutdown d) w" "ld32 (mm w1) (s + 16) = old"
      "ld64 (mm w1) (stkn_tkn s) = ld64 (mm w) (stkn_tkn s)" "touches {rb_head w + 16..<rb_head w + 24} w w1"
      "gettid w1 = gettid w" "rb_head w1 = rb_head w" "kernel w1 = kernel w" "grew w w1 (names_covered (gettid w) (rb_head w) s)"
    using announce [OF t at] old tid by auto
  have "wake_ok w1" "\<not> flag_set (dm_shutdown d) w1" using k w1(5,11) flags by (simp_all add: wake_ok_def)
  from take_enlisted [OF w1(2,3) this w1(6) old(2) w1(4)] obtain w5 w' where
      w': "a0_deadman_mtx_trylock_impl d w1 = (?e, w5)" "dm_stkn (mm w5) d = s" "a0_robust_op_end s (a0_robust_op_add s w5) = w'"
      "thread_ok w' (s # ms)" "ld32 (mm w') (s + 16) = (old OR gettid w) AND NOT FUTEX_OWNER_DIED"
      "ld64 (mm w') (stkn_tkn s) = add64 (ld64 (mm w) (stkn_tkn s)) 1" "flag_set (dm_is_owner d) w'" "dead_at w' ms d s"
      "touches ?S w1 w'" "grew w1 w' (names_covered (gettid w) (rb_head w) s)"
    unfolding w1(7,9,10) by blast
  have "a0_mtx_lock_successful ?e" by (simp add: a0_mtx_lock_successful_def a0_mtx_previous_owner_died_def)
  moreover have "dm_stkn (mm w) d = s" using at by (simp add: dead_at_def)
  ultimately have "a0_deadman_mtx_trylock d w = (?e, w')"
    using flags(2) w1(1) w'(1-3) by (simp add: a0_deadman_mtx_trylock_def Let_def a0_robust_op_end_def)
  moreover have "touches ?S w w1" by (rule touches_mono [OF w1(8)]) (auto simp: dead_area_def)
  then have "touches ?S w w'" using touches_trans w'(9) by blast
  ultimately show ?thesis using w'(4-8) grew_trans [OF w1(12) w'(10)] by blast
qed

lemma aside_ld:
  assumes "only S m m'" "S \<subseteq> (\<Union>y \<in> set ys. {y..<y + 24})" "\<forall>y \<in> set ys. b + k \<le> y \<or> y + 24 \<le> b"
    and "b \<le> a" "a + n \<le> b + k"
  shows "ld n m' a = ld n m a"
proof (rule only_ld [OF assms(1)])
  have "{a..<a + n} \<inter> {y..<y + 24} = {}" if "y \<in> set ys" for y
    using assms(3) [rule_format, OF that] assms(4,5) by auto
  then show "{a..<a + n} \<inter> S = {}" using assms(2) by blast
qed

lemma trylock_refused:
  assumes t: "thread_ok w ms" and at: "dead_at w ms d s" and own: "\<not> flag_set (dm_is_owner d) w"
    and why: "flag_set (dm_shutdown d) w \<or> a0_ftx_tid (ld32 (mm w) (s + 16)) \<noteq> 0"
  shows "\<exists>w'. a0_deadman_mtx_trylock d w =
       (A0_MAKE_SYSERR (if flag_set (dm_shutdown d) w then ESHUTDOWN
          else if a0_ftx_tid (ld32 (mm w) (s + 16)) = gettid w then EDEADLK else EBUSY), w') \<and>
     thread_ok w' ms \<and> dead_at w' ms d s \<and> only {rb_head w + 16..<rb_head w + 24} (mm w) (mm w')"
proof -
  let ?rb = "rb_head w" and ?e = "if flag_set (dm_shutdown d) w then ESHUTDOWN
      else if a0_ftx_tid (ld32 (mm w) (s + 16)) = gettid w then EDEADLK else EBUSY"
  have ok: "robust_ok (mm w) ?rb ms" and init: "rb_init w" using t by (simp_all add: thread_ok_def)
  have s: "dm_stkn (mm w) d = s" "s + 32 \<le> ?rb \<or> ?rb + 24 \<le> s" "d + 16 \<le> ?rb \<or> ?rb + 24 \<le> d"
    using at by (auto simp: dead_at_def clear_of_def)
  define w1 where "w1 = wr 8 (?rb + 16) s w"
  define w2 where "w2 = wr 8 (?rb + 16) (null w) w1"
  have same: "flag_set (dm_shutdown d) w1 = flag_set (dm_shutdown d) w" "ld32 (mm w1) (s + 16) = ld32 (mm w) (s + 16)"
      "dm_stkn (mm w1) d = s" "dm_stkn (mm w2) d = s"
    using s by (auto simp: w1_def w2_def flag_set_def dm_shutdown_def stb_other ld32_stb_other dm_stkn_def mem_simps)
  have g1: "gettid w1 = gettid w" by (simp add: w1_def)
  have "a0_deadman_mtx_trylock_impl d w1 = (A0_MAKE_SYSERR ?e, w1)"
    using why by (cases "flag_set (dm_shutdown d) w") (simp_all add: a0_deadman_mtx_trylock_impl_def Let_def same g1)
  moreover have "a0_robust_op_start s w = w1"
    using init by (simp add: a0_robust_op_start_def a0_robust_init_thread_def w1_def Let_def)
  moreover have "\<not> a0_mtx_lock_successful (A0_MAKE_SYSERR ?e)"
    by (simp add: a0_mtx_lock_successful_def a0_mtx_previous_owner_died_def A0_MAKE_SYSERR_def)
  ultimately have "a0_deadman_mtx_trylock d w = (A0_MAKE_SYSERR ?e, w2)"
    using own s(1) by (simp add: a0_deadman_mtx_trylock_def Let_def a0_robust_op_end_def w2_def) (simp add: w1_def)
  moreover have "thread_ok w2 ms"
    using t pending_robust [OF pending_robust [OF ok]] by (simp add: thread_ok_def w2_def w1_def)
  moreover have "dead_at w2 ms d s" using at same by (simp add: dead_at_def w2_def w1_def)
  moreover have "touches {?rb + 16..<?rb + 24} w w2"
    unfolding w2_def w1_def by (intro touches_wr' touches_refl) auto
  ultimately show ?thesis using touches_only by blast
qed

section \<open>Releasing\<close>

lemma unlock_released:
  assumes t: "thread_ok w (as @ s # bs)" and at: "dead_at w (as @ bs) d s" and k: "wake_ok w"
    and own: "flag_set (dm_is_owner d) w"
  shows "\<exists>w'. a0_deadman_mtx_unlock d w = (A0_OK, w') \<and> thread_ok w' (as @ bs) \<and>
     ld32 (mm w') (s + 16) = ld32 (mm w) (s + 16) AND FUTEX_WAITERS \<and>
     ld64 (mm w') (stkn_tkn s) = ld64 (mm w) (stkn_tkn s) \<and> \<not> flag_set (dm_is_owner d) w' \<and>
     dead_at w' (as @ bs) d s \<and> touches (dead_area (rb_head w) (as @ bs) d s) w w' \<and>
     grew w w' (names_covered (gettid w) (rb_head w) s)"
proof -
  let ?rb = "rb_head w" and ?old = "ld32 (mm w) (s + 16)" and ?P = "names_covered (gettid w) (rb_head w) s"
  let ?S = "dead_area (rb_head w) (as @ bs) d s"
  have ok: "robust_ok (mm w) ?rb (as @ s # bs)" and init: "rb_init w" and tid: "gettid w \<noteq> 0"
    using t by (simp_all add: thread_ok_def)
  have s: "s + 32 < 2 ^ 64" "dm_stkn (mm w) d = s" "d + 16 \<le> s \<or> s + 32 \<le> d" "s + 32 \<le> ?rb \<or> ?rb + 24 \<le> s" "d + 16 \<le> ?rb \<or> ?rb + 24 \<le> d"
    and sy: "\<forall>y \<in> set (?rb # as @ bs). s + 32 \<le> y \<or> y + 24 \<le> s" and dy: "\<forall>y \<in> set (?rb # as @ bs). d + 16 \<le> y \<or> y + 24 \<le> d"
    using at by (auto simp: dead_at_def clear_of_def)
  let ?T = "{?rb..<?rb + 24} \<union> (\<Union>y \<in> set (as @ bs). {y..<y + 16})"
  obtain w2 where w2: "a0_robust_op_del s (a0_robust_op_start s w) = w2" "robust_ok (mm w2) ?rb (as @ bs)"
      "ld64 (mm w2) (?rb + 16) = s" "ld32 (mm w2) (s + 16) = ?old"
      "grew w w2 (\<lambda>m. ld32 m (s + 16) = ?old \<and> covered ?rb s m)" "touches ?T w w2"
    and same: "gettid w2 = gettid w" "rb_init w2 = rb_init w" "null w2 = null w" "rb_head w2 = ?rb"
    using delist [OF ok init dead_at_mtx [OF at]] by blast
  note o2 = touches_only [OF w2(6)]
  have kept: "ld n (mm w2) a = ld n (mm w) a" if "s \<le> a \<and> a + n \<le> s + 32 \<or> d \<le> a \<and> a + n \<le> d + 16" for a n
    using that aside_ld [OF o2 _ sy, of a n] aside_ld [OF o2 _ dy, of a n] by fastforce
  define w3 where "w3 = wr32 (s + 16) (?old AND FUTEX_WAITERS) w2"
  define w4 where "w4 = wr 8 (?rb + 16) (null w) w3"
  define w5 where "w5 = wr 1 (dm_is_owner d) 0 w4"
  define w6 where "w6 = w5\<lparr>past := mm w5 # past w5, now := Suc (now w5)\<rparr>"
  note ws = w3_def w4_def w5_def w6_def wr32_def dm_is_owner_def
  have d: "dm_stkn (mm w2) d = s" "dm_stkn (mm w3) d = s" "dm_stkn (mm w4) d = s" "dm_stkn (mm w5) d = s"
    using s kept [of d 8] unfolding dm_stkn_def ws by (auto simp: mem_simps)
  have "wake_ok w5" using k w2(5) by (simp add: wake_ok_def ws grew_def)
  then have e6: "snd (a0_ftx_broadcast (dm_ftx d w5) w5) = w6" by (simp add: broadcast_eq w6_def)
  have e3: "wr32 (dm_ftx d w2) (ld32 (mm w2) (dm_ftx d w2) AND FUTEX_WAITERS) w2 = w3"
    using d(1) w2(4) by (simp add: dm_ftx_def w3_def)
  have e4: "a0_robust_op_end (dm_stkn (mm w3) d) w3 = w4"
    using same by (simp add: a0_robust_op_end_def w4_def) (simp add: w3_def wr32_def)
  have start: "dm_stkn (mm (a0_robust_op_start s w)) d = s"
    using init s unfolding a0_robust_op_start_def a0_robust_init_thread_def dm_stkn_def by (auto simp: mem_simps)
  have run: "a0_deadman_mtx_unlock d w = (A0_OK, w6)"
    using own unfolding a0_deadman_mtx_unlock_def Let_def s(2) start w2(1) e3 e4 w5_def [symmetric] e6 by simp
  have f3: "ld32 (mm w3) (s + 16) = ?old AND FUTEX_WAITERS" by (simp add: w3_def wr32_def)
  have f4: "ld32 (mm w4) (s + 16) = ?old AND FUTEX_WAITERS"
    using f3 s unfolding w4_def by (auto simp: ld32_stb_other)
  have f5: "ld32 (mm w5) (s + 16) = ?old AND FUTEX_WAITERS"
    using f4 s unfolding w5_def dm_is_owner_def by (auto simp: ld32_stb_other)
  have tk: "ld64 (mm w6) (stkn_tkn s) = ld64 (mm w) (stkn_tkn s)"
    using s kept [of "stkn_tkn s" 8] unfolding stkn_tkn_def ws by (auto simp: mem_simps)
  have ok6: "robust_ok (mm w6) ?rb (as @ bs)"
    using aside_robust [OF pending_robust [OF aside_robust [OF w2(2) sy, of "s + 16" 4]] dy, of "d + 10" 1]
    by (simp add: ws)
  have "grew w w2 ?P" using w2(5) by (rule grew_mono) (simp add: names_covered_def)
  also have "grew w2 w3 ?P"
    unfolding w3_def wr32_def using w2(3) by (intro grew_wr) (simp add: names_covered_def covered_def)
  also have "grew w3 w4 ?P" unfolding w4_def using f3 tid by (intro grew_wr) (simp add: names_covered_def)
  also have "grew w4 w5 ?P" unfolding w5_def using f4 tid by (intro grew_wr) (simp add: names_covered_def)
  also have "grew w5 w6 ?P" using f5 tid by (simp add: grew_def w6_def names_covered_def)
  finally have g: "grew w w6 ?P" .
  have "touches ?S w w2" by (rule touches_mono [OF w2(6)]) (auto simp: dead_area_def)
  also have "touches ?S w2 w3" unfolding w3_def wr32_def by (rule touches_wr) (auto simp: dead_area_def)
  also have "touches ?S w3 w4" unfolding w4_def by (rule touches_wr) (auto simp: dead_area_def)
  also have "touches ?S w4 w5" unfolding w5_def by (rule touches_wr) (auto simp: dead_area_def dm_is_owner_def)
  also have "touches ?S w5 w6" by (simp add: touches_def grew_def w6_def)
  finally have touch: "touches ?S w w6" .
  have "\<not> flag_set (dm_is_owner d) w6" by (simp add: flag_set_def w6_def w5_def stb_def)
  moreover have "ld32 (mm w6) (s + 16) = ?old AND FUTEX_WAITERS" using f5 by (simp add: w6_def)
  moreover have "dead_at w6 (as @ bs) d s" using at d(4) g by (simp add: dead_at_def grew_def w6_def)
  moreover have "thread_ok w6 (as @ bs)" using t ok6 same by (simp add: thread_ok_def ws)
  ultimately show ?thesis using run tk touch g by blast
qed

section \<open>Waiting\<close>

text \<open>One turn of a loop that waits: the waiters' bit is set and the thread sleeps.\<close>

definition doze :: "nat \<Rightarrow> timeout \<Rightarrow> world \<Rightarrow> a0_err \<times> world" where
  "doze d timeout w =
     (let new = ld32 (mm w) (dm_ftx d w) OR FUTEX_WAITERS
      in a0_ftx_wait (dm_ftx d w) (unat new) timeout (wr32 (dm_ftx d w) new w))"

primrec dozed :: "nat \<Rightarrow> timeout \<Rightarrow> world \<Rightarrow> nat \<Rightarrow> world" where
  "dozed d timeout w 0 = w"
| "dozed d timeout w (Suc n) = snd (doze d timeout (dozed d timeout w n))"

definition woken :: "a0_err \<Rightarrow> bool" where
  "woken err \<longleftrightarrow> err = A0_OK \<or> A0_SYSERR err = Some EAGAIN"

text \<open>Nothing has happened yet that ends the wait.\<close>

definition dozes :: "(nat \<Rightarrow> world \<Rightarrow> bool) \<Rightarrow> nat \<Rightarrow> timeout \<Rightarrow> world \<Rightarrow> bool" where
  "dozes keep d timeout w \<longleftrightarrow> keep d w \<and> \<not> flag_set (dm_shutdown d) w \<and> woken (fst (doze d timeout w))"

lemma dozed_shift: "dozed d timeout (snd (doze d timeout w)) n = dozed d timeout w (Suc n)"
  by (induction n) auto

lemma dozes_split: "(\<forall>i < Suc n. P (dozed d timeout w i)) \<longleftrightarrow>
    P w \<and> (\<forall>i < n. P (dozed d timeout (snd (doze d timeout w)) i))"
  by (simp only: dozed_shift less_Suc_eq_0_disj) auto

lemma wait_while_turn:
  "wait_while keep d timeout w =
     (if \<not> keep d w then Some (A0_OK, w)
      else if flag_set (dm_shutdown d) w then Some (A0_MAKE_SYSERR ESHUTDOWN, w)
      else let (err, w) = doze d timeout w in if woken err then wait_while keep d timeout w else Some (err, w))"
  by (subst wait_while.simps)
    (auto simp: Let_def a0_cas_val_def doze_def woken_def split: prod.splits)

text \<open>The loop ends after the turns in which nothing happens, with what happens then.\<close>

lemma wait_while_returns:
  assumes "\<forall>i < n. dozes keep d timeout (dozed d timeout w i)" "v = dozed d timeout w n" "\<not> dozes keep d timeout v"
  shows "wait_while keep d timeout w =
     Some (if \<not> keep d v then (A0_OK, v)
           else if flag_set (dm_shutdown d) v then (A0_MAKE_SYSERR ESHUTDOWN, v)
           else doze d timeout v)"
  using assms
proof (induction n arbitrary: w)
  case 0
  then show ?case
    by (subst wait_while_turn) (auto simp: dozes_def Let_def split: prod.splits)
next
  case (Suc n)
  have "dozes keep d timeout w" "\<forall>i < n. dozes keep d timeout (dozed d timeout (snd (doze d timeout w)) i)"
    using Suc.prems(1) dozes_split by blast+
  moreover have "v = dozed d timeout (snd (doze d timeout w)) n" using Suc.prems(2) by (simp only: dozed_shift)
  ultimately show ?case
    using Suc.IH [of "snd (doze d timeout w)"] Suc.prems(3)
    by (subst wait_while_turn) (auto simp: dozes_def Let_def split: prod.splits)
qed

text \<open>And if nothing ever happens it does not end.\<close>

lemma wait_while_ends:
  assumes "wait_while keep d timeout w = Some r"
  shows "\<exists>n. (\<forall>i < n. dozes keep d timeout (dozed d timeout w i)) \<and> \<not> dozes keep d timeout (dozed d timeout w n)"
proof (rule wait_while.raw_induct [where P = "\<lambda>keep d timeout w r. \<exists>n. (\<forall>i < n. dozes keep d timeout (dozed d timeout w i)) \<and>
     \<not> dozes keep d timeout (dozed d timeout w n)", OF _ assms])
  fix wait_while' keep d timeout w r
  let ?E = "\<lambda>keep d timeout w. \<exists>n. (\<forall>i < n. dozes keep d timeout (dozed d timeout w i)) \<and> \<not> dozes keep d timeout (dozed d timeout w n)"
  assume IH: "\<And>keep d timeout w r. wait_while' keep d timeout w = Some r \<Longrightarrow> ?E keep d timeout w"
    and run: "(if \<not> keep d w then Some (A0_OK, w)
      else if flag_set (dm_shutdown d) w then Some (A0_MAKE_SYSERR ESHUTDOWN, w)
      else
        let ftx = dm_ftx d w;
            old = ld32 (mm w) ftx;
            new = old OR FUTEX_WAITERS;
            (prev, w) = a0_cas_val ftx old new w
        in if prev \<noteq> old then wait_while' keep d timeout w
           else
             (case a0_ftx_wait ftx (unat new) timeout w of
                (err, w) \<Rightarrow>
                  if err \<noteq> A0_OK \<and> A0_SYSERR err \<noteq> Some EAGAIN then Some (err, w)
                  else wait_while' keep d timeout w)) = Some r"
  show "?E keep d timeout w"
  proof (cases "dozes keep d timeout w")
    case True
    then have "wait_while' keep d timeout (snd (doze d timeout w)) = Some r"
      using run by (auto simp: dozes_def doze_def woken_def Let_def a0_cas_val_def split: prod.splits if_splits)
    from IH [OF this] obtain n where
        "\<forall>i < n. dozes keep d timeout (dozed d timeout (snd (doze d timeout w)) i)"
        "\<not> dozes keep d timeout (dozed d timeout (snd (doze d timeout w)) n)"
      by blast
    then have "\<forall>i < Suc n. dozes keep d timeout (dozed d timeout w i)" "\<not> dozes keep d timeout (dozed d timeout w (Suc n))"
      unfolding dozes_split using True by (simp_all only: dozed_shift) simp_all
    then show ?thesis by blast
  next
    case False
    then show ?thesis by (intro exI [of _ 0]) simp
  qed
qed

lemma wake_ok_wr [simp]: "wake_ok (wr n a v w) = wake_ok w"
  by (simp add: wake_ok_def)

lemma doze_kernel: "kernel (snd (doze d timeout w)) = kernel w"
  by (auto simp: doze_def Let_def a0_ftx_wait_def a0_futex_def a0_clock_convert_def a0_clock_now_def wr32_def
      split: option.split prod.split sum.split)

lemma doze_wake_ok: "wake_ok w \<Longrightarrow> wake_ok (snd (doze d timeout w))"
  by (simp add: wake_ok_def doze_kernel)

text \<open>Taking it by waiting has the same shape: it is tried again after each turn.\<close>

definition busy :: "nat \<Rightarrow> world \<Rightarrow> bool" where
  "busy d w \<longleftrightarrow> (let tid = a0_ftx_tid (ld32 (mm w) (dm_ftx d w)) in tid \<noteq> 0 \<and> tid \<noteq> gettid w)"

lemma trylock_busy:
  "busy d w \<Longrightarrow> \<not> flag_set (dm_shutdown d) w \<Longrightarrow> a0_deadman_mtx_trylock_impl d w = (A0_MAKE_SYSERR EBUSY, w)"
  by (simp add: a0_deadman_mtx_trylock_impl_def busy_def dm_ftx_def Let_def)

lemma trylock_not_busy:
  assumes "\<not> (busy d w \<and> \<not> flag_set (dm_shutdown d) w)" "wake_ok w"
  shows "A0_SYSERR (fst (a0_deadman_mtx_trylock_impl d w)) \<noteq> Some EBUSY"
  using assms
  by (auto simp: a0_deadman_mtx_trylock_impl_def busy_def dm_ftx_def Let_def a0_cas_val_def wr32_def broadcast_eq resys_def
      A0_MAKE_SYSERR_def)

lemma timedlock_turn:
  assumes "wake_ok w"
  shows "timedlock_impl_loop d timeout w =
     (if busy d w \<and> \<not> flag_set (dm_shutdown d) w
      then let (err, w) = doze d timeout w in if woken err then timedlock_impl_loop d timeout w else Some (err, w)
      else Some (a0_deadman_mtx_trylock_impl d w))"
proof (cases "busy d w \<and> \<not> flag_set (dm_shutdown d) w")
  case True
  then show ?thesis
    by (subst timedlock_impl_loop.simps)
      (auto simp: trylock_busy Let_def a0_cas_val_def doze_def woken_def A0_MAKE_SYSERR_def split: prod.splits)
next
  case False
  then show ?thesis
    using trylock_not_busy [OF False assms]
    by (subst timedlock_impl_loop.simps) (auto simp: Let_def split: prod.splits)
qed

lemma timedlock_returns:
  assumes "\<forall>i < n. dozes busy d timeout (dozed d timeout w i)" "v = dozed d timeout w n"
    and "\<not> (busy d v \<and> \<not> flag_set (dm_shutdown d) v)" "wake_ok w"
  shows "timedlock_impl_loop d timeout w = Some (a0_deadman_mtx_trylock_impl d v)"
  using assms
proof (induction n arbitrary: w)
  case 0
  then show ?case by (subst timedlock_turn) auto
next
  case (Suc n)
  have "dozes busy d timeout w" "\<forall>i < n. dozes busy d timeout (dozed d timeout (snd (doze d timeout w)) i)"
    using Suc.prems(1) dozes_split by blast+
  moreover have "v = dozed d timeout (snd (doze d timeout w)) n" using Suc.prems(2) by (simp only: dozed_shift)
  moreover have "wake_ok (snd (doze d timeout w))" using Suc.prems(4) by (rule doze_wake_ok)
  ultimately show ?case
    using Suc.IH [of "snd (doze d timeout w)"] Suc.prems(3,4)
    by (subst timedlock_turn) (auto simp: dozes_def Let_def split: prod.splits)
qed

section \<open>Properties\<close>

lemma handle_wr:
  assumes "thread_ok w xs" "clear_of d 16 (rb_head w # xs)" "d \<le> a" "a + n \<le> d + 16"
  shows "thread_ok (wr n a v w) xs"
proof -
  have "\<forall>y \<in> set (rb_head w # xs). d + 16 \<le> y \<or> y + 24 \<le> d" using assms(2) by (simp add: clear_of_def)
  then have "robust_ok (stb n (mm w) a v) (rb_head w) xs"
    using aside_robust assms(1,3,4) unfolding thread_ok_def by blast
  then show ?thesis using assms(1) by (simp add: thread_ok_def)
qed

lemma dead_at_clear: "dead_at w ms d s \<Longrightarrow> clear_of d 16 (rb_head w # s # ms)"
  by (auto simp: dead_at_def clear_of_def)

text \<open>
  C37. Taking a deadman mutex: a free one, and one whose holder died, is taken at once, a dead holder being
  reported. The word then names the thread, the token is counted up, and wherever the thread dies from
  the moment the word names it, its robust list covers the mutex. Releasing it leaves the waiters' bit only and
  the list as it was. A mutex that is held reports EBUSY, EDEADLK if the thread itself holds it through another
  handle, and a handle that is shut down ESHUTDOWN, all without effect.
\<close>

theorem deadman_take_spec:
  assumes "thread_ok w ms" "dead_at w ms d s" "wake_ok w" "\<not> flag_set (dm_is_owner d) w" "old = ld32 (mm w) (s + 16)"
  shows "\<exists>err w'. a0_deadman_mtx_trylock d w = (err, w') \<and> dead_at w' ms d s \<and>
     (if \<not> flag_set (dm_shutdown d) w \<and> a0_ftx_tid old = 0
      then err = (if a0_ftx_owner_died old then A0_MAKE_SYSERR EOWNERDEAD else A0_OK) \<and>
        thread_ok w' (s # ms) \<and> a0_ftx_tid (ld32 (mm w') (s + 16)) = gettid w \<and>
        ld64 (mm w') (stkn_tkn s) = (ld64 (mm w) (stkn_tkn s) + 1) mod 2 ^ 64 \<and>
        (\<exists>w''. a0_deadman_mtx_unlock d w' = (A0_OK, w'') \<and> thread_ok w'' ms \<and> ld32 (mm w'') (s + 16) = old AND FUTEX_WAITERS \<and>
           ld64 (mm w'') (stkn_tkn s) = ld64 (mm w') (stkn_tkn s) \<and> grew w w'' (names_covered (gettid w) (rb_head w) s))
      else err = A0_MAKE_SYSERR (if flag_set (dm_shutdown d) w then ESHUTDOWN
             else if a0_ftx_tid old = gettid w then EDEADLK else EBUSY) \<and>
        thread_ok w' ms \<and> ld32 (mm w') (s + 16) = old \<and> ld64 (mm w') (stkn_tkn s) = ld64 (mm w) (stkn_tkn s) \<and>
        a0_deadman_mtx_unlock d w' = (A0_MAKE_SYSERR EPERM, w'))"
proof (cases "\<not> flag_set (dm_shutdown d) w \<and> a0_ftx_tid old = 0")
  case True
  have tid: "gettid w AND FUTEX_TID_MASK = gettid w" using assms(1) by (simp add: thread_ok_def)
  obtain w' where w': "a0_deadman_mtx_trylock d w = (if a0_ftx_owner_died old then A0_MAKE_SYSERR EOWNERDEAD else A0_OK, w')"
      "thread_ok w' (s # ms)" "ld32 (mm w') (s + 16) = (old OR gettid w) AND NOT FUTEX_OWNER_DIED"
      "ld64 (mm w') (stkn_tkn s) = add64 (ld64 (mm w) (stkn_tkn s)) 1" "flag_set (dm_is_owner d) w'" "dead_at w' ms d s"
      "grew w w' (names_covered (gettid w) (rb_head w) s)"
    using trylock_taken [OF assms(1-3) conjunct1 [OF True] assms(4) assms(5) [symmetric] conjunct2 [OF True]] by blast
  have same: "gettid w' = gettid w" "rb_head w' = rb_head w" "wake_ok w'" using w'(7) assms(3) by (simp_all add: grew_def wake_ok_def)
  have "thread_ok w' ([] @ s # ms)" "dead_at w' ([] @ ms) d s" using w'(2,6) by simp_all
  from unlock_released [OF this same(3) w'(5)] obtain w'' where
      w'': "a0_deadman_mtx_unlock d w' = (A0_OK, w'')" "thread_ok w'' ms"
      "ld32 (mm w'') (s + 16) = ((old OR gettid w) AND NOT FUTEX_OWNER_DIED) AND FUTEX_WAITERS"
      "ld64 (mm w'') (stkn_tkn s) = ld64 (mm w') (stkn_tkn s)" "grew w' w'' (names_covered (gettid w) (rb_head w) s)"
    unfolding w'(3) same append_Nil by blast
  have "((old OR gettid w) AND NOT FUTEX_OWNER_DIED) AND FUTEX_WAITERS = old AND FUTEX_WAITERS"
    by (rule waiters_kept [OF tid])
  then show ?thesis
    using True w' w'' tid_taken [OF conjunct2 [OF True] tid] grew_trans [OF w'(7) w''(5)] by (auto simp: add64_def)
next
  case False
  have "flag_set (dm_shutdown d) w \<or> a0_ftx_tid (ld32 (mm w) (s + 16)) \<noteq> 0" using False assms(5) by blast
  from trylock_refused [OF assms(1,2,4) this] obtain w' where
      w': "a0_deadman_mtx_trylock d w = (A0_MAKE_SYSERR (if flag_set (dm_shutdown d) w then ESHUTDOWN
          else if a0_ftx_tid old = gettid w then EDEADLK else EBUSY), w')"
      "thread_ok w' ms" "dead_at w' ms d s" "only {rb_head w + 16..<rb_head w + 24} (mm w) (mm w')"
    unfolding assms(5) by blast
  have s: "s + 32 \<le> rb_head w \<or> rb_head w + 24 \<le> s" "d + 16 \<le> rb_head w \<or> rb_head w + 24 \<le> d"
    using assms(2) by (auto simp: dead_at_def clear_of_def)
  have "ld 4 (mm w') (s + 16) = ld 4 (mm w) (s + 16)" "ld64 (mm w') (stkn_tkn s) = ld64 (mm w) (stkn_tkn s)"
    "mm w' (dm_is_owner d) = mm w (dm_is_owner d)"
    using s by (auto intro!: only_ld [OF w'(4)] simp: stkn_tkn_def dm_is_owner_def) (use w'(4) in \<open>auto simp: only_def\<close>)
  then show ?thesis
    unfolding if_not_P [OF False]
    using w'(1-3) assms(4,5) by (intro exI [of _ w'] exI conjI) (assumption | simp add: ld32_def a0_deadman_mtx_unlock_def flag_set_def)+
qed

definition dead_world :: world where
  "dead_world = wr 8 100 200 quiet_world"

lemma dead_world: "thread_ok dead_world []" "dead_at dead_world [] 100 200" "wake_ok dead_world"
    "\<not> flag_set (dm_shutdown 100) dead_world" "\<not> flag_set (dm_is_owner 100) dead_world"
    "ld32 (mm dead_world) 216 = 0" "ld64 (mm dead_world) 224 = 0" "gettid dead_world = 7" "rb_head dead_world = 1000"
proof -
  show "thread_ok dead_world []"
    unfolding dead_world_def by (rule handle_wr [OF quiet_world(1), of 100]) (simp_all add: clear_of_def)
  show "dead_at dead_world [] 100 200" by (simp add: dead_at_def dm_stkn_def dead_world_def mem_simps clear_of_def)
  show "wake_ok dead_world" by (simp add: dead_world_def) (simp add: wake_ok_def quiet_world_def)
  show "\<not> flag_set (dm_shutdown 100) dead_world" "\<not> flag_set (dm_is_owner 100) dead_world"
    by (simp_all add: flag_set_def dead_world_def dm_shutdown_def dm_is_owner_def stb_other quiet_world_def)
  show "ld32 (mm dead_world) 216 = 0" using quiet_free [of 200] by (simp add: dead_world_def ld32_stb_other)
  show "ld64 (mm dead_world) 224 = 0" by (simp add: dead_world_def quiet_world_def mem_simps)
  show "gettid dead_world = 7" "rb_head dead_world = 1000" by (simp_all add: dead_world_def quiet_world_def)
qed

theorem deadman_take_spec_witness:
  "\<exists>w1 w2. a0_deadman_mtx_trylock 100 dead_world = (A0_OK, w1) \<and> ld64 (mm w1) 224 = 1 \<and>
     a0_ftx_tid (ld32 (mm w1) 216) = 7 \<and> a0_deadman_mtx_unlock 100 w1 = (A0_OK, w2) \<and> ld32 (mm w2) 216 = 0"
  using deadman_take_spec [OF dead_world(1-3,5) refl] dead_world(4,6,7,8)
  by (auto simp: stkn_tkn_def a0_ftx_tid_def a0_ftx_owner_died_def)

text \<open>
  C38. Taking a deadman mutex that is held: the thread sleeps until, after a turn in which nothing has happened
  yet, the mutex is free, its holder has died, or the handle is shut down from another thread. Then the
  call returns: with the mutex taken and the token counted up, or with ESHUTDOWN.
\<close>

theorem deadman_lock_spec:
  assumes "\<not> flag_set (dm_is_owner d) w" "dm_stkn (mm w) d = s" "wake_ok w"
    and "v = dozed d timeout (a0_robust_op_start s (wr 1 (dm_inop d) 1 w))" "\<forall>i < n. dozes busy d timeout (v i)"
    and "thread_ok (v n) ms" "dead_at (v n) ms d s" "ld64 (mm (v n)) (rb_head (v n) + 16) = s"
    and "old = ld32 (mm (v n)) (s + 16)" "flag_set (dm_shutdown d) (v n) \<or> a0_ftx_tid old = 0"
  shows "\<exists>err w'. a0_deadman_mtx_timedlock d timeout w = Some (err, w') \<and> \<not> flag_set (dm_inop d) w' \<and>
     (if flag_set (dm_shutdown d) (v n)
      then err = A0_MAKE_SYSERR ESHUTDOWN \<and> thread_ok w' ms \<and> ld32 (mm w') (s + 16) = old
      else err = (if a0_ftx_owner_died old then A0_MAKE_SYSERR EOWNERDEAD else A0_OK) \<and> thread_ok w' (s # ms) \<and>
        a0_ftx_tid (ld32 (mm w') (s + 16)) = gettid w' \<and> flag_set (dm_is_owner d) w' \<and>
        ld64 (mm w') (stkn_tkn s) = (ld64 (mm (v n)) (stkn_tkn s) + 1) mod 2 ^ 64)"
proof -
  let ?w0 = "a0_robust_op_start s (wr 1 (dm_inop d) 1 w)" and ?v = "v n"
  let ?fin = "\<lambda>(err, w). let w = (if a0_mtx_lock_successful err then a0_robust_op_add (dm_stkn (mm w) d) w else w);
      w = a0_robust_op_end (dm_stkn (mm w) d) w in (err, wr 1 (dm_inop d) 0 w)"
  have s: "d + 16 \<le> s \<or> s + 32 \<le> d" "s + 32 \<le> rb_head ?v \<or> rb_head ?v + 24 \<le> s" "dm_stkn (mm ?v) d = s"
    using assms(7) by (auto simp: dead_at_def clear_of_def)
  have k0: "wake_ok ?w0"
    using assms(3) by (simp add: a0_robust_op_start_def a0_robust_init_thread_def a0_robust_init_head_def Let_def)
      (simp add: wake_ok_def)
  have kn: "wake_ok ?v" using k0 doze_wake_ok unfolding assms(4) by (induction n) auto
  have "\<not> (busy d ?v \<and> \<not> flag_set (dm_shutdown d) ?v)"
    using assms(9,10) s(3) by (auto simp: busy_def dm_ftx_def Let_def)
  then have "timedlock_impl_loop d timeout ?w0 = Some (a0_deadman_mtx_trylock_impl d ?v)"
    using timedlock_returns [of n d timeout ?w0 ?v] assms(4,5) k0 by simp
  moreover have "dm_stkn (mm (wr 1 (dm_inop d) 1 w)) d = s"
    using assms(2) by (simp add: dm_stkn_def dm_inop_def mem_simps)
  ultimately have run: "a0_deadman_mtx_timedlock d timeout w = Some (?fin (a0_deadman_mtx_trylock_impl d ?v))"
    using assms(1) by (simp add: a0_deadman_mtx_timedlock_def Let_def)
  have off: "\<not> flag_set (dm_inop d) (wr 1 (dm_inop d) 0 x)" for x by (simp add: flag_set_def stb_def)
  show ?thesis
  proof (cases "flag_set (dm_shutdown d) ?v")
    case True
    let ?w1 = "wr 8 (rb_head ?v + 16) (null ?v) ?v"
    have "a0_deadman_mtx_trylock_impl d ?v = (A0_MAKE_SYSERR ESHUTDOWN, ?v)"
      using True by (simp add: a0_deadman_mtx_trylock_impl_def)
    then have "a0_deadman_mtx_timedlock d timeout w = Some (A0_MAKE_SYSERR ESHUTDOWN, wr 1 (dm_inop d) 0 ?w1)"
      unfolding run by (simp add: a0_mtx_lock_successful_def a0_mtx_previous_owner_died_def A0_MAKE_SYSERR_def a0_robust_op_end_def)
    moreover have "thread_ok ?w1 ms" using assms(6) pending_robust by (simp add: thread_ok_def)
    then have "thread_ok (wr 1 (dm_inop d) 0 ?w1) ms"
      using assms(7) handle_wr [of ?w1 ms d "dm_inop d" 1 0] by (simp add: dead_at_def dm_inop_def)
    moreover have "ld32 (mm (wr 1 (dm_inop d) 0 ?w1)) (s + 16) = old"
      using assms(9) s by (auto simp: ld32_stb_other dm_inop_def)
    ultimately show ?thesis using True off unfolding if_P [OF True] by blast
  next
    case False
    then have free: "a0_ftx_tid old = 0" using assms(10) by blast
    obtain w5 w' where w': "a0_deadman_mtx_trylock_impl d ?v = (if a0_ftx_owner_died old then A0_MAKE_SYSERR EOWNERDEAD else A0_OK, w5)"
        "dm_stkn (mm w5) d = s" "a0_robust_op_end s (a0_robust_op_add s w5) = w'" "thread_ok w' (s # ms)"
        "ld32 (mm w') (s + 16) = (old OR gettid ?v) AND NOT FUTEX_OWNER_DIED"
        "ld64 (mm w') (stkn_tkn s) = add64 (ld64 (mm ?v) (stkn_tkn s)) 1" "flag_set (dm_is_owner d) w'" "dead_at w' ms d s"
        "grew ?v w' (names_covered (gettid ?v) (rb_head ?v) s)"
      using take_enlisted [OF assms(6,7) kn False assms(9) [symmetric] free assms(8)] by blast
    let ?w2 = "wr 1 (dm_inop d) 0 w'"
    have "a0_mtx_lock_successful (if a0_ftx_owner_died old then A0_MAKE_SYSERR EOWNERDEAD else A0_OK)"
      by (simp add: a0_mtx_lock_successful_def a0_mtx_previous_owner_died_def)
    then have "a0_deadman_mtx_timedlock d timeout w = Some (if a0_ftx_owner_died old then A0_MAKE_SYSERR EOWNERDEAD else A0_OK, ?w2)"
      unfolding run w'(1) using w'(2,3) by (simp add: Let_def a0_robust_op_end_def)
    moreover have "thread_ok ?w2 (s # ms)"
      using dead_at_clear [OF w'(8)] by (intro handle_wr [OF w'(4), of d]) (simp_all add: dm_inop_def)
    moreover have "ld32 (mm ?w2) (s + 16) = ld32 (mm w') (s + 16)" "ld64 (mm ?w2) (stkn_tkn s) = ld64 (mm w') (stkn_tkn s)"
      using s(1) by (auto simp: ld32_stb_other dm_inop_def stkn_tkn_def mem_simps)
    moreover have "flag_set (dm_is_owner d) ?w2" using w'(7) by (simp add: flag_set_def stb_other dm_inop_def dm_is_owner_def)
    moreover have "gettid ?w2 = gettid ?v" using w'(9) by (simp add: grew_def)
    moreover have "a0_ftx_tid ((old OR gettid ?v) AND NOT FUTEX_OWNER_DIED) = gettid ?v"
      using tid_taken [OF free] assms(6) by (simp add: thread_ok_def)
    ultimately show ?thesis using off w'(5,6) unfolding if_not_P [OF False] by (simp add: add64_def)
  qed
qed

text \<open>A kernel whose wait hands the word at 216 over: to nobody, or to thread 5.\<close>

definition handing :: "nat \<Rightarrow> world \<Rightarrow> world" where
  "handing v w = w\<lparr>kernel := (\<lambda>_ op m. case op of FUTEX_WAIT _ _ \<Rightarrow> (None, stb 4 m 216 v) | _ \<Rightarrow> (None, m))\<rparr>"

lemma handing_simps [simp]: "mm (handing v w) = mm w" "rb_head (handing v w) = rb_head w" "rb_init (handing v w) = rb_init w"
    "gettid (handing v w) = gettid w" "null (handing v w) = null w" "flag_set a (handing v w) = flag_set a w"
    "thread_ok (handing v w) ms = thread_ok w ms" "dead_at (handing v w) ms d s = dead_at w ms d s" "wake_ok (handing v w)"
  by (simp_all add: handing_def thread_ok_def dead_at_def wake_ok_def flag_set_def)

lemma handing_doze:
  assumes "thread_ok w []" "dead_at w [] 100 200" "kernel w = kernel (handing v q)" "v < 2 ^ 32"
  shows "\<exists>w'. doze 100 None w = (A0_OK, w') \<and> thread_ok w' [] \<and> dead_at w' [] 100 200 \<and> ld32 (mm w') 216 = word_of_nat v \<and>
     ld64 (mm w') 224 = ld64 (mm w) 224 \<and> (\<forall>a < 200. flag_set a w' = flag_set a w) \<and> rb_head w' = rb_head w \<and>
     ld64 (mm w') (rb_head w' + 16) = ld64 (mm w) (rb_head w + 16)"
proof -
  let ?x = "unat (ld32 (mm w) 216 OR FUTEX_WAITERS)"
  let ?w = "wr 4 216 ?x w" and ?m = "stb 4 (stb 4 (mm w) 216 ?x) 216 v"
  let ?u = "?w\<lparr>mm := ?m, past := mm ?w # past ?w, now := Suc (now ?w)\<rparr>"
  have s: "dm_stkn (mm w) 100 = 200" "\<forall>y \<in> set [rb_head w]. 200 + 32 \<le> y \<or> y + 24 \<le> 200"
    "232 \<le> rb_head w \<or> rb_head w + 24 \<le> 200"
    using assms(2) by (auto simp: dead_at_def clear_of_def)
  have "doze 100 None w = (A0_OK, ?u)"
    using s(1) assms(3) by (simp add: doze_def dm_ftx_def Let_def a0_ftx_wait_def a0_futex_def handing_def wr32_def)
  moreover have "robust_ok ?m (rb_head w) []"
    using aside_robust [OF aside_robust [OF _ s(2), of _ 216 4] s(2), of _ 216 4] assms(1) by (simp add: thread_ok_def)
  then have "thread_ok ?u []" using assms(1) by (simp add: thread_ok_def)
  moreover have "dead_at ?u [] 100 200" using assms(2) by (simp add: dead_at_def dm_stkn_def mem_simps)
  moreover have "ld32 ?m 216 = word_of_nat v" using assms(4) by (simp add: ld32_def ld_stb_same)
  moreover have "ld64 ?m 224 = ld64 (mm w) 224" by (simp add: mem_simps)
  moreover have "ld64 ?m (rb_head w + 16) = ld64 (mm w) (rb_head w + 16)" using s(3) by (auto simp: mem_simps)
  moreover have "\<forall>a < 200. ?m a = mm w a" by (simp add: stb_other)
  ultimately show ?thesis by (intro exI [of _ ?u]) (simp add: flag_set_def)
qed

theorem deadman_lock_spec_witness:
  "\<exists>w'. a0_deadman_mtx_timedlock 100 None (handing 0 (wr 4 216 5 dead_world)) = Some (A0_OK, w') \<and>
     flag_set (dm_is_owner 100) w'"
proof -
  let ?w = "handing 0 (wr 4 216 5 dead_world)"
  define u where "u = wr 1 (dm_inop 100) 1 ?w"
  have y: "\<forall>y \<in> set [1000]. 200 + 32 \<le> y \<or> y + 24 \<le> (200 :: nat)" by simp
  have "robust_ok (stb 4 (mm dead_world) 216 5) 1000 []"
    using aside_robust [OF _ y, of _ 216 4] dead_world(1,9) by (simp add: thread_ok_def)
  then have tw: "thread_ok ?w []" using dead_world(1,9) by (simp add: thread_ok_def)
  have aw: "dead_at ?w [] 100 200" using dead_world(2) by (simp add: dead_at_def dm_stkn_def mem_simps)
  have u: "thread_ok u []" "dead_at u [] 100 200" "ld32 (mm u) 216 = 5" "gettid u = 7" "rb_head u = 1000"
      "\<not> flag_set (dm_shutdown 100) u" "kernel u = kernel ?w" "ld64 (mm u) 224 = 0"
    using handle_wr [OF tw, of 100 "dm_inop 100" 1] aw dead_world(4,6-9) ld32_stb [of "mm dead_world" 216 5]
    by (simp_all add: u_def dm_inop_def dm_shutdown_def dead_at_def clear_of_def dm_stkn_def mem_simps ld32_stb_other flag_set_def stb_other)
  obtain v where v: "a0_robust_op_start 200 u = v" "thread_ok v []" "dead_at v [] 100 200" "ld64 (mm v) (rb_head u + 16) = 200"
      "flag_set (dm_shutdown 100) v = flag_set (dm_shutdown 100) u" "ld32 (mm v) 216 = ld32 (mm u) 216" "gettid v = gettid u"
      "rb_head v = rb_head u" "kernel v = kernel u"
    using announce [OF u(1,2)] by auto
  obtain x where x: "doze 100 None v = (A0_OK, x)" "thread_ok x []" "dead_at x [] 100 200" "ld32 (mm x) 216 = word_of_nat 0"
      "\<forall>a < 200. flag_set a x = flag_set a v" "rb_head x = rb_head v" "ld64 (mm x) (rb_head x + 16) = ld64 (mm v) (rb_head v + 16)"
    using handing_doze [OF v(2,3) trans [OF v(9) u(7)]] by auto
  have "dm_stkn (mm v) 100 = 200" using v(3) by (simp add: dead_at_def)
  then have "busy 100 v" using u(3,4) v(6,7) by (simp add: busy_def dm_ftx_def a0_ftx_tid_def FUTEX_TID_MASK_def)
  then have "\<forall>i < 1. dozes busy 100 None (dozed 100 None v i)" using v(5) u(6) x(1) by (simp add: dozes_def woken_def)
  moreover have "dozed 100 None v 1 = x" using x(1) by simp
  ultimately show ?thesis
    using deadman_lock_spec [of 100 ?w 200 "dozed 100 None v" None 1 "[]" 0] dead_world(5) aw x(2-7) v u
    by (auto simp: u_def dead_at_def a0_ftx_tid_def a0_ftx_owner_died_def dm_shutdown_def flag_set_def dm_is_owner_def stb_other)
qed

end
