(* ===== verification/Deadman_Steps.thy ===== *)
theory Deadman_Steps
  imports Deadman_Correct
begin

text \<open>
  Any number of threads on one deadman mutex, interleaved at its atomic accesses. The steps are those of
  \<^verbatim>\<open>a0_deadman_mtx_trylock_impl\<close>, of the waiters, and of \<^verbatim>\<open>a0_deadman_mtx_unlock\<close>; the state is the word, the token,
  and where each thread is. A thread may die at any point, and then the kernel does what it documents for
  robust futexes: if the word names the thread, it keeps the waiters' bit and sets \<^verbatim>\<open>FUTEX_OWNER_DIED\<close>. (That
  the kernel finds the mutex whenever the word names the thread is part of \<open>deadman_take_spec\<close>.)
\<close>

section \<open>The protocol\<close>

datatype dead_pc =
    Outside
  | Saw u32
  | Swapped
  | Counting nat
  | Holding
  | Gone

text \<open>\<open>takings\<close> is a ghost: the tokens given out and to whom, latest first.\<close>

record dead_sys =
  ds_word :: u32
  ds_tkn :: nat
  ds_pc :: "u32 \<Rightarrow> dead_pc"
  takings :: "(nat \<times> u32) list"

definition is_tid :: "u32 \<Rightarrow> bool" where
  "is_tid t \<longleftrightarrow> t \<noteq> 0 \<and> t AND FUTEX_TID_MASK = t"

definition at_pc :: "u32 \<Rightarrow> dead_pc \<Rightarrow> dead_sys \<Rightarrow> dead_sys" where
  "at_pc t p s = s\<lparr>ds_pc := (ds_pc s)(t := p)\<rparr>"

text \<open>The load and the store of \<^verbatim>\<open>_tkn++\<close> are two steps.\<close>

inductive dead_step :: "dead_sys \<Rightarrow> dead_sys \<Rightarrow> bool" where
  look: "is_tid t \<Longrightarrow> ds_pc s t = Outside \<Longrightarrow> a0_ftx_tid (ds_word s) = 0 \<Longrightarrow>
    dead_step s (at_pc t (Saw (ds_word s)) s)"
| swap: "ds_pc s t = Saw old \<Longrightarrow> ds_word s = old \<Longrightarrow>
    dead_step s (at_pc t Swapped (s\<lparr>ds_word := (old OR t) AND NOT FUTEX_OWNER_DIED\<rparr>))"
| miss: "ds_pc s t = Saw old \<Longrightarrow> ds_word s \<noteq> old \<Longrightarrow> dead_step s (at_pc t Outside s)"
| load_tkn: "ds_pc s t = Swapped \<Longrightarrow> dead_step s (at_pc t (Counting (ds_tkn s)) s)"
| store_tkn: "ds_pc s t = Counting n \<Longrightarrow>
    dead_step s (at_pc t Holding (s\<lparr>ds_tkn := add64 n 1, takings := (add64 n 1, t) # takings s\<rparr>))"
| release: "ds_pc s t = Holding \<Longrightarrow> dead_step s (at_pc t Outside (s\<lparr>ds_word := ds_word s AND FUTEX_WAITERS\<rparr>))"
| wait: "dead_step s (s\<lparr>ds_word := ds_word s OR FUTEX_WAITERS\<rparr>)"
| die: "is_tid t \<Longrightarrow> dead_step s (at_pc t Gone (s\<lparr>ds_word :=
    if a0_ftx_tid (ds_word s) = t then (ds_word s AND FUTEX_WAITERS) OR FUTEX_OWNER_DIED else ds_word s\<rparr>))"
| start: "ds_pc s t = Gone \<Longrightarrow> dead_step s (at_pc t Outside s)"

definition dead_start :: dead_sys where
  "dead_start = \<lparr>ds_word = 0, ds_tkn = 0, ds_pc = (\<lambda>_. Outside), takings = []\<rparr>"

inductive dead_reach :: "dead_sys \<Rightarrow> bool" where
  first: "dead_reach dead_start"
| more: "dead_reach s \<Longrightarrow> dead_step s s' \<Longrightarrow> dead_reach s'"

text \<open>The thread has it, whether or not it has counted up the token yet.\<close>

fun inside :: "dead_pc \<Rightarrow> bool" where
  "inside Swapped = True"
| "inside (Counting n) = True"
| "inside Holding = True"
| "inside p = False"

section \<open>Invariant\<close>

definition dead_inv :: "dead_sys \<Rightarrow> bool" where
  "dead_inv s \<longleftrightarrow>
     (\<forall>t. inside (ds_pc s t) \<longleftrightarrow> is_tid t \<and> a0_ftx_tid (ds_word s) = t) \<and>
     (\<forall>t old. ds_pc s t = Saw old \<longrightarrow> is_tid t \<and> a0_ftx_tid old = 0) \<and>
     (\<forall>t n. ds_pc s t = Counting n \<longrightarrow> n = ds_tkn s) \<and>
     (a0_ftx_owner_died (ds_word s) \<longrightarrow> a0_ftx_tid (ds_word s) = 0) \<and>
     ds_tkn s = length (takings s) mod 2 ^ 64 \<and>
     (length (takings s) < 2 ^ 64 \<longrightarrow> map fst (takings s) = rev [1..<Suc (length (takings s))])"

lemma dead_names: "dead_inv s \<Longrightarrow> inside (ds_pc s t) \<longleftrightarrow> is_tid t \<and> a0_ftx_tid (ds_word s) = t"
  by (simp add: dead_inv_def)

lemma dead_inv_first: "dead_inv dead_start"
  by (simp add: dead_inv_def dead_start_def a0_ftx_tid_def a0_ftx_owner_died_def is_tid_def)

lemma died_word [simp]: "a0_ftx_tid ((word AND FUTEX_WAITERS) OR FUTEX_OWNER_DIED) = 0"
proof -
  have "FUTEX_OWNER_DIED AND FUTEX_TID_MASK = 0" by (simp add: FUTEX_OWNER_DIED_def FUTEX_TID_MASK_def)
  then show ?thesis by (simp add: a0_ftx_tid_def bit.conj_disj_distrib2 and.assoc tid_mask)
qed

lemma dead_step_inv: "dead_step s s' \<Longrightarrow> dead_inv s \<Longrightarrow> dead_inv s'"
proof (induction rule: dead_step.induct)
  case (look t s)
  then show ?case by (auto simp: dead_inv_def at_pc_def is_tid_def)
next
  case (swap s t old)
  then have t: "is_tid t" "a0_ftx_tid old = 0" "a0_ftx_tid (ds_word s) = 0" by (auto simp: dead_inv_def)
  then have "a0_ftx_tid ((old OR t) AND NOT FUTEX_OWNER_DIED) = t" by (intro tid_taken) (simp_all add: is_tid_def)
  moreover have "\<not> inside (ds_pc s u)" for u using swap t(3) by (auto simp: dead_inv_def is_tid_def)
  ultimately show ?case using swap t by (auto simp: dead_inv_def at_pc_def died_taken)
next
  case (miss s t old)
  then have "\<not> (is_tid t \<and> a0_ftx_tid (ds_word s) = t)" using dead_names [of s t] by simp
  then show ?case using miss by (auto simp: dead_inv_def at_pc_def)
next
  case (load_tkn s t)
  then have "is_tid t \<and> a0_ftx_tid (ds_word s) = t" using dead_names [of s t] by simp
  then show ?case using load_tkn by (auto simp: dead_inv_def at_pc_def)
next
  case (store_tkn s t n)
  then have t: "is_tid t" "a0_ftx_tid (ds_word s) = t" "n = ds_tkn s"
    using dead_names [of s t] by (auto simp: dead_inv_def)
  have only: "ds_pc s u \<noteq> Counting m" if "u \<noteq> t" for u m using store_tkn that t(2) dead_names [of s u] by auto
  have "add64 n 1 = length (takings s) + 1" if "length (takings s) + 1 < 2 ^ 64"
    using store_tkn t that by (simp add: dead_inv_def)
  then show ?case
    using store_tkn t only by (auto simp: dead_inv_def at_pc_def add64_def mod_Suc_eq)
next
  case (release s t)
  then have t: "a0_ftx_tid (ds_word s) = t" using dead_names [of s t] by simp
  have "\<not> inside (ds_pc s u)" if "u \<noteq> t" for u using release that t dead_names [of s u] by simp
  then show ?case using release by (auto simp: dead_inv_def at_pc_def is_tid_def)
next
  case (wait s)
  then show ?case by (auto simp: dead_inv_def)
next
  case (die t s)
  then show ?case by (auto simp: dead_inv_def at_pc_def is_tid_def)
next
  case (start s t)
  then have "\<not> (is_tid t \<and> a0_ftx_tid (ds_word s) = t)" using dead_names [of s t] by simp
  then show ?case using start by (auto simp: dead_inv_def at_pc_def)
qed

lemma dead_reach_inv: "dead_reach s \<Longrightarrow> dead_inv s"
proof (induction rule: dead_reach.induct)
  case first
  show ?case by (rule dead_inv_first)
next
  case (more s s')
  then show ?case by (blast intro: dead_step_inv)
qed

text \<open>A tenure ends by its own thread's step only: it releases the mutex, or dies.\<close>

lemma tenure_ends:
  assumes "dead_step s s'" "inside (ds_pc s t)" "\<not> inside (ds_pc s' t)"
  shows "ds_pc s t = Holding \<and> ds_pc s' t = Outside \<or> ds_pc s' t = Gone"
  using assms by (induction rule: dead_step.induct) (auto simp: at_pc_def split: if_splits)

section \<open>Properties\<close>

text \<open>
  C35. Mutual exclusion: however the threads are interleaved and whichever die, at most one is inside, and it is the
  one that the word names, without the mark of a dead owner. Its tenure ends by itself only, with its release or
  its death. No two takings get the same token, as long as there are fewer than \<open>2 ^ 64\<close>.
\<close>

theorem deadman_exclusive_spec:
  assumes "dead_reach s"
  shows "(\<forall>t u. inside (ds_pc s t) \<and> inside (ds_pc s u) \<longrightarrow> t = u) \<and>
     (\<forall>t. inside (ds_pc s t) \<longleftrightarrow> is_tid t \<and> a0_ftx_tid (ds_word s) = t \<and> \<not> a0_ftx_owner_died (ds_word s)) \<and>
     (\<forall>t s'. dead_step s s' \<and> inside (ds_pc s t) \<and> \<not> inside (ds_pc s' t) \<longrightarrow>
        ds_pc s t = Holding \<and> ds_pc s' t = Outside \<or> ds_pc s' t = Gone) \<and>
     (length (takings s) < 2 ^ 64 \<longrightarrow> distinct (map fst (takings s)) \<and> (\<forall>n t. (n, t) \<in> set (takings s) \<longrightarrow> n \<le> ds_tkn s))"
proof (intro conjI)
  have inv: "dead_inv s" using dead_reach_inv [OF assms] .
  show "\<forall>t u. inside (ds_pc s t) \<and> inside (ds_pc s u) \<longrightarrow> t = u" using dead_names [OF inv] by simp
  show "\<forall>t. inside (ds_pc s t) \<longleftrightarrow> is_tid t \<and> a0_ftx_tid (ds_word s) = t \<and> \<not> a0_ftx_owner_died (ds_word s)"
    using inv by (auto simp: dead_inv_def is_tid_def)
  show "\<forall>t s'. dead_step s s' \<and> inside (ds_pc s t) \<and> \<not> inside (ds_pc s' t) \<longrightarrow>
      ds_pc s t = Holding \<and> ds_pc s' t = Outside \<or> ds_pc s' t = Gone"
    using tenure_ends by blast
  show "length (takings s) < 2 ^ 64 \<longrightarrow> distinct (map fst (takings s)) \<and> (\<forall>n t. (n, t) \<in> set (takings s) \<longrightarrow> n \<le> ds_tkn s)"
  proof (intro impI conjI allI)
    assume len: "length (takings s) < 2 ^ 64"
    then have log: "map fst (takings s) = rev [1..<Suc (length (takings s))]" and tkn: "ds_tkn s = length (takings s)"
      using inv by (simp_all add: dead_inv_def del: upt_Suc)
    then show "distinct (map fst (takings s))" by (simp del: upt_Suc)
    fix n t assume "(n, t) \<in> set (takings s)"
    then have "n \<in> set (map fst (takings s))" by force
    then show "n \<le> ds_tkn s" unfolding log tkn by auto
  qed
qed

text \<open>Thread \<open>t\<close> takes a free mutex, alone.\<close>

lemma take_run:
  assumes "is_tid t" "ds_pc s t = Outside" "a0_ftx_tid (ds_word s) = 0"
  shows "dead_step\<^sup>*\<^sup>* s (at_pc t Swapped (s\<lparr>ds_word := (ds_word s OR t) AND NOT FUTEX_OWNER_DIED\<rparr>))"
    and "dead_step\<^sup>*\<^sup>* s (at_pc t Holding (s\<lparr>ds_word := (ds_word s OR t) AND NOT FUTEX_OWNER_DIED,
      ds_tkn := add64 (ds_tkn s) 1, takings := (add64 (ds_tkn s) 1, t) # takings s\<rparr>))"
proof -
  let ?saw = "at_pc t (Saw (ds_word s)) s" and ?word = "(ds_word s OR t) AND NOT FUTEX_OWNER_DIED"
  let ?swapped = "at_pc t Swapped (s\<lparr>ds_word := ?word\<rparr>)" and ?counting = "at_pc t (Counting (ds_tkn s)) (s\<lparr>ds_word := ?word\<rparr>)"
  have "dead_step s ?saw" using assms by (rule dead_step.look)
  moreover have "dead_step ?saw ?swapped" using dead_step.swap [of ?saw t "ds_word s"] by (simp add: at_pc_def)
  ultimately show won: "dead_step\<^sup>*\<^sup>* s ?swapped" by (meson r_into_rtranclp rtranclp_trans)
  have "dead_step ?swapped ?counting" using dead_step.load_tkn [of ?swapped t] by (simp add: at_pc_def)
  moreover have "dead_step ?counting (at_pc t Holding (s\<lparr>ds_word := ?word,
      ds_tkn := add64 (ds_tkn s) 1, takings := (add64 (ds_tkn s) 1, t) # takings s\<rparr>))"
    using dead_step.store_tkn [of ?counting t "ds_tkn s"] by (simp add: at_pc_def)
  ultimately show "dead_step\<^sup>*\<^sup>* s (at_pc t Holding (s\<lparr>ds_word := ?word,
      ds_tkn := add64 (ds_tkn s) 1, takings := (add64 (ds_tkn s) 1, t) # takings s\<rparr>))"
    using won by (meson rtranclp.rtrancl_into_rtrancl)
qed

lemma reach_run: "dead_step\<^sup>*\<^sup>* s s' \<Longrightarrow> dead_reach s \<Longrightarrow> dead_reach s'"
  by (induction rule: rtranclp_induct) (blast intro: dead_reach.more)+

definition held_7 :: dead_sys where
  "held_7 = at_pc 7 Holding (dead_start\<lparr>ds_word := 7, ds_tkn := 1, takings := [(1, 7)]\<rparr>)"

lemma held_7: "dead_reach held_7"
proof -
  have "dead_step\<^sup>*\<^sup>* dead_start held_7"
    using take_run(2) [of 7 dead_start]
    by (simp add: held_7_def dead_start_def is_tid_def FUTEX_TID_MASK_def a0_ftx_tid_def FUTEX_OWNER_DIED_def add64_def)
  then show ?thesis by (rule reach_run) (rule dead_reach.first)
qed

theorem deadman_exclusive_spec_witness:
  "inside (ds_pc held_7 7) \<and> \<not> inside (ds_pc held_7 5) \<and> a0_ftx_tid (ds_word held_7) = 7"
proof -
  have "inside (ds_pc held_7 7)" by (simp add: held_7_def at_pc_def)
  moreover note names = deadman_exclusive_spec [OF held_7, THEN conjunct2, THEN conjunct1, rule_format]
  ultimately have "a0_ftx_tid (ds_word held_7) = 7" using names by blast
  then show ?thesis using names [of 7] names [of 5] \<open>inside (ds_pc held_7 7)\<close> by simp
qed

text \<open>Memory as the protocol sees it.\<close>

definition shows_sys :: "nat \<Rightarrow> mem \<Rightarrow> dead_sys \<Rightarrow> bool" where
  "shows_sys s m sys \<longleftrightarrow> ld32 m (s + 16) = ds_word sys \<and> ld64 m (stkn_tkn s) = ds_tkn sys"

text \<open>
  C36. The code follows the protocol. \<^verbatim>\<open>a0_deadman_mtx_trylock\<close>, on memory that shows a state of the
  protocol in which its thread is outside, is a run of the protocol's steps by this thread alone: it ends holding
  if the call succeeds and outside if it does not; and then \<^verbatim>\<open>a0_deadman_mtx_unlock\<close> is the release step.
\<close>

theorem deadman_protocol_spec:
  assumes "thread_ok w ms" "dead_at w ms d s" "wake_ok w" "\<not> flag_set (dm_is_owner d) w"
    and "shows_sys s (mm w) sys" "ds_pc sys (gettid w) = Outside"
  shows "\<exists>err w' sys'. a0_deadman_mtx_trylock d w = (err, w') \<and> dead_step\<^sup>*\<^sup>* sys sys' \<and> shows_sys s (mm w') sys' \<and>
     ds_pc sys' = (ds_pc sys)(gettid w := if a0_mtx_lock_successful err then Holding else Outside) \<and>
     (a0_mtx_lock_successful err \<longrightarrow> (\<exists>w'' sys''. a0_deadman_mtx_unlock d w' = (A0_OK, w'') \<and> dead_step sys' sys'' \<and>
        shows_sys s (mm w'') sys'' \<and> ds_pc sys'' = ds_pc sys))"
proof (cases "\<not> flag_set (dm_shutdown d) w \<and> a0_ftx_tid (ds_word sys) = 0")
  case True
  let ?old = "ds_word sys" and ?t = "gettid w"
  have sys: "ld32 (mm w) (s + 16) = ?old" "ld64 (mm w) (stkn_tkn s) = ds_tkn sys" using assms(5) by (simp_all add: shows_sys_def)
  have t: "is_tid ?t" using assms(1) by (simp add: thread_ok_def is_tid_def)
  let ?e = "if a0_ftx_owner_died ?old then A0_MAKE_SYSERR EOWNERDEAD else A0_OK"
  obtain w' where w': "a0_deadman_mtx_trylock d w = (?e, w')" "thread_ok w' (s # ms)"
      "ld32 (mm w') (s + 16) = (?old OR ?t) AND NOT FUTEX_OWNER_DIED" "ld64 (mm w') (stkn_tkn s) = add64 (ds_tkn sys) 1"
      "flag_set (dm_is_owner d) w'" "dead_at w' ms d s" "grew w w' (names_covered ?t (rb_head w) s)"
    using trylock_taken [OF assms(1-3) _ assms(4) sys(1)] True unfolding sys(2) by blast
  have "wake_ok w'" using w'(7) assms(3) by (simp add: grew_def wake_ok_def)
  moreover have "thread_ok w' ([] @ s # ms)" "dead_at w' ([] @ ms) d s" using w'(2,6) by simp_all
  ultimately obtain w'' where w'': "a0_deadman_mtx_unlock d w' = (A0_OK, w'')"
      "ld32 (mm w'') (s + 16) = ld32 (mm w') (s + 16) AND FUTEX_WAITERS"
      "ld64 (mm w'') (stkn_tkn s) = ld64 (mm w') (stkn_tkn s)"
    using unlock_released w'(5) by blast
  let ?sys' = "at_pc ?t Holding (sys\<lparr>ds_word := (?old OR ?t) AND NOT FUTEX_OWNER_DIED,
      ds_tkn := add64 (ds_tkn sys) 1, takings := (add64 (ds_tkn sys) 1, ?t) # takings sys\<rparr>)"
  have run: "dead_step\<^sup>*\<^sup>* sys ?sys'" using take_run(2) [OF t assms(6)] True by blast
  have pc': "ds_pc ?sys' ?t = Holding" by (simp add: at_pc_def)
  let ?sys'' = "at_pc ?t Outside (?sys'\<lparr>ds_word := ds_word ?sys' AND FUTEX_WAITERS\<rparr>)"
  have rel: "dead_step ?sys' ?sys''" using dead_step.release [of ?sys' ?t] by (simp add: at_pc_def)
  have "a0_mtx_lock_successful ?e" by (simp add: a0_mtx_lock_successful_def a0_mtx_previous_owner_died_def)
  moreover have "shows_sys s (mm w') ?sys'" using w'(3,4) by (simp add: shows_sys_def at_pc_def)
  moreover have "ds_pc ?sys'' = ds_pc sys" using assms(6) by (auto simp: at_pc_def)
  moreover have "shows_sys s (mm w'') ?sys''" using w''(2,3) w'(3,4) by (simp add: shows_sys_def at_pc_def)
  ultimately show ?thesis
    using w'(1) w''(1) run rel
    by (intro exI [of _ ?e] exI [of _ w'] exI [of _ ?sys']) (auto simp: at_pc_def)
next
  case False
  then have "flag_set (dm_shutdown d) w \<or> a0_ftx_tid (ld32 (mm w) (s + 16)) \<noteq> 0" using assms(5) by (simp add: shows_sys_def)
  from trylock_refused [OF assms(1,2,4) this] obtain e w' where
      w': "a0_deadman_mtx_trylock d w = (A0_MAKE_SYSERR e, w')" "e \<noteq> EOWNERDEAD"
      "only {rb_head w + 16..<rb_head w + 24} (mm w) (mm w')"
    by (auto split: if_splits)
  have s: "s + 32 \<le> rb_head w \<or> rb_head w + 24 \<le> s" using assms(2) by (auto simp: dead_at_def clear_of_def)
  have "ld 4 (mm w') (s + 16) = ld 4 (mm w) (s + 16)" "ld64 (mm w') (stkn_tkn s) = ld64 (mm w) (stkn_tkn s)"
    using s by (auto intro!: only_ld [OF w'(3)] simp: stkn_tkn_def)
  then have "shows_sys s (mm w') sys" using assms(5) by (simp add: shows_sys_def ld32_def)
  moreover have "\<not> a0_mtx_lock_successful (A0_MAKE_SYSERR e)"
    using w'(2) by (simp add: a0_mtx_lock_successful_def a0_mtx_previous_owner_died_def A0_MAKE_SYSERR_def)
  moreover have "(ds_pc sys)(gettid w := Outside) = ds_pc sys" using assms(6) by auto
  ultimately show ?thesis using w'(1) by (intro exI [of _ "A0_MAKE_SYSERR e"] exI [of _ w'] exI [of _ sys]) simp
qed

theorem deadman_protocol_spec_witness:
  "\<exists>w' sys'. a0_deadman_mtx_trylock 100 dead_world = (A0_OK, w') \<and> dead_step\<^sup>*\<^sup>* dead_start sys' \<and>
     shows_sys 200 (mm w') sys' \<and> ds_pc sys' 7 = Holding"
proof -
  have "shows_sys 200 (mm dead_world) dead_start"
    using dead_world(6,7) by (simp add: shows_sys_def dead_start_def stkn_tkn_def)
  then obtain err w' sys' where *: "a0_deadman_mtx_trylock 100 dead_world = (err, w')" "dead_step\<^sup>*\<^sup>* dead_start sys'"
      "shows_sys 200 (mm w') sys'" "ds_pc sys' 7 = (if a0_mtx_lock_successful err then Holding else Outside)"
    using deadman_protocol_spec [OF dead_world(1-3,5), of dead_start] dead_world(8) by (auto simp: dead_start_def)
  moreover have "err = A0_OK"
    using trylock_taken [OF dead_world(1-5), of 0] dead_world(6) *(1) by (auto simp: a0_ftx_tid_def a0_ftx_owner_died_def)
  ultimately show ?thesis by (auto simp: a0_mtx_lock_successful_def)
qed

text \<open>Thread 7 has released the mutex; thread 5 has swapped itself in and not counted up yet, and then it has.\<close>

definition stale_5 :: dead_sys where
  "stale_5 = at_pc 5 Swapped (at_pc 7 Outside (held_7\<lparr>ds_word := 5\<rparr>))"

definition counted_5 :: dead_sys where
  "counted_5 = at_pc 5 Holding (at_pc 7 Outside (held_7\<lparr>ds_word := 5, ds_tkn := 2, takings := [(2, 5), (1, 7)]\<rparr>))"

lemma stale_5: "dead_reach stale_5" "dead_step\<^sup>*\<^sup>* stale_5 counted_5"
proof -
  let ?free = "at_pc 7 Outside (held_7\<lparr>ds_word := 0\<rparr>)"
  have "dead_step held_7 ?free"
    using dead_step.release [of held_7 7] by (simp add: held_7_def at_pc_def dead_start_def FUTEX_WAITERS_def)
  then have "dead_reach ?free" by (rule dead_reach.more [OF held_7])
  moreover have "dead_step\<^sup>*\<^sup>* ?free stale_5"
    using take_run(1) [of 5 ?free]
    by (simp add: stale_5_def held_7_def at_pc_def dead_start_def is_tid_def FUTEX_TID_MASK_def a0_ftx_tid_def FUTEX_OWNER_DIED_def)
  ultimately show "dead_reach stale_5" using reach_run by blast
  let ?counting = "at_pc 5 (Counting 1) stale_5"
  have "dead_step stale_5 ?counting"
    using dead_step.load_tkn [of stale_5 5] by (simp add: stale_5_def held_7_def at_pc_def)
  moreover have 2: "add64 1 1 = 2" by (simp add: add64_def)
  have "dead_step ?counting counted_5"
    using dead_step.store_tkn [of ?counting 5 1] unfolding 2 by (simp add: stale_5_def counted_5_def held_7_def at_pc_def)
  ultimately show "dead_step\<^sup>*\<^sup>* stale_5 counted_5" by (meson r_into_rtranclp rtranclp_trans)
qed

lemma inop_same:
  assumes "dead_at w ms d s" "u = wr 1 (dm_inop d) 1 w"
  shows "dm_stkn (mm u) d = s" "ld32 (mm u) (s + 16) = ld32 (mm w) (s + 16)" "ld64 (mm u) (stkn_tkn s) = ld64 (mm w) (stkn_tkn s)"
  using assms by (auto simp: dead_at_def dm_stkn_def dm_inop_def mem_simps ld32_stb_other stkn_tkn_def)

text \<open>
  The token can be stale. The word shows a new holder before the token is counted up. Thread 5 holds the
  mutex in both of these states, and one leads to the other by its own steps. In the first, a wait for
  a holder returns the token 1, which was thread 7's; in the second, a wait for the end of the holder with token 1
  returns at once: a client that waits for thread 5 to be gone is told so while thread 5 lives and holds on.
\<close>

theorem deadman_race_spec:
  "dead_reach stale_5 \<and> dead_step\<^sup>*\<^sup>* stale_5 counted_5 \<and> (1, 7) \<in> set (takings stale_5) \<and>
   inside (ds_pc stale_5 5) \<and> inside (ds_pc counted_5 5) \<and>
   (dead_at w ms d s \<and> shows_sys s (mm w) stale_5 \<longrightarrow>
      a0_deadman_mtx_timedwait_locked d timeout w = Some (A0_OK, Some 1, wr 1 (dm_inop d) 0 (wr 1 (dm_inop d) 1 w))) \<and>
   (dead_at w ms d s \<and> shows_sys s (mm w) counted_5 \<longrightarrow>
      a0_deadman_mtx_timedwait_unlocked d timeout 1 w = Some (A0_OK, wr 1 (dm_inop d) 0 (wr 1 (dm_inop d) 1 w)))"
proof -
  let ?u = "wr 1 (dm_inop d) 1 w"
  have "a0_deadman_mtx_timedwait_locked d timeout w = Some (A0_OK, Some 1, wr 1 (dm_inop d) 0 ?u)"
    if "dead_at w ms d s" "shows_sys s (mm w) stale_5"
  proof -
    have "\<not> vacant d ?u" "ld64 (mm ?u) (stkn_tkn (dm_stkn (mm ?u) d)) = 1"
      using inop_same [OF that(1) refl] that(2)
      by (simp_all add: vacant_def dm_ftx_def shows_sys_def stale_5_def at_pc_def held_7_def a0_ftx_tid_def FUTEX_TID_MASK_def
          a0_ftx_owner_died_def FUTEX_OWNER_DIED_def)
    then show ?thesis
      by (simp add: a0_deadman_mtx_timedwait_locked_def a0_deadman_mtx_timedwait_locked_impl_def wait_while_turn [of vacant])
  qed
  moreover have "a0_deadman_mtx_timedwait_unlocked d timeout 1 w = Some (A0_OK, wr 1 (dm_inop d) 0 ?u)"
    if "dead_at w ms d s" "shows_sys s (mm w) counted_5"
  proof -
    have "\<not> held_by 1 d ?u"
      using inop_same [OF that(1) refl] that(2)
      by (simp add: held_by_def dm_ftx_def shows_sys_def counted_5_def at_pc_def held_7_def)
    then show ?thesis
      using wait_while_turn [of "held_by 1" d timeout ?u]
      by (simp add: a0_deadman_mtx_timedwait_unlocked_def a0_deadman_mtx_timedwait_unlocked_impl_def)
  qed
  moreover have "(1, 7) \<in> set (takings stale_5)" "inside (ds_pc stale_5 5)" "inside (ds_pc counted_5 5)"
    by (simp_all add: stale_5_def counted_5_def at_pc_def held_7_def)
  ultimately show ?thesis using stale_5 by blast
qed

theorem deadman_race_spec_witness:
  "\<exists>w'. a0_deadman_mtx_timedwait_locked 100 None (wr 8 224 1 (wr 4 216 5 dead_world)) = Some (A0_OK, Some 1, w')"
proof -
  let ?w = "wr 8 224 1 (wr 4 216 5 dead_world)"
  have "dead_at ?w [] 100 200" using dead_world(2) by (simp add: dead_at_def dm_stkn_def mem_simps)
  moreover have "shows_sys 200 (mm ?w) stale_5"
    using ld32_stb [of "mm dead_world" 216 5]
    by (simp add: shows_sys_def stale_5_def at_pc_def held_7_def stkn_tkn_def mem_simps ld32_stb_other)
  ultimately show ?thesis using deadman_race_spec [of ?w "[]" 100 200 None] by blast
qed

text \<open>
  Thread \<open>t\<close> lives and holds the mutex, having counted the token up to \<open>tkn\<close>.
\<close>

definition tenure :: "dead_sys \<Rightarrow> nat \<Rightarrow> u32 \<Rightarrow> bool" where
  "tenure s tkn t \<longleftrightarrow> ds_pc s t = Holding \<and> takings s \<noteq> [] \<and> hd (takings s) = (tkn, t)"

lemma holding_tenure:
  assumes "dead_reach s" "ds_pc s t = Holding"
  shows "tenure s (ds_tkn s) t"
  using assms
proof (induction rule: dead_reach.induct)
  case first
  then show ?case by (simp add: dead_start_def)
next
  case (more s s')
  have inv: "dead_inv s" by (rule dead_reach_inv [OF more.hyps(1)])
  from more.hyps(2) more.IH more.prems inv show ?case
  proof (induction rule: dead_step.induct)
    case (store_tkn s u n)
    have "t = u"
    proof (rule ccontr)
      assume "t \<noteq> u"
      then have "inside (ds_pc s t)" "inside (ds_pc s u)" using store_tkn by (simp_all add: at_pc_def)
      then show False using \<open>t \<noteq> u\<close> dead_names [OF store_tkn(4), of t] dead_names [OF store_tkn(4), of u] by simp
    qed
    then show ?case by (simp add: tenure_def at_pc_def)
  qed (auto simp: tenure_def at_pc_def split: if_splits)
qed

text \<open>Whether a wait is over, read off the word and the token, is whether a thread is inside.\<close>

lemma shows_vacant:
  assumes "dead_reach sys" "dm_stkn (mm w) d = s" "shows_sys s (mm w) sys"
  shows "vacant d w \<longleftrightarrow> \<not> (\<exists>t. inside (ds_pc sys t))"
    "held_by tkn d w \<longleftrightarrow> (\<exists>t. inside (ds_pc sys t)) \<and> ds_tkn sys = tkn"
proof -
  have inv: "dead_inv sys" by (rule dead_reach_inv [OF assms(1)])
  have word: "ld32 (mm w) (dm_ftx d w) = ds_word sys" "ld64 (mm w) (stkn_tkn (dm_stkn (mm w) d)) = ds_tkn sys"
    using assms(2,3) by (simp_all add: shows_sys_def dm_ftx_def)
  have "is_tid (a0_ftx_tid (ds_word sys)) \<longleftrightarrow> a0_ftx_tid (ds_word sys) \<noteq> 0"
    by (simp add: is_tid_def a0_ftx_tid_def and.assoc)
  then have some: "(\<exists>t. inside (ds_pc sys t)) \<longleftrightarrow> a0_ftx_tid (ds_word sys) \<noteq> 0"
    using dead_names [OF inv] by (metis is_tid_def)
  have died: "a0_ftx_owner_died (ds_word sys) \<Longrightarrow> a0_ftx_tid (ds_word sys) = 0"
    using inv by (simp add: dead_inv_def)
  show "vacant d w \<longleftrightarrow> \<not> (\<exists>t. inside (ds_pc sys t))"
    "held_by tkn d w \<longleftrightarrow> (\<exists>t. inside (ds_pc sys t)) \<and> ds_tkn sys = tkn"
    using word some died by (auto simp: vacant_def held_by_def Let_def)
qed

text \<open>
  C39. Waiting, on memory that shows a state of the protocol after the first turn with an event. A wait for a
  holder then reports OK exactly if a thread is inside, with the token: the holder's own, once it has counted it up; a
  holder that has swapped itself in and not counted yet is reported with the token before. A wait for the end of a
  tenure then reports OK exactly if no thread is inside or the token has moved on; so never while the thread
  that counted up to this token lives and holds. Otherwise both report ESHUTDOWN if the handle is shut
  down, and else the error of the sleep (a timeout).
\<close>

theorem deadman_wait_spec:
  assumes "v = dozed d timeout (wr 1 (dm_inop d) 1 w)" "done = wr 1 (dm_inop d) 0"
    and "dead_reach sys" "dm_stkn (mm (v n)) d = s" "shows_sys s (mm (v n)) sys"
  shows "((\<forall>i < n. dozes vacant d timeout (v i)) \<and> \<not> dozes vacant d timeout (v n) \<longrightarrow>
       a0_deadman_mtx_timedwait_locked d timeout w = Some (
         if \<exists>t. inside (ds_pc sys t) then (A0_OK, Some (ds_tkn sys), done (v n))
         else if flag_set (dm_shutdown d) (v n) then (A0_MAKE_SYSERR ESHUTDOWN, None, done (v n))
         else (fst (doze d timeout (v n)), None, done (snd (doze d timeout (v n)))))) \<and>
     (\<forall>t. inside (ds_pc sys t) \<longrightarrow> tenure sys (ds_tkn sys) t \<or> ds_pc sys t = Swapped \<or> ds_pc sys t = Counting (ds_tkn sys)) \<and>
     ((\<forall>i < n. dozes (held_by tkn) d timeout (v i)) \<and> \<not> dozes (held_by tkn) d timeout (v n) \<longrightarrow>
       a0_deadman_mtx_timedwait_unlocked d timeout tkn w = Some (
         if \<not> (\<exists>t. inside (ds_pc sys t)) \<or> ds_tkn sys \<noteq> tkn then (A0_OK, done (v n))
         else if flag_set (dm_shutdown d) (v n) then (A0_MAKE_SYSERR ESHUTDOWN, done (v n))
         else (fst (doze d timeout (v n)), done (snd (doze d timeout (v n)))))) \<and>
     (\<forall>t. tenure sys tkn t \<longrightarrow> inside (ds_pc sys t) \<and> ds_tkn sys = tkn)"
proof -
  let ?u = "wr 1 (dm_inop d) 1 w"
  have ends: "wait_while keep d timeout ?u = Some (
      if \<not> keep d (v n) then (A0_OK, v n) else if flag_set (dm_shutdown d) (v n) then (A0_MAKE_SYSERR ESHUTDOWN, v n)
      else doze d timeout (v n))"
    if "(\<forall>i < n. dozes keep d timeout (v i)) \<and> \<not> dozes keep d timeout (v n)" for keep
    using that wait_while_returns [of n keep d timeout ?u "v n"] unfolding assms(1) by blast
  have bad: "fst (doze d timeout (v n)) \<noteq> A0_OK"
    if "\<not> dozes keep d timeout (v n)" "keep d (v n)" "\<not> flag_set (dm_shutdown d) (v n)" for keep
    using that by (auto simp: dozes_def woken_def)
  note seen = shows_vacant [OF assms(3-5)]
  have tkn: "ld64 (mm (v n)) (stkn_tkn (dm_stkn (mm (v n)) d)) = ds_tkn sys"
    using assms(4,5) by (simp add: shows_sys_def)
  have locked: "a0_deadman_mtx_timedwait_locked d timeout w = Some (
         if \<not> vacant d (v n) then (A0_OK, Some (ds_tkn sys), done (v n))
         else if flag_set (dm_shutdown d) (v n) then (A0_MAKE_SYSERR ESHUTDOWN, None, done (v n))
         else (fst (doze d timeout (v n)), None, done (snd (doze d timeout (v n)))))"
    if "(\<forall>i < n. dozes vacant d timeout (v i)) \<and> \<not> dozes vacant d timeout (v n)"
    using ends [OF that] bad [of vacant] that tkn
    unfolding a0_deadman_mtx_timedwait_locked_def a0_deadman_mtx_timedwait_locked_impl_def assms(2)
    by (auto simp: A0_MAKE_SYSERR_def split: prod.splits)
  have unlocked: "a0_deadman_mtx_timedwait_unlocked d timeout tkn w = Some (
         if \<not> held_by tkn d (v n) then (A0_OK, done (v n))
         else if flag_set (dm_shutdown d) (v n) then (A0_MAKE_SYSERR ESHUTDOWN, done (v n))
         else (fst (doze d timeout (v n)), done (snd (doze d timeout (v n)))))"
    if "(\<forall>i < n. dozes (held_by tkn) d timeout (v i)) \<and> \<not> dozes (held_by tkn) d timeout (v n)"
    using ends [OF that]
    unfolding a0_deadman_mtx_timedwait_unlocked_def a0_deadman_mtx_timedwait_unlocked_impl_def assms(2)
    by (auto split: prod.splits)
  have pcs: "tenure sys (ds_tkn sys) t \<or> ds_pc sys t = Swapped \<or> ds_pc sys t = Counting (ds_tkn sys)"
    if "inside (ds_pc sys t)" for t
    using that holding_tenure [OF assms(3), of t] dead_reach_inv [OF assms(3)]
    by (cases "ds_pc sys t") (auto simp: dead_inv_def)
  have ten: "inside (ds_pc sys t) \<and> ds_tkn sys = tkn" if "tenure sys tkn t" for t
    using that holding_tenure [OF assms(3), of t] by (auto simp: tenure_def)
  have "(\<not> vacant d (v n)) = (\<exists>t. inside (ds_pc sys t))"
    "(\<not> held_by tkn d (v n)) = (\<not> (\<exists>t. inside (ds_pc sys t)) \<or> ds_tkn sys \<noteq> tkn)"
    using seen by blast+
  note locked [unfolded this(1)] unlocked [unfolded this(2)]
  then show ?thesis using pcs ten by (intro conjI allI impI) (assumption | blast)+
qed

lemma dead_world_held:
  assumes "ds_word sys = 5" "ds_tkn sys = 1"
  shows "dead_at (wr 8 224 1 (wr 4 216 5 dead_world)) [] 100 200" "shows_sys 200 (mm (wr 8 224 1 (wr 4 216 5 dead_world))) sys"
  using assms dead_world(2) ld32_stb [of "mm dead_world" 216 5]
  by (simp_all add: dead_at_def dm_stkn_def mem_simps shows_sys_def stkn_tkn_def ld32_stb_other)

text \<open>Thread 5 has taken the mutex; a wait finds it held, and a wait for the token before finds it gone on.\<close>

definition held_5 :: dead_sys where
  "held_5 = at_pc 5 Holding (dead_start\<lparr>ds_word := 5, ds_tkn := 1, takings := [(1, 5)]\<rparr>)"

lemma held_5: "dead_reach held_5"
proof -
  have "dead_step\<^sup>*\<^sup>* dead_start held_5"
    using take_run(2) [of 5 dead_start]
    by (simp add: held_5_def dead_start_def is_tid_def FUTEX_TID_MASK_def a0_ftx_tid_def FUTEX_OWNER_DIED_def add64_def)
  then show ?thesis by (rule reach_run) (rule dead_reach.first)
qed

text \<open>The first wait sleeps once, while thread 5 takes the mutex.\<close>

theorem deadman_wait_spec_witness:
  "(\<exists>w'. a0_deadman_mtx_timedwait_locked 100 None (handing 5 dead_world) = Some (A0_OK, Some 0, w')) \<and>
   (\<exists>w'. a0_deadman_mtx_timedwait_locked 100 None (wr 8 224 1 (wr 4 216 5 dead_world)) = Some (A0_OK, Some 1, w')) \<and>
   (\<exists>w'. a0_deadman_mtx_timedwait_unlocked 100 None 0 (wr 8 224 1 (wr 4 216 5 dead_world)) = Some (A0_OK, w'))"
proof (intro conjI)
  let ?w = "handing 5 dead_world"
  define u where "u = wr 1 (dm_inop 100) 1 ?w"
  have u: "thread_ok u []" "dead_at u [] 100 200" "ld32 (mm u) 216 = 0" "\<not> flag_set (dm_shutdown 100) u"
      "kernel u = kernel ?w" "ld64 (mm u) 224 = 0"
    using handle_wr [of ?w "[]" 100 "dm_inop 100" 1] dead_world(1,2,4,6,7)
    by (simp_all add: u_def dm_inop_def dm_shutdown_def dead_at_def clear_of_def dm_stkn_def mem_simps ld32_stb_other flag_set_def stb_other)
  obtain x where x: "doze 100 None u = (A0_OK, x)" "dead_at x [] 100 200" "ld32 (mm x) 216 = word_of_nat 5"
      "ld64 (mm x) 224 = ld64 (mm u) 224"
    using handing_doze [OF u(1,2,5)] by auto
  let ?sys = "at_pc 5 Swapped (dead_start\<lparr>ds_word := 5\<rparr>)"
  have "dead_step\<^sup>*\<^sup>* dead_start ?sys"
    using take_run(1) [of 5 dead_start]
    by (simp add: dead_start_def is_tid_def FUTEX_TID_MASK_def a0_ftx_tid_def FUTEX_OWNER_DIED_def)
  then have reach: "dead_reach ?sys" by (rule reach_run) (rule dead_reach.first)
  have seen: "dm_stkn (mm x) 100 = 200" "shows_sys 200 (mm x) ?sys"
    using x(2-4) u(6) by (simp_all add: dead_at_def shows_sys_def at_pc_def dead_start_def stkn_tkn_def)
  have "vacant 100 u" "\<not> vacant 100 x"
    using u(2,3) x(2,3)
    by (simp_all add: vacant_def dm_ftx_def dead_at_def a0_ftx_tid_def a0_ftx_owner_died_def FUTEX_TID_MASK_def FUTEX_OWNER_DIED_def)
  then have d: "dozes vacant 100 None u" "\<not> dozes vacant 100 None x"
    using u(4) x(1) by (simp_all add: dozes_def woken_def)
  have v1: "dozed 100 None (wr 1 (dm_inop 100) 1 ?w) 1 = x" "\<forall>i < 1. dozes vacant 100 None (dozed 100 None (wr 1 (dm_inop 100) 1 ?w) i)"
    unfolding u_def [symmetric] using x(1) d(1) by simp_all
  have "inside (ds_pc ?sys 5)" "ds_tkn ?sys = 0" by (simp_all add: at_pc_def dead_start_def)
  then show "\<exists>w'. a0_deadman_mtx_timedwait_locked 100 None ?w = Some (A0_OK, Some 0, w')"
    using deadman_wait_spec [OF refl refl reach, of 100 None ?w 1 200, THEN conjunct1] seen d(2) v1 by auto
next
  let ?w = "wr 8 224 1 (wr 4 216 5 dead_world)"
  let ?u = "wr 1 (dm_inop 100) 1 ?w"
  have sys: "ds_word held_5 = 5" "ds_tkn held_5 = 1" "inside (ds_pc held_5 5)" by (simp_all add: held_5_def at_pc_def)
  note w = dead_world_held [OF sys(1,2)]
  note same = inop_same [OF w(1) refl]
  have seen: "dm_stkn (mm (dozed 100 None ?u 0)) 100 = 200" "shows_sys 200 (mm (dozed 100 None ?u 0)) held_5"
    using same w(2) by (simp_all add: shows_sys_def)
  have over: "\<not> dozes vacant 100 None (dozed 100 None ?u 0)" "\<not> dozes (held_by 0) 100 None (dozed 100 None ?u 0)"
    using shows_vacant [OF held_5 seen] sys by (auto simp: dozes_def)
  note at = deadman_wait_spec [OF refl refl held_5 seen]
  show "\<exists>w'. a0_deadman_mtx_timedwait_locked 100 None ?w = Some (A0_OK, Some 1, w')"
    using at [THEN conjunct1] over(1) sys by auto
  show "\<exists>w'. a0_deadman_mtx_timedwait_unlocked 100 None 0 ?w = Some (A0_OK, w')"
    using at [of 0, THEN conjunct2, THEN conjunct2, THEN conjunct1] over(2) sys by auto
qed

end
