(* ===== verification/Process.thy ===== *)
theory Process
  imports Prelude
begin

text \<open>
  What a process keeps for the library: \<^verbatim>\<open>src/once.c\<close>, \<^verbatim>\<open>src/tid.c\<close> and the texts of \<^verbatim>\<open>src/err.c\<close>.
\<close>

section \<open>Once\<close>

text \<open>
  \<open>a0_once\<close> hands the callback to \<^verbatim>\<open>pthread_once\<close> through a thread-local variable: the callback
  runs if no call has run it before. (\<^verbatim>\<open>pthread_once\<close> never returns -1.)
\<close>

definition a0_once :: "bool \<Rightarrow> ('s \<Rightarrow> a0_err \<times> 's) \<Rightarrow> 's \<Rightarrow> a0_err \<times> bool \<times> 's" where
  "a0_once flag callback s = (A0_OK, True, if flag then s else snd (callback s))"

section \<open>The identity of the thread\<close>

text \<open>
  The cache of the thread, and whether the handler that clears it in the child of a fork has been
  installed. \<open>own\<close> is what the kernel says the thread is.
\<close>

record tid_state =
  a0_tid_cache :: u32
  atfork_once :: bool

definition a0_tid_reset :: "tid_state \<Rightarrow> tid_state" where
  "a0_tid_reset s = s\<lparr>a0_tid_cache := 0\<rparr>"

definition a0_tid_reset_atfork :: "tid_state \<Rightarrow> tid_state" where
  "a0_tid_reset_atfork s = s\<lparr>atfork_once := True\<rparr>"

definition a0_tid :: "u32 \<Rightarrow> tid_state \<Rightarrow> u32 \<times> tid_state" where
  "a0_tid own s =
     (let s = (if a0_tid_cache s = 0
               then let s = s\<lparr>a0_tid_cache := own\<rparr> in if atfork_once s then s else a0_tid_reset_atfork s
               else s)
      in (a0_tid_cache s, s))"

text \<open>The state that the child of a fork begins with.\<close>

definition fork_child :: "tid_state \<Rightarrow> tid_state" where
  "fork_child s = (if atfork_once s then a0_tid_reset s else s)"

inductive tid_state_of :: "u32 \<Rightarrow> tid_state \<Rightarrow> bool" where
  fresh: "tid_state_of own \<lparr>a0_tid_cache = 0, atfork_once = f\<rparr>"
| call: "tid_state_of own s \<Longrightarrow> tid_state_of own (snd (a0_tid own s))"
| fork: "tid_state_of own s \<Longrightarrow> tid_state_of child (fork_child s)"

lemma tid_state_of_inv:
  "tid_state_of own s \<Longrightarrow> a0_tid_cache s = 0 \<or> a0_tid_cache s = own \<and> atfork_once s"
  by (induction rule: tid_state_of.induct)
    (auto simp: a0_tid_def fork_child_def a0_tid_reset_def a0_tid_reset_atfork_def Let_def)

text \<open>However threads and processes are forked, the cached identity is never another thread's.\<close>

lemma tid_correct: "tid_state_of own s \<Longrightarrow> fst (a0_tid own s) = own"
  using tid_state_of_inv [of own s] by (auto simp: a0_tid_def a0_tid_reset_atfork_def Let_def)

section \<open>The texts of errors\<close>

text \<open>\<open>strerror\<close> of the C library is a parameter; \<open>None\<close> is the number 0.\<close>

fun a0_strerror :: "(errno option \<Rightarrow> string) \<Rightarrow> a0_err \<Rightarrow> string" where
  "a0_strerror strerror A0_OK = strerror None"
| "a0_strerror strerror (A0_ERR_SYS e) = strerror (Some e)"
| "a0_strerror strerror (A0_ERR_CUSTOM_MSG msg) = msg"
| "a0_strerror strerror A0_ERR_INVALID_ARG = strerror (Some EINVAL)"
| "a0_strerror strerror A0_ERR_RANGE = ''Index out of bounds''"
| "a0_strerror strerror A0_ERR_AGAIN = ''Not available yet''"
| "a0_strerror strerror A0_ERR_FRAME_LARGE = ''Frame size too large''"
| "a0_strerror strerror A0_ERR_ITER_DONE = ''Done iterating''"
| "a0_strerror strerror A0_ERR_NOT_FOUND = ''Not found''"
| "a0_strerror strerror A0_ERR_BAD_PATH = ''Invalid path''"
| "a0_strerror strerror A0_ERR_BAD_TOPIC = ''Invalid topic name''"
| "a0_strerror strerror A0_ERR_CANCELLED = ''Operation cancelled''"

end
