(* ===== verification/RefCnt.thy ===== *)
theory RefCnt
  imports HashMap_Correct Process "HOL-Library.Multiset"
begin

text \<open>
  The reference counts of \<^verbatim>\<open>src/ref_cnt.c\<close>: a process-wide hash map from
  pointers to counts, made by the first call. A count that falls to zero leaves the map. The
  second component of a result is what the call stores through \<open>out_cnt\<close>, if it gets that far.

  The contract: the map is a multiset of pointers.
\<close>

section \<open>The operations on the map\<close>

type_synonym cnt_map = "(u64, u64) a0_map"

definition a0_ref_cnt_inc_locked :: "cnt_map \<Rightarrow> u64 \<Rightarrow> (a0_err \<times> u64 option \<times> cnt_map) option" where
  "a0_ref_cnt_inc_locked m key = do {
     has_key \<leftarrow> a0_map_has m key;
     (e, m) \<leftarrow> (if has_key then Some (A0_OK, m) else a0_map_put m key 0);
     if e \<noteq> A0_OK then Some (e, None, m)
     else do {
       r \<leftarrow> a0_map_get m key;
       case r of
         Inl e \<Rightarrow> Some (e, None, m)
       | Inr cnt \<Rightarrow> map_option (\<lambda>m. (A0_OK, Some (cnt + 1), m)) (store_val m key (cnt + 1))
     }
   }"

definition a0_ref_cnt_dec_locked :: "cnt_map \<Rightarrow> u64 \<Rightarrow> (a0_err \<times> u64 option \<times> cnt_map) option" where
  "a0_ref_cnt_dec_locked m key = do {
     has_key \<leftarrow> a0_map_has m key;
     if \<not> has_key then Some (A0_ERR_NOT_FOUND, None, m)
     else do {
       r \<leftarrow> a0_map_get m key;
       case r of
         Inl e \<Rightarrow> Some (e, None, m)
       | Inr cnt \<Rightarrow> do {
           m \<leftarrow> store_val m key (cnt - 1);
           (e, m) \<leftarrow> (if cnt - 1 = 0 then a0_map_del m key else Some (A0_OK, m));
           Some (e, Some (cnt - 1), m)
         }
     }
   }"

definition a0_ref_cnt_get_locked :: "cnt_map \<Rightarrow> u64 \<Rightarrow> (a0_err \<times> u64) option" where
  "a0_ref_cnt_get_locked m key = do {
     has_key \<leftarrow> a0_map_has m key;
     if has_key then do {
       r \<leftarrow> a0_map_get m key;
       Some (case r of Inl e \<Rightarrow> (e, 0) | Inr cnt \<Rightarrow> (A0_OK, cnt))
     }
     else Some (A0_OK, 0)
   }"

section \<open>The process-wide counters\<close>

text \<open>
  The static \<open>a0_counters_t\<close>: the map is absent until the first call has initialised it. A call
  that would lock a mutex it already holds does not return.
\<close>

record a0_counters =
  cnts_map :: "cnt_map option"
  cnts_mu :: bool
  init_flag :: bool

definition A0_EMPTY_COUNTERS :: a0_counters where
  "A0_EMPTY_COUNTERS = \<lparr>cnts_map = None, cnts_mu = False, init_flag = False\<rparr>"

definition global_counters_init :: "a0_counters \<Rightarrow> a0_err \<times> a0_counters" where
  "global_counters_init c =
     (A0_OK, c\<lparr>cnts_map := Some (a0_map_init a0_hash_ptr_fn a0_cmp_ptr_fn (0, 0)), cnts_mu := False\<rparr>)"

definition global_counters :: "a0_counters \<Rightarrow> a0_counters" where
  "global_counters c = (case a0_once (init_flag c) global_counters_init c of
     (_, flag, c) \<Rightarrow> c\<lparr>init_flag := flag\<rparr>)"

definition cnts_lock :: "a0_counters \<Rightarrow> (cnt_map \<times> a0_counters) option" where
  "cnts_lock c = (if cnts_mu c then None else map_option (\<lambda>m. (m, c\<lparr>cnts_mu := True\<rparr>)) (cnts_map c))"

definition cnts_unlock :: "a0_counters \<Rightarrow> cnt_map \<Rightarrow> a0_counters" where
  "cnts_unlock c m = c\<lparr>cnts_map := Some m, cnts_mu := False\<rparr>"

definition a0_ref_cnt_inc :: "a0_counters \<Rightarrow> u64 \<Rightarrow> (a0_err \<times> u64 option \<times> a0_counters) option" where
  "a0_ref_cnt_inc c key = do {
     (m, c) \<leftarrow> cnts_lock (global_counters c);
     (e, out_cnt, m) \<leftarrow> a0_ref_cnt_inc_locked m key;
     Some (e, out_cnt, cnts_unlock c m)
   }"

definition a0_ref_cnt_dec :: "a0_counters \<Rightarrow> u64 \<Rightarrow> (a0_err \<times> u64 option \<times> a0_counters) option" where
  "a0_ref_cnt_dec c key = do {
     (m, c) \<leftarrow> cnts_lock (global_counters c);
     (e, out_cnt, m) \<leftarrow> a0_ref_cnt_dec_locked m key;
     Some (e, out_cnt, cnts_unlock c m)
   }"

definition a0_ref_cnt_get :: "a0_counters \<Rightarrow> u64 \<Rightarrow> (a0_err \<times> u64 option \<times> a0_counters) option" where
  "a0_ref_cnt_get c key = do {
     (m, c) \<leftarrow> cnts_lock (global_counters c);
     (e, out) \<leftarrow> a0_ref_cnt_get_locked m key;
     Some (e, Some out, cnts_unlock c m)
   }"

section \<open>Runs of calls\<close>

datatype ref_op = Inc u64 | Dec u64 | Get u64

fun ref_key :: "ref_op \<Rightarrow> u64" where
  "ref_key (Inc p) = p"
| "ref_key (Dec p) = p"
| "ref_key (Get p) = p"

fun ref_step :: "ref_op \<Rightarrow> a0_counters \<Rightarrow> (a0_err \<times> u64 option \<times> a0_counters) option" where
  "ref_step (Inc p) c = a0_ref_cnt_inc c p"
| "ref_step (Dec p) c = a0_ref_cnt_dec c p"
| "ref_step (Get p) c = a0_ref_cnt_get c p"

fun ref_run :: "ref_op list \<Rightarrow> a0_counters \<Rightarrow> ((a0_err \<times> u64 option) list \<times> a0_counters) option" where
  "ref_run [] c = Some ([], c)"
| "ref_run (oper # opers) c = do {
     (e, out, c) \<leftarrow> ref_step oper c;
     (rs, c) \<leftarrow> ref_run opers c;
     Some ((e, out) # rs, c)
   }"

text \<open>The specification: what each call answers when the counts are a multiset.\<close>

fun spec_step :: "ref_op \<Rightarrow> u64 multiset \<Rightarrow> a0_err \<times> u64 option \<times> u64 multiset" where
  "spec_step (Inc p) M = (A0_OK, Some (word_of_nat (Suc (count M p))), add_mset p M)"
| "spec_step (Dec p) M =
     (if p \<in># M then (A0_OK, Some (word_of_nat (count M p - 1)), M - {#p#})
      else (A0_ERR_NOT_FOUND, None, M))"
| "spec_step (Get p) M = (A0_OK, Some (word_of_nat (count M p)), M)"

fun spec_run :: "ref_op list \<Rightarrow> u64 multiset \<Rightarrow> (a0_err \<times> u64 option) list \<times> u64 multiset" where
  "spec_run [] M = ([], M)"
| "spec_run (oper # opers) M =
     (case spec_step oper M of (e, out, M') \<Rightarrow>
        case spec_run opers M' of (rs, M'') \<Rightarrow> ((e, out) # rs, M''))"

end
