(* ===== verification/RefCnt_Correct.thy ===== *)
theory RefCnt_Correct
  imports RefCnt
begin

text \<open>
  The process-wide counters are a multiset of pointers, for the pointers of one 4 GiB window of
  addresses (inside a window the comparison of pointers tells them apart) and fewer than
  $2^{64}$ references to each.
\<close>

abbreviation ptr_cnts :: "u64 \<Rightarrow> cnt_map \<Rightarrow> bool" where
  "ptr_cnts hi \<equiv> map_of_kind a0_hash_ptr_fn a0_cmp_ptr_fn (\<lambda>p. drop_bit 32 p = hi)"

definition cnt_rel :: "u64 \<Rightarrow> cnt_map \<Rightarrow> u64 multiset \<Rightarrow> bool" where
  "cnt_rel hi m M \<longleftrightarrow> ptr_cnts hi m \<and>
     map_abs m = (\<lambda>p. if p \<in># M then Some (word_of_nat (count M p)) else None)"

definition counters_rel :: "u64 \<Rightarrow> a0_counters \<Rightarrow> u64 multiset \<Rightarrow> bool" where
  "counters_rel hi c M \<longleftrightarrow> \<not> cnts_mu c \<and> (\<exists>m. cnts_map c = Some m \<and> cnt_rel hi m M) \<and> init_flag c
     \<or> c = A0_EMPTY_COUNTERS \<and> M = {#}"

lemma cnt_rel_abs:
  "cnt_rel hi m M \<Longrightarrow> map_abs m p = (if p \<in># M then Some (word_of_nat (count M p)) else None)"
  by (simp add: cnt_rel_def)

lemma cnt_rel_has: "cnt_rel hi m M \<Longrightarrow> drop_bit 32 p = hi \<Longrightarrow> a0_map_has m p = Some (p \<in># M)"
  using ptr_map.has_law [where m = m and k = p] by (auto simp: cnt_rel_def dom_def)

lemma cnt_rel_get: "cnt_rel hi m M \<Longrightarrow> drop_bit 32 p = hi \<Longrightarrow> p \<in># M \<Longrightarrow>
    a0_map_get m p = Some (Inr (word_of_nat (count M p)))"
  using ptr_map.get_law [where m = m and k = p] by (auto simp: cnt_rel_def)

lemma cnt_relI:
  assumes "ptr_cnts hi m'" "cnt_rel hi m M" "map_abs m' = (map_abs m)(p := v)"
    "v = (if p \<in># M' then Some (word_of_nat (count M' p)) else None)"
    "\<And>q. q \<noteq> p \<Longrightarrow> count M' q = count M q"
  shows "cnt_rel hi m' M'"
proof -
  have mem: "q \<in># M' \<longleftrightarrow> q \<in># M" if "q \<noteq> p" for q
    using assms(5) [OF that] by (metis count_eq_zero_iff)
  have "map_abs m' q = (if q \<in># M' then Some (word_of_nat (count M' q)) else None)" for q
    using assms(3-5) mem [of q] cnt_rel_abs [OF assms(2), of q] by (cases "q = p") auto
  then show ?thesis
    using assms(1) by (auto simp: cnt_rel_def)
qed

lemma inc_refines:
  assumes rel: "cnt_rel hi m M" and p: "drop_bit 32 p = hi"
  shows "\<exists>m'. a0_ref_cnt_inc_locked m p = Some (A0_OK, Some (word_of_nat (Suc (count M p))), m') \<and>
     cnt_rel hi m' (add_mset p M)"
proof -
  let ?n = "word_of_nat (count M p) :: u64"
  have has: "a0_map_has m p = Some (p \<in># M)" by (rule cnt_rel_has [OF rel p])
  obtain m1 where m1: "(if p \<in># M then Some (A0_OK, m) else a0_map_put m p 0) = Some (A0_OK, m1)"
      "ptr_cnts hi m1" "map_abs m1 = (map_abs m)(p \<mapsto> ?n)"
  proof (cases "p \<in># M")
    case True
    moreover from this have "map_abs m = (map_abs m)(p \<mapsto> ?n)"
      using cnt_rel_abs [OF rel, of p] by (simp add: fun_upd_idem)
    ultimately show ?thesis using that [of m] rel by (simp add: cnt_rel_def)
  next
    case False
    moreover obtain m' where "a0_map_put m p 0 = Some (A0_OK, m')" "ptr_cnts hi m'" "map_abs m' = (map_abs m)(p \<mapsto> 0)"
      using ptr_map.put_law [where m = m and k = p and hi = hi] rel p unfolding cnt_rel_def by blast
    moreover have "?n = 0" using False by (simp add: not_in_iff)
    ultimately show ?thesis using that [of m'] by simp
  qed
  have get: "a0_map_get m1 p = Some (Inr ?n)"
    using ptr_map.get_law [where m = m1 and k = p, OF m1(2) p] m1(3) by simp
  obtain m2 where m2: "store_val m1 p (?n + 1) = Some m2" "ptr_cnts hi m2" "map_abs m2 = (map_abs m1)(p \<mapsto> ?n + 1)"
    using ptr_map.store_law [where m = m1 and k = p, OF m1(2) p, of ?n "?n + 1"] m1(3) by auto
  have "cnt_rel hi m2 (add_mset p M)"
    by (rule cnt_relI [OF m2(2) rel, where p = p]) (simp_all add: m1(3) m2(3) add.commute)
  then show ?thesis
    using has m1(1) get m2(1) by (simp add: a0_ref_cnt_inc_locked_def add.commute split: if_splits)
qed

lemma dec_refines:
  assumes rel: "cnt_rel hi m M" and p: "drop_bit 32 p = hi" and M: "p \<in># M" "count M p < 2 ^ 64"
  shows "\<exists>m'. a0_ref_cnt_dec_locked m p = Some (A0_OK, Some (word_of_nat (count M p - 1)), m') \<and>
     cnt_rel hi m' (M - {#p#})"
proof -
  let ?n = "word_of_nat (count M p) :: u64"
  have pos: "0 < count M p" using M(1) by simp
  have n: "?n - 1 = word_of_nat (count M p - 1)" using pos by (simp add: of_nat_diff)
  have zero: "?n - 1 = 0 \<longleftrightarrow> count M p = 1"
  proof (cases "count M p = 1")
    case False
    then have "\<not> 2 ^ 64 dvd count M p - 1" using M(2) pos by (intro nat_dvd_not_less) linarith+
    then show ?thesis using False unfolding n word_of_nat_eq_0_iff by simp
  qed simp
  obtain m1 where m1: "store_val m p (?n - 1) = Some m1" "ptr_cnts hi m1" "map_abs m1 = (map_abs m)(p \<mapsto> ?n - 1)"
    using ptr_map.store_law [where m = m and k = p and hi = hi, of ?n "?n - 1"] rel p cnt_rel_abs [OF rel, of p] M(1)
    by (auto simp: cnt_rel_def)
  obtain m2 where m2: "(if ?n - 1 = 0 then a0_map_del m1 p else Some (A0_OK, m1)) = Some (A0_OK, m2)"
      "ptr_cnts hi m2" "map_abs m2 = (map_abs m)(p := if ?n - 1 = 0 then None else Some (?n - 1))"
    using ptr_map.del_law [where m = m1 and k = p, OF m1(2) p] m1(2,3) that [of m1] that
    by (cases "?n - 1 = 0") auto
  have "cnt_rel hi m2 (M - {#p#})"
  proof (rule cnt_relI [OF m2(2) rel m2(3)])
    show "(if ?n - 1 = 0 then None else Some (?n - 1)) =
        (if p \<in># M - {#p#} then Some (word_of_nat (count (M - {#p#}) p)) else None)"
    proof (cases "count M p = 1")
      case False
      then have "1 < count M p" using pos by linarith
      then have "p \<in># M - {#p#}" by (simp add: in_diff_count)
      then show ?thesis using False n zero by simp
    qed (simp add: zero in_diff_count)
  qed simp
  moreover have "a0_ref_cnt_dec_locked m p = Some (A0_OK, Some (?n - 1), m2)"
    by (simp only: a0_ref_cnt_dec_locked_def cnt_rel_has [OF rel p] cnt_rel_get [OF rel p M(1)] M(1) m1(1) m2(1)
      bind.bind_lunit not_True_eq_False if_False sum.case prod.case)
  ultimately show ?thesis unfolding n by blast
qed

lemma get_refines:
  assumes "cnt_rel hi m M" "drop_bit 32 p = hi"
  shows "a0_ref_cnt_get_locked m p = Some (A0_OK, word_of_nat (count M p))"
  using cnt_rel_has [OF assms] cnt_rel_get [OF assms]
  by (cases "p \<in># M") (simp_all add: a0_ref_cnt_get_locked_def not_in_iff)

text \<open>Every call finds the counters made and the mutex free.\<close>

lemma counters_start:
  assumes "counters_rel hi c M"
  obtains m c' where "cnts_lock (global_counters c) = Some (m, c')" "cnt_rel hi m M" "init_flag c'"
proof (cases "c = A0_EMPTY_COUNTERS")
  case True
  then have "M = {#}" using assms by (simp add: counters_rel_def A0_EMPTY_COUNTERS_def)
  then have "cnt_rel hi (a0_map_init a0_hash_ptr_fn a0_cmp_ptr_fn (0, 0)) M"
    by (simp add: cnt_rel_def map_kind_init map_abs_init)
  then show ?thesis
    using True by (intro that) (auto simp: global_counters_def a0_once_def global_counters_init_def
      A0_EMPTY_COUNTERS_def cnts_lock_def)
next
  case False
  then obtain m where "cnts_map c = Some m" "cnt_rel hi m M" "init_flag c" "\<not> cnts_mu c"
    using assms by (auto simp: counters_rel_def)
  then show ?thesis
    by (intro that [of m "c\<lparr>init_flag := True, cnts_mu := True\<rparr>"])
      (simp_all add: global_counters_def a0_once_def cnts_lock_def)
qed

lemma counters_done: "cnt_rel hi m M \<Longrightarrow> init_flag c \<Longrightarrow> counters_rel hi (cnts_unlock c m) M"
  by (simp add: counters_rel_def cnts_unlock_def)

lemma ref_step_refines:
  assumes "counters_rel hi c M" "drop_bit 32 (ref_key oper) = hi" "count M (ref_key oper) < 2 ^ 64"
    "spec_step oper M = (e, out, M')"
  shows "\<exists>c'. ref_step oper c = Some (e, out, c') \<and> counters_rel hi c' M'"
proof -
  obtain m c1 where c1: "cnts_lock (global_counters c) = Some (m, c1)" and m: "cnt_rel hi m M" and i: "init_flag c1"
    by (rule counters_start [OF assms(1)])
  show ?thesis
  proof (cases oper)
    case (Inc p)
    then show ?thesis
      using c1 i assms(2,4) inc_refines [OF m, of p] by (auto simp: a0_ref_cnt_inc_def intro: counters_done)
  next
    case (Get p)
    then show ?thesis
      using c1 i m assms(2,4) get_refines [OF m, of p] by (auto simp: a0_ref_cnt_get_def intro: counters_done)
  next
    case (Dec p)
    show ?thesis
    proof (cases "p \<in># M")
      case True
      then show ?thesis
        using Dec c1 i assms(2-4) dec_refines [OF m, of p] by (auto simp: a0_ref_cnt_dec_def intro: counters_done)
    next
      case False
      then show ?thesis
        using Dec c1 i m assms(2,4) cnt_rel_has [OF m, of p]
        by (auto simp: a0_ref_cnt_dec_def a0_ref_cnt_dec_locked_def intro: counters_done)
    qed
  qed
qed

lemma spec_step_count: "spec_step oper M = (e, out, M') \<Longrightarrow> count M' q \<le> Suc (count M q)"
  by (cases oper) (auto split: if_splits)

lemma ref_run_refines:
  assumes "counters_rel hi c M" "\<And>oper. oper \<in> set opers \<Longrightarrow> drop_bit 32 (ref_key oper) = hi"
    "\<And>q. count M q + length opers \<le> 2 ^ 64"
  shows "\<exists>c'. ref_run opers c = Some (fst (spec_run opers M), c') \<and> counters_rel hi c' (snd (spec_run opers M))"
  using assms
proof (induction opers arbitrary: c M)
  case (Cons oper opers)
  obtain e out M1 where s: "spec_step oper M = (e, out, M1)" by (metis prod_cases3)
  have "count M (ref_key oper) < 2 ^ 64" using Cons.prems(3) [of "ref_key oper"] by simp
  then obtain c1 where c1: "ref_step oper c = Some (e, out, c1)" "counters_rel hi c1 M1"
    using ref_step_refines [OF Cons.prems(1) _ _ s] Cons.prems(2) by auto
  have "count M1 q + length opers \<le> 2 ^ 64" for q
    using spec_step_count [OF s, of q] Cons.prems(3) [of q] by simp
  then obtain c2 where "ref_run opers c1 = Some (fst (spec_run opers M1), c2)"
      "counters_rel hi c2 (snd (spec_run opers M1))"
    using Cons.IH [OF c1(2)] Cons.prems(2) by auto
  then show ?case using s c1(1) by (simp add: case_prod_beta)
qed simp

text \<open>
  C31. The reference counts are a multiset of pointers. From the first call of the process, any
  sequence of increments, decrements and queries (of pointers within one 4 GiB window, fewer
  calls than 2^64) runs to its end, never blocking on its own mutex, and answers call by call
  what a multiset answers: an increment adds an occurrence and stores the new count, a decrement
  removes one and stores what is left or is refused when there is none, a query stores the count.
\<close>

theorem ref_cnt_spec:
  assumes "\<forall>oper \<in> set opers. drop_bit 32 (ref_key oper) = hi" "length opers \<le> 2 ^ 64"
  shows "\<exists>c'. ref_run opers A0_EMPTY_COUNTERS = Some (fst (spec_run opers {#}), c')"
  using ref_run_refines [of hi A0_EMPTY_COUNTERS "{#}" opers] assms by (auto simp: counters_rel_def)

theorem ref_cnt_spec_witness:
  "\<exists>c'. ref_run [Inc 4096, Inc 4096, Get 4096, Dec 4096, Get 8192, Dec 8192, Dec 4096, Dec 4096] A0_EMPTY_COUNTERS =
     Some ([(A0_OK, Some 1), (A0_OK, Some 2), (A0_OK, Some 2), (A0_OK, Some 1), (A0_OK, Some 0),
            (A0_ERR_NOT_FOUND, None), (A0_OK, Some 0), (A0_ERR_NOT_FOUND, None)], c')"
  using ref_cnt_spec [of "[Inc 4096, Inc 4096, Get 4096, Dec 4096, Get 8192, Dec 8192, Dec 4096, Dec 4096]" 0]
  by (simp add: drop_bit_eq_div)

end
