(* ===== verification/Os.thy ===== *)
theory Os
  imports Prelude
begin

text \<open>
  The operating system as \<^verbatim>\<open>src/file.c\<close> and \<^verbatim>\<open>src/discovery.c\<close> see it. Every call adds an event to
  the history of the process: its arguments and its answer. What the system answers is a
  parameter, a function of the history so far, so that it covers every file system, every failure
  and whatever other processes do in between. Statements about what the code does to the file
  system are statements about the history it leaves.
\<close>

record stat_t =
  st_isdir :: bool
  st_size :: nat

datatype d_type = DT_DIR | DT_REG | DT_LNK | DT_OTHER

text \<open>\<open>evt_len\<close> is the size of the field that holds the name, 0 if there is none.\<close>

record inotify_event =
  evt_wd :: u32
  evt_isdir :: bool
  evt_len :: nat
  evt_name :: string

datatype event =
    Stat string "errno + stat_t"
  | Mkdir string nat "errno option"
  | Open string bool "errno + int"
  | Fstat int "errno + stat_t"
  | Mkstemp string "errno + int \<times> string"
  | Fchmod int nat "errno option"
  | Ftruncate int nat "errno option"
  | Link string string "errno option"
  | Unlink string "errno option"
  | Mmap int nat bool "errno + nat"
  | Munmap nat nat "errno option"
  | Close int
  | Lstat string "errno + stat_t"
  | Opendir string "errno + nat"
  | Readdir nat "(string \<times> d_type) option"
  | Closedir nat
  | Remove string "errno option"
  | Inotify_init int
  | Add_watch int string "errno + u32"
  | Rm_watch int u32
  | Eventfd int
  | Epoll_create int
  | Epoll_add int int
  | Epoll_wait int "errno + int option"
  | Inotify_read int "errno + inotify_event list"
  | Eventfd_write int
  | Callback string

type_synonym history = "event list"

text \<open>
  The answers. \<open>Open\<close> is told whether it opens for reading only and \<open>Mmap\<close> whether the mapping is
  private; \<open>Mkstemp\<close> answers the descriptor and the name it made up; an address is never 0.
\<close>

record os =
  k_stat :: "history \<Rightarrow> string \<Rightarrow> errno + stat_t"
  k_mkdir :: "history \<Rightarrow> string \<Rightarrow> nat \<Rightarrow> errno option"
  k_open :: "history \<Rightarrow> string \<Rightarrow> bool \<Rightarrow> errno + int"
  k_fstat :: "history \<Rightarrow> int \<Rightarrow> errno + stat_t"
  k_mkstemp :: "history \<Rightarrow> string \<Rightarrow> errno + int \<times> string"
  k_fchmod :: "history \<Rightarrow> int \<Rightarrow> nat \<Rightarrow> errno option"
  k_ftruncate :: "history \<Rightarrow> int \<Rightarrow> nat \<Rightarrow> errno option"
  k_link :: "history \<Rightarrow> string \<Rightarrow> string \<Rightarrow> errno option"
  k_unlink :: "history \<Rightarrow> string \<Rightarrow> errno option"
  k_mmap :: "history \<Rightarrow> int \<Rightarrow> nat \<Rightarrow> bool \<Rightarrow> errno + nat"
  k_munmap :: "history \<Rightarrow> nat \<Rightarrow> nat \<Rightarrow> errno option"
  k_lstat :: "history \<Rightarrow> string \<Rightarrow> errno + stat_t"
  k_opendir :: "history \<Rightarrow> string \<Rightarrow> errno + nat"
  k_readdir :: "history \<Rightarrow> nat \<Rightarrow> (string \<times> d_type) option"
  k_remove :: "history \<Rightarrow> string \<Rightarrow> errno option"
  k_inotify_init :: "history \<Rightarrow> int"
  k_add_watch :: "history \<Rightarrow> int \<Rightarrow> string \<Rightarrow> errno + u32"
  k_eventfd :: "history \<Rightarrow> int"
  k_epoll_create :: "history \<Rightarrow> int"
  k_epoll_wait :: "history \<Rightarrow> int \<Rightarrow> errno + int option"
  k_inotify_read :: "history \<Rightarrow> int \<Rightarrow> errno + inotify_event list"

text \<open>A call: the answer, and the history with it.\<close>

definition sys :: "(history \<Rightarrow> 'r) \<Rightarrow> ('r \<Rightarrow> event) \<Rightarrow> history \<Rightarrow> 'r \<times> history" where
  "sys answer event h = (answer h, h @ [event (answer h)])"

lemma sys_fst [simp]: "fst (sys answer event h) = answer h"
  by (simp add: sys_def)

lemma sys_snd [simp]: "snd (sys answer event h) = h @ [event (answer h)]"
  by (simp add: sys_def)

text \<open>Where an event of two histories in a row lies.\<close>

lemma append_split:
  assumes "tr1 @ tr2 = pre @ ev # post"
  obtains us where "tr1 = pre @ ev # us" "post = us @ tr2" | us where "pre = tr1 @ us" "tr2 = us @ ev # post"
  using assms by (auto simp: append_eq_append_conv2 append_eq_Cons_conv Cons_eq_append_conv)

text \<open>\<open>None\<close> stands for the 0 of a call that returns 0 or -1.\<close>

definition syserr_of :: "errno option \<Rightarrow> a0_err" where
  "syserr_of r = (case r of None \<Rightarrow> A0_OK | Some e \<Rightarrow> A0_MAKE_SYSERR e)"

lemma syserr_of_simps [simp]:
  "syserr_of None = A0_OK"
  "syserr_of (Some e) = A0_ERR_SYS e"
  by (simp_all add: syserr_of_def A0_MAKE_SYSERR_def)

lemma syserr_of_eq_simps [simp]:
  "syserr_of r = A0_OK \<longleftrightarrow> r = None"
  "syserr_of r = A0_ERR_SYS e \<longleftrightarrow> r = Some e"
  by (auto simp: syserr_of_def A0_MAKE_SYSERR_def split: option.splits)

end
