(* ===== verification/File.thy ===== *)
theory File
  imports Os Topic Transport
begin

text \<open>
  \<^verbatim>\<open>src/file.c\<close>: opening files with their directories, mapping them, iterating over directories and
  removing. A call takes the history of the process and gives it back with its own events.
\<close>

section \<open>Files and options\<close>

record a0_file_create_options =
  cr_size :: nat
  cr_mode :: nat
  cr_dir_mode :: nat

record a0_file_options =
  create_options :: a0_file_create_options
  open_arena_mode :: a0_arena_mode

text \<open>The modes are in octal in the source: 0666 and 0777.\<close>

definition A0_FILE_OPTIONS_DEFAULT :: a0_file_options where
  "A0_FILE_OPTIONS_DEFAULT =
     \<lparr>create_options = \<lparr>cr_size = 16 * 1024 * 1024, cr_mode = 6 * 64 + 6 * 8 + 6, cr_dir_mode = 7 * 64 + 7 * 8 + 7\<rparr>,
      open_arena_mode = A0_ARENA_MODE_SHARED\<rparr>"

text \<open>\<open>fl_data = 0\<close> is the null pointer.\<close>

record a0_file =
  fl_path :: "string option"
  fl_fd :: int
  fl_stat :: stat_t
  fl_mode :: a0_arena_mode
  fl_data :: nat
  fl_size :: nat

section \<open>Directories\<close>

definition a0_mkdir :: "os \<Rightarrow> string \<Rightarrow> nat \<Rightarrow> history \<Rightarrow> a0_err \<times> history" where
  "a0_mkdir os path mode h =
     (let (st, h) = sys (\<lambda>h. k_stat os h path) (Stat path) h
      in case st of
           Inl _ \<Rightarrow>
             (let (r, h) = sys (\<lambda>h. k_mkdir os h path mode) (Mkdir path mode) h
              in if r \<noteq> None \<and> r \<noteq> Some EEXIST then (syserr_of r, h) else (A0_OK, h))
         | Inr st \<Rightarrow> if \<not> st_isdir st then (A0_MAKE_SYSERR ENOTDIR, h) else (A0_OK, h))"

text \<open>\<open>strchr (s + start, c)\<close>, as an index into \<open>s\<close>.\<close>

definition strchr_from :: "string \<Rightarrow> nat \<Rightarrow> char \<Rightarrow> nat option" where
  "strchr_from s start c =
     (let i = start + length (takeWhile (\<lambda>d. d \<noteq> c) (drop start s)) in if i < length s then Some i else None)"

lemma strchr_from_less: "strchr_from s start c = Some i \<Longrightarrow> start \<le> i \<and> i < length s"
  by (auto simp: strchr_from_def Let_def split: if_splits)

function a0_makedirs_loop :: "os \<Rightarrow> string \<Rightarrow> nat \<Rightarrow> nat \<Rightarrow> history \<Rightarrow> a0_err \<times> history" where
  "a0_makedirs_loop os path mode scan_start h =
     (case strchr_from path scan_start (CHR ''/'') of
        None \<Rightarrow> (A0_OK, h)
      | Some scan_found \<Rightarrow>
          let (err, h) = (if scan_found \<noteq> scan_start then a0_mkdir os (take scan_found path) mode h else (A0_OK, h))
          in if err \<noteq> A0_OK then (err, h) else a0_makedirs_loop os path mode (scan_found + 1) h)"
  by pat_completeness auto
termination
  by (relation "measure (\<lambda>(_, path, _, scan_start, _). length path - scan_start)")
    (auto dest!: strchr_from_less)

declare a0_makedirs_loop.simps [simp del]

definition a0_makedirs :: "os \<Rightarrow> string \<Rightarrow> nat \<Rightarrow> history \<Rightarrow> a0_err \<times> history" where
  "a0_makedirs os path mode h = a0_makedirs_loop os path mode 0 h"

text \<open>\<open>dirname\<close> of POSIX.\<close>

definition rstrip_slash :: "string \<Rightarrow> string" where
  "rstrip_slash s = rev (dropWhile (\<lambda>c. c = CHR ''/'') (rev s))"

definition dirname :: "string \<Rightarrow> string" where
  "dirname path =
     (let p = rstrip_slash path; d = rev (dropWhile (\<lambda>c. c \<noteq> CHR ''/'') (rev p))
      in if path = [] then ''.''
         else if p = [] then ''/''
         else if d = [] then ''.''
         else if rstrip_slash d = [] then ''/''
         else rstrip_slash d)"

section \<open>Opening, creating and mapping\<close>

definition a0_open :: "os \<Rightarrow> string \<Rightarrow> a0_arena_mode \<Rightarrow> a0_file \<Rightarrow> history \<Rightarrow> a0_err \<times> a0_file \<times> history" where
  "a0_open os path mode file h =
     (let ro = (mode = A0_ARENA_MODE_READONLY);
          (fd, h) = sys (\<lambda>h. k_open os h path ro) (Open path ro) h
      in case fd of
           Inl e \<Rightarrow> (A0_ERR_SYS e, file, h)
         | Inr fd \<Rightarrow>
             (let (st, h) = sys (\<lambda>h. k_fstat os h fd) (Fstat fd) h
              in case st of
                   Inl e \<Rightarrow> (A0_MAKE_SYSERR e, file, h @ [Close fd])
                 | Inr st \<Rightarrow> (A0_OK, file\<lparr>fl_stat := st, fl_path := Some path, fl_fd := fd\<rparr>, h)))"

text \<open>A chain of calls joined by \<^verbatim>\<open>||\<close>: the first error ends it.\<close>

definition a0_mktmp_setup :: "os \<Rightarrow> a0_file_create_options \<Rightarrow> int \<Rightarrow> history \<Rightarrow> (errno + stat_t) \<times> history" where
  "a0_mktmp_setup os opts fd h =
     (let (r, h) = sys (\<lambda>h. k_fchmod os h fd (cr_mode opts)) (Fchmod fd (cr_mode opts)) h
      in case r of
           Some e \<Rightarrow> (Inl e, h)
         | None \<Rightarrow>
             (let (r, h) = sys (\<lambda>h. k_ftruncate os h fd (cr_size opts)) (Ftruncate fd (cr_size opts)) h
              in case r of
                   Some e \<Rightarrow> (Inl e, h)
                 | None \<Rightarrow> sys (\<lambda>h. k_fstat os h fd) (Fstat fd) h))"

definition a0_mktmp :: "os \<Rightarrow> string \<Rightarrow> a0_file_create_options \<Rightarrow> a0_file \<Rightarrow> history \<Rightarrow> a0_err \<times> a0_file \<times> history" where
  "a0_mktmp os dir opts file h =
     (case a0_joinpath dir ''.alephzero_mkstemp.XXXXXX'' of
        Inl err \<Rightarrow> (err, file, h)
      | Inr path \<Rightarrow>
          (let (r, h) = sys (\<lambda>h. k_mkstemp os h path) (Mkstemp path) h
           in case r of
                Inl e \<Rightarrow> (A0_MAKE_SYSERR e, file\<lparr>fl_fd := -1\<rparr>, h)
              | Inr (fd, path) \<Rightarrow>
                  (let (st, h) = a0_mktmp_setup os opts fd h
                   in case st of
                        Inl e \<Rightarrow> (A0_MAKE_SYSERR e, file\<lparr>fl_fd := -1, fl_path := None\<rparr>, h @ [Close fd])
                      | Inr st \<Rightarrow> (A0_OK, file\<lparr>fl_fd := fd, fl_path := Some path, fl_stat := st\<rparr>, h))))"

definition a0_tmp_move :: "os \<Rightarrow> string \<Rightarrow> a0_file \<Rightarrow> history \<Rightarrow> a0_err \<times> a0_file \<times> history" where
  "a0_tmp_move os path file h =
     (let tmp = the (fl_path file);
          (r, h) = sys (\<lambda>h. k_link os h tmp path) (Link tmp path) h;
          (_, h) = sys (\<lambda>h. k_unlink os h tmp) (Unlink tmp) h
      in (syserr_of r, file\<lparr>fl_path := Some path\<rparr>, h))"

definition a0_mmap :: "os \<Rightarrow> a0_arena_mode \<Rightarrow> a0_file \<Rightarrow> history \<Rightarrow> a0_err \<times> a0_file \<times> history" where
  "a0_mmap os mode file h =
     (let sz = st_size (fl_stat file); private = (mode = A0_ARENA_MODE_READONLY);
          (r, h) = sys (\<lambda>h. k_mmap os h (fl_fd file) sz private) (Mmap (fl_fd file) sz private) h
      in case r of
           Inl e \<Rightarrow> (A0_MAKE_SYSERR e, file\<lparr>fl_mode := mode, fl_size := 0, fl_data := 0\<rparr>, h)
         | Inr a \<Rightarrow> (A0_OK, file\<lparr>fl_mode := mode, fl_size := sz, fl_data := a\<rparr>, h))"

definition a0_munmap :: "os \<Rightarrow> a0_file \<Rightarrow> history \<Rightarrow> a0_err \<times> a0_file \<times> history" where
  "a0_munmap os file h =
     (if fl_data file = 0 then (A0_MAKE_SYSERR EBADF, file, h)
      else
        let (r, h) = sys (\<lambda>h. k_munmap os h (fl_data file) (fl_size file)) (Munmap (fl_data file) (fl_size file)) h
        in case r of
             Some e \<Rightarrow> (A0_ERR_SYS e, file, h)
           | None \<Rightarrow> (A0_OK, file\<lparr>fl_size := 0, fl_data := 0\<rparr>, h))"

text \<open>Closing the descriptor on an error of \<^verbatim>\<open>a0_do_open\<close>.\<close>

definition drop_file :: "a0_file \<Rightarrow> history \<Rightarrow> a0_file \<times> history" where
  "drop_file file h = (file\<lparr>fl_fd := 0, fl_path := None\<rparr>, h @ [Close (fl_fd file)])"

text \<open>
  The second half of a round of the loop of \<^verbatim>\<open>a0_do_open\<close>, when there is no file: make one under
  another name and link it. The first component says whether the loop goes round again.
\<close>

definition a0_do_create ::
    "os \<Rightarrow> string \<Rightarrow> a0_file_options \<Rightarrow> a0_file \<Rightarrow> history \<Rightarrow> bool \<times> a0_err \<times> a0_file \<times> history" where
  "a0_do_create os path opts file h =
     (let (err, file, h) = a0_mktmp os (dirname path) (create_options opts) file h
      in if err \<noteq> A0_OK then (False, err, file, h)
         else
           let (err, file, h) = a0_mmap os (open_arena_mode opts) file h
           in if err \<noteq> A0_OK then let (file, h) = drop_file file h in (False, err, file, h)
              else
                let (err, file, h) = a0_tmp_move os path file h;
                    (file, h) = (if err \<noteq> A0_OK then drop_file file h else (file, h))
                in (A0_SYSERR err = Some EEXIST, err, file, h))"

definition a0_do_open_round ::
    "os \<Rightarrow> string \<Rightarrow> a0_file_options \<Rightarrow> a0_file \<Rightarrow> history \<Rightarrow> bool \<times> a0_err \<times> a0_file \<times> history" where
  "a0_do_open_round os path opts file h =
     (let mode = open_arena_mode opts; (err, file, h) = a0_open os path mode file h
      in if err = A0_OK then
           let (err, file, h) = a0_mmap os mode file h;
               (file, h) = (if err \<noteq> A0_OK then drop_file file h else (file, h))
           in (False, err, file, h)
         else if A0_SYSERR err \<noteq> Some ENOENT then (False, err, file, h)
         else a0_do_create os path opts file h)"

partial_function (option) a0_do_open ::
    "os \<Rightarrow> string \<Rightarrow> a0_file_options \<Rightarrow> a0_file \<Rightarrow> history \<Rightarrow> (a0_err \<times> a0_file \<times> history) option" where
  [code]: "a0_do_open os path opts file h =
     (let (again, err, file, h) = a0_do_open_round os path opts file h
      in if again then a0_do_open os path opts file h else Some (err, file, h))"

definition a0_file_open ::
    "os \<Rightarrow> environ \<Rightarrow> string option \<Rightarrow> a0_file_options option \<Rightarrow> a0_file \<Rightarrow> history \<Rightarrow> (a0_err \<times> a0_file \<times> history) option" where
  "a0_file_open os getenv path opts0 out h =
     (let opts = (case opts0 of None \<Rightarrow> A0_FILE_OPTIONS_DEFAULT | Some opts \<Rightarrow> opts)
      in case a0_abspath getenv path of
           Inl err \<Rightarrow> Some (err, out, h)
         | Inr filepath \<Rightarrow>
             (let (err, h) = a0_makedirs os filepath (cr_dir_mode (create_options opts)) h
              in if err \<noteq> A0_OK then Some (err, out, h) else a0_do_open os filepath opts out h))"

text \<open>\<^verbatim>\<open>a0_file_close\<close>, in a build without \<^verbatim>\<open>DEBUG\<close>.\<close>

definition a0_file_close :: "os \<Rightarrow> a0_file \<Rightarrow> history \<Rightarrow> a0_err \<times> a0_file \<times> history" where
  "a0_file_close os file h =
     (if fl_path file = None \<or> fl_data file = 0 then (A0_MAKE_SYSERR EBADF, file, h)
      else
        let (file, h) = drop_file file h
        in a0_munmap os file h)"

section \<open>Iterating over a directory\<close>

definition PATH_MAX :: nat where "PATH_MAX = 4096"

text \<open>
  \<open>it_path\<close> is what the buffer \<^verbatim>\<open>_path\<close> holds up to \<^verbatim>\<open>_path_len\<close>, of the \<open>PATH_MAX + 1\<close> bytes it has;
  what the last entry left behind that place is not read again. \<open>None\<close> is a write beyond the buffer.
\<close>

record a0_file_iter =
  it_path :: string
  it_dir :: nat

record a0_file_iter_entry =
  ent_fullpath :: string
  ent_filename :: string
  ent_d_type :: d_type

definition a0_file_iter_init ::
    "os \<Rightarrow> environ \<Rightarrow> string option \<Rightarrow> history \<Rightarrow> (a0_err + a0_file_iter) \<times> history" where
  "a0_file_iter_init os getenv path h =
     (case a0_abspath getenv path of
        Inl err \<Rightarrow> (Inl err, h)
      | Inr abspath \<Rightarrow>
          if length abspath > PATH_MAX then (Inl (A0_MAKE_SYSERR ENAMETOOLONG), h)
          else
            let buf = (if last abspath \<noteq> CHR ''/'' then abspath @ ''/'' else abspath);
                (st, h) = sys (\<lambda>h. k_lstat os h (the path)) (Lstat (the path)) h
            in case st of
                 Inl e \<Rightarrow> (Inl (A0_ERR_SYS e), h)
               | Inr st \<Rightarrow>
                   if \<not> st_isdir st then (Inl (A0_MAKE_SYSERR ENOTDIR), h)
                   else
                     let (d, h) = sys (\<lambda>h. k_opendir os h (the path)) (Opendir (the path)) h
                     in case d of
                          Inl e \<Rightarrow> (Inl (A0_MAKE_SYSERR e), h)
                        | Inr d \<Rightarrow> (Inr \<lparr>it_path = buf, it_dir = d\<rparr>, h))"

text \<open>The names \<^verbatim>\<open>.\<close> and \<^verbatim>\<open>..\<close> are skipped.\<close>

partial_function (option) iter_skip_dots :: "os \<Rightarrow> nat \<Rightarrow> history \<Rightarrow> ((string \<times> d_type) option \<times> history) option" where
  [code]: "iter_skip_dots os d h =
     (let (r, h) = sys (\<lambda>h. k_readdir os h d) (Readdir d) h
      in case r of
           None \<Rightarrow> Some (None, h)
         | Some (name, type) \<Rightarrow>
             if name = ''.'' \<or> name = ''..'' then iter_skip_dots os d h else Some (Some (name, type), h))"

definition a0_file_iter_next ::
    "os \<Rightarrow> a0_file_iter \<Rightarrow> history \<Rightarrow> ((a0_err + a0_file_iter_entry) \<times> history) option" where
  "a0_file_iter_next os iter h = do {
     (r, h) \<leftarrow> iter_skip_dots os (it_dir iter) h;
     case r of
       None \<Rightarrow> Some (Inl A0_ERR_ITER_DONE, h)
     | Some (name, type) \<Rightarrow>
         if length (it_path iter) + length name + 1 > PATH_MAX + 1 then None
         else Some (Inr \<lparr>ent_fullpath = it_path iter @ name, ent_filename = name, ent_d_type = type\<rparr>, h)
   }"

definition a0_file_iter_close :: "a0_file_iter \<Rightarrow> history \<Rightarrow> a0_err \<times> history" where
  "a0_file_iter_close iter h = (A0_OK, h @ [Closedir (it_dir iter)])"

section \<open>Removing\<close>

definition a0_file_remove :: "os \<Rightarrow> environ \<Rightarrow> string option \<Rightarrow> history \<Rightarrow> a0_err \<times> history" where
  "a0_file_remove os getenv path h =
     (case a0_abspath getenv path of
        Inl err \<Rightarrow> (err, h)
      | Inr abspath \<Rightarrow>
          (let (r, h) = sys (\<lambda>h. k_remove os h abspath) (Remove abspath) h in (syserr_of r, h)))"

text \<open>
  \<^verbatim>\<open>a0_file_remove_all\<close> and its loop in one recursion: without an iterator it begins, with one it goes
  round the loop.
\<close>

partial_function (option) remove_all_run ::
    "os \<Rightarrow> environ \<Rightarrow> string option \<Rightarrow> a0_file_iter option \<Rightarrow> history \<Rightarrow> (a0_err \<times> history) option" where
  [code]: "remove_all_run os getenv path iter h =
     (case iter of
        None \<Rightarrow>
          (let (r, h) = a0_file_iter_init os getenv path h
           in case r of
                Inl err \<Rightarrow> Some (err, h)
              | Inr iter \<Rightarrow> remove_all_run os getenv path (Some iter) h)
      | Some iter \<Rightarrow>
          Option.bind (a0_file_iter_next os iter h) (\<lambda>(r, h).
            case r of
              Inl _ \<Rightarrow>
                (let (err, h) = a0_file_remove os getenv path h; (_, h) = a0_file_iter_close iter h
                 in Some (err, h))
            | Inr entry \<Rightarrow>
                Option.bind
                  (if ent_d_type entry = DT_DIR then remove_all_run os getenv (Some (ent_fullpath entry)) None h
                   else Some (A0_OK, h))
                  (\<lambda>(_, h).
                     let (_, h) = a0_file_remove os getenv (Some (ent_fullpath entry)) h
                     in remove_all_run os getenv path (Some iter) h)))"

definition a0_file_remove_all :: "os \<Rightarrow> environ \<Rightarrow> string option \<Rightarrow> history \<Rightarrow> (a0_err \<times> history) option" where
  "a0_file_remove_all os getenv path h = remove_all_run os getenv path None h"

end
