(* ===== verification/Discovery.thy ===== *)
theory Discovery
  imports File Pathglob HashMap_Correct Writer
begin

text \<open>
  \<^verbatim>\<open>src/discovery.c\<close>: a thread that announces the files whose paths match a pattern, those that are
  there and those that appear. It watches the directories below the root of the pattern with
  inotify and keeps three hash maps. The callback of the client is an event of the history.

  \<open>None\<close> is undefined behaviour, or a call that does not return: among others the use of a
  directory iterator that could not be made, and of a watch descriptor that is not in the map.
\<close>

section \<open>State\<close>

text \<open>The keys of the two maps of paths are the bytes of the strings; their values are 0 in the source.\<close>

record a0_discovery =
  dc_pathglob :: a0_pathglob
  watch_map :: "(u32, string) a0_map"
  reverse_watch_map :: "(u8 list, int) a0_map"
  discovered_map :: "(u8 list, int) a0_map"
  epoll_fd :: int
  inotify_fd :: int
  close_fd :: int

definition EINTR :: errno where "EINTR = EOTHER 4"

section \<open>Watching and announcing\<close>

text \<open>
  How much of the pattern names directories that exist: the loop of \<^verbatim>\<open>a0_discovery_rootlen\<close> over the
  parts before the last. Each directory is looked up with the slash that ends its name.
\<close>

function rootlen_loop :: "os \<Rightarrow> a0_pathglob \<Rightarrow> nat \<Rightarrow> history \<Rightarrow> nat \<times> history" where
  "rootlen_loop os glob i h =
     (let start = part_data (glob_parts glob ! 0) - 1;
          exclude = part_data (glob_parts glob ! i) - start
      in if i + 1 < length (glob_parts glob) then
           if part_type (glob_parts glob ! i) \<noteq> A0_PATHGLOB_PART_TYPE_VERBATIM then (exclude, h)
           else
             let p = take (exclude + part_size (glob_parts glob ! i) + 1) (drop start (glob_path glob));
                 (err, h) = sys (\<lambda>h. k_stat os h p) (Stat p) h
             in (case err of
                   Inl _ \<Rightarrow> (exclude, h)
                 | Inr _ \<Rightarrow> rootlen_loop os glob (i + 1) h)
         else (part_data (glob_parts glob ! (length (glob_parts glob) - 1)) - start, h))"
  by pat_completeness auto
termination
  by (relation "measure (\<lambda>(_, glob, i, _). length (glob_parts glob) - i)") auto

declare rootlen_loop.simps [simp del]

definition a0_discovery_rootlen :: "os \<Rightarrow> a0_discovery \<Rightarrow> history \<Rightarrow> nat \<times> history" where
  "a0_discovery_rootlen os d h = rootlen_loop os (dc_pathglob d) 0 h"

definition a0_discovery_watch_path :: "os \<Rightarrow> string \<Rightarrow> a0_discovery \<Rightarrow> history \<Rightarrow> (a0_discovery \<times> history) option" where
  "a0_discovery_watch_path os path d h = do {
     already_watching \<leftarrow> a0_map_has (reverse_watch_map d) (str path);
     if already_watching then Some (d, h)
     else
       let (wd, h) = sys (\<lambda>h. k_add_watch os h (inotify_fd d) path) (Add_watch (inotify_fd d) path) h
       in case wd of
            Inl _ \<Rightarrow> Some (d, h)
          | Inr wd \<Rightarrow> do {
              (_, wm) \<leftarrow> a0_map_put (watch_map d) wd path;
              (_, rm) \<leftarrow> a0_map_put (reverse_watch_map d) (str path) 0;
              Some (d\<lparr>watch_map := wm, reverse_watch_map := rm\<rparr>, h)
            }
   }"

definition a0_discovery_announce :: "string \<Rightarrow> a0_discovery \<Rightarrow> history \<Rightarrow> (a0_discovery \<times> history) option" where
  "a0_discovery_announce path d h = do {
     contains \<leftarrow> a0_map_has (discovered_map d) (str path);
     if contains then Some (d, h)
     else do {
       (_, dm) \<leftarrow> a0_map_put (discovered_map d) (str path) 0;
       Some (d\<lparr>discovered_map := dm\<rparr>, h @ [Callback path])
     }
   }"

text \<open>The check that both callers make before they announce a file.\<close>

definition announce_if_match :: "environ \<Rightarrow> string \<Rightarrow> a0_discovery \<Rightarrow> history \<Rightarrow> (a0_discovery \<times> history) option" where
  "announce_if_match getenv path d h = do {
     r \<leftarrow> a0_pathglob_match getenv (dc_pathglob d) (Some path);
     if r = Inr True then a0_discovery_announce path d h else Some (d, h)
   }"

text \<open>
  \<^verbatim>\<open>a0_discovery_watch_recursive\<close> and its loop in one recursion: without an iterator it begins, with
  one it goes round the loop. Its directory is watched before it is listed.
\<close>

partial_function (option) watch_recursive_run ::
    "os \<Rightarrow> environ \<Rightarrow> string \<Rightarrow> a0_file_iter option \<Rightarrow> a0_discovery \<Rightarrow> history \<Rightarrow> (a0_discovery \<times> history) option" where
  [code]: "watch_recursive_run os getenv path iter d h =
     (case iter of
        None \<Rightarrow>
          Option.bind (a0_discovery_watch_path os path d h) (\<lambda>(d, h).
            let (r, h) = a0_file_iter_init os getenv (Some path) h
            in case r of
                 Inl _ \<Rightarrow> None
               | Inr iter \<Rightarrow> watch_recursive_run os getenv path (Some iter) d h)
      | Some iter \<Rightarrow>
          Option.bind (a0_file_iter_next os iter h) (\<lambda>(r, h).
            case r of
              Inl _ \<Rightarrow> Some (d, snd (a0_file_iter_close iter h))
            | Inr entry \<Rightarrow>
                Option.bind
                  (if ent_d_type entry = DT_DIR then watch_recursive_run os getenv (ent_fullpath entry) None d h
                   else if ent_d_type entry = DT_REG then announce_if_match getenv (ent_fullpath entry) d h
                   else Some (d, h))
                  (\<lambda>(d, h). watch_recursive_run os getenv path (Some iter) d h)))"

definition a0_discovery_watch_recursive ::
    "os \<Rightarrow> environ \<Rightarrow> string \<Rightarrow> a0_discovery \<Rightarrow> history \<Rightarrow> (a0_discovery \<times> history) option" where
  "a0_discovery_watch_recursive os getenv path d h = watch_recursive_run os getenv path None d h"

definition a0_discovery_watch_root :: "os \<Rightarrow> environ \<Rightarrow> a0_discovery \<Rightarrow> history \<Rightarrow> (a0_discovery \<times> history) option" where
  "a0_discovery_watch_root os getenv d h =
     (let (root_size, h) = a0_discovery_rootlen os d h
      in if root_size \<ge> PATH_MAX then None
         else a0_discovery_watch_recursive os getenv (take root_size (glob_path (dc_pathglob d))) d h)"

section \<open>Events\<close>

text \<open>One event of the buffer that inotify filled.\<close>

definition inotify_event_do ::
    "os \<Rightarrow> environ \<Rightarrow> inotify_event \<Rightarrow> a0_discovery \<Rightarrow> history \<Rightarrow> (a0_discovery \<times> history) option" where
  "inotify_event_do os getenv evt d h =
     (if evt_len evt = 0 then Some (d, h)
      else do {
        parent \<leftarrow> a0_map_get (watch_map d) (evt_wd evt);
        case parent of
          Inl _ \<Rightarrow> None
        | Inr parent \<Rightarrow>
            let parent_ends_with_slash = (last parent = CHR ''/'');
                abspath = parent @ (if parent_ends_with_slash then [] else ''/'') @ evt_name evt
            in if evt_isdir evt then a0_discovery_watch_recursive os getenv abspath d h
               else announce_if_match getenv abspath d h
      })"

fun inotify_events_do ::
    "os \<Rightarrow> environ \<Rightarrow> inotify_event list \<Rightarrow> a0_discovery \<Rightarrow> history \<Rightarrow> (a0_discovery \<times> history) option" where
  "inotify_events_do os getenv [] d h = Some (d, h)"
| "inotify_events_do os getenv (evt # evts) d h =
     Option.bind (inotify_event_do os getenv evt d h) (\<lambda>(d, h). inotify_events_do os getenv evts d h)"

definition a0_discovery_inotify_runone ::
    "os \<Rightarrow> environ \<Rightarrow> a0_discovery \<Rightarrow> history \<Rightarrow> (a0_err \<times> a0_discovery \<times> history) option" where
  "a0_discovery_inotify_runone os getenv d h =
     (let (r, h) = sys (\<lambda>h. k_inotify_read os h (inotify_fd d)) (Inotify_read (inotify_fd d)) h
      in case r of
           Inl e \<Rightarrow> if e = EAGAIN then Some (A0_OK, d, h) else Some (A0_MAKE_SYSERR e, d, h)
         | Inr evts \<Rightarrow> map_option (\<lambda>(d, h). (A0_OK, d, h)) (inotify_events_do os getenv evts d h))"

definition a0_discovery_epoll_runone ::
    "os \<Rightarrow> environ \<Rightarrow> a0_discovery \<Rightarrow> history \<Rightarrow> (a0_err \<times> a0_discovery \<times> history) option" where
  "a0_discovery_epoll_runone os getenv d h =
     (let (r, h) = sys (\<lambda>h. k_epoll_wait os h (epoll_fd d)) (Epoll_wait (epoll_fd d)) h
      in case r of
           Inl e \<Rightarrow> if e = EINTR then Some (A0_OK, d, h) else Some (A0_MAKE_SYSERR e, d, h)
         | Inr None \<Rightarrow> Some (A0_OK, d, h)
         | Inr (Some fd) \<Rightarrow>
             Option.bind
               (if fd = inotify_fd d then a0_discovery_inotify_runone os getenv d h else Some (A0_OK, d, h))
               (\<lambda>(err, d, h).
                  if err \<noteq> A0_OK then Some (err, d, h)
                  else if fd = close_fd d then Some (A0_ERR_ITER_DONE, d, h)
                  else Some (A0_OK, d, h)))"

section \<open>The thread\<close>

partial_function (option) discovery_thread_loop ::
    "os \<Rightarrow> environ \<Rightarrow> a0_discovery \<Rightarrow> history \<Rightarrow> (a0_discovery \<times> history) option" where
  [code]: "discovery_thread_loop os getenv d h =
     Option.bind (a0_discovery_epoll_runone os getenv d h) (\<lambda>(err, d, h).
       if err \<noteq> A0_OK then Some (d, h) else discovery_thread_loop os getenv d h)"

definition a0_discovery_thread :: "os \<Rightarrow> environ \<Rightarrow> a0_discovery \<Rightarrow> history \<Rightarrow> (a0_discovery \<times> history) option" where
  "a0_discovery_thread os getenv d h =
     Option.bind (a0_discovery_watch_root os getenv d h) (\<lambda>(d, h). discovery_thread_loop os getenv d h)"

text \<open>The states that the thread passes through, one after each round of its loop.\<close>

inductive thread_at :: "os \<Rightarrow> environ \<Rightarrow> a0_discovery \<Rightarrow> history \<Rightarrow> a0_discovery \<Rightarrow> history \<Rightarrow> bool"
  for os getenv d0 h0 where
  root: "a0_discovery_watch_root os getenv d0 h0 = Some (d, h) \<Longrightarrow> thread_at os getenv d0 h0 d h"
| round: "thread_at os getenv d0 h0 d h \<Longrightarrow> a0_discovery_epoll_runone os getenv d h = Some (err, d', h') \<Longrightarrow>
    thread_at os getenv d0 h0 d' h'"

section \<open>Starting and closing\<close>

text \<open>Starting the thread is left to the caller of the definition.\<close>

definition a0_discovery_init ::
    "os \<Rightarrow> environ \<Rightarrow> string option \<Rightarrow> history \<Rightarrow> ((a0_err + a0_discovery) \<times> history) option" where
  "a0_discovery_init os getenv path_pattern h = do {
     glob \<leftarrow> a0_pathglob_init getenv path_pattern;
     case glob of
       Inl err \<Rightarrow> Some (Inl err, h)
     | Inr glob \<Rightarrow>
         let (ep, h) = sys (k_epoll_create os) Epoll_create h;
             (cl, h) = sys (k_eventfd os) Eventfd h;
             h = h @ [Epoll_add ep cl];
             (ino, h) = sys (k_inotify_init os) Inotify_init h;
             h = h @ [Epoll_add ep ino]
         in Some (Inr \<lparr>dc_pathglob = glob,
              watch_map = a0_map_init a0_hash_u32_fn a0_cmp_u32_fn (0, []),
              reverse_watch_map = a0_map_init a0_hash_str_fn a0_cmp_str_fn ([], 0),
              discovered_map = a0_map_init a0_hash_str_fn a0_cmp_str_fn ([], 0),
              epoll_fd = ep, inotify_fd = ino, close_fd = cl\<rparr>, h)
   }"

text \<open>The loop that removes the watches.\<close>

partial_function (option) rm_watches :: "a0_discovery \<Rightarrow> nat \<Rightarrow> history \<Rightarrow> history option" where
  [code]: "rm_watches d iter h =
     Option.bind (a0_map_iterator_next (watch_map d) iter) (\<lambda>(r, iter).
       case r of
         Inl _ \<Rightarrow> Some h
       | Inr (key, _) \<Rightarrow> rm_watches d iter (h @ [Rm_watch (inotify_fd d) key]))"

text \<open>
  \<^verbatim>\<open>a0_discovery_close\<close>: wake the thread, wait for its end (\<open>joined\<close> is the state that it leaves),
  and release what was obtained.
\<close>

definition a0_discovery_close ::
    "(history \<Rightarrow> (a0_discovery \<times> history) option) \<Rightarrow> a0_discovery \<Rightarrow> history \<Rightarrow> (a0_err \<times> a0_discovery \<times> history) option" where
  "a0_discovery_close joined d h = do {
     (d, h) \<leftarrow> joined (h @ [Eventfd_write (close_fd d)]);
     h \<leftarrow> rm_watches d 0 h;
     Some (A0_OK,
       d\<lparr>watch_map := a0_map_close (watch_map d), reverse_watch_map := a0_map_close (reverse_watch_map d),
         discovered_map := a0_map_close (discovered_map d)\<rparr>,
       h @ [Close (epoll_fd d), Close (inotify_fd d), Close (close_fd d)])
   }"

end
