(* ===== verification/File_Correct.thy ===== *)
theory File_Correct
  imports File "HOL-Library.Multiset"
begin

text \<open>
  What \<^verbatim>\<open>src/file.c\<close> does to the file system, as statements about the events it adds to the history
  of the process. They hold whatever the operating system answers: in particular whatever other
  processes do at the same time.
\<close>

lemmas file_defs = a0_do_open_round_def a0_open_def a0_mktmp_def a0_mktmp_setup_def a0_tmp_move_def a0_mmap_def
  drop_file_def sys_def a0_joinpath_def A0_MAKE_SYSERR_def Let_def

section \<open>Publishing a file\<close>

definition TMP_NAME :: string where "TMP_NAME = ''.alephzero_mkstemp.XXXXXX''"

text \<open>The events that lead to a link under \<open>path\<close>, and the events of a file opened there.\<close>

definition preparation :: "string \<Rightarrow> a0_file_options \<Rightarrow> string \<Rightarrow> int \<Rightarrow> stat_t \<Rightarrow> nat \<Rightarrow> event list" where
  "preparation path opts tmp fd st a =
     [Mkstemp (dirname path @ ''/'' @ TMP_NAME) (Inr (fd, tmp)),
      Fchmod fd (cr_mode (create_options opts)) None,
      Ftruncate fd (cr_size (create_options opts)) None,
      Fstat fd (Inr st),
      Mmap fd (st_size st) (open_arena_mode opts = A0_ARENA_MODE_READONLY) (Inr a)]"

definition opening_of :: "string \<Rightarrow> a0_file_options \<Rightarrow> int \<Rightarrow> stat_t \<Rightarrow> nat \<Rightarrow> event list" where
  "opening_of path opts fd st a =
     [Open path (open_arena_mode opts = A0_ARENA_MODE_READONLY) (Inr fd),
      Fstat fd (Inr st),
      Mmap fd (st_size st) (open_arena_mode opts = A0_ARENA_MODE_READONLY) (Inr a)]"

text \<open>Every link is to \<open>path\<close>, from a temporary file that is complete at that moment.\<close>

definition links_ok :: "string \<Rightarrow> a0_file_options \<Rightarrow> event list \<Rightarrow> bool" where
  "links_ok path opts tr \<longleftrightarrow> (\<forall>pre tmp q r post. tr = pre @ Link tmp q r # post \<longrightarrow>
     q = path \<and> (\<exists>pre' fd st a. pre = pre' @ preparation path opts tmp fd st a))"

lemma links_ok_none: "(\<And>tmp q r. Link tmp q r \<notin> set tr) \<Longrightarrow> links_ok path opts tr"
  unfolding links_ok_def by (metis in_set_conv_decomp)

lemma links_ok_append:
  assumes "links_ok path opts tr1" "links_ok path opts tr2"
  shows "links_ok path opts (tr1 @ tr2)"
  unfolding links_ok_def
proof (intro allI impI)
  fix pre tmp q r post
  assume "tr1 @ tr2 = pre @ Link tmp q r # post"
  then show "q = path \<and> (\<exists>pre' fd st a. pre = pre' @ preparation path opts tmp fd st a)"
  proof (cases rule: append_split)
    case 1
    then show ?thesis using assms(1) unfolding links_ok_def by blast
  next
    case (2 us)
    then obtain pre' fd st a where "q = path" "us = pre' @ preparation path opts tmp fd st a"
      using assms(2) unfolding links_ok_def by blast
    then show ?thesis using 2(1) by (metis append.assoc)
  qed
qed

lemma links_ok_publish:
  assumes no: "\<forall>ev \<in> set (pre @ post). \<forall>t q r. ev \<noteq> Link t q r"
  shows "links_ok path opts (pre @ preparation path opts tmp fd st a @ Link tmp path r # post)"
  unfolding links_ok_def
proof (intro allI impI)
  fix pre1 t q s post1
  let ?p = "pre @ preparation path opts tmp fd st a"
  assume "pre @ preparation path opts tmp fd st a @ Link tmp path r # post = pre1 @ Link t q s # post1"
  then have eq: "?p @ Link tmp path r # post = pre1 @ Link t q s # post1" by simp
  have none: "Link t q s \<notin> set ?p" "Link t q s \<notin> set post" using no by (auto simp: preparation_def)
  moreover have "Link t q s \<in> set (?p @ Link tmp path r # post)" unfolding eq by simp
  ultimately have x: "Link tmp path r = Link t q s" by (simp only: set_append list.set Un_iff insert_iff) blast
  have "?p = pre1"
    using eq append_Cons_eq_iff [OF none, of pre1 post1] unfolding x by blast
  then show "q = path \<and> (\<exists>pre' fd st a. pre1 = pre' @ preparation path opts t fd st a)" using x by auto
qed

text \<open>The descriptors open after a run of events.\<close>

fun fds_step :: "event \<Rightarrow> int multiset \<Rightarrow> int multiset" where
  "fds_step (Open _ _ (Inr fd)) M = add_mset fd M"
| "fds_step (Mkstemp _ (Inr (fd, _))) M = add_mset fd M"
| "fds_step (Close fd) M = M - {#fd#}"
| "fds_step _ M = M"

definition fds_after :: "event list \<Rightarrow> int multiset \<Rightarrow> int multiset" where
  "fds_after tr M = fold fds_step tr M"

lemma fds_after_simps [simp]:
  "fds_after [] M = M"
  "fds_after (ev # tr) M = fds_after tr (fds_step ev M)"
  "fds_after (tr1 @ tr2) M = fds_after tr2 (fds_after tr1 M)"
  by (simp_all add: fds_after_def)

text \<open>What a successful call leaves.\<close>

definition opened :: "string \<Rightarrow> a0_file_options \<Rightarrow> a0_file \<Rightarrow> event list \<Rightarrow> bool" where
  "opened path opts file tr \<longleftrightarrow> (\<exists>pre fd st a.
     fl_path file = Some path \<and> fl_fd file = fd \<and> fl_stat file = st \<and> fl_data file = a \<and>
     fl_size file = st_size st \<and> fl_mode file = open_arena_mode opts \<and>
     (tr = pre @ opening_of path opts fd st a \<or>
      (\<exists>tmp u. tr = pre @ preparation path opts tmp fd st a @ [Link tmp path None, Unlink tmp u])))"

lemma opened_append: "opened path opts file tr2 \<Longrightarrow> opened path opts file (tr1 @ tr2)"
  unfolding opened_def by (metis append.assoc)

definition round_ok :: "string \<Rightarrow> a0_file_options \<Rightarrow> a0_err \<Rightarrow> a0_file \<Rightarrow> event list \<Rightarrow> bool" where
  "round_ok path opts err file tr \<longleftrightarrow> links_ok path opts tr \<and>
     (\<forall>M. fds_after tr M = (if err = A0_OK then add_mset (fl_fd file) M else M)) \<and>
     (err = A0_OK \<longrightarrow> opened path opts file tr)"

text \<open>Another process has linked its file first.\<close>

definition lost_race :: "string \<Rightarrow> event list \<Rightarrow> bool" where
  "lost_race path tr \<longleftrightarrow> (\<exists>pre tmp u fd. tr = pre @ [Link tmp path (Some EEXIST), Unlink tmp u, Close fd])"

lemma lost_race_append: "lost_race path tr2 \<Longrightarrow> lost_race path (tr1 @ tr2)"
  unfolding lost_race_def by (metis append.assoc)

lemma roundI:
  "links_ok path opts tr \<Longrightarrow> (\<And>M. fds_after tr M = (if err = A0_OK then add_mset (fl_fd file) M else M)) \<Longrightarrow>
   (err = A0_OK \<Longrightarrow> opened path opts file tr) \<Longrightarrow> round_ok path opts err file tr"
  by (simp add: round_ok_def)

text \<open>The four steps, by their events.\<close>

lemma a0_open_cases:
  assumes "a0_open os path mode file h = (err, file', h')"
  obtains fd st where "err = A0_OK" "file' = file\<lparr>fl_stat := st, fl_path := Some path, fl_fd := fd\<rparr>"
      "h' = h @ [Open path (mode = A0_ARENA_MODE_READONLY) (Inr fd), Fstat fd (Inr st)]"
    | e where "err = A0_ERR_SYS e" "file' = file" "h' = h @ [Open path (mode = A0_ARENA_MODE_READONLY) (Inl e)]"
    | e fd where "err = A0_ERR_SYS e" "file' = file"
      "h' = h @ [Open path (mode = A0_ARENA_MODE_READONLY) (Inr fd), Fstat fd (Inl e), Close fd]"
  using assms by (auto simp: a0_open_def sys_def A0_MAKE_SYSERR_def Let_def split: sum.splits)

lemma a0_mmap_cases:
  assumes "a0_mmap os mode file h = (err, file', h')"
  obtains a where "err = A0_OK" "file' = file\<lparr>fl_mode := mode, fl_size := st_size (fl_stat file), fl_data := a\<rparr>"
      "h' = h @ [Mmap (fl_fd file) (st_size (fl_stat file)) (mode = A0_ARENA_MODE_READONLY) (Inr a)]"
    | e where "err = A0_ERR_SYS e" "file' = file\<lparr>fl_mode := mode, fl_size := 0, fl_data := 0\<rparr>"
      "h' = h @ [Mmap (fl_fd file) (st_size (fl_stat file)) (mode = A0_ARENA_MODE_READONLY) (Inl e)]"
  using assms by (auto simp: a0_mmap_def sys_def A0_MAKE_SYSERR_def Let_def split: sum.splits)

lemma dirname_nonempty: "dirname path \<noteq> []"
  by (auto simp: dirname_def Let_def)

lemma a0_mktmp_cases:
  assumes "a0_mktmp os (dirname path) (create_options opts) file h = (err, file', h')"
  obtains fd tmp st where "err = A0_OK" "file' = file\<lparr>fl_fd := fd, fl_path := Some tmp, fl_stat := st\<rparr>"
      "\<And>a. h' @ [Mmap fd (st_size st) (open_arena_mode opts = A0_ARENA_MODE_READONLY) (Inr a)] =
         h @ preparation path opts tmp fd st a"
      "h' = h @ [Mkstemp (dirname path @ ''/'' @ TMP_NAME) (Inr (fd, tmp)), Fchmod fd (cr_mode (create_options opts)) None,
         Ftruncate fd (cr_size (create_options opts)) None, Fstat fd (Inr st)]"
    | e where "err = A0_ERR_SYS e" "h' = h @ [Mkstemp (dirname path @ ''/'' @ TMP_NAME) (Inl e)]"
    | e fd tmp evs where "err = A0_ERR_SYS e" "h' = h @ Mkstemp (dirname path @ ''/'' @ TMP_NAME) (Inr (fd, tmp)) # evs @ [Close fd]"
      "\<forall>ev \<in> set evs. (\<exists>m r. ev = Fchmod fd m r) \<or> (\<exists>n r. ev = Ftruncate fd n r) \<or> (\<exists>r. ev = Fstat fd r)"
proof -
  let ?t = "dirname path @ ''/'' @ TMP_NAME"
  have j: "a0_joinpath (dirname path) ''.alephzero_mkstemp.XXXXXX'' = Inr ?t"
    by (simp add: a0_joinpath_def dirname_nonempty TMP_NAME_def)
  show thesis
  proof (cases "k_mkstemp os h ?t")
    case (Inl e)
    then show thesis using assms j by (intro that(2) [of e]) (auto simp: a0_mktmp_def sys_def A0_MAKE_SYSERR_def)
  next
    case (Inr x)
    obtain fd tmp where x: "x = (fd, tmp)" by (cases x)
    obtain st h1 where s: "a0_mktmp_setup os (create_options opts) fd (h @ [Mkstemp ?t (Inr x)]) = (st, h1)" by fastforce
    show thesis
    proof (cases st)
      case st': (Inr st')
      have "h1 = h @ [Mkstemp ?t (Inr (fd, tmp)), Fchmod fd (cr_mode (create_options opts)) None,
         Ftruncate fd (cr_size (create_options opts)) None, Fstat fd (Inr st')]"
        using s x st' by (auto simp: a0_mktmp_setup_def sys_def Let_def split: option.splits)
      then show thesis
        using assms j Inr x s st' by (intro that(1)) (auto simp: a0_mktmp_def sys_def preparation_def)
    next
      case (Inl e)
      have "\<exists>evs. h1 = h @ Mkstemp ?t (Inr (fd, tmp)) # evs \<and>
          (\<forall>ev \<in> set evs. (\<exists>m r. ev = Fchmod fd m r) \<or> (\<exists>n r. ev = Ftruncate fd n r) \<or> (\<exists>r. ev = Fstat fd r))"
        using s x Inl by (auto simp: a0_mktmp_setup_def sys_def Let_def split: option.splits)
      then show thesis
        using assms j Inr x s Inl by (auto simp: a0_mktmp_def sys_def A0_MAKE_SYSERR_def intro: that(3))
    qed
  qed
qed

lemma create_correct:
  assumes "a0_do_create os path opts file h = (again, err, file', h')"
  shows "\<exists>tr. h' = h @ tr \<and> round_ok path opts err file' tr \<and> (again \<longrightarrow> err = A0_ERR_SYS EEXIST \<and> lost_race path tr)"
proof -
  let ?m = "open_arena_mode opts"
  obtain err1 f1 h1 where e1: "a0_mktmp os (dirname path) (create_options opts) file h = (err1, f1, h1)"
    by (metis prod_cases3)
  then show ?thesis
  proof (cases rule: a0_mktmp_cases)
    case (1 fd tmp st)
    obtain err2 f2 h2 where e2: "a0_mmap os ?m f1 h1 = (err2, f2, h2)" by (metis prod_cases3)
    then show ?thesis
    proof (cases rule: a0_mmap_cases)
      case m: (1 a)
      have h2: "h2 = h @ preparation path opts tmp fd st a"
        using 1(2) m(3) by (simp add: 1(3))
      obtain r u where mv: "a0_tmp_move os path f2 h2 =
          (syserr_of r, f2\<lparr>fl_path := Some path\<rparr>, h2 @ [Link tmp path r, Unlink tmp u])"
        using 1(2) m(2) by (simp add: a0_tmp_move_def sys_def Let_def)
      show ?thesis
      proof (cases r)
        case None
        have r: "again = False" "err = A0_OK" "file' = f2\<lparr>fl_path := Some path\<rparr>"
          "h' = h @ preparation path opts tmp fd st a @ [Link tmp path None, Unlink tmp u]"
          using assms e1 e2 mv None 1(1) m(1) h2 by (simp_all add: a0_do_create_def Let_def split: if_splits)
        have "round_ok path opts A0_OK file' (preparation path opts tmp fd st a @ [Link tmp path None, Unlink tmp u])"
          using 1(2) m(2) links_ok_publish [of "[]" "[Unlink tmp u]"]
          by (intro roundI) (auto simp: r(3) preparation_def opened_def)
        then show ?thesis using r by auto
      next
        case (Some e)
        have r: "again = (e = EEXIST)" "err = A0_ERR_SYS e"
          "h' = h @ preparation path opts tmp fd st a @ [Link tmp path r, Unlink tmp u, Close fd]"
          using assms e1 e2 mv Some 1(1,2) m(1,2) h2
          by (simp_all add: a0_do_create_def drop_file_def Let_def split: if_splits)
        have "round_ok path opts (A0_ERR_SYS e) file'
            (preparation path opts tmp fd st a @ [Link tmp path r, Unlink tmp u, Close fd])"
          using links_ok_publish [of "[]" "[Unlink tmp u, Close fd]"] by (intro roundI) (simp_all add: preparation_def)
        moreover have "again \<longrightarrow> lost_race path (preparation path opts tmp fd st a @ [Link tmp path r, Unlink tmp u, Close fd])"
          using r(1) Some by (auto simp: lost_race_def)
        ultimately show ?thesis using r by auto
      qed
    next
      case (2 e)
      let ?tr = "[Mkstemp (dirname path @ ''/'' @ TMP_NAME) (Inr (fd, tmp)), Fchmod fd (cr_mode (create_options opts)) None,
        Ftruncate fd (cr_size (create_options opts)) None, Fstat fd (Inr st),
        Mmap fd (st_size st) (?m = A0_ARENA_MODE_READONLY) (Inl e), Close fd]"
      have "again = False \<and> err = A0_ERR_SYS e \<and> h' = h @ ?tr"
        using assms e1 e2 1(1,2,4) 2 by (simp add: a0_do_create_def drop_file_def Let_def)
      moreover have "round_ok path opts (A0_ERR_SYS e) file' ?tr"
        by (intro roundI links_ok_none) simp_all
      ultimately show ?thesis by auto
    qed
  next
    case (2 e)
    then have "again = False \<and> err = A0_ERR_SYS e \<and> h' = h @ [Mkstemp (dirname path @ ''/'' @ TMP_NAME) (Inl e)]"
      using assms e1 by (simp add: a0_do_create_def)
    moreover have "round_ok path opts (A0_ERR_SYS e) file' [Mkstemp (dirname path @ ''/'' @ TMP_NAME) (Inl e)]"
      by (intro roundI links_ok_none) simp_all
    ultimately show ?thesis by auto
  next
    case (3 e fd tmp evs)
    let ?tr = "Mkstemp (dirname path @ ''/'' @ TMP_NAME) (Inr (fd, tmp)) # evs @ [Close fd]"
    have "again = False \<and> err = A0_ERR_SYS e \<and> h' = h @ ?tr"
      using assms e1 3 by (simp add: a0_do_create_def)
    moreover have "fds_after evs M = M" for M
      using 3(3) by (induction evs arbitrary: M) auto
    then have "round_ok path opts (A0_ERR_SYS e) file' ?tr"
      using 3(3) by (intro roundI links_ok_none) auto
    ultimately show ?thesis by auto
  qed
qed

lemma round_correct:
  assumes "a0_do_open_round os path opts file h = (again, err, file', h')"
  shows "\<exists>tr. h' = h @ tr \<and> round_ok path opts err file' tr \<and> (again \<longrightarrow> err = A0_ERR_SYS EEXIST \<and> lost_race path tr)"
proof -
  let ?m = "open_arena_mode opts" and ?ro = "open_arena_mode opts = A0_ARENA_MODE_READONLY"
  obtain err1 f1 h1 where e1: "a0_open os path ?m file h = (err1, f1, h1)" by (metis prod_cases3)
  have fails: "\<exists>tr. h' = h @ tr \<and> round_ok path opts err file' tr \<and> (again \<longrightarrow> err = A0_ERR_SYS EEXIST \<and> lost_race path tr)"
    if f: "err1 = A0_ERR_SYS e" "h1 = h @ tr1" "\<And>t q r. Link t q r \<notin> set tr1" "\<And>M. fds_after tr1 M = M" for e tr1
  proof (cases "e = ENOENT")
    case True
    then obtain tr where tr: "h' = h1 @ tr" "round_ok path opts err file' tr" "again \<longrightarrow> err = A0_ERR_SYS EEXIST \<and> lost_race path tr"
      using create_correct [of os path opts f1 h1] assms e1 f(1) by (auto simp: a0_do_open_round_def)
    moreover have "round_ok path opts err file' (tr1 @ tr)"
      using tr(2) links_ok_none [OF f(3)] f(4) by (auto simp: round_ok_def intro: links_ok_append opened_append)
    ultimately show ?thesis using f(2) by (auto intro: lost_race_append)
  next
    case False
    then have "again = False \<and> err = A0_ERR_SYS e \<and> h' = h @ tr1"
      using assms e1 f(1,2) by (simp add: a0_do_open_round_def)
    moreover have "round_ok path opts (A0_ERR_SYS e) file' tr1"
      using f(4) by (intro roundI links_ok_none f(3)) simp_all
    ultimately show ?thesis by auto
  qed
  from e1 show ?thesis
  proof (cases rule: a0_open_cases)
    case (1 fd st)
    obtain err2 f2 h2 where e2: "a0_mmap os ?m f1 h1 = (err2, f2, h2)" by (metis prod_cases3)
    then show ?thesis
    proof (cases rule: a0_mmap_cases)
      case m: (1 a)
      have "again = False \<and> err = A0_OK \<and> file' = f2 \<and> h' = h @ opening_of path opts fd st a"
        using assms e1 e2 1 m by (auto simp: a0_do_open_round_def opening_of_def Let_def)
      moreover have "round_ok path opts A0_OK f2 (opening_of path opts fd st a)"
        using 1(2) m(2) by (intro roundI links_ok_none) (auto simp: opening_of_def opened_def)
      ultimately show ?thesis by auto
    next
      case (2 e)
      let ?tr = "[Open path ?ro (Inr fd), Fstat fd (Inr st), Mmap fd (st_size st) ?ro (Inl e), Close fd]"
      have "again = False \<and> err = A0_ERR_SYS e \<and> h' = h @ ?tr"
        using assms e1 e2 1 2 by (auto simp: a0_do_open_round_def drop_file_def Let_def)
      moreover have "round_ok path opts (A0_ERR_SYS e) file' ?tr"
        by (intro roundI links_ok_none) simp_all
      ultimately show ?thesis by auto
    qed
  qed (use fails in fastforce)+
qed

text \<open>The loop.\<close>

lemma do_open_correct:
  assumes "a0_do_open os path opts file h = Some (err, file', h')"
  shows "\<exists>tr. h' = h @ tr \<and> round_ok path opts err file' tr"
proof -
  have "case y of (err, file', h') \<Rightarrow> \<exists>tr. h' = h @ tr \<and> round_ok path opts err file' tr"
    if "a0_do_open os path opts file h = Some y" for y
    using that
  proof (rule a0_do_open.raw_induct [rotated])
    fix run os path opts "file" h y
    assume IH: "\<And>os path opts file h y. run os path opts file h = Some y \<Longrightarrow>
        case y of (err, file', h') \<Rightarrow> \<exists>tr. h' = h @ tr \<and> round_ok path opts err file' tr"
      and step: "(let (again, err, file, h) = a0_do_open_round os path opts file h
        in if again then run os path opts file h else Some (err, file, h)) = Some y"
    obtain again err1 f1 h1 where r: "a0_do_open_round os path opts file h = (again, err1, f1, h1)"
      by (metis prod_cases4)
    obtain tr1 where tr1: "h1 = h @ tr1" "round_ok path opts err1 f1 tr1" "again \<longrightarrow> err1 = A0_ERR_SYS EEXIST \<and> lost_race path tr1"
      using round_correct [OF r] by blast
    show "case y of (err, file', h') \<Rightarrow> \<exists>tr. h' = h @ tr \<and> round_ok path opts err file' tr"
    proof (cases again)
      case True
      obtain err2 f2 h2 where y: "y = (err2, f2, h2)" by (metis prod_cases3)
      obtain tr2 where tr2: "h2 = h1 @ tr2" "round_ok path opts err2 f2 tr2"
        using IH [of os path opts f1 h1 y] step r True y by auto
      have "round_ok path opts err2 f2 (tr1 @ tr2)"
        using tr1(2,3) tr2(2) True by (auto simp: round_ok_def intro: links_ok_append opened_append)
      then show ?thesis using y tr1(1) tr2(1) by auto
    next
      case False
      then show ?thesis using step r tr1 by auto
    qed
  qed
  then show ?thesis using assms by fastforce
qed

text \<open>Without a lost race the loop ends.\<close>

lemma round_ends:
  assumes "k_open os h path (open_arena_mode opts = A0_ARENA_MODE_READONLY) \<noteq> Inl ENOENT"
    "\<And>h fd. k_fstat os h fd \<noteq> Inl ENOENT"
  shows "\<not> fst (a0_do_open_round os path opts file h)"
  using assms by (auto simp: a0_do_open_round_def a0_open_def sys_def A0_MAKE_SYSERR_def Let_def
      split: sum.splits prod.splits)

lemma do_open_returns:
  assumes "\<And>h tmp u fd ro. k_open os (h @ [Link tmp path (Some EEXIST), Unlink tmp u, Close fd]) path ro \<noteq> Inl ENOENT"
    "\<And>h fd. k_fstat os h fd \<noteq> Inl ENOENT"
  shows "\<exists>r. a0_do_open os path opts file h = Some r"
proof -
  obtain again err1 f1 h1 where r: "a0_do_open_round os path opts file h = (again, err1, f1, h1)"
    by (metis prod_cases4)
  show ?thesis
  proof (cases again)
    case True
    then obtain tr tmp u fd where "h1 = h @ tr @ [Link tmp path (Some EEXIST), Unlink tmp u, Close fd]"
      using round_correct [OF r] by (auto simp: lost_race_def)
    then have "k_open os h1 path ro \<noteq> Inl ENOENT" for ro
      using assms(1) [of "h @ tr"] by simp
    then have e: "\<not> fst (a0_do_open_round os path opts f1 h1)"
      using assms(2) by (intro round_ends)
    obtain again2 err2 f2 h2 where r2: "a0_do_open_round os path opts f1 h1 = (again2, err2, f2, h2)"
      by (metis prod_cases4)
    have "a0_do_open os path opts f1 h1 = Some (err2, f2, h2)"
      using e r2 by (subst a0_do_open.simps) simp
    then show ?thesis using r True by (subst a0_do_open.simps) simp
  next
    case False
    then show ?thesis using r by (subst a0_do_open.simps) simp
  qed
qed

section \<open>Directories\<close>

text \<open>The directories above a path, from the top: what comes before each slash that ends a name.\<close>

definition name_ends :: "string \<Rightarrow> nat \<Rightarrow> nat list" where
  "name_ends path start =
     filter (\<lambda>i. path ! i = CHR ''/'' \<and> start < i \<and> path ! (i - 1) \<noteq> CHR ''/'') [start..<length path]"

definition parents :: "string \<Rightarrow> string list" where
  "parents path = map (\<lambda>i. take i path) (name_ends path 0)"

definition stats :: "event list \<Rightarrow> string list" where
  "stats tr = concat (map (\<lambda>ev. case ev of Stat p _ \<Rightarrow> [p] | _ \<Rightarrow> []) tr)"

lemma stats_simps [simp]:
  "stats [] = []"
  "stats (ev # tr) = (case ev of Stat p _ \<Rightarrow> [p] | _ \<Rightarrow> []) @ stats tr"
  "stats (tr1 @ tr2) = stats tr1 @ stats tr2"
  by (simp_all add: stats_def)

text \<open>The directory \<open>p\<close> was there, was made, or was made by another process in between.\<close>

definition made :: "nat \<Rightarrow> event list \<Rightarrow> string \<Rightarrow> bool" where
  "made mode tr p \<longleftrightarrow> (\<exists>st. Stat p (Inr st) \<in> set tr \<and> st_isdir st) \<or>
     Mkdir p mode None \<in> set tr \<or> Mkdir p mode (Some EEXIST) \<in> set tr"

definition only_dirs :: "string list \<Rightarrow> nat \<Rightarrow> event list \<Rightarrow> bool" where
  "only_dirs ps mode tr \<longleftrightarrow> (\<forall>ev \<in> set tr. \<exists>p \<in> set ps. (\<exists>r. ev = Stat p r) \<or> (\<exists>r. ev = Mkdir p mode r))"

lemma mkdir_correct:
  assumes "a0_mkdir os p mode h = (err, h')"
  shows "\<exists>tr. h' = h @ tr \<and> stats tr = [p] \<and> only_dirs [p] mode tr \<and> (err = A0_OK \<longrightarrow> made mode tr p)"
  using assms by (auto simp: a0_mkdir_def sys_def Let_def made_def only_dirs_def A0_MAKE_SYSERR_def split: sum.splits if_splits)

lemma strchr_from_Some:
  assumes "strchr_from s start c = Some i"
  shows "start \<le> i" "i < length s" "s ! i = c" "\<And>j. start \<le> j \<Longrightarrow> j < i \<Longrightarrow> s ! j \<noteq> c"
proof -
  let ?n = "length (takeWhile (\<lambda>d. d \<noteq> c) (drop start s))"
  have i: "i = start + ?n" "start + ?n < length s" using assms by (auto simp: strchr_from_def Let_def split: if_splits)
  then show "start \<le> i" "i < length s" by simp_all
  have "?n < length (drop start s)" using i(2) by simp
  then have "drop start s ! ?n = c" using nth_length_takeWhile by fastforce
  then show "s ! i = c" using i by simp
  fix j assume j: "start \<le> j" "j < i"
  then have "takeWhile (\<lambda>d. d \<noteq> c) (drop start s) ! (j - start) \<in> set (takeWhile (\<lambda>d. d \<noteq> c) (drop start s))"
    using i by (intro nth_mem) simp
  then have "takeWhile (\<lambda>d. d \<noteq> c) (drop start s) ! (j - start) \<noteq> c" using set_takeWhileD by force
  then show "s ! j \<noteq> c" using j i by (simp add: takeWhile_nth)
qed

lemma strchr_from_None:
  assumes "strchr_from s start c = None" "start \<le> j" "j < length s"
  shows "s ! j \<noteq> c"
proof -
  have "\<not> start + length (takeWhile (\<lambda>d. d \<noteq> c) (drop start s)) < length s"
    using assms(1) by (auto simp: strchr_from_def Let_def split: if_splits)
  moreover have "length (takeWhile (\<lambda>d. d \<noteq> c) (drop start s)) \<le> length s - start"
    using length_takeWhile_le [of _ "drop start s"] by simp
  ultimately have "length (takeWhile (\<lambda>d. d \<noteq> c) (drop start s)) = length (drop start s)"
    using assms(2,3) by simp
  then have "takeWhile (\<lambda>d. d \<noteq> c) (drop start s) = drop start s"
    by (metis takeWhile_eq_take take_all_iff order_refl)
  moreover have "s ! j \<in> set (drop start s)"
    using assms(2,3) nth_mem [of "j - start" "drop start s"] by simp
  ultimately show ?thesis using set_takeWhileD by force
qed

lemma name_ends_step:
  assumes "strchr_from path start (CHR ''/'') = Some i"
  shows "name_ends path start = (if i \<noteq> start then [i] else []) @ name_ends path (i + 1)"
proof -
  let ?P = "\<lambda>a i. path ! i = CHR ''/'' \<and> a < i \<and> path ! (i - 1) \<noteq> CHR ''/''"
  note i = strchr_from_Some [OF assms]
  have "[start..<length path] = [start..<i] @ i # [i + 1..<length path]"
    using i(1,2) by (metis Suc_eq_plus1 le_add_diff_inverse less_or_eq_imp_le upt_add_eq_append upt_conv_Cons)
  then have "name_ends path start = filter (?P start) ([start..<i] @ i # [i + 1..<length path])"
    by (simp only: name_ends_def)
  also have "\<dots> = filter (?P start) [i] @ filter (?P start) [i + 1..<length path]"
    using i(4) by (simp add: filter_empty_conv)
  also have "filter (?P start) [i + 1..<length path] = name_ends path (i + 1)"
    unfolding name_ends_def
  proof (rule filter_cong [OF refl])
    fix j assume "j \<in> set [i + 1..<length path]"
    then show "?P start j = ?P (i + 1) j" using i(1,3) by (cases "j = i + 1") auto
  qed
  also have "filter (?P start) [i] = (if i \<noteq> start then [i] else [])"
    using i(1,3) i(4) [of "i - 1"] by auto
  finally show ?thesis .
qed

lemma only_dirs_append: "only_dirs ps mode tr1 \<Longrightarrow> only_dirs ps mode tr2 \<Longrightarrow> only_dirs ps mode (tr1 @ tr2)"
  unfolding only_dirs_def by auto

lemma only_dirs_mono: "only_dirs ps mode tr \<Longrightarrow> set ps \<subseteq> set qs \<Longrightarrow> only_dirs qs mode tr"
  unfolding only_dirs_def by blast

lemma made_append: "made mode tr1 p \<or> made mode tr2 p \<Longrightarrow> made mode (tr1 @ tr2) p"
  unfolding made_def by auto

lemma makedirs_loop_correct:
  assumes "a0_makedirs_loop os path mode start h = (err, h')"
  shows "\<exists>tr. h' = h @ tr \<and> (let ps = map (\<lambda>i. take i path) (name_ends path start) in
     only_dirs ps mode tr \<and> prefix (stats tr) ps \<and> (err = A0_OK \<longrightarrow> stats tr = ps \<and> (\<forall>p \<in> set ps. made mode tr p)))"
  using assms
proof (induction os path mode start h rule: a0_makedirs_loop.induct)
  case (1 os path mode start h)
  let ?ps = "\<lambda>start. map (\<lambda>i. take i path) (name_ends path start)"
  show ?case
  proof (cases "strchr_from path start (CHR ''/'')")
    case None
    then have "name_ends path start = []"
      using strchr_from_None [OF None] by (auto simp: name_ends_def filter_empty_conv)
    then show ?thesis
      using None 1(2) by (auto simp: a0_makedirs_loop.simps only_dirs_def)
  next
    case (Some i)
    let ?r = "if i \<noteq> start then a0_mkdir os (take i path) mode h else (A0_OK, h)"
    obtain e h1 where r: "?r = (e, h1)" by fastforce
    obtain tr1 where tr1: "h1 = h @ tr1" "stats tr1 = (if i \<noteq> start then [take i path] else [])"
        "only_dirs (if i \<noteq> start then [take i path] else []) mode tr1"
        "e = A0_OK \<longrightarrow> (\<forall>p \<in> set (if i \<noteq> start then [take i path] else []). made mode tr1 p)"
      using r mkdir_correct [of os "take i path" mode h e h1] by (auto simp: only_dirs_def split: if_splits)
    have ps: "?ps start = (if i \<noteq> start then [take i path] else []) @ ?ps (i + 1)"
      by (simp add: name_ends_step [OF Some])
    show ?thesis
    proof (cases "e = A0_OK")
      case True
      then have "a0_makedirs_loop os path mode (i + 1) h1 = (err, h')"
        using 1(2) Some r by (subst (asm) a0_makedirs_loop.simps) simp
      then obtain tr2 where tr2: "h' = h1 @ tr2" "only_dirs (?ps (i + 1)) mode tr2" "prefix (stats tr2) (?ps (i + 1))"
          "err = A0_OK \<longrightarrow> stats tr2 = ?ps (i + 1) \<and> (\<forall>p \<in> set (?ps (i + 1)). made mode tr2 p)"
        using 1(1) [OF Some r [symmetric] refl] True by (auto simp: Let_def)
      have "only_dirs (?ps start) mode (tr1 @ tr2)"
        using only_dirs_mono [OF tr1(3)] only_dirs_mono [OF tr2(2)] unfolding ps by (intro only_dirs_append) auto
      then show ?thesis
        using tr1 tr2 True unfolding ps Let_def by (intro exI [of _ "tr1 @ tr2"]) (auto intro: made_append)
    next
      case False
      then have "err = e \<and> h' = h1"
        using 1(2) Some r by (subst (asm) a0_makedirs_loop.simps) simp
      moreover have "only_dirs (?ps start) mode tr1"
        using only_dirs_mono [OF tr1(3)] unfolding ps by auto
      ultimately show ?thesis
        using tr1(1,2) False unfolding ps Let_def by (intro exI [of _ tr1]) auto
    qed
  qed
qed

text \<open>An operating system with one directory \<^verbatim>\<open>/d\<close> in which the file is not there until it is linked.\<close>

definition example_os :: os where
  "example_os = \<lparr>
     k_stat = \<lambda>h p. if p = ''/d'' then Inr \<lparr>st_isdir = True, st_size = 0\<rparr> else Inl ENOENT,
     k_mkdir = \<lambda>h p m. None,
     k_open = \<lambda>h p ro. if list_ex (\<lambda>ev. case ev of Link _ q _ \<Rightarrow> q = p | _ \<Rightarrow> False) h then Inr 4 else Inl ENOENT,
     k_fstat = \<lambda>h fd. Inr \<lparr>st_isdir = False, st_size = 64\<rparr>,
     k_mkstemp = \<lambda>h p. Inr (3, ''/d/tmp''),
     k_fchmod = \<lambda>h fd m. None,
     k_ftruncate = \<lambda>h fd n. None,
     k_link = \<lambda>h p q. None,
     k_unlink = \<lambda>h p. None,
     k_mmap = \<lambda>h fd n private. Inr 4096,
     k_munmap = \<lambda>h a n. None,
     k_lstat = \<lambda>h p. Inr \<lparr>st_isdir = True, st_size = 0\<rparr>,
     k_opendir = \<lambda>h p. Inr 7,
     k_readdir = \<lambda>h d. None,
     k_remove = \<lambda>h p. None,
     k_inotify_init = \<lambda>h. 5,
     k_add_watch = \<lambda>h fd p. Inr 1,
     k_eventfd = \<lambda>h. 6,
     k_epoll_create = \<lambda>h. 8,
     k_epoll_wait = \<lambda>h fd. Inr None,
     k_inotify_read = \<lambda>h fd. Inr []\<rparr>"

definition example_opts :: a0_file_options where
  "example_opts = A0_FILE_OPTIONS_DEFAULT\<lparr>create_options := \<lparr>cr_size = 64, cr_mode = 438, cr_dir_mode = 511\<rparr>\<rparr>"

definition no_file :: a0_file where
  "no_file = \<lparr>fl_path = None, fl_fd = 0, fl_stat = \<lparr>st_isdir = False, st_size = 0\<rparr>, fl_mode = A0_ARENA_MODE_SHARED,
     fl_data = 0, fl_size = 0\<rparr>"

section \<open>Opening a file\<close>

lemma makedirs_fds: "only_dirs ps mode tr \<Longrightarrow> fds_after tr M = M"
proof (induction tr arbitrary: M)
  case (Cons ev tr)
  then show ?case by (cases ev) (auto simp: only_dirs_def)
qed simp

lemma file_open_correct:
  assumes "a0_file_open os getenv path opts0 file h = Some (err, file', h')"
    "opts = (case opts0 of None \<Rightarrow> A0_FILE_OPTIONS_DEFAULT | Some opts \<Rightarrow> opts)"
  shows "(\<exists>e. a0_abspath getenv path = Inl e \<and> err = e \<and> h' = h \<and> err \<noteq> A0_OK) \<or>
    (\<exists>q tr. a0_abspath getenv path = Inr q \<and> h' = h @ tr \<and> round_ok q opts err file' tr)"
proof (cases "a0_abspath getenv path")
  case (Inl e)
  then have "e \<noteq> A0_OK"
    by (auto simp: a0_abspath_def a0_joinpath_def A0_MAKE_SYSERR_def Let_def split: option.splits if_splits)
  then show ?thesis using assms Inl by (simp add: a0_file_open_def)
next
  case (Inr q)
  obtain e1 h1 where m: "a0_makedirs os q (cr_dir_mode (create_options opts)) h = (e1, h1)" by fastforce
  obtain tr1 where tr1: "h1 = h @ tr1" "only_dirs (map (\<lambda>i. take i q) (name_ends q 0)) (cr_dir_mode (create_options opts)) tr1"
    using makedirs_loop_correct [OF m [unfolded a0_makedirs_def]] by (auto simp: Let_def)
  have t1: "links_ok q opts tr1" "\<And>M. fds_after tr1 M = M"
    using tr1(2) makedirs_fds [OF tr1(2)] by (auto simp: only_dirs_def intro: links_ok_none)
  show ?thesis
  proof (cases "e1 = A0_OK")
    case True
    then have "a0_do_open os q opts file h1 = Some (err, file', h')"
      using assms Inr m by (simp add: a0_file_open_def)
    then obtain tr2 where "h' = h1 @ tr2" "round_ok q opts err file' tr2" using do_open_correct by blast
    then show ?thesis
      using Inr tr1(1) t1 by (auto simp: round_ok_def intro!: exI [of _ "tr1 @ tr2"] intro: links_ok_append opened_append)
  next
    case False
    then show ?thesis using assms Inr m tr1(1) t1 by (auto simp: a0_file_open_def round_ok_def)
  qed
qed

definition example_open_result :: "a0_err \<times> a0_file \<times> history" where
  "example_open_result =
     (A0_OK, no_file\<lparr>fl_path := Some ''/d/f'', fl_fd := 3, fl_stat := \<lparr>st_isdir = False, st_size = 64\<rparr>,
        fl_data := 4096, fl_size := 64\<rparr>,
      [Stat ''/d'' (Inr \<lparr>st_isdir = True, st_size = 0\<rparr>), Open ''/d/f'' False (Inl ENOENT)] @
      preparation ''/d/f'' example_opts ''/d/tmp'' 3 \<lparr>st_isdir = False, st_size = 64\<rparr> 4096 @
      [Link ''/d/tmp'' ''/d/f'' None, Unlink ''/d/tmp'' None])"

lemma example_makedirs:
  "a0_makedirs example_os ''/d/f'' 511 [] = (A0_OK, [Stat ''/d'' (Inr \<lparr>st_isdir = True, st_size = 0\<rparr>)])"
  by (simp add: a0_makedirs_def a0_makedirs_loop.simps strchr_from_def Let_def a0_mkdir_def sys_def example_os_def)

lemma example_dirname: "dirname ''/d/f'' = ''/d''"
  by (simp add: dirname_def rstrip_slash_def Let_def)

lemma example_open:
  "a0_file_open example_os (\<lambda>_. None) (Some ''/d/f'') (Some example_opts) no_file [] = Some example_open_result"
proof -
  have "a0_do_open_round example_os ''/d/f'' example_opts no_file [Stat ''/d'' (Inr \<lparr>st_isdir = True, st_size = 0\<rparr>)] =
      (False, example_open_result)"
    by (simp add: file_defs a0_do_create_def example_dirname example_os_def example_opts_def A0_FILE_OPTIONS_DEFAULT_def
      no_file_def example_open_result_def preparation_def TMP_NAME_def)
  then show ?thesis
    by (simp add: a0_file_open_def a0_abspath_def example_makedirs a0_do_open.simps example_opts_def
      example_open_result_def)
qed

text \<open>
  C24. A file appears at its path complete or not at all, and no descriptor is lost. Whatever the system answers
  and whatever other processes do, every link that a call of \<^verbatim>\<open>a0_file_open\<close> makes is to the absolute
  path that was asked for, and comes right after the successful creation of a temporary file in the
  same directory, its change to the requested mode, its extension to the requested size and its mapping.
  Of all the descriptors that the call obtained, over all its attempts, exactly that of the file it hands out is
  open at its end, and none when it fails. When it succeeds, the file structure holds the descriptor,
  the status and the mapping, over the whole of its size, of a file that the call opened or linked last.
\<close>

theorem file_open_spec:
  assumes "a0_file_open os getenv path (Some opts) file h = Some (err, file', h')"
  shows "\<exists>tr. h' = h @ tr \<and>
     (\<forall>pre tmp q r post. tr = pre @ Link tmp q r # post \<longrightarrow>
        a0_abspath getenv path = Inr q \<and> (\<exists>pre' fd st a. pre = pre' @ preparation q opts tmp fd st a)) \<and>
     fds_after tr {#} = (if err = A0_OK then {#fl_fd file'#} else {#}) \<and>
     (err = A0_OK \<longrightarrow> (\<exists>q. a0_abspath getenv path = Inr q \<and> opened q opts file' tr))"
proof (cases "a0_abspath getenv path")
  case (Inr q)
  then obtain tr where tr: "h' = h @ tr" "round_ok q opts err file' tr"
    using file_open_correct [OF assms refl] by auto
  then have "\<forall>pre tmp p r post. tr = pre @ Link tmp p r # post \<longrightarrow>
      p = q \<and> (\<exists>pre' fd st a. pre = pre' @ preparation q opts tmp fd st a)"
    unfolding round_ok_def links_ok_def by blast
  then have "\<forall>pre tmp p r post. tr = pre @ Link tmp p r # post \<longrightarrow>
      a0_abspath getenv path = Inr p \<and> (\<exists>pre' fd st a. pre = pre' @ preparation p opts tmp fd st a)"
    using Inr by blast
  then show ?thesis
    using Inr tr by (intro exI [of _ tr]) (simp add: round_ok_def)
qed (use file_open_correct [OF assms refl] in auto)

theorem file_open_spec_witness:
  "\<exists>file' tr. a0_file_open example_os (\<lambda>_. None) (Some ''/d/f'') (Some example_opts) no_file [] = Some (A0_OK, file', tr) \<and>
     fds_after tr {#} = {#fl_fd file'#} \<and> opened ''/d/f'' example_opts file' tr"
proof -
  obtain file' tr where r: "example_open_result = (A0_OK, file', tr)" by (simp add: example_open_result_def)
  show ?thesis
    using file_open_spec [OF example_open [unfolded r]] example_open r by (auto simp: a0_abspath_def)
qed

text \<open>
  Opening ends. If a file that another process has just linked (which is why the own link failed)
  can be found by the next attempt, \<^verbatim>\<open>a0_file_open\<close> returns, whatever the other answers are.
\<close>

theorem file_open_returns:
  assumes "\<forall>h q tmp u fd ro. k_open os (h @ [Link tmp q (Some EEXIST), Unlink tmp u, Close fd]) q ro \<noteq> Inl ENOENT"
    "\<forall>h fd. k_fstat os h fd \<noteq> Inl ENOENT"
  shows "\<exists>r. a0_file_open os getenv path opts0 file h = Some r"
  using do_open_returns [of os] assms
  by (auto simp: a0_file_open_def Let_def split: sum.splits prod.splits)

theorem file_open_returns_witness:
  "\<exists>r. a0_file_open example_os (\<lambda>_. None) (Some ''/e/x/f'') None no_file [] = Some r"
  by (rule file_open_returns) (simp_all add: example_os_def)

text \<open>
  The directories of a path are made from the top. \<^verbatim>\<open>a0_makedirs\<close> looks at the directories above the
  path in the order of the path, stops at the first that it cannot have, and touches nothing else;
  when it succeeds each of them was there, was made with the requested mode, or was made by another
  process at the same time.
\<close>

theorem makedirs_spec:
  "\<exists>tr. snd (a0_makedirs os path mode h) = h @ tr \<and> only_dirs (parents path) mode tr \<and>
     prefix (stats tr) (parents path) \<and>
     (if fst (a0_makedirs os path mode h) = A0_OK
      then stats tr = parents path \<and> list_all (made mode tr) (parents path) else True)"
  using makedirs_loop_correct [of os path mode 0 h "fst (a0_makedirs os path mode h)" "snd (a0_makedirs os path mode h)"]
  by (auto simp: a0_makedirs_def parents_def list_all_iff Let_def)


end
