(* ===== verification/File_Remove.thy ===== *)
theory File_Remove
  imports File_Correct
begin

text \<open>
  \<^verbatim>\<open>a0_file_remove_all\<close>: what it removes, and that it leaves nothing out. Again the statements are about
  the events of the call, whatever the directories hold and whatever the system answers.
\<close>

definition is_dots :: "string \<Rightarrow> bool" where
  "is_dots n \<longleftrightarrow> n = ''.'' \<or> n = ''..''"

definition slash :: "string \<Rightarrow> string" where
  "slash d = (if last d \<noteq> CHR ''/'' then d @ ''/'' else d)"

definition child :: "string \<Rightarrow> string \<Rightarrow> string" where
  "child d n = slash d @ n"

definition is_abs :: "string \<Rightarrow> bool" where
  "is_abs p \<longleftrightarrow> p \<noteq> [] \<and> hd p = CHR ''/''"

lemma is_abs_child: "is_abs d \<Longrightarrow> is_abs (child d n)"
  by (auto simp: is_abs_def child_def slash_def)

lemma is_abs_abspath: "is_abs p \<Longrightarrow> a0_abspath getenv (Some p) = Inr p"
  by (cases p) (simp_all add: is_abs_def a0_abspath_def)

section \<open>Directory streams\<close>

text \<open>The directory that handle \<open>k\<close> is open for, and how many entries were read from it since.\<close>

definition open_step :: "nat \<Rightarrow> event \<Rightarrow> (string \<times> nat) option \<Rightarrow> (string \<times> nat) option" where
  "open_step k ev s =
     (case ev of
        Opendir d (Inr k') \<Rightarrow> if k' = k then Some (d, 0) else s
      | Closedir k' \<Rightarrow> if k' = k then None else s
      | Readdir k' _ \<Rightarrow> if k' = k then map_option (map_prod id Suc) s else s
      | _ \<Rightarrow> s)"

definition stream :: "history \<Rightarrow> nat \<Rightarrow> (string \<times> nat) option" where
  "stream h k = fold (open_step k) h None"

definition dir_of :: "history \<Rightarrow> nat \<Rightarrow> string option" where
  "dir_of h k = map_option fst (stream h k)"

lemma stream_append: "stream (h @ tr) k = fold (open_step k) tr (stream h k)"
  by (simp add: stream_def)

text \<open>A stretch of the history that leaves the handle alone.\<close>

definition untouched :: "nat \<Rightarrow> event list \<Rightarrow> bool" where
  "untouched k tr \<longleftrightarrow> (\<forall>ev \<in> set tr. (\<forall>d. ev \<noteq> Opendir d (Inr k)) \<and> ev \<noteq> Closedir k \<and> (\<forall>r. ev \<noteq> Readdir k r))"

lemma untouched_simps [simp]:
  "untouched k []" "untouched k (tr1 @ tr2) \<longleftrightarrow> untouched k tr1 \<and> untouched k tr2"
  "untouched k (Remove q r # tr) \<longleftrightarrow> untouched k tr" "untouched k (Lstat q s # tr) \<longleftrightarrow> untouched k tr"
  "untouched k (Opendir q (Inl e) # tr) \<longleftrightarrow> untouched k tr"
  "untouched k (Opendir q (Inr k') # tr) \<longleftrightarrow> k' \<noteq> k \<and> untouched k tr"
  "untouched k (Closedir k' # tr) \<longleftrightarrow> k' \<noteq> k \<and> untouched k tr"
  "untouched k (Readdir k' r' # tr) \<longleftrightarrow> k' \<noteq> k \<and> untouched k tr"
  by (auto simp: untouched_def)

lemma stream_untouched: "untouched k tr \<Longrightarrow> stream (h @ tr) k = stream h k"
proof (induction tr arbitrary: h)
  case (Cons ev tr)
  then have "stream (h @ [ev]) k = stream h k"
    by (auto simp: stream_append open_step_def untouched_def split: event.splits sum.splits)
  then show ?case using Cons.IH [of "h @ [ev]"] Cons.prems by (simp add: untouched_def)
qed simp

lemma stream_read: "stream (h @ [Readdir k r]) k = map_option (map_prod id Suc) (stream h k)"
  by (simp add: stream_append open_step_def)

lemma dir_untouched: "untouched k tr \<Longrightarrow> dir_of (h @ tr) k = dir_of h k"
  by (simp add: dir_of_def stream_untouched)

lemma dir_read: "dir_of (h @ [Readdir k' r]) k = dir_of h k"
  by (simp add: dir_of_def stream_append open_step_def option.map_comp comp_def)

lemma dir_reads: "\<forall>ev \<in> set tr. \<exists>k' r. ev = Readdir k' r \<Longrightarrow> dir_of (h @ tr) k = dir_of h k"
proof (induction tr arbitrary: h)
  case (Cons ev tr)
  then obtain k' r where "ev = Readdir k' r" by auto
  then have "dir_of (h @ [ev]) k = dir_of h k" by (simp add: dir_read)
  then show ?case using Cons.IH [of "h @ [ev]"] Cons.prems by simp
qed simp

lemma stream_opened: "dir_of h k = Some d \<Longrightarrow> Opendir d (Inr k) \<in> set h"
proof (induction h rule: rev_induct)
  case (snoc ev h)
  then show ?case
    by (auto simp: dir_of_def stream_append open_step_def split: event.splits sum.splits if_splits)
qed (simp add: dir_of_def stream_def)

text \<open>What \<^verbatim>\<open>opendir(3)\<close> documents: it makes a new stream, with a handle that no open stream has.\<close>

definition new_streams :: "os \<Rightarrow> bool" where
  "new_streams os \<longleftrightarrow> (\<forall>h d k. k_opendir os h d = Inr k \<longrightarrow> dir_of h k = None)"

section \<open>What a removal may touch\<close>

text \<open>
  \<open>shown h tr d n ty\<close>: in the course of \<open>tr\<close>, after \<open>h\<close>, a listing of the directory \<open>d\<close> showed the entry \<open>n\<close>.
  \<open>under h tr p d\<close>: the directory \<open>d\<close> is \<open>p\<close>, or was shown as a directory in one below \<open>p\<close>: never
  through a symbolic link, never upwards.
\<close>

definition shown :: "history \<Rightarrow> event list \<Rightarrow> string \<Rightarrow> string \<Rightarrow> d_type \<Rightarrow> bool" where
  "shown h tr d n ty \<longleftrightarrow>
     (\<exists>pre k post. tr = pre @ Readdir k (Some (n, ty)) # post \<and> dir_of (h @ pre) k = Some d) \<and> \<not> is_dots n"

inductive under :: "history \<Rightarrow> event list \<Rightarrow> string \<Rightarrow> string \<Rightarrow> bool" for h tr where
  self: "under h tr p p"
| step: "under h tr p d \<Longrightarrow> shown h tr d n DT_DIR \<Longrightarrow> under h tr p (child d n)"

definition victim :: "history \<Rightarrow> event list \<Rightarrow> string \<Rightarrow> string \<Rightarrow> bool" where
  "victim h tr p q \<longleftrightarrow> q = p \<or> (\<exists>d n ty. under h tr p d \<and> shown h tr d n ty \<and> q = child d n)"

lemma shown_later: "shown h tr d n ty \<Longrightarrow> shown h (tr @ tr') d n ty"
  unfolding shown_def by (metis append.assoc append_Cons)

lemma shown_before: "shown (h @ tr) tr' d n ty \<Longrightarrow> shown h (tr @ tr') d n ty"
  unfolding shown_def by (metis append.assoc)

lemma under_shown:
  assumes "under h tr p d" "\<And>d n ty. shown h tr d n ty \<Longrightarrow> shown h' tr' d n ty"
  shows "under h' tr' p d"
  using assms(1) by (induction rule: under.induct) (blast intro: under.intros assms(2))+

lemma under_trans [trans]: "under h tr q d \<Longrightarrow> under h tr p q \<Longrightarrow> under h tr p d"
  by (induction rule: under.induct) (blast intro: under.intros)+

lemma victim_shown:
  assumes "victim h tr p q" "\<And>d n ty. shown h tr d n ty \<Longrightarrow> shown h' tr' d n ty"
  shows "victim h' tr' p q"
  using assms under_shown unfolding victim_def by metis

lemma victim_child: "victim h tr (child p n) q \<Longrightarrow> shown h tr p n DT_DIR \<Longrightarrow> victim h tr p q"
  unfolding victim_def by (metis under.intros under_trans)

text \<open>Every removal and every listing is covered by what was shown before it.\<close>

definition rm_safe :: "history \<Rightarrow> event list \<Rightarrow> string \<Rightarrow> event list \<Rightarrow> bool" where
  "rm_safe h c p tr \<longleftrightarrow> (\<forall>pre ev post. tr = pre @ ev # post \<longrightarrow>
     (\<forall>q r. ev = Remove q r \<longrightarrow> victim h (c @ pre) p q) \<and> (\<forall>q r. ev = Opendir q r \<longrightarrow> under h (c @ pre) p q))"

lemma rm_safe_quiet:
  "(\<And>ev. ev \<in> set tr \<Longrightarrow> (\<forall>q r. ev \<noteq> Remove q r) \<and> (\<forall>q r. ev = Opendir q r \<longrightarrow> q = p)) \<Longrightarrow> rm_safe h c p tr"
  unfolding rm_safe_def by (metis in_set_conv_decomp under.self)

lemma rm_safe_Remove: "victim h c p q \<Longrightarrow> rm_safe h c p [Remove q r]"
  by (auto simp: rm_safe_def Cons_eq_append_conv)

lemma rm_safe_append:
  assumes "rm_safe h c p tr1" "rm_safe h (c @ tr1) p tr2"
  shows "rm_safe h c p (tr1 @ tr2)"
  unfolding rm_safe_def
proof (intro allI impI)
  fix pre ev post
  assume "tr1 @ tr2 = pre @ ev # post"
  then show "(\<forall>q r. ev = Remove q r \<longrightarrow> victim h (c @ pre) p q) \<and> (\<forall>q r. ev = Opendir q r \<longrightarrow> under h (c @ pre) p q)"
  proof (cases rule: append_split)
    case (1 us)
    from assms(1) [unfolded rm_safe_def, rule_format, OF 1(1)] show ?thesis by blast
  next
    case (2 us)
    from assms(2) [unfolded rm_safe_def, rule_format, OF 2(2)] show ?thesis by (simp add: 2(1))
  qed
qed

lemma rm_safe_before:
  assumes "rm_safe (h @ c) [] p tr"
  shows "rm_safe h c p tr"
  unfolding rm_safe_def
proof (intro allI impI)
  fix pre ev post
  assume "tr = pre @ ev # post"
  from assms [unfolded rm_safe_def, rule_format, OF this]
  have "(\<forall>q r. ev = Remove q r \<longrightarrow> victim (h @ c) pre p q) \<and> (\<forall>q r. ev = Opendir q r \<longrightarrow> under (h @ c) pre p q)"
    by simp
  then show "(\<forall>q r. ev = Remove q r \<longrightarrow> victim h (c @ pre) p q) \<and> (\<forall>q r. ev = Opendir q r \<longrightarrow> under h (c @ pre) p q)"
    using victim_shown under_shown shown_before by metis
qed

lemma rm_safe_child:
  assumes "rm_safe h c (child p n) tr" "shown h c p n DT_DIR"
  shows "rm_safe h c p tr"
  unfolding rm_safe_def
proof (intro allI impI)
  fix pre ev post
  assume tr: "tr = pre @ ev # post"
  have s: "shown h (c @ pre) p n DT_DIR" by (rule shown_later [OF assms(2)])
  then have u: "under h (c @ pre) p (child p n)" using under.intros by blast
  from assms(1) [unfolded rm_safe_def, rule_format, OF tr]
  show "(\<forall>q r. ev = Remove q r \<longrightarrow> victim h (c @ pre) p q) \<and> (\<forall>q r. ev = Opendir q r \<longrightarrow> under h (c @ pre) p q)"
    using victim_child [OF _ s] under_trans [OF _ u] by blast
qed

text \<open>Each entry that a listing shows is removed later.\<close>

definition rm_complete :: "history \<Rightarrow> event list \<Rightarrow> bool" where
  "rm_complete h tr \<longleftrightarrow> (\<forall>pre k n ty post. tr = pre @ Readdir k (Some (n, ty)) # post \<and> \<not> is_dots n \<longrightarrow>
     (\<exists>d r. dir_of (h @ pre) k = Some d \<and> Remove (child d n) r \<in> set post))"

lemma rm_complete_none:
  "(\<And>k n ty. Readdir k (Some (n, ty)) \<in> set tr \<Longrightarrow> is_dots n) \<Longrightarrow> rm_complete h tr"
  unfolding rm_complete_def by (metis in_set_conv_decomp)

lemma rm_complete_append:
  assumes "rm_complete h tr1" "rm_complete (h @ tr1) tr2"
  shows "rm_complete h (tr1 @ tr2)"
  unfolding rm_complete_def
proof (intro allI impI)
  fix pre k n ty post
  assume a: "tr1 @ tr2 = pre @ Readdir k (Some (n, ty)) # post \<and> \<not> is_dots n"
  then have "tr1 @ tr2 = pre @ Readdir k (Some (n, ty)) # post" by simp
  then show "\<exists>d r. dir_of (h @ pre) k = Some d \<and> Remove (child d n) r \<in> set post"
  proof (cases rule: append_split)
    case (1 us)
    then have "tr1 = pre @ Readdir k (Some (n, ty)) # us \<and> \<not> is_dots n" using a by simp
    from assms(1) [unfolded rm_complete_def, rule_format, OF this] show ?thesis using 1(2) by auto
  next
    case (2 us)
    then have "tr2 = us @ Readdir k (Some (n, ty)) # post \<and> \<not> is_dots n" using a by simp
    from assms(2) [unfolded rm_complete_def, rule_format, OF this] show ?thesis using 2(1) by auto
  qed
qed

lemma rm_complete_Cons:
  assumes "dir_of h k = Some d" "Remove (child d n) r \<in> set tr" "rm_complete (h @ [Readdir k (Some (n, ty))]) tr"
  shows "rm_complete h (Readdir k (Some (n, ty)) # tr)"
  unfolding rm_complete_def
proof (intro allI impI)
  fix pre k' n' ty' post
  assume a: "Readdir k (Some (n, ty)) # tr = pre @ Readdir k' (Some (n', ty')) # post \<and> \<not> is_dots n'"
  show "\<exists>d r. dir_of (h @ pre) k' = Some d \<and> Remove (child d n') r \<in> set post"
  proof (cases pre)
    case Nil
    then show ?thesis using a assms(1,2) by auto
  next
    case (Cons x pre')
    then have x: "tr = pre' @ Readdir k' (Some (n', ty')) # post \<and> \<not> is_dots n'" "x = Readdir k (Some (n, ty))"
      using a by auto
    from assms(3) [unfolded rm_complete_def, rule_format, OF x(1)] show ?thesis using Cons x(2) by simp
  qed
qed

section \<open>Iteration\<close>

lemma iter_skip_dots_events:
  assumes "iter_skip_dots os d h = Some (r, h')"
  shows "\<exists>dots. h' = h @ dots @ [Readdir d r] \<and> (\<forall>ev \<in> set dots. \<exists>n ty. ev = Readdir d (Some (n, ty)) \<and> is_dots n) \<and>
     (case r of None \<Rightarrow> True | Some (n, ty) \<Rightarrow> \<not> is_dots n) \<and> k_readdir os (h @ dots) d = r"
proof -
  let ?P = "\<lambda>os d h y. \<exists>dots. snd y = h @ dots @ [Readdir d (fst y)] \<and>
     (\<forall>ev \<in> set dots. \<exists>n ty. ev = Readdir d (Some (n, ty)) \<and> is_dots n) \<and>
     (case fst y of None \<Rightarrow> True | Some (n, ty) \<Rightarrow> \<not> is_dots n) \<and> k_readdir os (h @ dots) d = fst y"
  have "?P os d h (r, h')"
    using assms
  proof (rule iter_skip_dots.raw_induct [where P = ?P, rotated])
    fix run :: "os \<Rightarrow> nat \<Rightarrow> history \<Rightarrow> ((string \<times> d_type) option \<times> history) option" and os d h y
    assume IH: "\<And>os d h y. run os d h = Some y \<Longrightarrow> ?P os d h y"
      and step: "(let (r, h) = sys (\<lambda>h. k_readdir os h d) (Readdir d) h
      in case r of
           None \<Rightarrow> Some (None, h)
         | Some (name, type) \<Rightarrow>
             if name = ''.'' \<or> name = ''..'' then run os d h else Some (Some (name, type), h)) = Some y"
    show "?P os d h y"
    proof (cases "k_readdir os h d")
      case None
      then show ?thesis using step by (auto simp: sys_def)
    next
      case (Some x)
      obtain n ty where x: "x = (n, ty)" by (cases x)
      show ?thesis
      proof (cases "is_dots n")
        case True
        then have "run os d (h @ [Readdir d (Some x)]) = Some y"
          using step Some x by (auto simp: sys_def is_dots_def)
        from IH [OF this] obtain dots where "snd y = (h @ [Readdir d (Some x)]) @ dots @ [Readdir d (fst y)]"
            "\<forall>ev \<in> set dots. \<exists>n ty. ev = Readdir d (Some (n, ty)) \<and> is_dots n"
            "case fst y of None \<Rightarrow> True | Some (n, ty) \<Rightarrow> \<not> is_dots n"
            "k_readdir os ((h @ [Readdir d (Some x)]) @ dots) d = fst y"
          by blast
        then show ?thesis using x True by (intro exI [of _ "Readdir d (Some x) # dots"]) auto
      next
        case False
        then show ?thesis using step Some x by (auto simp: sys_def is_dots_def)
      qed
    qed
  qed
  then show ?thesis by simp
qed

lemma iter_next_events:
  assumes "a0_file_iter_next os iter h = Some (r, h')"
  obtains dots where "\<forall>ev \<in> set dots. \<exists>n ty. ev = Readdir (it_dir iter) (Some (n, ty)) \<and> is_dots n"
      "h' = h @ dots @ [Readdir (it_dir iter) None]" "r = Inl A0_ERR_ITER_DONE"
    | dots n ty where "\<forall>ev \<in> set dots. \<exists>n ty. ev = Readdir (it_dir iter) (Some (n, ty)) \<and> is_dots n"
      "h' = h @ dots @ [Readdir (it_dir iter) (Some (n, ty))]" "\<not> is_dots n"
      "r = Inr \<lparr>ent_fullpath = it_path iter @ n, ent_filename = n, ent_d_type = ty\<rparr>"
      "k_readdir os (h @ dots) (it_dir iter) = Some (n, ty)"
proof -
  obtain x h1 where s: "iter_skip_dots os (it_dir iter) h = Some (x, h1)"
    using assms by (auto simp: a0_file_iter_next_def bind_eq_Some_conv)
  obtain dots where dots: "h1 = h @ dots @ [Readdir (it_dir iter) x]"
      "\<forall>ev \<in> set dots. \<exists>n ty. ev = Readdir (it_dir iter) (Some (n, ty)) \<and> is_dots n"
      "case x of None \<Rightarrow> True | Some (n, ty) \<Rightarrow> \<not> is_dots n" "k_readdir os (h @ dots) (it_dir iter) = x"
    using iter_skip_dots_events [OF s] by blast
  show thesis
  proof (cases x)
    case None
    then show thesis using assms s dots by (intro that(1) [of dots]) (auto simp: a0_file_iter_next_def)
  next
    case (Some y)
    obtain n ty where y: "y = (n, ty)" by (cases y)
    have "h' = h1 \<and> r = Inr \<lparr>ent_fullpath = it_path iter @ n, ent_filename = n, ent_d_type = ty\<rparr>"
      using assms s Some y by (simp add: a0_file_iter_next_def split: if_splits)
    then show thesis using dots Some y by (intro that(2) [of dots n ty]) auto
  qed
qed

section \<open>Removing\<close>

text \<open>The handles a run owns from the start; the end of a run: the listing was exhausted, then the directory itself went.\<close>

definition owned :: "a0_file_iter option \<Rightarrow> nat set" where
  "owned iter = (case iter of None \<Rightarrow> {} | Some it \<Rightarrow> {it_dir it})"

definition rm_end :: "history \<Rightarrow> string \<Rightarrow> a0_err \<Rightarrow> event list \<Rightarrow> bool" where
  "rm_end h p err tr \<longleftrightarrow> (\<exists>pre k r. dir_of (h @ pre) k = Some p \<and>
     tr = pre @ [Readdir k None, Remove p r, Closedir k] \<and> err = syserr_of r)"

definition keeps_streams :: "history \<Rightarrow> nat set \<Rightarrow> event list \<Rightarrow> bool" where
  "keeps_streams h K tr \<longleftrightarrow> (\<forall>k. dir_of h k \<noteq> None \<and> k \<notin> K \<longrightarrow> untouched k tr)"

definition rm_ok :: "history \<Rightarrow> string \<Rightarrow> a0_file_iter option \<Rightarrow> a0_err \<Rightarrow> event list \<Rightarrow> bool" where
  "rm_ok h p iter err tr \<longleftrightarrow> rm_safe h [] p tr \<and> rm_complete h tr \<and> keeps_streams h (owned iter) tr \<and>
     (rm_end h p err tr \<or> iter = None \<and> err \<noteq> A0_OK \<and> (\<forall>q r. Remove q r \<notin> set tr))"

definition rm_post :: "os \<Rightarrow> string option \<Rightarrow> a0_file_iter option \<Rightarrow> history \<Rightarrow> a0_err \<times> history \<Rightarrow> bool" where
  "rm_post os path iter h y \<longleftrightarrow> new_streams os \<longrightarrow>
     (\<forall>p. path = Some p \<longrightarrow> is_abs p \<longrightarrow>
        (\<forall>it. iter = Some it \<longrightarrow> it_path it = slash p \<and> dir_of h (it_dir it) = Some p) \<longrightarrow>
        (\<exists>tr. snd y = h @ tr \<and> rm_ok h p iter (fst y) tr))"

lemma rm_postD:
  assumes "rm_post os path iter h y" "new_streams os" "path = Some p" "is_abs p"
    and "\<And>it. iter = Some it \<Longrightarrow> it_path it = slash p \<and> dir_of h (it_dir it) = Some p"
  shows "\<exists>tr. snd y = h @ tr \<and> rm_ok h p iter (fst y) tr"
  using assms unfolding rm_post_def by blast

lemma iter_init_events:
  assumes "is_abs p" "a0_file_iter_init os getenv (Some p) h = (r, h')"
  obtains e evs where "r = Inl e" "e \<noteq> A0_OK" "h' = h @ evs" "\<forall>ev \<in> set evs. (\<exists>r. ev = Lstat p r) \<or> (\<exists>e. ev = Opendir p (Inl e))"
    | k st where "r = Inr \<lparr>it_path = slash p, it_dir = k\<rparr>" "h' = h @ [Lstat p (Inr st), Opendir p (Inr k)]"
      "k_opendir os (h @ [Lstat p (Inr st)]) p = Inr k"
  using assms(2)
  by (auto simp: a0_file_iter_init_def is_abs_abspath [OF assms(1)] sys_def slash_def A0_MAKE_SYSERR_def Let_def
      split: if_splits sum.splits)

lemma keeps_append:
  assumes "keeps_streams h K tr1" "keeps_streams (h @ tr1) K tr2"
  shows "keeps_streams h K (tr1 @ tr2)"
  using assms dir_untouched unfolding keeps_streams_def untouched_simps by metis

lemma keeps_mono: "keeps_streams h K tr \<Longrightarrow> K \<subseteq> K' \<Longrightarrow> keeps_streams h K' tr"
  by (auto simp: keeps_streams_def)

lemma rm_step_correct:
  assumes dots: "\<forall>ev \<in> set dots. \<exists>n ty. ev = Readdir k (Some (n, ty)) \<and> is_dots n"
    and n: "\<not> is_dots n" and it: "it_dir it = k" "dir_of h k = Some p"
    and h1: "h1 = h @ dots @ [Readdir k (Some (n, ty))]"
    and sub: "ty = DT_DIR \<and> rm_ok h1 (child p n) None e trs \<or> trs = []"
    and rest: "rm_ok (h1 @ trs @ [Remove (child p n) r]) p (Some it) err trr"
  shows "rm_ok h p (Some it) err (dots @ Readdir k (Some (n, ty)) # trs @ Remove (child p n) r # trr)"
proof -
  let ?R = "Readdir k (Some (n, ty))" and ?X = "Remove (child p n) r"
  let ?tr = "dots @ ?R # trs @ ?X # trr"
  define c where "c = dots @ [?R]"
  have tr: "?tr = c @ trs @ [?X] @ trr" by (simp add: c_def)
  have h1': "h1 = h @ c" using h1 by (simp add: c_def)
  have dots_dir: "dir_of (h @ dots) k = Some p" using dir_reads [of dots h k] dots it(2) by force
  have shown: "shown h (c @ c') p n ty" for c'
    using dots_dir n unfolding shown_def c_def by (metis append.assoc append_Cons append_Nil)
  have "rm_safe h [] p c" using dots unfolding c_def by (intro rm_safe_quiet) auto
  moreover have "rm_safe h c p trs"
    using sub
  proof
    assume s: "ty = DT_DIR \<and> rm_ok h1 (child p n) None e trs"
    then have "rm_safe h c (child p n) trs" using rm_safe_before h1' unfolding rm_ok_def by blast
    then show ?thesis using rm_safe_child shown [of "[]"] s by simp
  qed (simp add: rm_safe_def)
  moreover have "rm_safe h (c @ trs) p [?X]"
    by (rule rm_safe_Remove) (unfold victim_def, blast intro: under.self shown)
  moreover have "rm_safe h (c @ trs @ [?X]) p trr"
  proof (rule rm_safe_before)
    have "h @ c @ trs @ [?X] = h1 @ trs @ [?X]" using h1' by simp
    moreover have "rm_safe (h1 @ trs @ [?X]) [] p trr" using rest unfolding rm_ok_def by blast
    ultimately show "rm_safe (h @ c @ trs @ [?X]) [] p trr" by (simp only:)
  qed
  ultimately have safe: "rm_safe h [] p ?tr"
    unfolding tr by (intro rm_safe_append) simp_all
  have keep1: "keeps_streams h {k} c" using dots by (auto simp: c_def keeps_streams_def untouched_def)
  have keeps: "keeps_streams h1 {} trs" using sub by (auto simp: rm_ok_def keeps_streams_def owned_def)
  have keepx: "keeps_streams v {k} [?X]" for v by (simp add: keeps_streams_def)
  have keepr: "keeps_streams (h1 @ trs @ [?X]) {k} trr" using rest it(1) by (simp add: rm_ok_def owned_def)
  have keep: "keeps_streams h {k} ?tr"
    unfolding tr using keep1 keeps_mono [OF keeps] keepx keepr h1' by (intro keeps_append) simp_all
  have "rm_complete h1 trs" using sub rm_complete_none [of "[]"] by (auto simp: rm_ok_def)
  moreover have "rm_complete (h1 @ trs) [?X]" by (rule rm_complete_none) simp
  moreover have "rm_complete (h1 @ trs @ [?X]) trr" using rest by (simp add: rm_ok_def)
  ultimately have "rm_complete h1 (trs @ [?X] @ trr)"
    by (intro rm_complete_append) simp_all
  then have "rm_complete (h @ dots) (?R # trs @ ?X # trr)"
    using h1' dots_dir by (intro rm_complete_Cons [where d = p and r = r]) (auto simp: c_def)
  then have complete: "rm_complete h ?tr"
    using dots by (intro rm_complete_append rm_complete_none [of dots]) auto
  obtain pre k' r' where "dir_of ((h1 @ trs @ [?X]) @ pre) k' = Some p" "trr = pre @ [Readdir k' None, Remove p r', Closedir k']"
      "err = syserr_of r'"
    using rest by (auto simp: rm_ok_def rm_end_def)
  then have "rm_end h p err ?tr"
    unfolding rm_end_def using h1
    by (intro exI [of _ "dots @ ?R # trs @ ?X # pre"] exI [of _ k'] exI [of _ r']) simp
  then show ?thesis using safe complete keep it(1) by (simp add: rm_ok_def owned_def)
qed

lemma remove_all_run_correct:
  assumes "remove_all_run os getenv path iter h = Some y"
  shows "rm_post os path iter h y"
  using assms
proof (rule remove_all_run.raw_induct [where P = "\<lambda>os getenv. rm_post os", rotated])
  fix run :: "os \<Rightarrow> environ \<Rightarrow> string option \<Rightarrow> a0_file_iter option \<Rightarrow> history \<Rightarrow> (a0_err \<times> history) option"
    and os getenv path iter h y
  assume IH: "\<And>os getenv path iter h y. run os getenv path iter h = Some y \<Longrightarrow> rm_post os path iter h y"
    and step: "(case iter of
        None \<Rightarrow>
          (let (r, h) = a0_file_iter_init os getenv path h
           in case r of
                Inl err \<Rightarrow> Some (err, h)
              | Inr iter \<Rightarrow> run os getenv path (Some iter) h)
      | Some iter \<Rightarrow>
          Option.bind (a0_file_iter_next os iter h) (\<lambda>(r, h).
            case r of
              Inl _ \<Rightarrow>
                (let (err, h) = a0_file_remove os getenv path h; (_, h) = a0_file_iter_close iter h
                 in Some (err, h))
            | Inr entry \<Rightarrow>
                Option.bind
                  (if ent_d_type entry = DT_DIR then run os getenv (Some (ent_fullpath entry)) None h
                   else Some (A0_OK, h))
                  (\<lambda>(_, h).
                     let (_, h) = a0_file_remove os getenv (Some (ent_fullpath entry)) h
                     in run os getenv path (Some iter) h))) = Some y"
  have "\<exists>tr. snd y = h @ tr \<and> rm_ok h p iter (fst y) tr"
    if os: "new_streams os" and p: "path = Some p" "is_abs p"
      "\<forall>it. iter = Some it \<longrightarrow> it_path it = slash p \<and> dir_of h (it_dir it) = Some p" for p
  proof (cases iter)
    case None
    obtain r h1 where i: "a0_file_iter_init os getenv (Some p) h = (r, h1)" by fastforce
    show ?thesis
      using p(2) i
    proof (cases rule: iter_init_events)
      case (1 e evs)
      then have "y = (e, h @ evs)" using step None p i by simp
      moreover have "rm_safe h [] p evs"
        using 1(4) by (intro rm_safe_quiet) auto
      moreover have "rm_complete h evs"
        using 1(4) by (intro rm_complete_none) auto
      moreover have "keeps_streams h {} evs"
        using 1(4) by (auto simp: keeps_streams_def untouched_def)
      ultimately show ?thesis
        using None 1(2,4) by (auto simp: rm_ok_def owned_def)
    next
      case (2 k st)
      let ?it = "\<lparr>it_path = slash p, it_dir = k\<rparr>" and ?evs = "[Lstat p (Inr st), Opendir p (Inr k)]"
      have "run os getenv path (Some ?it) h1 = Some y" using step None p i 2 by simp
      moreover have "dir_of h1 k = Some p" by (simp add: 2(2) dir_of_def stream_append open_step_def)
      ultimately obtain tr where tr: "snd y = h1 @ tr" "rm_ok h1 p (Some ?it) (fst y) tr"
        using rm_postD [OF IH os p(1,2)] by (metis a0_file_iter.select_convs option.inject)
      have none: "dir_of h k = None"
        using os 2(3) dir_untouched [of k "[Lstat p (Inr st)]" h] unfolding new_streams_def by simp
      have "rm_ok h p None (fst y) (?evs @ tr)"
      proof -
        have "rm_safe h [] p ?evs" by (rule rm_safe_quiet) auto
        moreover have "rm_safe h ?evs p tr" using tr(2) unfolding 2(2) rm_ok_def by (blast intro: rm_safe_before)
        ultimately have "rm_safe h [] p (?evs @ tr)" by (intro rm_safe_append) simp_all
        moreover have "rm_complete h (?evs @ tr)"
          using tr(2) unfolding 2(2) rm_ok_def by (intro rm_complete_append rm_complete_none [of ?evs]) simp_all
        moreover have "keeps_streams h {} (?evs @ tr)"
        proof -
          have "untouched k' (?evs @ tr)" if "dir_of h k' \<noteq> None" for k'
          proof -
            have evs: "untouched k' ?evs" using that none by auto
            moreover have "dir_of h1 k' \<noteq> None" using dir_untouched [OF evs] that 2(2) by simp
            ultimately show ?thesis
              using tr(2) that none by (auto simp: rm_ok_def keeps_streams_def owned_def)
          qed
          then show ?thesis by (simp add: keeps_streams_def)
        qed
        moreover obtain pre k' r' where "dir_of (h1 @ pre) k' = Some p" "tr = pre @ [Readdir k' None, Remove p r', Closedir k']"
            "fst y = syserr_of r'"
          using tr(2) by (auto simp: rm_ok_def rm_end_def)
        then have "rm_end h p (fst y) (?evs @ tr)"
          unfolding rm_end_def using 2(2)
          by (intro exI [of _ "?evs @ pre"] exI [of _ k'] exI [of _ r']) simp
        ultimately show ?thesis
          unfolding rm_ok_def owned_def by (simp del: append_Cons)
      qed
      then show ?thesis using tr(1) 2(2) None by (intro exI [of _ "?evs @ tr"]) simp
    qed
  next
    case (Some it)
    then have base: "it_path it = slash p" "dir_of h (it_dir it) = Some p" using p(3) by simp_all
    obtain r h1 where n: "a0_file_iter_next os it h = Some (r, h1)"
      using step Some by (auto simp: bind_eq_Some_conv)
    then show ?thesis
    proof (cases rule: iter_next_events)
      case (1 dots)
      obtain x where x: "a0_file_remove os getenv path h1 = (syserr_of x, h1 @ [Remove p x])"
        using p by (simp add: a0_file_remove_def is_abs_abspath sys_def)
      let ?tr = "dots @ [Readdir (it_dir it) None, Remove p x, Closedir (it_dir it)]"
      have "y = (syserr_of x, h @ ?tr)" using step Some n x 1 by (simp add: a0_file_iter_close_def)
      moreover have "rm_safe h [] p ?tr"
      proof -
        have "rm_safe h [] p (dots @ [Readdir (it_dir it) None])" using 1(1) by (intro rm_safe_quiet) auto
        moreover have "rm_safe h c p [Remove p x]" for c by (rule rm_safe_Remove) (simp add: victim_def)
        moreover have "rm_safe h c p [Closedir (it_dir it)]" for c by (rule rm_safe_quiet) simp
        ultimately show ?thesis
          using rm_safe_append [of h "[]" p "dots @ [Readdir (it_dir it) None]" "[Remove p x] @ [Closedir (it_dir it)]"]
            rm_safe_append [of h _ p "[Remove p x]" "[Closedir (it_dir it)]"] by simp
      qed
      moreover have "rm_complete h ?tr"
        using 1(1) by (intro rm_complete_none) auto
      moreover have "keeps_streams h {it_dir it} ?tr"
        using 1(1) by (auto simp: keeps_streams_def untouched_def)
      moreover have "rm_end h p (syserr_of x) ?tr"
        unfolding rm_end_def using dir_reads [of dots h "it_dir it"] 1(1) base(2) by force
      ultimately show ?thesis using Some by (auto simp: rm_ok_def owned_def)
    next
      case (2 dots n ty)
      let ?q = "child p n"
      have q: "it_path it @ n = ?q" "is_abs ?q" using base(1) is_abs_child [OF p(2)] by (simp_all add: child_def)
      obtain e h2 where s: "(if ty = DT_DIR then run os getenv (Some ?q) None h1 else Some (A0_OK, h1)) = Some (e, h2)"
          and y: "(let (_, h) = a0_file_remove os getenv (Some ?q) h2 in run os getenv path (Some it) h) = Some y"
        using step Some n 2(4) q(1) by (auto simp: bind_eq_Some_conv cong: if_cong)
      obtain trs where trs: "h2 = h1 @ trs" "ty = DT_DIR \<and> rm_ok h1 ?q None e trs \<or> trs = []"
        using s IH [of os getenv "Some ?q" None h1 "(e, h2)"] q(2) os by (auto simp: rm_post_def split: if_splits)
      have "dir_of (h @ dots) (it_dir it) = Some p" using dir_reads [of dots h "it_dir it"] 2(1) base(2) by force
      then have "dir_of h1 (it_dir it) = Some p" using dir_read [of "h @ dots"] 2(2) by simp
      then have "untouched (it_dir it) trs" "dir_of h1 (it_dir it) = Some p"
        using trs(2) by (auto simp: rm_ok_def keeps_streams_def owned_def)
      then have opened: "dir_of (h2 @ [Remove ?q x]) (it_dir it) = Some p" for x using trs(1) by (simp add: dir_untouched)
      obtain x where x: "a0_file_remove os getenv (Some ?q) h2 = (syserr_of x, h2 @ [Remove ?q x])"
        using q(2) by (simp add: a0_file_remove_def is_abs_abspath sys_def)
      then have "run os getenv path (Some it) (h2 @ [Remove ?q x]) = Some y" using y by simp
      from IH [OF this] obtain trr where trr: "snd y = (h2 @ [Remove ?q x]) @ trr"
          "rm_ok (h2 @ [Remove ?q x]) p (Some it) (fst y) trr"
        using rm_postD [OF _ os p(1,2)] base(1) opened by blast
      have "rm_ok (h1 @ trs @ [Remove ?q x]) p (Some it) (fst y) trr" using trr(2) trs(1) by simp
      from rm_step_correct [OF 2(1,3) refl base(2) 2(2) trs(2) this] show ?thesis
        using trr(1) trs(1) 2(2) Some by auto
    qed
  qed
  then show "rm_post os path iter h y" by (simp add: rm_post_def)
qed

lemma remove_all_events:
  assumes "a0_file_remove_all os getenv (Some p) h = Some (err, h')" "is_abs p" "new_streams os"
  shows "\<exists>tr. h' = h @ tr \<and> rm_ok h p None err tr"
  using remove_all_run_correct [OF assms(1) [unfolded a0_file_remove_all_def]] assms(2,3) by (auto simp: rm_post_def)

section \<open>Removing ends\<close>

text \<open>
  What the loops need of the directories: no listing shows more than \<open>N\<close> entries, and the names
  shown are not empty and give paths of at most \<open>PATH_MAX\<close> bytes.
\<close>

definition finite_listings :: "os \<Rightarrow> nat \<Rightarrow> bool" where
  "finite_listings os N \<longleftrightarrow> (\<forall>h k d n. stream h k = Some (d, n) \<and> N \<le> n \<longrightarrow> k_readdir os h k = None)"

definition short_paths :: "os \<Rightarrow> bool" where
  "short_paths os \<longleftrightarrow> (\<forall>h k n ty d. k_readdir os h k = Some (n, ty) \<and> dir_of h k = Some d \<longrightarrow>
     n \<noteq> [] \<and> length (child d n) \<le> PATH_MAX)"

lemma skip_returns:
  assumes "\<And>h. P h \<Longrightarrow> N \<le> f h \<Longrightarrow> k_readdir os h k = None"
    and "\<And>h r. P h \<Longrightarrow> P (h @ [Readdir k r]) \<and> f (h @ [Readdir k r]) = Suc (f h)" "P h"
  shows "\<exists>r h'. iter_skip_dots os k h = Some (r, h')"
  using assms(3)
proof (induction "N - f h" arbitrary: h rule: less_induct)
  case less
  show ?case
  proof (cases "k_readdir os h k")
    case None
    then show ?thesis by (subst iter_skip_dots.simps) (simp add: sys_def)
  next
    case (Some x)
    obtain n ty where x: "x = (n, ty)" by (cases x)
    have "f h < N" using assms(1) [OF less.prems] Some by (metis not_le option.distinct(1))
    then have "\<exists>r h'. iter_skip_dots os k (h @ [Readdir k (Some (n, ty))]) = Some (r, h')"
      using assms(2) [OF less.prems] by (intro less.hyps) simp_all
    then show ?thesis using Some x by (subst iter_skip_dots.simps) (auto simp: sys_def)
  qed
qed

definition read_since :: "nat \<Rightarrow> history \<Rightarrow> nat" where
  "read_since k h = (case stream h k of None \<Rightarrow> 0 | Some (d, n) \<Rightarrow> n)"

lemma read_since_read: "dir_of h k \<noteq> None \<Longrightarrow> read_since k (h @ [Readdir k r]) = Suc (read_since k h)"
  by (auto simp: read_since_def stream_read dir_of_def)

lemma read_since_reads: "\<forall>ev \<in> set tr. \<exists>r. ev = Readdir k r \<Longrightarrow> read_since k h \<le> read_since k (h @ tr)"
proof (induction tr arbitrary: h)
  case (Cons ev tr)
  then obtain r where ev: "ev = Readdir k r" by auto
  have "read_since k h \<le> read_since k (h @ [ev])"
    by (auto simp: ev read_since_def stream_read split: option.split)
  then show ?case using Cons.IH [of "h @ [ev]"] Cons.prems by simp
qed simp

lemma finite_stops:
  "finite_listings os N \<Longrightarrow> dir_of h k \<noteq> None \<Longrightarrow> N \<le> read_since k h \<Longrightarrow> k_readdir os h k = None"
  by (auto simp: finite_listings_def dir_of_def read_since_def)

lemma skip_finite:
  assumes "finite_listings os N" "dir_of h k \<noteq> None"
  shows "\<exists>r h'. iter_skip_dots os k h = Some (r, h')"
  using finite_stops [OF assms(1)] read_since_read dir_read assms(2)
  by (intro skip_returns [where P = "\<lambda>h. dir_of h k \<noteq> None" and f = "read_since k" and N = N]) auto

text \<open>Rounds of the loop, when the call for a directory returns.\<close>

lemma run_loop_returns:
  assumes os: "new_streams os" and N: "finite_listings os N" and fit: "short_paths os"
    and p: "is_abs p" "it_path it = slash p" "dir_of h (it_dir it) = Some p"
    and sub: "\<And>n h. n \<noteq> [] \<Longrightarrow> length (child p n) \<le> PATH_MAX \<Longrightarrow> \<exists>r. remove_all_run os getenv (Some (child p n)) None h = Some r"
  shows "\<exists>r. remove_all_run os getenv (Some p) (Some it) h = Some r"
  using p(3)
proof (induction "N - read_since (it_dir it) h" arbitrary: h rule: less_induct)
  case less
  let ?k = "it_dir it"
  have "dir_of h ?k \<noteq> None" using less.prems by simp
  then obtain r1 h1 where s: "iter_skip_dots os ?k h = Some (r1, h1)" using skip_finite [OF N] by blast
  obtain dots where dots: "h1 = h @ dots @ [Readdir ?k r1]" "k_readdir os (h @ dots) ?k = r1"
      "\<forall>ev \<in> set dots. \<exists>n ty. ev = Readdir ?k (Some (n, ty)) \<and> is_dots n"
    using iter_skip_dots_events [OF s] by blast
  have dir: "dir_of (h @ dots) ?k = Some p" using dir_reads [of dots h ?k] dots(3) less.prems by force
  show ?case
  proof (cases r1)
    case None
    then show ?thesis using s
      by (subst remove_all_run.simps) (auto simp: a0_file_iter_next_def a0_file_iter_close_def split: prod.splits)
  next
    case (Some x)
    obtain n ty where x: "x = (n, ty)" by (cases x)
    let ?q = "child p n"
    have n: "n \<noteq> []" "length ?q \<le> PATH_MAX"
      using fit dots(2) dir Some x unfolding short_paths_def by blast+
    have nx: "a0_file_iter_next os it h =
        Some (Inr \<lparr>ent_fullpath = ?q, ent_filename = n, ent_d_type = ty\<rparr>, h1)"
      using s Some x n(2) p(2) by (simp add: a0_file_iter_next_def child_def)
    obtain e h2 where sub': "(if ty = DT_DIR then remove_all_run os getenv (Some ?q) None h1 else Some (A0_OK, h1)) = Some (e, h2)"
      using sub [OF n, of h1] by (metis surj_pair)
    have dir1: "dir_of h1 ?k = Some p" using dir_read [of "h @ dots"] dir dots(1) by simp
    obtain trs where trs: "h2 = h1 @ trs" "untouched ?k trs"
    proof (cases "ty = DT_DIR")
      case True
      then have "remove_all_run os getenv (Some ?q) None h1 = Some (e, h2)" using sub' by simp
      from rm_postD [OF remove_all_run_correct [OF this] os refl is_abs_child [OF p(1)]] obtain tr where
        "h2 = h1 @ tr" "rm_ok h1 ?q None e tr" by auto
      then show thesis using dir1 by (intro that [of tr]) (simp_all add: rm_ok_def keeps_streams_def owned_def)
    next
      case False
      then show thesis using sub' by (intro that [of "[]"]) simp_all
    qed
    obtain y where y: "a0_file_remove os getenv (Some ?q) h2 = (syserr_of y, h2 @ [Remove ?q y])"
      using is_abs_child [OF p(1), of n] by (simp add: a0_file_remove_def is_abs_abspath sys_def)
    let ?h3 = "h2 @ [Remove ?q y]"
    have h3: "?h3 = h1 @ trs @ [Remove ?q y]" and keep: "untouched ?k (trs @ [Remove ?q y])" using trs by simp_all
    have dir3: "dir_of ?h3 ?k = Some p" unfolding h3 using dir_untouched [OF keep] dir1 by simp
    have "read_since ?k ?h3 = read_since ?k h1"
      unfolding h3 using stream_untouched [OF keep] by (simp add: read_since_def)
    also have "\<dots> = Suc (read_since ?k (h @ dots))"
      using read_since_read [of "h @ dots" ?k r1] dir dots(1) by simp
    finally have more: "read_since ?k ?h3 = Suc (read_since ?k (h @ dots))" .
    have "read_since ?k h \<le> read_since ?k (h @ dots)" using dots(3) by (intro read_since_reads) blast
    moreover have "read_since ?k (h @ dots) < N"
      using finite_stops [OF N, of "h @ dots" ?k] dots(2) dir Some by (metis not_le option.distinct(1))
    ultimately have "N - read_since ?k ?h3 < N - read_since ?k h" using more by simp
    then obtain r where "remove_all_run os getenv (Some p) (Some it) ?h3 = Some r"
      using less.hyps [of ?h3] dir3 by auto
    then show ?thesis
      using nx sub' y by (subst remove_all_run.simps) (auto cong: if_cong)
  qed
qed

lemma run_returns:
  assumes "new_streams os" "finite_listings os N" "short_paths os" "is_abs p"
  shows "\<exists>r. remove_all_run os getenv (Some p) None h = Some r"
  using assms(4)
proof (induction "Suc PATH_MAX - length p" arbitrary: p h rule: less_induct)
  case less
  obtain r h1 where i: "a0_file_iter_init os getenv (Some p) h = (r, h1)" by fastforce
  show ?case
    using less.prems i
  proof (cases rule: iter_init_events)
    case (1 e evs)
    then show ?thesis using i by (subst remove_all_run.simps) simp
  next
    case (2 k st)
    have len: "length p \<le> PATH_MAX"
      using i 2(1) by (auto simp: a0_file_iter_init_def is_abs_abspath [OF less.prems] split: if_splits)
    have "\<exists>r. remove_all_run os getenv (Some p) (Some \<lparr>it_path = slash p, it_dir = k\<rparr>) h1 = Some r"
    proof (rule run_loop_returns [OF assms(1-3) less.prems])
      fix n h assume n: "n \<noteq> ([] :: string)" "length (child p n) \<le> PATH_MAX"
      have "length p < length (child p n)" using n(1) by (simp add: child_def slash_def)
      then show "\<exists>r. remove_all_run os getenv (Some (child p n)) None h = Some r"
        using n(2) by (intro less.hyps is_abs_child less.prems) simp
    qed (simp_all add: 2(2) dir_of_def stream_append open_step_def)
    then show ?thesis using i 2 by (subst remove_all_run.simps) simp
  qed
qed

section \<open>What is removed\<close>

text \<open>How often a directory has been read.\<close>

definition reads :: "nat \<Rightarrow> history \<Rightarrow> nat" where
  "reads k h = length (filter (\<lambda>ev. \<exists>r. ev = Readdir k r) h)"

lemma reads_append [simp]: "reads k (h1 @ h2) = reads k h1 + reads k h2"
  by (simp add: reads_def)

text \<open>
  A small tree: the directory \<^verbatim>\<open>/t\<close> holds the directory \<^verbatim>\<open>a\<close>, with a file \<^verbatim>\<open>c\<close>, and the symbolic link \<^verbatim>\<open>b\<close>.
  A handle is a number above those of the handles before.
\<close>

definition tree_listing :: "string \<Rightarrow> (string \<times> d_type) list" where
  "tree_listing p = (if p = ''/t'' \<or> p = ''/t/'' then [(''.'', DT_DIR), (''a'', DT_DIR), (''b'', DT_LNK)]
     else if p = ''/t/a'' then [(''c'', DT_REG)] else [])"

definition tree_readdir :: "history \<Rightarrow> nat \<Rightarrow> (string \<times> d_type) option" where
  "tree_readdir h k =
     (case filter (\<lambda>ev. case ev of Opendir _ (Inr k') \<Rightarrow> k' = k | _ \<Rightarrow> False) h of
        [Opendir p _] \<Rightarrow> if reads k h < length (tree_listing p) then Some (tree_listing p ! reads k h) else None
      | _ \<Rightarrow> None)"

definition new_handle :: "history \<Rightarrow> nat" where
  "new_handle h = Suc (sum_list (map (\<lambda>ev. case ev of Opendir _ (Inr k) \<Rightarrow> k | _ \<Rightarrow> 0) h))"

definition tree_os :: os where
  "tree_os = example_os\<lparr>k_opendir := \<lambda>h p. Inr (new_handle h), k_readdir := tree_readdir\<rparr>"

lemma handle_used: "Opendir d (Inr k) \<in> set h \<Longrightarrow> k < new_handle h"
proof (induction h)
  case (Cons ev h)
  then show ?case by (cases "Opendir d (Inr k) = ev") (auto simp: new_handle_def)
qed simp

lemma tree_new_streams: "new_streams tree_os"
proof -
  have "dir_of h (new_handle h) = None" for h
    using stream_opened [of h "new_handle h"] handle_used by (metis less_irrefl not_None_eq)
  then show ?thesis by (simp add: new_streams_def tree_os_def)
qed

lemma tree_readdir_Some:
  assumes "tree_readdir h k = Some (n, ty)" "Opendir d (Inr k) \<in> set h"
  shows "(n, ty) \<in> set (tree_listing d) \<and> reads k h < length (tree_listing d)"
proof -
  let ?f = "filter (\<lambda>ev. case ev of Opendir _ (Inr k') \<Rightarrow> k' = k | _ \<Rightarrow> False) h"
  have "Opendir d (Inr k) \<in> set ?f" using assms(2) by simp
  moreover obtain p x where f: "?f = [Opendir p x]"
    using assms(1) by (auto simp: tree_readdir_def split: list.splits event.splits)
  ultimately have "Opendir d (Inr k) = Opendir p x" by simp
  then show ?thesis
    using assms(1) f by (auto simp: tree_readdir_def split: if_splits intro: nth_mem dest!: sym [where t = "(n, ty)"])
qed

lemma tree_listing_short: "length (tree_listing p) \<le> 3"
  by (simp add: tree_listing_def)

lemma read_since_le: "read_since k h \<le> reads k h"
proof (induction h rule: rev_induct)
  case (snoc ev h)
  then show ?case
    by (auto simp: read_since_def stream_append open_step_def reads_def split: event.splits sum.splits option.splits)
qed (simp add: read_since_def stream_def)

lemma tree_finite: "finite_listings tree_os 3"
proof -
  have "tree_readdir h k = None" if "3 \<le> read_since k h" for h k
  proof -
    have "\<not> reads k h < length (tree_listing p)" for p
      using that tree_listing_short [of p] read_since_le [of k h] by simp
    then show ?thesis by (simp add: tree_readdir_def split: list.split event.split)
  qed
  then show ?thesis by (simp add: finite_listings_def tree_os_def read_since_def)
qed

lemma tree_names: "(n, ty) \<in> set (tree_listing d) \<Longrightarrow> n \<noteq> [] \<and> length (child d n) \<le> PATH_MAX"
  by (auto simp: tree_listing_def child_def slash_def PATH_MAX_def split: if_splits)

lemma tree_short: "short_paths tree_os"
proof -
  have "n \<noteq> [] \<and> length (child d n) \<le> PATH_MAX" if "tree_readdir h k = Some (n, ty)" "dir_of h k = Some d" for h k n ty d
    using tree_names tree_readdir_Some [OF that(1) stream_opened [OF that(2)]] by blast
  moreover have "k_readdir tree_os = tree_readdir" by (simp add: tree_os_def)
  ultimately show ?thesis unfolding short_paths_def by (simp only:) blast
qed

text \<open>
  C25. Recursive removal never leaves its tree. Whatever the directories hold and whatever fails,
  everything that \<^verbatim>\<open>a0_file_remove_all\<close> of an absolute path removes is the directory it was given, or an entry that the
  listing of a directory below it had shown by then, removed under the path of that directory; and it lists
  only directories below it. Below it are the directories that such a listing had shown as
  directories, so never through a symbolic link, and never through \<^verbatim>\<open>.\<close> or \<^verbatim>\<open>..\<close>. A listing is that of the
  directory for which its handle is open at the time.
\<close>

theorem remove_all_safe:
  assumes "a0_file_remove_all os getenv (Some (CHR ''/'' # p)) h = Some (err, h')" "new_streams os"
  shows "\<exists>tr. h' = h @ tr \<and>
     (\<forall>pre q r post. tr = pre @ Remove q r # post \<longrightarrow> q = CHR ''/'' # p \<or>
        (\<exists>d n ty. under h pre (CHR ''/'' # p) d \<and> shown h pre d n ty \<and> q = child d n)) \<and>
     (\<forall>pre q r post. tr = pre @ Opendir q r # post \<longrightarrow> under h pre (CHR ''/'' # p) q)"
proof -
  have "is_abs (CHR ''/'' # p)" by (simp add: is_abs_def)
  from remove_all_events [OF assms(1) this assms(2)] obtain tr where
    tr: "h' = h @ tr" "rm_safe h [] (CHR ''/'' # p) tr"
    by (auto simp: rm_ok_def)
  note safe = tr(2) [unfolded rm_safe_def append_Nil, rule_format]
  have "victim h pre (CHR ''/'' # p) q" if "tr = pre @ Remove q r # post" for pre q r post
    using safe [OF that] by blast
  moreover have "under h pre (CHR ''/'' # p) q" if "tr = pre @ Opendir q r # post" for pre q r post
    using safe [OF that] by blast
  ultimately show ?thesis using tr(1) unfolding victim_def by blast
qed

theorem remove_all_safe_witness:
  "\<exists>err tr. a0_file_remove_all tree_os (\<lambda>_. None) (Some ''/t'') [] = Some (err, tr) \<and>
     (\<forall>pre q r post. tr = pre @ Opendir q r # post \<longrightarrow> under [] pre ''/t'' q)"
proof -
  obtain err tr where r: "a0_file_remove_all tree_os (\<lambda>_. None) (Some ''/t'') [] = Some (err, tr)"
    using run_returns [OF tree_new_streams tree_finite tree_short, of "''/t''" "\<lambda>_. None" "[]"]
    by (auto simp: a0_file_remove_all_def is_abs_def)
  show ?thesis using remove_all_safe [OF r tree_new_streams] r by auto
qed

text \<open>
  C26. Recursive removal leaves nothing out, and ends. On an absolute path, where no listing shows more than \<open>N\<close>
  entries and the paths shown have at most \<^verbatim>\<open>PATH_MAX\<close> bytes, a call of
  \<^verbatim>\<open>a0_file_remove_all\<close> returns. Unless it could not list the directory at all, in which case it says so and
  removes nothing: every entry that a listing has shown is removed, under the path of its directory, after it was
  shown, the directory itself goes last, when its listing is exhausted, and the call answers what that last
  removal answered.
\<close>

theorem remove_all_complete:
  assumes "new_streams os" "finite_listings os N" "short_paths os"
  shows "\<exists>err tr. a0_file_remove_all os getenv (Some (CHR ''/'' # p)) h = Some (err, h @ tr) \<and>
     (\<forall>pre k n ty post. tr = pre @ Readdir k (Some (n, ty)) # post \<and> n \<noteq> ''.'' \<and> n \<noteq> ''..'' \<longrightarrow>
        (\<exists>d r. dir_of (h @ pre) k = Some d \<and> Remove (child d n) r \<in> set post)) \<and>
     ((\<exists>pre k r. dir_of (h @ pre) k = Some (CHR ''/'' # p) \<and>
         tr = pre @ [Readdir k None, Remove (CHR ''/'' # p) r, Closedir k] \<and> err = syserr_of r) \<or>
      err \<noteq> A0_OK \<and> (\<forall>q r. Remove q r \<notin> set tr))"
proof -
  have abs: "is_abs (CHR ''/'' # p)" by (simp add: is_abs_def)
  obtain err h' where r: "a0_file_remove_all os getenv (Some (CHR ''/'' # p)) h = Some (err, h')"
    using run_returns [OF assms abs, of getenv h] by (auto simp: a0_file_remove_all_def)
  obtain tr where tr: "h' = h @ tr" "rm_complete h tr"
      "rm_end h (CHR ''/'' # p) err tr \<or> err \<noteq> A0_OK \<and> (\<forall>q r. Remove q r \<notin> set tr)"
    using remove_all_events [OF r abs assms(1)] by (auto simp: rm_ok_def)
  show ?thesis
    using tr r unfolding rm_complete_def rm_end_def is_dots_def
    by (intro exI [of _ err] exI [of _ tr] conjI) simp_all
qed

theorem remove_all_complete_witness:
  "\<exists>err tr. a0_file_remove_all tree_os (\<lambda>_. None) (Some ''/t'') [] = Some (err, tr) \<and>
     (\<forall>pre k n ty post. tr = pre @ Readdir k (Some (n, ty)) # post \<and> n \<noteq> ''.'' \<and> n \<noteq> ''..'' \<longrightarrow>
        (\<exists>d r. dir_of pre k = Some d \<and> Remove (child d n) r \<in> set post))"
  using remove_all_complete [OF tree_new_streams tree_finite tree_short, of "\<lambda>_. None" "''t''" "[]"] by auto

end
