(* ===== verification/Discovery_Correct.thy ===== *)
theory Discovery_Correct
  imports Discovery File_Remove Pathglob_Correct
begin

text \<open>
  What the discovery thread does, as statements about the events it adds to the history: what it
  announces, that it misses nothing that a listing or inotify has shown, and that a directory is
  watched before it is listed, so that nothing falls between the two.
\<close>

section \<open>Paths as keys\<close>

lemma of_char_u8_inj: "of_char c = (of_char d :: u8) \<Longrightarrow> c = d"
proof -
  assume "of_char c = (of_char d :: u8)"
  then have "unat (of_char c :: u8) = unat (of_char d :: u8)" by simp
  moreover have "unat (of_char x :: u8) = of_char x" for x
  proof -
    have "(of_char x :: u8) = word_of_nat (of_char x)" by (rule of_nat_of_char [symmetric])
    moreover have "(of_char x :: nat) < 2 ^ 8" using nat_of_char_less_256 [of x] by simp
    ultimately show ?thesis by (simp only: unat_of_nat take_bit_nat_eq_self) (simp add: unat_of_nat)
  qed
  ultimately show "c = d" by simp
qed

lemma str_inj: "str s = str t \<longleftrightarrow> s = t"
  unfolding str_def by (rule inj_map_eq_map) (auto intro: injI of_char_u8_inj)

section \<open>Traces\<close>

definition matches :: "environ \<Rightarrow> a0_pathglob \<Rightarrow> string \<Rightarrow> bool" where
  "matches getenv glob p \<longleftrightarrow> a0_pathglob_match getenv glob (Some p) = Some (Inr True)"

text \<open>
  \<open>fine T ev post\<close>: an event is in order between what came before it and what comes after it.
\<close>

definition entry_done :: "environ \<Rightarrow> a0_pathglob \<Rightarrow> event list \<Rightarrow> event list \<Rightarrow> string \<Rightarrow> bool" where
  "entry_done getenv glob T post p \<longleftrightarrow> (matches getenv glob p \<longrightarrow> Callback p \<in> set T \<union> set post)"

definition dir_done :: "event list \<Rightarrow> string \<Rightarrow> bool" where
  "dir_done post p \<longleftrightarrow> (\<exists>k. Opendir p (Inr k) \<in> set post)"

text \<open>What an inotify event asks for.\<close>

definition evt_done :: "environ \<Rightarrow> a0_pathglob \<Rightarrow> event list \<Rightarrow> event list \<Rightarrow> inotify_event \<Rightarrow> bool" where
  "evt_done getenv glob T post evt \<longleftrightarrow> (evt_len evt \<noteq> 0 \<longrightarrow>
     (\<exists>q f. Add_watch f q (Inr (evt_wd evt)) \<in> set T \<union> set post \<and>
        (if evt_isdir evt then dir_done post (child q (evt_name evt))
         else entry_done getenv glob T post (child q (evt_name evt)))))"

fun fine :: "environ \<Rightarrow> a0_pathglob \<Rightarrow> event list \<Rightarrow> event \<Rightarrow> event list \<Rightarrow> bool" where
  "fine getenv glob T (Callback p) post \<longleftrightarrow> matches getenv glob p \<and> Callback p \<notin> set T"
| "fine getenv glob T (Opendir q r) post \<longleftrightarrow> (\<exists>fd x. Add_watch fd q x \<in> set T)"
| "fine getenv glob T (Readdir k (Some (n, ty))) post \<longleftrightarrow> is_dots n \<or>
     (\<exists>q. Opendir q (Inr k) \<in> set T \<and> (ty = DT_REG \<longrightarrow> entry_done getenv glob T post (child q n)) \<and>
        (ty = DT_DIR \<longrightarrow> dir_done post (child q n)))"
| "fine getenv glob T (Inotify_read fd (Inr evts)) post \<longleftrightarrow>
     (\<forall>evt \<in> set evts. evt_done getenv glob T post evt)"
| "fine getenv glob T _ post \<longleftrightarrow> True"

fun handled :: "environ \<Rightarrow> a0_pathglob \<Rightarrow> event list \<Rightarrow> event list \<Rightarrow> bool" where
  "handled getenv glob T [] \<longleftrightarrow> True"
| "handled getenv glob T (ev # tr) \<longleftrightarrow> fine getenv glob T ev tr \<and> handled getenv glob (T @ [ev]) tr"

lemma evt_done_more: "evt_done getenv glob T tr evt \<Longrightarrow> evt_done getenv glob T (tr @ tr') evt"
  by (fastforce simp: evt_done_def entry_done_def dir_done_def)

lemma evt_done_later: "evt_done getenv glob (T @ tr) tr' evt \<Longrightarrow> evt_done getenv glob T (tr @ tr') evt"
  by (fastforce simp: evt_done_def entry_done_def dir_done_def)

lemma evt_done_read: "evt_done getenv glob (T @ [Inotify_read fd r]) tr evt \<Longrightarrow> evt_done getenv glob T tr evt"
  by (auto simp: evt_done_def entry_done_def)

lemma fine_more: "fine getenv glob T ev post \<Longrightarrow> fine getenv glob T ev (post @ post')"
  by (cases "(getenv, glob, T, ev, post)" rule: fine.cases)
    (fastforce simp: entry_done_def dir_done_def intro: evt_done_more)+

lemma handled_append:
  "handled getenv glob T tr1 \<Longrightarrow> handled getenv glob (T @ tr1) tr2 \<Longrightarrow> handled getenv glob T (tr1 @ tr2)"
  by (induction tr1 arbitrary: T) (auto intro: fine_more)

lemma handled_split:
  "handled getenv glob T (pre @ ev # post) \<Longrightarrow> fine getenv glob (T @ pre) ev post"
  by (induction pre arbitrary: T) force+

section \<open>The state\<close>

definition dinv :: "a0_pathglob \<Rightarrow> event list \<Rightarrow> a0_discovery \<Rightarrow> bool" where
  "dinv glob T d \<longleftrightarrow> dc_pathglob d = glob \<and>
     map_of_kind a0_hash_u32_fn a0_cmp_u32_fn (\<lambda>_. True) (watch_map d) \<and>
     map_of_kind a0_hash_str_fn a0_cmp_str_fn (\<lambda>_. True) (reverse_watch_map d) \<and>
     map_of_kind a0_hash_str_fn a0_cmp_str_fn (\<lambda>_. True) (discovered_map d) \<and>
     (\<forall>p. str p \<in> dom (map_abs (discovered_map d)) \<longleftrightarrow> Callback p \<in> set T) \<and>
     (\<forall>p v. map_abs (reverse_watch_map d) (str p) = Some v \<longrightarrow> (\<exists>fd x. Add_watch fd p x \<in> set T)) \<and>
     (\<forall>wd p. map_abs (watch_map d) wd = Some p \<longrightarrow> is_abs p \<and> (\<exists>fd. Add_watch fd p (Inr wd) \<in> set T))"

lemma dinv_mono:
  "dinv glob T d \<Longrightarrow> (\<forall>p. Callback p \<notin> set tr) \<Longrightarrow> dinv glob (T @ tr) d"
  unfolding dinv_def by (auto; blast)

text \<open>\<open>grows\<close>: what an operation may do between two states.\<close>

definition grows :: "environ \<Rightarrow> a0_pathglob \<Rightarrow> event list \<Rightarrow> history \<Rightarrow> a0_discovery \<times> history \<Rightarrow> event list \<Rightarrow> bool" where
  "grows getenv glob T h y tr \<longleftrightarrow> snd y = h @ tr \<and> dinv glob (T @ tr) (fst y) \<and> handled getenv glob T tr"

lemma growsI:
  "h' = h @ tr \<Longrightarrow> dinv glob (T @ tr) d \<Longrightarrow> handled getenv glob T tr \<Longrightarrow> grows getenv glob T h (d, h') tr"
  by (simp add: grows_def)

lemma grows_trans:
  "grows getenv glob T h (d1, h1) tr1 \<Longrightarrow> grows getenv glob (T @ tr1) h1 y tr2 \<Longrightarrow> grows getenv glob T h y (tr1 @ tr2)"
  by (auto simp: grows_def intro: handled_append)

lemma watch_path_correct:
  assumes d: "dinv glob T d" and r: "a0_discovery_watch_path os p d h = Some y" and abs: "is_abs p"
  shows "\<exists>tr. grows getenv glob T h y tr \<and> (\<exists>fd x. Add_watch fd p x \<in> set (T @ tr))"
proof (cases "str p \<in> dom (map_abs (reverse_watch_map d))")
  case True
  then have "a0_map_has (reverse_watch_map d) (str p) = Some True"
    using str_map.has_law [of "reverse_watch_map d" "str p"] d by (simp add: dinv_def)
  then have "y = (d, h)" using r by (simp add: a0_discovery_watch_path_def)
  moreover have "\<exists>fd x. Add_watch fd p x \<in> set T" using True d by (auto simp: dinv_def)
  ultimately show ?thesis using d by (intro exI [of _ "[]"]) (auto simp: grows_def)
next
  case False
  then have has: "a0_map_has (reverse_watch_map d) (str p) = Some False"
    using str_map.has_law [of "reverse_watch_map d" "str p"] d by (simp add: dinv_def)
  let ?ev = "Add_watch (inotify_fd d) p (k_add_watch os h (inotify_fd d) p)"
  have "dinv glob (T @ [?ev]) (fst y) \<and> snd y = h @ [?ev]"
  proof (cases "k_add_watch os h (inotify_fd d) p")
    case (Inl e)
    then have "y = (d, h @ [?ev])" using r has by (simp add: a0_discovery_watch_path_def sys_def)
    then show ?thesis using dinv_mono [OF d, of "[?ev]"] by simp
  next
    case (Inr wd)
    obtain wm where wm: "a0_map_put (watch_map d) wd p = Some (A0_OK, wm)"
        "map_of_kind a0_hash_u32_fn a0_cmp_u32_fn (\<lambda>_. True) wm" "map_abs wm = (map_abs (watch_map d))(wd \<mapsto> p)"
      using u32_map.put_law [of "watch_map d" wd p] d unfolding dinv_def by blast
    obtain rm where rm: "a0_map_put (reverse_watch_map d) (str p) 0 = Some (A0_OK, rm)"
        "map_of_kind a0_hash_str_fn a0_cmp_str_fn (\<lambda>_. True) rm"
        "map_abs rm = (map_abs (reverse_watch_map d))(str p \<mapsto> 0)"
      using str_map.put_law [of "reverse_watch_map d" "str p" 0] d unfolding dinv_def by blast
    have "y = (d\<lparr>watch_map := wm, reverse_watch_map := rm\<rparr>, h @ [?ev])"
      using r has Inr wm(1) rm(1) by (simp add: a0_discovery_watch_path_def sys_def)
    then show ?thesis
      using d wm(2,3) rm(2,3) Inr abs unfolding dinv_def by (auto simp: str_inj)
  qed
  then show ?thesis by (intro exI [of _ "[?ev]"]) (auto simp: grows_def)
qed

lemma announce_correct:
  assumes d: "dinv glob T d" and r: "announce_if_match getenv p d h = Some y"
  shows "\<exists>tr. grows getenv glob T h y tr \<and> entry_done getenv glob T tr p"
proof (cases "matches getenv glob p \<and> Callback p \<notin> set T")
  case True
  then have "a0_map_has (discovered_map d) (str p) = Some False"
    using str_map.has_law [of "discovered_map d" "str p"] d by (simp add: dinv_def)
  moreover obtain dm where dm: "a0_map_put (discovered_map d) (str p) 0 = Some (A0_OK, dm)"
      "map_of_kind a0_hash_str_fn a0_cmp_str_fn (\<lambda>_. True) dm"
      "map_abs dm = (map_abs (discovered_map d))(str p \<mapsto> 0)"
    using str_map.put_law [of "discovered_map d" "str p" 0] d unfolding dinv_def by blast
  ultimately have y: "y = (d\<lparr>discovered_map := dm\<rparr>, h @ [Callback p])"
    using r True d by (simp add: announce_if_match_def a0_discovery_announce_def matches_def dinv_def)
  have "dinv glob (T @ [Callback p]) (d\<lparr>discovered_map := dm\<rparr>)"
    using d dm(2,3) unfolding dinv_def by (auto simp: str_inj)
  then show ?thesis using y True by (intro exI [of _ "[Callback p]"]) (simp add: grows_def entry_done_def)
next
  case False
  have "y = (d, h)"
  proof (cases "matches getenv glob p")
    case True
    then have "a0_map_has (discovered_map d) (str p) = Some True"
      using False str_map.has_law [of "discovered_map d" "str p"] d by (simp add: dinv_def)
    then show ?thesis
      using r True d by (simp add: announce_if_match_def a0_discovery_announce_def matches_def dinv_def)
  next
    case False
    then show ?thesis
      using r d by (auto simp: announce_if_match_def matches_def dinv_def bind_eq_Some_conv)
  qed
  then show ?thesis using False d by (intro exI [of _ "[]"]) (auto simp: grows_def entry_done_def)
qed

section \<open>Watching recursively\<close>

definition watch_post :: "environ \<Rightarrow> string \<Rightarrow> a0_file_iter option \<Rightarrow> a0_discovery \<Rightarrow> history \<Rightarrow> a0_discovery \<times> history \<Rightarrow> bool" where
  "watch_post getenv p iter d h y \<longleftrightarrow> (\<forall>glob T. dinv glob T d \<longrightarrow> is_abs p \<longrightarrow>
     (\<forall>it. iter = Some it \<longrightarrow> it_path it = slash p \<and> Opendir p (Inr (it_dir it)) \<in> set T) \<longrightarrow>
     (\<exists>tr. grows getenv glob T h y tr \<and> (iter = None \<longrightarrow> dir_done tr p)))"

lemma handled_dots:
  assumes "\<forall>ev \<in> set dots. \<exists>n ty. ev = Readdir k (Some (n, ty)) \<and> is_dots n"
  shows "handled getenv glob T dots"
  using assms by (induction dots arbitrary: T) auto

lemma dinv_readdirs:
  assumes "dinv glob T d" "\<forall>ev \<in> set tr. \<exists>k r. ev = Readdir k r"
  shows "dinv glob (T @ tr) d"
  using assms(2) by (intro dinv_mono [OF assms(1)]) auto

lemma watch_recursive_correct:
  assumes "watch_recursive_run os getenv p iter d h = Some y"
  shows "watch_post getenv p iter d h y"
  using assms
proof (rule watch_recursive_run.raw_induct [where P = "\<lambda>os. watch_post", rotated])
  fix run :: "os \<Rightarrow> environ \<Rightarrow> string \<Rightarrow> a0_file_iter option \<Rightarrow> a0_discovery \<Rightarrow> history \<Rightarrow> (a0_discovery \<times> history) option"
    and os getenv path iter d h y
  assume IH: "\<And>os getenv path iter d h y. run os getenv path iter d h = Some y \<Longrightarrow> watch_post getenv path iter d h y"
    and step: "(case iter of
        None \<Rightarrow>
          Option.bind (a0_discovery_watch_path os path d h) (\<lambda>(d, h).
            let (r, h) = a0_file_iter_init os getenv (Some path) h
            in case r of
                 Inl _ \<Rightarrow> None
               | Inr iter \<Rightarrow> run os getenv path (Some iter) d h)
      | Some iter \<Rightarrow>
          Option.bind (a0_file_iter_next os iter h) (\<lambda>(r, h).
            case r of
              Inl _ \<Rightarrow> Some (d, snd (a0_file_iter_close iter h))
            | Inr entry \<Rightarrow>
                Option.bind
                  (if ent_d_type entry = DT_DIR then run os getenv (ent_fullpath entry) None d h
                   else if ent_d_type entry = DT_REG then announce_if_match getenv (ent_fullpath entry) d h
                   else Some (d, h))
                  (\<lambda>(d, h). run os getenv path (Some iter) d h))) = Some y"
  have "\<exists>tr. grows getenv glob T h y tr \<and> (iter = None \<longrightarrow> dir_done tr path)"
    if d: "dinv glob T d" and abs: "is_abs path"
      and it: "\<forall>it. iter = Some it \<longrightarrow> it_path it = slash path \<and> Opendir path (Inr (it_dir it)) \<in> set T" for glob T
  proof (cases iter)
    case None
    obtain d1 h1 where w: "a0_discovery_watch_path os path d h = Some (d1, h1)"
      using step None by (auto simp: bind_eq_Some_conv)
    obtain tr1 where tr1: "grows getenv glob T h (d1, h1) tr1" "\<exists>fd x. Add_watch fd path x \<in> set (T @ tr1)"
      using watch_path_correct [OF d w abs] by blast
    obtain r h2 where i: "a0_file_iter_init os getenv (Some path) h1 = (r, h2)" by fastforce
    show ?thesis
      using abs i
    proof (cases rule: iter_init_events)
      case (1 e evs)
      then show ?thesis using step None w i by simp
    next
      case (2 k st)
      let ?it = "\<lparr>it_path = slash path, it_dir = k\<rparr>" and ?evs = "[Lstat path (Inr st), Opendir path (Inr k)]"
      have "run os getenv path (Some ?it) d1 h2 = Some y" using step None w i 2 by simp
      note post = IH [OF this]
      have g2: "grows getenv glob (T @ tr1) h1 (d1, h2) ?evs"
        using dinv_mono [of glob "T @ tr1" d1 ?evs] tr1 2(2) by (auto simp: grows_def)
      then have "dinv glob (T @ tr1 @ ?evs) d1" by (simp add: grows_def)
      then obtain tr2 where "grows getenv glob (T @ tr1 @ ?evs) h2 y tr2"
        using post abs unfolding watch_post_def by fastforce
      then have "grows getenv glob T h y (tr1 @ ?evs @ tr2)"
        using grows_trans [OF tr1(1) grows_trans [OF g2, of y tr2]] by simp
      then show ?thesis by (intro exI [of _ "tr1 @ ?evs @ tr2"]) (auto simp: dir_done_def)
    qed
  next
    case (Some it')
    then have base: "it_path it' = slash path" "Opendir path (Inr (it_dir it')) \<in> set T" using it by simp_all
    obtain r h1 where n: "a0_file_iter_next os it' h = Some (r, h1)"
      using step Some by (auto simp: bind_eq_Some_conv)
    then show ?thesis
    proof (cases rule: iter_next_events)
      case (1 dots)
      let ?tr = "dots @ [Readdir (it_dir it') None, Closedir (it_dir it')]"
      have "y = (d, h @ ?tr)" using step Some n 1 by (simp add: a0_file_iter_close_def)
      moreover have "dinv glob (T @ ?tr) d" using 1(1) by (intro dinv_mono [OF d]) auto
      moreover have "handled getenv glob T ?tr" using handled_dots [OF 1(1)] by (intro handled_append) simp_all
      ultimately show ?thesis using Some by (auto simp: grows_def)
    next
      case (2 dots n ty)
      let ?q = "child path n" and ?ev = "Readdir (it_dir it') (Some (n, ty))"
      let ?T1 = "T @ dots @ [?ev]"
      have q: "it_path it' @ n = ?q" "is_abs ?q" using base(1) is_abs_child [OF abs] by (simp_all add: child_def)
      have d1: "dinv glob ?T1 d" using 2(1) by (intro dinv_readdirs [OF d]) auto
      obtain d2 h2 where s: "(if ty = DT_DIR then run os getenv ?q None d h1
            else if ty = DT_REG then announce_if_match getenv ?q d h1 else Some (d, h1)) = Some (d2, h2)"
          and y: "run os getenv path (Some it') d2 h2 = Some y"
        using step Some n 2(4) q(1) by (auto simp: bind_eq_Some_conv cong: if_cong)
      have "\<exists>trs. grows getenv glob ?T1 h1 (d2, h2) trs \<and> (ty = DT_REG \<longrightarrow> entry_done getenv glob ?T1 trs ?q) \<and>
          (ty = DT_DIR \<longrightarrow> dir_done trs ?q)"
      proof (cases ty)
        case DT_DIR
        then show ?thesis using IH [of os getenv ?q None d h1 "(d2, h2)"] s d1 q(2) by (auto simp: watch_post_def)
      next
        case DT_REG
        then show ?thesis using announce_correct [OF d1, of getenv ?q h1 "(d2, h2)"] s by auto
      qed (use s d1 in \<open>auto simp: grows_def\<close>)
      then obtain trs where trs: "grows getenv glob ?T1 h1 (d2, h2) trs" "ty = DT_REG \<longrightarrow> entry_done getenv glob ?T1 trs ?q"
          "ty = DT_DIR \<longrightarrow> dir_done trs ?q"
        by blast
      then have "dinv glob (?T1 @ trs) d2" by (simp add: grows_def)
      moreover have "Opendir path (Inr (it_dir it')) \<in> set (?T1 @ trs)" using base(2) by simp
      ultimately obtain trr where trr: "grows getenv glob (?T1 @ trs) h2 y trr"
        using IH [OF y] abs base(1) unfolding watch_post_def by blast
      have rest: "grows getenv glob ?T1 h1 y (trs @ trr)" by (rule grows_trans [OF trs(1) trr])
      have "fine getenv glob (T @ dots) ?ev (trs @ trr)"
        using trs(2,3) base(2) by (auto simp: entry_done_def dir_done_def)
      then have "handled getenv glob (T @ dots) (?ev # trs @ trr)" using rest by (simp add: grows_def)
      then have "handled getenv glob T (dots @ ?ev # trs @ trr)"
        by (rule handled_append [OF handled_dots [OF 2(1)]])
      then have "grows getenv glob T h y (dots @ ?ev # trs @ trr)"
        using rest 2(2) by (simp add: grows_def)
      then show ?thesis using Some by auto
    qed
  qed
  then show "watch_post getenv path iter d h y" by (simp add: watch_post_def)
qed

lemma watch_recursive_grows:
  assumes "a0_discovery_watch_recursive os getenv p d h = Some y" "dinv glob T d" "is_abs p"
  shows "\<exists>tr. grows getenv glob T h y tr \<and> dir_done tr p"
  using watch_recursive_correct [OF assms(1) [unfolded a0_discovery_watch_recursive_def]] assms(2,3)
  by (auto simp: watch_post_def)


section \<open>The thread\<close>

lemma event_do_correct:
  assumes d: "dinv glob T d" and r: "inotify_event_do os getenv evt d h = Some y"
  shows "\<exists>tr. grows getenv glob T h y tr \<and> evt_done getenv glob T tr evt"
proof (cases "evt_len evt = 0")
  case True
  then have "y = (d, h)" using r by (simp add: inotify_event_do_def)
  then show ?thesis using d True by (intro exI [of _ "[]"]) (simp add: grows_def evt_done_def)
next
  case False
  have get: "a0_map_get (watch_map d) (evt_wd evt) =
      Some (case map_abs (watch_map d) (evt_wd evt) of None \<Rightarrow> Inl A0_ERR_NOT_FOUND | Some v \<Rightarrow> Inr v)"
    using u32_map.get_law [of "watch_map d" "evt_wd evt"] d by (simp add: dinv_def)
  then obtain q where q: "map_abs (watch_map d) (evt_wd evt) = Some q"
    using r False by (cases "map_abs (watch_map d) (evt_wd evt)") (auto simp: inotify_event_do_def)
  then obtain fd where w: "is_abs q" "Add_watch fd q (Inr (evt_wd evt)) \<in> set T" using d unfolding dinv_def by blast
  let ?p = "child q (evt_name evt)"
  have do: "(if evt_isdir evt then a0_discovery_watch_recursive os getenv ?p d h else announce_if_match getenv ?p d h) = Some y"
    using r False get q by (auto simp: inotify_event_do_def child_def slash_def Let_def split: if_splits)
  show ?thesis
  proof (cases "evt_isdir evt")
    case True
    then obtain tr where "grows getenv glob T h y tr" "dir_done tr ?p"
      using watch_recursive_grows [OF _ d is_abs_child [OF w(1)], of os getenv "evt_name evt" h y] do by auto
    then show ?thesis using True w(2) by (auto simp: evt_done_def)
  next
    case False
    then obtain tr where "grows getenv glob T h y tr" "entry_done getenv glob T tr ?p"
      using announce_correct [OF d, of getenv ?p h y] do by auto
    then show ?thesis using False w(2) by (auto simp: evt_done_def)
  qed
qed

lemma events_do_correct:
  assumes "dinv glob T d" "inotify_events_do os getenv evts d h = Some y"
  shows "\<exists>tr. grows getenv glob T h y tr \<and> (\<forall>evt \<in> set evts. evt_done getenv glob T tr evt)"
  using assms
proof (induction evts arbitrary: T d h)
  case Nil
  then show ?case by (intro exI [of _ "[]"]) (auto simp: grows_def)
next
  case (Cons evt evts)
  obtain d1 h1 where 1: "inotify_event_do os getenv evt d h = Some (d1, h1)"
      "inotify_events_do os getenv evts d1 h1 = Some y"
    using Cons.prems(2) by (auto simp: bind_eq_Some_conv)
  obtain tr1 where tr1: "grows getenv glob T h (d1, h1) tr1" "evt_done getenv glob T tr1 evt"
    using event_do_correct [OF Cons.prems(1) 1(1)] by blast
  then have "dinv glob (T @ tr1) d1" by (simp add: grows_def)
  then obtain tr2 where "grows getenv glob (T @ tr1) h1 y tr2" "\<forall>evt \<in> set evts. evt_done getenv glob (T @ tr1) tr2 evt"
    using Cons.IH 1(2) by blast
  then show ?case
    using grows_trans [OF tr1(1)] tr1(2) by (intro exI [of _ "tr1 @ tr2"]) (auto intro: evt_done_more evt_done_later)
qed

lemma grows_event:
  assumes "dinv glob T d" "\<And>p. ev \<noteq> Callback p" "fine getenv glob T ev tr" "grows getenv glob (T @ [ev]) (h @ [ev]) y tr"
  shows "grows getenv glob T h y (ev # tr)"
  using assms by (simp add: grows_def)

lemma inotify_runone_correct:
  assumes d: "dinv glob T d" and r: "a0_discovery_inotify_runone os getenv d h = Some (err, y)"
  shows "\<exists>tr. grows getenv glob T h y tr"
proof -
  let ?a = "k_inotify_read os h (inotify_fd d)"
  let ?ev = "Inotify_read (inotify_fd d) ?a"
  have d1: "dinv glob (T @ [?ev]) d" by (intro dinv_mono [OF d]) simp
  show ?thesis
  proof (cases ?a)
    case (Inl e)
    then have "y = (d, h @ [?ev])" using r by (auto simp: a0_discovery_inotify_runone_def sys_def split: if_splits)
    then have "grows getenv glob T h y [?ev]" using d1 Inl by (simp add: grows_def)
    then show ?thesis by blast
  next
    case (Inr evts)
    then have "inotify_events_do os getenv evts d (h @ [?ev]) = Some y"
      using r by (auto simp: a0_discovery_inotify_runone_def sys_def)
    then obtain tr where tr: "grows getenv glob (T @ [?ev]) (h @ [?ev]) y tr"
        "\<forall>evt \<in> set evts. evt_done getenv glob (T @ [?ev]) tr evt"
      using events_do_correct [OF d1] by blast
    then have "fine getenv glob T ?ev tr"
      using Inr by (auto intro: evt_done_read)
    then have "grows getenv glob T h y (?ev # tr)" using tr(1) by (intro grows_event [OF d]) simp_all
    then show ?thesis by blast
  qed
qed

lemma epoll_runone_correct:
  assumes d: "dinv glob T d" and r: "a0_discovery_epoll_runone os getenv d h = Some (err, y)"
  shows "\<exists>tr. grows getenv glob T h y tr"
proof -
  let ?ev = "Epoll_wait (epoll_fd d) (k_epoll_wait os h (epoll_fd d))"
  have d1: "dinv glob (T @ [?ev]) d" by (intro dinv_mono [OF d]) simp
  then have "grows getenv glob T h (d, h @ [?ev]) [?ev]" by (simp add: grows_def)
  moreover have "\<exists>tr. grows getenv glob (T @ [?ev]) (h @ [?ev]) y tr"
  proof (cases "\<exists>fd. k_epoll_wait os h (epoll_fd d) = Inr (Some fd) \<and> fd = inotify_fd d")
    case True
    then obtain err1 y1 where "a0_discovery_inotify_runone os getenv d (h @ [?ev]) = Some (err1, y1)" "y = y1"
      using r by (auto simp: a0_discovery_epoll_runone_def sys_def bind_eq_Some_conv split: if_splits)
    then show ?thesis using inotify_runone_correct [OF d1] by blast
  next
    case False
    then have "y = (d, h @ [?ev])"
      using r by (auto simp: a0_discovery_epoll_runone_def sys_def split: sum.splits option.splits if_splits)
    then show ?thesis using d1 by (auto simp: grows_def intro: exI [of _ "[]"])
  qed
  ultimately show ?thesis by (blast intro: grows_trans)
qed

text \<open>The parts of a pattern lie side by side in it, a slash apart.\<close>

fun adjacent :: "nat \<Rightarrow> a0_pathglob_part list \<Rightarrow> bool" where
  "adjacent a [] \<longleftrightarrow> True"
| "adjacent a (p # ps) \<longleftrightarrow> part_data p = a \<and> adjacent (a + part_size p + 1) ps"

lemma adjacent_nth: "adjacent a ps \<Longrightarrow> i < length ps \<Longrightarrow>
    part_data (ps ! i) = a + (\<Sum>p \<leftarrow> take i ps. part_size p + 1)"
  by (induction ps arbitrary: a i) (auto simp: less_Suc_eq_0_disj)

lemma init_loop_adjacent:
  "init_loop path iter recent hs ps = Some qs \<Longrightarrow> recent < iter \<Longrightarrow>
   \<exists>rs. qs = ps @ rs \<and> rs \<noteq> [] \<and> adjacent (recent + 1) rs"
proof (induction path iter recent hs ps rule: init_loop.induct)
  case (1 path iter recent hs ps)
  let ?t = "if hs then if iter = recent + 3 \<and> take 3 (drop recent path) = ''/**'' then A0_PATHGLOB_PART_TYPE_RECURSIVE
      else A0_PATHGLOB_PART_TYPE_PATTERN else A0_PATHGLOB_PART_TYPE_VERBATIM"
  consider "iter < length path" "path ! iter = CHR ''*''" | "iter < length path" "path ! iter = CHR ''/''"
    | "iter < length path" "path ! iter \<noteq> CHR ''*''" "path ! iter \<noteq> CHR ''/''" | "\<not> iter < length path"
    by blast
  then show ?case
  proof cases
    case 2
    obtain ps1 where ps1: "add_part ps recent iter ?t = Some ps1" "init_loop path (iter + 1) iter hs ps1 = Some qs"
      using 1(4) 2 by (subst (asm) init_loop.simps) (auto simp: Let_def bind_eq_Some_conv)
    then obtain rs where rs: "qs = ps1 @ rs" "adjacent (iter + 1) rs"
      using 1(2) 2 by fastforce
    obtain p where p: "ps1 = ps @ [p]" "part_data p = recent + 1" "part_size p = iter - recent - 1"
      using ps1(1) that [of "\<lparr>part_data = recent + 1, part_size = iter - recent - 1, part_type = ?t\<rparr>"]
      by (auto simp: add_part_def simp del: One_nat_def split: if_splits)
    have "recent + 1 + part_size p + 1 = iter + 1" using p(3) 1(5) by simp
    then have "adjacent (recent + 1) (p # rs)" using rs(2) p(2) by (simp only: adjacent.simps)
    then show ?thesis using rs(1) p(1) by auto
  next
    case star: 1
    then show ?thesis using 1(1) 1(4,5) by (subst (asm) init_loop.simps) simp
  next
    case 3
    then show ?thesis using 1(3) 1(4,5) by (subst (asm) init_loop.simps) simp
  next
    case 4
    then show ?thesis using 1(4) by (subst (asm) init_loop.simps) (auto simp: add_part_def split: if_splits)
  qed
qed

lemma init_adjacent:
  assumes "a0_pathglob_init getenv pattern = Some (Inr glob)"
  shows "a0_abspath getenv pattern = Inr (glob_path glob) \<and> glob_parts glob \<noteq> [] \<and> adjacent 1 (glob_parts glob)"
  using assms init_loop_adjacent [of "glob_path glob" 1 0 False "[]" "glob_parts glob"]
  by (auto simp: a0_pathglob_init_def split: if_splits sum.splits)

lemma rootlen_correct:
  assumes "rootlen_loop os glob i h = (n, h')" "i < length (glob_parts glob)"
  shows "\<exists>tr j. h' = h @ tr \<and> (\<forall>ev \<in> set tr. \<exists>p r. ev = Stat p r) \<and> i \<le> j \<and> j < length (glob_parts glob) \<and>
     n = part_data (glob_parts glob ! j) - (part_data (glob_parts glob ! 0) - 1) \<and>
     (\<forall>l. i \<le> l \<and> l < j \<longrightarrow> part_type (glob_parts glob ! l) = A0_PATHGLOB_PART_TYPE_VERBATIM)"
  using assms
proof (induction os glob i h rule: rootlen_loop.induct)
  case (1 os glob i h)
  let ?ps = "glob_parts glob"
  let ?start = "part_data (?ps ! 0) - 1"
  show ?case
  proof (cases "i + 1 < length ?ps \<and> part_type (?ps ! i) = A0_PATHGLOB_PART_TYPE_VERBATIM")
    case True
    let ?p = "take (part_data (?ps ! i) - ?start + part_size (?ps ! i) + 1) (drop ?start (glob_path glob))"
    show ?thesis
    proof (cases "k_stat os h ?p")
      case (Inl e)
      then have "h' = h @ [Stat ?p (Inl e)] \<and> n = part_data (?ps ! i) - ?start"
        using 1(2) True by (subst (asm) rootlen_loop.simps) (auto simp: sys_def Let_def)
      then show ?thesis using 1(3) by (intro exI [of _ "[Stat ?p (Inl e)]"] exI [of _ i]) auto
    next
      case (Inr st)
      then have r: "rootlen_loop os glob (i + 1) (h @ [Stat ?p (Inr st)]) = (n, h')"
        using 1(2) True by (subst (asm) rootlen_loop.simps) (simp add: sys_def Let_def)
      obtain tr j where "h' = (h @ [Stat ?p (Inr st)]) @ tr" "\<forall>ev \<in> set tr. \<exists>p r. ev = Stat p r" "i + 1 \<le> j" "j < length ?ps"
          "n = part_data (?ps ! j) - ?start" "\<forall>l. i + 1 \<le> l \<and> l < j \<longrightarrow> part_type (?ps ! l) = A0_PATHGLOB_PART_TYPE_VERBATIM"
        using 1(1) True r Inr by (fastforce simp: sys_def)
      moreover from this True have "\<forall>l. i \<le> l \<and> l < j \<longrightarrow> part_type (?ps ! l) = A0_PATHGLOB_PART_TYPE_VERBATIM"
        by (metis Suc_eq_plus1 Suc_leI le_neq_implies_less)
      ultimately show ?thesis by (intro exI [of _ "Stat ?p (Inr st) # tr"] exI [of _ j]) auto
    qed
  next
    case False
    moreover have "length ?ps - 1 = i" if "\<not> i + 1 < length ?ps" using that 1(3) by simp
    ultimately have "h' = h \<and> n = part_data (?ps ! i) - ?start"
      using 1(2,3) by (subst (asm) rootlen_loop.simps) (auto simp: Let_def less_Suc_eq split: if_splits)
    then show ?thesis using 1(3) by (intro exI [of _ "[]"] exI [of _ i]) auto
  qed
qed

lemma watch_root_correct:
  assumes d: "dinv glob [] d" and r: "a0_discovery_watch_root os getenv d h = Some y"
    and g: "a0_pathglob_init getenv pattern = Some (Inr glob)"
  shows "\<exists>tr. grows getenv glob [] h y tr"
proof -
  obtain n h1 where l: "rootlen_loop os glob 0 h = (n, h1)" by fastforce
  have ps: "glob_parts glob \<noteq> []" "adjacent 1 (glob_parts glob)" "a0_abspath getenv pattern = Inr (glob_path glob)"
    using init_adjacent [OF g] by simp_all
  obtain tr j where tr: "h1 = h @ tr" "\<forall>ev \<in> set tr. \<exists>p r. ev = Stat p r" "j < length (glob_parts glob)"
      "n = part_data (glob_parts glob ! j) - (part_data (glob_parts glob ! 0) - 1)"
    using rootlen_correct [OF l] ps(1) by auto
  have "part_data (glob_parts glob ! 0) = 1" using adjacent_nth [OF ps(2), of 0] ps(1) by simp
  then have "0 < n" using adjacent_nth [OF ps(2) tr(3)] tr(4) by simp
  moreover obtain q where "glob_path glob = CHR ''/'' # q" using abspath_absolute [OF ps(3)] by blast
  ultimately have abs: "is_abs (take n (glob_path glob))" by (cases n) (simp_all add: is_abs_def)
  have "dinv glob tr d" using dinv_mono [OF d, of tr] tr(2) by auto
  moreover have "a0_discovery_watch_recursive os getenv (take n (glob_path glob)) d h1 = Some y"
    using r l d by (simp add: a0_discovery_watch_root_def a0_discovery_rootlen_def dinv_def split: if_splits)
  ultimately obtain tr2 where tr2: "grows getenv glob tr h1 y tr2" using watch_recursive_grows abs by blast
  have "handled getenv glob T tr" for T
    using tr(2) by (induction tr arbitrary: T) auto
  then have "grows getenv glob [] h (d, h1) tr" using tr(1) \<open>dinv glob tr d\<close> by (simp add: grows_def)
  then show ?thesis using grows_trans [of getenv glob "[]" h d h1 tr y tr2] tr2 by auto
qed

lemma init_dinv:
  assumes "a0_discovery_init os getenv pattern h0 = Some (Inr d0, h)"
  shows "dinv (dc_pathglob d0) [] d0 \<and> a0_pathglob_init getenv pattern = Some (Inr (dc_pathglob d0))"
proof -
  obtain x where x: "a0_pathglob_init getenv pattern = Some x"
    using assms by (auto simp: a0_discovery_init_def bind_eq_Some_conv)
  then obtain glob where g: "a0_pathglob_init getenv pattern = Some (Inr glob)"
    using assms by (cases x) (auto simp: a0_discovery_init_def)
  then have "d0 = \<lparr>dc_pathglob = glob,
      watch_map = a0_map_init a0_hash_u32_fn a0_cmp_u32_fn (0, []),
      reverse_watch_map = a0_map_init a0_hash_str_fn a0_cmp_str_fn ([], 0),
      discovered_map = a0_map_init a0_hash_str_fn a0_cmp_str_fn ([], 0),
      epoll_fd = epoll_fd d0, inotify_fd = inotify_fd d0, close_fd = close_fd d0\<rparr>"
    using assms by (auto simp: a0_discovery_init_def sys_def Let_def)
  then have f: "dc_pathglob d0 = glob" "watch_map d0 = a0_map_init a0_hash_u32_fn a0_cmp_u32_fn (0, [])"
      "reverse_watch_map d0 = a0_map_init a0_hash_str_fn a0_cmp_str_fn ([], 0)"
      "discovered_map d0 = a0_map_init a0_hash_str_fn a0_cmp_str_fn ([], 0)"
    by (metis a0_discovery.select_convs)+
  show ?thesis
    unfolding dinv_def f using g by (simp only: map_kind_init map_abs_init) simp
qed

lemma thread_grows:
  assumes "a0_discovery_init os getenv pattern h0 = Some (Inr d0, h1)" "thread_at os getenv d0 h1 d h"
  shows "\<exists>tr. grows getenv (dc_pathglob d0) [] h1 (d, h) tr"
  using assms(2)
proof (induction rule: thread_at.induct)
  case (root d h)
  then show ?case using watch_root_correct [of _ d0] init_dinv [OF assms(1)] by blast
next
  case (round d h err d' h')
  then obtain tr where tr: "grows getenv (dc_pathglob d0) [] h1 (d, h) tr" by blast
  then have "dinv (dc_pathglob d0) tr d" by (simp add: grows_def)
  then obtain tr2 where "grows getenv (dc_pathglob d0) tr h (d', h') tr2"
    using epoll_runone_correct [OF _ round.hyps(2)] by blast
  then show ?case using grows_trans [OF tr, of "(d', h')" tr2] by auto
qed


section \<open>The first scan ends\<close>

text \<open>A handle, not reused, is read at most \<open>N\<close> times, and the paths of the names that it shows fit.\<close>

definition listings_end :: "os \<Rightarrow> nat \<Rightarrow> bool" where
  "listings_end os N \<longleftrightarrow> (\<forall>h k. reads k h \<ge> N \<longrightarrow> k_readdir os h k = None)"

definition names_fit :: "os \<Rightarrow> bool" where
  "names_fit os \<longleftrightarrow> (\<forall>h k n ty d. k_readdir os h k = Some (n, ty) \<and> Opendir d (Inr k) \<in> set h \<longrightarrow>
     n \<noteq> [] \<and> length (slash d @ n) \<le> PATH_MAX)"

lemma skip_listings: "listings_end os N \<Longrightarrow> \<exists>r h'. iter_skip_dots os k h = Some (r, h')"
  by (rule skip_returns [where P = "\<lambda>_. True" and f = "reads k" and N = N]) (simp_all add: listings_end_def reads_def)

definition can_list :: "os \<Rightarrow> history \<Rightarrow> string \<Rightarrow> bool" where
  "can_list os h p \<longleftrightarrow> (\<exists>st k. k_lstat os h p = Inr st \<and> st_isdir st \<and> k_opendir os (h @ [Lstat p (Inr st)]) p = Inr k)"

text \<open>
  What the scan needs of the system, beside \<open>listings_end\<close> and \<open>names_fit\<close>: directories that a
  listing shows can be listed in turn, and the files that it shows are not too deep for the matching.
\<close>

definition scannable :: "os \<Rightarrow> environ \<Rightarrow> a0_pathglob \<Rightarrow> bool" where
  "scannable os getenv glob \<longleftrightarrow> (\<forall>h k n ty d. k_readdir os h k = Some (n, ty) \<and> Opendir d (Inr k) \<in> set h \<longrightarrow>
     (ty = DT_DIR \<longrightarrow> is_dots n \<or> (\<forall>h'. can_list os h' (child d n))) \<and>
     (ty = DT_REG \<longrightarrow> a0_pathglob_match getenv glob (Some (child d n)) \<noteq> None))"

lemma watch_path_returns: "dinv glob T d \<Longrightarrow> \<exists>y. a0_discovery_watch_path os p d h = Some y"
proof -
  assume d: "dinv glob T d"
  have "a0_map_has (reverse_watch_map d) (str p) = Some (str p \<in> dom (map_abs (reverse_watch_map d)))"
    using str_map.has_law [of "reverse_watch_map d" "str p"] d by (simp add: dinv_def)
  note has = this
  show ?thesis
  proof (cases "k_add_watch os h (inotify_fd d) p")
    case (Inl e)
    then show ?thesis using has by (simp add: a0_discovery_watch_path_def sys_def)
  next
    case (Inr wd)
    obtain m1 where "a0_map_put (watch_map d) wd p = Some (A0_OK, m1)"
      using u32_map.put_law [of "watch_map d" wd p] d unfolding dinv_def by blast
    moreover obtain m2 where "a0_map_put (reverse_watch_map d) (str p) 0 = Some (A0_OK, m2)"
      using str_map.put_law [of "reverse_watch_map d" "str p" 0] d unfolding dinv_def by blast
    ultimately show ?thesis using has Inr by (simp add: a0_discovery_watch_path_def sys_def)
  qed
qed

lemma announce_returns:
  assumes d: "dinv glob T d" and m: "a0_pathglob_match getenv glob (Some p) \<noteq> None"
  shows "\<exists>y. announce_if_match getenv p d h = Some y"
proof -
  have "a0_map_has (discovered_map d) (str p) = Some (str p \<in> dom (map_abs (discovered_map d)))"
    using str_map.has_law [of "discovered_map d" "str p"] d by (simp add: dinv_def)
  moreover have "\<exists>m. a0_map_put (discovered_map d) (str p) 0 = Some (A0_OK, m)"
    using str_map.put_law [of "discovered_map d" "str p" 0] d unfolding dinv_def by blast
  ultimately show ?thesis
    using d m by (auto simp: announce_if_match_def a0_discovery_announce_def dinv_def)
qed

lemma scan_loop_returns:
  assumes N: "listings_end os N" and fit: "names_fit os" and sc: "scannable os getenv glob"
    and p: "is_abs p" "it_path it = slash p"
    and sub: "\<And>n d h T. n \<noteq> [] \<Longrightarrow> length (child p n) \<le> PATH_MAX \<Longrightarrow> (\<And>h'. can_list os h' (child p n)) \<Longrightarrow>
      dinv glob T d \<Longrightarrow> \<exists>r. watch_recursive_run os getenv (child p n) None d h = Some r"
    and d: "dinv glob T d" "Opendir p (Inr (it_dir it)) \<in> set T" "Opendir p (Inr (it_dir it)) \<in> set h"
  shows "\<exists>r. watch_recursive_run os getenv p (Some it) d h = Some r"
  using d
proof (induction "N - reads (it_dir it) h" arbitrary: d h T rule: less_induct)
  case less
  let ?k = "it_dir it"
  obtain r1 h1 where s: "iter_skip_dots os ?k h = Some (r1, h1)" using skip_listings [OF N] by blast
  obtain dots where dots: "h1 = h @ dots @ [Readdir ?k r1]" "\<forall>ev \<in> set dots. \<exists>n ty. ev = Readdir ?k (Some (n, ty)) \<and> is_dots n"
      "case r1 of None \<Rightarrow> True | Some (n, ty) \<Rightarrow> \<not> is_dots n" "k_readdir os (h @ dots) ?k = r1"
    using iter_skip_dots_events [OF s] by blast
  show ?case
  proof (cases r1)
    case None
    then show ?thesis using s
      by (subst watch_recursive_run.simps) (simp add: a0_file_iter_next_def)
  next
    case (Some x)
    obtain n ty where x: "x = (n, ty)" by (cases x)
    let ?q = "child p n"
    have op: "Opendir p (Inr ?k) \<in> set (h @ dots)" using less.prems by simp
    then have n: "n \<noteq> []" "length ?q \<le> PATH_MAX"
      using fit dots(4) Some x unfolding names_fit_def child_def by blast+
    have rd: "k_readdir os (h @ dots) ?k = Some (n, ty)" "\<not> is_dots n" using dots(3,4) Some x by simp_all
    have sc': "ty = DT_DIR \<longrightarrow> (\<forall>h'. can_list os h' ?q)"
        "ty = DT_REG \<longrightarrow> a0_pathglob_match getenv glob (Some ?q) \<noteq> None"
      using sc op rd unfolding scannable_def by blast+
    have nx: "a0_file_iter_next os it h = Some (Inr \<lparr>ent_fullpath = ?q, ent_filename = n, ent_d_type = ty\<rparr>, h1)"
      using s Some x n(2) p(2) by (simp add: a0_file_iter_next_def child_def)
    let ?T1 = "T @ dots @ [Readdir ?k (Some (n, ty))]"
    have d1: "dinv glob ?T1 d" using dots(2) by (intro dinv_readdirs [OF less.prems(1)]) auto
    let ?sub = "if ty = DT_DIR then watch_recursive_run os getenv ?q None d h1
      else if ty = DT_REG then announce_if_match getenv ?q d h1 else Some (d, h1)"
    obtain d2 h2 where sub': "?sub = Some (d2, h2)"
      using sub [OF n _ d1, of h1] sc' announce_returns [OF d1, of getenv ?q h1] by (metis surj_pair)
    have "\<exists>trs. grows getenv glob ?T1 h1 (d2, h2) trs"
    proof (cases ty)
      case DT_DIR
      then show ?thesis
        using watch_recursive_correct [of os getenv ?q None d h1 "(d2, h2)"] sub' d1 is_abs_child [OF p(1), of n]
        by (auto simp: watch_post_def)
    next
      case DT_REG
      then show ?thesis using announce_correct [OF d1, of getenv ?q h1 "(d2, h2)"] sub' by auto
    qed (use sub' d1 in \<open>auto simp: grows_def\<close>)
    then obtain trs where trs: "h2 = h1 @ trs" "dinv glob (?T1 @ trs) d2" by (auto simp: grows_def)
    have "reads ?k (h @ dots) < N" using N dots(4) Some unfolding listings_end_def by (metis not_le option.distinct(1))
    then have "N - reads ?k h2 < N - reads ?k h" using dots(1) trs by (simp add: reads_def)
    then obtain r where "watch_recursive_run os getenv p (Some it) d2 h2 = Some r"
      using less.hyps [OF _ trs(2), of h2] less.prems dots(1) trs by auto
    then show ?thesis
      using nx sub' by (subst watch_recursive_run.simps) (auto cong: if_cong)
  qed
qed

lemma scan_returns:
  assumes "listings_end os N" "names_fit os" "scannable os getenv glob" "is_abs p" "length p \<le> PATH_MAX"
    "\<And>h. can_list os h p" "dinv glob T d"
  shows "\<exists>r. watch_recursive_run os getenv p None d h = Some r"
  using assms(4-7)
proof (induction "PATH_MAX - length p" arbitrary: p d h T rule: less_induct)
  case less
  obtain d1 h1 where w: "a0_discovery_watch_path os p d h = Some (d1, h1)"
    using watch_path_returns [OF less.prems(4)] by (metis surj_pair)
  obtain tr1 where tr1: "grows getenv glob T h (d1, h1) tr1"
    using watch_path_correct [OF less.prems(4) w less.prems(1)] by blast
  obtain st k where k: "k_lstat os h1 p = Inr st" "st_isdir st" "k_opendir os (h1 @ [Lstat p (Inr st)]) p = Inr k"
    using less.prems(3) unfolding can_list_def by blast
  let ?it = "\<lparr>it_path = slash p, it_dir = k\<rparr>" and ?evs = "[Lstat p (Inr st), Opendir p (Inr k)]"
  have i: "a0_file_iter_init os getenv (Some p) h1 = (Inr ?it, h1 @ ?evs)"
    using k less.prems(1,2) by (simp add: a0_file_iter_init_def is_abs_abspath sys_def slash_def Let_def)
  have D: "dinv glob (T @ tr1 @ ?evs) d1"
    using tr1 dinv_mono [of glob "T @ tr1" d1 ?evs] by (simp add: grows_def)
  have "\<exists>r. watch_recursive_run os getenv p (Some ?it) d1 (h1 @ ?evs) = Some r"
  proof (rule scan_loop_returns [OF assms(1-3) less.prems(1) _ _ D])
    fix n d h T assume n: "n \<noteq> ([] :: string)" "length (child p n) \<le> PATH_MAX" "\<And>h'. can_list os h' (child p n)"
      and d: "dinv glob T d"
    have "length p < length (child p n)" using n(1) by (simp add: child_def slash_def)
    then show "\<exists>r. watch_recursive_run os getenv (child p n) None d h = Some r"
      using n(2,3) d by (intro less.hyps [where T = T] is_abs_child less.prems(1)) simp_all
  qed simp_all
  then show ?case using w i by (subst watch_recursive_run.simps) simp
qed


section \<open>The root of a pattern\<close>

definition joined :: "string list \<Rightarrow> string" where
  "joined ns = concat (map (\<lambda>n. CHR ''/'' # n) ns)"

lemma joined_split: "joined (split_path t) = CHR ''/'' # t"
proof (induction t)
  case (Cons c t)
  then show ?case using split_path_nonempty [of t] by (cases "split_path t") (auto simp: joined_def)
qed (simp add: joined_def)

lemma joined_names: "is_abs s \<Longrightarrow> s = joined (names s)"
  by (cases s) (simp_all add: is_abs_def names_def joined_split)

lemma joined_append: "joined (ns @ ms) = joined ns @ joined ms"
  by (simp add: joined_def)

lemma joined_slash: "ms \<noteq> [] \<Longrightarrow> \<exists>t. joined ms = CHR ''/'' # t"
  by (cases ms) (simp_all add: joined_def)

lemma match_decides:
  assumes "parsed G glob" "a0_abspath getenv (Some path) = Inr P" "CHR 0x00 \<notin> set P"
  shows "a0_pathglob_match getenv glob (Some path) =
    (if length (names P) \<le> A0_PATHGLOB_MAX_DEPTH then Some (Inr (path_matches G P)) else None)"
proof (cases "length (names P) \<le> A0_PATHGLOB_MAX_DEPTH")
  case True
  then obtain real where real: "a0_pathglob_init getenv (Some path) = Some (Inr real)" "parsed P real"
    using init_spec [OF assms(2)] by auto
  have "pathglob_match_loop glob real 0 0 0 0 = Some (path_matches G P)"
    using pathglob_match_loop_spec [OF assms(1) real(2) assms(3), of 0 0 0 0 None]
    by (simp add: dirs.chance_start dirs.tried_start path_matches_def)
  then show ?thesis using True by (simp add: a0_pathglob_match_def real(1))
qed (use init_spec [OF assms(2)] in \<open>simp add: a0_pathglob_match_def\<close>)

lemma init_parsed:
  assumes "a0_pathglob_init getenv (Some pattern) = Some (Inr glob)"
  shows "parsed (glob_path glob) glob"
  using init_spec [of getenv pattern "glob_path glob"] init_adjacent [OF assms] assms by (auto split: if_splits)

text \<open>A pattern that begins with plain names matches only paths that begin with them, and go on.\<close>

lemma elems_last: "ns \<noteq> [] \<Longrightarrow> \<exists>n. last (elems ns) = Name n"
proof (induction ns rule: elems.induct)
  case (3 n m ns)
  moreover have "elems (m # ns) \<noteq> []" by (metis length_elems length_0_conv list.discI)
  ultimately show ?case by simp
qed simp_all

lemma wild_verbatim_prefix:
  assumes "dirs.wild es ns" "\<forall>l < j. es ! l = Name (vs ! l) \<and> CHR ''*'' \<notin> set (vs ! l)" "j < length es" "j \<le> length vs"
    "\<exists>n. last es = Name n"
  shows "take j ns = take j vs \<and> j < length ns"
  using assms
proof (induction j arbitrary: es ns vs)
  case 0
  obtain n where "Name n \<in> set es" using 0(3,5) by (metis last_in_set length_0_conv less_irrefl)
  then have "\<not> dirs.wild es []" by (auto simp: dirs.wild_Nil list_all_iff)
  then show ?case using 0(1) by auto
next
  case (Suc j)
  obtain e es' where es: "es = e # es'" using Suc.prems(3) by (cases es) auto
  obtain v vs' where vs: "vs = v # vs'" using Suc.prems(4) by (cases vs) auto
  have e: "e = Name v" "CHR ''*'' \<notin> set v" using Suc.prems(2) es vs by auto
  obtain n ns' where ns: "ns = n # ns'" "chars.wild v n" "dirs.wild es' ns'"
    using Suc.prems(1) e(1) es by (cases ns) auto
  have "n = v" using wild_verbatim [OF e(2)] ns(2) by simp
  moreover have "take j ns' = take j vs' \<and> j < length ns'"
  proof (rule Suc.IH [OF ns(3)])
    have "es' \<noteq> []" using Suc.prems(3) es by auto
    then show "\<exists>n. last es' = Name n" using Suc.prems(5) es by simp
  qed (use Suc.prems(2-4) es vs in auto)
  ultimately show ?case using ns(1) vs by simp
qed

lemma sum_names:
  "(\<Sum>p \<leftarrow> ps. length (f p) + 1) = length (joined (map f ps))"
  by (induction ps) (auto simp: joined_def)

lemma root_take:
  assumes "parsed G glob" "adjacent 1 (glob_parts glob)" "is_abs G" "j < length (glob_parts glob)"
  shows "take (part_data (glob_parts glob ! j)) G = joined (take j (names G)) @ ''/''"
proof -
  let ?ps = "glob_parts glob"
  have names: "map (part_str G) ?ps = names G" using assms(1) by (simp add: parsed_def)
  have sz: "part_size p = length (part_str G p)" if "p \<in> set ?ps" for p
    using parsed_good [OF assms(1) that] by (simp add: good_part_def part_str_def min_def) linarith
  have "part_data (?ps ! j) = 1 + (\<Sum>p \<leftarrow> take j ?ps. part_size p + 1)"
    by (rule adjacent_nth [OF assms(2,4)])
  also have "map (\<lambda>p. part_size p + 1) (take j ?ps) = map (\<lambda>p. length (part_str G p) + 1) (take j ?ps)"
    using sz by (auto dest: in_set_takeD)
  also have "(\<Sum>p \<leftarrow> take j ?ps. length (part_str G p) + 1) = length (joined (take j (names G)))"
    unfolding sum_names by (simp add: names take_map [symmetric])
  finally have d: "part_data (?ps ! j) = 1 + length (joined (take j (names G)))" .
  have "drop j (names G) \<noteq> []" using assms(4) names by (metis drop_eq_Nil length_map not_le)
  then obtain t where "joined (drop j (names G)) = CHR ''/'' # t" using joined_slash by blast
  then have "G = joined (take j (names G)) @ CHR ''/'' # t"
    using joined_names [OF assms(3)] joined_append [of "take j (names G)" "drop j (names G)"] by simp
  then show ?thesis unfolding d by (metis append_Cons append_Nil append_assoc append_eq_conv_conj length_append length_Cons
      list.size(3) One_nat_def add.commute)
qed

text \<open>Where the scan begins.\<close>

lemma root_shape:
  assumes "a0_pathglob_init getenv (Some pattern) = Some (Inr glob)" "dc_pathglob d = glob"
  obtains j where "take (fst (a0_discovery_rootlen os d h)) (glob_path glob) = joined (take j (names (glob_path glob))) @ ''/''"
    "j < length (names (glob_path glob))"
    "\<forall>l < j. elems (names (glob_path glob)) ! l = Name (names (glob_path glob) ! l) \<and> CHR ''*'' \<notin> set (names (glob_path glob) ! l)"
proof -
  let ?G = "glob_path glob" and ?ps = "glob_parts glob"
  have g: "parsed ?G glob" by (rule init_parsed [OF assms(1)])
  have ps: "?ps \<noteq> []" "adjacent 1 ?ps" "a0_abspath getenv (Some pattern) = Inr ?G" using init_adjacent [OF assms(1)] by simp_all
  obtain q where "?G = CHR ''/'' # q" using abspath_absolute [OF ps(3)] by blast
  then have abs: "is_abs ?G" by (simp add: is_abs_def)
  obtain n h' where l: "rootlen_loop os glob 0 h = (n, h')" by fastforce
  obtain j where j: "j < length ?ps" "n = part_data (?ps ! j) - (part_data (?ps ! 0) - 1)"
      "\<forall>l < j. part_type (?ps ! l) = A0_PATHGLOB_PART_TYPE_VERBATIM"
    using rootlen_correct [OF l] ps(1) by auto
  have "part_data (?ps ! 0) = 1" using adjacent_nth [OF ps(2), of 0] ps(1) by simp
  then have n: "take n ?G = joined (take j (names ?G)) @ ''/''"
    using root_take [OF g ps(2) abs j(1)] j(2) by simp
  have len: "length ?ps = length (names ?G)" using g by (metis length_map parsed_def)
  have "elems (names ?G) ! l = Name (names ?G ! l) \<and> CHR ''*'' \<notin> set (names ?G ! l)" if "l < j" for l
  proof -
    have "stands_for ?G (?ps ! l) (elems (names ?G) ! l)" "part_str ?G (?ps ! l) = names ?G ! l"
      using g that j(1) len by (simp_all add: parsed_def list_all2_conv_all_nth) (metis nth_map order.strict_trans)
    then show ?thesis using j(3) that by (auto simp: stands_for_def split: elem.splits)
  qed
  then show thesis
    using n j(1) len l assms(2) by (intro that [of j]) (simp_all add: a0_discovery_rootlen_def)
qed

text \<open>
  C30. The scan begins high enough. Every path that the pattern matches lies below the directory at which
  discovery begins to watch and list: the part of the pattern that \<^verbatim>\<open>a0_discovery_rootlen\<close> takes, whichever
  directories exist when it looks, is a prefix of the path, up to a slash.
\<close>

theorem discovery_root_covers:
  assumes "a0_pathglob_init getenv (Some pattern) = Some (Inr glob)" "dc_pathglob d = glob"
    "a0_abspath getenv (Some path) = Inr P" "CHR 0x00 \<notin> set P"
    "a0_pathglob_match getenv glob (Some path) = Some (Inr True)"
  shows "\<exists>rest. P = take (fst (a0_discovery_rootlen os d h)) (glob_path glob) @ rest"
proof -
  let ?G = "glob_path glob"
  obtain j where j: "take (fst (a0_discovery_rootlen os d h)) ?G = joined (take j (names ?G)) @ ''/''" "j < length (names ?G)"
    "\<forall>l < j. elems (names ?G) ! l = Name (names ?G ! l) \<and> CHR ''*'' \<notin> set (names ?G ! l)"
    by (rule root_shape [OF assms(1,2)])
  have "path_matches ?G P"
    using match_decides [OF init_parsed [OF assms(1)] assms(3,4)] assms(5) by (simp split: if_splits)
  moreover have "names ?G \<noteq> []" using j(2) by auto
  ultimately have m: "take j (names P) = take j (names ?G)" "j < length (names P)"
    using wild_verbatim_prefix [of "elems (names ?G)" "names P" j "names ?G"] elems_last j(2,3)
    by (simp_all add: path_matches_def)
  obtain q where "P = CHR ''/'' # q" using abspath_absolute [OF assms(3)] by blast
  then have "P = joined (take j (names P)) @ joined (drop j (names P))"
    using joined_names [of P] joined_append [of "take j (names P)" "drop j (names P)"] by (simp add: is_abs_def)
  moreover obtain t where "joined (drop j (names P)) = CHR ''/'' # t"
    using joined_slash [of "drop j (names P)"] m(2) by auto
  ultimately have "P = (joined (take j (names ?G)) @ ''/'') @ t" using m(1) by simp
  then show ?thesis unfolding j(1) by blast
qed

lemma tree_listings_end: "listings_end tree_os 3"
proof -
  have "tree_readdir h k = None" if "reads k h \<ge> 3" for h k
  proof -
    have "\<not> reads k h < length (tree_listing p)" for p using that tree_listing_short [of p] by simp
    then show ?thesis by (simp add: tree_readdir_def split: list.split event.split)
  qed
  then show ?thesis by (simp add: listings_end_def tree_os_def)
qed

lemma tree_names_fit: "names_fit tree_os"
proof -
  have "n \<noteq> [] \<and> length (slash d @ n) \<le> PATH_MAX" if "(n, ty) \<in> set (tree_listing d)" for n ty d
    using that by (auto simp: tree_listing_def slash_def PATH_MAX_def split: if_splits)
  then show ?thesis
    unfolding names_fit_def tree_os_def by (auto dest!: tree_readdir_Some)
qed

text \<open>The example: everything below \<^verbatim>\<open>/t\<close>, in the tree of \<open>tree_os\<close>.\<close>

definition example_glob :: a0_pathglob where
  "example_glob = \<lparr>glob_path = ''/t/*/c'', glob_parts =
     [\<lparr>part_data = 1, part_size = 1, part_type = A0_PATHGLOB_PART_TYPE_VERBATIM\<rparr>,
      \<lparr>part_data = 3, part_size = 1, part_type = A0_PATHGLOB_PART_TYPE_PATTERN\<rparr>,
      \<lparr>part_data = 5, part_size = 1, part_type = A0_PATHGLOB_PART_TYPE_PATTERN\<rparr>]\<rparr>"

lemma example_glob: "a0_pathglob_init getenv (Some ''/t/*/c'') = Some (Inr example_glob)"
  by (simp add: a0_pathglob_init_def a0_abspath_def init_loop.simps add_part_def A0_PATHGLOB_MAX_DEPTH_def
    Let_def example_glob_def)

lemma example_match: "a0_pathglob_match getenv example_glob (Some ''/t/a/c'') = Some (Inr True)"
proof -
  have g: "parsed ''/t/*/c'' example_glob"
    using init_parsed [OF example_glob] by (simp add: example_glob_def)
  have "path_matches ''/t/*/c'' ''/t/a/c''" by (simp add: path_matches_def names_def)
  then show ?thesis
    using match_decides [OF g, of getenv "''/t/a/c''" "''/t/a/c''"]
    by (simp add: a0_abspath_def names_def A0_PATHGLOB_MAX_DEPTH_def)
qed

definition scan_os :: os where
  "scan_os = tree_os\<lparr>k_stat := \<lambda>h p. Inr \<lparr>st_isdir = True, st_size = 0\<rparr>\<rparr>"

definition scan_d :: a0_discovery where
  "scan_d = \<lparr>dc_pathglob = example_glob,
     watch_map = a0_map_init a0_hash_u32_fn a0_cmp_u32_fn (0, []),
     reverse_watch_map = a0_map_init a0_hash_str_fn a0_cmp_str_fn ([], 0),
     discovered_map = a0_map_init a0_hash_str_fn a0_cmp_str_fn ([], 0),
     epoll_fd = 8, inotify_fd = 5, close_fd = 6\<rparr>"

definition scan_h :: history where
  "scan_h = [Epoll_create 8, Eventfd 6, Epoll_add 8 6, Inotify_init 5, Epoll_add 8 5]"

lemma scan_init: "a0_discovery_init scan_os Map.empty (Some ''/t/*/c'') [] = Some (Inr scan_d, scan_h)"
  by (simp add: a0_discovery_init_def example_glob sys_def scan_os_def tree_os_def example_os_def scan_d_def scan_h_def Let_def)

lemma scan_fields:
  "k_readdir scan_os = tree_readdir" "listings_end scan_os 3" "names_fit scan_os" "can_list scan_os h p"
  using tree_listings_end tree_names_fit
  by (simp_all add: scan_os_def tree_os_def example_os_def listings_end_def names_fit_def can_list_def)

lemma scan_scannable: "scannable scan_os Map.empty example_glob"
  unfolding scannable_def
proof (intro allI impI conjI)
  fix h k n ty d
  assume a: "k_readdir scan_os h k = Some (n, ty) \<and> Opendir d (Inr k) \<in> set h" "ty = DT_REG"
  then have "(n, ty) \<in> set (tree_listing d)" using tree_readdir_Some [of h k n ty d] by (simp add: scan_fields(1))
  then have "child d n = ''/t/a/c''" using a(2) by (auto simp: tree_listing_def child_def slash_def split: if_splits)
  then show "a0_pathglob_match Map.empty example_glob (Some (child d n)) \<noteq> None" by (simp add: example_match)
qed (simp add: scan_fields)

lemma scan_rootlen: "fst (a0_discovery_rootlen scan_os scan_d scan_h) = 3"
  by (simp add: a0_discovery_rootlen_def rootlen_loop.simps scan_d_def example_glob_def sys_def scan_os_def Let_def)

theorem discovery_root_covers_witness:
  "\<exists>rest. ''/t/a/c'' = take (fst (a0_discovery_rootlen scan_os scan_d scan_h)) ''/t/*/c'' @ rest"
  using discovery_root_covers [OF example_glob [of Map.empty] _ _ _ example_match, of scan_d "''/t/a/c''" scan_os scan_h]
  by (simp add: a0_abspath_def scan_d_def) (simp add: example_glob_def)

section \<open>Discovery\<close>

text \<open>
  The first scan ends. When the root of the pattern and the directories below it can be listed,
  listings end and no path is too long or too deep, the scan with which the thread begins
  returns, and leaves the thread ready for events: it never uses a directory iterator that could
  not be made, and no map operation fails.
\<close>

theorem discovery_scan_returns:
  assumes "a0_discovery_init os getenv (Some pattern) h0 = Some (Inr d0, h1)"
    "fst (a0_discovery_rootlen os d0 h1) < PATH_MAX"
    "\<forall>h. can_list os h (take (fst (a0_discovery_rootlen os d0 h1)) (glob_path (dc_pathglob d0)))"
    "listings_end os N" "names_fit os" "scannable os getenv (dc_pathglob d0)"
  shows "\<exists>d h. a0_discovery_watch_root os getenv d0 h1 = Some (d, h)"
proof -
  let ?g = "dc_pathglob d0"
  obtain n h2 where l: "a0_discovery_rootlen os d0 h1 = (n, h2)" by fastforce
  have g: "a0_pathglob_init getenv (Some pattern) = Some (Inr ?g)" "dinv ?g [] d0" using init_dinv [OF assms(1)] by simp_all
  obtain j where j: "take n (glob_path ?g) = joined (take j (names (glob_path ?g))) @ ''/''"
    by (rule root_shape [OF g(1) refl, of os h1]) (simp add: l)
  have "is_abs (joined ns @ ''/'')" for ns by (cases ns) (simp_all add: is_abs_def joined_def)
  then have "is_abs (take n (glob_path ?g))" unfolding j .
  moreover have "length (take n (glob_path ?g)) \<le> PATH_MAX" using assms(2) l by simp
  ultimately obtain y where "watch_recursive_run os getenv (take n (glob_path ?g)) None d0 h2 = Some y"
    using scan_returns [OF assms(4,5,6) _ _ _ g(2)] assms(3) l by fastforce
  then show ?thesis
    using l assms(2) by (cases y) (simp add: a0_discovery_watch_root_def a0_discovery_watch_recursive_def)
qed

theorem discovery_scan_returns_witness:
  "\<exists>d h. a0_discovery_watch_root scan_os Map.empty scan_d scan_h = Some (d, h)"
  using discovery_scan_returns [OF scan_init, of 3] scan_rootlen scan_fields scan_scannable
  by (simp add: PATH_MAX_def scan_d_def)

lemma scan_thread: "\<exists>d h. thread_at scan_os Map.empty scan_d scan_h d h"
proof -
  have "is_abs ''/t/''" by (simp add: is_abs_def)
  moreover have "dinv example_glob [] scan_d" using init_dinv [OF scan_init] by (simp add: scan_d_def)
  ultimately have "\<exists>y. watch_recursive_run scan_os Map.empty ''/t/'' None scan_d (snd (a0_discovery_rootlen scan_os scan_d scan_h)) = Some y"
    by (intro scan_returns [OF scan_fields(2,3) scan_scannable _ _ scan_fields(4)]) (simp_all add: PATH_MAX_def)
  then obtain y where y: "watch_recursive_run scan_os Map.empty ''/t/'' None scan_d (snd (a0_discovery_rootlen scan_os scan_d scan_h)) = Some y"
    by blast
  have "take 3 (glob_path (dc_pathglob scan_d)) = ''/t/''" by (simp add: scan_d_def example_glob_def)
  then have "a0_discovery_watch_root scan_os Map.empty scan_d scan_h = Some y"
    using y scan_rootlen
    by (simp add: a0_discovery_watch_root_def a0_discovery_watch_recursive_def case_prod_beta PATH_MAX_def)
  then show ?thesis by (cases y) (auto intro: thread_at.root)
qed

text \<open>
  C27. Discovery announces what it should, once. At every moment of the thread's life, whatever the system has
  shown it, each path that it has announced matches the pattern, and was not announced before.
\<close>

theorem discovery_announces:
  assumes "a0_discovery_init os getenv pattern h0 = Some (Inr d0, h1)" "thread_at os getenv d0 h1 d h"
  shows "\<exists>tr. h = h1 @ tr \<and> (\<forall>pre p post. tr = pre @ Callback p # post \<longrightarrow>
     a0_pathglob_match getenv (dc_pathglob d0) (Some p) = Some (Inr True) \<and> Callback p \<notin> set pre)"
proof -
  obtain tr where tr: "h = h1 @ tr" "handled getenv (dc_pathglob d0) [] tr"
    using thread_grows [OF assms] by (auto simp: grows_def)
  show ?thesis
  proof (intro exI [of _ tr] conjI allI impI)
    fix pre p post assume "tr = pre @ Callback p # post"
    then have "fine getenv (dc_pathglob d0) pre (Callback p) post" using handled_split [of getenv "dc_pathglob d0" "[]" pre "Callback p" post] tr(2) by simp
    then show "a0_pathglob_match getenv (dc_pathglob d0) (Some p) = Some (Inr True)" "Callback p \<notin> set pre"
      by (simp_all add: matches_def)
  qed (rule tr(1))
qed

theorem discovery_announces_witness:
  "\<exists>d tr. thread_at scan_os Map.empty scan_d scan_h d (scan_h @ tr) \<and> (\<forall>pre p post. tr = pre @ Callback p # post \<longrightarrow>
     a0_pathglob_match Map.empty example_glob (Some p) = Some (Inr True) \<and> Callback p \<notin> set pre)"
proof -
  obtain d h where t: "thread_at scan_os Map.empty scan_d scan_h d h" using scan_thread by blast
  moreover have "dc_pathglob scan_d = example_glob" by (simp add: scan_d_def)
  ultimately show ?thesis using discovery_announces [OF scan_init t] by metis
qed

text \<open>
  C28. Discovery misses nothing that the system shows it. At every moment of the thread's life (between two
  rounds of its loop), each regular file that a listing has shown in a directory, and each entry, other than a
  directory, that inotify has reported for the directory of a watch, has been announced if its path
  matches the pattern.
\<close>

theorem discovery_complete:
  assumes "a0_discovery_init os getenv pattern h0 = Some (Inr d0, h1)" "thread_at os getenv d0 h1 d h"
  shows "\<exists>tr. h = h1 @ tr \<and>
     (\<forall>pre k n post. tr = pre @ Readdir k (Some (n, DT_REG)) # post \<and> n \<noteq> ''.'' \<and> n \<noteq> ''..'' \<longrightarrow>
        (\<exists>q. Opendir q (Inr k) \<in> set pre \<and>
           (a0_pathglob_match getenv (dc_pathglob d0) (Some (child q n)) = Some (Inr True) \<longrightarrow> Callback (child q n) \<in> set tr))) \<and>
     (\<forall>fd evts evt. Inotify_read fd (Inr evts) \<in> set tr \<and> evt \<in> set evts \<and> evt_len evt \<noteq> 0 \<and> \<not> evt_isdir evt \<longrightarrow>
        (\<exists>q f. Add_watch f q (Inr (evt_wd evt)) \<in> set tr \<and>
           (a0_pathglob_match getenv (dc_pathglob d0) (Some (child q (evt_name evt))) = Some (Inr True) \<longrightarrow>
              Callback (child q (evt_name evt)) \<in> set tr)))"
proof -
  let ?g = "dc_pathglob d0"
  obtain tr where tr: "h = h1 @ tr" "handled getenv ?g [] tr"
    using thread_grows [OF assms] by (auto simp: grows_def)
  have split: "fine getenv ?g pre ev post" if "tr = pre @ ev # post" for pre ev post
    using handled_split [of getenv ?g "[]" pre ev post] tr(2) that by simp
  show ?thesis
  proof (intro exI [of _ tr] conjI allI impI)
    fix pre k n post assume e: "tr = pre @ Readdir k (Some (n, DT_REG)) # post \<and> n \<noteq> ''.'' \<and> n \<noteq> ''..''"
    then obtain q where "Opendir q (Inr k) \<in> set pre" "entry_done getenv ?g pre post (child q n)"
      using split [of pre "Readdir k (Some (n, DT_REG))" post] by (auto simp: is_dots_def)
    then show "\<exists>q. Opendir q (Inr k) \<in> set pre \<and>
        (a0_pathglob_match getenv ?g (Some (child q n)) = Some (Inr True) \<longrightarrow> Callback (child q n) \<in> set tr)"
      using e by (auto simp: entry_done_def matches_def)
  next
    fix fd evts evt
    assume e: "Inotify_read fd (Inr evts) \<in> set tr \<and> evt \<in> set evts \<and> evt_len evt \<noteq> 0 \<and> \<not> evt_isdir evt"
    then obtain pre post where p: "tr = pre @ Inotify_read fd (Inr evts) # post" by (metis split_list)
    then have "evt_done getenv ?g pre post evt" using split [OF p] e by simp
    then show "\<exists>q f. Add_watch f q (Inr (evt_wd evt)) \<in> set tr \<and>
        (a0_pathglob_match getenv ?g (Some (child q (evt_name evt))) = Some (Inr True) \<longrightarrow> Callback (child q (evt_name evt)) \<in> set tr)"
      using e p by (fastforce simp: evt_done_def entry_done_def matches_def)
  qed (rule tr(1))
qed

theorem discovery_complete_witness:
  "\<exists>d tr. thread_at scan_os Map.empty scan_d scan_h d (scan_h @ tr) \<and>
     (\<forall>pre k n post. tr = pre @ Readdir k (Some (n, DT_REG)) # post \<and> n \<noteq> ''.'' \<and> n \<noteq> ''..'' \<longrightarrow>
        (\<exists>q. Opendir q (Inr k) \<in> set pre \<and>
           (a0_pathglob_match Map.empty example_glob (Some (child q n)) = Some (Inr True) \<longrightarrow> Callback (child q n) \<in> set tr)))"
proof -
  obtain d h where t: "thread_at scan_os Map.empty scan_d scan_h d h" using scan_thread by blast
  have g: "dc_pathglob scan_d = example_glob" by (simp add: scan_d_def)
  show ?thesis using discovery_complete [OF scan_init t] t unfolding g by blast
qed

text \<open>
  C29. Nothing falls between listing and watching. A directory is listed only after the watch on it was asked
  for, so that what appears in it while it is being listed is reported by inotify; and every directory
  that a listing shows, or that inotify reports, is itself opened for listing afterwards.
\<close>

theorem discovery_watch_first:
  assumes "a0_discovery_init os getenv pattern h0 = Some (Inr d0, h1)" "thread_at os getenv d0 h1 d h"
  shows "\<exists>tr. h = h1 @ tr \<and>
     (\<forall>pre q r post. tr = pre @ Opendir q r # post \<longrightarrow> (\<exists>fd x. Add_watch fd q x \<in> set pre)) \<and>
     (\<forall>pre k n post. tr = pre @ Readdir k (Some (n, DT_DIR)) # post \<and> n \<noteq> ''.'' \<and> n \<noteq> ''..'' \<longrightarrow>
        (\<exists>q k'. Opendir q (Inr k) \<in> set pre \<and> Opendir (child q n) (Inr k') \<in> set post)) \<and>
     (\<forall>pre fd evts post evt. tr = pre @ Inotify_read fd (Inr evts) # post \<and> evt \<in> set evts \<and> evt_len evt \<noteq> 0 \<and> evt_isdir evt \<longrightarrow>
        (\<exists>q f k. Add_watch f q (Inr (evt_wd evt)) \<in> set tr \<and> Opendir (child q (evt_name evt)) (Inr k) \<in> set post))"
proof -
  let ?g = "dc_pathglob d0"
  obtain tr where tr: "h = h1 @ tr" "handled getenv ?g [] tr"
    using thread_grows [OF assms] by (auto simp: grows_def)
  have split: "fine getenv ?g pre ev post" if "tr = pre @ ev # post" for pre ev post
    using handled_split [of getenv ?g "[]" pre ev post] tr(2) that by simp
  show ?thesis
  proof (intro exI [of _ tr] conjI allI impI)
    fix pre q r post assume "tr = pre @ Opendir q r # post"
    from split [OF this] show "\<exists>fd x. Add_watch fd q x \<in> set pre" by simp
  next
    fix pre k n post assume e: "tr = pre @ Readdir k (Some (n, DT_DIR)) # post \<and> n \<noteq> ''.'' \<and> n \<noteq> ''..''"
    then show "\<exists>q k'. Opendir q (Inr k) \<in> set pre \<and> Opendir (child q n) (Inr k') \<in> set post"
      using split [of pre "Readdir k (Some (n, DT_DIR))" post] by (auto simp: is_dots_def dir_done_def)
  next
    fix pre fd evts post evt
    assume e: "tr = pre @ Inotify_read fd (Inr evts) # post \<and> evt \<in> set evts \<and> evt_len evt \<noteq> 0 \<and> evt_isdir evt"
    then have "evt_done getenv ?g pre post evt" using split [of pre "Inotify_read fd (Inr evts)" post] by simp
    then show "\<exists>q f k. Add_watch f q (Inr (evt_wd evt)) \<in> set tr \<and> Opendir (child q (evt_name evt)) (Inr k) \<in> set post"
      using e by (fastforce simp: evt_done_def dir_done_def)
  qed (rule tr(1))
qed

theorem discovery_watch_first_witness:
  "\<exists>d tr. thread_at scan_os Map.empty scan_d scan_h d (scan_h @ tr) \<and>
     (\<forall>pre q r post. tr = pre @ Opendir q r # post \<longrightarrow> (\<exists>fd x. Add_watch fd q x \<in> set pre))"
proof -
  obtain d h where t: "thread_at scan_os Map.empty scan_d scan_h d h" using scan_thread by blast
  show ?thesis using discovery_watch_first [OF scan_init t] t by blast
qed


end
