(* ===== verification/Spec2Isabelle.thy ===== *)
theory Spec2Isabelle
  imports Transport_Props Transport_Runs Time Cfg_Correct Logger_Correct Pathglob_Correct Rpc_Correct Prpc_Correct Deadman_Steps RefCnt_Correct Discovery_Correct
begin

text \<open>
  A model of AlephZero, the C library under \<^verbatim>\<open>src/src\<close> and \<^verbatim>\<open>src/include/a0\<close>, and the proofs that it is
  correct. AlephZero lets processes talk through files in shared memory: a \<^bold>\<open>transport\<close> is a log of frames
  in a ring buffer, guarded by a robust mutex; \<^bold>\<open>writers\<close> put serialised \<^bold>\<open>packets\<close> into it, through a chain of
  middleware, \<^bold>\<open>readers\<close> follow it; and publish/subscribe, remote procedure calls (with and without
  progress), configuration, logging and the deadman switch are protocols on top of a writer
  and a reader. \<^bold>\<open>Files\<close> give the transports their memory, \<^bold>\<open>discovery\<close> finds those files.

  \<^bold>\<open>How code is modelled.\<close> Each C function is a definition of its own name.

    \<^item> Memory is a function from offsets to bytes. Code that works on shared memory (transport, mutexes,
      events, deadman, packets being laid out) passes a \<open>world\<close>: the memory, the answers of the kernel and of
      the clocks (parameters, functions of the number of calls made), the thread's robust-list head, and the
      ghost \<open>past\<close>, every memory before each single store. A process may die between any two
      stores, so a statement about all of \<open>past\<close> is a statement about every crash.
    \<^item> Code that works on files and directories passes a \<open>history\<close>: the system calls made so far, with their
      answers. The answers are a parameter, a function of the history: they stand for every file system,
      every failure, and for whatever other processes do in between. Statements are about the
      events that the code adds to the history.
    \<^item> Errors are the constructors of \<open>a0_err\<close>; \<^verbatim>\<open>a0_err_syscode\<close> is the argument of \<open>A0_ERR_SYS\<close>. A function that
      hands out a value or an error returns a sum. \<open>None\<close> is undefined behaviour (an access beyond an
      array, an unset pointer) or a call that never returns; a theorem that gives \<open>Some\<close> says that
      neither happens. Loops without an evident bound are \<open>partial_function (option)\<close>, so that no
      fuel is needed; the mutual recursion of \<^verbatim>\<open>a0_map_put\<close> and \<^verbatim>\<open>a0_map_grow\<close> has a depth as fuel, and two
      levels are shown to be enough.
    \<^item> Sizes are natural numbers with the wrap at $2^{64}$ written out where it can happen; flags, hashes
      and futex words are machine words. The bounds $2^{64}$ in the theorems are those of \<^verbatim>\<open>size_t\<close>, and the
      room they ask for (two arenas and 128 bytes, say) is what the additions in the code need.
    \<^item> Callbacks are values; what they do is the caller's. The JSON library, the C library's \<^verbatim>\<open>strerror\<close>, the
      seed of the random generator and the environment are parameters.
\<close>

text \<open>
  \<^bold>\<open>The theories.\<close>

    \<^item> \<open>Prelude\<close>: integer types, errors (\<^verbatim>\<open>include/a0/err.h\<close>, \<^verbatim>\<open>src/err_macro.h\<close>), byte memory with the laws of loads after
      stores. \<open>World\<close>, \<open>Bytes\<close>: the state, and strings of bytes in it. \<open>Process\<close>: \<^verbatim>\<open>src/once.c\<close>, \<^verbatim>\<open>src/tid.c\<close>, \<^verbatim>\<open>src/err.c\<close>.
    \<^item> \<open>Clock\<close>, \<open>Strconv\<close>, \<open>Time\<close>: \<^verbatim>\<open>src/clock.h\<close>, \<^verbatim>\<open>src/strconv.c\<close>, \<^verbatim>\<open>src/time.c\<close>; decimal conversion, and that
      wall times printed are read back.
    \<^item> \<open>Mtx\<close>, \<open>Mtx_Correct\<close>: \<^verbatim>\<open>src/ftx.h\<close>, \<^verbatim>\<open>src/robust.c\<close>, \<^verbatim>\<open>src/mtx.c\<close>. The doubly linked robust list in memory and the
      mutexes and condition variables over futex calls; at every store the list covers the mutex
      that is being taken or released. \<open>Event\<close>: \<^verbatim>\<open>src/event.c\<close>, \<^verbatim>\<open>src/latch.c\<close>.
    \<^item> \<open>Transport\<close> (\<^verbatim>\<open>src/transport.c\<close>, \<^verbatim>\<open>include/a0/arena.h\<close>): the operations on the bytes of the arena. \<open>Ring\<close>
      and \<open>Transport_Spec\<close> are the abstract log, a queue of frames in a ring with eviction; \<open>Transport_View\<close>
      reads it off the memory; \<open>Transport_Correct\<close>, \<open>Transport_Alloc\<close>, \<open>Transport_Init\<close> and \<open>Transport_Lock\<close> show that the
      code refines it, and \<open>Transport_Props\<close> states what follows, store by store. \<open>Publish\<close>
      shows that publishing leaves the held lock alone. \<open>Transport_Runs\<close> runs operations from the creation of the arena on:
      the mark of the furthest byte in use stays exact. \<open>Transport_Wait\<close> takes the waits of a reader apart into sleeps, and has the
      transport shut down during one of them. \<open>Log_Stream\<close> is what readers rely on: the locale \<open>frame_log\<close>, a log
      whose frames keep their numbers, interpreted on the transport.
    \<^item> \<open>Packet\<close>, \<open>Packet_Correct\<close>, \<open>Uuid\<close>: \<^verbatim>\<open>src/packet.c\<close>, \<^verbatim>\<open>src/uuid.c\<close>, \<^verbatim>\<open>src/rand.c\<close>; the flat form, its accessors, the
      round trip.
    \<^item> \<open>Writer\<close>, \<open>Writer_Correct\<close>: \<^verbatim>\<open>src/writer.c\<close>, \<^verbatim>\<open>src/middleware.c\<close>; the chain of middleware runs as its flat list, and a write
      appends one packet under the lock.
    \<^item> \<open>Reader\<close>, \<open>Reader_Alloc\<close>, \<open>Reader_Correct\<close>, \<open>Reader_Thread\<close>: \<^verbatim>\<open>src/reader.c\<close>; synchronous, blocking,
      threaded and random-access readers.
    \<^item> \<open>Cmp\<close>, \<open>Dictionary\<close>, \<open>HashMap\<close>, \<open>HashMap_Table\<close>, \<open>HashMap_Correct\<close>: \<^verbatim>\<open>src/cmp.c\<close>, \<^verbatim>\<open>src/map.c\<close>. The locale \<open>map_keys\<close> is what the map
      needs of its callbacks, \<open>dictionary\<close> and \<open>dictionary_store\<close> what its clients need of the map; both are
      interpreted on the callbacks and the map of the code. \<open>RefCnt\<close>, \<open>RefCnt_Correct\<close>: \<^verbatim>\<open>src/ref_cnt.c\<close>, a multiset.
    \<^item> \<open>Topic\<close> (\<^verbatim>\<open>src/env.c\<close>, \<^verbatim>\<open>src/topic.c\<close>), \<open>Wildcard\<close>, \<open>Pathglob\<close>, \<open>Pathglob_Correct\<close> (\<^verbatim>\<open>src/pathglob.c\<close>): paths and patterns; the
      greedy searches decide the declarative meaning of patterns, both by the locale \<open>wildcard\<close>.
    \<^item> \<open>Os\<close>, \<open>File\<close>, \<open>File_Correct\<close>, \<open>File_Remove\<close>: \<^verbatim>\<open>src/file.c\<close>; files appear complete, descriptors are not lost,
      removal of an absolute path removes its tree and nothing else, given what
      \<^verbatim>\<open>opendir\<close> documents of its handles and, for its completeness, finite listings and paths within \<^verbatim>\<open>PATH_MAX\<close>. \<open>Discovery\<close>, \<open>Discovery_Correct\<close>: \<^verbatim>\<open>src/discovery.c\<close>.
    \<^item> \<open>Endpoint\<close>, \<open>Endpoint_Correct\<close>: what the protocols share. \<open>Pubsub\<close>, \<open>Cfg\<close>, \<open>Logger\<close>, \<open>Rpc\<close>, \<open>Prpc\<close> and their \<open>_Correct\<close>
      theories: the protocols, from the call of one side to the callback of the other.
    \<^item> \<open>Deadman\<close>, \<open>Deadman_Correct\<close>, \<open>Deadman_Steps\<close>: \<^verbatim>\<open>src/deadman_mtx.c\<close>, \<^verbatim>\<open>src/deadman.c\<close>. The operations on memory, one
      thread at a time, and any number of threads as a step relation at their atomic accesses, which
      taking and releasing are shown to follow when they run undisturbed, and on whose states waiting is described.

  \<^bold>\<open>What is shown where code goes wrong.\<close> Some theorems have hypotheses that the code does not check, and state what
  happens otherwise: a pattern or path of more than 32 names (\<open>Pathglob_Correct\<close>), pointers that are not within one window of 4
  GiB (\<open>Cmp\<close>), the token of the previous holder that a wait for a deadman can return (\<open>Deadman_Steps\<close>), the
  masked error of a timed wait (\<open>Mtx_Correct\<close>), frames made public by the eviction of a later one (\<open>Transport_Props\<close>).

  \<^bold>\<open>Not modelled.\<close> The C++ interface (\<^verbatim>\<open>*.hpp\<close>, \<^verbatim>\<open>*.cpp\<close>): classes that hold the C structures, throw the error codes as
  exceptions and forward each call. Tests and benchmarks. Middleware written by users: the chain is made of that of
  the library. Freeing memory, and failure of \<^verbatim>\<open>malloc\<close>. The assertions and the
  reference counting that only debug builds compile in (\<open>RefCnt\<close> models the counts themselves). Annotations for the
  thread sanitizer. The debug printer of the transport. The bytes of the buffer that inotify fills: the model gets the
  events they hold. Two processes in the transport at once: the mutex serialises them, which the step
  relation of the deadman and the lemmas of \<open>Mtx_Correct\<close> are about; the transport is verified for the
  holder of the lock, with everything others did before as part of its initial memory. Opening and
  closing the files of topics is left out of the protocols, which are given the arena.
\<close>

section \<open>From writer to reader\<close>

text \<open>
  What is written is read. A reader that has read all there is finds nothing more to read;
  once a packet has been written, its next read delivers exactly the serialised
  form of that packet, whatever the writer had to evict to make room, and after that there is
  again nothing to read. The writer and the reader may be different connections.
\<close>

theorem publish_subscribe_spec:
  assumes "idle A w ms st" "arena_mode t = A0_ARENA_MODE_SHARED" "arena_mode (r_transport r) = A0_ARENA_MODE_SHARED"
    and "packet_ok pkt" "184 + length (flat pkt) \<le> A" "length (flat pkt) + A + 128 < 2 ^ 64" "s_high st + 1 < 2 ^ 64"
    and "iter_on (stream_of (mm w) st) (r_transport r)" "steps_first r" "t_seq (r_transport r) = s_high st" "looks cb f"
  shows "\<exists>r0 w0 w1 r2 w2 r3 w3. a0_reader_sync_zc_read cb r s w = Some (A0_ERR_AGAIN, s, r0, w0) \<and>
     a0_writer_write merge [Write_action t] pkt w = Some (A0_OK, w1) \<and>
     a0_reader_sync_zc_read cb r s w1 = Some (A0_OK, f (flat pkt) s, r2, w2) \<and>
     a0_reader_sync_zc_read cb r2 (f (flat pkt) s) w2 = Some (A0_ERR_AGAIN, f (flat pkt) s, r3, w3) \<and>
     (\<exists>st'. idle A w3 ms st' \<and> s_high st' = s_high st + 1 \<and> last (contents (mm w3) st') = flat pkt)"
proof -
  let ?n = "t_seq (r_transport r)"
  have "\<not> readable r st" using assms(9,10) by (simp add: readable_def)
  with sync_read [OF assms(1,3,8,11), of s] obtain r0 w0
    where 0: "a0_reader_sync_zc_read cb r s w = Some (A0_ERR_AGAIN, s, r0, w0)" by auto
  obtain w1 where 1: "a0_writer_write merge [Write_action t] pkt w = Some (A0_OK, w1)" "appends A w w1 ms st (flat pkt)"
    using write_appends [OF assms(1,2,4-7)] by blast
  have ok: "log_ok A st" using assms(1) by (simp add: idle_def committed_def)
  obtain st' where st': "idle A w1 ms st'" "log_step\<^sup>*\<^sup>* (stream_of (mm w) st) (stream_of (mm w1) st')"
      "frames st' \<noteq> []" "last (contents (mm w1) st') = flat pkt" "s_high st' = s_high st + 1"
    using appends_runs [OF 1(2) ok] by blast
  have ok': "log_ok A st'" using st'(1) by (simp add: idle_def committed_def)
  have len: "length (contents (mm w1) st') = length (frames st')" by (simp add: contents_def)
  have "s_high st' + 1 = s_low st' + length (frames st')" "length (frames st') \<noteq> 0"
    using log_seq [OF ok' st'(3)] st'(3) by simp_all
  then have pos: "s_high st' - s_low st' = length (frames st') - 1" "s_low st' \<le> s_high st'" by arith+
  have it: "iter_on (stream_of (mm w1) st') (r_transport r)" by (rule iter_on_runs [OF st'(2) assms(8)])
  have rd: "readable r st'" using st'(3,5) assms(10) by (simp add: readable_def)
  have no: "read_no r st' = s_high st'"
    using assms(9,10) st'(5) pos(2) by (simp add: read_no_def Let_def next_no_def split: a0_reader_iter.splits)
  have "contents (mm w1) st' ! (read_no r st' - s_low st') = last (contents (mm w1) st')"
    using pos(1) st'(3) len no by (metis last_conv_nth length_0_conv)
  then have d: "contents (mm w1) st' ! (read_no r st' - s_low st') = flat pkt" using st'(4) by simp
  from sync_read [OF st'(1) assms(3) it assms(11), of s] rd d no obtain r2 w2 where
    2: "a0_reader_sync_zc_read cb r s w1 = Some (A0_OK, f (flat pkt) s, r2, w2)" "first_read_done r2"
      "t_seq (r_transport r2) = s_high st'" "idle A w2 ms st'" "contents (mm w2) st' = contents (mm w1) st'"
      "arena_mode (r_transport r2) = A0_ARENA_MODE_SHARED" "iter_on (stream_of (mm w2) st') (r_transport r2)"
    by auto
  have "\<not> readable r2 st'" using 2(2,3) by (simp add: readable_def steps_first_def)
  with sync_read [OF 2(4,6,7) assms(11), of "f (flat pkt) s"] obtain r3 w3 where
    "a0_reader_sync_zc_read cb r2 (f (flat pkt) s) w2 = Some (A0_ERR_AGAIN, f (flat pkt) s, r3, w3)"
    "idle A w3 ms st'" "contents (mm w3) st' = contents (mm w2) st'"
    by auto
  then show ?thesis using 0 1(1) 2(1,5) st'(4,5) by metis
qed

theorem publish_subscribe_spec_witness:
  "\<exists>w1 r2 w2. a0_writer_write example_merge [Write_action conn] example_packet arena = Some (A0_OK, w1) \<and>
     a0_reader_sync_zc_read collect (example_reader A0_INIT_AWAIT_NEW) [] w1 = Some (A0_OK, [flat example_packet], r2, w2)"
proof -
  let ?r = "example_reader A0_INIT_AWAIT_NEW"
  have r: "r_transport ?r = conn" "steps_first ?r" by (simp_all add: example_reader_def steps_first_def)
  have "t_seq (r_transport ?r) = s_high empty_log" by (simp add: r conn_def)
  from publish_subscribe_spec [OF arena_idle conn_mode _ example_packet(1) _ _ _ _ r(2) this collect, of "[]" example_merge]
  show ?thesis using conn_follows by (auto simp: r(1) example_packet(4))
qed

end
